(* ===== verification/Prelude.thy ===== *)
theory Prelude
  imports Main "HOL-Library.Word"
begin

text \<open>
  Shared vocabulary of the development: the machine integers of the C sources, byte
  memories, the READ/WRITE macros that every program of the repository defines for
  itself, and generic facts on them.

  A C buffer is a \<open>mem\<close>, a total function from byte offsets to bytes, together with the
  size the code passes around: reading past the size yields whatever lies there, as in C,
  and that a function does not do so is a theorem (its result does not depend on those
  bytes). A byte sequence with no address of its own is a list.
\<close>

unbundle bit_operations_syntax

declare add_2_eq_Suc [simp del] add_2_eq_Suc' [simp del]

section \<open>Types\<close>

type_synonym byte = "8 word"
type_synonym u16 = "16 word"
type_synonym u32 = "32 word"
type_synonym u64 = "64 word"
type_synonym mem = "nat \<Rightarrow> byte"

named_theorems word_nat \<open>reading a word as a natural number\<close>
named_theorems mem_simps \<open>reads of written memories\<close>

lemma drop_bit_nat [word_nat]: "drop_bit n (k :: nat) = k div 2 ^ n"
  by (rule drop_bit_eq_div)

lemma take_bit_nat [word_nat]: "take_bit n (k :: nat) = k mod 2 ^ n"
  by (rule take_bit_eq_mod)

lemma unat_ucast [word_nat]: "unat (ucast w :: 'b::len word) = unat w mod 2 ^ LENGTH('b)"
  by (simp add: unsigned_ucast_eq take_bit_nat)

lemma unat_drop_bit [word_nat]: "unat (drop_bit n w) = unat w div 2 ^ n"
  by (simp add: unat_drop_bit_eq drop_bit_nat)

section \<open>Byte memories\<close>

definition mslice :: "mem \<Rightarrow> nat \<Rightarrow> nat \<Rightarrow> byte list" where
  "mslice m off n = map (\<lambda>i. m (off + i)) [0..<n]"

definition blit :: "mem \<Rightarrow> nat \<Rightarrow> byte list \<Rightarrow> mem" where
  "blit m off bs = (\<lambda>i. if off \<le> i \<and> i < off + length bs then bs ! (i - off) else m i)"

lemma length_mslice [simp]: "length (mslice m off n) = n"
  by (simp add: mslice_def)

lemma nth_mslice [simp]: "i < n \<Longrightarrow> mslice m off n ! i = m (off + i)"
  by (simp add: mslice_def)

lemma mslice_0 [simp]: "mslice m off 0 = []"
  by (simp add: mslice_def)

lemma mslice_Nil_iff [simp]: "mslice m off n = [] \<longleftrightarrow> n = 0"
  by (simp add: mslice_def)

lemma mslice_Suc: "mslice m off (Suc n) = m off # mslice m (Suc off) n"
  by (rule nth_equalityI) (auto simp: nth_Cons split: nat.splits)

lemma mslice_snoc: "mslice m off (Suc n) = mslice m off n @ [m (off + n)]"
  by (simp add: mslice_def)

lemma mslice_add: "mslice m off (a + b) = mslice m off a @ mslice m (off + a) b"
  by (rule nth_equalityI) (auto simp: nth_append algebra_simps)

lemma mslice_cong:
  "(\<And>i. off \<le> i \<Longrightarrow> i < off + n \<Longrightarrow> m i = m' i) \<Longrightarrow> mslice m off n = mslice m' off n"
  by (rule nth_equalityI) auto

lemma take_mslice [simp]: "take k (mslice m off n) = mslice m off (min k n)"
  by (rule nth_equalityI) auto

lemma drop_mslice [simp]: "drop k (mslice m off n) = mslice m (off + k) (n - k)"
  by (rule nth_equalityI) (auto simp: algebra_simps)

lemma blit_Nil [simp]: "blit m off [] = m"
  by (rule ext) (auto simp: blit_def)

lemma blit_in [mem_simps]: "off \<le> i \<Longrightarrow> i < off + length bs \<Longrightarrow> blit m off bs i = bs ! (i - off)"
  by (simp add: blit_def)

lemma blit_out [mem_simps]: "i < off \<or> off + length bs \<le> i \<Longrightarrow> blit m off bs i = m i"
  by (auto simp: blit_def)

lemma mslice_blit_same [simp]: "mslice (blit m off bs) off (length bs) = bs"
  by (rule nth_equalityI) (auto simp: blit_in)

lemma mslice_blit_other:
  "off' + n \<le> off \<or> off + length bs \<le> off' \<Longrightarrow> mslice (blit m off bs) off' n = mslice m off' n"
  by (rule mslice_cong) (auto simp: blit_def)

lemma blit_upd: "blit m off [b] = m(off := b)"
  by (rule ext) (auto simp: blit_def)

lemma blit_append: "blit (blit m off xs) (off + length xs) ys = blit m off (xs @ ys)"
  by (rule ext) (auto simp: blit_def nth_append)

lemma blit_append0: "n = length xs \<Longrightarrow> blit (blit m 0 xs) n ys = blit m 0 (xs @ ys)"
  using blit_append [of m 0 xs ys] by simp

lemma blit_snoc: "(blit m off xs)(off + length xs := y) = blit m off (xs @ [y])"
  by (simp add: blit_upd [symmetric] blit_append)

lemma blit_mslice_id [simp]: "blit m off (mslice m off n) = m"
  by (rule ext) (auto simp: blit_def)

lemma blit_blit_same: "length xs = length ys \<Longrightarrow> blit (blit m off xs) off ys = blit m off ys"
  by (rule ext) (auto simp: blit_def)

section \<open>READ and WRITE macros\<close>

text \<open>
  \<open>WRITE16_LE\<close>, \<open>WRITE32_LE\<close>, \<open>WRITE16_BE\<close>, \<open>WRITE32_BE\<close> store the bytes below in this
  order, and the READ macros put them together again. The value of a macro is an
  \<open>int\<close> in C; every use in the sources takes it as an unsigned number, so it is a 32-bit
  word here.
\<close>

definition WRITE16_LE :: "u32 \<Rightarrow> byte list" where
  "WRITE16_LE a = [ucast a, ucast (drop_bit 8 a)]"

definition WRITE32_LE :: "u32 \<Rightarrow> byte list" where
  "WRITE32_LE a = [ucast a, ucast (drop_bit 8 a), ucast (drop_bit 16 a), ucast (drop_bit 24 a)]"

definition WRITE16_BE :: "u32 \<Rightarrow> byte list" where
  "WRITE16_BE a = [ucast (drop_bit 8 a), ucast a]"

definition WRITE32_BE :: "u32 \<Rightarrow> byte list" where
  "WRITE32_BE a = [ucast (drop_bit 24 a), ucast (drop_bit 16 a), ucast (drop_bit 8 a), ucast a]"

definition READ16_LE :: "mem \<Rightarrow> nat \<Rightarrow> u32" where
  "READ16_LE m p = ucast (m p) OR push_bit 8 (ucast (m (p + 1)))"

definition READ32_LE :: "mem \<Rightarrow> nat \<Rightarrow> u32" where
  "READ32_LE m p = ucast (m p) OR push_bit 8 (ucast (m (p + 1)))
     OR push_bit 16 (ucast (m (p + 2))) OR push_bit 24 (ucast (m (p + 3)))"

definition READ16_BE :: "mem \<Rightarrow> nat \<Rightarrow> u32" where
  "READ16_BE m p = push_bit 8 (ucast (m p)) OR ucast (m (p + 1))"

definition READ32_BE :: "mem \<Rightarrow> nat \<Rightarrow> u32" where
  "READ32_BE m p = push_bit 24 (ucast (m p)) OR push_bit 16 (ucast (m (p + 1)))
     OR push_bit 8 (ucast (m (p + 2))) OR ucast (m (p + 3))"

lemma length_WRITE [simp]:
  "length (WRITE16_LE a) = 2" "length (WRITE32_LE a) = 4"
  "length (WRITE16_BE a) = 2" "length (WRITE32_BE a) = 4"
  by (simp_all add: WRITE16_LE_def WRITE32_LE_def WRITE16_BE_def WRITE32_BE_def)

lemma bit_byte: "bit (b :: byte) n \<Longrightarrow> n < 8"
  using bit_imp_le_length by force

text \<open>Reading back what was written, at any place of a memory.\<close>

lemma byte_index_cases:
  assumes "n < (32::nat)"
  obtains "n < 8" | "8 \<le> n" "n < 16" | "16 \<le> n" "n < 24" | "24 \<le> n" "n < 32"
  using assms by linarith

lemma READ32_BE_WRITE:
  "READ32_BE (blit m p (WRITE32_BE a)) p = a"
proof (rule bit_word_eqI)
  fix n assume "n < LENGTH(32)"
  then have "n < 32" by simp
  then show "bit (READ32_BE (blit m p (WRITE32_BE a)) p) n = bit a n"
    by (cases rule: byte_index_cases)
      (auto simp: READ32_BE_def WRITE32_BE_def blit_def bit_simps nth_Cons split: nat.splits)
qed

lemma READ32_LE_WRITE:
  "READ32_LE (blit m p (WRITE32_LE a)) p = a"
proof (rule bit_word_eqI)
  fix n assume "n < LENGTH(32)"
  then have "n < 32" by simp
  then show "bit (READ32_LE (blit m p (WRITE32_LE a)) p) n = bit a n"
    by (cases rule: byte_index_cases)
      (auto simp: READ32_LE_def WRITE32_LE_def blit_def bit_simps nth_Cons split: nat.splits)
qed

text \<open>The 16-bit macros in terms of numbers.\<close>

lemma disjoint_shift8: "push_bit 8 (ucast a :: u32) OR ucast (b :: byte) = push_bit 8 (ucast (a :: byte)) + ucast b"
  by (rule disjunctive_add [symmetric]) (auto simp: bit_simps dest: bit_byte)

lemma byte_less: "unat (b :: byte) < 256"
  using unsigned_less [of b, where ?'a = nat] by simp

lemma unat_shift8_or:
  "unat (push_bit 8 (ucast (a :: byte) :: u32) OR ucast (b :: byte)) = 256 * unat a + unat b"
proof -
  have "unat (ucast a :: u32) = unat a" "unat (ucast b :: u32) = unat b"
    using byte_less [of a] byte_less [of b] by (simp_all add: word_nat)
  then show ?thesis
    unfolding disjoint_shift8 using byte_less [of a] byte_less [of b]
    by (simp add: push_bit_eq_mult unat_word_ariths)
qed

lemma unat_READ16_BE [word_nat]:
  "unat (READ16_BE m p) = 256 * unat (m p) + unat (m (p + 1))"
  unfolding READ16_BE_def by (rule unat_shift8_or)

lemma unat_READ16_LE [word_nat]:
  "unat (READ16_LE m p) = unat (m p) + 256 * unat (m (p + 1))"
  unfolding READ16_LE_def by (subst or.commute) (simp only: unat_shift8_or add.commute)

lemma READ16_BE_bound: "unat (READ16_BE m p) < 65536"
  unfolding unat_READ16_BE using byte_less [of "m p"] byte_less [of "m (p + 1)"] by linarith

lemma READ16_BE_cong: "m p = m' p' \<Longrightarrow> m (p + 1) = m' (p' + 1) \<Longrightarrow> READ16_BE m p = READ16_BE m' p'"
  by (simp add: READ16_BE_def)

lemma READ16_BE_WRITE:
  "a < 0x10000 \<Longrightarrow> READ16_BE (blit m p (WRITE16_BE a)) p = a"
proof (rule word_unat_eq_iff [THEN iffD2])
  assume "a < 0x10000"
  then have "unat a < 65536" by (simp add: word_less_nat_alt)
  then show "unat (READ16_BE (blit m p (WRITE16_BE a)) p) = unat a"
    by (simp add: WRITE16_BE_def blit_def word_nat)
qed

lemma READ16_BE_mslice:
  assumes "mslice m 0 (n + 2) = p @ WRITE16_BE a" "length p = n" "unat a < 65536"
  shows "READ16_BE m n = a"
proof -
  have "m = blit m 0 (p @ WRITE16_BE a)" by (simp only: assms(1) [symmetric] blit_mslice_id)
  also have "\<dots> = blit (blit m 0 p) n (WRITE16_BE a)" using assms(2) by (simp add: blit_append0)
  finally show ?thesis
    using READ16_BE_WRITE [of a "blit m 0 p" n] assms(3) by (simp add: word_less_nat_alt)
qed

lemma READ32_BE_mslice:
  assumes "mslice m p 4 = WRITE32_BE a"
  shows "READ32_BE m p = a"
  using READ32_BE_WRITE [of m p a] unfolding assms [symmetric] by simp

section \<open>Memories with 32-bit addresses\<close>

definition mupd :: "(u32 \<Rightarrow> byte) \<Rightarrow> u32 \<Rightarrow> byte list \<Rightarrow> u32 \<Rightarrow> byte" where
  "mupd m a bs = (\<lambda>x. if unat (x - a) < length bs then bs ! unat (x - a) else m x)"

definition mbytes :: "(u32 \<Rightarrow> byte) \<Rightarrow> u32 \<Rightarrow> nat \<Rightarrow> byte list" where
  "mbytes m a n = map (\<lambda>i. m (a + of_nat i)) [0..<n]"

lemma length_mbytes [simp]: "length (mbytes m a n) = n"
  by (simp add: mbytes_def)

lemma mupd_Nil [simp]: "mupd m a [] = m"
  by (simp add: mupd_def)

lemma mbytes_0 [simp]: "mbytes m a 0 = []"
  by (simp add: mbytes_def)

lemma mbytes_add: "mbytes m a (j + k) = mbytes m a j @ mbytes m (a + of_nat j) k"
  by (rule nth_equalityI) (auto simp: mbytes_def nth_append algebra_simps)

lemma unat_diff_add:
  fixes x a :: u32
  assumes "k < 2 ^ 32"
  shows "unat (x - (a + of_nat k)) = (if k \<le> unat (x - a) then unat (x - a) - k else 2 ^ 32 + unat (x - a) - k)"
proof -
  have k: "unat (of_nat k :: u32) = k" using assms by (simp add: unat_of_nat)
  have e: "x - (a + of_nat k) = (x - a) - of_nat k" by simp
  show ?thesis
  proof (cases "k \<le> unat (x - a)")
    case True
    then show ?thesis unfolding e by (subst unat_sub) (simp_all add: k word_le_nat_alt)
  next
    case False
    then show ?thesis unfolding e
      using unat_sub_if' [of "x - a" "of_nat k"] by (simp add: k word_le_nat_alt)
  qed
qed

lemma mupd_append:
  assumes "length xs + length ys \<le> 2 ^ 32"
  shows "mupd (mupd m a xs) (a + of_nat (length xs)) ys = mupd m a (xs @ ys)"
proof (cases "ys = []")
  case False
  then have "length xs < 2 ^ 32" using assms by (cases ys) auto
  then have "unat (x - (a + of_nat (length xs))) =
      (if length xs \<le> unat (x - a) then unat (x - a) - length xs
       else 2 ^ 32 + unat (x - a) - length xs)" for x
    by (rule unat_diff_add)
  then show ?thesis using assms by (auto simp: mupd_def nth_append fun_eq_iff)
qed simp

text \<open>Powers of two, and an OR of fields that do not overlap.\<close>

lemma unat_2p:
  assumes "n < 32"
  shows "unat ((2 :: u32) ^ n) = 2 ^ n"
proof -
  have "(2 :: nat) ^ n < 2 ^ LENGTH(32)" using assms by (simp only: power_strict_increasing_iff) simp
  then have "unat (of_nat (2 ^ n) :: u32) = 2 ^ n" unfolding unat_of_nat by (rule mod_less)
  then show ?thesis by (simp only: of_nat_power of_nat_numeral)
qed

lemma or_high:
  fixes x :: u32
  assumes "unat x < 2 ^ n"
  shows "x OR push_bit n c = x + push_bit n c"
proof (rule disjunctive_add [symmetric])
  have t: "take_bit n (unat x) = unat x" using assms by (rule take_bit_nat_eq_self)
  show "\<not> bit x i \<or> \<not> bit (push_bit n c) i" for i
  proof (cases "i < n")
    case False
    then have "\<not> bit (unat x) i" using bit_take_bit_iff [of n "unat x" i] unfolding t by simp
    then show ?thesis by (simp add: bit_unsigned_iff)
  qed (simp add: bit_push_bit_iff)
qed

end
