(* ===== verification/CMonad.thy ===== *)
theory CMonad
  imports Prelude
begin

text \<open>
  The effects of the C programs. A statement is a function from the program state to an
  outcome: a value with the new state (\<open>Ret\<close>), the end of the process through the
  \<open>ERR_EXIT\<close> macro (\<open>Exit\<close>, with the arguments of the macro and the state it leaves
  behind), or \<open>OutOfFuel\<close>, when a loop that the outside world keeps busy has used up the
  number of rounds it was given. \<open>wp\<close> is the weakest-precondition reading of a statement,
  computed by rewriting with the collection \<open>wp_simps\<close>.
\<close>

section \<open>Statements\<close>

datatype parg = PI int | PS string

datatype exit_reason = ErrExit string "parg list"

datatype ('a, 's) outcome = Ret 'a 's | Exit exit_reason 's | OutOfFuel 's

type_synonym ('s, 'a) cm = "'s \<Rightarrow> ('a, 's) outcome"

definition ret :: "'a \<Rightarrow> ('s, 'a) cm" where
  "ret a = (\<lambda>s. Ret a s)"

definition bnd :: "('s, 'a) cm \<Rightarrow> ('a \<Rightarrow> ('s, 'b) cm) \<Rightarrow> ('s, 'b) cm" where
  "bnd m f = (\<lambda>s. case m s of Ret a s' \<Rightarrow> f a s' | Exit e s' \<Rightarrow> Exit e s' | OutOfFuel s' \<Rightarrow> OutOfFuel s')"

definition thn :: "('s, 'a) cm \<Rightarrow> ('s, 'b) cm \<Rightarrow> ('s, 'b) cm" where
  "thn m n = bnd m (\<lambda>_. n)"

definition gets :: "('s \<Rightarrow> 'a) \<Rightarrow> ('s, 'a) cm" where
  "gets f = (\<lambda>s. Ret (f s) s)"

definition modify :: "('s \<Rightarrow> 's) \<Rightarrow> ('s, unit) cm" where
  "modify f = (\<lambda>s. Ret () (f s))"

definition err_exit :: "string \<Rightarrow> parg list \<Rightarrow> ('s, 'a) cm" where
  "err_exit fmt args = (\<lambda>s. Exit (ErrExit fmt args) s)"

definition no_fuel :: "('s, 'a) cm" where
  "no_fuel = (\<lambda>s. OutOfFuel s)"

definition cwhen :: "bool \<Rightarrow> ('s, unit) cm \<Rightarrow> ('s, unit) cm" where
  "cwhen b m = (if b then m else ret ())"

lemma bnd_cases:
  "bnd m f s = Ret b t \<longleftrightarrow> (\<exists>a u. m s = Ret a u \<and> f a u = Ret b t)"
  by (auto simp: bnd_def split: outcome.splits)

section \<open>Running statements\<close>

named_theorems run_simps \<open>execution of statements\<close>

lemma run_ret [run_simps]: "ret a s = Ret a s"
  by (simp add: ret_def)

lemma run_gets [run_simps]: "gets f s = Ret (f s) s"
  by (simp add: gets_def)

lemma run_modify [run_simps]: "modify f s = Ret () (f s)"
  by (simp add: modify_def)

lemma run_err_exit [run_simps]: "err_exit fmt args s = Exit (ErrExit fmt args) s"
  by (simp add: err_exit_def)

lemma run_no_fuel [run_simps]: "no_fuel s = OutOfFuel s"
  by (simp add: no_fuel_def)

lemma run_bnd [run_simps]:
  "m s = Ret a s' \<Longrightarrow> bnd m f s = f a s'"
  "m s = Exit e s' \<Longrightarrow> bnd m f s = Exit e s'"
  "m s = OutOfFuel s' \<Longrightarrow> bnd m f s = OutOfFuel s'"
  by (simp_all add: bnd_def)

lemma run_thn [run_simps]:
  "m s = Ret a s' \<Longrightarrow> thn m n s = n s'"
  "m s = Exit e s' \<Longrightarrow> thn m n s = Exit e s'"
  "m s = OutOfFuel s' \<Longrightarrow> thn m n s = OutOfFuel s'"
  by (simp_all add: bnd_def thn_def)

lemma run_cwhen [run_simps]: "cwhen b m s = (if b then m s else Ret () s)"
  by (simp add: cwhen_def ret_def)

lemma run_if [run_simps]: "(if b then m else n) s = (if b then m s else n s)"
  by simp

lemma bnd_assoc: "bnd (bnd m f) g = bnd m (\<lambda>a. bnd (f a) g)"
  by (rule ext) (auto simp: bnd_def split: outcome.splits)

lemma bnd_ret [simp]: "bnd (ret a) f = f a"
  by (rule ext) (simp add: bnd_def ret_def)

section \<open>Weakest preconditions\<close>

text \<open>
  \<open>wp m Q E\<close> holds in a state from which \<open>m\<close> returns with \<open>Q\<close> or ends the process with
  \<open>E\<close>; a loop that runs out of rounds satisfies neither, so \<open>wp\<close> is total correctness.
\<close>

definition wp :: "('s, 'a) cm \<Rightarrow> ('a \<Rightarrow> 's \<Rightarrow> bool) \<Rightarrow> (exit_reason \<Rightarrow> 's \<Rightarrow> bool) \<Rightarrow> 's \<Rightarrow> bool" where
  "wp m Q E s = (case m s of Ret a s' \<Rightarrow> Q a s' | Exit e s' \<Rightarrow> E e s' | OutOfFuel _ \<Rightarrow> False)"

named_theorems wp_simps \<open>weakest preconditions of statements\<close>

lemma wp_ret [wp_simps]: "wp (ret a) Q E s = Q a s"
  by (simp add: wp_def ret_def)

lemma wp_gets [wp_simps]: "wp (gets f) Q E s = Q (f s) s"
  by (simp add: wp_def gets_def)

lemma wp_modify [wp_simps]: "wp (modify f) Q E s = Q () (f s)"
  by (simp add: wp_def modify_def)

lemma wp_err_exit [wp_simps]: "wp (err_exit fmt args) Q E s = E (ErrExit fmt args) s"
  by (simp add: wp_def err_exit_def)

lemma wp_no_fuel [wp_simps]: "wp no_fuel Q E s = False"
  by (simp add: wp_def no_fuel_def)

lemma wp_bnd [wp_simps]: "wp (bnd m f) Q E s = wp m (\<lambda>a. wp (f a) Q E) E s"
  by (simp add: wp_def bnd_def split: outcome.splits)

lemma wp_thn [wp_simps]: "wp (thn m n) Q E s = wp m (\<lambda>_. wp n Q E) E s"
  by (simp add: thn_def wp_bnd)

lemma wp_cwhen [wp_simps]: "wp (cwhen b m) Q E s = (if b then wp m Q E s else Q () s)"
  by (simp add: cwhen_def wp_ret)

lemma wp_if [wp_simps]: "wp (if b then m else n) Q E s = (if b then wp m Q E s else wp n Q E s)"
  by simp

lemma wp_mono:
  assumes "wp m Q E s"
    and "\<And>a t. Q a t \<Longrightarrow> Q' a t" and "\<And>e t. E e t \<Longrightarrow> E' e t"
  shows "wp m Q' E' s"
  using assms by (auto simp: wp_def split: outcome.splits)

lemma wp_Ret: "wp m Q (\<lambda>_ _. False) s \<Longrightarrow> \<exists>a t. m s = Ret a t \<and> Q a t"
  by (auto simp: wp_def split: outcome.splits)

section \<open>Invariants\<close>

text \<open>\<open>wlp m Q s\<close>: if \<open>m\<close> returns from \<open>s\<close>, it does so with \<open>Q\<close>.\<close>

definition wlp :: "('s, 'a) cm \<Rightarrow> ('a \<Rightarrow> 's \<Rightarrow> bool) \<Rightarrow> 's \<Rightarrow> bool" where
  "wlp m Q s = (case m s of Ret a t \<Rightarrow> Q a t | _ \<Rightarrow> True)"

named_theorems wlp_simps \<open>liberal preconditions of statements\<close>

lemma wlp_ret [wlp_simps]: "wlp (ret a) Q s = Q a s"
  by (simp add: wlp_def ret_def)

lemma wlp_gets [wlp_simps]: "wlp (gets f) Q s = Q (f s) s"
  by (simp add: wlp_def gets_def)

lemma wlp_modify [wlp_simps]: "wlp (modify f) Q s = Q () (f s)"
  by (simp add: wlp_def modify_def)

lemma wlp_no_fuel [wlp_simps]: "wlp no_fuel Q s"
  by (simp add: wlp_def no_fuel_def)

lemma wlp_bnd [wlp_simps]: "wlp (bnd m f) Q s = wlp m (\<lambda>a. wlp (f a) Q) s"
  by (simp add: wlp_def bnd_def split: outcome.splits)

lemma wlp_thn [wlp_simps]: "wlp (thn m n) Q s = wlp m (\<lambda>_. wlp n Q) s"
  by (simp add: thn_def wlp_bnd)

lemma wlp_cwhen [wlp_simps]: "wlp (cwhen b m) Q s = (if b then wlp m Q s else Q () s)"
  by (simp add: cwhen_def wlp_ret)

lemma wlp_if [wlp_simps]: "wlp (if b then m else n) Q s = (if b then wlp m Q s else wlp n Q s)"
  by simp

lemma wlp_mono: "wlp m Q s \<Longrightarrow> (\<And>a t. Q a t \<Longrightarrow> Q' a t) \<Longrightarrow> wlp m Q' s"
  by (auto simp: wlp_def split: outcome.splits)

lemma wlp_Ret: "wlp m Q s \<Longrightarrow> m s = Ret a t \<Longrightarrow> Q a t"
  by (simp add: wlp_def)

section \<open>Statements that return\<close>

text \<open>\<open>returns m P\<close>: from every state \<open>m\<close> returns, and its value satisfies \<open>P\<close>.\<close>

definition returns :: "('s, 'a) cm \<Rightarrow> ('a \<Rightarrow> bool) \<Rightarrow> bool" where
  "returns m P = (\<forall>s. wp m (\<lambda>a _. P a) (\<lambda>_ _. False) s)"

named_theorems returns \<open>statements that return\<close>

lemma returns_ret [returns]: "P a \<Longrightarrow> returns (ret a) P"
  by (simp add: returns_def wp_ret)

lemma returns_gets: "(\<And>s. P (f s)) \<Longrightarrow> returns (gets f) P"
  by (simp add: returns_def wp_gets)

lemma returns_modify [returns]: "P () \<Longrightarrow> returns (modify f) P"
  by (simp add: returns_def wp_modify)

lemma returns_bnd:
  assumes "returns m P" "\<And>a. P a \<Longrightarrow> returns (f a) Q"
  shows "returns (bnd m f) Q"
  unfolding returns_def wp_bnd
proof
  fix s
  have "wp m (\<lambda>a _. P a) (\<lambda>_ _. False) s" using assms(1) by (simp add: returns_def)
  then show "wp m (\<lambda>a. wp (f a) (\<lambda>a _. Q a) (\<lambda>_ _. False)) (\<lambda>_ _. False) s"
    by (rule wp_mono) (use assms(2) in \<open>auto simp: returns_def\<close>)
qed

text \<open>The same where nothing is known of the value that is passed on.\<close>

lemma returns_any:
  "returns (gets g) (\<lambda>_. True)"
  "returns m (\<lambda>_. True) \<Longrightarrow> (\<And>a. returns (f a) Q) \<Longrightarrow> returns (bnd m f) Q"
  by (rule returns_gets, simp) (rule returns_bnd)

lemma returns_thn [returns]: "returns m (\<lambda>_. True) \<Longrightarrow> returns n Q \<Longrightarrow> returns (thn m n) Q"
  unfolding thn_def by (erule returns_bnd)

lemma returns_cwhen [returns]: "returns m (\<lambda>_. True) \<Longrightarrow> returns (cwhen b m) (\<lambda>_. True)"
  by (simp add: cwhen_def returns_ret)

lemma returns_if [returns]:
  "(b \<Longrightarrow> returns m Q) \<Longrightarrow> (\<not> b \<Longrightarrow> returns n Q) \<Longrightarrow> returns (if b then m else n) Q"
  by simp

lemma returns_mono: "returns m P \<Longrightarrow> (\<And>a. P a \<Longrightarrow> Q a) \<Longrightarrow> returns m Q"
  unfolding returns_def by (intro allI, erule allE, erule wp_mono) auto

lemma returns_Ret: "returns m P \<Longrightarrow> \<exists>a t. m s = Ret a t \<and> P a"
  unfolding returns_def using wp_Ret [of m "\<lambda>a _. P a" s] by blast

end
