(* ===== verification/Checksum.thy ===== *)
theory Checksum
  imports Prelude
begin

text \<open>
  The two packet checksums, as the host tool (spd_dump.c) and the device loaders
  (custom_fdl/common.c) compute them: the CRC-16 of the boot ROM and the ones' complement
  sum of the FDL stages. The host and the device implement the sum differently (the host
  reads bytes and has a switch \<open>final\<close> that decides about the byte order, the device reads
  aligned half-words and always swaps); the lemmas here say when they agree.
\<close>

unbundle bit_operations_syntax

section \<open>CRC-16\<close>

definition crc16_shift :: "u32 \<Rightarrow> u32" where
  "crc16_shift crc = push_bit 1 crc XOR ((0 - drop_bit 15 crc) AND 0x11021)"

fun spd_crc16_loop :: "u32 \<Rightarrow> byte list \<Rightarrow> u32" where
  "spd_crc16_loop crc [] = crc"
| "spd_crc16_loop crc (b # s) =
     spd_crc16_loop ((crc16_shift ^^ 8) (crc XOR push_bit 8 (ucast b))) s"

definition spd_crc16 :: "u32 \<Rightarrow> byte list \<Rightarrow> u32" where
  "spd_crc16 crc src = spd_crc16_loop (crc AND 0xffff) src"

definition dl_crc16 :: "byte list \<Rightarrow> u32" where
  "dl_crc16 buf = spd_crc16_loop 0 buf"

section \<open>Ones' complement sums\<close>

definition le16 :: "byte \<Rightarrow> byte \<Rightarrow> u32" where
  "le16 a b = push_bit 8 (ucast b) OR ucast a"

definition fold16 :: "u32 \<Rightarrow> u32" where
  "fold16 crc = (let crc = drop_bit 16 crc + (crc AND 0xffff);
                     crc = crc + drop_bit 16 crc
                 in NOT crc AND 0xffff)"

fun spd_checksum_loop :: "u32 \<Rightarrow> byte list \<Rightarrow> u32 \<times> byte list" where
  "spd_checksum_loop crc (a # b # s) = spd_checksum_loop (crc + le16 a b) s"
| "spd_checksum_loop crc s = (crc, s)"

definition CHK_FIXZERO :: nat where "CHK_FIXZERO = 1"
definition CHK_ORIG :: nat where "CHK_ORIG = 2"

definition spd_checksum :: "u32 \<Rightarrow> byte list \<Rightarrow> nat \<Rightarrow> u32" where
  "spd_checksum crc src final =
     (let (crc, s) = spd_checksum_loop crc src;
          len = length s;
          crc = (case s of [] \<Rightarrow> crc | b # _ \<Rightarrow> crc + ucast b)
      in if final \<noteq> 0
         then let crc = fold16 crc
              in if len < final then drop_bit 8 crc OR push_bit 8 (crc AND 0xff) else crc
         else crc)"

fun dl_fastchk16_loop :: "u32 \<Rightarrow> byte list \<Rightarrow> u32 \<times> byte list" where
  "dl_fastchk16_loop acc (a # b # c # d # s) = dl_fastchk16_loop (acc + le16 a b + le16 c d) s"
| "dl_fastchk16_loop acc s = (acc, s)"

definition dl_fastchk16 :: "byte list \<Rightarrow> u32" where
  "dl_fastchk16 src =
     (let (acc, s) = dl_fastchk16_loop 0 src;
          len = length s;
          (acc, s) = (if len AND 2 \<noteq> 0 then (acc + le16 (s ! 0) (s ! 1), drop 2 s) else (acc, s));
          acc = (if len AND 1 \<noteq> 0 then acc + ucast (s ! 0) else acc)
      in fold16 acc)"

definition swap_be16 :: "u32 \<Rightarrow> u32" where
  "swap_be16 v = (drop_bit 8 v OR push_bit 8 v) AND 0xffff"

definition swap_be32 :: "u32 \<Rightarrow> u32" where
  "swap_be32 v =
     (let t = drop_bit 24 v OR push_bit 24 v; m = 0xff00
      in t OR (drop_bit 8 v AND m) OR push_bit 8 (v AND m))"

section \<open>The sum as a number\<close>

fun le_sum :: "byte list \<Rightarrow> nat" where
  "le_sum (a # b # s) = unat a + 256 * unat b + le_sum s"
| "le_sum [a] = unat a"
| "le_sum [] = 0"

definition chk_nat :: "nat \<Rightarrow> nat" where
  "chk_nat s = 65535 - (if s = 0 then 0 else (s - 1) mod 65535 + 1)"

lemma le16_eq: "le16 a b = ucast a + 256 * ucast b"
  unfolding le16_def disjoint_shift8 by (simp add: push_bit_eq_mult)

lemma of_nat_le_sum_Cons2:
  "(of_nat (le_sum (a # b # s)) :: u32) = le16 a b + of_nat (le_sum s)"
  by (simp add: le16_eq)

lemma spd_checksum_loop_sum:
  "spd_checksum_loop crc src = (c, s) \<Longrightarrow>
     length s = length src mod 2 \<and>
     (case s of [] \<Rightarrow> c | b # _ \<Rightarrow> c + ucast b) = crc + of_nat (le_sum src)"
proof (induction crc src rule: spd_checksum_loop.induct)
  case (1 crc a b s')
  then show ?case
    using of_nat_le_sum_Cons2 [of a b s'] by (simp add: algebra_simps del: le_sum.simps)
qed auto

lemma dl_fastchk16_loop_sum:
  "dl_fastchk16_loop acc src = (c, s) \<Longrightarrow>
     length s < 4 \<and> c + of_nat (le_sum s) = acc + of_nat (le_sum src)"
proof (induction acc src rule: dl_fastchk16_loop.induct)
  case (1 acc a b c' d s')
  then show ?case
    using of_nat_le_sum_Cons2 [of a b "c' # d # s'"] of_nat_le_sum_Cons2 [of c' d s']
    by (simp add: algebra_simps del: le_sum.simps)
qed auto

lemma dl_fastchk16_eq: "dl_fastchk16 src = fold16 (of_nat (le_sum src))"
proof -
  obtain c s where cs: "dl_fastchk16_loop 0 src = (c, s)" by fastforce
  note sum = dl_fastchk16_loop_sum [OF cs]
  then consider "s = []" | a where "s = [a]" | a b where "s = [a, b]" | a b d where "s = [a, b, d]"
    by (auto simp: less_Suc_eq numeral_eq_Suc length_Suc_conv)
  moreover have "Suc (Suc 0) AND 2 = 2" "Suc (Suc (Suc 0)) AND 2 = 2"
    by (simp_all flip: numeral_2_eq_2 numeral_3_eq_3)
  ultimately show ?thesis
    using sum by cases (auto simp: dl_fastchk16_def cs le16_eq algebra_simps)
qed

lemma spd_checksum_eq:
  "final \<noteq> 0 \<Longrightarrow> spd_checksum 0 src final =
     (let crc = fold16 (of_nat (le_sum src))
      in if length src mod 2 < final then drop_bit 8 crc OR push_bit 8 (crc AND 0xff) else crc)"
proof -
  obtain c s where cs: "spd_checksum_loop 0 src = (c, s)" by fastforce
  then show "final \<noteq> 0 \<Longrightarrow> ?thesis"
    using spd_checksum_loop_sum [OF cs] by (auto simp: spd_checksum_def Let_def)
qed

lemma and_ffff: "w AND 0xffff = take_bit 16 (w :: u32)"
  by (simp only: take_bit_eq_mask) (simp add: mask_eq_exp_minus_1)

lemma unat_and_ffff: "unat (w AND 0xffff :: u32) = unat w mod 65536"
  unfolding and_ffff unsigned_take_bit_eq by (simp add: take_bit_nat)

lemma unat_not_and_ffff: "unat (NOT w AND 0xffff :: u32) = 65535 - unat w mod 65536"
proof -
  have "NOT w AND 0xffff = mask 16 - (w AND 0xffff)"
    unfolding and_ffff by (rule take_bit_not_eq_mask_diff)
  also have "(mask 16 :: u32) = 0xffff" by (simp add: mask_eq_exp_minus_1)
  finally have "NOT w AND 0xffff = 0xffff - (w AND 0xffff)" .
  moreover have "w AND 0xffff \<le> 0xffff"
    by (rule word_and_le1)
  ultimately show ?thesis
    by (simp add: unat_sub unat_and_ffff)
qed

lemma unat_fold16: "unat (fold16 w) = chk_nat (unat w)"
proof -
  define n where "n = unat w"
  have n: "n < 65536 * 65536"
    using unsigned_less [of w, where ?'a = nat] by (simp add: n_def)
  then have hi: "n div 65536 < 65536" by (simp add: less_mult_imp_div_less)
  define a where "a = n div 65536 + n mod 65536"
  have a: "a < 131071" unfolding a_def using hi mod_less_divisor [of 65536 n] by linarith
  have ua: "unat (drop_bit 16 w + (w AND 0xffff)) = a"
    using a hi by (simp add: unat_word_ariths unat_and_ffff unat_drop_bit flip: n_def a_def)
  define b where "b = a + a div 65536"
  have ub: "unat (let crc = drop_bit 16 w + (w AND 0xffff) in crc + drop_bit 16 crc) = b"
    using a ua by (simp add: Let_def b_def unat_word_ariths unat_drop_bit)
  have "unat (fold16 w) = 65535 - b mod 65536"
    unfolding fold16_def using ub by (simp add: Let_def unat_not_and_ffff)
  also have "\<dots> = chk_nat n"
  proof (cases "n = 0")
    case True
    then show ?thesis by (simp add: chk_nat_def b_def a_def)
  next
    case False
    have "n = 65535 * (n div 65536) + a" by (simp add: a_def)
    moreover have "0 < a" using False by (auto simp: a_def)
    ultimately have "(n - 1) mod 65535 = (a - 1) mod 65535"
      by (metis Nat.add_diff_assoc Suc_leI One_nat_def mod_mult_self4)
    moreover have "b mod 65536 = (a - 1) mod 65535 + 1"
    proof (cases "a < 65536")
      case True
      with \<open>0 < a\<close> show ?thesis by (simp add: b_def)
    next
      case False
      then have "a div 65536 = 1" using a by simp
      moreover have "(a - 1) mod 65535 = a - 1 - 65535"
        using False a by (simp add: le_mod_geq)
      moreover have "(a + 1) mod 65536 = a + 1 - 65536"
        using False a by (simp add: le_mod_geq)
      ultimately show ?thesis using False by (simp add: b_def)
    qed
    ultimately show ?thesis using False by (simp add: chk_nat_def)
  qed
  finally show ?thesis by (simp add: n_def)
qed

lemma chk_nat_bound: "chk_nat s \<le> 65535"
  by (simp add: chk_nat_def)

lemma chk_nat_verify: "chk_nat (s + chk_nat s) = 0"
proof (cases "s = 0")
  case True
  then show ?thesis by (simp add: chk_nat_def)
next
  case False
  define f where "f = (s - 1) mod 65535 + 1"
  have f: "f \<le> 65535" by (simp add: f_def Suc_leI)
  have "s = 65535 * ((s - 1) div 65535) + f"
    using False by (simp add: f_def)
  then obtain k where k: "s = 65535 * k + f" by blast
  have "chk_nat s = 65535 - f"
    using False by (simp add: chk_nat_def f_def)
  then have "s + chk_nat s = 65535 * k + 65535"
    using f k by linarith
  moreover have "65535 * k + 65535 - 1 = 65534 + 65535 * k" by simp
  ultimately show ?thesis by (simp add: chk_nat_def)
qed

section \<open>Agreement of the two implementations\<close>

lemma le_sum_append_even: "even (length xs) \<Longrightarrow> le_sum (xs @ ys) = le_sum xs + le_sum ys"
  by (induction xs rule: le_sum.induct) auto

lemma le_sum_bound: "le_sum xs \<le> 65535 * ((length xs + 1) div 2)"
proof (induction xs rule: le_sum.induct)
  case (1 a b s)
  then show ?case using byte_less [of a] byte_less [of b] by simp
next
  case (2 a)
  then show ?case using byte_less [of a] by simp
qed simp

lemma le_sum_append_odd:
  assumes "odd (length xs)"
  shows "le_sum (xs @ [hi, lo]) = le_sum xs + 256 * unat hi + unat lo"
proof -
  obtain ys l where xs: "xs = ys @ [l]"
    using assms by (cases xs rule: rev_cases) auto
  then have "even (length ys)" using assms by simp
  then show ?thesis by (simp add: xs le_sum_append_even)
qed

lemma and_ff: "w AND 0xff = take_bit 8 (w :: u32)"
  by (simp only: take_bit_eq_mask) (simp add: mask_eq_exp_minus_1)

lemma fold16_take_bit: "fold16 w = take_bit 16 (fold16 w)"
  unfolding fold16_def Let_def and_ffff by (rule bit_word_eqI) (auto simp only: bit_take_bit_iff)

lemma swap16_eq_swap_be16:
  "drop_bit 8 (take_bit 16 v) OR push_bit 8 (take_bit 16 v AND 0xff) = swap_be16 (take_bit 16 v)"
  unfolding swap_be16_def and_ff and_ffff
  by (rule bit_word_eqI) (auto simp: bit_simps)

lemma WRITE16_BE_swap_be16: "WRITE16_BE (swap_be16 (take_bit 16 v)) = WRITE16_LE (take_bit 16 v)"
proof -
  have "(ucast (drop_bit 8 (swap_be16 (take_bit 16 v))) :: byte) = ucast (take_bit 16 v)"
    and "(ucast (swap_be16 (take_bit 16 v)) :: byte) = ucast (drop_bit 8 (take_bit 16 v))"
    unfolding swap_be16_def and_ffff
    by (rule bit_word_eqI, auto simp: bit_simps)+
  then show ?thesis by (simp only: WRITE16_BE_def WRITE16_LE_def)
qed

lemma WRITE16_BE_swap_fold: "WRITE16_BE (swap_be16 (fold16 w)) = WRITE16_LE (fold16 w)"
  using WRITE16_BE_swap_be16 [of "fold16 w"] by (simp only: fold16_take_bit [symmetric])

lemma spd_checksum_final:
  "final \<noteq> 0 \<Longrightarrow> spd_checksum 0 src final =
     (if length src mod 2 < final then swap_be16 (dl_fastchk16 src) else dl_fastchk16 src)"
  using swap16_eq_swap_be16 [of "dl_fastchk16 src"]
  by (simp add: spd_checksum_eq dl_fastchk16_eq Let_def fold16_take_bit [symmetric])

lemma unat_bytes_fold16:
  "256 * unat (ucast (drop_bit 8 (fold16 w)) :: byte) + unat (ucast (fold16 w) :: byte) = chk_nat (unat w)"
proof -
  have "unat (fold16 w) < 65536" by (simp add: unat_fold16 chk_nat_def)
  then have "unat (fold16 w) div 256 < 256" by (simp add: less_mult_imp_div_less)
  then show ?thesis
    by (simp add: word_nat flip: unat_fold16)
qed

lemma dl_fastchk16_residue:
  assumes "length src \<le> 0x10003"
  shows "dl_fastchk16 (src @ WRITE16_BE (spd_checksum 0 src CHK_FIXZERO)) = 0"
proof -
  define S where "S = le_sum src"
  have S: "S + 65535 < 2 ^ 32"
    using le_sum_bound [of src] assms unfolding S_def by simp
  have uS: "unat (of_nat S :: u32) = S" using S by (simp add: unat_of_nat)
  have "le_sum (src @ WRITE16_BE (spd_checksum 0 src CHK_FIXZERO)) = S + chk_nat S"
  proof (cases "even (length src)")
    case True
    then show ?thesis
      using unat_bytes_fold16 [of "of_nat S"]
      by (simp add: CHK_FIXZERO_def spd_checksum_final dl_fastchk16_eq WRITE16_BE_swap_fold
          le_sum_append_even even_iff_mod_2_eq_zero uS WRITE16_LE_def flip: S_def)
  next
    case False
    then show ?thesis
      using unat_bytes_fold16 [of "of_nat S"] le_sum_append_odd [OF False]
      by (simp add: CHK_FIXZERO_def spd_checksum_final dl_fastchk16_eq odd_iff_mod_2_eq_one uS
          WRITE16_BE_def flip: S_def)
  qed
  moreover have "unat (of_nat (S + chk_nat S) :: u32) = S + chk_nat S"
    using S chk_nat_bound [of S] by (simp add: unat_of_nat del: of_nat_add)
  ultimately have "unat (dl_fastchk16 (src @ WRITE16_BE (spd_checksum 0 src CHK_FIXZERO))) = 0"
    by (simp only: dl_fastchk16_eq unat_fold16 chk_nat_verify)
  then show ?thesis by (simp add: unat_eq_zero)
qed

lemma spd_checksum_reply: "spd_checksum 0 src CHK_ORIG = swap_be16 (dl_fastchk16 src)"
  by (simp add: spd_checksum_final CHK_ORIG_def)

lemma dl_fastchk16_less: "unat (dl_fastchk16 src) < 65536"
  by (simp add: dl_fastchk16_eq unat_fold16 chk_nat_def)

lemma swap_be16_less: "unat (swap_be16 v) < 65536"
  by (simp add: swap_be16_def unat_and_ffff)

text \<open>
  C14: whatever the host puts behind a message as ones' complement sum (with the byte order
  it chooses by the parity of the length), the device's check of the whole packet, sum
  included, is zero.
\<close>

theorem packet_sum_accepted:
  assumes "length src \<le> 0x10003"
  shows "dl_fastchk16 (src @ WRITE16_BE (spd_checksum 0 src CHK_FIXZERO)) = 0"
  using assms by (rule dl_fastchk16_residue)

theorem packet_sum_accepted_witness:
  "dl_fastchk16 ([0, 2, 0, 3, 1, 2, 3] @ WRITE16_BE (spd_checksum 0 [0, 2, 0, 3, 1, 2, 3] CHK_FIXZERO)) = 0"
  by (rule packet_sum_accepted) simp

text \<open>
  C15: the sum the host expects behind a reply is the one the device sends, for replies of
  every length.
\<close>

theorem reply_sum_agrees:
  "spd_checksum 0 src CHK_ORIG = swap_be16 (dl_fastchk16 src)"
  by (rule spd_checksum_reply)

section \<open>The CRC residue\<close>

lemma spd_crc16_loop_append: "spd_crc16_loop c (xs @ ys) = spd_crc16_loop (spd_crc16_loop c xs) ys"
  by (induction xs arbitrary: c) auto

lemma crc16_shift_low: "drop_bit 15 c = 0 \<Longrightarrow> crc16_shift c = push_bit 1 c"
  by (simp add: crc16_shift_def)

lemma drop_bit_15_cases:
  fixes c :: u32
  assumes "c = take_bit 16 c"
  shows "drop_bit 15 c = (if bit c 15 then 1 else 0)"
proof (rule bit_word_eqI)
  fix n
  have "bit c m \<Longrightarrow> m < 16" for m
    by (metis assms bit_take_bit_iff)
  from this [of "15 + n"] show "bit (drop_bit 15 c) n = bit (if bit c 15 then 1 else 0 :: u32) n"
    by (cases n) (auto simp: bit_simps bit_1_iff)
qed

lemma bit_crc16_shift:
  assumes "c = take_bit 16 c" "n < 32"
  shows "bit (crc16_shift c) n \<longleftrightarrow> (0 < n \<and> bit c (n - 1)) \<noteq> (bit c 15 \<and> bit (0x11021 :: u32) n)"
proof -
  have "bit (push_bit 1 c) n \<longleftrightarrow> 0 < n \<and> bit c (n - 1)"
    using assms(2) by (simp only: bit_push_bit_iff) auto
  then show ?thesis
    unfolding crc16_shift_def drop_bit_15_cases [OF assms(1)] bit_xor_iff
    by (cases "bit c 15") auto
qed

lemma crc16_shift_take_bit:
  assumes "c = take_bit 16 c"
  shows "crc16_shift c = take_bit 16 (crc16_shift c)"
proof (rule bit_word_eqI)
  have k: "(0x11021 :: u32) = take_bit 17 0x11021" by simp
  have hi: "\<not> bit (0x11021 :: u32) n" if "17 \<le> n" for n
    using that by (subst k) (simp only: bit_take_bit_iff, simp)
  have cb: "bit c m \<Longrightarrow> m < 16" for m
    by (metis assms bit_take_bit_iff)
  fix n assume n: "n < LENGTH(32)"
  have "\<not> bit (crc16_shift c) n" if "16 \<le> n"
  proof (cases "n = 16")
    case True
    then show ?thesis using bit_crc16_shift [OF assms, of 16] by simp
  next
    case False
    with that have "17 \<le> n" by simp
    with hi [of n] cb [of "n - 1"] n show ?thesis
      using bit_crc16_shift [OF assms, of n] by auto
  qed
  then show "bit (crc16_shift c) n = bit (take_bit 16 (crc16_shift c)) n"
    by (cases "n < 16") (auto simp: bit_take_bit_iff)
qed

lemma crc16_shifts_take_bit: "c = take_bit 16 c \<Longrightarrow> (crc16_shift ^^ k) c = take_bit 16 ((crc16_shift ^^ k) c)"
  by (induction k) (simp, simp only: funpow.simps comp_def crc16_shift_take_bit [symmetric])

lemma spd_crc16_loop_take_bit:
  "c = take_bit 16 c \<Longrightarrow> spd_crc16_loop c src = take_bit 16 (spd_crc16_loop c src)"
proof (induction src arbitrary: c)
  case (Cons b s)
  have "c XOR push_bit 8 (ucast b) = take_bit 16 (c XOR push_bit 8 (ucast b))"
    by (subst Cons.prems, rule bit_word_eqI) (auto simp: bit_simps dest: bit_byte)
  then show ?case
    unfolding spd_crc16_loop.simps by (intro Cons.IH crc16_shifts_take_bit)
qed simp

lemma crc16_shifts_byte:
  "k \<le> 8 \<Longrightarrow> (crc16_shift ^^ k) (ucast (lo :: byte)) = push_bit k (ucast lo)"
proof (induction k)
  case (Suc k)
  have "drop_bit 15 (push_bit k (ucast lo :: u32)) = 0"
  proof (rule bit_word_eqI)
    fix n
    show "bit (drop_bit 15 (push_bit k (ucast lo :: u32))) n = bit 0 n"
      using Suc.prems by (auto simp: bit_simps dest!: bit_byte)
  qed
  with Suc show ?case
    by (simp add: crc16_shift_low)
qed simp

lemma dl_crc16_residue: "dl_crc16 (src @ WRITE16_BE (spd_crc16 0 src)) = 0"
proof -
  define c where "c = spd_crc16 0 src"
  define hi lo :: byte where "hi = ucast (drop_bit 8 c)" and "lo = ucast c"
  have c: "c = take_bit 16 c"
    unfolding c_def spd_crc16_def by (rule spd_crc16_loop_take_bit) simp
  have "c XOR push_bit 8 (ucast hi) = ucast lo"
    by (subst c, rule bit_word_eqI) (auto simp: hi_def lo_def bit_simps)
  moreover have "push_bit 8 (ucast lo) XOR push_bit 8 (ucast lo) = (0 :: u32)" by simp
  moreover have "(crc16_shift ^^ 8) 0 = 0" using crc16_shifts_byte [of 8 0] by simp
  ultimately have "spd_crc16_loop c [hi, lo] = 0"
    by (simp add: crc16_shifts_byte)
  then show ?thesis
    unfolding dl_crc16_def WRITE16_BE_def spd_crc16_loop_append
    by (simp add: c_def spd_crc16_def hi_def lo_def)
qed

lemma dl_crc16_eq: "dl_crc16 src = spd_crc16 0 src"
  by (simp add: dl_crc16_def spd_crc16_def)

lemma spd_crc16_less: "unat (spd_crc16 0 src) < 65536"
proof -
  have "spd_crc16 0 src = take_bit 16 (spd_crc16 0 src)"
    unfolding spd_crc16_def by (rule spd_crc16_loop_take_bit) simp
  moreover have "unat (take_bit 16 w :: u32) < 65536" for w
    unfolding and_ffff [symmetric] by (simp add: unat_and_ffff)
  ultimately show ?thesis by metis
qed

text \<open>
  C32: a message followed by its CRC-16 has CRC-16 zero: the check of the receiver
  (dl_get_packet with ACT_AS_ROMCODE) accepts what the sender (spd_dump with
  FLAGS_CRC16) appends.
\<close>

theorem crc16_residue: "dl_crc16 (src @ WRITE16_BE (spd_crc16 0 src)) = 0"
  by (rule dl_crc16_residue)

end
