(* ===== verification/Hdlc.thy ===== *)
theory Hdlc
  imports Prelude
begin

text \<open>
  The framing both sides of the USB link use: a packet travels between two
  \<open>HDLC_HEADER\<close> bytes, and a header or escape byte inside it is sent as \<open>HDLC_ESCAPE\<close>
  followed by the byte with bit 5 flipped. Here are the sender's escaping functions of
  spd_dump.c and the interface \<open>hdlc_receiver\<close> that the two receivers of the repository
  (recv_msg1 of the host, dl_get_packet of the device) implement; the lemma that a
  receiver gets the packet out of its frame is proved once, in that locale.
\<close>

unbundle bit_operations_syntax

abbreviation HDLC_HEADER :: byte where "HDLC_HEADER \<equiv> 0x7e"
abbreviation HDLC_ESCAPE :: byte where "HDLC_ESCAPE \<equiv> 0x7d"

section \<open>Escaping\<close>

fun spd_transcode :: "byte list \<Rightarrow> byte list" where
  "spd_transcode [] = []"
| "spd_transcode (a # src) =
     (if a = HDLC_HEADER \<or> a = HDLC_ESCAPE
      then HDLC_ESCAPE # (a XOR 0x20) # spd_transcode src
      else a # spd_transcode src)"

fun spd_transcode_max :: "byte list \<Rightarrow> int \<Rightarrow> nat" where
  "spd_transcode_max [] n = 0"
| "spd_transcode_max (a # src) n =
     (let a = (if a = HDLC_HEADER \<or> a = HDLC_ESCAPE then 2 else 1)
      in if n < a then 0 else Suc (spd_transcode_max src (n - a)))"

lemma spd_transcode_append: "spd_transcode (xs @ ys) = spd_transcode xs @ spd_transcode ys"
  by (induction xs) auto

lemma length_spd_transcode:
  "length xs \<le> length (spd_transcode xs)" "length (spd_transcode xs) \<le> 2 * length xs"
  by (induction xs) auto

lemma spd_transcode_no_header: "HDLC_HEADER \<notin> set (spd_transcode xs)"
  by (induction xs) auto

text \<open>The prefix that \<open>spd_transcode_max\<close> picks fits, and no longer one does.\<close>

lemma spd_transcode_max_le: "spd_transcode_max src n \<le> length src"
  by (induction src n rule: spd_transcode_max.induct) (auto simp: Let_def)

lemma spd_transcode_max_fits:
  "0 \<le> n \<Longrightarrow> int (length (spd_transcode (take (spd_transcode_max src n) src))) \<le> n"
  by (induction src n rule: spd_transcode_max.induct) (auto simp: Let_def)

lemma spd_transcode_max_largest:
  "0 \<le> n \<Longrightarrow> k \<le> length src \<Longrightarrow>
     (k \<le> spd_transcode_max src n) = (int (length (spd_transcode (take k src))) \<le> n)"
proof (induction src n arbitrary: k rule: spd_transcode_max.induct)
  case (1 n)
  then show ?case by simp
next
  case (2 a src n)
  define c :: int where "c = (if a = HDLC_HEADER \<or> a = HDLC_ESCAPE then 2 else 1)"
  show ?case
  proof (cases k)
    case 0
    with "2.prems" show ?thesis by simp
  next
    case (Suc j)
    have len: "int (length (spd_transcode (take k (a # src)))) = c + int (length (spd_transcode (take j src)))"
      by (simp add: Suc c_def)
    have "(j \<le> spd_transcode_max src (n - c)) = (int (length (spd_transcode (take j src))) \<le> n - c)"
      if "\<not> n < c"
      using "2.IH" [OF c_def, of j] that "2.prems" Suc by simp
    then show ?thesis
      unfolding len by (auto simp: Let_def Suc le_diff_eq add.commute simp flip: c_def)
  qed
qed

section \<open>Receivers\<close>

text \<open>
  The local variables of a receiver's loop, in recv_msg1 and in dl_get_packet alike, and
  their values at the start of a packet.
\<close>

record rxs =
  head_found :: bool
  nread :: nat
  plen :: nat
  esc :: byte

definition rx_init :: rxs where
  "rx_init = \<lparr>head_found = False, nread = 0, plen = 6, esc = 0\<rparr>"

text \<open>
  What a receiver does with one byte: it wants more, it has a packet, or it gives up with
  an error.
\<close>

datatype ('s, 'e) rx_out = RxMore 's | RxDone 's | RxFail 'e 's

fun rx_run :: "(byte \<Rightarrow> 's \<Rightarrow> ('s, 'e) rx_out) \<Rightarrow> 's \<Rightarrow> byte list \<Rightarrow> ('s, 'e) rx_out" where
  "rx_run step s [] = RxMore s"
| "rx_run step s (a # as) =
     (case step a s of RxMore s' \<Rightarrow> rx_run step s' as | RxDone s' \<Rightarrow> RxDone s' | RxFail e s' \<Rightarrow> RxFail e s')"

lemma rx_run_append:
  "rx_run step s xs = RxMore s' \<Longrightarrow> rx_run step s (xs @ ys) = rx_run step s' ys"
  by (induction xs arbitrary: s) (auto split: rx_out.splits)

text \<open>
  The interface: \<open>idle\<close> are the states before the opening header, \<open>inprog l\<close> the states
  between two packet bytes after \<open>l\<close> has been collected, \<open>esced l\<close> the ones after an escape
  byte; \<open>wf q\<close> says that \<open>q\<close> is a packet the receiver accepts.
\<close>

locale hdlc_receiver =
  fixes step :: "byte \<Rightarrow> 's \<Rightarrow> ('s, 'e) rx_out"
    and idle :: "'s \<Rightarrow> bool"
    and inprog :: "byte list \<Rightarrow> 's \<Rightarrow> bool"
    and esced :: "byte list \<Rightarrow> 's \<Rightarrow> bool"
    and wf :: "byte list \<Rightarrow> bool"
  assumes step_header: "idle s \<Longrightarrow> \<exists>s'. step HDLC_HEADER s = RxMore s' \<and> inprog [] s'"
    and step_plain: "wf q \<Longrightarrow> k < length q \<Longrightarrow> inprog (take k q) s \<Longrightarrow>
          q ! k \<noteq> HDLC_HEADER \<Longrightarrow> q ! k \<noteq> HDLC_ESCAPE \<Longrightarrow>
          \<exists>s'. step (q ! k) s = RxMore s' \<and> inprog (take (Suc k) q) s'"
    and step_escape: "wf q \<Longrightarrow> k < length q \<Longrightarrow> inprog (take k q) s \<Longrightarrow>
          \<exists>s'. step HDLC_ESCAPE s = RxMore s' \<and> esced (take k q) s'"
    and step_escaped: "wf q \<Longrightarrow> k < length q \<Longrightarrow> esced (take k q) s \<Longrightarrow>
          q ! k = HDLC_HEADER \<or> q ! k = HDLC_ESCAPE \<Longrightarrow>
          \<exists>s'. step (q ! k XOR 0x20) s = RxMore s' \<and> inprog (take (Suc k) q) s'"
    and step_end: "wf q \<Longrightarrow> inprog q s \<Longrightarrow> \<exists>s'. step HDLC_HEADER s = RxDone s' \<and> inprog q s'"
begin

lemma run_body:
  assumes "wf q"
  shows "k \<le> length q \<Longrightarrow> inprog (take k q) s \<Longrightarrow>
    \<exists>s'. rx_run step s (spd_transcode (drop k q)) = RxMore s' \<and> inprog q s'"
proof (induction "length q - k" arbitrary: k s)
  case 0
  then show ?case by simp
next
  case (Suc n)
  then have k: "k < length q" by simp
  then have d: "drop k q = q ! k # drop (Suc k) q" by (simp add: Cons_nth_drop_Suc)
  have "\<exists>t. rx_run step s (spd_transcode [q ! k]) = RxMore t \<and> inprog (take (Suc k) q) t"
  proof (cases "q ! k = HDLC_HEADER \<or> q ! k = HDLC_ESCAPE")
    case True
    obtain u where u: "step HDLC_ESCAPE s = RxMore u" "esced (take k q) u"
      using step_escape [OF assms k Suc.prems(2)] by blast
    obtain t where "step (q ! k XOR 0x20) u = RxMore t" "inprog (take (Suc k) q) t"
      using step_escaped [OF assms k u(2) True] by blast
    then show ?thesis using True u by auto
  next
    case False
    then obtain t where "step (q ! k) s = RxMore t" "inprog (take (Suc k) q) t"
      using step_plain [OF assms k Suc.prems(2)] by blast
    then show ?thesis using False by auto
  qed
  then obtain t where t: "rx_run step s (spd_transcode [q ! k]) = RxMore t"
      "inprog (take (Suc k) q) t" by blast
  obtain s' where "rx_run step t (spd_transcode (drop (Suc k) q)) = RxMore s'" "inprog q s'"
  proof -
    have "n = length q - Suc k" using Suc.hyps(2) by simp
    then show ?thesis using Suc.hyps(1) [of "Suc k" t] k t(2) that by auto
  qed
  moreover have "spd_transcode (drop k q) = spd_transcode [q ! k] @ spd_transcode (drop (Suc k) q)"
    by (simp add: d flip: spd_transcode_append)
  ultimately show ?case using rx_run_append [OF t(1)] by auto
qed

text \<open>
  The receiver collects a packet from its frame, escapes and all, and is done exactly at
  the closing header.
\<close>

lemma run_to_end:
  assumes "wf q" "idle s"
  shows "\<exists>u. rx_run step s (HDLC_HEADER # spd_transcode q) = RxMore u \<and> inprog q u"
proof -
  obtain t where t: "step HDLC_HEADER s = RxMore t" "inprog [] t"
    using step_header [OF assms(2)] by blast
  then show ?thesis using run_body [OF assms(1), of 0 t] by auto
qed

lemma run_frame:
  assumes "wf q" "idle s"
  shows "\<exists>u s'. rx_run step s (HDLC_HEADER # spd_transcode q) = RxMore u \<and>
           step HDLC_HEADER u = RxDone s' \<and> inprog q s'"
  using run_to_end [OF assms] step_end [OF assms(1)] by blast

end

section \<open>A packet being collected\<close>

text \<open>
  The length field of a message counts what follows it, without the checksum: \<open>len_ok\<close>.
  \<open>collected e l\<close> are the receiver states after \<open>l\<close>, with pending escape \<open>e\<close>.
\<close>

definition len_ok :: "byte list \<Rightarrow> bool" where
  "len_ok q = (6 \<le> length q \<and> 256 * unat (q ! 2) + unat (q ! 3) + 6 = length q)"

definition collected :: "byte \<Rightarrow> byte list \<Rightarrow> mem \<times> rxs \<Rightarrow> bool" where
  "collected e l = (\<lambda>(m, r). head_found r \<and> nread r = length l \<and> esc r = e \<and>
     mslice m 0 (length l) = l \<and>
     plen r = (if length l < 4 then 6 else 256 * unat (l ! 2) + unat (l ! 3) + 6))"

definition rx_idle :: "mem \<times> rxs \<Rightarrow> bool" where
  "rx_idle = (\<lambda>(m, r). r = rx_init)"

lemma READ16_BE_slice:
  assumes sl: "mslice m 0 n = l" and len: "4 \<le> n"
  shows "unat (READ16_BE m 2) = 256 * unat (l ! 2) + unat (l ! 3)"
proof -
  have "m i = l ! i" if "i < n" for i
    using arg_cong [OF sl, of "\<lambda>x. x ! i"] that by simp
  from this [of 2] this [of 3] have "m 2 = l ! 2" "m 3 = l ! 3" using len by linarith+
  moreover have "2 + 1 = (3 :: nat)" by simp
  ultimately show ?thesis by (simp only: unat_READ16_BE)
qed

lemma collected_hd:
  "collected e l (m, r) \<Longrightarrow> 4 \<le> length l \<Longrightarrow> unat (READ16_BE m 2) = 256 * unat (l ! 2) + unat (l ! 3)"
  by (rule READ16_BE_slice) (auto simp: collected_def)

lemma collected_plen:
  "len_ok q \<Longrightarrow> k \<le> length q \<Longrightarrow> collected e (take k q) (m, r) \<Longrightarrow>
     nread r = k \<and> plen r = (if k < 4 then 6 else length q)"
  by (simp add: collected_def len_ok_def)

lemma collected_full:
  assumes "len_ok q" "collected e q (m, r)"
  shows "nread r = length q" "plen r = length q" "mslice m 0 (length q) = q"
  using collected_plen [OF assms(1), of "length q" e m r] assms
  by (simp_all add: collected_def len_ok_def)

lemma collected_plen_upd:
  assumes "len_ok q" "k \<le> length q" "collected e (take k q) (m, r)"
  shows "nread r \<noteq> 4 \<or> unat (READ16_BE m 2) + 6 = length q \<and> r\<lparr>plen := length q\<rparr> = r"
proof (cases "k = 4")
  case True
  have l: "length (take k q) = 4" using assms(2) True by simp
  have "unat (READ16_BE m 2) + 6 = length q"
    using collected_hd [OF assms(3)] l assms(1) True by (simp add: len_ok_def)
  moreover have "plen r = length q"
    using collected_plen [OF assms] True by simp
  then have "r\<lparr>plen := length q\<rparr> = r" by (cases r) simp
  ultimately show ?thesis by blast
next
  case False
  then show ?thesis using assms(2,3) by (simp add: collected_def)
qed

lemma collected_store:
  assumes "len_ok q" "k < length q" "collected e (take k q) (m, r)"
  shows "let m' = m(k := q ! k); r' = r\<lparr>nread := Suc k, esc := 0\<rparr>
    in (Suc k = 4 \<longrightarrow> unat (READ16_BE m' 2) + 6 = length q \<and>
          collected 0 (take (Suc k) q) (m', r'\<lparr>plen := length q\<rparr>)) \<and>
       (Suc k \<noteq> 4 \<longrightarrow> collected 0 (take (Suc k) q) (m', r'))"
proof -
  let ?m = "m(k := q ! k)" and ?r = "r\<lparr>nread := Suc k, esc := 0\<rparr>"
  have sl: "mslice m 0 k = take k q" and hd: "head_found r"
    using assms(2,3) by (simp_all add: collected_def)
  have "mslice ?m 0 k = mslice m 0 k" by (rule mslice_cong) simp
  then have sl': "mslice ?m 0 (Suc k) = take (Suc k) q"
    using sl assms(2) by (simp add: mslice_snoc take_Suc_conv_app_nth)
  have "collected 0 (take (Suc k) q) (?m, ?r\<lparr>plen := length q\<rparr>)" if k: "Suc k = 4"
    using assms(1,2) sl' hd k by (simp add: collected_def len_ok_def)
  moreover have "unat (READ16_BE ?m 2) + 6 = length q" if k: "Suc k = 4"
    using READ16_BE_slice [OF sl'] assms(1,2) k by (simp add: len_ok_def)
  moreover have "collected 0 (take (Suc k) q) (?m, ?r)" if "Suc k \<noteq> 4"
    using assms(1-3) sl' hd that collected_plen [OF assms(1) less_imp_le [OF assms(2)] assms(3)]
    by (simp add: collected_def len_ok_def)
  ultimately show ?thesis unfolding Let_def by blast
qed

end
