(* ===== verification/BslCmd.thy ===== *)
theory BslCmd
  imports Prelude
begin

text \<open>
  The numbers of the commands and replies of the download protocol, shared by the host
  (spd_cmd.h) and the device (custom_fdl/cmd_def.h, which has a part of the same list).
\<close>

section \<open>Commands\<close>

definition BSL_CMD_CONNECT :: u32 where "BSL_CMD_CONNECT = 0x00"
definition BSL_CMD_START_DATA :: u32 where "BSL_CMD_START_DATA = 0x01"
definition BSL_CMD_MIDST_DATA :: u32 where "BSL_CMD_MIDST_DATA = 0x02"
definition BSL_CMD_END_DATA :: u32 where "BSL_CMD_END_DATA = 0x03"
definition BSL_CMD_EXEC_DATA :: u32 where "BSL_CMD_EXEC_DATA = 0x04"
definition BSL_CMD_NORMAL_RESET :: u32 where "BSL_CMD_NORMAL_RESET = 0x05"
definition BSL_CMD_READ_FLASH :: u32 where "BSL_CMD_READ_FLASH = 0x06"
definition BSL_CMD_CHANGE_BAUD :: u32 where "BSL_CMD_CHANGE_BAUD = 0x09"
definition BSL_CMD_ERASE_FLASH :: u32 where "BSL_CMD_ERASE_FLASH = 0x0A"
definition BSL_CMD_REPARTITION :: u32 where "BSL_CMD_REPARTITION = 0x0B"
definition BSL_CMD_READ_START :: u32 where "BSL_CMD_READ_START = 0x10"
definition BSL_CMD_READ_MIDST :: u32 where "BSL_CMD_READ_MIDST = 0x11"
definition BSL_CMD_READ_END :: u32 where "BSL_CMD_READ_END = 0x12"
definition BSL_CMD_KEEP_CHARGE :: u32 where "BSL_CMD_KEEP_CHARGE = 0x13"
definition BSL_CMD_POWER_OFF :: u32 where "BSL_CMD_POWER_OFF = 0x17"
definition BSL_CMD_READ_CHIP_UID :: u32 where "BSL_CMD_READ_CHIP_UID = 0x1A"
definition BSL_CMD_DISABLE_TRANSCODE :: u32 where "BSL_CMD_DISABLE_TRANSCODE = 0x21"
definition BSL_CMD_READ_PARTITION :: u32 where "BSL_CMD_READ_PARTITION = 0x2D"
definition BSL_CMD_CHECK_BAUD :: u32 where "BSL_CMD_CHECK_BAUD = 0x7E"
definition BSL_REP_ACK :: u32 where "BSL_REP_ACK = 0x80"
definition BSL_REP_VER :: u32 where "BSL_REP_VER = 0x81"
definition BSL_REP_INVALID_CMD :: u32 where "BSL_REP_INVALID_CMD = 0x82"
definition BSL_REP_UNKNOWN_CMD :: u32 where "BSL_REP_UNKNOWN_CMD = 0x83"
definition BSL_REP_OPERATION_FAILED :: u32 where "BSL_REP_OPERATION_FAILED = 0x84"
definition BSL_REP_DOWN_EARLY_END :: u32 where "BSL_REP_DOWN_EARLY_END = 0x88"
definition BSL_REP_DOWN_SIZE_ERROR :: u32 where "BSL_REP_DOWN_SIZE_ERROR = 0x8A"
definition BSL_REP_VERIFY_ERROR :: u32 where "BSL_REP_VERIFY_ERROR = 0x8B"
definition BSL_REP_READ_FLASH :: u32 where "BSL_REP_READ_FLASH = 0x93"
definition BSL_REP_INCOMPATIBLE_PARTITION :: u32 where "BSL_REP_INCOMPATIBLE_PARTITION = 0x96"
definition BSL_REP_READ_CHIP_UID :: u32 where "BSL_REP_READ_CHIP_UID = 0xAB"
definition BSL_REP_READ_PARTITION :: u32 where "BSL_REP_READ_PARTITION = 0xBA"
definition BSL_REP_LOG :: u32 where "BSL_REP_LOG = 0xFF"

lemmas cmd_defs =
  BSL_CMD_CONNECT_def BSL_CMD_START_DATA_def BSL_CMD_MIDST_DATA_def BSL_CMD_END_DATA_def
  BSL_CMD_EXEC_DATA_def BSL_CMD_NORMAL_RESET_def BSL_CMD_READ_FLASH_def
  BSL_CMD_CHANGE_BAUD_def BSL_CMD_ERASE_FLASH_def BSL_CMD_REPARTITION_def
  BSL_CMD_READ_START_def BSL_CMD_READ_MIDST_def BSL_CMD_READ_END_def BSL_CMD_KEEP_CHARGE_def
  BSL_CMD_POWER_OFF_def BSL_CMD_READ_CHIP_UID_def BSL_CMD_DISABLE_TRANSCODE_def
  BSL_CMD_READ_PARTITION_def BSL_CMD_CHECK_BAUD_def BSL_REP_ACK_def BSL_REP_VER_def BSL_REP_INVALID_CMD_def
  BSL_REP_UNKNOWN_CMD_def BSL_REP_OPERATION_FAILED_def BSL_REP_DOWN_EARLY_END_def
  BSL_REP_DOWN_SIZE_ERROR_def BSL_REP_VERIFY_ERROR_def
  BSL_REP_READ_FLASH_def BSL_REP_INCOMPATIBLE_PARTITION_def BSL_REP_READ_CHIP_UID_def
  BSL_REP_READ_PARTITION_def BSL_REP_LOG_def

end
