(* ===== verification/SpdIo.thy ===== *)
theory SpdIo
  imports CMonad Checksum Hdlc BslCmd
begin

text \<open>
  The message layer of the dumper (spd_dump.c in its libusb build, USE_LIBUSB=1). The
  record \<open>host\<close> is the process: the fields of \<open>spdio_t\<close>, and what the program does with
  the outside world, its standard streams and files. \<open>temp_buf\<close> of the source is
  \<open>raw_buf + 4\<close> and has no field of its own; \<open>enc_buf\<close> holds the \<open>enc_len\<close> bytes to be
  sent. libusb is the parameter \<open>usb\<close>, acting on a device state of any type \<open>'d\<close>; its
  field \<open>rounds\<close> bounds the loops that the device keeps going.
\<close>

unbundle bit_operations_syntax

section \<open>State\<close>

datatype logitem = LogF string "parg list" | LogS string

definition RECV_BUF_LEN :: nat where "RECV_BUF_LEN = 1024"
definition FLAGS_CRC16 :: u32 where "FLAGS_CRC16 = 1"
definition FLAGS_TRANSCODE :: u32 where "FLAGS_TRANSCODE = 2"

definition LIBUSB_ERROR_NO_DEVICE :: int where "LIBUSB_ERROR_NO_DEVICE = -4"
definition LIBUSB_ERROR_TIMEOUT :: int where "LIBUSB_ERROR_TIMEOUT = -7"

record 'd usb =
  bulk_out :: "int \<Rightarrow> byte list \<Rightarrow> int \<Rightarrow> 'd \<Rightarrow> int \<times> nat \<times> 'd"
  bulk_in :: "int \<Rightarrow> nat \<Rightarrow> int \<Rightarrow> 'd \<Rightarrow> int \<times> byte list \<times> 'd"
  control_out :: "int list \<Rightarrow> int \<Rightarrow> 'd \<Rightarrow> int \<times> 'd"
  error_name :: "int \<Rightarrow> string"
  rounds :: nat

record 'd host =
  dev :: 'd
  endp_in :: int
  endp_out :: int
  endp_in_blk :: int
  endp_out_blk :: int
  flags :: u32
  verbose :: int
  timeout :: int
  raw_buf :: mem
  raw_len :: nat
  enc_buf :: "byte list"
  recv_buf :: mem
  recv_len :: nat
  recv_pos :: nat
  errlog :: "logitem list"
  stdout :: string
  stdin :: string
  fs :: "string \<Rightarrow> byte list option"
  can_write :: "string \<Rightarrow> bool"
  disk :: nat

text \<open>
  \<open>can_write\<close> says which files can be opened for writing and \<open>disk\<close> how many bytes can
  still be written to files. A FILE pointer is the name of the file.
\<close>

definition DBG_LOG :: "string \<Rightarrow> parg list \<Rightarrow> ('d host, unit) cm" where
  "DBG_LOG fmt args = modify (\<lambda>s. s\<lparr>errlog := errlog s @ [LogF fmt args]\<rparr>)"

definition fputs_err :: "string \<Rightarrow> ('d host, unit) cm" where
  "fputs_err str = modify (\<lambda>s. s\<lparr>errlog := errlog s @ [LogS str]\<rparr>)"

section \<open>Printing\<close>

definition hexdig :: "nat \<Rightarrow> char" where
  "hexdig n = (if n < 10 then char_of (48 + n) else char_of (87 + n))"

definition hex02 :: "byte \<Rightarrow> string" where
  "hex02 a = [hexdig (unat a div 16), hexdig (unat a mod 16)]"

definition chr_of :: "byte \<Rightarrow> char" where
  "chr_of a = char_of (unat a)"

definition print_mem_row :: "byte list \<Rightarrow> string" where
  "print_mem_row row =
     concat (map (\<lambda>a. hex02 a @ '' '') row) @ concat (replicate (16 - length row) ''   '') @ '' |'' @
     map (\<lambda>a. if a > 0x20 \<and> a < 0x7f then chr_of a else CHR ''.'') row @ ''|'' @ [CHR 0x0A]"

function print_mem :: "byte list \<Rightarrow> string" where
  "print_mem buf = (if buf = [] then [] else print_mem_row (take 16 buf) @ print_mem (drop 16 buf))"
  by auto

termination
  by (relation "measure length") auto

declare print_mem.simps [simp del]

definition print_char :: "byte \<Rightarrow> string" where
  "print_char a =
     (let b = (if a = 0x22 \<or> a = 0x5c then a
               else if a = 0 then 0x30
               else if a = 0x08 then 0x62
               else if a = 0x09 then 0x74
               else if a = 0x0A then 0x6e
               else if a = 0x0C then 0x66
               else if a = 0x0D then 0x72
               else 0)
      in if b \<noteq> 0 then [CHR 0x5c, chr_of b]
         else if a \<ge> 32 \<and> a < 127 then [chr_of a]
         else [CHR 0x5c, CHR ''x''] @ hex02 a)"

definition print_string :: "byte list \<Rightarrow> string" where
  "print_string src = [CHR 0x22] @ concat (map print_char src) @ [CHR 0x22, CHR 0x0A]"

section \<open>Sending\<close>

definition encode_msg :: "u32 \<Rightarrow> byte list \<Rightarrow> ('d host, unit) cm" where
  "encode_msg type data =
     (let len = length data in
      if len > 0xffff then err_exit ''message too long'' []
      else if type = BSL_CMD_CHECK_BAUD then modify (\<lambda>s. s\<lparr>enc_buf := replicate len HDLC_HEADER\<rparr>)
      else modify (\<lambda>s.
        let p0 = blit (blit (blit (raw_buf s) 0 (WRITE16_BE type)) 2 (WRITE16_BE (of_nat len))) 4 data;
            len = 4 + len;
            chk = (if flags s AND FLAGS_CRC16 \<noteq> 0 then spd_crc16 0 (mslice p0 0 len)
                   else spd_checksum 0 (mslice p0 0 len) CHK_FIXZERO);
            p0 = blit p0 len (WRITE16_BE chk);
            len = len + 2;
            msg = mslice p0 0 len
        in s\<lparr>raw_buf := p0, raw_len := len,
             enc_buf := HDLC_HEADER #
               (if flags s AND FLAGS_TRANSCODE \<noteq> 0 then spd_transcode msg else msg) @ [HDLC_HEADER]\<rparr>))"

definition usb_out :: "'d usb \<Rightarrow> byte list \<Rightarrow> ('d host, int \<times> nat) cm" where
  "usb_out E bs = (\<lambda>s. let (err, n, d) = bulk_out E (endp_out s) bs (timeout s) (dev s)
                       in Ret (err, n) (s\<lparr>dev := d\<rparr>))"

definition send_msg_log :: "('d host, unit) cm" where
  "send_msg_log = (\<lambda>s.
     if verbose s \<ge> 2 then thn (DBG_LOG ''send (%d):'' [PI (int (length (enc_buf s)))])
       (fputs_err (print_mem (enc_buf s))) s
     else if verbose s \<ge> 1 then
       (if raw_buf s 0 = HDLC_HEADER then DBG_LOG ''send: check baud'' []
        else if raw_len s \<ge> 4 then
          DBG_LOG ''send: type = 0x%02x, size = %d''
            [PI (uint (READ16_BE (raw_buf s) 0)), PI (uint (READ16_BE (raw_buf s) 2))]
        else DBG_LOG ''send: unknown message'' []) s
     else Ret () s)"

definition send_msg :: "'d usb \<Rightarrow> ('d host, nat) cm" where
  "send_msg E =
     bnd (gets enc_buf) (\<lambda>enc.
       thn (cwhen (length enc = 0) (err_exit ''empty message'' []))
      (thn send_msg_log
      (bnd (usb_out E enc) (\<lambda>(err, ret).
       thn (cwhen (err < 0) (err_exit ''usb_send failed : %s'' [PS (error_name E err)]))
      (bnd (gets endp_out_blk) (\<lambda>blk.
       thn (cwhen (blk = 512 \<and> length enc mod 512 = 0)
             (bnd (usb_out E []) (\<lambda>_. CMonad.ret ())))
      (thn (cwhen (ret \<noteq> length enc)
             (err_exit ''usb_send failed (%d / %d)'' [PI (int ret), PI (int (length enc))]))
       (CMonad.ret ret))))))))"

section \<open>Receiving\<close>

definition recv_plen :: "mem \<Rightarrow> rxs \<Rightarrow> (mem \<times> rxs, string \<times> parg list) rx_out" where
  "recv_plen m r =
     (if nread r = 4 then RxMore (m, r\<lparr>plen := unat (READ16_BE m 2) + 6\<rparr>) else RxMore (m, r))"

definition recv_byte :: "bool \<Rightarrow> byte \<Rightarrow> mem \<times> rxs \<Rightarrow> (mem \<times> rxs, string \<times> parg list) rx_out" where
  "recv_byte transcode a = (\<lambda>(raw, r).
     if transcode then
       (if esc r \<noteq> 0 \<and> a \<noteq> HDLC_HEADER XOR 0x20 \<and> a \<noteq> HDLC_ESCAPE XOR 0x20
        then RxFail (''unexpected escaped byte (0x%02x)'', [PI (uint a)]) (raw, r)
        else if a = HDLC_HEADER then
          (if \<not> head_found r then recv_plen raw (r\<lparr>head_found := True\<rparr>)
           else if nread r = 0 then RxMore (raw, r)
           else if nread r < plen r then RxFail (''recieved message too short'', []) (raw, r)
           else RxDone (raw, r))
        else if a = HDLC_ESCAPE then recv_plen raw (r\<lparr>esc := 0x20\<rparr>)
        else if \<not> head_found r then RxMore (raw, r)
        else if nread r \<ge> plen r then RxFail (''recieved message too long'', []) (raw, r)
        else recv_plen (raw(nread r := a XOR esc r)) (r\<lparr>nread := nread r + 1, esc := 0\<rparr>))
     else
       (if \<not> head_found r \<and> a = HDLC_HEADER then RxMore (raw, r\<lparr>head_found := True\<rparr>)
        else if nread r = plen r then
          (if a \<noteq> HDLC_HEADER then RxFail (''expected end of message'', []) (raw, r)
           else RxDone (raw, r))
        else recv_plen (raw(nread r := a)) (r\<lparr>nread := nread r + 1\<rparr>)))"

text \<open>The refill of \<open>recv_buf\<close>; its value says whether the loop goes on.\<close>

definition recv_fill :: "'d usb \<Rightarrow> ('d host, bool) cm" where
  "recv_fill E = (\<lambda>s.
     let (err, bs, d) = bulk_in E (endp_in s) RECV_BUF_LEN (timeout s) (dev s);
         len = length bs;
         s = s\<lparr>dev := d, recv_buf := blit (recv_buf s) 0 bs, recv_len := len\<rparr>
     in if err = LIBUSB_ERROR_NO_DEVICE then err_exit ''connection closed'' [] s
        else if err = LIBUSB_ERROR_TIMEOUT then Ret False s
        else if err < 0 then err_exit ''usb_recv failed : %s'' [PS (error_name E err)] s
        else thn (cwhen (verbose s \<ge> 2) (thn (DBG_LOG ''recv (%d):'' [PI (int len)])
                   (fputs_err (print_mem (mslice (recv_buf s) 0 len)))))
             (\<lambda>s. Ret (len \<noteq> 0) (s\<lparr>recv_pos := 0\<rparr>)) s)"

fun recv_loop :: "'d usb \<Rightarrow> nat \<Rightarrow> rxs \<Rightarrow> ('d host, rxs) cm" where
  "recv_loop E 0 r = no_fuel"
| "recv_loop E (Suc n) r =
     bnd (\<lambda>s. if recv_pos s \<ge> recv_len s then recv_fill E s else Ret True s) (\<lambda>more.
       if \<not> more then CMonad.ret r
       else (\<lambda>s.
         let a = recv_buf s (recv_pos s); s = s\<lparr>recv_pos := recv_pos s + 1\<rparr>
         in case recv_byte (flags s AND FLAGS_TRANSCODE \<noteq> 0) a (raw_buf s, r) of
              RxMore (raw, r) \<Rightarrow> recv_loop E n r (s\<lparr>raw_buf := raw\<rparr>)
            | RxDone (raw, r) \<Rightarrow> Ret r (s\<lparr>raw_buf := raw\<rparr>)
            | RxFail (fmt, args) (raw, r) \<Rightarrow> err_exit fmt args (s\<lparr>raw_buf := raw\<rparr>)))"

definition recv_chk :: "u32 \<Rightarrow> mem \<Rightarrow> nat \<Rightarrow> u32" where
  "recv_chk fl raw n =
     (if fl AND FLAGS_CRC16 \<noteq> 0 then spd_crc16 0 (mslice raw 0 (n - 2))
      else spd_checksum 0 (mslice raw 0 (n - 2)) CHK_ORIG)"

definition recv_msg1 :: "'d usb \<Rightarrow> ('d host, nat) cm" where
  "recv_msg1 E = bnd (recv_loop E (rounds E) rx_init) (\<lambda>r.
     thn (modify (\<lambda>s. s\<lparr>raw_len := nread r\<rparr>))
     (if nread r = 0 then CMonad.ret 0
      else if nread r < 6 then err_exit ''recieved message too short'' []
      else if nread r \<noteq> plen r then
        err_exit ''bad length (%d, expected %d)'' [PI (int (nread r)), PI (int (plen r))]
      else (\<lambda>s.
        let chk = recv_chk (flags s) (raw_buf s) (plen r);
            a = READ16_BE (raw_buf s) (plen r - 2)
        in if a \<noteq> chk then
             err_exit ''bad checksum (0x%04x, expected 0x%04x)'' [PI (uint a), PI (uint chk)] s
           else thn (cwhen (verbose s = 1)
                      (DBG_LOG ''recv: type = 0x%02x, size = %d''
                        [PI (uint (READ16_BE (raw_buf s) 0)), PI (uint (READ16_BE (raw_buf s) 2))]))
                  (CMonad.ret (nread r)) s)))"

definition recv_type :: "'d host \<Rightarrow> u32" where
  "recv_type s = (if raw_len s < 6 then -1 else READ16_BE (raw_buf s) 0)"

definition raw_data :: "'d host \<Rightarrow> byte list" where
  "raw_data s = mslice (raw_buf s) 4 (unat (READ16_BE (raw_buf s) 2))"

fun recv_msg_loop :: "'d usb \<Rightarrow> nat \<Rightarrow> ('d host, nat) cm" where
  "recv_msg_loop E 0 = no_fuel"
| "recv_msg_loop E (Suc n) = bnd (recv_msg1 E) (\<lambda>ret.
     bnd (gets recv_type) (\<lambda>t.
       if ret = 0 \<or> t \<noteq> BSL_REP_LOG then CMonad.ret ret
       else thn (DBG_LOG ''BSL_REP_LOG: '' [])
           (thn (bnd (gets raw_data) (\<lambda>src. fputs_err (print_string src)))
            (recv_msg_loop E n))))"

definition recv_msg :: "'d usb \<Rightarrow> ('d host, nat) cm" where
  "recv_msg E = recv_msg_loop E (rounds E)"

definition recv_msg_timeout :: "'d usb \<Rightarrow> int \<Rightarrow> ('d host, nat) cm" where
  "recv_msg_timeout E t =
     bnd (gets timeout) (\<lambda>old.
       thn (modify (\<lambda>s. s\<lparr>timeout := (if old > t then old else t)\<rparr>))
      (bnd (recv_msg E) (\<lambda>ret.
       thn (modify (\<lambda>s. s\<lparr>timeout := old\<rparr>)) (CMonad.ret ret))))"

definition send_and_check :: "'d usb \<Rightarrow> ('d host, unit) cm" where
  "send_and_check E =
     thn (send_msg E)
    (bnd (recv_msg E) (\<lambda>ret.
     thn (cwhen (ret = 0) (err_exit ''timeout reached'' []))
    (bnd (gets recv_type) (\<lambda>ret.
     cwhen (ret \<noteq> BSL_REP_ACK) (err_exit ''unexpected response (0x%04x)'' [PI (uint ret)])))))"

section \<open>The host as a receiver\<close>

lemma recv_plen_collected:
  assumes "len_ok q" "k \<le> length q" "collected e (take k q) (m, r)"
  shows "recv_plen m r = RxMore (m, r)"
  using collected_plen_upd [OF assms] by (auto simp: recv_plen_def)

lemma recv_store:
  assumes "len_ok q" "k < length q" "collected e (take k q) (m, r)"
  shows "\<exists>s'. recv_plen (m(k := q ! k)) (r\<lparr>nread := Suc k, esc := 0\<rparr>) = RxMore s' \<and>
    collected 0 (take (Suc k) q) s'"
  using collected_store [OF assms] by (auto simp: recv_plen_def Let_def)

lemma recv_room:
  assumes "len_ok q" "k < length q" "collected e (take k q) (m, r)"
  shows "nread r = k" "\<not> plen r \<le> nread r" "plen r \<noteq> nread r"
  using collected_plen [of q k e m r] assms by (auto split: if_splits)

interpretation host: hdlc_receiver "recv_byte True" rx_idle "collected 0" "collected 0x20" len_ok
proof (unfold_locales, goal_cases)
  case (1 s)
  then show ?case
    by (cases s) (simp add: rx_idle_def recv_byte_def recv_plen_def rx_init_def collected_def)
next
  case (2 q k s)
  obtain m r where s: "s = (m, r)" by (cases s)
  have r: "esc r = 0" "head_found r" using 2 by (simp_all add: s collected_def)
  show ?case
    using recv_store [of q k 0 m r] recv_room [of q k 0 m r] 2 r by (simp add: s recv_byte_def)
next
  case (3 q k s)
  obtain m r where s: "s = (m, r)" by (cases s)
  have r: "esc r = 0" using 3 by (simp add: s collected_def)
  have c: "collected 0x20 (take k q) (m, r\<lparr>esc := 0x20\<rparr>)"
    using 3 by (simp add: s collected_def)
  show ?case
    using recv_plen_collected [OF 3(1) less_imp_le [OF 3(2)] c] c r by (simp add: s recv_byte_def)
next
  case (4 q k s)
  obtain m r where s: "s = (m, r)" by (cases s)
  have r: "esc r = 0x20" "head_found r" using 4 by (simp_all add: s collected_def)
  show ?case
    using recv_store [of q k "0x20" m r] recv_room [of q k "0x20" m r] 4 r
    by (auto simp: s recv_byte_def)
next
  case (5 q s)
  obtain m r where s: "s = (m, r)" by (cases s)
  have "plen r = length q" using collected_plen [of q "length q" 0 m r] 5
    by (simp add: s len_ok_def)
  with 5 show ?case by (auto simp: s recv_byte_def collected_def len_ok_def)
qed

lemma recv_raw_run:
  assumes "len_ok q"
  shows "k \<le> length q \<Longrightarrow> \<exists>s'. rx_run (recv_byte False) (m, rx_init) (HDLC_HEADER # take k q) = RxMore s' \<and>
    collected 0 (take k q) s'"
proof (induction k)
  case 0
  then show ?case by (simp add: recv_byte_def rx_init_def collected_def)
next
  case (Suc k)
  then obtain m' r where run: "rx_run (recv_byte False) (m, rx_init) (HDLC_HEADER # take k q) = RxMore (m', r)"
    and c: "collected 0 (take k q) (m', r)" by auto
  have k: "k < length q" using Suc.prems by simp
  have e: "r\<lparr>nread := Suc k\<rparr> = r\<lparr>nread := Suc k, esc := 0\<rparr>" "head_found r"
    using c by (cases r; simp add: collected_def)+
  obtain s' where "recv_byte False (q ! k) (m', r) = RxMore s'" "collected 0 (take (Suc k) q) s'"
    using recv_store [OF assms k c] recv_room [OF assms k c] e
    by (auto simp: recv_byte_def)
  then show ?case
    using rx_run_append [OF run, of "[q ! k]"] k by (auto simp: take_Suc_conv_app_nth)
qed

definition wire :: "bool \<Rightarrow> byte list \<Rightarrow> byte list" where
  "wire tr q = (if tr then spd_transcode q else q)"

text \<open>In both modes the host gets a packet out of its frame.\<close>

lemma recv_wire:
  assumes "len_ok q"
  shows "\<exists>u s'. rx_run (recv_byte tr) (m, rx_init) (HDLC_HEADER # wire tr q) = RxMore u \<and>
    recv_byte tr HDLC_HEADER u = RxDone s' \<and> collected 0 q s'"
proof (cases tr)
  case True
  then show ?thesis
    using host.run_frame [OF assms, of "(m, rx_init)"] by (simp add: wire_def rx_idle_def)
next
  case False
  obtain m' r where run: "rx_run (recv_byte False) (m, rx_init) (HDLC_HEADER # q) = RxMore (m', r)"
    and c: "collected 0 q (m', r)"
    using recv_raw_run [OF assms, of "length q" m] by auto
  have "plen r = length q" "nread r = length q"
    using collected_plen [OF assms, of "length q" 0 m' r] c assms by (simp_all add: len_ok_def)
  moreover have "head_found r" using c by (simp add: collected_def)
  ultimately have "recv_byte False HDLC_HEADER (m', r) = RxDone (m', r)"
    by (simp add: recv_byte_def)
  then show ?thesis using run c False by (auto simp: wire_def)
qed

section \<open>What is sent\<close>

definition host_sum :: "u32 \<Rightarrow> byte list \<Rightarrow> u32" where
  "host_sum fl p = (if fl AND FLAGS_CRC16 \<noteq> 0 then spd_crc16 0 p else spd_checksum 0 p CHK_FIXZERO)"

definition host_msg :: "u32 \<Rightarrow> byte list \<Rightarrow> byte list" where
  "host_msg type data = WRITE16_BE type @ WRITE16_BE (of_nat (length data)) @ data"

definition host_pkt :: "u32 \<Rightarrow> u32 \<Rightarrow> byte list \<Rightarrow> byte list" where
  "host_pkt fl type data = host_msg type data @ WRITE16_BE (host_sum fl (host_msg type data))"

definition host_frame :: "u32 \<Rightarrow> byte list \<Rightarrow> byte list" where
  "host_frame fl q = HDLC_HEADER # wire (fl AND FLAGS_TRANSCODE \<noteq> 0) q @ [HDLC_HEADER]"

lemma length_host_msg [simp]: "length (host_msg type data) = 4 + length data"
  by (simp add: host_msg_def)

lemma length_host_pkt [simp]: "length (host_pkt fl type data) = 6 + length data"
  by (simp add: host_pkt_def)

lemma encode_msg_ok:
  assumes "length data \<le> 0xffff" "type \<noteq> BSL_CMD_CHECK_BAUD"
  shows "encode_msg type data s = Ret () (s\<lparr>raw_buf := blit (raw_buf s) 0 (host_pkt (flags s) type data),
    raw_len := length (host_pkt (flags s) type data),
    enc_buf := host_frame (flags s) (host_pkt (flags s) type data)\<rparr>)"
proof -
  let ?p = "host_msg type data"
  have b1: "blit (blit (blit (raw_buf s) 0 (WRITE16_BE type)) 2 (WRITE16_BE (of_nat (length data)))) 4 data
      = blit (raw_buf s) 0 ?p"
    by (simp add: blit_append0 host_msg_def)
  have b2: "mslice (blit (raw_buf s) 0 ?p) 0 (4 + length data) = ?p"
    using mslice_blit_same [of "raw_buf s" 0 ?p] by simp
  have b3: "blit (blit (raw_buf s) 0 ?p) (4 + length data) (WRITE16_BE c) =
      blit (raw_buf s) 0 (?p @ WRITE16_BE c)" for c
    using blit_append [of "raw_buf s" 0 ?p "WRITE16_BE c"] by simp
  have b4: "mslice (blit (raw_buf s) 0 (?p @ WRITE16_BE c)) 0 (4 + length data + 2) = ?p @ WRITE16_BE c" for c
    using mslice_blit_same [of "raw_buf s" 0 "?p @ WRITE16_BE c"] by simp
  have "\<not> length data > 0xffff" using assms by simp
  then show ?thesis
    using assms(2)
    unfolding encode_msg_def Let_def host_pkt_def host_sum_def host_frame_def wire_def
    by (simp only: if_False b1 b2 b3 b4 run_modify simp_thms) (simp add: host_msg_def)
qed

lemma WRITE16_BE_nat:
  assumes "n < 65536"
  shows "256 * unat (WRITE16_BE (of_nat n) ! 0) + unat (WRITE16_BE (of_nat n) ! 1) = n"
proof -
  have u: "unat (of_nat n :: u32) = n" using assms by (simp add: unat_of_nat)
  have "n div 256 < 256" using assms by (simp add: less_mult_imp_div_less)
  then show ?thesis by (simp add: WRITE16_BE_def word_nat u)
qed

lemma host_pkt_nth:
  "host_pkt fl type data ! 2 = WRITE16_BE (of_nat (length data)) ! 0"
  "host_pkt fl type data ! 3 = WRITE16_BE (of_nat (length data)) ! 1"
  by (simp_all add: host_pkt_def host_msg_def WRITE16_BE_def)

lemma host_pkt_len_ok: "length data \<le> 0xffff \<Longrightarrow> len_ok (host_pkt fl type data)"
  using WRITE16_BE_nat [of "length data"] by (simp add: len_ok_def host_pkt_nth)

end
