(* ===== verification/SpdXchg.thy ===== *)
theory SpdXchg
  imports SpdIo
begin

text \<open>
  The dumper against a device. \<open>usb_device\<close> is the interface of a lossless USB link: what
  the device has sent arrives in order, in transfers of any size, and every transfer out is
  taken whole and answered at once. \<open>msg_device\<close> extends it with a device that answers
  every message with one message. The lemmas say what the message functions of the dumper
  do with such a device; the device loader of the repository is shown to be one in theory
  Link.
\<close>

unbundle bit_operations_syntax

text \<open>The part of the process that exchanging messages does not touch.\<close>

definition host_env :: "'d host \<Rightarrow> (int \<times> int \<times> int \<times> int) \<times> (u32 \<times> int \<times> int) \<times>
    string \<times> string \<times> (string \<Rightarrow> byte list option) \<times> (string \<Rightarrow> bool) \<times> nat" where
  "host_env s = ((endp_in s, endp_out s, endp_in_blk s, endp_out_blk s), (flags s, verbose s, timeout s),
     stdout s, stdin s, fs s, can_write s, disk s)"

definition reply_sum :: "u32 \<Rightarrow> byte list \<Rightarrow> u32" where
  "reply_sum fl p = (if fl AND FLAGS_CRC16 \<noteq> 0 then spd_crc16 0 p else spd_checksum 0 p CHK_ORIG)"

definition reply_pkt :: "u32 \<Rightarrow> u32 \<Rightarrow> byte list \<Rightarrow> byte list" where
  "reply_pkt fl type data = host_msg type data @ WRITE16_BE (reply_sum fl (host_msg type data))"

lemma length_reply_pkt [simp]: "length (reply_pkt fl type data) = 6 + length data"
  by (simp add: reply_pkt_def)

lemma reply_pkt_len_ok: "length data \<le> 0xffff \<Longrightarrow> len_ok (reply_pkt fl type data)"
  using host_pkt_len_ok [of data fl type] by (simp add: len_ok_def reply_pkt_def host_pkt_def nth_append)

lemma reply_sum_less: "unat (reply_sum fl p) < 65536"
  by (simp add: reply_sum_def spd_crc16_less spd_checksum_reply swap_be16_less)

lemma raw_type:
  assumes "mslice m 0 (6 + length d) = reply_pkt fl t d" "unat t < 65536"
  shows "READ16_BE m 0 = t"
proof (rule READ16_BE_mslice [where p = "[]"])
  have "mslice m 0 (0 + 2) = take 2 (mslice m 0 (6 + length d))" by simp
  then show "mslice m 0 (0 + 2) = [] @ WRITE16_BE t"
    unfolding assms(1) by (simp add: reply_pkt_def host_msg_def)
qed (use assms in simp_all)

lemma raw_body:
  assumes "mslice m 0 (6 + length d) = reply_pkt fl t d" "length d \<le> 0xffff"
  shows "unat (READ16_BE m 2) = length d" "mslice m 4 (length d) = d"
proof -
  have "len_ok (mslice m 0 (6 + length d))"
    unfolding assms(1) by (rule reply_pkt_len_ok) (rule assms(2))
  then show "unat (READ16_BE m 2) = length d"
    using READ16_BE_slice [OF refl, of "6 + length d" m] by (simp add: len_ok_def)
  have "mslice m 4 (length d) = take (length d) (drop 4 (mslice m 0 (6 + length d)))" by simp
  then show "mslice m 4 (length d) = d"
    unfolding assms(1) by (simp add: reply_pkt_def host_msg_def)
qed

locale usb_device =
  fixes E :: "'d usb"
    and pending :: "'d \<Rightarrow> byte list"
    and core :: "'d \<Rightarrow> 'c"
  assumes in_some: "pending d \<noteq> [] \<Longrightarrow> 0 < n \<Longrightarrow> \<exists>bs d'. bulk_in E ep n t d = (0, bs, d') \<and>
        bs \<noteq> [] \<and> pending d = bs @ pending d' \<and> core d' = core d"
    and in_none: "pending d = [] \<Longrightarrow> \<exists>d'. bulk_in E ep n t d = (LIBUSB_ERROR_TIMEOUT, [], d') \<and>
        pending d' = [] \<and> core d' = core d"
    and out_none: "\<exists>d'. bulk_out E ep [] t d = (0, 0, d') \<and> core d' = core d \<and> pending d' = pending d"
begin

text \<open>The bytes the host has received and not yet looked at, with those on their way.\<close>

definition avail :: "'d host \<Rightarrow> byte list" where
  "avail s = drop (recv_pos s) (mslice (recv_buf s) 0 (recv_len s)) @ pending (dev s)"

lemma recv_fill_some:
  assumes "pending (dev s) \<noteq> []"
  shows "\<exists>s1. recv_fill E s = Ret True s1 \<and> recv_pos s1 = 0 \<and> 0 < recv_len s1 \<and>
    avail s1 = pending (dev s) \<and> raw_buf s1 = raw_buf s \<and> core (dev s1) = core (dev s) \<and> host_env s1 = host_env s"
proof -
  obtain bs d' where b: "bulk_in E (endp_in s) RECV_BUF_LEN (timeout s) (dev s) = (0, bs, d')"
    "bs \<noteq> []" "pending (dev s) = bs @ pending d'" "core d' = core (dev s)"
    using in_some [OF assms, of RECV_BUF_LEN "endp_in s" "timeout s"] by (auto simp: RECV_BUF_LEN_def)
  then show ?thesis
    by (cases "verbose s \<ge> 2")
      (auto simp: recv_fill_def LIBUSB_ERROR_NO_DEVICE_def LIBUSB_ERROR_TIMEOUT_def Let_def
        thn_def bnd_def DBG_LOG_def fputs_err_def avail_def host_env_def modify_def cwhen_def ret_def)
qed

lemma recv_fill_none:
  assumes "pending (dev s) = []"
  shows "\<exists>s1. recv_fill E s = Ret False s1 \<and> recv_pos s1 = recv_pos s \<and> recv_len s1 = 0 \<and>
    pending (dev s1) = [] \<and> raw_buf s1 = raw_buf s \<and> core (dev s1) = core (dev s) \<and> host_env s1 = host_env s"
proof -
  obtain d' where b: "bulk_in E (endp_in s) RECV_BUF_LEN (timeout s) (dev s) = (LIBUSB_ERROR_TIMEOUT, [], d')"
    "pending d' = []" "core d' = core (dev s)"
    using in_none [OF assms] by blast
  then show ?thesis
    by (simp add: recv_fill_def LIBUSB_ERROR_NO_DEVICE_def LIBUSB_ERROR_TIMEOUT_def host_env_def)
qed

lemma recv_loop_byte:
  assumes "avail s = a # ys"
  shows "\<exists>s1. recv_loop E (Suc n) r s =
      (case recv_byte (flags s AND FLAGS_TRANSCODE \<noteq> 0) a (raw_buf s, r) of
         RxMore (raw, r) \<Rightarrow> recv_loop E n r (s1\<lparr>raw_buf := raw\<rparr>)
       | RxDone (raw, r) \<Rightarrow> Ret r (s1\<lparr>raw_buf := raw\<rparr>)
       | RxFail (fmt, args) (raw, r) \<Rightarrow> err_exit fmt args (s1\<lparr>raw_buf := raw\<rparr>)) \<and>
    avail s1 = ys \<and> core (dev s1) = core (dev s) \<and> host_env s1 = host_env s"
proof -
  have "\<exists>s0. (if recv_pos s \<ge> recv_len s then recv_fill E s else Ret True s) = Ret True s0 \<and>
      recv_pos s0 < recv_len s0 \<and> avail s0 = a # ys \<and> raw_buf s0 = raw_buf s \<and>
      core (dev s0) = core (dev s) \<and> host_env s0 = host_env s"
  proof (cases "recv_pos s \<ge> recv_len s")
    case True
    then have "pending (dev s) = a # ys" using assms by (simp add: avail_def)
    then show ?thesis using recv_fill_some [of s] True by auto
  next
    case False
    then show ?thesis using assms by simp
  qed
  then obtain s0 where s0: "(if recv_pos s \<ge> recv_len s then recv_fill E s else Ret True s) = Ret True s0"
    "recv_pos s0 < recv_len s0" "avail s0 = a # ys" "raw_buf s0 = raw_buf s"
    "core (dev s0) = core (dev s)" "host_env s0 = host_env s" by blast
  let ?s1 = "s0\<lparr>recv_pos := Suc (recv_pos s0)\<rparr>"
  have d: "drop (recv_pos s0) (mslice (recv_buf s0) 0 (recv_len s0)) =
      recv_buf s0 (recv_pos s0) # drop (Suc (recv_pos s0)) (mslice (recv_buf s0) 0 (recv_len s0))"
    using Cons_nth_drop_Suc [of "recv_pos s0" "mslice (recv_buf s0) 0 (recv_len s0)"] s0(2) by simp
  have a: "recv_buf s0 (recv_pos s0) = a" and av: "avail ?s1 = ys"
    using s0(3) unfolding avail_def d by (simp_all del: drop_mslice)
  have fl: "flags s0 = flags s" and rs: "host_env ?s1 = host_env s" using s0(6) by (simp_all add: host_env_def)
  have "recv_loop E (Suc n) r s =
      (case recv_byte (flags s AND FLAGS_TRANSCODE \<noteq> 0) a (raw_buf s, r) of
         RxMore (raw, r) \<Rightarrow> recv_loop E n r (?s1\<lparr>raw_buf := raw\<rparr>)
       | RxDone (raw, r) \<Rightarrow> Ret r (?s1\<lparr>raw_buf := raw\<rparr>)
       | RxFail (fmt, args) (raw, r) \<Rightarrow> err_exit fmt args (?s1\<lparr>raw_buf := raw\<rparr>))"
    using s0(1,4) by (simp add: bnd_def a fl Let_def del: if_split)
  then show ?thesis using av rs s0(5) by auto
qed

lemma recv_loop_run:
  "rx_run (recv_byte (flags s AND FLAGS_TRANSCODE \<noteq> 0)) (raw_buf s, r) xs = RxMore (raw', r') \<Longrightarrow>
   avail s = xs @ ys \<Longrightarrow>
   \<exists>s'. recv_loop E (length xs + n) r s = recv_loop E n r' s' \<and> avail s' = ys \<and> raw_buf s' = raw' \<and>
     core (dev s') = core (dev s) \<and> host_env s' = host_env s"
proof (induction xs arbitrary: s r)
  case Nil
  then show ?case by auto
next
  case (Cons a xs)
  obtain m r1 where step: "recv_byte (flags s AND FLAGS_TRANSCODE \<noteq> 0) a (raw_buf s, r) = RxMore (m, r1)"
    and run: "rx_run (recv_byte (flags s AND FLAGS_TRANSCODE \<noteq> 0)) (m, r1) xs = RxMore (raw', r')"
    using Cons.prems(1) by (auto split: rx_out.splits)
  obtain s1 where s1: "recv_loop E (Suc (length xs + n)) r s = recv_loop E (length xs + n) r1 (s1\<lparr>raw_buf := m\<rparr>)"
    "avail s1 = xs @ ys" "core (dev s1) = core (dev s)" "host_env s1 = host_env s"
    using recv_loop_byte [of s a "xs @ ys" "length xs + n" r] Cons.prems(2) step by auto
  let ?s2 = "s1\<lparr>raw_buf := m\<rparr>"
  have "avail ?s2 = xs @ ys" "flags ?s2 = flags s" "host_env ?s2 = host_env s"
    using s1 by (simp_all add: avail_def host_env_def)
  with Cons.IH [of ?s2 r1] run s1 show ?case by auto
qed

text \<open>A timeout ends the loop with what was collected.\<close>

lemma recv_loop_timeout:
  assumes "avail s = []"
  shows "\<exists>s1. recv_loop E (Suc n) r s = Ret r s1 \<and> raw_buf s1 = raw_buf s \<and> avail s1 = [] \<and>
    core (dev s1) = core (dev s) \<and> host_env s1 = host_env s"
proof -
  have p: "recv_pos s \<ge> recv_len s" "pending (dev s) = []" using assms by (simp_all add: avail_def)
  from recv_fill_none [OF p(2)] p(1) show ?thesis
    by (auto simp: bnd_def ret_def avail_def)
qed

lemma recv_msg1_ok:
  assumes "avail s = host_frame (flags s) (reply_pkt (flags s) type data) @ ys"
    and "length data \<le> 0xffff"
    and "length (host_frame (flags s) (reply_pkt (flags s) type data)) \<le> rounds E"
  shows "\<exists>s'. recv_msg1 E s = Ret (6 + length data) s' \<and> raw_len s' = 6 + length data \<and>
    mslice (raw_buf s') 0 (6 + length data) = reply_pkt (flags s) type data \<and> avail s' = ys \<and>
    core (dev s') = core (dev s) \<and> host_env s' = host_env s"
proof -
  let ?q = "reply_pkt (flags s) type data" and ?tr = "flags s AND FLAGS_TRANSCODE \<noteq> 0"
  let ?xs = "HDLC_HEADER # wire ?tr ?q"
  have q: "len_ok ?q" using assms(2) by (rule reply_pkt_len_ok)
  have l: "length ?q = 6 + length data" by simp
  obtain m r m' r' where run: "rx_run (recv_byte ?tr) (raw_buf s, rx_init) ?xs = RxMore (m, r)"
    and last: "recv_byte ?tr HDLC_HEADER (m, r) = RxDone (m', r')"
    and c: "collected 0 ?q (m', r')"
    using recv_wire [OF q, of ?tr "raw_buf s"] by auto
  obtain n where n: "rounds E = length ?xs + Suc n"
    using assms(3) le_Suc_ex [of "length ?xs + 1" "rounds E"] by (auto simp: host_frame_def)
  obtain s1 where s1: "recv_loop E (rounds E) rx_init s = recv_loop E (Suc n) r s1"
    "avail s1 = HDLC_HEADER # ys" "raw_buf s1 = m" "core (dev s1) = core (dev s)" "host_env s1 = host_env s"
    using recv_loop_run [OF run, of "HDLC_HEADER # ys" "Suc n"] assms(1) n by (auto simp: host_frame_def)
  have fl: "flags s1 = flags s" using s1(5) by (simp add: host_env_def)
  obtain s2 where s2: "recv_loop E (Suc n) r s1 = Ret r' (s2\<lparr>raw_buf := m'\<rparr>)"
    "avail s2 = ys" "core (dev s2) = core (dev s)" "host_env s2 = host_env s"
    using recv_loop_byte [OF s1(2), of n r] last s1(3-5) unfolding fl by auto
  have r': "nread r' = 6 + length data" "plen r' = 6 + length data" "mslice m' 0 (6 + length data) = ?q"
    using c collected_full [OF q c] by (simp_all only: l)
  have "mslice m' 0 (4 + length data) = take (4 + length data) (mslice m' 0 (6 + length data))" by simp
  also have "\<dots> = host_msg type data" unfolding r'(3) by (simp add: reply_pkt_def)
  finally have msg: "mslice m' 0 (4 + length data) = host_msg type data" .
  have "READ16_BE m' (4 + length data) = reply_sum (flags s) (host_msg type data)"
    using r'(3) reply_sum_less
    by (intro READ16_BE_mslice [where p = "host_msg type data"]) (simp_all add: reply_pkt_def)
  moreover have "flags s2 = flags s" using s2(4) by (simp add: host_env_def)
  ultimately have chk: "READ16_BE m' (6 + length data - 2) = recv_chk (flags s2) m' (6 + length data)"
    by (simp add: recv_chk_def msg reply_sum_def)
  define s3 where "s3 = s2\<lparr>raw_buf := m'\<rparr>"
  define s4 where "s4 = s3\<lparr>raw_len := 6 + length data\<rparr>"
  have loop: "recv_loop E (rounds E) rx_init s = Ret r' s3" using s1(1) s2(1) by (simp add: s3_def)
  have s4: "raw_buf s4 = m'" "flags s4 = flags s2" "raw_len s4 = 6 + length data" "avail s4 = ys"
    "core (dev s4) = core (dev s)" "host_env s4 = host_env s"
    using s2(2-4) by (simp_all add: s3_def s4_def avail_def host_env_def)
  have "recv_msg1 E s = thn (cwhen (verbose s4 = 1)
      (DBG_LOG ''recv: type = 0x%02x, size = %d''
        [PI (uint (READ16_BE (raw_buf s4) 0)), PI (uint (READ16_BE (raw_buf s4) 2))]))
      (ret (6 + length data)) s4"
    using chk r' unfolding recv_msg1_def bnd_def [of "recv_loop E (rounds E) rx_init"] loop
      outcome.case run_thn(1) [OF run_modify]
    by (simp add: Let_def s4 flip: s4_def)
  then have run: "recv_msg1 E s = Ret (6 + length data) (if verbose s4 = 1 then s4\<lparr>errlog := errlog s4 @
      [LogF ''recv: type = 0x%02x, size = %d''
        [PI (uint (READ16_BE (raw_buf s4) 0)), PI (uint (READ16_BE (raw_buf s4) 2))]]\<rparr> else s4)"
    by (simp add: thn_def bnd_def cwhen_def DBG_LOG_def ret_def modify_def)
  have "avail (if b then s4\<lparr>errlog := l\<rparr> else s4) = ys" "host_env (if b then s4\<lparr>errlog := l\<rparr> else s4) = host_env s"
    "raw_buf (if b then s4\<lparr>errlog := l\<rparr> else s4) = m'" "raw_len (if b then s4\<lparr>errlog := l\<rparr> else s4) = 6 + length data"
    "core (dev (if b then s4\<lparr>errlog := l\<rparr> else s4)) = core (dev s)" for b l
    using s4 by (simp_all add: avail_def host_env_def)
  with run r'(3) show ?thesis by (intro exI conjI) (assumption | simp only:)+
qed

text \<open>After a reply of type \<open>t\<close> with data \<open>d\<close>, and with nothing more on its way.\<close>

definition replied :: "'d host \<Rightarrow> 'd host \<Rightarrow> 'c \<Rightarrow> u32 \<Rightarrow> byte list \<Rightarrow> bool" where
  "replied s s' c t d = (raw_len s' = 6 + length d \<and>
     mslice (raw_buf s') 0 (6 + length d) = reply_pkt (flags s) t d \<and>
     avail s' = [] \<and> core (dev s') = c \<and> host_env s' = host_env s)"

lemma recv_msg_ok:
  assumes "avail s = host_frame (flags s) (reply_pkt (flags s) t d)"
    and "length d \<le> 0xffff" "unat t < 65536" "t \<noteq> BSL_REP_LOG"
    and "131084 \<le> rounds E"
  shows "\<exists>s'. recv_msg E s = Ret (6 + length d) s' \<and> replied s s' (core (dev s)) t d"
proof -
  let ?q = "reply_pkt (flags s) t d"
  have "length (wire tr ?q) \<le> 2 * (6 + length d)" for tr
    using length_spd_transcode [of ?q] by (simp add: wire_def)
  then have "length (host_frame (flags s) ?q) \<le> 2 * (6 + length d) + 2"
    by (simp add: host_frame_def)
  also have "\<dots> \<le> rounds E" using assms(2,5) by arith
  finally have "length (host_frame (flags s) ?q) \<le> rounds E" .
  then obtain s' where s': "recv_msg1 E s = Ret (6 + length d) s'" "raw_len s' = 6 + length d"
    "mslice (raw_buf s') 0 (6 + length d) = reply_pkt (flags s) t d" "avail s' = []"
    "core (dev s') = core (dev s)" "host_env s' = host_env s"
    using recv_msg1_ok [of s t d "[]"] assms by auto
  have "recv_type s' = t"
    using raw_type [OF s'(3) assms(3)] s'(2) by (simp add: recv_type_def)
  moreover obtain n where "rounds E = Suc n" using assms(5) by (cases "rounds E") auto
  ultimately have "recv_msg E s = Ret (6 + length d) s'"
    using s'(1) assms(4) by (simp add: recv_msg_def bnd_def gets_def ret_def)
  then show ?thesis using s' by (auto simp: replied_def)
qed

lemma send_msg_log_ok:
  "\<exists>l. send_msg_log s = Ret () (s\<lparr>errlog := l\<rparr>)"
proof -
  have log: "\<And>fmt args l. DBG_LOG fmt args (s\<lparr>errlog := l\<rparr>) = Ret () (s\<lparr>errlog := l @ [LogF fmt args]\<rparr>)"
    by (simp add: DBG_LOG_def modify_def)
  have put: "\<And>str l. fputs_err str (s\<lparr>errlog := l\<rparr>) = Ret () (s\<lparr>errlog := l @ [LogS str]\<rparr>)"
    by (simp add: fputs_err_def modify_def)
  have log0: "\<And>fmt args. DBG_LOG fmt args s = Ret () (s\<lparr>errlog := errlog s @ [LogF fmt args]\<rparr>)"
    by (simp add: DBG_LOG_def modify_def)
  have s0: "Ret () s = Ret () (s\<lparr>errlog := errlog s\<rparr>)" by simp
  show ?thesis
    unfolding send_msg_log_def thn_def bnd_def log0
    by (simp only: outcome.case put if_distrib [of "\<lambda>f. f s"] log0 split: if_split)
      (intro conjI impI; rule exI, (rule refl | rule s0))
qed

lemma usb_out_none:
  "\<exists>s'. usb_out E [] s = Ret (0, 0) s' \<and> core (dev s') = core (dev s) \<and> avail s' = avail s \<and>
     host_env s' = host_env s \<and> raw_buf s' = raw_buf s \<and> raw_len s' = raw_len s"
  using out_none [of "endp_out s" "timeout s" "dev s"] by (auto simp: usb_out_def avail_def host_env_def)

end

text \<open>
  A device that answers every message that it \<open>handles\<close> with one message: \<open>handle\<close> gives
  its new state and the type and data of the answer. \<open>ready\<close> says that it waits for one.
\<close>

locale msg_device = usb_device E pending "\<lambda>d. (core d, ready d)"
  for E :: "'d usb" and pending :: "'d \<Rightarrow> byte list" and core :: "'d \<Rightarrow> 'c" and ready :: "'d \<Rightarrow> bool" +
  fixes fl :: u32
    and handles :: "'c \<Rightarrow> u32 \<Rightarrow> byte list \<Rightarrow> bool"
    and handle :: "'c \<Rightarrow> u32 \<Rightarrow> byte list \<Rightarrow> 'c \<times> u32 \<times> byte list"
  assumes out_msg: "ready d \<Longrightarrow> handles (core d) t dat \<Longrightarrow> handle (core d) t dat = (c', rt, rd) \<Longrightarrow>
        \<exists>d'. bulk_out E ep (host_frame fl (host_pkt fl t dat)) tm d =
               (0, length (host_frame fl (host_pkt fl t dat)), d') \<and>
             core d' = c' \<and> ready d' \<and> pending d' = pending d @ host_frame fl (reply_pkt fl rt rd)"
    and handles_len: "handles c t dat \<Longrightarrow> length dat \<le> 0xffff \<and> t \<noteq> BSL_CMD_CHECK_BAUD"
    and handle_reply: "handles c t dat \<Longrightarrow> handle c t dat = (c', rt, rd) \<Longrightarrow>
        length rd \<le> 0xffff \<and> unat rt < 65536 \<and> rt \<noteq> BSL_REP_LOG"
    and rounds_enough: "131084 \<le> rounds E"
begin

definition encoded :: "'d host \<Rightarrow> 'd host \<Rightarrow> u32 \<Rightarrow> byte list \<Rightarrow> bool" where
  "encoded s s' t d = (flags s = fl \<and> avail s' = [] \<and> dev s' = dev s \<and> ready (dev s) \<and>
     host_env s' = host_env s \<and> enc_buf s' = host_frame fl (host_pkt fl t d))"

text \<open>The host between two exchanges with the device.\<close>

definition between :: "'d host \<Rightarrow> bool" where
  "between s = (flags s = fl \<and> avail s = [] \<and> ready (dev s))"

definition answered :: "'d host \<Rightarrow> 'd host \<Rightarrow> 'c \<Rightarrow> u32 \<Rightarrow> byte list \<Rightarrow> bool" where
  "answered s s' c t d = (raw_len s' = 6 + length d \<and>
     mslice (raw_buf s') 0 (6 + length d) = reply_pkt fl t d \<and>
     between s' \<and> core (dev s') = c \<and> host_env s' = host_env s)"

lemma encode_ok:
  assumes "between s" "handles (core (dev s)) t d"
  shows "\<exists>s'. encode_msg t d s = Ret () s' \<and> encoded s s' t d"
  using encode_msg_ok [of d t s] handles_len [OF assms(2)] assms(1)
  by (auto simp: encoded_def between_def avail_def host_env_def)

lemma send_msg_ok:
  assumes "encoded s s1 t dat" "handles (core (dev s)) t dat" "handle (core (dev s)) t dat = (c', rt, rd)"
  shows "\<exists>s' n. send_msg E s1 = Ret n s' \<and> core (dev s') = c' \<and> ready (dev s') \<and>
    avail s' = host_frame fl (reply_pkt fl rt rd) \<and> host_env s' = host_env s"
proof -
  let ?enc = "host_frame fl (host_pkt fl t dat)"
  have e: "enc_buf s1 = ?enc" "avail s1 = []" "dev s1 = dev s" "ready (dev s)" "host_env s1 = host_env s"
    using assms(1) by (simp_all add: encoded_def)
  obtain l where l: "send_msg_log s1 = Ret () (s1\<lparr>errlog := l\<rparr>)" using send_msg_log_ok by blast
  obtain d' where d': "bulk_out E (endp_out s1) ?enc (timeout s1) (dev s) = (0, length ?enc, d')"
    "core d' = c'" "ready d'" "pending d' = pending (dev s) @ host_frame fl (reply_pkt fl rt rd)"
    using out_msg [OF e(4) assms(2,3)] by blast
  let ?s2 = "s1\<lparr>errlog := l, dev := d'\<rparr>"
  have out: "usb_out E ?enc (s1\<lparr>errlog := l\<rparr>) = Ret (0, length ?enc) ?s2"
    using d'(1) e(3) by (simp add: usb_out_def)
  have s2: "avail ?s2 = host_frame fl (reply_pkt fl rt rd)" "host_env ?s2 = host_env s"
    using e d'(4) by (simp_all add: avail_def host_env_def)
  obtain s3 where s3: "usb_out E [] ?s2 = Ret (0, 0) s3" "core (dev s3) = c'" "ready (dev s3)"
    "avail s3 = host_frame fl (reply_pkt fl rt rd)" "host_env s3 = host_env s"
    using usb_out_none [of ?s2] s2 d'(2,3) by auto
  have "?enc \<noteq> []" by (simp add: host_frame_def)
  then have "send_msg E s1 = Ret (length ?enc)
      (if endp_out_blk ?s2 = 512 \<and> length ?enc mod 512 = 0 then s3 else ?s2)"
    using out s3(1) l e(1)
    by (simp add: send_msg_def thn_def bnd_def cwhen_def ret_def gets_def)
  then show ?thesis using s2 s3 d'(2,3) by auto
qed

lemma exchange_ok:
  assumes "encoded s s1 t dat" "handles (core (dev s)) t dat" "handle (core (dev s)) t dat = (c', rt, rd)"
  shows "\<exists>s2 s3 n. send_msg E s1 = Ret n s2 \<and> recv_msg E s2 = Ret (6 + length rd) s3 \<and>
    answered s s3 c' rt rd"
proof -
  obtain s2 n where s2: "send_msg E s1 = Ret n s2" "core (dev s2) = c'" "ready (dev s2)"
    "avail s2 = host_frame fl (reply_pkt fl rt rd)" "host_env s2 = host_env s"
    using send_msg_ok [OF assms] by blast
  have fl2: "flags s2 = fl" "flags s = fl" using s2(5) assms(1) by (simp_all add: host_env_def encoded_def)
  obtain s3 where s3: "recv_msg E s2 = Ret (6 + length rd) s3"
    "replied s2 s3 (c', True) rt rd"
    using recv_msg_ok [of s2 rt rd] handle_reply [OF assms(2,3)] rounds_enough s2 fl2 by auto
  have "flags s3 = fl" using s3(2) fl2 by (simp add: replied_def host_env_def)
  then have "answered s s3 c' rt rd"
    using s3(2) s2(5) fl2 by (simp add: answered_def replied_def between_def)
  then show ?thesis using s2(1) s3(1) by blast
qed

lemma answered_reply:
  assumes "answered s s' c t d" "length d \<le> 0xffff" "unat t < 65536"
  shows "recv_type s' = t" "READ16_BE (raw_buf s') 2 = of_nat (length d)" "raw_data s' = d"
    "between s'" "core (dev s') = c" "host_env s' = host_env s"
proof -
  have m: "mslice (raw_buf s') 0 (6 + length d) = reply_pkt fl t d"
    using assms(1) by (simp add: answered_def)
  note body = raw_body [OF m assms(2)]
  show "recv_type s' = t"
    using raw_type [OF m assms(3)] assms(1) by (simp add: answered_def recv_type_def)
  show "READ16_BE (raw_buf s') 2 = of_nat (length d)"
    unfolding body(1) [symmetric] by simp
  show "raw_data s' = d" using body by (simp add: raw_data_def)
qed (use assms(1) in \<open>simp_all add: answered_def\<close>)

lemma send_and_check_ok:
  assumes "encoded s s1 t d" "handles (core (dev s)) t d"
    and "handle (core (dev s)) t d = (c', BSL_REP_ACK, rd)"
  shows "\<exists>s'. send_and_check E s1 = Ret () s' \<and> answered s s' c' BSL_REP_ACK rd"
proof -
  obtain s2 s3 n where s3: "send_msg E s1 = Ret n s2" "recv_msg E s2 = Ret (6 + length rd) s3"
    "answered s s3 c' BSL_REP_ACK rd" using exchange_ok [OF assms] by blast
  have "recv_type s3 = BSL_REP_ACK"
    using answered_reply(1) [OF s3(3)] handle_reply [OF assms(2,3)] by simp
  then show ?thesis
    using s3 by (auto simp: send_and_check_def thn_def bnd_def gets_def cwhen_def ret_def)
qed

text \<open>A message that the device acknowledges.\<close>

lemma command_ok:
  assumes "between s" "handles (core (dev s)) t d"
    and "handle (core (dev s)) t d = (c', BSL_REP_ACK, rd)"
  shows "\<exists>s'. thn (encode_msg t d) (send_and_check E) s = Ret () s' \<and> between s' \<and>
    core (dev s') = c' \<and> host_env s' = host_env s"
proof -
  obtain s1 where s1: "encode_msg t d s = Ret () s1" "encoded s s1 t d"
    using encode_ok [OF assms(1,2)] by blast
  obtain s' where "send_and_check E s1 = Ret () s'" "answered s s' c' BSL_REP_ACK rd"
    using send_and_check_ok [OF s1(2) assms(2,3)] by blast
  then show ?thesis using s1(1) by (auto simp: thn_def bnd_def answered_def)
qed

end

end
