(* ===== verification/CStd.thy ===== *)
theory CStd
  imports Prelude
begin

text \<open>
  What the programs use of the C library's character and number functions. A C string is
  the list of the characters before its terminator.
\<close>

section \<open>Characters\<close>

definition isspace :: "char \<Rightarrow> bool" where
  "isspace c = (c = CHR '' '' \<or> (9 \<le> (of_char c :: nat) \<and> (of_char c :: nat) \<le> 13))"

definition tolower :: "char \<Rightarrow> char" where
  "tolower c = (let n = of_char c :: nat in if 65 \<le> n \<and> n \<le> 90 then char_of (n + 32) else c)"

text \<open>\<open>scanf("%3s%c")\<close>: the two values when both conversions succeed, and what is left.\<close>

definition scan_answer :: "string \<Rightarrow> (string \<times> char) option \<times> string" where
  "scan_answer inp =
     (let inp = dropWhile isspace inp;
          w = takeWhile (\<lambda>c. \<not> isspace c) (take 3 inp);
          inp = drop (length w) inp
      in if w = [] \<or> inp = [] then (None, inp) else (Some (w, hd inp), tl inp))"

definition bytes_of :: "string \<Rightarrow> byte list" where
  "bytes_of str = map (\<lambda>c. of_nat (of_char c)) str"

definition str_of :: "byte list \<Rightarrow> string" where
  "str_of bs = map (\<lambda>b. char_of (unat b)) bs"

lemma bytes_of_str_of [simp]: "bytes_of (str_of bs) = bs"
  by (auto simp: bytes_of_def str_of_def comp_def byte_less intro!: map_idI)

text \<open>The string that starts at a list of bytes: up to the first zero.\<close>

definition c_str :: "byte list \<Rightarrow> string" where
  "c_str bs = str_of (takeWhile (\<lambda>b. b \<noteq> 0) bs)"

section \<open>Searching\<close>

definition starts :: "string \<Rightarrow> string \<Rightarrow> bool" where
  "starts p str = (take (length p) str = p)"

fun strstr :: "string \<Rightarrow> string \<Rightarrow> nat option" where
  "strstr [] p = (if p = [] then Some 0 else None)"
| "strstr (c # str) p = (if starts p (c # str) then Some 0 else map_option Suc (strstr str p))"

definition strchr :: "string \<Rightarrow> char \<Rightarrow> nat option" where
  "strchr str c = strstr str [c]"

lemma strstr_Some: "strstr str p = Some k \<Longrightarrow> k \<le> length str \<and> starts p (drop k str)"
  by (induction str arbitrary: k) (auto simp: starts_def split: if_splits)

section \<open>Numbers\<close>

definition digit_val :: "char \<Rightarrow> nat" where
  "digit_val c = (let n = of_char c :: nat in
     if 48 \<le> n \<and> n \<le> 57 then n - 48
     else if 97 \<le> n \<and> n \<le> 122 then n - 87
     else if 65 \<le> n \<and> n \<le> 90 then n - 55
     else 99)"

fun digits :: "nat \<Rightarrow> nat \<Rightarrow> string \<Rightarrow> nat \<times> string" where
  "digits base acc [] = (acc, [])"
| "digits base acc (c # str) =
     (if digit_val c < base then digits base (acc * base + digit_val c) str else (acc, c # str))"

text \<open>
  The common part of the strto functions: sign, magnitude, and the rest of the string
  (the whole string when there is no number). Base 0 is chosen by the prefix.
\<close>

definition strto :: "nat \<Rightarrow> string \<Rightarrow> bool \<times> nat \<times> string" where
  "strto base0 str =
     (let s = dropWhile isspace str;
          neg = (s \<noteq> [] \<and> hd s = CHR ''-'');
          s = (if s \<noteq> [] \<and> (hd s = CHR ''-'' \<or> hd s = CHR ''+'') then tl s else s);
          hex = (length s \<ge> 3 \<and> s ! 0 = CHR ''0'' \<and> tolower (s ! 1) = CHR ''x'' \<and> digit_val (s ! 2) < 16
                 \<and> (base0 = 0 \<or> base0 = 16));
          base = (if base0 \<noteq> 0 then base0 else if hex then 16
                  else if s \<noteq> [] \<and> hd s = CHR ''0'' then 8 else 10);
          s = (if hex then drop 2 s else s)
      in if s \<noteq> [] \<and> digit_val (hd s) < base
         then let (n, rest) = digits base 0 s in (neg, n, rest)
         else (False, 0, str))"

text \<open>\<open>strtoull\<close> gives the negation of a signed number, and the maximum when it does not fit.\<close>

definition strtoull :: "nat \<Rightarrow> string \<Rightarrow> u64 \<times> string" where
  "strtoull base str = (case strto base str of (neg, n, rest) \<Rightarrow>
     (if n \<ge> 2 ^ 64 then -1 else if neg then - of_nat n else of_nat n, rest))"

text \<open>\<open>strtoll\<close>, and \<open>strtol\<close> where long has 64 bits.\<close>

definition strtoll :: "nat \<Rightarrow> string \<Rightarrow> int \<times> string" where
  "strtoll base str = (case strto base str of (neg, n, rest) \<Rightarrow>
     (if neg then max (- (2 ^ 63)) (- int n) else min (2 ^ 63 - 1) (int n), rest))"

text \<open>\<open>atoi\<close>: what strtol gives, cut to an int.\<close>

definition atoi :: "string \<Rightarrow> int" where
  "atoi str = sint (word_of_int (fst (strtoll 10 str)) :: u32)"

section \<open>Printing numbers\<close>

definition digit_chr :: "nat \<Rightarrow> char" where
  "digit_chr d = (if d < 10 then char_of (48 + d) else char_of (87 + d))"

fun dec_str :: "nat \<Rightarrow> string" where
  "dec_str n = (if n < 10 then [digit_chr n] else dec_str (n div 10) @ [digit_chr (n mod 10)])"

fun hex_str :: "nat \<Rightarrow> string" where
  "hex_str n = (if n < 16 then [digit_chr n] else hex_str (n div 16) @ [digit_chr (n mod 16)])"

definition hex_pad :: "nat \<Rightarrow> nat \<Rightarrow> string" where
  "hex_pad w n = (let s = hex_str n in replicate (w - length s) (CHR ''0'') @ s)"

declare dec_str.simps [simp del] hex_str.simps [simp del]

abbreviation newline :: string where "newline \<equiv> [CHR 0x0A]"

end
