(* ===== verification/SpdCmd.thy ===== *)
theory SpdCmd
  imports SpdXchg CStd
begin

text \<open>
  The memory and flash commands of the dumper (spd_dump.c, loadfile to dump_mem). A loop
  whose step could be zero is bounded by the number of bytes it is to transfer, so that the
  only way to run out of rounds is a step of zero, for which the C loop does not end.
\<close>

unbundle bit_operations_syntax

section \<open>Standard input and files\<close>

definition check_confirm :: "string \<Rightarrow> ('d host, unit) cm" where
  "check_confirm name = (\<lambda>s.
     let s = s\<lparr>stdout := stdout s @ ''Answer \"yes\" to confirm the \"'' @ name @ ''\" command: ''\<rparr>;
         (ans, inp) = scan_answer (stdin s);
         s = s\<lparr>stdin := inp\<rparr>
     in case ans of
          Some (buf, c) \<Rightarrow>
            if c = CHR 0x0A \<and> map tolower buf = ''yes'' then Ret () s
            else err_exit ''operation is not confirmed'' [] s
        | None \<Rightarrow> err_exit ''operation is not confirmed'' [] s)"

definition loadfile :: "string \<Rightarrow> 'd host \<Rightarrow> byte list option \<times> nat" where
  "loadfile fn s = (case fs s fn of
       None \<Rightarrow> (None, 0)
     | Some bs \<Rightarrow> if length bs = 0 then (None, 0) else (Some bs, length bs))"

definition fopen_wb :: "string \<Rightarrow> ('d host, bool) cm" where
  "fopen_wb fn = (\<lambda>s. if can_write s fn then Ret True (s\<lparr>fs := (fs s)(fn := Some [])\<rparr>) else Ret False s)"

definition file_append :: "string \<Rightarrow> byte list \<Rightarrow> 'd host \<Rightarrow> 'd host" where
  "file_append fn bs s = s\<lparr>fs := (fs s)(fn := Some (case fs s fn of None \<Rightarrow> bs | Some old \<Rightarrow> old @ bs))\<rparr>"

definition fwrite :: "string \<Rightarrow> byte list \<Rightarrow> ('d host, nat) cm" where
  "fwrite fn bs = (\<lambda>s. let n = min (length bs) (disk s)
     in Ret n (file_append fn (take n bs) (s\<lparr>disk := disk s - n\<rparr>)))"

section \<open>Writing memory\<close>

fun send_buf_loop :: "'d usb \<Rightarrow> u32 \<Rightarrow> byte list \<Rightarrow> u32 \<Rightarrow> nat \<Rightarrow> u32 \<Rightarrow> ('d host, unit) cm" where
  "send_buf_loop E step mem sz k i =
     (if i < sz then
        (case k of
           0 \<Rightarrow> no_fuel
         | Suc k \<Rightarrow>
             let n = sz - i; n = (if n > step then step else n)
             in thn (encode_msg BSL_CMD_MIDST_DATA (take (unat n) (drop (unat i) mem)))
               (thn (send_and_check E) (send_buf_loop E step mem sz k (i + n))))
      else CMonad.ret ())"

declare send_buf_loop.simps [simp del]

definition send_buf ::
  "'d usb \<Rightarrow> u32 \<Rightarrow> bool \<Rightarrow> u32 \<Rightarrow> byte list \<Rightarrow> u32 \<Rightarrow> ('d host, unit) cm" where
  "send_buf E start_addr end_data step mem sz =
     thn (encode_msg BSL_CMD_START_DATA (WRITE32_BE start_addr @ WRITE32_BE sz))
    (thn (send_and_check E)
    (thn (send_buf_loop E step mem sz (unat sz) 0)
    (if \<not> end_data then CMonad.ret ()
     else thn (encode_msg BSL_CMD_END_DATA []) (send_and_check E))))"

definition send_file ::
  "'d usb \<Rightarrow> string \<Rightarrow> u32 \<Rightarrow> bool \<Rightarrow> u32 \<Rightarrow> u32 \<Rightarrow> u32 \<Rightarrow> ('d host, unit) cm" where
  "send_file E fn start_addr end_data step src_offs src_size =
     bnd (gets (loadfile fn)) (\<lambda>(mem, sz). case mem of
        None \<Rightarrow> err_exit ''loadfile(%s) failed'' [PS fn]
      | Some mem \<Rightarrow>
          if sz div 2 ^ 32 \<noteq> 0 then err_exit ''file too big'' []
          else if sz < unat src_offs then err_exit ''data outside the file'' []
          else let sz = sz - unat src_offs
               in if src_size \<noteq> 0 \<and> sz < unat src_size then err_exit ''data outside the file'' []
                  else let sz = (if src_size \<noteq> 0 then unat src_size else sz)
                       in send_buf E start_addr end_data step (drop (unat src_offs) mem) (of_nat sz))"

definition erase_flash :: "'d usb \<Rightarrow> u32 \<Rightarrow> u32 \<Rightarrow> ('d host, unit) cm" where
  "erase_flash E addr sz =
     thn (check_confirm ''erase flash'')
    (thn (encode_msg BSL_CMD_ERASE_FLASH (WRITE32_BE addr @ WRITE32_BE sz))
     (send_and_check E))"

section \<open>Reading memory\<close>

text \<open>
  The data of a READ_FLASH reply: \<open>nread\<close> of its \<open>n\<close> requested bytes, appended to the file
  \<open>fo\<close> if there is one. \<open>None\<close> when the reply has another type.
\<close>

definition recv_chunk :: "'d usb \<Rightarrow> u32 \<Rightarrow> string option \<Rightarrow> ('d host, byte list option) cm" where
  "recv_chunk E n fo =
     thn (send_msg E)
    (thn (recv_msg E)
    (bnd (gets recv_type) (\<lambda>t.
       if t \<noteq> BSL_REP_READ_FLASH then
         thn (DBG_LOG ''unexpected response (0x%04x)'' [PI (uint t)]) (CMonad.ret None)
       else bnd (gets (\<lambda>s. READ16_BE (raw_buf s) 2)) (\<lambda>nread.
         if n < nread then err_exit ''unexpected length'' []
         else bnd (gets raw_data) (\<lambda>buf. case fo of
              None \<Rightarrow> CMonad.ret (Some buf)
            | Some f \<Rightarrow> bnd (fwrite f buf) (\<lambda>w.
                if w \<noteq> length buf then err_exit ''fwrite(dump) failed'' [] else CMonad.ret (Some buf)))))))"

fun read_flash_loop ::
  "'d usb \<Rightarrow> u32 \<Rightarrow> u32 \<Rightarrow> u32 \<Rightarrow> string option \<Rightarrow> nat \<Rightarrow> u32 \<Rightarrow> byte list \<Rightarrow> ('d host, u32 \<times> byte list) cm" where
  "read_flash_loop E addr fin step fo k offset mem =
     (if offset < fin then
        (case k of
           0 \<Rightarrow> no_fuel
         | Suc k \<Rightarrow>
             let n = fin - offset; n = (if n > step then step else n)
             in thn (encode_msg BSL_CMD_READ_FLASH (WRITE32_BE addr @ WRITE32_BE n @ WRITE32_BE offset))
               (bnd (recv_chunk E n fo) (\<lambda>buf. case buf of
                  None \<Rightarrow> CMonad.ret (offset, mem)
                | Some buf \<Rightarrow>
                    let nread = of_nat (length buf); mem = mem @ buf; offset = offset + nread
                    in if n \<noteq> nread then CMonad.ret (offset, mem)
                       else read_flash_loop E addr fin step fo k offset mem)))
      else CMonad.ret (offset, mem))"

declare read_flash_loop.simps [simp del]

definition read_flash ::
  "'d usb \<Rightarrow> u32 \<Rightarrow> u32 \<Rightarrow> u32 \<Rightarrow> string option \<Rightarrow> u32 \<Rightarrow> ('d host, u32 \<times> byte list) cm" where
  "read_flash E addr start len fo step =
     bnd (read_flash_loop E addr (start + len) step fo (unat len) start []) (\<lambda>(offset, mem).
       CMonad.ret (offset - start, mem))"

fun dump_mem_loop ::
  "'d usb \<Rightarrow> u32 \<Rightarrow> u32 \<Rightarrow> string \<Rightarrow> nat \<Rightarrow> u32 \<Rightarrow> ('d host, u32) cm" where
  "dump_mem_loop E fin step fo k offset =
     (if offset < fin then
        (case k of
           0 \<Rightarrow> no_fuel
         | Suc k \<Rightarrow>
             let n = fin - offset; n = (if n > step then step else n)
             in thn (encode_msg BSL_CMD_READ_FLASH (WRITE32_BE offset @ WRITE32_BE n @ WRITE32_BE 0))
               (bnd (recv_chunk E n (Some fo)) (\<lambda>buf. case buf of
                  None \<Rightarrow> CMonad.ret offset
                | Some buf \<Rightarrow>
                    let nread = of_nat (length buf); offset = offset + nread
                    in if n \<noteq> nread then CMonad.ret offset
                       else dump_mem_loop E fin step fo k offset)))
      else CMonad.ret offset)"

declare dump_mem_loop.simps [simp del]

definition dump_mem :: "'d usb \<Rightarrow> u32 \<Rightarrow> u32 \<Rightarrow> string \<Rightarrow> u32 \<Rightarrow> ('d host, u32) cm" where
  "dump_mem E start len fn step =
     bnd (fopen_wb fn) (\<lambda>ok.
       if \<not> ok then err_exit ''fopen(dump) failed'' []
       else bnd (dump_mem_loop E (start + len) step fn (unat len) start) (\<lambda>offset.
         thn (DBG_LOG ''dump_mem: 0x%08x, target: 0x%x, read: 0x%x''
               [PI (uint start), PI (uint len), PI (uint (offset - start))])
         (CMonad.ret offset)))"

section \<open>Dumping the flash\<close>

text \<open>A buffer that has been filled from its start with these bytes.\<close>

definition buf_of :: "byte list \<Rightarrow> mem" where
  "buf_of bs = blit (\<lambda>_. 0) 0 bs"

text \<open>The size that the header of a partition gives, and whether it is a DHTB header.\<close>

definition header_size :: "byte list \<Rightarrow> ('d host, u32 \<times> bool) cm" where
  "header_size hdr =
     (let buf = buf_of hdr in
      if READ32_LE buf 0 = 0x42544844 \<and> READ32_LE buf 4 = 1 then
        let len = READ32_LE buf 0x30
        in if drop_bit 31 len \<noteq> 0 then err_exit ''unexpected DHTB size (0x%x)'' [PI (uint len)]
           else CMonad.ret (len + 0x200, True)
      else if READ32_LE buf 0 = 0x53544e56 then
        let nblk = READ16_LE buf 12; blk = READ16_LE buf 14
        in if nblk < 4 then err_exit ''unexpected VNTS header'' []
           else if (blk AND (blk - 1)) \<noteq> 0 \<or> blk < 0x100 then
             err_exit ''unexpected VNTS block size (0x%x)'' [PI (uint blk)]
           else CMonad.ret (blk * nblk, False)
      else err_exit ''unable to determine partition size'' [])"

text \<open>The signature behind a DHTB image: its value is the new \<open>len\<close> and \<open>nread\<close>.\<close>

definition dump_signature ::
  "'d usb \<Rightarrow> u32 \<Rightarrow> u32 \<Rightarrow> string \<Rightarrow> u32 \<Rightarrow> u32 \<Rightarrow> u32 \<Rightarrow> ('d host, u32 \<times> u32) cm" where
  "dump_signature E addr start fo step len got =
     (let nread = got in bnd (read_flash E addr (start + nread) 0x60 None step) (\<lambda>(nread2, sig).
       let buf = buf_of sig in
       if nread2 \<noteq> 0x60 \<or> READ32_LE buf 0x10 = 0 \<or> NOT (READ32_LE buf 0x10) = 0 then CMonad.ret (len, nread)
       else bnd (fwrite fo sig) (\<lambda>w.
         if w \<noteq> unat nread2 then err_exit ''fwrite(dump) failed'' []
         else let nread1 = nread; nread = nread + nread2; len = nread in
           if READ32_LE buf 0x10 \<noteq> nread1 - 0x200 \<or> READ32_LE buf 0x18 \<noteq> 0x200 \<or>
              drop_bit 12 (READ32_LE buf 0x20) \<noteq> 0 \<or> READ32_LE buf 0x28 \<noteq> nread1 + 0x60
           then thn (DBG_LOG ''unexpected DHTB signature'' []) (CMonad.ret (len, nread))
           else let nread2 = READ32_LE buf 0x20; len = len + nread2 in
             bnd (read_flash E addr (start + nread) nread2 (Some fo) step) (\<lambda>(n, _).
               CMonad.ret (len, nread + n)))))"

definition dump_flash ::
  "'d usb \<Rightarrow> u32 \<Rightarrow> u32 \<Rightarrow> u32 \<Rightarrow> string \<Rightarrow> u32 \<Rightarrow> nat \<Rightarrow> ('d host, u32) cm" where
  "dump_flash E addr start len fn step mode =
     bnd (fopen_wb fn) (\<lambda>ok.
       if \<not> ok then err_exit ''fopen(dump) failed'' []
       else bnd (if mode = 1 then
           bnd (read_flash E addr start 0x34 (Some fn) step) (\<lambda>(nread, hdr).
             if nread \<noteq> 0x34 then err_exit ''can't read partition header'' []
             else bnd (header_size hdr) (\<lambda>(len, dhtb). CMonad.ret (nread, len, dhtb)))
         else CMonad.ret (0, len, False)) (\<lambda>(nread, len, dhtb).
       bnd (read_flash E addr (start + nread) (len - nread) (Some fn) step) (\<lambda>(n, _).
       bnd (if dhtb \<and> len = nread + n then dump_signature E addr start fn step len (nread + n)
            else CMonad.ret (len, nread + n)) (\<lambda>(len, nread).
         thn (DBG_LOG ''dump_flash: 0x%08x+0x%x, target: 0x%x, read: 0x%x''
               [PI (uint addr), PI (uint start), PI (uint len), PI (uint nread)])
         (CMonad.ret nread)))))"

section \<open>Saved data\<close>

text \<open>The process after the data went to the file \<open>fo\<close>, if there is one.\<close>

definition saved :: "string option \<Rightarrow> byte list \<Rightarrow> 'd host \<Rightarrow> 'd host" where
  "saved fo d s = (case fo of None \<Rightarrow> s | Some f \<Rightarrow> file_append f d (s\<lparr>disk := disk s - length d\<rparr>))"

definition room :: "string option \<Rightarrow> nat \<Rightarrow> 'd host \<Rightarrow> bool" where
  "room fo n s = (fo = None \<or> n \<le> disk s)"

lemma fwrite_room: "length d \<le> disk s \<Longrightarrow> fwrite f d s = Ret (length d) (saved (Some f) d s)"
  by (simp add: fwrite_def saved_def Let_def)

lemma saved_more:
  assumes "host_env s1 = host_env (saved fo d1 s)"
  shows "host_env (saved fo d2 s1) = host_env (saved fo (d1 @ d2) s)"
  using assms by (cases fo) (auto simp: saved_def host_env_def file_append_def split: option.splits)

lemma room_more:
  "host_env s1 = host_env (saved fo d1 s) \<Longrightarrow> room fo (length d1 + n) s \<Longrightarrow> room fo n s1"
  by (cases fo) (auto simp: saved_def host_env_def file_append_def room_def)

lemma saved_cong: "host_env s1 = host_env s \<Longrightarrow> host_env (saved fo d s1) = host_env (saved fo d s)"
  by (cases fo) (auto simp: saved_def host_env_def file_append_def)

lemma saved_Nil: "fo = None \<or> fs s (the fo) \<noteq> None \<Longrightarrow> host_env (saved fo [] s) = host_env s"
  by (cases fo) (auto simp: saved_def host_env_def file_append_def)

section \<open>Against a loader\<close>

text \<open>
  The contract of a loader: a download state, a memory that MIDST_DATA writes and
  READ_FLASH reads. \<open>maxlen\<close> is the longest packet it takes, \<open>maxread\<close> the longest answer
  it gives, \<open>writable\<close> the addresses that are plain memory; \<open>where_is\<close> is the address an
  identifier and an offset stand for.
\<close>

locale loader = msg_device E pending core ready fl handles handle
  for E :: "'d usb" and pending :: "'d \<Rightarrow> byte list" and core :: "'d \<Rightarrow> 'c" and ready :: "'d \<Rightarrow> bool"
    and fl :: u32 and handles :: "'c \<Rightarrow> u32 \<Rightarrow> byte list \<Rightarrow> bool"
    and handle :: "'c \<Rightarrow> u32 \<Rightarrow> byte list \<Rightarrow> 'c \<times> u32 \<times> byte list" +
  fixes dlst :: "'c \<Rightarrow> u32 \<times> u32 \<times> u32"
    and memory :: "'c \<Rightarrow> u32 \<Rightarrow> byte"
    and writable :: "u32 \<Rightarrow> bool"
    and where_is :: "u32 \<Rightarrow> u32 \<Rightarrow> u32"
    and maxlen maxread :: nat
  assumes start_data: "\<exists>c'. handles c BSL_CMD_START_DATA (WRITE32_BE a @ WRITE32_BE n) \<and>
        handle c BSL_CMD_START_DATA (WRITE32_BE a @ WRITE32_BE n) = (c', BSL_REP_ACK, []) \<and>
        dlst c' = (a, n, 0) \<and> memory c' = memory c"
    and midst_data: "dlst c = (a, n, r) \<Longrightarrow> length dat \<le> maxlen \<Longrightarrow> unat r + length dat \<le> unat n \<Longrightarrow>
        \<forall>i < length dat. writable (a + r + of_nat i) \<Longrightarrow> dat \<noteq> [] \<Longrightarrow>
        \<exists>c'. handles c BSL_CMD_MIDST_DATA dat \<and>
          handle c BSL_CMD_MIDST_DATA dat = (c', BSL_REP_ACK, []) \<and>
          dlst c' = (a, n, r + of_nat (length dat)) \<and> memory c' = mupd (memory c) (a + r) dat"
    and end_data: "dlst c = (a, n, n) \<Longrightarrow>
        \<exists>c'. handles c BSL_CMD_END_DATA [] \<and> handle c BSL_CMD_END_DATA [] = (c', BSL_REP_ACK, []) \<and>
          memory c' = memory c"
    and read_data: "unat n < maxread \<Longrightarrow>
        handles c BSL_CMD_READ_FLASH (WRITE32_BE a @ WRITE32_BE n @ WRITE32_BE off) \<and>
        handle c BSL_CMD_READ_FLASH (WRITE32_BE a @ WRITE32_BE n @ WRITE32_BE off) =
          (c, BSL_REP_READ_FLASH, mbytes (memory c) (where_is a off) (unat n))"
    and maxread_max: "maxread \<le> 0xffff"
begin

lemma send_buf_loop_ok:
  assumes "step \<noteq> 0" "unat step \<le> maxlen" "unat sz \<le> length mem"
    and "\<forall>i < unat sz. writable (a + of_nat i)"
  shows "between s \<Longrightarrow> dlst (core (dev s)) = (a, sz, i) \<Longrightarrow> i \<le> sz \<Longrightarrow> unat sz - unat i \<le> k \<Longrightarrow>
    \<exists>s'. send_buf_loop E step mem sz k i s = Ret () s' \<and> between s' \<and> host_env s' = host_env s \<and>
      dlst (core (dev s')) = (a, sz, sz) \<and>
      memory (core (dev s')) = mupd (memory (core (dev s))) (a + i) (take (unat sz - unat i) (drop (unat i) mem))"
proof (induction k arbitrary: s i)
  case 0
  then have "i = sz" by (simp add: word_le_nat_alt word_unat_eq_iff)
  then show ?case using 0 by (simp add: send_buf_loop.simps [of _ _ _ _ 0] ret_def)
next
  case (Suc k)
  show ?case
  proof (cases "i < sz")
    case False
    then have "i = sz" using Suc.prems(3) by simp
    then show ?thesis using Suc.prems by (simp add: send_buf_loop.simps [of _ _ _ _ "Suc k"] ret_def)
  next
    case True
    define n where "n = (if sz - i > step then step else sz - i)"
    define dat where "dat = take (unat n) (drop (unat i) mem)"
    have szi: "unat (sz - i) = unat sz - unat i"
      using Suc.prems(3) by (simp add: unat_sub)
    have isz: "unat i < unat sz" using True by (simp add: word_less_nat_alt)
    have n: "0 < unat n" "unat n \<le> unat sz - unat i" "unat n \<le> maxlen"
      using assms(1,2) isz szi
      by (auto simp: n_def word_less_nat_alt unat_gt_0 split: if_splits)
    have len: "length dat = unat n" using n assms(3) isz by (simp add: dat_def)
    have i_n: "unat (i + n) = unat i + unat n"
      using n(2) isz unsigned_less [of sz, where ?'a = nat]
      by (intro unat_add_lem [THEN iffD1]) simp
    have "unat i + length dat \<le> unat sz" "\<forall>j < length dat. writable (a + i + of_nat j)" "dat \<noteq> []" "length dat \<le> maxlen"
    proof -
      show "unat i + length dat \<le> unat sz" using len n(2) isz by simp
      show "\<forall>j < length dat. writable (a + i + of_nat j)"
      proof (intro allI impI)
        fix j assume "j < length dat"
        then have "unat i + j < unat sz" using len n(2) by simp
        then have "writable (a + of_nat (unat i + j))" using assms(4) by blast
        then show "writable (a + i + of_nat j)" by (simp add: add.assoc)
      qed
      show "dat \<noteq> []" "length dat \<le> maxlen" using len n by auto
    qed
    from midst_data [OF Suc.prems(2) this(4,1-3)]
    obtain c' where c': "handles (core (dev s)) BSL_CMD_MIDST_DATA dat"
      "handle (core (dev s)) BSL_CMD_MIDST_DATA dat = (c', BSL_REP_ACK, [])"
      "dlst c' = (a, sz, i + n)" "memory c' = mupd (memory (core (dev s))) (a + i) dat"
      unfolding len by auto
    obtain s1 where s1: "thn (encode_msg BSL_CMD_MIDST_DATA dat) (send_and_check E) s = Ret () s1"
      "between s1" "core (dev s1) = c'" "host_env s1 = host_env s"
      using command_ok [OF Suc.prems(1) c'(1,2)] by blast
    have "i + n \<le> sz" using i_n n(2) isz by (simp add: word_le_nat_alt)
    moreover have "unat sz - unat (i + n) \<le> k" using i_n n(1) Suc.prems(4) by simp
    ultimately obtain s2 where s2: "send_buf_loop E step mem sz k (i + n) s1 = Ret () s2"
      "between s2" "host_env s2 = host_env s1" "dlst (core (dev s2)) = (a, sz, sz)"
      "memory (core (dev s2)) = mupd (memory c') (a + (i + n))
         (take (unat sz - unat (i + n)) (drop (unat (i + n)) mem))"
      using Suc.IH [of s1 "i + n"] s1 c'(3) by auto
    have "send_buf_loop E step mem sz (Suc k) i s =
        thn (thn (encode_msg BSL_CMD_MIDST_DATA dat) (send_and_check E))
          (send_buf_loop E step mem sz k (i + n)) s"
      using True by (simp add: send_buf_loop.simps [of _ _ _ _ "Suc k"] thn_def bnd_assoc n_def dat_def)
    also have "\<dots> = Ret () s2" using s1(1) s2(1) by (simp add: thn_def bnd_def)
    finally have run: "send_buf_loop E step mem sz (Suc k) i s = Ret () s2" .
    have split: "take (unat sz - unat i) (drop (unat i) mem) =
        dat @ take (unat sz - unat (i + n)) (drop (unat (i + n)) mem)"
    proof -
      have "unat sz - unat i = unat n + (unat sz - unat (i + n))" using i_n n(2) by simp
      then show ?thesis by (simp add: dat_def take_add i_n add.commute)
    qed
    have "length dat + length (take (unat sz - unat (i + n)) (drop (unat (i + n)) mem)) \<le> 2 ^ 32"
      using len n(2) unsigned_less [of sz, where ?'a = nat] i_n by simp
    from mupd_append [OF this, of "memory (core (dev s))" "a + i"]
    have "memory (core (dev s2)) =
        mupd (memory (core (dev s))) (a + i) (take (unat sz - unat i) (drop (unat i) mem))"
      unfolding split s2(5) c'(4) len by (simp add: add.assoc)
    then show ?thesis using run s2 s1(4) by auto
  qed
qed

lemma send_buf_ok:
  assumes "step \<noteq> 0" "unat step \<le> maxlen" "unat sz \<le> length mem"
    and "\<forall>i < unat sz. writable (a + of_nat i)" and "between s"
  shows "\<exists>s'. send_buf E a fin step mem sz s = Ret () s' \<and> between s' \<and> host_env s' = host_env s \<and>
    memory (core (dev s')) = mupd (memory (core (dev s))) a (take (unat sz) mem)"
proof -
  obtain c1 where c1: "handles (core (dev s)) BSL_CMD_START_DATA (WRITE32_BE a @ WRITE32_BE sz)"
    "handle (core (dev s)) BSL_CMD_START_DATA (WRITE32_BE a @ WRITE32_BE sz) = (c1, BSL_REP_ACK, [])"
    "dlst c1 = (a, sz, 0)" "memory c1 = memory (core (dev s))"
    using start_data by blast
  obtain s1 where s1: "thn (encode_msg BSL_CMD_START_DATA (WRITE32_BE a @ WRITE32_BE sz)) (send_and_check E) s = Ret () s1"
    "between s1" "core (dev s1) = c1" "host_env s1 = host_env s"
    using command_ok [OF assms(5) c1(1,2)] by blast
  have st: "dlst (core (dev s1)) = (a, sz, 0)" "0 \<le> sz" "unat sz - unat (0 :: u32) \<le> unat sz"
    using s1(3) c1(3) by simp_all
  obtain s2 where s2: "send_buf_loop E step mem sz (unat sz) 0 s1 = Ret () s2" "between s2"
    "host_env s2 = host_env s" "dlst (core (dev s2)) = (a, sz, sz)"
    "memory (core (dev s2)) = mupd (memory (core (dev s))) a (take (unat sz) mem)"
    using send_buf_loop_ok [OF assms(1-4) s1(2) st] s1(3,4) c1(4) by auto
  obtain c3 where c3: "handles (core (dev s2)) BSL_CMD_END_DATA []"
    "handle (core (dev s2)) BSL_CMD_END_DATA [] = (c3, BSL_REP_ACK, [])"
    "memory c3 = memory (core (dev s2))"
    using end_data [OF s2(4)] by blast
  obtain s3 where s3: "thn (encode_msg BSL_CMD_END_DATA []) (send_and_check E) s2 = Ret () s3"
    "between s3" "core (dev s3) = c3" "host_env s3 = host_env s2"
    using command_ok [OF s2(2) c3(1,2)] by blast
  have "send_buf E a fin step mem sz s =
      thn (thn (encode_msg BSL_CMD_START_DATA (WRITE32_BE a @ WRITE32_BE sz)) (send_and_check E))
        (thn (send_buf_loop E step mem sz (unat sz) 0)
          (if fin then thn (encode_msg BSL_CMD_END_DATA []) (send_and_check E) else ret ())) s"
    by (simp add: send_buf_def thn_def bnd_assoc)
  also have "\<dots> = Ret () (if fin then s3 else s2)"
    using s1(1) s2(1) s3(1) by (simp add: thn_def bnd_def ret_def)
  finally show ?thesis using s2 s3 c3(3) by auto
qed

text \<open>One READ_FLASH exchange.\<close>

lemma read_chunk_ok:
  assumes "between s" "unat n < maxread"
  shows "\<exists>s'. thn (encode_msg BSL_CMD_READ_FLASH (WRITE32_BE a @ WRITE32_BE n @ WRITE32_BE off))
      (recv_chunk E n fo) s =
    (case fo of
       None \<Rightarrow> Ret (Some (mbytes (memory (core (dev s))) (where_is a off) (unat n))) s'
     | Some f \<Rightarrow> bnd (fwrite f (mbytes (memory (core (dev s))) (where_is a off) (unat n)))
         (\<lambda>w. if w \<noteq> unat n then err_exit ''fwrite(dump) failed'' []
              else ret (Some (mbytes (memory (core (dev s))) (where_is a off) (unat n)))) s') \<and>
    between s' \<and> core (dev s') = core (dev s) \<and> host_env s' = host_env s"
proof -
  let ?d = "mbytes (memory (core (dev s))) (where_is a off) (unat n)"
  let ?q = "WRITE32_BE a @ WRITE32_BE n @ WRITE32_BE off"
  note rd = read_data [OF assms(2), of "core (dev s)" a off]
  obtain s1 where s1: "encode_msg BSL_CMD_READ_FLASH ?q s = Ret () s1" "encoded s s1 BSL_CMD_READ_FLASH ?q"
    using encode_ok [OF assms(1) conjunct1 [OF rd]] by blast
  obtain s2 s3 k where x: "send_msg E s1 = Ret k s2" "recv_msg E s2 = Ret (6 + length ?d) s3"
    "answered s s3 (core (dev s)) BSL_REP_READ_FLASH ?d"
    using exchange_ok [OF s1(2) conjunct1 [OF rd] conjunct2 [OF rd]] by blast
  have "length ?d \<le> 0xffff" "unat BSL_REP_READ_FLASH < 65536"
    using assms(2) maxread_max by (simp_all add: BSL_REP_READ_FLASH_def)
  note ans = answered_reply [OF x(3) this]
  have "thn (encode_msg BSL_CMD_READ_FLASH ?q) (recv_chunk E n fo) s =
    (case fo of None \<Rightarrow> Ret (Some ?d) s3
     | Some f \<Rightarrow> bnd (fwrite f ?d)
         (\<lambda>w. if w \<noteq> unat n then err_exit ''fwrite(dump) failed'' [] else ret (Some ?d)) s3)"
    using s1(1) x(1,2) ans(1-3)
    by (cases fo) (simp_all add: thn_def bnd_def recv_chunk_def gets_def ret_def split: outcome.split)
  then show ?thesis using ans(4-6) by blast
qed

lemma read_step_ok:
  assumes "between s" "unat n < maxread" "room fo (unat n) s"
    and "d = mbytes (memory (core (dev s))) (where_is a off) (unat n)"
  shows "\<exists>s'. thn (encode_msg BSL_CMD_READ_FLASH (WRITE32_BE a @ WRITE32_BE n @ WRITE32_BE off))
      (recv_chunk E n fo) s = Ret (Some d) s' \<and>
    between s' \<and> core (dev s') = core (dev s) \<and> host_env s' = host_env (saved fo d s)"
proof -
  obtain s1 where s1: "thn (encode_msg BSL_CMD_READ_FLASH (WRITE32_BE a @ WRITE32_BE n @ WRITE32_BE off))
      (recv_chunk E n fo) s =
      (case fo of None \<Rightarrow> Ret (Some d) s1
       | Some f \<Rightarrow> bnd (fwrite f d)
           (\<lambda>w. if w \<noteq> unat n then err_exit ''fwrite(dump) failed'' [] else ret (Some d)) s1)"
    "between s1" "core (dev s1) = core (dev s)" "host_env s1 = host_env s"
    using read_chunk_ok [OF assms(1,2), of a off fo] unfolding assms(4) by blast
  have d: "length d = unat n" by (simp add: assms(4))
  show ?thesis
  proof (cases fo)
    case None
    then show ?thesis using s1 by (simp add: saved_def)
  next
    case (Some f)
    have "length d \<le> disk s1" using assms(3) s1(4) Some d by (simp add: room_def host_env_def)
    then have "bnd (fwrite f d)
        (\<lambda>w. if w \<noteq> unat n then err_exit ''fwrite(dump) failed'' [] else ret (Some d)) s1 =
        Ret (Some d) (saved fo d s1)"
      using Some d by (simp add: bnd_def fwrite_room ret_def)
    moreover have "between (saved fo d s1)" "core (dev (saved fo d s1)) = core (dev s)"
      using s1(2,3) by (simp_all add: saved_def file_append_def between_def avail_def Some)
    ultimately show ?thesis using s1(1) saved_cong [OF s1(4)] Some by auto
  qed
qed

lemma read_flash_loop_ok:
  assumes "step \<noteq> 0" "unat step < maxread"
  shows "between s \<Longrightarrow> offset \<le> fin \<Longrightarrow> unat fin - unat offset \<le> k \<Longrightarrow>
    \<forall>x. offset \<le> x \<and> x < fin \<longrightarrow> where_is a x = base + x \<Longrightarrow>
    room fo (unat fin - unat offset) s \<Longrightarrow> fo = None \<or> fs s (the fo) \<noteq> None \<Longrightarrow>
    d = mbytes (memory (core (dev s))) (base + offset) (unat fin - unat offset) \<Longrightarrow>
    \<exists>s'. read_flash_loop E a fin step fo k offset mem s = Ret (fin, mem @ d) s' \<and> between s' \<and>
      core (dev s') = core (dev s) \<and> host_env s' = host_env (saved fo d s)"
proof (induction k arbitrary: s offset mem d)
  case 0
  then have "offset = fin" by (simp add: word_le_nat_alt word_unat_eq_iff)
  then show ?case using 0 saved_Nil [OF 0(6)] by (simp add: read_flash_loop.simps [of _ _ _ _ _ 0] ret_def)
next
  case (Suc k)
  show ?case
  proof (cases "offset < fin")
    case False
    then have "offset = fin" using Suc.prems(2) by simp
    then show ?thesis using Suc.prems saved_Nil [OF Suc.prems(6)]
      by (simp add: read_flash_loop.simps [of _ _ _ _ _ "Suc k"] ret_def)
  next
    case True
    define n where "n = (if fin - offset > step then step else fin - offset)"
    have sz: "unat (fin - offset) = unat fin - unat offset" using Suc.prems(2) by (simp add: unat_sub)
    have lt: "unat offset < unat fin" using True by (simp add: word_less_nat_alt)
    have n: "0 < unat n" "unat n \<le> unat fin - unat offset" "unat n < maxread"
      using assms lt sz by (auto simp: n_def word_less_nat_alt unat_gt_0 split: if_splits)
    have o_n: "unat (offset + n) = unat offset + unat n"
      using n(2) lt unsigned_less [of fin, where ?'a = nat] by (intro unat_add_lem [THEN iffD1]) simp
    define d1 where "d1 = mbytes (memory (core (dev s))) (where_is a offset) (unat n)"
    have wh: "where_is a offset = base + offset" using Suc.prems(4) True by blast
    have "room fo (unat n) s" using Suc.prems(5) n(2) by (auto simp: room_def)
    from read_step_ok [OF Suc.prems(1) n(3) this d1_def]
    obtain s1 where s1: "thn (encode_msg BSL_CMD_READ_FLASH (WRITE32_BE a @ WRITE32_BE n @ WRITE32_BE offset))
        (recv_chunk E n fo) s = Ret (Some d1) s1"
      "between s1" "core (dev s1) = core (dev s)" "host_env s1 = host_env (saved fo d1 s)" by blast
    define d2 where "d2 = mbytes (memory (core (dev s1))) (base + (offset + n)) (unat fin - unat (offset + n))"
    have "unat fin - unat offset = unat n + (unat fin - unat (offset + n))" using n(2) o_n by simp
    then have d: "d = d1 @ d2"
      unfolding Suc.prems(7) d1_def d2_def wh s1(3) by (simp add: mbytes_add add.assoc)
    have len: "length d1 = unat n" by (simp add: d1_def)
    have pre: "offset + n \<le> fin" "unat fin - unat (offset + n) \<le> k"
      "\<forall>x. offset + n \<le> x \<and> x < fin \<longrightarrow> where_is a x = base + x"
      "room fo (unat fin - unat (offset + n)) s1" "fo = None \<or> fs s1 (the fo) \<noteq> None"
    proof -
      show "offset + n \<le> fin" using o_n n(2) lt by (simp add: word_le_nat_alt)
      show "unat fin - unat (offset + n) \<le> k" using o_n n(1) Suc.prems(3) by simp
      show "\<forall>x. offset + n \<le> x \<and> x < fin \<longrightarrow> where_is a x = base + x"
        using Suc.prems(4) o_n by (simp add: word_le_nat_alt)
      show "room fo (unat fin - unat (offset + n)) s1"
        using Suc.prems(5) o_n n(2) by (intro room_more [OF s1(4)]) (auto simp: len room_def)
      show "fo = None \<or> fs s1 (the fo) \<noteq> None"
        using s1(4) by (cases fo) (auto simp: host_env_def saved_def file_append_def)
    qed
    obtain s2 where s2: "read_flash_loop E a fin step fo k (offset + n) (mem @ d1) s1 = Ret (fin, (mem @ d1) @ d2) s2"
      "between s2" "core (dev s2) = core (dev s)" "host_env s2 = host_env (saved fo d2 s1)"
      using Suc.IH [OF s1(2) pre d2_def, of "mem @ d1"] s1(3) by auto
    have ln: "of_nat (length d1) = n" using len by simp
    have "read_flash_loop E a fin step fo (Suc k) offset mem s =
        bnd (thn (encode_msg BSL_CMD_READ_FLASH (WRITE32_BE a @ WRITE32_BE n @ WRITE32_BE offset))
          (recv_chunk E n fo)) (\<lambda>buf. case buf of None \<Rightarrow> ret (offset, mem) | Some buf \<Rightarrow>
            let nread = of_nat (length buf); mem = mem @ buf; offset = offset + nread
            in if n \<noteq> nread then ret (offset, mem)
               else read_flash_loop E a fin step fo k offset mem) s"
      using True by (simp add: read_flash_loop.simps [of _ _ _ _ _ "Suc k"] thn_def bnd_assoc n_def Let_def)
    also have "\<dots> = Ret (fin, mem @ d) s2"
      using s1(1) s2(1) ln by (simp add: bnd_def d)
    finally show ?thesis using s2 saved_more [OF s1(4), of d2] d by auto
  qed
qed

lemma read_flash_ok:
  assumes "step \<noteq> 0" "unat step < maxread" "between s" "unat start + unat len < 2 ^ 32"
    and "\<forall>x. start \<le> x \<and> x < start + len \<longrightarrow> where_is a x = base + x"
    and "room fo (unat len) s" "fo = None \<or> fs s (the fo) \<noteq> None"
    and d: "d = mbytes (memory (core (dev s))) (base + start) (unat len)"
  shows "\<exists>s'. read_flash E a start len fo step s = Ret (len, d) s' \<and> between s' \<and>
    core (dev s') = core (dev s) \<and> host_env s' = host_env (saved fo d s)"
proof -
  have fin: "unat (start + len) = unat start + unat len"
    using assms(4) by (intro unat_add_lem [THEN iffD1]) simp
  then have pre: "start \<le> start + len" "unat (start + len) - unat start \<le> unat len"
    "room fo (unat (start + len) - unat start) s"
    "d = mbytes (memory (core (dev s))) (base + start) (unat (start + len) - unat start)"
    using assms(6) d by (simp_all add: word_le_nat_alt)
  from read_flash_loop_ok [OF assms(1-3) pre(1,2) assms(5) pre(3) assms(7) pre(4), of "[]"]
  show ?thesis by (auto simp: read_flash_def bnd_def ret_def)
qed

lemma dump_mem_loop_ok:
  assumes "step \<noteq> 0" "unat step < maxread"
  shows "between s \<Longrightarrow> offset \<le> fin \<Longrightarrow> unat fin - unat offset \<le> k \<Longrightarrow>
    \<forall>x. offset \<le> x \<and> x < fin \<longrightarrow> where_is x 0 = x \<Longrightarrow>
    room (Some f) (unat fin - unat offset) s \<Longrightarrow> fs s f \<noteq> None \<Longrightarrow>
    d = mbytes (memory (core (dev s))) offset (unat fin - unat offset) \<Longrightarrow>
    \<exists>s'. dump_mem_loop E fin step f k offset s = Ret fin s' \<and> between s' \<and>
      core (dev s') = core (dev s) \<and> host_env s' = host_env (saved (Some f) d s)"
proof (induction k arbitrary: s offset d)
  case 0
  then have "offset = fin" by (simp add: word_le_nat_alt word_unat_eq_iff)
  then show ?case using 0 saved_Nil [of "Some f" s] by (simp add: dump_mem_loop.simps [of _ _ _ _ 0] ret_def)
next
  case (Suc k)
  show ?case
  proof (cases "offset < fin")
    case False
    then have "offset = fin" using Suc.prems(2) by simp
    then show ?thesis using Suc.prems saved_Nil [of "Some f" s]
      by (simp add: dump_mem_loop.simps [of _ _ _ _ "Suc k"] ret_def)
  next
    case True
    define n where "n = (if fin - offset > step then step else fin - offset)"
    have sz: "unat (fin - offset) = unat fin - unat offset" using Suc.prems(2) by (simp add: unat_sub)
    have lt: "unat offset < unat fin" using True by (simp add: word_less_nat_alt)
    have n: "0 < unat n" "unat n \<le> unat fin - unat offset" "unat n < maxread"
      using assms lt sz by (auto simp: n_def word_less_nat_alt unat_gt_0 split: if_splits)
    have o_n: "unat (offset + n) = unat offset + unat n"
      using n(2) lt unsigned_less [of fin, where ?'a = nat] by (intro unat_add_lem [THEN iffD1]) simp
    define d1 where "d1 = mbytes (memory (core (dev s))) (where_is offset 0) (unat n)"
    have wh: "where_is offset 0 = offset" using Suc.prems(4) True by blast
    have "room (Some f) (unat n) s" using Suc.prems(5) n(2) by (auto simp: room_def)
    from read_step_ok [OF Suc.prems(1) n(3) this d1_def]
    obtain s1 where s1: "thn (encode_msg BSL_CMD_READ_FLASH (WRITE32_BE offset @ WRITE32_BE n @ WRITE32_BE 0))
        (recv_chunk E n (Some f)) s = Ret (Some d1) s1"
      "between s1" "core (dev s1) = core (dev s)" "host_env s1 = host_env (saved (Some f) d1 s)" by blast
    define d2 where "d2 = mbytes (memory (core (dev s1))) (offset + n) (unat fin - unat (offset + n))"
    have "unat fin - unat offset = unat n + (unat fin - unat (offset + n))" using n(2) o_n by simp
    then have d: "d = d1 @ d2"
      unfolding Suc.prems(7) d1_def d2_def wh s1(3) by (simp add: mbytes_add)
    have len: "length d1 = unat n" by (simp add: d1_def)
    have pre: "offset + n \<le> fin" "unat fin - unat (offset + n) \<le> k"
      "\<forall>x. offset + n \<le> x \<and> x < fin \<longrightarrow> where_is x 0 = x"
      "room (Some f) (unat fin - unat (offset + n)) s1" "fs s1 f \<noteq> None"
    proof -
      show "offset + n \<le> fin" using o_n n(2) lt by (simp add: word_le_nat_alt)
      show "unat fin - unat (offset + n) \<le> k" using o_n n(1) Suc.prems(3) by simp
      show "\<forall>x. offset + n \<le> x \<and> x < fin \<longrightarrow> where_is x 0 = x"
        using Suc.prems(4) o_n by (simp add: word_le_nat_alt)
      show "room (Some f) (unat fin - unat (offset + n)) s1"
        using Suc.prems(5) o_n n(2) by (intro room_more [OF s1(4)]) (auto simp: len room_def)
      show "fs s1 f \<noteq> None"
        using s1(4) by (auto simp: host_env_def saved_def file_append_def)
    qed
    obtain s2 where s2: "dump_mem_loop E fin step f k (offset + n) s1 = Ret fin s2"
      "between s2" "core (dev s2) = core (dev s)" "host_env s2 = host_env (saved (Some f) d2 s1)"
      using Suc.IH [OF s1(2) pre d2_def] s1(3) by auto
    have ln: "of_nat (length d1) = n" using len by simp
    have "dump_mem_loop E fin step f (Suc k) offset s =
        bnd (thn (encode_msg BSL_CMD_READ_FLASH (WRITE32_BE offset @ WRITE32_BE n @ WRITE32_BE 0))
          (recv_chunk E n (Some f))) (\<lambda>buf. case buf of None \<Rightarrow> ret offset | Some buf \<Rightarrow>
            let nread = of_nat (length buf); offset = offset + nread
            in if n \<noteq> nread then ret offset else dump_mem_loop E fin step f k offset) s"
      using True by (simp add: dump_mem_loop.simps [of _ _ _ _ "Suc k"] thn_def bnd_assoc n_def Let_def)
    also have "\<dots> = Ret fin s2"
      using s1(1) s2(1) ln by (simp add: bnd_def)
    finally show ?thesis using s2 saved_more [OF s1(4), of d2] d by auto
  qed
qed

lemma dump_mem_ok:
  assumes "step \<noteq> 0" "unat step < maxread" "between s" "unat start + unat len < 2 ^ 32"
    and "\<forall>x. start \<le> x \<and> x < start + len \<longrightarrow> where_is x 0 = x"
    and "can_write s fn" "unat len \<le> disk s"
  shows "\<exists>s'. dump_mem E start len fn step s = Ret (start + len) s' \<and> between s' \<and>
    core (dev s') = core (dev s) \<and>
    fs s' = (fs s)(fn := Some (mbytes (memory (core (dev s))) start (unat len)))"
proof -
  define s1 where "s1 = s\<lparr>fs := (fs s)(fn := Some [])\<rparr>"
  have fin: "unat (start + len) = unat start + unat len"
    using assms(4) by (intro unat_add_lem [THEN iffD1]) simp
  let ?d = "mbytes (memory (core (dev s1))) start (unat (start + len) - unat start)"
  have pre: "between s1" "start \<le> start + len" "unat (start + len) - unat start \<le> unat len"
    "room (Some fn) (unat (start + len) - unat start) s1" "fs s1 fn \<noteq> None"
    using assms(3,7) fin by (simp_all add: s1_def between_def avail_def word_le_nat_alt room_def)
  obtain s2 where s2: "dump_mem_loop E (start + len) step fn (unat len) start s1 = Ret (start + len) s2"
    "between s2" "core (dev s2) = core (dev s1)" "host_env s2 = host_env (saved (Some fn) ?d s1)"
    using dump_mem_loop_ok [OF assms(1,2) pre(1-3) assms(5) pre(4,5) refl] by blast
  have fs2: "fs s2 = (fs s)(fn := Some ?d)"
    using s2(4) by (simp add: host_env_def saved_def file_append_def s1_def)
  let ?s3 = "s2\<lparr>errlog := errlog s2 @ [LogF ''dump_mem: 0x%08x, target: 0x%x, read: 0x%x''
      [PI (uint start), PI (uint len), PI (uint (start + len - start))]]\<rparr>"
  have "dump_mem E start len fn step s = Ret (start + len) ?s3"
    using assms(6) s2(1)
    by (simp add: dump_mem_def fopen_wb_def bnd_def thn_def DBG_LOG_def modify_def ret_def flip: s1_def)
  moreover have "between ?s3" "core (dev ?s3) = core (dev s)" "fs ?s3 = (fs s)(fn := Some ?d)"
    using s2(2,3) fs2 by (simp_all add: between_def avail_def s1_def)
  moreover have "?d = mbytes (memory (core (dev s))) start (unat len)"
    using fin by (simp add: s1_def)
  ultimately show ?thesis by metis
qed

end

end
