(* ===== verification/FdlPacket.thy ===== *)
theory FdlPacket
  imports Checksum Hdlc BslCmd
begin

text \<open>
  The packet layer of the device loaders (custom_fdl/packet.c; t117_fdl/packet.c is the
  same file). \<open>packet_temp\<close> is the static buffer both directions share: a request is
  received at its start, a reply is built at offset \<open>MAX_PKT_SIZE + 4\<close> and escaped in
  place towards the start. The channel is the byte list still to be read and \<open>tx\<close>, the
  packets handed to the channel's write operation; \<open>dl_get_packet\<close> blocks in getchar when
  the input is used up, so the local variables of its loop are part of the state (\<open>rx\<close>).
  The flag \<open>rom\<close> is the build option ACT_AS_ROMCODE.
\<close>

unbundle bit_operations_syntax

section \<open>State\<close>

definition MAX_PKT_SIZE :: nat where "MAX_PKT_SIZE = 0x1000"
definition MAX_PKT_PAYLOAD :: nat where "MAX_PKT_PAYLOAD = MAX_PKT_SIZE - 8"
definition PACKET_TEMP_SIZE :: nat where "PACKET_TEMP_SIZE = MAX_PKT_SIZE * 2 + 4"

record pkt =
  packet_temp :: mem
  rx :: rxs
  tx :: "byte list list"
  opens :: "u32 list"

section \<open>Sending\<close>

definition dl_send_buf :: nat where "dl_send_buf = MAX_PKT_SIZE + 4"

definition dl_packet_init :: "'a pkt_scheme \<Rightarrow> 'a pkt_scheme" where
  "dl_packet_init s = s\<lparr>opens := opens s @ [-1]\<rparr>"

definition dl_chk :: "bool \<Rightarrow> byte list \<Rightarrow> u32" where
  "dl_chk rom buf = (if rom then dl_crc16 buf else dl_fastchk16 buf)"

fun dl_escape_loop :: "mem \<Rightarrow> nat \<Rightarrow> nat \<Rightarrow> nat \<Rightarrow> mem \<times> nat" where
  "dl_escape_loop m dst src 0 = (m, dst)"
| "dl_escape_loop m dst src (Suc n) =
     (let a = m src;
          (m, dst, a) = (if a = HDLC_HEADER \<or> a = HDLC_ESCAPE
                         then (m(dst := HDLC_ESCAPE), dst + 1, a XOR 0x20) else (m, dst, a))
      in dl_escape_loop (m(dst := a)) (dst + 1) (src + 1) n)"

definition dl_sum :: "bool \<Rightarrow> byte list \<Rightarrow> u32" where
  "dl_sum rom p = (if rom then dl_crc16 p else swap_be16 (dl_fastchk16 p))"

definition dl_escapedata :: "bool \<Rightarrow> mem \<Rightarrow> nat \<Rightarrow> nat \<Rightarrow> nat \<Rightarrow> mem \<times> nat" where
  "dl_escapedata rom m dst_start src sz =
     (let crc = dl_sum rom (mslice m src sz);
          m = blit m (src + sz) (WRITE16_BE crc);
          sz = sz + 2;
          m = m(dst_start := HDLC_HEADER);
          (m, dst) = dl_escape_loop m (dst_start + 1) src sz;
          m = m(dst := HDLC_HEADER)
      in (m, dst + 1 - dst_start))"

definition dl_write_packet :: "byte list \<Rightarrow> 'a pkt_scheme \<Rightarrow> 'a pkt_scheme" where
  "dl_write_packet buf s = s\<lparr>tx := tx s @ [buf]\<rparr>"

text \<open>\<open>stk\<close> is what the stack held before: the ack is built in an uninitialised array.\<close>

definition dl_send_ack :: "bool \<Rightarrow> mem \<Rightarrow> u32 \<Rightarrow> 'a pkt_scheme \<Rightarrow> 'a pkt_scheme" where
  "dl_send_ack rom stk type s =
     (let temp = blit (blit stk 8 (WRITE16_BE type)) 10 (WRITE16_BE 0);
          (temp, len) = dl_escapedata rom temp 0 8 4
      in dl_write_packet (mslice temp 0 len) s)"

definition dl_send_packet :: "bool \<Rightarrow> nat \<Rightarrow> 'a pkt_scheme \<Rightarrow> 'a pkt_scheme" where
  "dl_send_packet rom src s =
     (let len = READ16_BE (packet_temp s) (src + 2);
          (m, n) = dl_escapedata rom (packet_temp s) 0 src (unat len + 4)
      in dl_write_packet (mslice m 0 n) (s\<lparr>packet_temp := m\<rparr>))"

section \<open>Receiving\<close>

definition dl_rx_plen :: "mem \<times> rxs \<Rightarrow> (mem \<times> rxs, unit) rx_out" where
  "dl_rx_plen = (\<lambda>(data, r).
     if nread r = 4
     then let p = unat (READ16_BE data 2) + 6
          in if p > MAX_PKT_SIZE then RxFail () (data, r) else RxMore (data, r\<lparr>plen := p\<rparr>)
     else RxMore (data, r))"

definition dl_rx_byte :: "bool \<Rightarrow> byte \<Rightarrow> mem \<times> rxs \<Rightarrow> (mem \<times> rxs, unit) rx_out" where
  "dl_rx_byte rom a = (\<lambda>(data, r).
     if esc r \<noteq> 0 \<and> a \<noteq> HDLC_HEADER XOR 0x20 \<and> a \<noteq> HDLC_ESCAPE XOR 0x20 then RxFail () (data, r)
     else if a = HDLC_HEADER then
       (if \<not> head_found r then dl_rx_plen (data, r\<lparr>head_found := True\<rparr>)
        else if nread r = 0 then RxMore (data, r)
        else if nread r < plen r then RxFail () (data, r)
        else if dl_chk rom (mslice data 0 (nread r)) \<noteq> 0 then RxFail () (data, r)
        else RxDone (data, r))
     else if a = HDLC_ESCAPE then dl_rx_plen (data, r\<lparr>esc := 0x20\<rparr>)
     else if \<not> head_found r then RxMore (data, r)
     else if nread r - nread r mod 2 \<ge> plen r then RxFail () (data, r)
     else dl_rx_plen (data(nread r := a XOR esc r), r\<lparr>nread := nread r + 1, esc := 0\<rparr>))"

fun dl_get_packet ::
  "bool \<Rightarrow> mem \<Rightarrow> 'a pkt_scheme \<Rightarrow> byte list \<Rightarrow> 'a pkt_scheme \<times> byte list option" where
  "dl_get_packet rom stk s [] = (s, None)"
| "dl_get_packet rom stk s (a # input) =
     (case dl_rx_byte rom a (packet_temp s, rx s) of
        RxMore (data, r) \<Rightarrow> dl_get_packet rom stk (s\<lparr>packet_temp := data, rx := r\<rparr>) input
      | RxDone (data, r) \<Rightarrow> (s\<lparr>packet_temp := data, rx := rx_init\<rparr>, Some input)
      | RxFail _ (data, r) \<Rightarrow> dl_get_packet rom stk
          (dl_send_ack rom stk BSL_REP_VERIFY_ERROR (s\<lparr>packet_temp := data, rx := rx_init\<rparr>)) input)"

section \<open>What is sent\<close>

definition dl_frame :: "bool \<Rightarrow> byte list \<Rightarrow> byte list" where
  "dl_frame rom p = HDLC_HEADER # spd_transcode (p @ WRITE16_BE (dl_sum rom p)) @ [HDLC_HEADER]"

text \<open>Escaping in place is safe while the output stays behind the input.\<close>

lemma dl_escape_loop_spec:
  "dst + n \<le> src \<Longrightarrow>
     dl_escape_loop m dst src n =
       (blit m dst (spd_transcode (mslice m src n)), dst + length (spd_transcode (mslice m src n)))"
proof (induction n arbitrary: m dst src)
  case 0
  then show ?case by simp
next
  case (Suc n)
  define e where "e = spd_transcode [m src]"
  have e: "length e \<le> 2" "0 < length e" by (simp_all add: e_def)
  have m1: "dl_escape_loop m dst src (Suc n) = dl_escape_loop (blit m dst e) (dst + length e) (src + 1) n"
    by (simp add: e_def Let_def blit_upd [symmetric] blit_append [of m dst "[_]", simplified])
  have rest: "mslice (blit m dst e) (src + 1) n = mslice m (src + 1) n"
    using Suc.prems e by (intro mslice_blit_other) linarith
  have "dst + length e + n \<le> src + 1" using Suc.prems e by linarith
  then have "dl_escape_loop (blit m dst e) (dst + length e) (src + 1) n =
      (blit (blit m dst e) (dst + length e) (spd_transcode (mslice m (src + 1) n)),
       dst + length e + length (spd_transcode (mslice m (src + 1) n)))"
    using Suc.IH [of "dst + length e" "src + 1" "blit m dst e"] by (simp only: rest)
  moreover have "spd_transcode (mslice m src (Suc n)) = e @ spd_transcode (mslice m (src + 1) n)"
    by (simp add: mslice_Suc e_def flip: spd_transcode_append)
  ultimately show ?case by (simp only: m1 blit_append length_append add.assoc)
qed

lemma dl_escapedata_spec:
  assumes "dst + sz + 3 \<le> src"
  shows "dl_escapedata rom m dst src sz =
    (blit (blit m (src + sz) (WRITE16_BE (dl_sum rom (mslice m src sz)))) dst
       (dl_frame rom (mslice m src sz)),
     length (dl_frame rom (mslice m src sz)))"
proof -
  define p where "p = mslice m src sz"
  define q where "q = p @ WRITE16_BE (dl_sum rom p)"
  define m1 where "m1 = blit m (src + sz) (WRITE16_BE (dl_sum rom p))"
  define m2 where "m2 = blit m1 dst [HDLC_HEADER]"
  have lenp: "length p = sz" by (simp add: p_def)
  have "mslice m1 src (sz + 2) = q"
    unfolding mslice_add q_def m1_def
    using mslice_blit_same [of m "src + sz" "WRITE16_BE (dl_sum rom p)"]
    by (simp add: mslice_blit_other p_def)
  then have q: "mslice m2 src (sz + 2) = q"
    using assms by (simp add: m2_def mslice_blit_other)
  have loop: "dl_escape_loop m2 (dst + 1) src (sz + 2) =
      (blit m2 (dst + 1) (spd_transcode q), dst + 1 + length (spd_transcode q))"
    using dl_escape_loop_spec [of "dst + 1" "sz + 2" src m2] assms by (simp only: q)
  have "blit m2 (dst + 1) (spd_transcode q) = blit m1 dst (HDLC_HEADER # spd_transcode q)"
    unfolding m2_def using blit_append [of m1 dst "[HDLC_HEADER]" "spd_transcode q"] by simp
  then have "(blit m2 (dst + 1) (spd_transcode q))(dst + 1 + length (spd_transcode q) := HDLC_HEADER)
      = blit m1 dst (dl_frame rom p)"
    using blit_snoc [of m1 dst "HDLC_HEADER # spd_transcode q" HDLC_HEADER]
    by (simp add: dl_frame_def q_def)
  moreover have "dst + 1 + length (spd_transcode q) + 1 - dst = length (dl_frame rom p)"
    by (simp add: dl_frame_def q_def)
  moreover have "dl_escapedata rom m dst src sz =
      (let (m, d) = dl_escape_loop m2 (dst + 1) src (sz + 2) in (m(d := HDLC_HEADER), d + 1 - dst))"
    by (simp only: dl_escapedata_def Let_def m2_def m1_def p_def blit_upd)
  ultimately show ?thesis
    by (simp only: loop Let_def case_prod_conv) (simp only: p_def m1_def)
qed

lemma length_dl_frame: "length (dl_frame rom p) \<le> 2 * length p + 6"
  using length_spd_transcode(2) [of "p @ WRITE16_BE (dl_sum rom p)"]
  by (simp add: dl_frame_def)

lemma mslice_blit_frame: "mslice (blit m off bs) off (length bs) = bs"
  by (rule mslice_blit_same)

lemma dl_send_ack_tx:
  "dl_send_ack rom stk type s = s\<lparr>tx := tx s @ [dl_frame rom (WRITE16_BE type @ WRITE16_BE 0)]\<rparr>"
proof -
  define temp where "temp = blit (blit stk 8 (WRITE16_BE type)) 10 (WRITE16_BE 0)"
  have "temp = blit stk 8 (WRITE16_BE type @ WRITE16_BE 0)"
    using blit_append [of stk 8 "WRITE16_BE type" "WRITE16_BE 0"] by (simp add: temp_def)
  then have "mslice temp 8 4 = WRITE16_BE type @ WRITE16_BE 0"
    using mslice_blit_same [of stk 8 "WRITE16_BE type @ WRITE16_BE 0"] by simp
  then show ?thesis
    by (simp add: dl_send_ack_def dl_escapedata_spec dl_write_packet_def flip: temp_def)
qed

text \<open>The payload of a packet that lies at \<open>p\<close> in a memory, with its type and length fields.\<close>

definition pkt_at :: "mem \<Rightarrow> nat \<Rightarrow> byte list" where
  "pkt_at m p = mslice m p (unat (READ16_BE m (p + 2)) + 4)"

lemma dl_send_packet_tx:
  assumes "unat (READ16_BE (packet_temp s) (src + 2)) + 7 \<le> src"
  shows "\<exists>m. dl_send_packet rom src s =
    s\<lparr>packet_temp := m, tx := tx s @ [dl_frame rom (pkt_at (packet_temp s) src)]\<rparr>"
proof -
  have "0 + (unat (READ16_BE (packet_temp s) (src + 2)) + 4) + 3 \<le> src" using assms by simp
  from dl_escapedata_spec [OF this, of rom "packet_temp s"] show ?thesis
    by (intro exI) (simp add: dl_send_packet_def dl_write_packet_def pkt_at_def)
qed

section \<open>What is received\<close>

text \<open>\<open>dl_fits\<close>: the packet has the right length and fits in the buffer; \<open>dl_wf\<close>: its check is right, too.\<close>

definition dl_fits :: "byte list \<Rightarrow> bool" where
  "dl_fits q = (len_ok q \<and> length q \<le> MAX_PKT_SIZE)"

definition dl_wf :: "bool \<Rightarrow> byte list \<Rightarrow> bool" where
  "dl_wf rom q = (len_ok q \<and> length q \<le> MAX_PKT_SIZE \<and> dl_chk rom q = 0)"

lemma dl_wf_fits: "dl_wf rom q = (dl_fits q \<and> dl_chk rom q = 0)"
  by (simp add: dl_wf_def dl_fits_def)

lemma dl_rx_plen_collected:
  assumes "dl_fits q" "k \<le> length q" "collected e (take k q) (m, r)"
  shows "dl_rx_plen (m, r) = RxMore (m, r)"
  using collected_plen_upd [of q k e m r] assms by (auto simp: dl_rx_plen_def dl_fits_def)

text \<open>One more packet byte, plain or after an escape.\<close>

lemma dl_rx_store:
  assumes "dl_fits q" "k < length q" "collected e (take k q) (m, r)"
  shows "\<exists>s'. dl_rx_plen (m(k := q ! k), r\<lparr>nread := Suc k, esc := 0\<rparr>) = RxMore s' \<and>
    collected 0 (take (Suc k) q) s'"
  using collected_store [of q k e m r] assms by (auto simp: dl_rx_plen_def dl_fits_def Let_def)

lemma dl_room:
  assumes "dl_fits q" "k < length q" "collected e (take k q) (m, r)"
  shows "\<not> plen r \<le> nread r - nread r mod 2"
  using collected_plen [of q k e m r] assms by (auto simp: dl_fits_def split: if_splits)

text \<open>The steps of the receiver inside a packet that fits, whether its check is right or not.\<close>

lemma dl_step_header: "rx_idle s \<Longrightarrow> \<exists>s'. dl_rx_byte rom HDLC_HEADER s = RxMore s' \<and> collected 0 [] s'"
  by (cases s) (simp add: rx_idle_def dl_rx_byte_def dl_rx_plen_def rx_init_def collected_def)

lemma dl_step_plain:
  assumes "dl_fits q" "k < length q" "collected 0 (take k q) s" "q ! k \<noteq> HDLC_HEADER" "q ! k \<noteq> HDLC_ESCAPE"
  shows "\<exists>s'. dl_rx_byte rom (q ! k) s = RxMore s' \<and> collected 0 (take (Suc k) q) s'"
proof -
  obtain m r where s: "s = (m, r)" by (cases s)
  have r: "esc r = 0" "head_found r" "nread r = k"
    using assms by (simp_all add: s collected_def)
  show ?thesis
    using dl_rx_store [OF assms(1,2), of 0 m r] dl_room [OF assms(1,2), of 0 m r] assms r
    by (simp add: s dl_rx_byte_def)
qed

lemma dl_step_escape:
  assumes "dl_fits q" "k < length q" "collected 0 (take k q) s"
  shows "\<exists>s'. dl_rx_byte rom HDLC_ESCAPE s = RxMore s' \<and> collected 0x20 (take k q) s'"
proof -
  obtain m r where s: "s = (m, r)" by (cases s)
  have r: "esc r = 0" using assms by (simp add: s collected_def)
  have c: "collected 0x20 (take k q) (m, r\<lparr>esc := 0x20\<rparr>)"
    using assms by (simp add: s collected_def)
  show ?thesis
    using dl_rx_plen_collected [OF assms(1) less_imp_le [OF assms(2)] c] c r
    by (simp add: s dl_rx_byte_def)
qed

lemma dl_step_escaped:
  assumes "dl_fits q" "k < length q" "collected 0x20 (take k q) s" "q ! k = HDLC_HEADER \<or> q ! k = HDLC_ESCAPE"
  shows "\<exists>s'. dl_rx_byte rom (q ! k XOR 0x20) s = RxMore s' \<and> collected 0 (take (Suc k) q) s'"
proof -
  obtain m r where s: "s = (m, r)" by (cases s)
  have r: "esc r = 0x20" "head_found r" "nread r = k"
    using assms by (simp_all add: s collected_def)
  show ?thesis
    using dl_rx_store [OF assms(1,2), of "0x20" m r] dl_room [OF assms(1,2), of "0x20" m r] assms r
    by (auto simp: s dl_rx_byte_def)
qed

lemma dl_step_end:
  assumes "dl_fits q" "collected 0 q s"
  shows "dl_rx_byte rom HDLC_HEADER s = (if dl_chk rom q = 0 then RxDone s else RxFail () s)"
proof -
  obtain m r where s: "s = (m, r)" by (cases s)
  have "plen r = length q" using collected_plen [of q "length q" 0 m r] assms
    by (simp add: s dl_fits_def len_ok_def)
  with assms show ?thesis
    by (auto simp: s dl_rx_byte_def collected_def dl_fits_def len_ok_def)
qed

interpretation dl: hdlc_receiver "dl_rx_byte rom" rx_idle "collected 0" "collected 0x20" "dl_wf rom"
  for rom
proof (unfold_locales, goal_cases)
  case 1 then show ?case by (rule dl_step_header)
next
  case 2 then show ?case by (intro dl_step_plain) (simp_all add: dl_wf_fits)
next
  case 3 then show ?case by (intro dl_step_escape) (simp_all add: dl_wf_fits)
next
  case 4 then show ?case by (intro dl_step_escaped) (simp_all add: dl_wf_fits)
next
  case (5 q s) then show ?case using dl_step_end [of q s rom] by (intro exI [of _ s]) (simp add: dl_wf_fits)
qed

text \<open>The same receiver with its failures counted as the end of a packet accepts every packet that fits.\<close>

definition lenient :: "bool \<Rightarrow> byte \<Rightarrow> mem \<times> rxs \<Rightarrow> (mem \<times> rxs, unit) rx_out" where
  "lenient rom a s = (case dl_rx_byte rom a s of RxFail e t \<Rightarrow> RxDone t | out \<Rightarrow> out)"

lemma lenient_More: "lenient rom a s = RxMore t \<longleftrightarrow> dl_rx_byte rom a s = RxMore t"
  by (simp add: lenient_def split: rx_out.split)

lemma lenient_run: "rx_run (lenient rom) s xs = RxMore t \<Longrightarrow> rx_run (dl_rx_byte rom) s xs = RxMore t"
  by (induction xs arbitrary: s) (auto simp: lenient_More split: rx_out.splits)

interpretation dl_any: hdlc_receiver "lenient rom" rx_idle "collected 0" "collected 0x20" dl_fits
  for rom
proof (unfold_locales, unfold lenient_More, goal_cases)
  case 1 then show ?case by (rule dl_step_header)
next
  case 2 then show ?case by (rule dl_step_plain)
next
  case 3 then show ?case by (rule dl_step_escape)
next
  case 4 then show ?case by (rule dl_step_escaped)
next
  case (5 q s) then show ?case using dl_step_end [of q s rom] by (intro exI [of _ s]) (simp add: lenient_def)
qed

lemma dl_get_packet_run:
  "rx_run (dl_rx_byte rom) (packet_temp s, rx s) xs = RxMore (m, r) \<Longrightarrow>
     dl_get_packet rom stk s (xs @ ys) = dl_get_packet rom stk (s\<lparr>packet_temp := m, rx := r\<rparr>) ys"
proof (induction xs arbitrary: s)
  case Nil
  then have "s\<lparr>packet_temp := m, rx := r\<rparr> = s" by (cases s) simp
  then show ?case by simp
next
  case (Cons a xs)
  obtain m' r' where step: "dl_rx_byte rom a (packet_temp s, rx s) = RxMore (m', r')"
    using Cons.prems by (auto split: rx_out.splits)
  then show ?case
    using Cons.IH [of "s\<lparr>packet_temp := m', rx := r'\<rparr>"] Cons.prems by simp
qed

lemma dl_get_packet_ok:
  assumes "dl_wf rom q" "rx s = rx_init"
  shows "\<exists>m. dl_get_packet rom stk s (HDLC_HEADER # spd_transcode q @ HDLC_HEADER # rest) =
      (s\<lparr>packet_temp := m, rx := rx_init\<rparr>, Some rest) \<and> mslice m 0 (length q) = q"
proof -
  obtain m r m' r' where run:
      "rx_run (dl_rx_byte rom) (packet_temp s, rx s) (HDLC_HEADER # spd_transcode q) = RxMore (m, r)"
    and last: "dl_rx_byte rom HDLC_HEADER (m, r) = RxDone (m', r')"
    and fin: "collected 0 q (m', r')"
    using dl.run_frame [OF assms(1), of "(packet_temp s, rx s)"] assms(2)
    by (auto simp: rx_idle_def)
  show ?thesis
    using dl_get_packet_run [OF run, of stk "HDLC_HEADER # rest"] last fin
    by (auto simp: collected_def)
qed

text \<open>Whatever arrives, the receiver stays inside the first half of the buffer.\<close>

definition dl_rx_inv :: "rxs \<Rightarrow> bool" where
  "dl_rx_inv r = (6 \<le> plen r \<and> plen r \<le> MAX_PKT_SIZE \<and> nread r \<le> plen r + plen r mod 2)"

definition same_above :: "mem \<Rightarrow> mem \<Rightarrow> bool" where
  "same_above m m' = (\<forall>i. MAX_PKT_SIZE \<le> i \<longrightarrow> m' i = m i)"

lemma even_MAX_PKT_SIZE: "r \<le> MAX_PKT_SIZE \<Longrightarrow> r + r mod 2 \<le> MAX_PKT_SIZE"
  unfolding MAX_PKT_SIZE_def by presburger

lemma room_even:
  assumes "\<not> p \<le> n - n mod 2" shows "Suc n \<le> p + p mod (2 :: nat)"
proof -
  define a b where "a = n div 2" and "b = p div 2"
  have n: "n = 2 * a + n mod 2" and p: "p = 2 * b + p mod 2" by (simp_all add: a_def b_def)
  then have "2 * a < 2 * b + p mod 2" using assms by linarith
  then have "a < b + p mod 2" by linarith
  moreover have "n mod 2 < 2" by simp
  ultimately show ?thesis using n p by linarith
qed

definition dl_rx_ok :: "mem \<Rightarrow> (mem \<times> rxs, unit) rx_out \<Rightarrow> bool" where
  "dl_rx_ok m res = (case res of
      RxMore (m', r') \<Rightarrow> dl_rx_inv r' \<and> same_above m m'
    | RxDone (m', r') \<Rightarrow> same_above m m'
    | RxFail _ (m', r') \<Rightarrow> same_above m m')"

lemma dl_rx_ok_if:
  "(b \<Longrightarrow> dl_rx_ok m x) \<Longrightarrow> (\<not> b \<Longrightarrow> dl_rx_ok m y) \<Longrightarrow> dl_rx_ok m (if b then x else y)"
  by simp

lemma dl_rx_plen_ok:
  "nread r = 4 \<or> dl_rx_inv r \<Longrightarrow> same_above m m' \<Longrightarrow> dl_rx_ok m (dl_rx_plen (m', r))"
  by (auto simp: dl_rx_ok_def dl_rx_plen_def dl_rx_inv_def Let_def)

lemma dl_rx_inv_upd [simp]:
  "dl_rx_inv (r\<lparr>head_found := h\<rparr>) = dl_rx_inv r" "dl_rx_inv (r\<lparr>esc := e\<rparr>) = dl_rx_inv r"
  by (simp_all add: dl_rx_inv_def)

lemma dl_rx_byte_ok:
  assumes "dl_rx_inv r"
  shows "dl_rx_ok m (dl_rx_byte rom a (m, r))"
proof -
  have store: "nread r < MAX_PKT_SIZE \<and> Suc (nread r) \<le> plen r + plen r mod 2"
    if "\<not> plen r \<le> nread r - nread r mod 2"
    using room_even [OF that] even_MAX_PKT_SIZE [of "plen r"] assms by (simp add: dl_rx_inv_def)
  have same: "same_above m m" by (simp add: same_above_def)
  then have stop: "dl_rx_ok m (RxFail () (m, r))" "dl_rx_ok m (RxDone (m, r))"
    "dl_rx_ok m (RxMore (m, r))"
    using assms by (simp_all add: dl_rx_ok_def)
  have put: "dl_rx_ok m (dl_rx_plen (m(nread r := b), r\<lparr>nread := nread r + 1, esc := 0\<rparr>))"
    if "\<not> plen r \<le> nread r - nread r mod 2" for b
    using store [OF that] assms
    by (intro dl_rx_plen_ok) (simp_all add: dl_rx_inv_def same_above_def)
  have flag: "dl_rx_ok m (dl_rx_plen (m, r\<lparr>head_found := True\<rparr>))"
    "dl_rx_ok m (dl_rx_plen (m, r\<lparr>esc := 0x20\<rparr>))"
    using assms same by (simp_all add: dl_rx_plen_ok)
  show ?thesis
    unfolding dl_rx_byte_def prod.case by (intro dl_rx_ok_if stop put flag)
qed

lemma same_above_trans: "same_above m m' \<Longrightarrow> same_above m' m'' \<Longrightarrow> same_above m m''"
  by (simp add: same_above_def)

lemma dl_rx_inv_init [simp]: "dl_rx_inv rx_init"
  by (simp add: dl_rx_inv_def rx_init_def MAX_PKT_SIZE_def)

lemma dl_get_packet_same_above:
  assumes "dl_rx_inv (rx s)"
  shows "dl_get_packet rom stk s input = (s', out) \<Longrightarrow> same_above (packet_temp s) (packet_temp s')"
  using assms
proof (induction rom stk s input rule: dl_get_packet.induct)
  case (1 rom stk s)
  then show ?case by (simp add: same_above_def)
next
  case (2 rom stk s a input)
  note ok = dl_rx_byte_ok [OF "2.prems"(2), of "packet_temp s" rom a]
  show ?case
  proof (cases "dl_rx_byte rom a (packet_temp s, rx s)")
    case (RxMore p)
    obtain m r where p: "p = (m, r)" by (cases p)
    show ?thesis
      using "2.IH"(1) [OF RxMore p [symmetric]] "2.prems"(1) ok RxMore
      by (auto simp: p dl_rx_ok_def intro: same_above_trans)
  next
    case (RxDone p)
    then show ?thesis using "2.prems"(1) ok by (auto simp: dl_rx_ok_def split: prod.splits)
  next
    case (RxFail e p)
    obtain m r where p: "p = (m, r)" by (cases p)
    show ?thesis
      using "2.IH"(2) [OF RxFail p [symmetric]] "2.prems"(1) ok RxFail
      by (auto simp: p dl_rx_ok_def dl_send_ack_tx intro: same_above_trans)
  qed
qed

text \<open>A packet whose check is wrong is answered with an error, and the receiver starts over behind its frame.\<close>

lemma dl_get_packet_bad:
  assumes "dl_fits q" "dl_chk rom q \<noteq> 0" "rx s = rx_init"
  shows "\<exists>m. same_above (packet_temp s) m \<and>
    dl_get_packet rom stk s (HDLC_HEADER # spd_transcode q @ HDLC_HEADER # rest) =
    dl_get_packet rom stk (dl_send_ack rom stk BSL_REP_VERIFY_ERROR (s\<lparr>packet_temp := m, rx := rx_init\<rparr>)) rest"
proof -
  obtain m r where "rx_run (lenient rom) (packet_temp s, rx s) (HDLC_HEADER # spd_transcode q) = RxMore (m, r)"
    and u: "collected 0 q (m, r)"
    using dl_any.run_to_end [OF assms(1), of "(packet_temp s, rx s)" rom] assms(3) by (auto simp: rx_idle_def)
  then have run: "rx_run (dl_rx_byte rom) (packet_temp s, rx s) (HDLC_HEADER # spd_transcode q) = RxMore (m, r)"
    by (intro lenient_run)
  have "dl_get_packet rom stk s (HDLC_HEADER # spd_transcode q) = (s\<lparr>packet_temp := m, rx := r\<rparr>, None)"
    using dl_get_packet_run [OF run, of stk "[]"] by simp
  from dl_get_packet_same_above [OF _ this] have "same_above (packet_temp s) m" using assms(3) by simp
  moreover have "dl_rx_byte rom HDLC_HEADER (m, r) = RxFail () (m, r)"
    using dl_step_end [OF assms(1) u, of rom] assms(2) by simp
  ultimately show ?thesis
    using dl_get_packet_run [OF run, of stk "HDLC_HEADER # rest"] by auto
qed

text \<open>An idle receiver, for the witnesses.\<close>

definition sample_pkt :: pkt where
  "sample_pkt = \<lparr>packet_temp = (\<lambda>_. 0), rx = rx_init, tx = [], opens = []\<rparr>"

text \<open>
  C12: a packet of at most MAX_PKT_SIZE bytes whose length field and check are right is
  received from its frame: dl_get_packet returns with the packet at the start of
  packet_temp, having consumed exactly the frame and sent nothing.
\<close>

theorem dl_get_packet_frame:
  assumes "dl_wf rom q" "rx s = rx_init"
  shows "\<exists>m. dl_get_packet rom stk s (HDLC_HEADER # spd_transcode q @ HDLC_HEADER # rest) =
      (s\<lparr>packet_temp := m, rx := rx_init\<rparr>, Some rest) \<and> mslice m 0 (length q) = q"
  using assms by (rule dl_get_packet_ok)

theorem dl_get_packet_frame_witness:
  "\<exists>m. dl_get_packet False (\<lambda>_. 0) sample_pkt
      (HDLC_HEADER # spd_transcode [0, 0x7e, 0, 0, 0xff, 0x81] @ HDLC_HEADER # [1, 2]) =
      (sample_pkt\<lparr>packet_temp := m, rx := rx_init\<rparr>, Some [1, 2]) \<and>
    mslice m 0 (length [0, 0x7e, 0, 0, 0xff, 0x81 :: byte]) = [0, 0x7e, 0, 0, 0xff, 0x81]"
  by (rule dl_get_packet_frame)
    (simp_all add: sample_pkt_def dl_wf_def len_ok_def dl_chk_def dl_fastchk16_def le16_def fold16_def
      READ16_BE_def blit_def MAX_PKT_SIZE_def numeral_2_eq_2 [symmetric])

text \<open>
  C13: no byte sequence, however malformed, makes the receiver write outside the first
  MAX_PKT_SIZE bytes of packet_temp: the reply buffer behind them is never touched.
\<close>

theorem dl_get_packet_bounds:
  assumes "rx s = rx_init"
  shows "\<forall>i. MAX_PKT_SIZE \<le> i \<longrightarrow> packet_temp (fst (dl_get_packet rom stk s input)) i = packet_temp s i"
  using dl_get_packet_same_above [of s rom stk input] assms
  by (cases "dl_get_packet rom stk s input") (simp add: same_above_def)

theorem dl_get_packet_bounds_witness:
  "packet_temp (fst (dl_get_packet False (\<lambda>_. 0) sample_pkt [0x7e, 1, 2, 0x0f, 0xfa, 3, 0x7d, 4, 0x7e])) MAX_PKT_SIZE =
     packet_temp sample_pkt MAX_PKT_SIZE"
proof -
  have "rx sample_pkt = rx_init" by (simp add: sample_pkt_def)
  from dl_get_packet_bounds [OF this] show ?thesis by (metis order_refl)
qed

text \<open>
  Dl_send_packet escapes the reply in place, from dl_send_buf down to the start of the
  same buffer, appending the checksum behind the payload first: what is written to the
  channel is nevertheless exactly the frame of the reply that lay at dl_send_buf, for
  payloads up to MAX_PKT_PAYLOAD bytes.
\<close>

theorem dl_send_packet_frame:
  assumes "unat (READ16_BE (packet_temp s) (dl_send_buf + 2)) \<le> MAX_PKT_PAYLOAD"
  shows "tx (dl_send_packet rom dl_send_buf s) =
    tx s @ [dl_frame rom (pkt_at (packet_temp s) dl_send_buf)]"
proof -
  have "unat (READ16_BE (packet_temp s) (dl_send_buf + 2)) + 7 \<le> dl_send_buf"
    using assms by (simp add: dl_send_buf_def MAX_PKT_PAYLOAD_def MAX_PKT_SIZE_def)
  from dl_send_packet_tx [OF this, of rom] show ?thesis by auto
qed

theorem dl_send_packet_frame_witness:
  "tx (dl_send_packet False dl_send_buf (sample_pkt\<lparr>packet_temp := blit (\<lambda>_. 0) dl_send_buf [0, 0x93, 0, 2, 0x7e, 5]\<rparr>)) =
    tx sample_pkt @ [dl_frame False (pkt_at (blit (\<lambda>_. 0) dl_send_buf [0, 0x93, 0, 2, 0x7e, 5]) dl_send_buf)]"
  using dl_send_packet_frame [of "sample_pkt\<lparr>packet_temp := blit (\<lambda>_. 0) dl_send_buf [0, 0x93, 0, 2, 0x7e, 5]\<rparr>" False]
  by (simp add: MAX_PKT_PAYLOAD_def MAX_PKT_SIZE_def READ16_BE_def blit_def dl_send_buf_def)

end
