(* ===== verification/FdlState.thy ===== *)
theory FdlState
  imports FdlPacket CStd CMonad
begin

text \<open>
  What the command loops of the two loaders (custom_fdl/main.c, t117_fdl/main.c) have in
  common: the received packet at the start of \<open>packet_temp\<close>, the download status and RAM, the
  replies, the commands that are the same code in both, and the loop itself.
\<close>

unbundle bit_operations_syntax

section \<open>State\<close>

record dls = pkt +
  ram :: "u32 \<Rightarrow> byte"
  dl_start :: u32
  dl_size :: u32
  dl_recv :: u32

definition st_bytes :: "u32 \<Rightarrow> byte list \<Rightarrow> 'x dls_scheme \<Rightarrow> 'x dls_scheme" where
  "st_bytes a bs s = s\<lparr>ram := mupd (ram s) a bs\<rparr>"

definition pkt16 :: "'x pkt_scheme \<Rightarrow> nat \<Rightarrow> u32" where
  "pkt16 s off = READ16_BE (packet_temp s) off"

definition pkt32 :: "'x pkt_scheme \<Rightarrow> nat \<Rightarrow> u32" where
  "pkt32 s off = READ32_BE (packet_temp s) off"

definition pkt_data :: "'x pkt_scheme \<Rightarrow> byte list" where
  "pkt_data s = mslice (packet_temp s) 4 (unat (pkt16 s 2))"

text \<open>\<open>WRITE16_BE(pkt, type); WRITE16_BE(pkt + 2, len); memcpy(pkt + 4, data, len)\<close> in the send buffer, and sending it.\<close>

definition send_reply :: "bool \<Rightarrow> u32 \<Rightarrow> byte list \<Rightarrow> ('x pkt_scheme, unit) cm" where
  "send_reply r type data = modify (\<lambda>s.
     let m = blit (packet_temp s) dl_send_buf (WRITE16_BE type);
         m = blit m (dl_send_buf + 2) (WRITE16_BE (of_nat (length data)));
         m = blit m (dl_send_buf + 4) data
     in dl_send_packet r dl_send_buf (s\<lparr>packet_temp := m\<rparr>))"

section \<open>Commands\<close>

definition data_end :: "('x dls_scheme, u32) cm" where
  "data_end = (\<lambda>s. if dl_size s \<noteq> dl_recv s then Ret BSL_REP_DOWN_EARLY_END s else Ret BSL_REP_ACK s)"

definition set_baudrate :: "('x pkt_scheme, u32) cm" where
  "set_baudrate = (\<lambda>s.
     if pkt16 s 2 \<noteq> 4 then Ret BSL_REP_INVALID_CMD s
     else Ret BSL_REP_ACK (s\<lparr>opens := opens s @ [pkt32 s 4]\<rparr>))"

section \<open>The command loop\<close>

definition version_base :: string where
  "version_base = ''Custom FDL1: CHIP ID = 0x00000000''"

text \<open>\<open>for (t = chip_id; t; t <<= 4)\<close>: a word has eight digits.\<close>

fun version_digits :: "nat \<Rightarrow> u32 \<Rightarrow> string" where
  "version_digits 0 t = []"
| "version_digits (Suc k) t =
     (if t = 0 then []
      else (let a = unat (drop_bit 28 t); a = (if a \<ge> 10 then a + 97 - 48 - 10 else a)
            in char_of (a + 48)) # version_digits k (push_bit 4 t))"

definition version_string :: "u32 \<Rightarrow> string" where
  "version_string cid = (let d = version_digits 8 cid in take 25 version_base @ d @ drop (25 + length d) version_base)"

text \<open>
  The loop of \<open>dl_main\<close> on the bytes that have arrived, with \<open>H\<close> for what is done with a
  packet: it stops where the next \<open>getchar\<close> blocks, and goes on from there when there are more.
\<close>

lemma dl_get_packet_rest:
  "dl_get_packet r stk s input = (s', Some out) \<Longrightarrow> length out < length input"
proof (induction r stk s input rule: dl_get_packet.induct)
  case (2 r stk s a input)
  then show ?case by (fastforce split: rx_out.splits prod.splits)
qed simp

function cmd_loop :: "bool \<Rightarrow> mem \<Rightarrow> ('x pkt_scheme, unit) cm \<Rightarrow> byte list \<Rightarrow> ('x pkt_scheme, unit) cm" where
  "cmd_loop r stk H input s =
     (case dl_get_packet r stk s input of
        (s, None) \<Rightarrow> Ret () s
      | (s, Some input) \<Rightarrow>
          (case H s of
             Ret _ s \<Rightarrow> cmd_loop r stk H input s
           | Exit e s \<Rightarrow> Exit e s
           | OutOfFuel s \<Rightarrow> OutOfFuel s))"
  by pat_completeness auto

termination
  by (relation "measure (\<lambda>(r, stk, H, input, s). length input)") (auto dest!: dl_get_packet_rest [OF sym])

declare cmd_loop.simps [simp del]

text \<open>It does not matter how the incoming bytes are cut into transfers.\<close>

lemma dl_get_packet_append:
  "dl_get_packet r stk s (xs @ ys) =
     (case dl_get_packet r stk s xs of
        (s', None) \<Rightarrow> dl_get_packet r stk s' ys
      | (s', Some zs) \<Rightarrow> (s', Some (zs @ ys)))"
proof (induction r stk s xs rule: dl_get_packet.induct)
  case (2 r stk s a input)
  then show ?case by (auto split: rx_out.splits)
qed simp

lemma cmd_loop_append:
  "cmd_loop r stk H (xs @ ys) s = bnd (cmd_loop r stk H xs) (\<lambda>_. cmd_loop r stk H ys) s"
proof (induction r stk H xs s rule: cmd_loop.induct)
  case (1 r stk H xs s)
  show ?case
  proof (cases "dl_get_packet r stk s xs")
    case (Pair s1 out)
    show ?thesis
    proof (cases out)
      case None
      have "cmd_loop r stk H (xs @ ys) s = cmd_loop r stk H ys s1"
        using Pair None by (subst (1 2) cmd_loop.simps) (simp add: dl_get_packet_append)
      moreover have "cmd_loop r stk H xs s = Ret () s1" using Pair None by (subst cmd_loop.simps) simp
      ultimately show ?thesis by (simp add: bnd_def)
    next
      case (Some zs)
      show ?thesis
      proof (cases "H s1")
        case (Ret u s2)
        have "cmd_loop r stk H (xs @ ys) s = cmd_loop r stk H (zs @ ys) s2"
          using Pair Some Ret by (subst cmd_loop.simps) (simp add: dl_get_packet_append)
        moreover have "cmd_loop r stk H xs s = cmd_loop r stk H zs s2"
          using Pair Some Ret by (subst cmd_loop.simps) simp
        moreover have "cmd_loop r stk H (zs @ ys) s2 = bnd (cmd_loop r stk H zs) (\<lambda>_. cmd_loop r stk H ys) s2"
          using 1 Pair Some Ret by simp
        ultimately show ?thesis by (simp add: bnd_def)
      qed (use Pair Some in \<open>simp_all add: cmd_loop.simps [of r stk H _ s] dl_get_packet_append bnd_def\<close>)
    qed
  qed
qed

end
