(* ===== verification/FdlSfc.thy ===== *)
theory FdlSfc
  imports FdlState
begin

text \<open>
  The driver of the serial flash controller (custom_fdl/sfc.c and the macros of sfc.h). The
  registers of the block of a chip select are the record \<open>sfc\<close>; storing to \<open>soft_req\<close> starts
  the command that they describe. Controller and flash chip are the parameter \<open>nor\<close>:
  \<open>tbuf_clear\<close> is what a store to \<open>tbuf_clr\<close> does to the command registers, \<open>exec\<close> what a
  started command does to the chip, with the value \<open>cmd[7]\<close> has when it is done, \<open>polls\<close> how many
  reads of the status register of the controller find it not done, \<open>peek\<close> the chip's memory as
  mapped into the address space, and \<open>spins\<close> how often a status register is read before giving
  up: the controller may never get ready, and the chip never finish.
\<close>

unbundle bit_operations_syntax

section \<open>State\<close>

record sfc =
  cmd_set :: u32
  soft_req :: u32
  tbuf_clr :: u32
  int_clr :: u32
  cmd :: "nat \<Rightarrow> u32"
  type_info :: "nat \<Rightarrow> u32"

record 'f nor =
  tbuf_clear :: "sfc \<Rightarrow> sfc"
  exec :: "sfc \<Rightarrow> 'f \<Rightarrow> 'f \<times> u32"
  polls :: "sfc \<Rightarrow> 'f \<Rightarrow> nat"
  peek :: "'f \<Rightarrow> u32 \<Rightarrow> byte"
  spins :: nat

record 'f sfcst = dls +
  sfcr :: "nat \<Rightarrow> sfc"
  chip :: 'f
  sfc_clk :: u32

type_synonym ('f, 'x, 'a) sm = "(('f, 'x) sfcst_scheme, 'a) cm"

definition SFC_OP_WRITE :: u32 where "SFC_OP_WRITE = 0"
definition SFC_OP_READ :: u32 where "SFC_OP_READ = 1"

text \<open>\<open>SFC_TYPEINFO\<close> and \<open>SFC_CMDSET\<close> are only used with one data line (SFC_BIT_MODE1 = 0).\<close>

definition SFC_TYPEINFO :: "u32 \<Rightarrow> u32 \<Rightarrow> u32 \<Rightarrow> u32" where
  "SFC_TYPEINFO num op send = 1 OR push_bit 3 (num - 1) OR push_bit 5 op OR push_bit 7 send"

definition SFC_CMDSET :: "u32 \<Rightarrow> sfc \<Rightarrow> sfc" where
  "SFC_CMDSET cmdbuf r = r\<lparr>cmd_set := (cmd_set r AND NOT 0x1e) OR push_bit 3 (7 - cmdbuf)\<rparr>"

section \<open>Operations\<close>

definition reg :: "nat \<Rightarrow> (sfc \<Rightarrow> sfc) \<Rightarrow> ('f, 'x, unit) sm" where
  "reg cs f = modify (\<lambda>s. s\<lparr>sfcr := (sfcr s)(cs := f (sfcr s cs))\<rparr>)"

definition sfc_init :: "('f, 'x, unit) sm" where
  "sfc_init = modify (\<lambda>s. s\<lparr>sfc_clk := sfc_clk s OR 3\<rparr>)"

definition sfc_cmdclr :: "nat \<Rightarrow> ('f, 'x, unit) sm" where
  "sfc_cmdclr cs = reg cs (\<lambda>r. r\<lparr>cmd := (\<lambda>i. if i < 12 then 0 else cmd r i)\<rparr>)"

definition sfc_clear :: "'f nor \<Rightarrow> nat \<Rightarrow> ('f, 'x, unit) sm" where
  "sfc_clear H cs = reg cs (\<lambda>r. tbuf_clear H (r\<lparr>tbuf_clr := 1\<rparr>))"

definition sfc_write_mode :: "nat \<Rightarrow> ('f, 'x, unit) sm" where
  "sfc_write_mode cs = thn (reg 0 (\<lambda>r. r\<lparr>cmd_set := cmd_set r AND NOT 1\<rparr>)) (reg cs (SFC_CMDSET 7))"

text \<open>\<open>while (!(sfc->status & 1));\<close> where the bit is found at the read after \<open>n\<close> others.\<close>

fun sfc_ready :: "nat \<Rightarrow> nat \<Rightarrow> ('f, 'x, unit) sm" where
  "sfc_ready 0 n = no_fuel"
| "sfc_ready (Suc k) n = (if n = 0 then ret () else sfc_ready k (n - 1))"

definition sfc_start :: "'f nor \<Rightarrow> nat \<Rightarrow> ('f, 'x, unit) sm" where
  "sfc_start H cs =
     thn (reg 0 (\<lambda>r. r\<lparr>int_clr := push_bit cs 1\<rparr>))
    (thn (reg 0 (\<lambda>r. r\<lparr>soft_req := soft_req r OR 1\<rparr>))
    (bnd (gets (\<lambda>s. polls H (sfcr s cs) (chip s))) (\<lambda>n.
     thn (modify (\<lambda>s. let (f, v) = exec H (sfcr s cs) (chip s)
                  in s\<lparr>chip := f, sfcr := (sfcr s)(cs := (sfcr s cs)\<lparr>cmd := (cmd (sfcr s cs))(7 := v)\<rparr>)\<rparr>))
         (sfc_ready (spins H) n))))"

lemma wp_sfc_ready: "n < k \<Longrightarrow> wp (sfc_ready k n) Q E s = Q () s"
  by (induction k n rule: sfc_ready.induct) (simp_all add: wp_ret)

definition sfc_cmd_read :: "'f nor \<Rightarrow> nat \<Rightarrow> u32 \<Rightarrow> u32 \<Rightarrow> ('f, 'x, u32) sm" where
  "sfc_cmd_read H cs c n =
     thn (sfc_clear H cs)
    (thn (reg cs (\<lambda>r. r\<lparr>cmd := (cmd r)(7 := 0)\<rparr>))
    (thn (sfc_write_mode cs)
    (thn (reg cs (\<lambda>r. r\<lparr>cmd := (cmd r)(0 := c),
            type_info := (type_info r)(0 := SFC_TYPEINFO 1 SFC_OP_WRITE 0,
                                       1 := push_bit 24 (SFC_TYPEINFO n SFC_OP_READ 0))\<rparr>))
    (thn (sfc_start H cs)
     (gets (\<lambda>s. cmd (sfcr s cs) 7))))))"

definition sfc_readid :: "'f nor \<Rightarrow> nat \<Rightarrow> ('f, 'x, u32) sm" where
  "sfc_readid H cs = bnd (sfc_cmd_read H cs 0x9f 3) (\<lambda>v. ret (drop_bit 8 v))"

definition sfc_read_status :: "'f nor \<Rightarrow> nat \<Rightarrow> ('f, 'x, u32) sm" where
  "sfc_read_status H cs = bnd (sfc_cmd_read H cs 0x05 1) (\<lambda>v. ret (drop_bit 24 v))"

text \<open>Reads the status until the bits of the mask are (\<open>up\<close>) or are not set.\<close>

fun sfc_poll :: "'f nor \<Rightarrow> nat \<Rightarrow> u32 \<Rightarrow> bool \<Rightarrow> nat \<Rightarrow> ('f, 'x, unit) sm" where
  "sfc_poll H cs msk up 0 = no_fuel"
| "sfc_poll H cs msk up (Suc k) =
     bnd (sfc_read_status H cs) (\<lambda>sr.
       if (sr AND msk \<noteq> 0) = up then ret () else sfc_poll H cs msk up k)"

definition SFC_WRITE_WAIT :: "'f nor \<Rightarrow> nat \<Rightarrow> ('f, 'x, unit) sm" where
  "SFC_WRITE_WAIT H cs = sfc_poll H cs 1 False (spins H)"

definition sfc_write_enable :: "'f nor \<Rightarrow> nat \<Rightarrow> ('f, 'x, unit) sm" where
  "sfc_write_enable H cs =
     thn (sfc_clear H cs)
    (thn (sfc_write_mode cs)
    (thn (reg cs (\<lambda>r. r\<lparr>cmd := (cmd r)(0 := 0x06),
            type_info := (type_info r)(0 := SFC_TYPEINFO 1 SFC_OP_WRITE 0)\<rparr>))
    (thn (sfc_start H cs)
     (sfc_poll H cs 2 True (spins H)))))"

definition sfc_cmd_write :: "'f nor \<Rightarrow> nat \<Rightarrow> u32 \<Rightarrow> u32 \<Rightarrow> u32 \<Rightarrow> ('f, 'x, unit) sm" where
  "sfc_cmd_write H cs c val num =
     thn (sfc_write_enable H cs)
    (thn (sfc_clear H cs)
    (thn (sfc_write_mode cs)
    (thn (reg cs (\<lambda>r.
       let r = r\<lparr>cmd := (cmd r)(0 := c, 1 := val)\<rparr>;
           tmp = SFC_TYPEINFO 1 SFC_OP_WRITE 0 OR push_bit 8 (SFC_TYPEINFO 1 SFC_OP_WRITE 0);
           (r, tmp) = (if num > 1
                       then (r\<lparr>cmd := (cmd r)(2 := drop_bit 8 val)\<rparr>,
                             tmp OR push_bit 16 (SFC_TYPEINFO 1 SFC_OP_WRITE 0))
                       else (r, tmp))
       in r\<lparr>type_info := (type_info r)(0 := tmp)\<rparr>))
    (thn (sfc_start H cs)
     (SFC_WRITE_WAIT H cs)))))"

definition sfc_erase :: "'f nor \<Rightarrow> nat \<Rightarrow> u32 \<Rightarrow> u32 \<Rightarrow> u32 \<Rightarrow> ('f, 'x, unit) sm" where
  "sfc_erase H cs addr c addr_len =
     thn (sfc_write_enable H cs)
    (thn (sfc_clear H cs)
    (thn (sfc_write_mode cs)
    (thn (reg cs (\<lambda>r.
       let tmp = SFC_TYPEINFO 1 SFC_OP_WRITE 0;
           tmp = (if addr_len \<noteq> 0 then tmp OR push_bit 8 (SFC_TYPEINFO addr_len SFC_OP_WRITE 1) else tmp)
       in r\<lparr>cmd := (cmd r)(0 := c, 1 := addr), type_info := (type_info r)(0 := tmp)\<rparr>))
    (thn (sfc_start H cs)
     (SFC_WRITE_WAIT H cs)))))"

text \<open>The data words of a page program: command registers from \<open>k\<close> on.\<close>

definition sfc_put :: "nat \<Rightarrow> u32 \<Rightarrow> u32 \<Rightarrow> sfc \<Rightarrow> sfc" where
  "sfc_put k a n r = r\<lparr>cmd := (cmd r)(k := a),
     type_info := (type_info r)(k div 4 :=
       type_info r (k div 4) OR push_bit (k mod 4 * 8) (SFC_TYPEINFO n SFC_OP_WRITE 0))\<rparr>"

fun sfc_fill :: "nat \<Rightarrow> byte list \<Rightarrow> sfc \<Rightarrow> sfc" where
  "sfc_fill k (a # b # c # d # src) r =
     sfc_fill (k + 1) src (sfc_put k
       (ucast a OR push_bit 8 (ucast b) OR push_bit 16 (ucast c) OR push_bit 24 (ucast d)) 4 r)"
| "sfc_fill k [] r = r"
| "sfc_fill k src r = sfc_put k
     (let a = ucast (src ! 0);
          a = (if length src \<ge> 2 then a OR push_bit 8 (ucast (src ! 1)) else a)
      in if length src > 2 then a OR push_bit 16 (ucast (src ! 2)) else a) (of_nat (length src)) r"

definition sfc_chunk :: "u32 \<Rightarrow> byte list \<Rightarrow> nat" where
  "sfc_chunk addr src =
     (let n = length src; n = (if n > 32 then 32 else n); k = 256 - unat (addr AND 255)
      in if n > k then k else n)"

lemma sfc_chunk_pos: "src \<noteq> [] \<Longrightarrow> 0 < sfc_chunk addr src"
proof -
  have "unat (addr AND 255) < 256"
    using word_and_le1 [of addr 255] by (simp add: word_le_nat_alt)
  then show "src \<noteq> [] \<Longrightarrow> ?thesis" by (simp add: sfc_chunk_def Let_def)
qed

definition sfc_program :: "u32 \<Rightarrow> byte list \<Rightarrow> sfc \<Rightarrow> sfc" where
  "sfc_program addr bs r =
     (let r = r\<lparr>cmd := (cmd r)(0 := (if drop_bit 24 addr \<noteq> 0 then 0x12 else 0x02), 1 := addr)\<rparr>;
          tmp = SFC_TYPEINFO 1 SFC_OP_WRITE 0 OR push_bit 8 (SFC_TYPEINFO 3 SFC_OP_WRITE 1);
          tmp = (if drop_bit 24 addr \<noteq> 0 then tmp + push_bit (3 + 8) 1 else tmp);
          r = r\<lparr>type_info := (type_info r)(0 := tmp)\<rparr>
      in sfc_fill 2 bs r)"

function sfc_write :: "'f nor \<Rightarrow> nat \<Rightarrow> u32 \<Rightarrow> byte list \<Rightarrow> ('f, 'x, unit) sm" where
  "sfc_write H cs addr src =
     (if src = [] then ret ()
      else let n = sfc_chunk addr src
        in thn (sfc_write_enable H cs)
          (thn (sfc_clear H cs)
          (thn (sfc_write_mode cs)
          (thn (reg cs (sfc_program addr (take n src)))
          (thn (sfc_start H cs)
          (thn (SFC_WRITE_WAIT H cs)
           (sfc_write H cs (addr + of_nat n) (drop n src))))))))"
  by auto

termination
  by (relation "measure (\<lambda>(H, cs, addr, src). length src)") (auto simp: sfc_chunk_pos)

declare sfc_write.simps [simp del]

definition sfc_spiread :: "'f nor \<Rightarrow> nat \<Rightarrow> ('f, 'x, unit) sm" where
  "sfc_spiread H cs =
     thn (sfc_clear H cs)
    (thn (sfc_cmdclr cs)
    (thn (reg 0 (\<lambda>r. r\<lparr>cmd_set := cmd_set r OR 1\<rparr>))
    (thn (reg cs (SFC_CMDSET 7))
    (thn (reg cs (\<lambda>r. r\<lparr>cmd := (cmd r)(0 := 0x03),
            type_info := (type_info r)(0 := SFC_TYPEINFO 1 SFC_OP_WRITE 0 OR
              push_bit 8 (SFC_TYPEINFO 3 SFC_OP_WRITE 1))\<rparr>))
     (reg 0 (\<lambda>r. r\<lparr>int_clr := push_bit cs 1\<rparr>))))))"

end
