(* ===== verification/FdlMain.thy ===== *)
theory FdlMain
  imports FdlSfc
begin

text \<open>
  The command loop of the custom loader (custom_fdl/main.c). A received packet lies at the
  start of \<open>packet_temp\<close>; the handlers return the reply code, zero when they have sent a
  reply of their own. The board is the parameter \<open>'f board\<close>: build options, the chip, the
  code that EXEC_DATA calls. The 16 MB from \<open>FW_ADDR\<close> on are the memory-mapped flash, all
  other addresses are the map \<open>ram\<close>. The loader's own variables (\<open>dl_status\<close>,
  \<open>packet_temp\<close>) are fields of the state: a download on top of them is not modelled.
\<close>

unbundle bit_operations_syntax

section \<open>State\<close>

record 'f fdl = "'f sfcst" +
  flash_id :: u32

record 'f board = "'f nor" +
  chip_no :: nat
  chip_id :: u32
  rom :: bool
  with_sfc :: bool
  with_efuse :: bool
  chipram_addr :: u32
  pkt_addr :: u32
  stack :: mem
  call_entry :: "u32 \<Rightarrow> 'f fdl \<Rightarrow> 'f fdl option"
  efuse :: "nat \<Rightarrow> u32 option"

type_synonym ('f, 'a) fm = "('f fdl, 'a) cm"

definition ERASE_CMD :: u32 where "ERASE_CMD = 0x20"
definition ERASE_BLK :: u32 where "ERASE_BLK = 0x1000"

definition FW_ADDR :: "'f board \<Rightarrow> u32" where
  "FW_ADDR B = (if chip_no B \<noteq> 1 then 0x30000000 else 0x10000000)"

definition in_flash :: "'f board \<Rightarrow> u32 \<Rightarrow> bool" where
  "in_flash B a = (drop_bit 24 (a - FW_ADDR B) = 0)"

definition chp :: "'f board \<Rightarrow> 'f nor" where
  "chp B = nor.truncate B"

text \<open>Memory reads and writes of the processor.\<close>

definition ld :: "'f board \<Rightarrow> 'f fdl \<Rightarrow> u32 \<Rightarrow> byte" where
  "ld B s a = (if in_flash B a then peek (chp B) (chip s) (a - FW_ADDR B) else ram s a)"

definition ld_bytes :: "'f board \<Rightarrow> 'f fdl \<Rightarrow> u32 \<Rightarrow> nat \<Rightarrow> byte list" where
  "ld_bytes B s a n = mbytes (ld B s) a n"

text \<open>A word load of the ARM9: from the aligned address, rotated.\<close>

definition ld_word :: "'f board \<Rightarrow> 'f fdl \<Rightarrow> u32 \<Rightarrow> u32" where
  "ld_word B s a = word_rotr (8 * unat (a AND 3))
     (READ32_LE (\<lambda>i. ld B s ((a AND NOT 3) + of_nat i)) 0)"

section \<open>Unlocking the flash\<close>

definition sfc_unlock :: "'f board \<Rightarrow> ('f, unit) fm" where
  "sfc_unlock B = bnd (gets flash_id) (\<lambda>id.
     if NOT id \<noteq> 0 then ret ()
     else bnd (sfc_readid (chp B) 0) (\<lambda>id.
       thn (modify (\<lambda>s. s\<lparr>flash_id := id\<rparr>))
      (let id1 = drop_bit 16 id;
           msk = (if id1 = 0xef \<or> id1 = 0xc8 then 0xfc else 0xbc)
       in thn (if id1 = 0xef \<or> id1 = 0xc8 \<or> id1 = 0xc2 then
           bnd (sfc_read_status (chp B) 0) (\<lambda>sr1.
           bnd (if msk = 0xfc then bnd (sfc_cmd_read (chp B) 0 0x35 1) (\<lambda>v. ret (drop_bit 24 v)) else ret 0) (\<lambda>sr2.
             if id1 = 0xc8 then
               let sr1 = sr1 OR push_bit 8 sr2
               in cwhen (sr1 AND 0x40fc \<noteq> 0) (sfc_cmd_write (chp B) 0 0x01 (sr1 AND NOT 0x40fc) 2)
             else thn (cwhen (sr1 AND msk \<noteq> 0) (sfc_cmd_write (chp B) 0 0x01 (sr1 AND NOT msk) 1))
                      (cwhen (sr2 AND 0x40 \<noteq> 0) (sfc_cmd_write (chp B) 0 0x31 (sr2 AND NOT 0x40) 1))))
         else ret ())
        (sfc_spiread (chp B) 0))))"

section \<open>Downloading\<close>

definition data_start :: "('f, u32) fm" where
  "data_start = (\<lambda>s.
     let len = pkt16 s 2; addr = pkt32 s 4; sz = pkt32 s 8
     in if len \<noteq> 8 then Ret BSL_REP_INVALID_CMD s
        else Ret BSL_REP_ACK (s\<lparr>dl_start := addr, dl_size := sz, dl_recv := 0\<rparr>))"

text \<open>The comparison of \<open>write_and_check\<close>: by words while it can, then by bytes.\<close>

fun cmp_bytes :: "byte list \<Rightarrow> byte list \<Rightarrow> u32" where
  "cmp_bytes (d # ds) (s # ss) = (if d \<noteq> s then 1 else cmp_bytes ds ss)"
| "cmp_bytes _ _ = 0"

fun cmp_words :: "byte list \<Rightarrow> byte list \<Rightarrow> u32" where
  "cmp_words (d0 # d1 # d2 # d3 # ds) (s0 # s1 # s2 # s3 # ss) =
     (if [d0, d1, d2, d3] \<noteq> [s0, s1, s2, s3] then 1 else cmp_words ds ss)"
| "cmp_words ds ss = cmp_bytes ds ss"

definition write_and_check ::
  "'f board \<Rightarrow> nat \<Rightarrow> u32 \<Rightarrow> u32 \<Rightarrow> byte list \<Rightarrow> u32 \<Rightarrow> ('f, u32) fm" where
  "write_and_check B cs addr buf_addr buf fw_addr =
     thn (sfc_write (chp B) cs addr buf)
    (thn (sfc_spiread (chp B) cs)
    (gets (\<lambda>s. let d = ld_bytes B s (fw_addr + addr) (length buf)
               in if (buf_addr OR addr) AND 3 = 0 then cmp_words d buf else cmp_bytes d buf)))"

text \<open>
  Can the bytes be programmed over what the flash holds? A bit that would have to become
  one needs an erase; \<open>diff\<close> collects the bits that change.
\<close>

fun flash_scan :: "(u32 \<Rightarrow> byte) \<Rightarrow> u32 \<Rightarrow> byte list \<Rightarrow> byte \<Rightarrow> bool \<times> byte" where
  "flash_scan rd addr [] diff = (False, diff)"
| "flash_scan rd addr (b # src) diff =
     (let a = rd addr XOR b
      in if a AND b \<noteq> 0 then (True, diff) else flash_scan rd (addr + 1) src (diff OR a))"

text \<open>The block as it is written after an erase, put together in chip RAM.\<close>

definition fill_block :: "'f board \<Rightarrow> u32 \<Rightarrow> byte list \<Rightarrow> ('f, unit) fm" where
  "fill_block B addr src = modify (\<lambda>s.
     let buf = chipram_addr B + 0x9000; blk = ERASE_BLK; n = of_nat (length src);
         s = st_bytes buf (ld_bytes B s (addr AND - blk) (unat (addr AND (blk - 1)))) s;
         addr2 = addr + n;
         s = st_bytes (buf + (addr AND (blk - 1))) src s;
         tmp = - addr2 AND (blk - 1);
         i = dl_start s + dl_size s - addr2;
         i = (if i > tmp then tmp else i);
         tmp = addr2 AND (blk - 1); addr2 = addr2 + i;
         s = st_bytes (buf + tmp) (replicate (unat i) 0xff) s;
         tmp = addr2 AND (blk - 1)
     in st_bytes (buf + tmp) (ld_bytes B s addr2 (unat (- addr2 AND (blk - 1)))) s)"

definition midst_chunk :: "u32 \<Rightarrow> byte list \<Rightarrow> nat" where
  "midst_chunk addr src =
     (let blk = ERASE_BLK; n = unat (blk - (addr AND (blk - 1)))
      in if n > length src then length src else n)"

lemma midst_chunk_pos: "src \<noteq> [] \<Longrightarrow> 0 < midst_chunk addr src"
proof -
  have "addr AND (ERASE_BLK - 1) \<le> ERASE_BLK - 1" by (rule word_and_le1)
  then have "ERASE_BLK - (addr AND (ERASE_BLK - 1)) \<noteq> 0"
    by (auto simp: ERASE_BLK_def)
  then have "0 < unat (ERASE_BLK - (addr AND (ERASE_BLK - 1)))"
    by (simp add: unat_gt_0)
  then show "src \<noteq> [] \<Longrightarrow> ?thesis" by (simp add: midst_chunk_def Let_def)
qed

definition midst_block :: "'f board \<Rightarrow> u32 \<Rightarrow> byte list \<Rightarrow> u32 \<Rightarrow> ('f, u32) fm" where
  "midst_block B addr src src_addr =
     (let cs = 0; fw_addr = FW_ADDR B; blk = ERASE_BLK in
      bnd (gets (\<lambda>s. flash_scan (ld B s) addr src 0)) (\<lambda>(erase, diff).
        if erase then
          let addr2 = (addr AND - blk) - fw_addr; buf = chipram_addr B + 0x9000
          in thn (fill_block B addr src)
            (thn (sfc_erase (chp B) cs addr2 ERASE_CMD 3)
            (bnd (gets (\<lambda>s. ld_bytes B s buf (unat blk))) (\<lambda>data.
             write_and_check B cs addr2 buf data fw_addr)))
        else if diff \<noteq> 0 then write_and_check B cs (addr - fw_addr) src_addr src fw_addr
        else ret 0))"

function midst_flash :: "'f board \<Rightarrow> u32 \<Rightarrow> byte list \<Rightarrow> u32 \<Rightarrow> ('f, u32) fm" where
  "midst_flash B addr src src_addr =
     (if src = [] then ret BSL_REP_ACK
      else let n = midst_chunk addr src
        in bnd (midst_block B addr (take n src) src_addr) (\<lambda>bad.
             if bad \<noteq> 0 then ret BSL_REP_OPERATION_FAILED
             else midst_flash B (addr + of_nat n) (drop n src) (src_addr + of_nat n)))"
  by auto

termination
  by (relation "measure (\<lambda>(B, addr, src, src_addr). length src)") (auto simp: midst_chunk_pos)

declare midst_flash.simps [simp del]

definition data_midst :: "'f board \<Rightarrow> ('f, u32) fm" where
  "data_midst B = (\<lambda>s.
     let len = pkt16 s 2; remain = dl_size s - dl_recv s; src = pkt_data s
     in if len > remain then Ret BSL_REP_DOWN_SIZE_ERROR s
        else let addr = dl_start s + dl_recv s; s = s\<lparr>dl_recv := dl_recv s + len\<rparr>
          in if drop_bit 24 (addr - FW_ADDR B) \<noteq> 0 then Ret BSL_REP_ACK (st_bytes addr src s)
             else if with_sfc B then
               thn sfc_init (thn (sfc_unlock B) (midst_flash B addr src (pkt_addr B + 4))) s
             else Ret BSL_REP_DOWN_SIZE_ERROR s)"

text \<open>The called code is the parameter \<open>call_entry\<close>; when it does not return, the loader is left.\<close>

definition data_exec :: "'f board \<Rightarrow> ('f, u32) fm" where
  "data_exec B = (\<lambda>s.
     let start = dl_start s
     in if start = NOT 0 then Ret BSL_REP_INVALID_CMD s
        else case call_entry B start s of
               Some s \<Rightarrow> Ret BSL_REP_ACK s
             | None \<Rightarrow> err_exit ''exec'' [PI (uint start)] s)"

section \<open>Reading and erasing\<close>

definition dl_read_flash :: "'f board \<Rightarrow> ('f, u32) fm" where
  "dl_read_flash B = (\<lambda>s.
     let len = pkt16 s 2; addr = pkt32 s 4; sz = pkt32 s 8
     in if (len \<noteq> 8 \<and> len \<noteq> 12) \<or> sz \<ge> of_nat MAX_PKT_PAYLOAD then Ret BSL_REP_INVALID_CMD s
        else let offs = (if len = 12 then pkt32 s 12 else -1);
                 addr = (if offs \<noteq> NOT 0 \<and> addr = 0x80000003 then FW_ADDR B + offs else addr)
          in thn (send_reply (rom B) BSL_REP_READ_FLASH (ld_bytes B s addr (unat sz))) (ret 0) s)"

text \<open>\<open>for (i = 0; i < blk; i++) if (~*(uint32_t* )(addr + i)) break;\<close> and \<open>i == blk\<close>.\<close>

definition block_clean :: "'f board \<Rightarrow> 'f fdl \<Rightarrow> u32 \<Rightarrow> bool" where
  "block_clean B s addr = list_all (\<lambda>i. NOT (ld_word B s (addr + of_nat i)) = 0) [0..<unat ERASE_BLK]"

fun erase_loop :: "'f board \<Rightarrow> nat \<Rightarrow> u32 \<Rightarrow> u32 \<Rightarrow> ('f, u32) fm" where
  "erase_loop B 0 addr fin = no_fuel"
| "erase_loop B (Suc k) addr fin =
     bnd (gets (\<lambda>s. block_clean B s addr)) (\<lambda>clean.
     bnd (if \<not> clean then
            thn (sfc_erase (chp B) 0 (addr - FW_ADDR B) ERASE_CMD 3)
           (thn (sfc_spiread (chp B) 0)
            (gets (\<lambda>s. block_clean B s addr)))
          else ret True) (\<lambda>clean.
       if \<not> clean then ret BSL_REP_OPERATION_FAILED
       else let addr = addr + ERASE_BLK
         in if addr \<noteq> fin then erase_loop B k addr fin else ret BSL_REP_ACK))"

definition dl_erase_flash :: "'f board \<Rightarrow> ('f, u32) fm" where
  "dl_erase_flash B = (\<lambda>s.
     let len = pkt16 s 2; addr = pkt32 s 4; sz = pkt32 s 8; blk = ERASE_BLK
     in if len \<noteq> 8 then Ret BSL_REP_INVALID_CMD s
        else if (drop_bit 24 (addr - FW_ADDR B) OR ((addr OR sz) AND (blk - 1))) \<noteq> 0
        then Ret BSL_REP_INVALID_CMD s
        else if sz \<noteq> 0 then
          thn sfc_init (thn (sfc_unlock B)
            (erase_loop B (unat sz div unat blk) addr (addr + sz))) s
        else Ret BSL_REP_ACK s)"

definition EFUSE_MAX :: "'f board \<Rightarrow> nat" where
  "EFUSE_MAX B = (if chip_no B = 1 then 16 else 8)"

text \<open>
  \<open>efuse_read\<close> is the parameter \<open>efuse\<close>: a word, or no answer in time. The words are put into
  the send buffer one by one; those before a fuse that does not answer stay there.
\<close>

definition efuse_got :: "'f board \<Rightarrow> u32 list" where
  "efuse_got B = map the (takeWhile (\<lambda>v. v \<noteq> None) (map (efuse B) [0..<EFUSE_MAX B]))"

definition read_efuse :: "'f board \<Rightarrow> ('f, u32) fm" where
  "read_efuse B = (\<lambda>s.
     if pkt16 s 2 \<noteq> 0 then Ret BSL_REP_INVALID_CMD s
     else if length (efuse_got B) = EFUSE_MAX B then
       thn (send_reply (rom B) BSL_REP_READ_FLASH (concat (map WRITE32_LE (efuse_got B)))) (ret 0) s
     else Ret BSL_REP_OPERATION_FAILED (s\<lparr>packet_temp :=
       blit (blit (packet_temp s) dl_send_buf (WRITE16_BE BSL_REP_READ_FLASH)) (dl_send_buf + 4)
         (concat (map WRITE32_LE (efuse_got B)))\<rparr>))"

section \<open>The command loop\<close>

definition dl_dispatch :: "'f board \<Rightarrow> ('f, u32) fm" where
  "dl_dispatch B = bnd (gets (\<lambda>s. pkt16 s 0)) (\<lambda>type.
     if type = BSL_CMD_CONNECT then ret BSL_REP_ACK
     else if type = BSL_CMD_START_DATA then data_start
     else if type = BSL_CMD_MIDST_DATA then data_midst B
     else if type = BSL_CMD_END_DATA then data_end
     else if type = BSL_CMD_EXEC_DATA then data_exec B
     else if type = BSL_CMD_CHANGE_BAUD then set_baudrate
     else if type = BSL_CMD_READ_FLASH then dl_read_flash B
     else if with_sfc B \<and> type = BSL_CMD_ERASE_FLASH then dl_erase_flash B
     else if with_efuse B \<and> type = 0x6566 then read_efuse B
     else if type = BSL_CMD_KEEP_CHARGE then ret BSL_REP_ACK
     else ret BSL_REP_UNKNOWN_CMD)"

definition dl_handle :: "'f board \<Rightarrow> ('f, unit) fm" where
  "dl_handle B = bnd (dl_dispatch B) (\<lambda>r.
     cwhen (0 < sint r) (modify (dl_send_ack (rom B) (stack B) r)))"

definition dl_loop :: "'f board \<Rightarrow> byte list \<Rightarrow> ('f, unit) fm" where
  "dl_loop B = cmd_loop (rom B) (stack B) (dl_handle B)"

lemma dl_loop_unfold:
  "dl_loop B input s =
     (case dl_get_packet (rom B) (stack B) s input of
        (s, None) \<Rightarrow> Ret () s
      | (s, Some input) \<Rightarrow>
          (case dl_handle B s of
             Ret _ s \<Rightarrow> dl_loop B input s
           | Exit e s \<Rightarrow> Exit e s
           | OutOfFuel s \<Rightarrow> OutOfFuel s))"
  unfolding dl_loop_def by (subst cmd_loop.simps) (rule refl)

definition dl_main :: "'f board \<Rightarrow> byte list \<Rightarrow> ('f, bool) fm" where
  "dl_main B input =
     thn (modify dl_packet_init)
    (thn (modify (\<lambda>s. s\<lparr>dl_start := NOT 0\<rparr>))
    (case dropWhile (\<lambda>ch. ch \<noteq> HDLC_HEADER) input of
       [] \<Rightarrow> ret False
     | _ # input \<Rightarrow>
         thn (send_reply (rom B) BSL_REP_VER (bytes_of (version_string (chip_id B)) @ [0]))
        (thn (dl_loop B input) (ret True))))"

text \<open>
  It does not matter how the incoming bytes are cut into USB transfers: feeding the
  command loop a prefix, and the rest from the state where it blocked, is feeding it
  everything at once, malformed input, error replies and command effects included.
\<close>

lemma dl_loop_append:
  "dl_loop B (xs @ ys) s = bnd (dl_loop B xs) (\<lambda>_. dl_loop B ys) s"
  unfolding dl_loop_def by (rule cmd_loop_append)

end
