(* ===== verification/FdlSpec.thy ===== *)
theory FdlSpec
  imports FdlMain SpdXchg
begin

text \<open>
  What the loader promises, without buffers and framing: an abstract device with a download
  state and a memory (\<open>dl_spec\<close>), and the lemma that the command loop refines it for the
  commands that work on memory. The commands left out of \<open>spec_handles\<close> are the ones that
  program or erase the flash, read the fuses, or run downloaded code.
\<close>

unbundle bit_operations_syntax

section \<open>The abstract device\<close>

type_synonym astate = "u32 \<times> u32 \<times> u32 \<times> (u32 \<Rightarrow> byte)"

definition abs_of :: "'f board \<Rightarrow> 'f fdl \<Rightarrow> astate" where
  "abs_of B s = (dl_start s, dl_size s, dl_recv s, ld B s)"

definition be32 :: "byte list \<Rightarrow> nat \<Rightarrow> u32" where
  "be32 d p = READ32_BE (blit (\<lambda>_. 0) 0 d) p"

text \<open>What a write of \<open>bs\<close> does to a memory that is fixed in the part \<open>F\<close>.\<close>

definition ram_upd :: "(u32 \<Rightarrow> bool) \<Rightarrow> (u32 \<Rightarrow> byte) \<Rightarrow> u32 \<Rightarrow> byte list \<Rightarrow> u32 \<Rightarrow> byte" where
  "ram_upd F m a bs = (\<lambda>x. if F x then m x else mupd m a bs x)"

definition spec_addr :: "'f board \<Rightarrow> u32 \<Rightarrow> u32 \<Rightarrow> u32" where
  "spec_addr B addr offs = (if offs \<noteq> NOT 0 \<and> addr = 0x80000003 then FW_ADDR B + offs else addr)"

text \<open>
  The device: \<open>F\<close> is its memory-mapped flash and \<open>wh\<close> the address an identifier and an offset
  stand for.
\<close>

definition mem_spec :: "(u32 \<Rightarrow> bool) \<Rightarrow> (u32 \<Rightarrow> u32 \<Rightarrow> u32) \<Rightarrow> astate \<Rightarrow> u32 \<Rightarrow> byte list \<Rightarrow> astate \<times> u32 \<times> byte list" where
  "mem_spec F wh c t d = (case c of (start, sz, recv, m) \<Rightarrow>
     if t = BSL_CMD_CONNECT \<or> t = BSL_CMD_KEEP_CHARGE then (c, BSL_REP_ACK, [])
     else if t = BSL_CMD_START_DATA then
       (if length d = 8 then ((be32 d 0, be32 d 4, 0, m), BSL_REP_ACK, [])
        else (c, BSL_REP_INVALID_CMD, []))
     else if t = BSL_CMD_MIDST_DATA then
       (if length d > unat (sz - recv) then (c, BSL_REP_DOWN_SIZE_ERROR, [])
        else ((start, sz, recv + of_nat (length d), ram_upd F m (start + recv) d), BSL_REP_ACK, []))
     else if t = BSL_CMD_END_DATA then
       (c, if sz \<noteq> recv then BSL_REP_DOWN_EARLY_END else BSL_REP_ACK, [])
     else if t = BSL_CMD_CHANGE_BAUD then
       (c, if length d \<noteq> 4 then BSL_REP_INVALID_CMD else BSL_REP_ACK, [])
     else if t = BSL_CMD_READ_FLASH then
       (if (length d = 8 \<or> length d = 12) \<and> unat (be32 d 4) < MAX_PKT_PAYLOAD
        then (c, BSL_REP_READ_FLASH,
              mbytes m (wh (be32 d 0) (if length d = 12 then be32 d 8 else -1)) (unat (be32 d 4)))
        else (c, BSL_REP_INVALID_CMD, []))
     else (c, BSL_REP_UNKNOWN_CMD, []))"

definition mem_handles :: "(u32 \<Rightarrow> bool) \<Rightarrow> (u32 \<Rightarrow> bool) \<Rightarrow> astate \<Rightarrow> u32 \<Rightarrow> byte list \<Rightarrow> bool" where
  "mem_handles others F c t d = (case c of (start, sz, recv, m) \<Rightarrow>
     length d + 6 \<le> MAX_PKT_SIZE \<and> unat t < 65536 \<and> t \<noteq> BSL_CMD_EXEC_DATA \<and> t \<noteq> BSL_CMD_CHECK_BAUD \<and> \<not> others t \<and>
     (t = BSL_CMD_MIDST_DATA \<longrightarrow> length d \<le> unat (sz - recv) \<longrightarrow> \<not> F (start + recv)))"

text \<open>The custom loader; \<open>dl_others\<close> are the commands on the flash and the fuses.\<close>

definition dl_spec :: "'f board \<Rightarrow> astate \<Rightarrow> u32 \<Rightarrow> byte list \<Rightarrow> astate \<times> u32 \<times> byte list" where
  "dl_spec B = mem_spec (in_flash B) (spec_addr B)"

definition dl_others :: "'f board \<Rightarrow> u32 \<Rightarrow> bool" where
  "dl_others B t = ((with_sfc B \<and> t = BSL_CMD_ERASE_FLASH) \<or> (with_efuse B \<and> t = 0x6566))"

definition spec_handles :: "'f board \<Rightarrow> astate \<Rightarrow> u32 \<Rightarrow> byte list \<Rightarrow> bool" where
  "spec_handles B = mem_handles (dl_others B) (in_flash B)"

lemmas dl_spec_defs = dl_spec_def mem_spec_def
lemmas spec_handles_defs = spec_handles_def mem_handles_def dl_others_def

section \<open>Received messages\<close>

text \<open>The packet at the start of the buffer is the message of type \<open>t\<close> with data \<open>d\<close>.\<close>

definition has_msg :: "'x pkt_scheme \<Rightarrow> u32 \<Rightarrow> byte list \<Rightarrow> bool" where
  "has_msg s t d = (mslice (packet_temp s) 0 (4 + length d) = host_msg t d)"

lemma mslice_part:
  assumes "mslice m 0 n = l" "i + k \<le> n"
  shows "mslice m i k = take k (drop i l)"
  using arg_cong [OF assms(1), of "\<lambda>l. take k (drop i l)"] assms(2)
  by (simp add: min_absorb1)

lemma has_msg_type: "has_msg s t d \<Longrightarrow> unat t < 65536 \<Longrightarrow> pkt16 s 0 = t"
  unfolding pkt16_def has_msg_def
  by (rule READ16_BE_mslice [where p = "[]"])
    (simp_all add: mslice_part [of _ "4 + length d" "host_msg t d" 0 2] host_msg_def)

lemma has_msg_len:
  assumes "has_msg s t d" "length d \<le> 0xffff"
  shows "pkt16 s 2 = of_nat (length d)" "pkt_data s = d"
proof -
  have "mslice (packet_temp s) 0 (2 + 2) = take (2 + 2) (drop 0 (host_msg t d))"
    using assms(1) unfolding has_msg_def by (rule mslice_part) simp
  then have "mslice (packet_temp s) 0 (2 + 2) = WRITE16_BE t @ WRITE16_BE (of_nat (length d))"
    by (simp add: host_msg_def)
  moreover have "unat (of_nat (length d) :: u32) < 65536" using assms(2) by (simp add: unat_of_nat)
  ultimately show len: "pkt16 s 2 = of_nat (length d)"
    unfolding pkt16_def by (intro READ16_BE_mslice [where p = "WRITE16_BE t"]) simp_all
  have "mslice (packet_temp s) 4 (length d) = take (length d) (drop 4 (host_msg t d))"
    using assms(1) unfolding has_msg_def by (rule mslice_part) simp
  moreover have "unat (of_nat (length d) :: u32) = length d" using assms(2) by (simp add: unat_of_nat)
  ultimately show "pkt_data s = d" by (simp add: pkt_data_def len host_msg_def)
qed

lemma READ32_BE_cong:
  "(\<And>i. p \<le> i \<Longrightarrow> i < p + 4 \<Longrightarrow> m i = m' (i - p + p')) \<Longrightarrow> READ32_BE m p = READ32_BE m' p'"
  by (simp add: READ32_BE_def add.commute)

lemma nth_host_msg: "4 \<le> i \<Longrightarrow> host_msg t d ! i = d ! (i - 4)"
  using nth_append_right [of "WRITE16_BE t @ WRITE16_BE (of_nat (length d))" i d]
  by (simp add: host_msg_def)

lemma has_msg_word:
  assumes "has_msg s t d" "k + 4 \<le> length d"
  shows "pkt32 s (4 + k) = be32 d k"
  unfolding pkt32_def be32_def
proof (rule READ32_BE_cong)
  fix i assume i: "4 + k \<le> i" "i < 4 + k + 4"
  have "packet_temp s i = mslice (packet_temp s) 0 (4 + length d) ! i"
    using i assms(2) by simp
  also have "\<dots> = d ! (i - 4)"
    using assms(1) i by (simp add: has_msg_def nth_host_msg)
  finally have "packet_temp s i = d ! (i - 4)" .
  moreover have "i - (4 + k) + k = i - 4" "i - 4 < length d" using i assms(2) by linarith+
  ultimately show "packet_temp s i = blit (\<lambda>_. 0) 0 d (i - (4 + k) + k)"
    by (simp add: blit_def)
qed

section \<open>Replies\<close>

lemma send_reply_ok:
  assumes "length d \<le> MAX_PKT_PAYLOAD"
  shows "\<exists>m. send_reply r t d s =
    Ret () (s\<lparr>packet_temp := m, tx := tx s @ [dl_frame r (host_msg t d)]\<rparr>)"
proof -
  let ?m0 = "packet_temp s"
  define m where "m = blit (blit (blit ?m0 dl_send_buf (WRITE16_BE t)) (dl_send_buf + 2)
      (WRITE16_BE (of_nat (length d)))) (dl_send_buf + 4) d"
  have m: "m = blit ?m0 dl_send_buf (host_msg t d)"
    using blit_append [of ?m0 dl_send_buf "WRITE16_BE t" "WRITE16_BE (of_nat (length d))"]
      blit_append [of ?m0 dl_send_buf "WRITE16_BE t @ WRITE16_BE (of_nat (length d))" d]
    by (simp add: m_def host_msg_def)
  have le: "length d \<le> 0xffff" using assms by (simp add: MAX_PKT_PAYLOAD_def MAX_PKT_SIZE_def)
  have u: "unat (of_nat (length d) :: u32) = length d" using le by (simp add: unat_of_nat)
  have "READ16_BE m (dl_send_buf + 2) = of_nat (length d)"
  proof -
    have "m = blit (blit (blit ?m0 dl_send_buf (WRITE16_BE t)) (dl_send_buf + 4) d) (dl_send_buf + 2)
        (WRITE16_BE (of_nat (length d)))"
      unfolding m_def by (rule ext) (auto simp: blit_def)
    then show ?thesis using READ16_BE_WRITE [of "of_nat (length d)"] le
      by (simp add: word_less_nat_alt u)
  qed
  then have "pkt_at m dl_send_buf = host_msg t d" "unat (READ16_BE m (dl_send_buf + 2)) + 7 \<le> dl_send_buf"
    using mslice_blit_same [of ?m0 dl_send_buf "host_msg t d"] assms
    by (simp_all add: pkt_at_def u m add.commute dl_send_buf_def MAX_PKT_PAYLOAD_def MAX_PKT_SIZE_def)
  then show ?thesis
    using dl_send_packet_tx [of "s\<lparr>packet_temp := m\<rparr>" dl_send_buf r]
    by (auto simp: send_reply_def modify_def m_def Let_def)
qed

lemma dl_frame_reply:
  "fl AND FLAGS_TRANSCODE \<noteq> 0 \<Longrightarrow> rm = (fl AND FLAGS_CRC16 \<noteq> 0) \<Longrightarrow>
     dl_frame rm (host_msg t d) = host_frame fl (reply_pkt fl t d)"
  by (simp add: dl_frame_def host_frame_def wire_def reply_pkt_def reply_sum_def dl_sum_def
      spd_checksum_reply dl_crc16_eq)

section \<open>Refinement\<close>

lemma ld_upd [simp]:
  "ld B (s\<lparr>packet_temp := m\<rparr>) = ld B s" "ld B (s\<lparr>tx := out\<rparr>) = ld B s"
  "ld B (s\<lparr>rx := r\<rparr>) = ld B s" "ld B (s\<lparr>opens := op\<rparr>) = ld B s"
  "ld B (s\<lparr>dl_start := a\<rparr>) = ld B s" "ld B (s\<lparr>dl_size := a\<rparr>) = ld B s"
  "ld B (s\<lparr>dl_recv := a\<rparr>) = ld B s"
  by (auto simp: ld_def fun_eq_iff)

lemma ld_st_bytes [simp]: "ld B (st_bytes a bs s) = ram_upd (in_flash B) (ld B s) a bs"
  by (auto simp: ld_def st_bytes_def ram_upd_def mupd_def fun_eq_iff)

lemma abs_of_upd [simp]:
  "abs_of B (s\<lparr>packet_temp := m\<rparr>) = abs_of B s" "abs_of B (s\<lparr>tx := out\<rparr>) = abs_of B s"
  "abs_of B (s\<lparr>rx := r\<rparr>) = abs_of B s" "abs_of B (s\<lparr>opens := op\<rparr>) = abs_of B s"
  by (simp_all add: abs_of_def)

text \<open>What the handling \<open>H\<close> of a message has to achieve.\<close>

definition refines_by :: "bool \<Rightarrow> ('x pkt_scheme, unit) cm \<Rightarrow> ('x pkt_scheme \<Rightarrow> 'c) \<Rightarrow> 'x pkt_scheme \<Rightarrow>
    'c \<times> u32 \<times> byte list \<Rightarrow> bool" where
  "refines_by r H av s res = (case res of (c', rt, rd) \<Rightarrow>
     \<exists>s'. H s = Ret () s' \<and> av s' = c' \<and> rx s' = rx s \<and> tx s' = tx s @ [dl_frame r (host_msg rt rd)])"

text \<open>A handler sends what its dispatcher \<open>D\<close> returns, or else \<open>D\<close> has sent a reply.\<close>

lemma refines_by_ack:
  assumes "D s = Ret c u" "0 < sint c" "av u = c'" "rx u = rx s" "tx u = tx s"
    and "\<And>out. av (u\<lparr>tx := out\<rparr>) = av u"
  shows "refines_by r (bnd D (\<lambda>c. cwhen (0 < sint c) (modify (dl_send_ack r stk c)))) av s (c', c, [])"
  using assms by (simp add: refines_by_def bnd_def cwhen_def modify_def dl_send_ack_tx host_msg_def)

lemma refines_by_reply:
  assumes "D s = thn (send_reply r rt rd) (ret 0) s" "length rd \<le> MAX_PKT_PAYLOAD"
    and "\<And>m out. av (s\<lparr>packet_temp := m, tx := out\<rparr>) = c'"
  shows "refines_by r (bnd D (\<lambda>c. cwhen (0 < sint c) (modify (dl_send_ack r stk c)))) av s (c', rt, rd)"
proof -
  obtain m where "send_reply r rt rd s = Ret () (s\<lparr>packet_temp := m, tx := tx s @ [dl_frame r (host_msg rt rd)]\<rparr>)"
    using send_reply_ok [OF assms(2)] by blast
  then show ?thesis
    using assms(1,3) by (simp add: refines_by_def bnd_def thn_def cwhen_def ret_def)
qed

abbreviation refines :: "'f board \<Rightarrow> 'f fdl \<Rightarrow> astate \<times> u32 \<times> byte list \<Rightarrow> bool" where
  "refines B \<equiv> refines_by (rom B) (dl_handle B) (abs_of B)"

lemma refines_ack:
  assumes "dl_dispatch B s = Ret r s1" "0 < sint r" "abs_of B s1 = c'" "rx s1 = rx s" "tx s1 = tx s"
  shows "refines B s (c', r, [])"
  unfolding dl_handle_def by (rule refines_by_ack [where u = s1]) (use assms in simp_all)

lemma refines_reply:
  assumes "dl_dispatch B s = thn (send_reply (rom B) rt rd) (ret 0) s" "length rd \<le> MAX_PKT_PAYLOAD"
    and "abs_of B s = c'"
  shows "refines B s (c', rt, rd)"
  unfolding dl_handle_def by (rule refines_by_reply) (use assms in simp_all)

lemma of_nat_eq_small:
  "length d \<le> 0xffff \<Longrightarrow> (of_nat (length d) = (n :: u32)) = (length d = unat n)"
  by (simp add: word_unat_eq_iff unat_of_nat)

lemma sint_ack:
  "0 < sint BSL_REP_ACK" "0 < sint BSL_REP_INVALID_CMD" "0 < sint BSL_REP_DOWN_SIZE_ERROR"
  "0 < sint BSL_REP_DOWN_EARLY_END" "0 < sint BSL_REP_UNKNOWN_CMD"
  by (simp_all add: BSL_REP_ACK_def BSL_REP_INVALID_CMD_def BSL_REP_DOWN_SIZE_ERROR_def
      BSL_REP_DOWN_EARLY_END_def BSL_REP_UNKNOWN_CMD_def)

lemma dl_dispatch_run:
  "pkt16 s 0 = t \<Longrightarrow> dl_dispatch B s =
    (if t = BSL_CMD_CONNECT then ret BSL_REP_ACK
     else if t = BSL_CMD_START_DATA then data_start
     else if t = BSL_CMD_MIDST_DATA then data_midst B
     else if t = BSL_CMD_END_DATA then data_end
     else if t = BSL_CMD_EXEC_DATA then data_exec B
     else if t = BSL_CMD_CHANGE_BAUD then set_baudrate
     else if t = BSL_CMD_READ_FLASH then dl_read_flash B
     else if with_sfc B \<and> t = BSL_CMD_ERASE_FLASH then dl_erase_flash B
     else if with_efuse B \<and> t = 0x6566 then read_efuse B
     else if t = BSL_CMD_KEEP_CHARGE then ret BSL_REP_ACK
     else ret BSL_REP_UNKNOWN_CMD) s"
  unfolding dl_dispatch_def bnd_def gets_def by simp

lemma read_flash_refines:
  assumes "has_msg s t d" "length d + 6 \<le> MAX_PKT_SIZE" "pkt16 s 0 = BSL_CMD_READ_FLASH"
    and "t = BSL_CMD_READ_FLASH"
  shows "refines B s (dl_spec B (abs_of B s) t d)"
proof -
  have l: "length d \<le> 0xffff" using assms(2) by (simp add: MAX_PKT_SIZE_def)
  note len = has_msg_len [OF assms(1) l] and eq = of_nat_eq_small [OF l]
  have disp: "dl_dispatch B s = dl_read_flash B s"
    by (simp add: dl_dispatch_run [OF assms(3)] cmd_defs)
  have spec: "dl_spec B (abs_of B s) t d =
      (if (length d = 8 \<or> length d = 12) \<and> unat (be32 d 4) < MAX_PKT_PAYLOAD
       then (abs_of B s, BSL_REP_READ_FLASH, mbytes (ld B s)
              (spec_addr B (be32 d 0) (if length d = 12 then be32 d 8 else -1)) (unat (be32 d 4)))
       else (abs_of B s, BSL_REP_INVALID_CMD, []))"
    by (simp add: assms(4) dl_spec_defs abs_of_def cmd_defs)
  have pay: "(of_nat MAX_PKT_PAYLOAD \<le> x) = (\<not> unat x < MAX_PKT_PAYLOAD)" for x :: u32
    by (simp add: word_le_nat_alt MAX_PKT_PAYLOAD_def MAX_PKT_SIZE_def not_less)
  show ?thesis
  proof (cases "length d = 8 \<or> length d = 12")
    case True
    then have w: "pkt32 s 4 = be32 d 0" "pkt32 s 8 = be32 d 4" "length d = 12 \<Longrightarrow> pkt32 s 12 = be32 d 8"
      using has_msg_word [OF assms(1), of 0] has_msg_word [OF assms(1), of 4]
        has_msg_word [OF assms(1), of 8] by auto
    define offs where "offs = (if length d = 12 then be32 d 8 else -1)"
    have o: "(if of_nat (length d) = (12 :: u32) then pkt32 s 12 else - 1) = offs"
      using w(3) eq [of 12] by (simp add: offs_def)
    have c: "(of_nat (length d) \<noteq> (8 :: u32) \<and> of_nat (length d) \<noteq> (12 :: u32)) = False"
      using True eq [of 8] eq [of 12] by auto
    show ?thesis
    proof (cases "unat (be32 d 4) < MAX_PKT_PAYLOAD")
      case True
      then have "dl_dispatch B s = thn (send_reply (rom B) BSL_REP_READ_FLASH
          (mbytes (ld B s) (spec_addr B (be32 d 0) offs) (unat (be32 d 4)))) (ret 0) s"
        unfolding disp dl_read_flash_def Let_def len w(1,2) o c pay
        by (simp add: spec_addr_def ld_bytes_def)
      then have "refines B s (abs_of B s, BSL_REP_READ_FLASH,
          mbytes (ld B s) (spec_addr B (be32 d 0) offs) (unat (be32 d 4)))"
        using True by (intro refines_reply) simp_all
      then show ?thesis using True \<open>length d = 8 \<or> length d = 12\<close> by (simp add: spec offs_def)
    next
      case False
      then have "dl_dispatch B s = Ret BSL_REP_INVALID_CMD s"
        unfolding disp dl_read_flash_def Let_def w(2) pay by simp
      then have "refines B s (abs_of B s, BSL_REP_INVALID_CMD, [])"
        by (rule refines_ack) (simp_all add: sint_ack)
      then show ?thesis using False by (simp add: spec)
    qed
  next
    case False
    then have "dl_dispatch B s = Ret BSL_REP_INVALID_CMD s"
      unfolding disp dl_read_flash_def Let_def len using eq [of 8] eq [of 12] by simp
    then have "refines B s (abs_of B s, BSL_REP_INVALID_CMD, [])"
      by (rule refines_ack) (simp_all add: sint_ack)
    then show ?thesis using False by (simp add: spec)
  qed
qed

lemma start_data_refines:
  assumes "has_msg s t d" "length d + 6 \<le> MAX_PKT_SIZE" "pkt16 s 0 = BSL_CMD_START_DATA"
    and "t = BSL_CMD_START_DATA"
  shows "refines B s (dl_spec B (abs_of B s) t d)"
proof -
  have l: "length d \<le> 0xffff" using assms(2) by (simp add: MAX_PKT_SIZE_def)
  note len = has_msg_len [OF assms(1) l] and eq = of_nat_eq_small [OF l, of 8]
  have disp: "dl_dispatch B s = data_start s"
    by (simp add: dl_dispatch_run [OF assms(3)] cmd_defs)
  show ?thesis
  proof (cases "length d = 8")
    case True
    then have w: "pkt32 s 4 = be32 d 0" "pkt32 s 8 = be32 d 4"
      using has_msg_word [OF assms(1), of 0] has_msg_word [OF assms(1), of 4] by auto
    have "dl_dispatch B s = Ret BSL_REP_ACK (s\<lparr>dl_start := be32 d 0, dl_size := be32 d 4, dl_recv := 0\<rparr>)"
      unfolding disp data_start_def Let_def len w using True eq by simp
    then show ?thesis
      using True by (auto intro!: refines_ack simp: sint_ack assms(4) dl_spec_defs abs_of_def cmd_defs)
  next
    case False
    then have "dl_dispatch B s = Ret BSL_REP_INVALID_CMD s"
      unfolding disp data_start_def Let_def len using eq by simp
    then show ?thesis
      using False by (auto intro!: refines_ack simp: sint_ack assms(4) dl_spec_defs abs_of_def cmd_defs)
  qed
qed

lemma midst_data_refines:
  assumes "has_msg s t d" "spec_handles B (abs_of B s) t d" "pkt16 s 0 = BSL_CMD_MIDST_DATA"
    and "t = BSL_CMD_MIDST_DATA"
  shows "refines B s (dl_spec B (abs_of B s) t d)"
proof -
  have l: "length d \<le> 0xffff" using assms(2) by (simp add: MAX_PKT_SIZE_def spec_handles_defs abs_of_def)
  note len = has_msg_len [OF assms(1) l]
  have u: "unat (of_nat (length d) :: u32) = length d" using l by (simp add: unat_of_nat)
  have disp: "dl_dispatch B s = data_midst B s"
    by (simp add: dl_dispatch_run [OF assms(3)] cmd_defs)
  have cmp: "(of_nat (length d) > dl_size s - dl_recv s) = (length d > unat (dl_size s - dl_recv s))"
    by (simp add: word_less_nat_alt u)
  show ?thesis
  proof (cases "length d > unat (dl_size s - dl_recv s)")
    case True
    then have "dl_dispatch B s = Ret BSL_REP_DOWN_SIZE_ERROR s"
      unfolding disp data_midst_def Let_def len cmp by simp
    then show ?thesis
      using True by (auto intro!: refines_ack simp: sint_ack assms(4) dl_spec_defs abs_of_def cmd_defs)
  next
    case False
    then have nf: "\<not> in_flash B (dl_start s + dl_recv s)"
      using assms(2,4) by (simp add: spec_handles_defs abs_of_def)
    then have "dl_dispatch B s = Ret BSL_REP_ACK
        (st_bytes (dl_start s + dl_recv s) d (s\<lparr>dl_recv := dl_recv s + of_nat (length d)\<rparr>))"
      using False unfolding disp data_midst_def Let_def len cmp by (simp add: in_flash_def)
    moreover have "dl_spec B (abs_of B s) t d =
        (abs_of B (st_bytes (dl_start s + dl_recv s) d (s\<lparr>dl_recv := dl_recv s + of_nat (length d)\<rparr>)),
         BSL_REP_ACK, [])"
      using False unfolding abs_of_def ld_st_bytes
      by (simp add: assms(4) dl_spec_defs cmd_defs st_bytes_def)
    ultimately show ?thesis
      by (auto intro!: refines_ack simp: sint_ack st_bytes_def)
  qed
qed

lemma dl_handle_refines:
  assumes "has_msg s t d" "spec_handles B (abs_of B s) t d"
  shows "refines B s (dl_spec B (abs_of B s) t d)"
proof -
  have sh: "length d + 6 \<le> MAX_PKT_SIZE" "unat t < 65536" "t \<noteq> BSL_CMD_EXEC_DATA"
    "\<not> (with_sfc B \<and> t = BSL_CMD_ERASE_FLASH)" "\<not> (with_efuse B \<and> t = 0x6566)"
    using assms(2) by (simp_all add: spec_handles_defs abs_of_def)
  have ty: "pkt16 s 0 = t" using has_msg_type [OF assms(1) sh(2)] .
  have l: "length d \<le> 0xffff" using sh(1) by (simp add: MAX_PKT_SIZE_def)
  note len = has_msg_len [OF assms(1) l] and eq = of_nat_eq_small [OF l, of 4]
  note run = dl_dispatch_run [OF ty]
  consider "t = BSL_CMD_READ_FLASH" | "t = BSL_CMD_START_DATA" | "t = BSL_CMD_MIDST_DATA"
    | "t = BSL_CMD_END_DATA" | "t = BSL_CMD_CHANGE_BAUD" | "t = BSL_CMD_CONNECT \<or> t = BSL_CMD_KEEP_CHARGE"
    | "t \<noteq> BSL_CMD_READ_FLASH" "t \<noteq> BSL_CMD_START_DATA" "t \<noteq> BSL_CMD_MIDST_DATA" "t \<noteq> BSL_CMD_END_DATA"
      "t \<noteq> BSL_CMD_CHANGE_BAUD" "t \<noteq> BSL_CMD_CONNECT" "t \<noteq> BSL_CMD_KEEP_CHARGE" by blast
  then show ?thesis
  proof cases
    case 1
    then show ?thesis using read_flash_refines [OF assms(1) sh(1)] ty by simp
  next
    case 2
    then show ?thesis using start_data_refines [OF assms(1) sh(1)] ty by simp
  next
    case 3
    then show ?thesis using midst_data_refines [OF assms] ty by simp
  next
    case 4
    then have "dl_dispatch B s = data_end s" by (simp add: run cmd_defs)
    then show ?thesis
      using 4 by (auto intro!: refines_ack simp: data_end_def sint_ack dl_spec_defs abs_of_def cmd_defs)
  next
    case 5
    then have d: "dl_dispatch B s = set_baudrate s" by (simp add: run cmd_defs)
    show ?thesis
    proof (cases "length d = 4")
      case True
      then have "dl_dispatch B s = Ret BSL_REP_ACK (s\<lparr>opens := opens s @ [pkt32 s 4]\<rparr>)"
        unfolding d set_baudrate_def len using eq by simp
      then have "refines B s (abs_of B s, BSL_REP_ACK, [])"
        by (rule refines_ack) (simp_all add: sint_ack)
      then show ?thesis using 5 True by (simp add: dl_spec_defs abs_of_def cmd_defs)
    next
      case False
      then have "dl_dispatch B s = Ret BSL_REP_INVALID_CMD s"
        unfolding d set_baudrate_def len using eq by simp
      then have "refines B s (abs_of B s, BSL_REP_INVALID_CMD, [])"
        by (rule refines_ack) (simp_all add: sint_ack)
      then show ?thesis using 5 False by (simp add: dl_spec_defs abs_of_def cmd_defs)
    qed
  next
    case 6
    then have "dl_dispatch B s = Ret BSL_REP_ACK s" by (auto simp: run cmd_defs ret_def)
    then have "refines B s (abs_of B s, BSL_REP_ACK, [])"
      by (rule refines_ack) (simp_all add: sint_ack)
    then show ?thesis using 6 by (auto simp: dl_spec_defs abs_of_def)
  next
    case 7
    then have "dl_dispatch B s = Ret BSL_REP_UNKNOWN_CMD s"
      using sh(3-5) by (auto simp: run ret_def)
    then have "refines B s (abs_of B s, BSL_REP_UNKNOWN_CMD, [])"
      by (rule refines_ack) (simp_all add: sint_ack)
    then show ?thesis using 7 by (simp add: dl_spec_defs abs_of_def)
  qed
qed

end
