(* ===== verification/Wire.thy ===== *)
theory Wire
  imports SpdCmd FdlSpec
begin

text \<open>
  The dumper and a loader on the two ends of a USB cable. The device state is the loader with
  what it has sent and the host has not read yet, and a schedule of the sizes in which reads
  are cut. The locale \<open>wired\<close> asks of a loader that the handling of a message refines the
  abstract device; it is an instance of the interface \<open>loader\<close>, so that the commands of the
  dumper are correct against it whatever the schedule. Both loaders are interpretations.
\<close>

unbundle bit_operations_syntax

section \<open>The cable\<close>

record 's link =
  fdl :: 's
  toward :: "byte list"
  sched :: "nat list"

definition link_pending :: "'x pkt_scheme link \<Rightarrow> byte list" where
  "link_pending d = toward d @ concat (tx (fdl d))"

definition wire_flags :: "bool \<Rightarrow> u32" where
  "wire_flags r = (if r then FLAGS_TRANSCODE OR FLAGS_CRC16 else FLAGS_TRANSCODE)"

definition link_in :: "nat \<Rightarrow> 'x pkt_scheme link \<Rightarrow> int \<times> byte list \<times> 'x pkt_scheme link" where
  "link_in n d =
     (let p = link_pending d; k = (case sched d of [] \<Rightarrow> n | k # _ \<Rightarrow> max 1 (min k n))
      in if p = [] then (LIBUSB_ERROR_TIMEOUT, [], d)
         else (0, take k p, d\<lparr>toward := drop k p, fdl := (fdl d)\<lparr>tx := []\<rparr>, sched := tl (sched d)\<rparr>))"

text \<open>\<open>L\<close> is the command loop of the loader.\<close>

definition link_out :: "(byte list \<Rightarrow> ('s, unit) cm) \<Rightarrow> byte list \<Rightarrow> 's link \<Rightarrow> int \<times> nat \<times> 's link" where
  "link_out L bs d =
     (case L bs (fdl d) of
        Ret _ s \<Rightarrow> (0, length bs, d\<lparr>fdl := s\<rparr>)
      | Exit _ s \<Rightarrow> (LIBUSB_ERROR_NO_DEVICE, 0, d\<lparr>fdl := s\<rparr>)
      | OutOfFuel s \<Rightarrow> (LIBUSB_ERROR_TIMEOUT, 0, d\<lparr>fdl := s\<rparr>))"

definition wire_usb :: "(byte list \<Rightarrow> ('x pkt_scheme, unit) cm) \<Rightarrow> 'x pkt_scheme link usb" where
  "wire_usb L = \<lparr>bulk_out = (\<lambda>_ bs _ d. link_out L bs d), bulk_in = (\<lambda>_ n _ d. link_in n d),
     control_out = (\<lambda>_ _ d. (0, d)), error_name = (\<lambda>_. ''''), rounds = 131084\<rparr>"

section \<open>Messages through a loader\<close>

lemma cmd_loop_Nil [simp]: "cmd_loop r stk H [] s = Ret () s"
  by (simp add: cmd_loop.simps)

lemma host_pkt_wf:
  "length d + 6 \<le> MAX_PKT_SIZE \<Longrightarrow> dl_wf (fl AND FLAGS_CRC16 \<noteq> 0) (host_pkt fl t d)"
  using host_pkt_len_ok [of d fl t] dl_crc16_residue [of "host_msg t d"]
    dl_fastchk16_residue [of "host_msg t d"]
  by (simp add: dl_wf_def dl_chk_def host_pkt_def host_sum_def MAX_PKT_SIZE_def)

lemma wire_flags:
  "wire_flags r AND FLAGS_TRANSCODE \<noteq> 0" "(wire_flags r AND FLAGS_CRC16 \<noteq> 0) = r"
  by (simp_all add: wire_flags_def FLAGS_TRANSCODE_def FLAGS_CRC16_def)

lemma cmd_loop_msg:
  assumes "rx s = rx_init" "length d + 6 \<le> MAX_PKT_SIZE"
  shows "\<exists>m. cmd_loop r stk H (host_frame (wire_flags r) (host_pkt (wire_flags r) t d)) s =
      H (s\<lparr>packet_temp := m, rx := rx_init\<rparr>) \<and>
    has_msg (s\<lparr>packet_temp := m, rx := rx_init\<rparr>) t d"
proof -
  let ?q = "host_pkt (wire_flags r) t d"
  have wf: "dl_wf r ?q" using host_pkt_wf [OF assms(2), of "wire_flags r" t] by (simp add: wire_flags)
  obtain m where m: "dl_get_packet r stk s (HDLC_HEADER # spd_transcode ?q @ [HDLC_HEADER]) =
      (s\<lparr>packet_temp := m, rx := rx_init\<rparr>, Some [])" "mslice m 0 (length ?q) = ?q"
    using dl_get_packet_ok [OF wf assms(1), of stk "[]"] by auto
  have f: "host_frame (wire_flags r) ?q = HDLC_HEADER # spd_transcode ?q @ [HDLC_HEADER]"
    by (simp add: host_frame_def wire_def wire_flags)
  have "cmd_loop r stk H (host_frame (wire_flags r) ?q) s = H (s\<lparr>packet_temp := m, rx := rx_init\<rparr>)"
    unfolding f cmd_loop.simps [of _ _ _ _ s] m(1) by (simp split: outcome.split)
  moreover have "mslice m 0 (4 + length d) = take (4 + length d) (drop 0 ?q)"
    using m(2) by (intro mslice_part) (simp, arith)
  then have "has_msg (s\<lparr>packet_temp := m, rx := rx_init\<rparr>) t d"
    by (simp add: has_msg_def host_pkt_def)
  ultimately show ?thesis by blast
qed

lemma be32_at:
  assumes "take 4 (drop p d) = WRITE32_BE a"
  shows "be32 d p = a"
  unfolding be32_def
proof (rule READ32_BE_mslice)
  have "p + 4 \<le> length d" using arg_cong [OF assms, of length] by simp
  then have "mslice (blit (\<lambda>_. 0) 0 d) p 4 = take 4 (drop p d)"
    by (intro mslice_part) simp_all
  then show "mslice (blit (\<lambda>_. 0) 0 d) p 4 = WRITE32_BE a" using assms by simp
qed

lemma be32_0: "be32 (WRITE32_BE a @ r) 0 = a"
  by (rule be32_at) simp

lemma be32_4: "be32 (WRITE32_BE a @ WRITE32_BE b @ r) 4 = b"
  by (rule be32_at) simp

lemma be32_8: "be32 (WRITE32_BE a @ WRITE32_BE b @ WRITE32_BE c) 8 = c"
  by (rule be32_at) simp

lemma be32_4_end: "be32 (WRITE32_BE a @ WRITE32_BE b) 4 = b"
  by (rule be32_at) simp

lemmas be32_words = be32_0 be32_4 be32_8 be32_4_end

lemma ram_upd_writable:
  assumes "\<forall>i < length bs. \<not> F (a + of_nat i)"
  shows "ram_upd F m a bs = mupd m a bs"
proof
  fix x
  have "\<not> F x" if "unat (x - a) < length bs"
  proof -
    have "\<not> F (a + of_nat (unat (x - a)))" using assms that by blast
    then show ?thesis by simp
  qed
  then show "ram_upd F m a bs x = mupd m a bs x" by (auto simp: ram_upd_def mupd_def)
qed

definition st_dlst :: "astate \<Rightarrow> u32 \<times> u32 \<times> u32" where
  "st_dlst c = (case c of (start, sz, recv, m) \<Rightarrow> (start, sz, recv))"

definition st_memory :: "astate \<Rightarrow> u32 \<Rightarrow> byte" where
  "st_memory c = (case c of (start, sz, recv, m) \<Rightarrow> m)"

lemmas spec_simps = mem_spec_def mem_handles_def st_dlst_def st_memory_def cmd_defs

section \<open>A loader on the cable\<close>

text \<open>
  \<open>H\<close> handles a message, \<open>av\<close> is the download state and memory, \<open>good\<close> what else has to hold
  between two messages; \<open>others\<close>, \<open>F\<close> and \<open>wh\<close> are the parameters of the abstract device.
\<close>

locale wired =
  fixes r :: bool and stk :: mem and H :: "('x pkt_scheme, unit) cm"
    and av :: "'x pkt_scheme \<Rightarrow> astate" and good :: "'x pkt_scheme \<Rightarrow> bool"
    and others :: "u32 \<Rightarrow> bool" and F :: "u32 \<Rightarrow> bool" and wh :: "u32 \<Rightarrow> u32 \<Rightarrow> u32"
  assumes handled: "has_msg s t d \<Longrightarrow> good s \<Longrightarrow> mem_handles others F (av s) t d \<Longrightarrow> mem_spec F wh (av s) t d = (c, rt, rd) \<Longrightarrow>
      refines_by r H (\<lambda>s. (av s, good s)) s ((c, True), rt, rd)"
    and frame: "av (s\<lparr>packet_temp := m, rx := x\<rparr>) = av s" "good (s\<lparr>packet_temp := m, rx := x\<rparr>) = good s"
      "av (s\<lparr>tx := out\<rparr>) = av s" "good (s\<lparr>tx := out\<rparr>) = good s"
    and no_others: "\<not> others BSL_CMD_START_DATA" "\<not> others BSL_CMD_MIDST_DATA" "\<not> others BSL_CMD_END_DATA"
      "\<not> others BSL_CMD_READ_FLASH"
begin

definition core :: "'x pkt_scheme link \<Rightarrow> astate" where "core d = av (fdl d)"

definition ready :: "'x pkt_scheme link \<Rightarrow> bool" where "ready d = (rx (fdl d) = rx_init \<and> good (fdl d))"

lemma link_in_some:
  assumes "link_pending d \<noteq> []" "0 < n"
  shows "\<exists>bs d'. link_in n d = (0, bs, d') \<and> bs \<noteq> [] \<and> link_pending d = bs @ link_pending d' \<and>
    core d' = core d \<and> ready d' = ready d"
proof -
  define k where "k = (case sched d of [] \<Rightarrow> n | k # _ \<Rightarrow> max 1 (min k n))"
  let ?d' = "d\<lparr>toward := drop k (link_pending d), fdl := (fdl d)\<lparr>tx := []\<rparr>, sched := tl (sched d)\<rparr>"
  have "0 < k" using assms(2) by (auto simp: k_def less_max_iff_disj split: list.split)
  then have "take k (link_pending d) \<noteq> []" using assms(1) by simp
  moreover have "link_in n d = (0, take k (link_pending d), ?d')"
    using assms(1) by (simp add: link_in_def k_def Let_def)
  moreover have "link_pending d = take k (link_pending d) @ link_pending ?d'"
    by (simp add: link_pending_def [of ?d'])
  moreover have "core ?d' = core d" "ready ?d' = ready d"
    by (simp_all add: core_def ready_def frame)
  ultimately show ?thesis by blast
qed

end

sublocale wired \<subseteq> loader "wire_usb (cmd_loop r stk H)" link_pending core ready "wire_flags r"
  "mem_handles others F" "mem_spec F wh" st_dlst st_memory "\<lambda>x. \<not> F x" wh "MAX_PKT_SIZE - 6" MAX_PKT_PAYLOAD
proof (unfold_locales, goal_cases)
  case (1 d n ep t)
  then show ?case using link_in_some [of d n] by (auto simp: wire_usb_def)
next
  case (2 d ep n t)
  then show ?case by (simp add: wire_usb_def link_in_def)
next
  case (3 ep t d)
  show ?case by (simp add: wire_usb_def link_out_def)
next
  case (4 d t dat c' rt rd ep tm)
  have len: "length dat + 6 \<le> MAX_PKT_SIZE" using 4(2) by (auto simp: mem_handles_def split: prod.splits)
  let ?f = "host_frame (wire_flags r) (host_pkt (wire_flags r) t dat)"
  have rx: "rx (fdl d) = rx_init" "good (fdl d)" using 4(1) by (simp_all add: ready_def)
  obtain m where m: "cmd_loop r stk H ?f (fdl d) = H ((fdl d)\<lparr>packet_temp := m, rx := rx_init\<rparr>)"
    "has_msg ((fdl d)\<lparr>packet_temp := m, rx := rx_init\<rparr>) t dat"
    using cmd_loop_msg [OF rx(1) len] by blast
  have "refines_by r H (\<lambda>s. (av s, good s)) ((fdl d)\<lparr>packet_temp := m, rx := rx_init\<rparr>) ((c', True), rt, rd)"
    by (rule handled [OF m(2)]) (use rx(2) 4(2,3) in \<open>simp_all add: frame core_def\<close>)
  then obtain s' where "cmd_loop r stk H ?f (fdl d) = Ret () s'" "av s' = c'" "good s'" "rx s' = rx_init"
    "tx s' = tx (fdl d) @ [dl_frame r (host_msg rt rd)]"
    using m(1) by (auto simp: refines_by_def)
  then show ?case
    by (simp add: wire_usb_def link_out_def core_def ready_def link_pending_def
        dl_frame_reply [OF wire_flags(1) wire_flags(2) [symmetric]])
next
  case (5 c t dat)
  then show ?case by (auto simp: mem_handles_def MAX_PKT_SIZE_def split: prod.splits)
next
  case (6 c t dat c' rt rd)
  then show ?case
    by (auto simp: mem_spec_def MAX_PKT_PAYLOAD_def MAX_PKT_SIZE_def BSL_REP_ACK_def BSL_REP_LOG_def
        BSL_REP_INVALID_CMD_def BSL_REP_DOWN_SIZE_ERROR_def BSL_REP_DOWN_EARLY_END_def
        BSL_REP_READ_FLASH_def BSL_REP_UNKNOWN_CMD_def split: prod.splits if_splits)
next
  case 7
  then show ?case by (simp add: wire_usb_def)
next
  case (8 c a n)
  then show ?case
    using no_others by (cases c) (simp add: spec_simps MAX_PKT_SIZE_def be32_words)
next
  case (9 c a n r' dat)
  obtain m where c: "c = (a, n, r', m)" using 9(1) by (cases c) (simp add: st_dlst_def)
  have le: "length dat \<le> unat (n - r')"
  proof -
    have "r' \<le> n" using 9(3) by (simp add: word_le_nat_alt)
    then have "unat (n - r') = unat n - unat r'" by (rule unat_sub)
    then show ?thesis using 9(3) by linarith
  qed
  have "0 < length dat" using 9(5) by simp
  with 9(4) have "\<not> F (a + r' + of_nat 0)" by blast
  then have nf: "\<not> F (a + r')" by simp
  have len: "length dat + 6 \<le> MAX_PKT_SIZE" using 9(2) by (simp add: MAX_PKT_SIZE_def)
  have "\<forall>i < length dat. \<not> F (a + r' + of_nat i)" using 9(4) by simp
  then have "mem_spec F wh c BSL_CMD_MIDST_DATA dat =
      ((a, n, r' + of_nat (length dat), mupd m (a + r') dat), BSL_REP_ACK, [])"
    using le ram_upd_writable [of dat F "a + r'" m] by (simp add: c mem_spec_def cmd_defs not_less)
  moreover have "mem_handles others F c BSL_CMD_MIDST_DATA dat"
    using nf len no_others by (simp add: c mem_handles_def cmd_defs)
  ultimately show ?case by (simp add: c st_dlst_def st_memory_def)
next
  case (10 c a n)
  then show ?case using no_others by (cases c) (simp add: spec_simps MAX_PKT_SIZE_def)
next
  case (11 n c a off)
  then show ?case using no_others by (cases c) (simp add: spec_simps MAX_PKT_SIZE_def be32_words)
next
  case 12
  then show ?case by (simp add: MAX_PKT_PAYLOAD_def MAX_PKT_SIZE_def)
qed

end
