(* ===== verification/Link.thy ===== *)
theory Link
  imports Wire
begin

text \<open>
  The dumper and the custom loader on the two ends of a USB cable: the loader is an instance
  of \<open>wired\<close>, which gives the theorems on what the commands of the dumper achieve.
\<close>

unbundle bit_operations_syntax

section \<open>The custom loader on the cable\<close>

definition link_flags :: "'f board \<Rightarrow> u32" where "link_flags B = wire_flags (rom B)"

definition link_usb :: "'f board \<Rightarrow> 'f fdl link usb" where "link_usb B = wire_usb (dl_loop B)"

interpretation link: wired "rom B" "stack B" "dl_handle B" "abs_of B" "\<lambda>_. True" "dl_others B"
  "in_flash B" "spec_addr B" for B :: "'f board"
proof (unfold_locales, goal_cases)
  case (1 s t d c rt rd)
  then have "refines B s (c, rt, rd)"
    using dl_handle_refines [of s t d B] by (simp add: spec_handles_def dl_spec_def)
  then show ?case by (auto simp: refines_by_def)
qed (simp_all add: abs_of_def dl_others_def cmd_defs)

section \<open>End to end\<close>

text \<open>The host is between two commands, the loader waits for a packet, and nothing is on its way.\<close>

definition linked :: "'f board \<Rightarrow> 'f fdl link host \<Rightarrow> bool" where
  "linked B s = (flags s = link_flags B \<and> recv_len s \<le> recv_pos s \<and>
     link_pending (dev s) = [] \<and> rx (fdl (dev s)) = rx_init)"

lemma link_between: "link.between B s = linked B s"
  by (auto simp: link.between_def linked_def link.avail_def link_flags_def link.ready_def)

lemma link_usb: "link_usb B = wire_usb (cmd_loop (rom B) (stack B) (dl_handle B))"
  by (simp add: link_usb_def dl_loop_def [abs_def])

lemma link_memory: "st_memory (link.core B d) = ld B (fdl d)"
  by (simp add: st_memory_def link.core_def abs_of_def)

text \<open>A board without flash driver and an idle host connected to it, for the witnesses.\<close>

definition sample_board :: "unit board" where
  "sample_board = \<lparr>tbuf_clear = (\<lambda>r. r), exec = (\<lambda>_ f. (f, 0)), polls = (\<lambda>_ _. 0), peek = (\<lambda>_ a. ucast a), spins = 1,
     chip_no = 1, chip_id = 0x65620000, rom = False, with_sfc = False, with_efuse = False,
     chipram_addr = 0x40000000, pkt_addr = 0x40008000, stack = (\<lambda>_. 0),
     call_entry = (\<lambda>_ _. None), efuse = (\<lambda>_. None)\<rparr>"

definition sample_fdl :: "unit fdl" where
  "sample_fdl = \<lparr>packet_temp = (\<lambda>_. 0), rx = rx_init, tx = [], opens = [],
     ram = (\<lambda>_. 0), dl_start = -1, dl_size = 0, dl_recv = 0,
     sfcr = (\<lambda>_. \<lparr>cmd_set = 0, soft_req = 0, tbuf_clr = 0, int_clr = 0, cmd = (\<lambda>_. 0), type_info = (\<lambda>_. 0)\<rparr>),
     chip = (), sfc_clk = 0, flash_id = -1\<rparr>"

definition sample_host :: "unit fdl link host" where
  "sample_host = \<lparr>dev = \<lparr>fdl = sample_fdl, toward = [], sched = [3, 1, 5]\<rparr>, endp_in = 0x83, endp_out = 2,
     endp_in_blk = 64, endp_out_blk = 64, flags = FLAGS_TRANSCODE, verbose = 0, timeout = 1000,
     raw_buf = (\<lambda>_. 0), raw_len = 0, enc_buf = [], recv_buf = (\<lambda>_. 0), recv_len = 0, recv_pos = 0,
     errlog = [], stdout = [], stdin = [], fs = (\<lambda>_. None), can_write = (\<lambda>_. True), disk = 100\<rparr>"

lemma sample_linked: "linked sample_board sample_host"
  by (simp add: linked_def link_flags_def sample_board_def sample_host_def link_pending_def
      sample_fdl_def wire_flags_def)

text \<open>
  C11: A damaged packet is never executed. When the frame of a packet of the right length, but
  with a wrong check, arrives in front of any other input, the loader answers it with
  BSL_REP_VERIFY_ERROR, and goes on with that input as if the frame had not been there: its
  memory, its download state and its flash are what they were, and so is the part of
  packet_temp that replies are made in.
\<close>

theorem dl_loop_bad_check:
  assumes "len_ok q" "length q \<le> MAX_PKT_SIZE" "dl_chk (rom B) q \<noteq> 0" "rx s = rx_init"
  shows "\<exists>m. (\<forall>i \<ge> MAX_PKT_SIZE. m i = packet_temp s i) \<and>
    dl_loop B (HDLC_HEADER # spd_transcode q @ HDLC_HEADER # rest) s =
    dl_loop B rest (s\<lparr>packet_temp := m, rx := rx_init,
      tx := tx s @ [dl_frame (rom B) (WRITE16_BE BSL_REP_VERIFY_ERROR @ WRITE16_BE 0)]\<rparr>)"
proof -
  have "dl_fits q" using assms(1,2) by (simp add: dl_fits_def)
  then obtain m where m: "same_above (packet_temp s) m"
    "dl_get_packet (rom B) (stack B) s (HDLC_HEADER # spd_transcode q @ HDLC_HEADER # rest) =
     dl_get_packet (rom B) (stack B) (dl_send_ack (rom B) (stack B) BSL_REP_VERIFY_ERROR (s\<lparr>packet_temp := m, rx := rx_init\<rparr>)) rest"
    using dl_get_packet_bad [OF _ assms(3,4), of "stack B" rest] by blast
  have "dl_loop B (HDLC_HEADER # spd_transcode q @ HDLC_HEADER # rest) s =
      dl_loop B rest (dl_send_ack (rom B) (stack B) BSL_REP_VERIFY_ERROR (s\<lparr>packet_temp := m, rx := rx_init\<rparr>))"
    by (subst (1 2) dl_loop_unfold) (simp only: m(2))
  then show ?thesis using m(1) by (intro exI [of _ m]) (simp add: same_above_def dl_send_ack_tx)
qed

theorem dl_loop_bad_check_witness:
  "\<exists>m. (\<forall>i \<ge> MAX_PKT_SIZE. m i = packet_temp sample_fdl i) \<and>
    dl_loop sample_board (HDLC_HEADER # spd_transcode [0, 3, 0, 0, 0x12, 0x34] @ HDLC_HEADER # []) sample_fdl =
    dl_loop sample_board [] (sample_fdl\<lparr>packet_temp := m, rx := rx_init,
      tx := tx sample_fdl @ [dl_frame (rom sample_board) (WRITE16_BE BSL_REP_VERIFY_ERROR @ WRITE16_BE 0)]\<rparr>)"
  by (rule dl_loop_bad_check)
    (simp_all add: len_ok_def MAX_PKT_SIZE_def sample_board_def sample_fdl_def dl_chk_def dl_fastchk16_def le16_def fold16_def
      numeral_2_eq_2 [symmetric])

text \<open>
  C1: send_buf works end to end: whatever the data, the transfer schedule and the step (up
  to the loader's packet size), the function returns and the memory of the device is its
  old memory with the data at the given address, every byte of it and no other.
\<close>

theorem send_buf_writes_memory:
  assumes "linked B s" and "step \<noteq> 0" and "unat step \<le> MAX_PKT_SIZE - 6" and "unat sz \<le> length data"
    and "\<forall>i < unat sz. \<not> in_flash B (a + of_nat i)"
  shows "\<exists>s'. send_buf (link_usb B) a fin step data sz s = Ret () s' \<and> linked B s' \<and>
    ld B (fdl (dev s')) = mupd (ld B (fdl (dev s))) a (take (unat sz) data)"
  using link.send_buf_ok [OF assms(2-5), of s fin] assms(1)
  by (auto simp: link_between link_memory link_usb)

theorem send_buf_writes_memory_witness:
  "\<exists>s'. send_buf (link_usb sample_board) 0x40004000 True 2 [0x7e, 0x7d, 3] 3 sample_host = Ret () s' \<and>
    linked sample_board s' \<and>
    ld sample_board (fdl (dev s')) = mupd (ld sample_board (fdl (dev sample_host))) 0x40004000
      (take (unat (3 :: u32)) [0x7e, 0x7d, 3])"
proof (rule send_buf_writes_memory [OF sample_linked])
  show "\<forall>i < unat (3 :: u32). \<not> in_flash sample_board (0x40004000 + of_nat i)"
  proof (intro allI impI)
    fix i assume "i < unat (3 :: u32)"
    then have "i < 3" by simp
    then consider "i = 0" | "i = 1" | "i = 2" by linarith
    then show "\<not> in_flash sample_board (0x40004000 + of_nat i)"
      by cases (simp_all add: in_flash_def FW_ADDR_def sample_board_def)
  qed
qed (simp_all add: MAX_PKT_SIZE_def)

text \<open>
  C2: read_mem works end to end: dump_mem returns the end address and the file it wrote
  holds exactly the bytes that the device has at the addresses asked for, which are
  neither changed nor mixed up by the cutting into packets and transfers.
\<close>

theorem dump_mem_saves_memory:
  assumes "linked B s" and "step \<noteq> 0" and "unat step < MAX_PKT_PAYLOAD"
    and "unat start + unat len < 2 ^ 32"
    and "start + len \<le> 0x80000003 \<or> 0x80000003 < start"
    and "can_write s fn" and "unat len \<le> disk s"
  shows "\<exists>s'. dump_mem (link_usb B) start len fn step s = Ret (start + len) s' \<and> linked B s' \<and>
    fs s' = (fs s)(fn := Some (mbytes (ld B (fdl (dev s))) start (unat len))) \<and>
    ld B (fdl (dev s')) = ld B (fdl (dev s))"
proof -
  have "\<forall>x. start \<le> x \<and> x < start + len \<longrightarrow> spec_addr B x 0 = x"
    using assms(5) by (auto simp: spec_addr_def)
  from link.dump_mem_ok [OF assms(2,3) _ assms(4) this assms(6,7)] assms(1) show ?thesis
    by (auto simp: link_between link_memory link_usb) (metis link_memory)
qed

theorem dump_mem_saves_memory_witness:
  "\<exists>s'. dump_mem (link_usb sample_board) 0x10000000 7 ''dump'' 4 sample_host = Ret (0x10000000 + 7) s' \<and>
    linked sample_board s' \<and>
    fs s' = (fs sample_host)(''dump'' := Some (mbytes (ld sample_board (fdl (dev sample_host))) 0x10000000 (unat (7 :: u32)))) \<and>
    ld sample_board (fdl (dev s')) = ld sample_board (fdl (dev sample_host))"
  by (rule dump_mem_saves_memory [OF sample_linked])
    (simp_all add: MAX_PKT_PAYLOAD_def MAX_PKT_SIZE_def sample_host_def)

text \<open>
  Read_flash with the firmware identifier 0x80000003 reads the memory-mapped flash: it
  returns the length asked for and the bytes from \<open>FW_ADDR + start\<close> on.
\<close>

theorem read_flash_reads_firmware:
  assumes "linked B s" and "step \<noteq> 0" and "unat step < MAX_PKT_PAYLOAD"
    and "unat start + unat len < 2 ^ 32"
  shows "\<exists>s'. read_flash (link_usb B) 0x80000003 start len None step s =
      Ret (len, mbytes (ld B (fdl (dev s))) (FW_ADDR B + start) (unat len)) s' \<and> linked B s'"
proof -
  have fin: "unat (start + len) = unat start + unat len"
    using assms(4) by (intro unat_add_lem [THEN iffD1]) simp
  have "\<forall>x. start \<le> x \<and> x < start + len \<longrightarrow> spec_addr B 0x80000003 x = FW_ADDR B + x"
    by (auto simp: spec_addr_def)
  from link.read_flash_ok [OF assms(2,3) _ assms(4) this _ _ refl, of s None] assms(1) show ?thesis
    by (auto simp: link_between link_memory link_usb room_def)
qed

theorem read_flash_reads_firmware_witness:
  "\<exists>s'. read_flash (link_usb sample_board) 0x80000003 0x20 9 None 4 sample_host =
      Ret (9, mbytes (ld sample_board (fdl (dev sample_host))) (FW_ADDR sample_board + 0x20) (unat (9 :: u32))) s' \<and>
    linked sample_board s'"
  by (rule read_flash_reads_firmware [OF sample_linked])
    (simp_all add: MAX_PKT_PAYLOAD_def MAX_PKT_SIZE_def)

text \<open>
  C3: for every message that only touches memory, of any type and with any data, the
  loader does what the abstract device does: same download state, same memory, and one
  reply of the type and with the data that the abstract device gives.
\<close>

theorem dl_handle_refines_spec:
  assumes "has_msg s t d" and "spec_handles B (abs_of B s) t d"
  shows "\<exists>s'. dl_handle B s = Ret () s' \<and> abs_of B s' = fst (dl_spec B (abs_of B s) t d) \<and>
    rx s' = rx s \<and> tx s' = tx s @ [dl_frame (rom B)
      (host_msg (fst (snd (dl_spec B (abs_of B s) t d))) (snd (snd (dl_spec B (abs_of B s) t d))))]"
  using dl_handle_refines [OF assms] by (auto simp: refines_by_def split: prod.splits)

theorem dl_handle_refines_spec_witness:
  "let s = sample_fdl\<lparr>packet_temp := blit (\<lambda>_. 0) 0 (host_msg BSL_CMD_START_DATA [0x40, 0, 0, 0, 0, 0, 0, 5])\<rparr>
   in \<exists>s'. dl_handle sample_board s = Ret () s' \<and>
     abs_of sample_board s' = fst (dl_spec sample_board (abs_of sample_board s) BSL_CMD_START_DATA [0x40, 0, 0, 0, 0, 0, 0, 5]) \<and>
     rx s' = rx s \<and> tx s' = tx s @ [dl_frame (rom sample_board)
      (host_msg (fst (snd (dl_spec sample_board (abs_of sample_board s) BSL_CMD_START_DATA [0x40, 0, 0, 0, 0, 0, 0, 5])))
        (snd (snd (dl_spec sample_board (abs_of sample_board s) BSL_CMD_START_DATA [0x40, 0, 0, 0, 0, 0, 0, 5]))))]"
  unfolding Let_def
proof (rule dl_handle_refines_spec)
  show "has_msg (sample_fdl\<lparr>packet_temp := blit (\<lambda>_. 0) 0
      (host_msg BSL_CMD_START_DATA [0x40, 0, 0, 0, 0, 0, 0, 5])\<rparr>) BSL_CMD_START_DATA [0x40, 0, 0, 0, 0, 0, 0, 5]"
    using mslice_blit_same [of "\<lambda>_. 0" 0 "host_msg BSL_CMD_START_DATA [0x40, 0, 0, 0, 0, 0, 0, 5]"]
    by (simp add: has_msg_def)
qed (simp add: spec_handles_defs abs_of_def MAX_PKT_SIZE_def cmd_defs)

end
