(* ===== verification/SpdPart.thy ===== *)
theory SpdPart
  imports SpdCmd
begin

text \<open>
  The partition commands of the dumper (spd_dump.c, copy_to_wstr to find_partition_size):
  UTF-16 names, reading and writing named partitions, the partition table in its binary and
  its XML form.
\<close>

unbundle bit_operations_syntax

section \<open>Names\<close>

text \<open>
  Both functions store a character before they test it, and return the last one: zero when
  the terminator was copied. A \<open>char\<close> is signed.
\<close>

fun copy_to_wstr :: "nat \<Rightarrow> byte list \<Rightarrow> u32 \<Rightarrow> byte list \<times> u32" where
  "copy_to_wstr 0 str a = ([], a)"
| "copy_to_wstr (Suc n) str a =
     (if a = 0 then ([], a)
      else let a = (case str of [] \<Rightarrow> 0 | c # _ \<Rightarrow> scast c);
               (d, r) = copy_to_wstr n (tl str) a
           in (WRITE16_LE a @ d, r))"

fun copy_from_wstr :: "nat \<Rightarrow> mem \<Rightarrow> nat \<Rightarrow> u32 \<Rightarrow> byte list \<times> u32" where
  "copy_from_wstr 0 m off a = ([], a)"
| "copy_from_wstr (Suc n) m off a =
     (if a = 0 then ([], a)
      else let a = READ16_LE m off
           in if drop_bit 8 a \<noteq> 0 then ([ucast a], a)
              else let (d, r) = copy_from_wstr n m (off + 2) a in (ucast a # d, r))"

text \<open>The argument \<open>-1\<close> is the value \<open>a\<close> has before the loop.\<close>

definition select_partition :: "string \<Rightarrow> u64 \<Rightarrow> bool \<Rightarrow> u32 \<Rightarrow> ('d host, unit) cm" where
  "select_partition name sz mode64 c =
     (let (wname, r) = copy_to_wstr 36 (bytes_of name) (-1)
      in if r \<noteq> 0 then err_exit ''name too long'' []
         else let pkt = blit (\<lambda>_. 0) 0 wname;
                  pkt = blit pkt 72 (WRITE32_LE (ucast sz));
                  pkt = (if mode64 then blit pkt 76 (WRITE32_LE (ucast (drop_bit 32 sz))) else pkt)
              in encode_msg c (mslice pkt 0 (72 + (if mode64 then 16 else 4))))"

section \<open>Reading\<close>

fun dump_partition_loop ::
  "'d usb \<Rightarrow> u64 \<Rightarrow> bool \<Rightarrow> u32 \<Rightarrow> string \<Rightarrow> nat \<Rightarrow> u64 \<Rightarrow> ('d host, u64) cm" where
  "dump_partition_loop E fin mode64 step fo k offset =
     (let n64 = fin - offset in
      if n64 \<noteq> 0 then
        (case k of
           0 \<Rightarrow> no_fuel
         | Suc k \<Rightarrow>
             let n = (if n64 > ucast step then step else ucast n64);
                 data = WRITE32_LE n @ WRITE32_LE (ucast offset) @ WRITE32_LE (ucast (drop_bit 32 offset))
             in thn (encode_msg BSL_CMD_READ_MIDST (take (if mode64 then 12 else 8) data))
               (bnd (recv_chunk E n (Some fo)) (\<lambda>buf. case buf of
                  None \<Rightarrow> CMonad.ret offset
                | Some buf \<Rightarrow>
                    let nread = of_nat (length buf); offset = offset + of_nat (length buf)
                    in if n \<noteq> nread then CMonad.ret offset
                       else dump_partition_loop E fin mode64 step fo k offset)))
      else CMonad.ret offset)"

declare dump_partition_loop.simps [simp del]

definition dump_partition ::
  "'d usb \<Rightarrow> string \<Rightarrow> u64 \<Rightarrow> u64 \<Rightarrow> string \<Rightarrow> u32 \<Rightarrow> ('d host, u64) cm" where
  "dump_partition E name start len fn step =
     (let mode64 = (drop_bit 32 (start + len) \<noteq> 0)
      in thn (select_partition name (start + len) mode64 BSL_CMD_READ_START)
        (thn (send_and_check E)
        (bnd (fopen_wb fn) (\<lambda>ok.
          if \<not> ok then err_exit ''fopen(dump) failed'' []
          else bnd (dump_partition_loop E (start + len) mode64 step fn (unat len) start) (\<lambda>offset.
            thn (DBG_LOG ''dump_partition: %s+0x%llx, target: 0x%llx, read: 0x%llx''
                  [PS name, PI (uint start), PI (uint len), PI (uint (offset - start))])
           (thn (encode_msg BSL_CMD_READ_END [])
           (thn (send_and_check E)
            (CMonad.ret offset))))))))"

definition pactime_unix :: "u64 \<Rightarrow> u64" where
  "pactime_unix time = (if time \<noteq> 0 then time div 10000000 - 11644473600 else 0)"

definition read_pactime :: "'d usb \<Rightarrow> ('d host, u64) cm" where
  "read_pactime E =
     (let offset = 0x81400; len = 8
      in thn (select_partition ''miscdata'' (ucast (offset + len :: u32)) False BSL_CMD_READ_START)
        (thn (send_and_check E)
        (thn (encode_msg BSL_CMD_READ_MIDST (WRITE32_LE len @ WRITE32_LE offset))
        (thn (send_msg E)
        (thn (recv_msg E)
        (bnd (gets recv_type) (\<lambda>t.
          if t \<noteq> BSL_REP_READ_FLASH then err_exit ''unexpected response (0x%04x)'' [PI (uint t)]
          else bnd (gets (\<lambda>s. READ16_BE (raw_buf s) 2)) (\<lambda>n.
            if n \<noteq> len then err_exit ''unexpected length'' []
            else bnd (gets raw_buf) (\<lambda>m.
              let time = ucast (READ32_LE m 4) OR push_bit 32 (ucast (READ32_LE m 8))
              in thn (DBG_LOG ''pactime = 0x%llx (unix = %llu)'' [PI (uint time), PI (uint (pactime_unix time))])
                (thn (encode_msg BSL_CMD_READ_END [])
                (thn (send_and_check E)
                 (CMonad.ret time))))))))))))"

section \<open>The XML partition table\<close>

text \<open>
  \<open>sscanf(p, "Partition id=..., name, &size, &n, &c)\<close>: the fields when all conversions
  succeed and \<open>c\<close> is the closing bracket, with what follows it. Blanks in the format match
  any white space.
\<close>

fun scan_lit :: "string \<Rightarrow> string \<Rightarrow> string option" where
  "scan_lit [] str = Some str"
| "scan_lit (f # fmt) str =
     (if isspace f then scan_lit fmt (dropWhile isspace str)
      else case str of
             [] \<Rightarrow> None
           | c # str \<Rightarrow> if c = f then scan_lit fmt str else None)"

definition scan_partition :: "string \<Rightarrow> (string \<times> int \<times> string) option" where
  "scan_partition p =
     (case scan_lit ''Partition id=\"'' p of
        None \<Rightarrow> None
      | Some p \<Rightarrow>
          let name = takeWhile (\<lambda>c. c \<noteq> CHR 0x22) (take 35 p)
          in if name = [] then None
             else (case scan_lit ''\" size=\"'' (drop (length name) p) of
                None \<Rightarrow> None
              | Some p \<Rightarrow>
                  let (sz, q) = strtoll 0 p
                  in if q = p then None
                     else (case scan_lit ''\"/'' q of
                        Some (c # q) \<Rightarrow> if c = CHR ''>'' then Some (name, sz, q) else None
                      | _ \<Rightarrow> None)))"

text \<open>One entry of the binary table.\<close>

definition xml_entry :: "string \<Rightarrow> int \<Rightarrow> byte list" where
  "xml_entry name sz =
     (let row = concat (map (\<lambda>c. [of_nat (of_char c), 0 :: byte]) name)
      in row @ replicate (72 - length row) 0 @ WRITE32_LE (word_of_int sz))"

text \<open>
  The scanner: \<open>p\<close> is the text that is left, \<open>stage\<close> counts the tags of the list, \<open>room\<close>
  is what is left of the table, \<open>out\<close> the entries so far. Each round uses up a character,
  so the length of the text is fuel enough. The tail \<open>zero\<close> tells that the text ended at a
  zero byte.
\<close>

definition part1 :: string where "part1 = ''Partitions>''"

fun scan_xml :: "nat \<Rightarrow> string \<Rightarrow> nat \<Rightarrow> nat \<Rightarrow> nat \<Rightarrow> byte list \<Rightarrow> ('d host, nat \<times> byte list) cm" where
  "scan_xml 0 p stage space found out = no_fuel"
| "scan_xml (Suc k) p stage space found out =
     (case p of
        [] \<Rightarrow> if stage \<noteq> 2 then err_exit ''xml: unexpected syntax'' [] else CMonad.ret (found, out)
      | a # p \<Rightarrow>
        if a = CHR '' '' \<or> a = CHR 0x09 \<or> a = CHR 0x0A \<or> a = CHR 0x0D then scan_xml k p stage space found out
        else if a \<noteq> CHR ''<'' then
          (if a = CHR 0x00 then err_exit ''xml: zero byte'' []
           else if stage \<noteq> 1 then scan_xml k p stage space found out
           else err_exit ''xml: unexpected symbol'' [])
        else if starts ''!--'' p then
          (case strstr (drop 3 (takeWhile (\<lambda>c. c \<noteq> CHR 0x00) p)) ''--'' of
             None \<Rightarrow> err_exit ''xml: unexpected syntax'' []
           | Some j \<Rightarrow>
               let q = 3 + j
               in if (p ! (q - 1) = CHR ''!'' \<and> p ! (q - 2) = CHR ''<'') \<or> \<not> starts ''-->'' (drop q p)
                  then err_exit ''xml: unexpected syntax'' []
                  else scan_xml k (drop (q + 3) p) stage space found out)
        else if stage \<noteq> 1 then
          (let stage = stage + (if starts part1 p then 1 else 0)
           in if stage > 2 then err_exit ''xml: more than one partition lists'' []
              else case strchr (takeWhile (\<lambda>c. c \<noteq> CHR 0x00) p) CHR ''>'' of
                     None \<Rightarrow> err_exit ''xml: unexpected syntax'' []
                   | Some j \<Rightarrow> scan_xml k (drop (j + 1) p) stage space found out)
        else if starts (CHR ''/'' # part1) p then
          scan_xml k (drop (1 + length part1) p) (stage + 1) space found out
        else case scan_partition (takeWhile (\<lambda>c. c \<noteq> CHR 0x00) p) of
               None \<Rightarrow> err_exit ''xml: unexpected syntax'' []
             | Some (name, sz, q) \<Rightarrow>
                 if space < 0x4c then err_exit ''xml: too many partitions'' []
                 else thn (DBG_LOG ''[%d] %s, %d'' [PI (int found), PS name, PI (sint (word_of_int sz :: u32))])
                   (scan_xml k (q @ dropWhile (\<lambda>c. c \<noteq> CHR 0x00) p) stage (space - 0x4c) (found + 1)
                      (out @ xml_entry name sz)))"

definition scan_xml_partitions :: "string \<Rightarrow> nat \<Rightarrow> ('d host, nat \<times> byte list) cm" where
  "scan_xml_partitions fn buf_size =
     bnd (gets (loadfile fn)) (\<lambda>(src, n). case src of
       None \<Rightarrow> err_exit ''loadfile failed'' []
     | Some src \<Rightarrow> scan_xml (n + 1) (str_of src) 0 buf_size 0 [])"

section \<open>The partition table of the device\<close>

definition fprintf :: "string option \<Rightarrow> string \<Rightarrow> ('d host, unit) cm" where
  "fprintf fo str = (case fo of None \<Rightarrow> CMonad.ret () | Some f \<Rightarrow> thn (fwrite f (bytes_of str)) (CMonad.ret ()))"

text \<open>The rows of the table at \<open>p\<close> of the reply; the value is the union of the sizes.\<close>

fun partition_rows :: "string option \<Rightarrow> nat \<Rightarrow> nat \<Rightarrow> mem \<Rightarrow> nat \<Rightarrow> nat \<Rightarrow> u32 \<Rightarrow> ('d host, u32) cm" where
  "partition_rows fo sh n m p 0 msk = CMonad.ret msk"
| "partition_rows fo sh n m p (Suc k) msk =
     (let i = n - Suc k; (name, r) = copy_from_wstr 36 m p (-1)
      in if r \<noteq> 0 then err_exit ''bad partition name'' []
         else let sz = READ32_LE m (p + 0x48); msk = msk OR sz; name = c_str name
              in thn (DBG_LOG ''[%d] %s, %u (%u)'' [PI (int i), PS name, PI (uint (drop_bit sh sz)), PI (uint sz)])
                (thn (fprintf fo (''    <Partition id=\"'' @ name @ ''\" size=\"''))
                (thn (fprintf fo ((if i + 1 = n then ''0xffffffff'' else dec_str (unat (drop_bit sh sz))) @ ''\"/>'' @ [CHR 0x0A]))
                 (partition_rows fo sh n m (p + 0x4c) k msk))))"

text \<open>
  With a wrong unit and \<open>fn = "-"\<close> the C code calls fprintf on a null pointer, which is
  undefined; here it ends the process with an error of its own.
\<close>

definition partition_list :: "'d usb \<Rightarrow> string \<Rightarrow> nat \<Rightarrow> ('d host, unit) cm" where
  "partition_list E fn sh =
     thn (encode_msg BSL_CMD_READ_PARTITION [])
    (thn (send_msg E)
    (thn (recv_msg E)
    (bnd (gets recv_type) (\<lambda>t.
      if t \<noteq> BSL_REP_READ_PARTITION then err_exit ''unexpected response (0x%04x)'' [PI (uint t)]
      else bnd (gets (\<lambda>s. unat (READ16_BE (raw_buf s) 2))) (\<lambda>sz.
        if sz mod 0x4c \<noteq> 0 then err_exit ''not divisible by struct size (0x%04x)'' [PI (int sz)]
        else let n = sz div 0x4c; fo = (if fn = ''-'' then None else Some fn)
          in bnd (if fo \<noteq> None then fopen_wb fn else CMonad.ret True) (\<lambda>ok.
            if \<not> ok then err_exit ''fopen failed'' []
            else thn (fprintf fo (''<Partitions>'' @ [CHR 0x0A]))
             (bnd (gets raw_buf) (\<lambda>m.
              bnd (partition_rows fo sh n m 4 n 0) (\<lambda>msk.
              thn (cwhen (msk AND (push_bit sh 1 - 1) \<noteq> 0)
                (thn (DBG_LOG ''The unit size is wrong!'' [])
                (thn (cwhen (msk AND 0x7f = 0)
                   (DBG_LOG ''The partition table probably uses 4KB sectors, use partition_list_4k command.'' []))
                (if fo = None then err_exit ''fprintf(NULL)'' []
                 else fprintf fo (''<error>Wrong unit size, do not use this table!</error>'' @ [CHR 0x0A])))))
               (fprintf fo (''</Partitions>'' @ [CHR 0x0A])))))))))))"

definition repartition :: "'d usb \<Rightarrow> string \<Rightarrow> ('d host, unit) cm" where
  "repartition E fn =
     bnd (scan_xml_partitions fn 0xffff) (\<lambda>(n, buf).
       thn (modify (\<lambda>s. s\<lparr>raw_buf := blit (raw_buf s) 4 buf\<rparr>))
      (thn (check_confirm ''repartition'')
      (thn (bnd (gets (\<lambda>s. mslice (raw_buf s) 4 (n * 0x4c))) (encode_msg BSL_CMD_REPARTITION))
       (send_and_check E))))"

definition erase_partition :: "'d usb \<Rightarrow> string \<Rightarrow> ('d host, unit) cm" where
  "erase_partition E name =
     thn (check_confirm ''erase partition'')
    (thn (select_partition name 0 False BSL_CMD_ERASE_FLASH)
     (send_and_check E))"

section \<open>Writing\<close>

text \<open>
  \<open>load_partition\<close> tests a variable \<open>ret\<close> it has not set before the first round, and after
  that the reply type of the round before, where the length of the message is meant: \<open>r0\<close> is
  the value the variable happens to have. The file is read through \<open>temp_buf\<close>.
\<close>

fun load_partition_loop ::
  "'d usb \<Rightarrow> u32 \<Rightarrow> byte list \<Rightarrow> nat \<Rightarrow> u64 \<Rightarrow> u32 \<Rightarrow> ('d host, u64) cm" where
  "load_partition_loop E step file k offset r =
     (let n64 = of_nat (length file) - offset in
      if n64 \<noteq> 0 then
        (case k of
           0 \<Rightarrow> no_fuel
         | Suc k \<Rightarrow>
             let n = (if n64 > ucast step then step else ucast n64);
                 buf = take (unat n) (drop (unat offset) file)
             in if length buf \<noteq> unat n then err_exit ''fread(load) failed'' []
                else thn (modify (\<lambda>s. s\<lparr>raw_buf := blit (raw_buf s) 4 buf\<rparr>))
               (thn (encode_msg BSL_CMD_MIDST_DATA buf)
               (thn (send_msg E)
               (thn (recv_msg_timeout E 15000)
               (if r = 0 then err_exit ''timeout reached'' []
                else bnd (gets recv_type) (\<lambda>r.
                  if r \<noteq> BSL_REP_ACK then
                    thn (DBG_LOG ''unexpected response (0x%04x)'' [PI (uint r)]) (CMonad.ret offset)
                  else load_partition_loop E step file k (offset + ucast n) r))))))
      else CMonad.ret offset)"

declare load_partition_loop.simps [simp del]

definition load_partition :: "'d usb \<Rightarrow> u32 \<Rightarrow> string \<Rightarrow> string \<Rightarrow> u32 \<Rightarrow> ('d host, unit) cm" where
  "load_partition E r0 name fn step =
     bnd (gets (\<lambda>s. fs s fn)) (\<lambda>fi. case fi of
       None \<Rightarrow> err_exit ''fopen(load) failed'' []
     | Some file \<Rightarrow>
         let len = of_nat (length file)
         in thn (DBG_LOG ''file size : 0x%llx'' [PI (uint len)])
           (thn (check_confirm ''write partition'')
           (thn (select_partition name len (drop_bit 32 len \<noteq> 0) BSL_CMD_START_DATA)
           (thn (send_and_check E)
           (bnd (load_partition_loop E step file (length file) 0 r0) (\<lambda>offset.
            thn (DBG_LOG ''load_partition: %s, target: 0x%llx, written: 0x%llx''
                  [PS name, PI (uint len), PI (uint offset)])
           (thn (encode_msg BSL_CMD_END_DATA [])
            (send_and_check E))))))))"

section \<open>Searching for the size\<close>

fun find_size_loop :: "'d usb \<Rightarrow> nat \<Rightarrow> nat \<Rightarrow> u64 \<Rightarrow> ('d host, u64) cm" where
  "find_size_loop E 0 i offset = CMonad.ret offset"
| "find_size_loop E (Suc k) i offset =
     (let n64 = offset + push_bit i 1 - push_bit 20 1
      in thn (encode_msg BSL_CMD_READ_MIDST
              (WRITE32_LE 4 @ WRITE32_LE (ucast n64) @ WRITE32_LE (ucast (drop_bit 32 n64))))
        (thn (send_msg E)
        (thn (recv_msg E)
        (bnd (gets recv_type) (\<lambda>t.
           find_size_loop E k (i - 1)
             (if t \<noteq> BSL_REP_READ_FLASH then offset else n64 + push_bit 20 1))))))"

definition find_partition_size :: "'d usb \<Rightarrow> string \<Rightarrow> ('d host, u64) cm" where
  "find_partition_size E name =
     thn (select_partition name (push_bit 48 1) True BSL_CMD_READ_START)
    (thn (send_and_check E)
    (bnd (find_size_loop E 28 47 0) (\<lambda>offset.
     thn (DBG_LOG ''partition_size: %s, 0x%llx'' [PS name, PI (uint offset)])
    (thn (encode_msg BSL_CMD_READ_END [])
    (thn (send_and_check E)
     (CMonad.ret offset))))))"

end
