(* ===== verification/SpdMain.thy ===== *)
theory SpdMain
  imports SpdPart
begin

text \<open>
  The program of the dumper around its commands (spd_dump.c): opening the device
  (find_endpoints, spdio_init), the T117 start, the fuses, the arguments, and main. The
  local variables of main are the record \<open>mvars\<close>; what libusb does before there is an open
  device is the parameter \<open>boot\<close>.
\<close>

unbundle bit_operations_syntax

section \<open>Opening the device\<close>

record endpoint =
  bmAttributes :: nat
  bEndpointAddress :: nat
  wMaxPacketSize :: nat

record interface =
  num_altsetting :: nat
  bInterfaceNumber :: nat
  endpoints :: "endpoint list"

record boot =
  init_err :: int
  present :: "nat \<Rightarrow> bool"
  get_device :: bool
  config :: "int \<times> interface list"
  driver_active :: "nat \<Rightarrow> int"
  detach_driver :: "nat \<Rightarrow> int"
  claim_interface :: "nat \<Rightarrow> int"
  usb_error :: "int \<Rightarrow> string"

record eps =
  ep_in :: int
  ep_out :: int
  ep_in_blk :: int
  ep_out_blk :: int

text \<open>The endpoints of one interface; the flag tells whether it has a bulk endpoint.\<close>

fun scan_endpoints :: "endpoint list \<Rightarrow> eps \<Rightarrow> bool \<Rightarrow> ('s, eps \<times> bool) cm" where
  "scan_endpoints [] r claim = ret (r, claim)"
| "scan_endpoints (e # es) r claim =
     (if bmAttributes e = 2 then
        let addr = bEndpointAddress e
        in if addr AND 0x80 \<noteq> 0 then
             (if ep_in r \<ge> 0 then err_exit ''more than one endp_in'' []
              else scan_endpoints es (r\<lparr>ep_in := int addr, ep_in_blk := int (wMaxPacketSize e)\<rparr>) True)
           else
             (if ep_out r \<ge> 0 then err_exit ''more than one endp_out'' []
              else scan_endpoints es (r\<lparr>ep_out := int addr, ep_out_blk := int (wMaxPacketSize e)\<rparr>) True)
      else scan_endpoints es r claim)"

definition claim :: "boot \<Rightarrow> nat \<Rightarrow> ('d host, unit) cm" where
  "claim L i =
     thn (let err = driver_active L i
          in cwhen (err > 0)
            (thn (DBG_LOG ''kernel driver is active, trying to detach'' [])
             (cwhen (detach_driver L i < 0)
               (err_exit ''libusb_detach_kernel_driver failed : %s'' [PS (usb_error L (detach_driver L i))]))))
    (let err = claim_interface L i
     in cwhen (err < 0) (err_exit ''libusb_claim_interface failed : %s'' [PS (usb_error L err)]))"

fun scan_interfaces :: "boot \<Rightarrow> interface list \<Rightarrow> eps \<Rightarrow> ('d host, eps) cm" where
  "scan_interfaces L [] r = CMonad.ret r"
| "scan_interfaces L (d # ds) r =
     (if num_altsetting d < 1 then scan_interfaces L ds r
      else bnd (scan_endpoints (endpoints d) r False) (\<lambda>(r, cl).
        if cl then thn (claim L (bInterfaceNumber d)) (CMonad.ret r)
        else scan_interfaces L ds r))"

definition find_endpoints :: "boot \<Rightarrow> ('d host, eps) cm" where
  "find_endpoints L =
     (if \<not> get_device L then err_exit ''libusb_get_device failed'' []
      else let (err, ifs) = config L
        in if err < 0 then err_exit ''libusb_get_config_descriptor failed : %s'' [PS (usb_error L err)]
           else bnd (scan_interfaces L ifs \<lparr>ep_in = -1, ep_out = -1, ep_in_blk = 0, ep_out_blk = 0\<rparr>) (\<lambda>r.
             thn (cwhen (ep_in r < 0) (err_exit ''endp_in not found'' []))
            (thn (cwhen (ep_out r < 0) (err_exit ''endp_out not found'' []))
             (CMonad.ret r))))"

definition spdio_init :: "boot \<Rightarrow> u32 \<Rightarrow> ('d host, unit) cm" where
  "spdio_init L fl = bnd (find_endpoints L) (\<lambda>r.
     modify (\<lambda>s. s\<lparr>flags := fl, endp_in := ep_in r, endp_out := ep_out r, endp_in_blk := ep_in_blk r,
       endp_out_blk := ep_out_blk r, recv_len := 0, recv_pos := 0, verbose := 0, timeout := 1000\<rparr>))"

section \<open>Variables of main\<close>

record mvars =
  fdl_loaded :: nat
  v_chip_id :: u32
  fw_addr :: u32
  ram_addr :: u32
  keep_charge :: int
  end_data :: int
  blk_size :: nat
  secure_boot :: bool
  t117_exec_dist :: u32

definition mvars_init :: mvars where
  "mvars_init = \<lparr>fdl_loaded = 0, v_chip_id = 0, fw_addr = -1, ram_addr = -1, keep_charge = 0,
     end_data = 1, blk_size = 0, secure_boot = False, t117_exec_dist = 0\<rparr>"

section \<open>Numbers on the command line\<close>

definition str_to_size :: "string \<Rightarrow> ('d host, u64) cm" where
  "str_to_size str =
     (if str = [] \<or> \<not> (of_char (hd str) - 48 < (10 :: u32)) then err_exit ''bad command args'' []
      else let (n, fin) = strtoull 0 str
        in if fin \<noteq> [] \<and> fin \<noteq> ''K'' \<and> fin \<noteq> ''M'' \<and> fin \<noteq> ''G''
           then err_exit ''unknown size suffix'' []
           else let shl = (if fin = [] then 0 else if fin = ''K'' then 10 else if fin = ''M'' then 20 else 30);
                    tmp = signed_drop_bit (63 - shl) n
             in if shl \<noteq> 0 \<and> tmp \<noteq> 0 \<and> NOT tmp \<noteq> 0 then err_exit ''size overflow on multiply'' []
                else CMonad.ret (push_bit shl n))"

definition str_to_addr :: "string \<Rightarrow> string \<Rightarrow> u32 \<Rightarrow> ('d host, u64) cm" where
  "str_to_addr str name base =
     (let found = (\<lambda>str base sh. bnd (str_to_size str) (\<lambda>r.
            if drop_bit sh r \<noteq> 0 then err_exit ''address limit reached'' []
            else CMonad.ret (r + ucast (base :: u32))))
      in if starts name str then
           (if base = NOT 0 then err_exit ''%s address is unknown'' [PS name]
            else case drop (length name) str of
                   [] \<Rightarrow> CMonad.ret (ucast base)
                 | a # str \<Rightarrow> if a \<noteq> CHR ''+'' then err_exit ''bad command args'' [] else found str base 26)
         else found str 0 32)"

section \<open>The T117 start and the fuses\<close>

definition is_special :: "u32 \<Rightarrow> bool" where
  "is_special v = ((v AND 0xff) - 0x7d < 2)"

definition t117_exec_workaround :: "'d usb \<Rightarrow> u32 \<Rightarrow> u32 \<Rightarrow> ('d host, unit) cm" where
  "t117_exec_workaround E dist addr =
     (let addr = addr + 0x200; n = 252
      in if addr \<ge> 0x40000 \<or> is_special addr \<or> is_special (drop_bit 8 addr)
         then err_exit ''unsupported exec address'' []
         else if drop_bit 16 dist \<noteq> 0 then err_exit ''unsupported dist'' []
         else let skip = 3 - (if is_special dist then 1 else 0) - (if is_special (drop_bit 8 dist) then 1 else 0 :: nat);
                  buf = replicate skip 0 @ concat (replicate n (WRITE32_LE addr)) @ (if odd skip then [0] else [])
           in thn (modify (\<lambda>s. s\<lparr>raw_buf := blit (raw_buf s) 4 buf\<rparr>))
             (thn (encode_msg dist buf)
             (bnd (send_msg E) (\<lambda>_. CMonad.ret ()))))"

definition hex08 :: "u32 \<Rightarrow> string" where
  "hex08 w = concat (map (\<lambda>i. hex02 (ucast (drop_bit (8 * i) w))) [3, 2, 1, 0])"

text \<open>Rows of four words, each row with the index of its first word.\<close>

definition efuse_rows :: "(nat \<Rightarrow> u32) \<Rightarrow> nat \<Rightarrow> string" where
  "efuse_rows f n = concat (map (\<lambda>j. ''0x'' @ hex02 (of_nat (4 * j)) @ '':'' @
     concat (map (\<lambda>i. '' '' @ hex08 (f (4 * j + i))) [0..<4]) @ [CHR 0x0A]) [0..<n div 4])"

definition efuse_count :: "u32 \<Rightarrow> nat option" where
  "efuse_count cid =
     (if drop_bit 17 (cid XOR 0x65300000) = 0 then Some 8
      else if drop_bit 16 (cid XOR 0x65620000) = 0 then Some 16
      else if drop_bit 16 (cid XOR 0x98180000) = 0 then Some 64
      else None)"

definition dump_efuse :: "'d usb \<Rightarrow> u32 \<Rightarrow> string \<Rightarrow> ('d host, unit) cm" where
  "dump_efuse E cid fn =
     (if cid = 0 then err_exit ''dump_efuse: custom FDL required'' []
      else case efuse_count cid of
        None \<Rightarrow> err_exit ''dump_efuse: unknown chip'' []
      | Some n \<Rightarrow>
          thn (encode_msg 0x6566 [])
         (thn (send_msg E)
         (thn (recv_msg E)
         (bnd (gets recv_type) (\<lambda>t.
           if t \<noteq> BSL_REP_READ_FLASH then err_exit ''unexpected response (0x%04x)'' [PI (uint t)]
           else bnd (gets raw_buf) (\<lambda>m.
             let n2 = unat (READ16_BE m 2); p = (\<lambda>i. READ32_LE m (4 + 4 * i))
             in if n2 \<noteq> n * 4 then err_exit ''unexpected size (0x%04x)'' [PI (int n2)]
                else if fn = ''-'' then
                  modify (\<lambda>s. s\<lparr>stdout := stdout s @
                    (if n \<noteq> 64 then ''efuse data:'' @ [CHR 0x0A]
                     else ''efuse data (double):'' @ [CHR 0x0A] @
                          efuse_rows (\<lambda>i. p (i * 2) OR p (i * 2 + 1)) (n div 2) @
                          ''efuse data (raw):'' @ [CHR 0x0A]) @
                    efuse_rows p n\<rparr>)
                else bnd (fopen_wb fn) (\<lambda>ok.
                  if \<not> ok then err_exit ''fopen(dump) failed'' []
                  else bnd (fwrite fn (mslice m 4 (n * 4))) (\<lambda>w.
                    cwhen (w \<noteq> n * 4) (err_exit ''fwrite(dump) failed'' [])))))))))"

section \<open>Commands\<close>

text \<open>A command takes the arguments behind its name and gives those behind its own.\<close>

type_synonym 'd command = "mvars \<Rightarrow> string list \<Rightarrow> ('d host, mvars \<times> string list) cm"

definition blk_or :: "mvars \<Rightarrow> nat \<Rightarrow> u32" where
  "blk_or v n = (if blk_size v \<noteq> 0 then of_nat (blk_size v) else of_nat n)"

definition check_secure :: "mvars \<Rightarrow> u64 \<Rightarrow> ('d host, unit) cm" where
  "check_secure v addr =
     (if NOT (fw_addr v) \<noteq> 0 \<and> secure_boot v \<and> (ucast addr - fw_addr v :: u32) < 0x10000
      then err_exit ''this operation will brick the phone, cancelled'' [] else CMonad.ret ())"

fun check_baud_loop :: "'d usb \<Rightarrow> nat \<Rightarrow> nat \<Rightarrow> ('d host, unit) cm" where
  "check_baud_loop E i 0 = CMonad.ret ()"
| "check_baud_loop E i (Suc k) =
     thn (bnd (gets verbose) (\<lambda>v. cwhen (v \<ge> 1) (DBG_LOG ''checkbaud %d'' [PI (int i + 1)])))
    (thn (send_msg E)
    (bnd (recv_msg E) (\<lambda>r. if r \<noteq> 0 then CMonad.ret () else check_baud_loop E (i + 1) k)))"

definition expect_ver :: "('d host, unit) cm" where
  "expect_ver =
     bnd (gets recv_type) (\<lambda>t.
       if t \<noteq> BSL_REP_VER then err_exit ''ver expected'' []
       else thn (DBG_LOG ''BSL_REP_VER: '' []) (bnd (gets raw_data) (\<lambda>d. fputs_err (print_string d))))"

text \<open>What the version message of FDL1 tells about the chip.\<close>

definition learn_chip :: "byte list \<Rightarrow> mvars \<Rightarrow> mvars" where
  "learn_chip d v =
     (if d = [] \<or> last d \<noteq> 0 then v
      else case strstr (c_str d) ''CHIP ID = 0x'' of
        None \<Rightarrow> v
      | Some j \<Rightarrow>
          let cid = ucast (fst (strtoull 16 (drop (j + 12) (c_str d)))) :: u32; v = v\<lparr>v_chip_id := cid\<rparr>
          in if drop_bit 17 (cid XOR 0x65300000) = 0 then
               v\<lparr>fw_addr := 0x30000000, ram_addr := 0x30000000 OR 0x04000000\<rparr>
             else if drop_bit 16 (cid XOR 0x65620000) = 0 then
               v\<lparr>fw_addr := 0x10000000, ram_addr := 0x10000000 OR 0x04000000\<rparr>
             else if drop_bit 16 (cid XOR 0x98180000) = 0 then v\<lparr>ram_addr := 0x80000000\<rparr>
             else v)"

definition command :: "'d usb \<Rightarrow> u32 \<Rightarrow> byte list \<Rightarrow> ('d host, unit) cm" where
  "command E t d = thn (encode_msg t d) (send_and_check E)"

definition fdl_first :: "'d usb \<Rightarrow> string \<Rightarrow> u32 \<Rightarrow> mvars \<Rightarrow> ('d host, mvars) cm" where
  "fdl_first E fn addr v =
     thn (\<lambda>s. let (r, d) = control_out E [0x21, 34, 0x601, 0, 0] (timeout s) (dev s); s = s\<lparr>dev := d\<rparr>
              in if r < 0 then err_exit ''libusb_control_transfer failed : %s'' [PS (error_name E r)] s
                 else Ret () s)
    (thn (modify (\<lambda>s. s\<lparr>flags := flags s OR FLAGS_CRC16\<rparr>))
    (thn (encode_msg BSL_CMD_CHECK_BAUD [0])
    (thn (send_msg E)
    (thn (recv_msg E)
    (thn expect_ver
    (bnd (gets (\<lambda>s. v\<lparr>secure_boot := secure_boot v \<or>
            raw_data s \<noteq> bytes_of ''SPRD3'' @ [0]\<rparr>)) (\<lambda>v.
     thn (command E BSL_CMD_CONNECT [])
    (thn (send_file E fn addr (end_data v \<noteq> 0) (blk_or v 528) 0 0)
    (thn (if t117_exec_dist v \<noteq> 0 then t117_exec_workaround E (t117_exec_dist v) addr
          else command E BSL_CMD_EXEC_DATA [])
    (thn (modify (\<lambda>s. s\<lparr>flags := flags s AND NOT FLAGS_CRC16\<rparr>))
    (thn (encode_msg BSL_CMD_CHECK_BAUD [0, 0, 0, 0])
    (thn (check_baud_loop E 0 10)
    (thn expect_ver
    (bnd (gets (\<lambda>s. learn_chip (raw_data s) v)) (\<lambda>v.
     thn (command E BSL_CMD_CONNECT [])
    (thn (cwhen (keep_charge v \<noteq> 0) (command E BSL_CMD_KEEP_CHARGE []))
     (CMonad.ret v)))))))))))))))))"

definition fdl_second :: "'d usb \<Rightarrow> string \<Rightarrow> u32 \<Rightarrow> mvars \<Rightarrow> ('d host, mvars) cm" where
  "fdl_second E fn addr v =
     thn (send_file E fn addr (end_data v \<noteq> 0) (blk_or v 528) 0 0)
    (thn (encode_msg BSL_CMD_EXEC_DATA [])
    (thn (send_msg E)
    (bnd (recv_msg_timeout E 15000) (\<lambda>r.
      if r = 0 then err_exit ''timeout reached'' []
      else bnd (gets recv_type) (\<lambda>t.
        thn (if t = BSL_REP_INCOMPATIBLE_PARTITION then DBG_LOG ''FDL2: incompatible partition'' []
             else if t \<noteq> BSL_REP_ACK then err_exit ''unexpected response (0x%04x)'' [PI (uint t)]
             else CMonad.ret ())
        (CMonad.ret v))))))"

definition cmd_fdl :: "'d usb \<Rightarrow> 'd command" where
  "cmd_fdl E v args = (case args of
     fn # adr # rest \<Rightarrow>
       bnd (str_to_addr adr ''ram'' (ram_addr v)) (\<lambda>addr.
       bnd (if fdl_loaded v = 0 then fdl_first E fn (ucast addr) v else fdl_second E fn (ucast addr) v) (\<lambda>v.
         CMonad.ret (v\<lparr>fdl_loaded := fdl_loaded v + 1\<rparr>, rest)))
   | _ \<Rightarrow> err_exit ''bad command'' [])"

definition limit32 :: "u64 \<Rightarrow> ('d host, unit) cm" where
  "limit32 w = cwhen (drop_bit 32 w \<noteq> 0) (err_exit ''32-bit limit reached'' [])"

definition cmd_read_flash :: "'d usb \<Rightarrow> 'd command" where
  "cmd_read_flash E v args = (case args of
     a1 # a2 # a3 # fn # rest \<Rightarrow>
       bnd (str_to_size a1) (\<lambda>addr.
       bnd (str_to_size a2) (\<lambda>offset.
       bnd (if offset = 0 \<and> a3 = ''auto'' then CMonad.ret (1, 0)
            else bnd (str_to_size a3) (\<lambda>sz. CMonad.ret (0, sz))) (\<lambda>(mode, sz).
       thn (limit32 (addr OR sz OR offset OR (addr + offset + sz)))
      (thn (dump_flash E (ucast addr) (ucast offset) (ucast sz) fn (blk_or v 1024) mode)
       (CMonad.ret (v, rest))))))
   | _ \<Rightarrow> err_exit ''bad command'' [])"

definition cmd_write_word :: "'d usb \<Rightarrow> 'd command" where
  "cmd_write_word E v args = (case args of
     a1 # a2 # rest \<Rightarrow>
       bnd (str_to_addr a1 ''fw'' (fw_addr v)) (\<lambda>addr.
         let data = fst (strtoull 0 a2)
         in thn (limit32 addr)
           (thn (check_secure v addr)
           (thn (send_buf E (ucast addr) (end_data v \<noteq> 0) 528 (WRITE32_LE (ucast data)) 4)
            (CMonad.ret (v, rest)))))
   | _ \<Rightarrow> err_exit ''bad command'' [])"

definition cmd_write_data :: "'d usb \<Rightarrow> 'd command" where
  "cmd_write_data E v args = (case args of
     a1 # a2 # a3 # fn # rest \<Rightarrow>
       bnd (str_to_addr a1 ''fw'' (fw_addr v)) (\<lambda>addr.
       bnd (str_to_size a2) (\<lambda>offset.
       bnd (str_to_size a3) (\<lambda>sz.
       thn (limit32 (addr OR sz OR offset OR (addr + sz)))
      (thn (check_secure v addr)
      (thn (send_file E fn (ucast addr) (end_data v \<noteq> 0) (blk_or v 528) (ucast offset) (ucast sz))
       (CMonad.ret (v, rest)))))))
   | _ \<Rightarrow> err_exit ''bad command'' [])"

definition cmd_erase_flash :: "'d usb \<Rightarrow> 'd command" where
  "cmd_erase_flash E v args = (case args of
     a1 # a2 # rest \<Rightarrow>
       bnd (str_to_addr a1 ''fw'' (fw_addr v)) (\<lambda>addr.
       bnd (str_to_size a2) (\<lambda>sz.
       thn (limit32 (addr OR sz OR (addr + sz)))
      (thn (check_secure v addr)
      (thn (erase_flash E (ucast addr) (ucast sz))
       (CMonad.ret (v, rest))))))
   | _ \<Rightarrow> err_exit ''bad command'' [])"

definition cmd_read_mem :: "'d usb \<Rightarrow> 'd command" where
  "cmd_read_mem E v args = (case args of
     a1 # a2 # fn # rest \<Rightarrow>
       bnd (str_to_size a1) (\<lambda>addr.
       bnd (str_to_size a2) (\<lambda>sz.
       thn (limit32 (addr OR sz OR (addr + sz)))
      (thn (dump_mem E (ucast addr) (ucast sz) fn (blk_or v 1024))
       (CMonad.ret (v, rest)))))
   | _ \<Rightarrow> err_exit ''bad command'' [])"

definition cmd_read_part :: "'d usb \<Rightarrow> 'd command" where
  "cmd_read_part E v args = (case args of
     name # a2 # a3 # fn # rest \<Rightarrow>
       bnd (str_to_size a2) (\<lambda>offset.
       bnd (str_to_size a3) (\<lambda>sz.
       thn (cwhen (offset + sz < offset) (err_exit ''64-bit limit reached'' []))
      (thn (dump_partition E name offset sz fn (blk_or v 4096))
       (CMonad.ret (v, rest)))))
   | _ \<Rightarrow> err_exit ''bad command'' [])"

text \<open>The commands with at most two arguments.\<close>

definition one_arg :: "string list \<Rightarrow> (string \<Rightarrow> ('d host, mvars) cm) \<Rightarrow> ('d host, mvars \<times> string list) cm" where
  "one_arg args f = (case args of
     a # rest \<Rightarrow> bnd (f a) (\<lambda>v. CMonad.ret (v, rest))
   | _ \<Rightarrow> err_exit ''bad command'' [])"

definition cmd_write_part :: "'d usb \<Rightarrow> u32 \<Rightarrow> 'd command" where
  "cmd_write_part E r0 v args = (case args of
     name # fn # rest \<Rightarrow> thn (load_partition E r0 name fn (blk_or v 4096)) (CMonad.ret (v, rest))
   | _ \<Rightarrow> err_exit ''bad command'' [])"

definition set_blk_size :: "string \<Rightarrow> mvars \<Rightarrow> mvars" where
  "set_blk_size a v =
     (let n = sint (word_of_int (fst (strtoll 0 a)) :: u32)
      in v\<lparr>blk_size := nat (if n < 0 then 0 else if n > 0xffff then 0xffff else n)\<rparr>)"

definition chip_uid :: "'d usb \<Rightarrow> ('d host, unit) cm" where
  "chip_uid E =
     thn (encode_msg BSL_CMD_READ_CHIP_UID [])
    (thn (send_msg E)
    (thn (recv_msg E)
    (bnd (gets recv_type) (\<lambda>t.
      if t \<noteq> BSL_REP_READ_CHIP_UID then err_exit ''unexpected response (0x%04x)'' [PI (uint t)]
      else thn (DBG_LOG ''BSL_REP_READ_CHIP_UID: '' [])
             (bnd (gets raw_data) (\<lambda>d. fputs_err (print_string d)))))))"

definition set_transcode :: "string \<Rightarrow> ('d host, unit) cm" where
  "set_transcode str =
     (let a = word_of_int (atoi str) :: u32
      in if drop_bit 1 a \<noteq> 0 then err_exit ''bad command'' []
         else modify (\<lambda>s. s\<lparr>flags := (flags s AND NOT FLAGS_TRANSCODE) OR
           (if a \<noteq> 0 then FLAGS_TRANSCODE else 0)\<rparr>))"

definition do_command :: "'d usb \<Rightarrow> u32 \<Rightarrow> string \<Rightarrow> 'd command" where
  "do_command E r0 name v args =
     (let plain = (\<lambda>m. thn m (CMonad.ret (v, args)));
          unary = (\<lambda>f. one_arg args (\<lambda>a. thn (f a) (CMonad.ret v)));
          setv = (\<lambda>f. one_arg args (\<lambda>a. CMonad.ret (f a v)))
      in if name = ''fdl'' then cmd_fdl E v args
         else if name = ''read_flash'' then cmd_read_flash E v args
         else if name = ''write_word'' then cmd_write_word E v args
         else if name = ''write_data'' then cmd_write_data E v args
         else if name = ''erase_flash'' then cmd_erase_flash E v args
         else if name = ''read_mem'' then cmd_read_mem E v args
         else if name = ''part_size'' then unary (\<lambda>a. thn (find_partition_size E a) (CMonad.ret ()))
         else if name = ''read_part'' then cmd_read_part E v args
         else if name = ''partition_list'' then unary (\<lambda>a. partition_list E a 10)
         else if name = ''partition_list_4k'' then unary (\<lambda>a. partition_list E a 7)
         else if name = ''repartition'' then unary (repartition E)
         else if name = ''erase_part'' then unary (erase_partition E)
         else if name = ''write_part'' then cmd_write_part E r0 v args
         else if name = ''read_pactime'' then plain (thn (read_pactime E) (CMonad.ret ()))
         else if name = ''blk_size'' then setv set_blk_size
         else if name = ''chip_uid'' then plain (chip_uid E)
         else if name = ''read_efuse'' then unary (dump_efuse E (v_chip_id v))
         else if name = ''disable_transcode'' then
           plain (thn (command E BSL_CMD_DISABLE_TRANSCODE [])
                    (modify (\<lambda>s. s\<lparr>flags := flags s AND NOT FLAGS_TRANSCODE\<rparr>)))
         else if name = ''transcode'' then unary set_transcode
         else if name = ''keep_charge'' then setv (\<lambda>a v. v\<lparr>keep_charge := atoi a\<rparr>)
         else if name = ''timeout'' then unary (\<lambda>a. modify (\<lambda>s. s\<lparr>timeout := atoi a\<rparr>))
         else if name = ''end_data'' then setv (\<lambda>a v. v\<lparr>end_data := atoi a\<rparr>)
         else if name = ''reset'' then plain (command E BSL_CMD_NORMAL_RESET [])
         else if name = ''power_off'' then plain (command E BSL_CMD_POWER_OFF [])
         else if name = ''t117_exec_dist'' then setv (\<lambda>a v. v\<lparr>t117_exec_dist := word_of_int (fst (strtoll 0 a))\<rparr>)
         else if name = ''verbose'' then unary (\<lambda>a. modify (\<lambda>s. s\<lparr>verbose := atoi a\<rparr>))
         else err_exit ''unknown command'' [])"

text \<open>Every command uses up its name, so the number of arguments is fuel enough.\<close>

fun run_commands :: "'d usb \<Rightarrow> u32 \<Rightarrow> nat \<Rightarrow> mvars \<Rightarrow> string list \<Rightarrow> ('d host, mvars) cm" where
  "run_commands E r0 k v [] = CMonad.ret v"
| "run_commands E r0 0 v (name # args) = no_fuel"
| "run_commands E r0 (Suc k) v (name # args) =
     bnd (do_command E r0 name v args) (\<lambda>(v, rest). run_commands E r0 k v rest)"

section \<open>main\<close>

definition REOPEN_FREQ :: int where "REOPEN_FREQ = 2"

text \<open>The options: \<open>wait\<close> and \<open>verbose\<close>, and the arguments that are left.\<close>

fun parse_options :: "int \<Rightarrow> int \<Rightarrow> string list \<Rightarrow> ('s, int \<times> int \<times> string list) cm" where
  "parse_options w vb [] = ret (w, vb, [])"
| "parse_options w vb (o1 # args) =
     (if o1 = ''--tty'' then
        (case args of [] \<Rightarrow> err_exit ''bad option'' [] | a # args \<Rightarrow> parse_options w vb args)
      else if o1 = ''--wait'' then
        (case args of [] \<Rightarrow> err_exit ''bad option'' [] | a # args \<Rightarrow> parse_options (atoi a * REOPEN_FREQ) vb args)
      else if o1 = ''--verbose'' then
        (case args of [] \<Rightarrow> err_exit ''bad option'' [] | a # args \<Rightarrow> parse_options w (atoi a) args)
      else if o1 \<noteq> [] \<and> hd o1 = CHR ''-'' then err_exit ''unknown option'' []
      else ret (w, vb, o1 # args))"

text \<open>\<open>present i\<close>: the device can be opened at attempt \<open>i\<close>.\<close>

function open_device :: "boot \<Rightarrow> int \<Rightarrow> nat \<Rightarrow> ('d host, unit) cm" where
  "open_device L w i =
     (if present L i then CMonad.ret ()
      else if int i \<ge> w then err_exit ''libusb_open_device failed'' []
      else thn (cwhen (i = 0) (DBG_LOG ''Waiting for connection (%ds)'' [PI (w div REOPEN_FREQ)]))
             (open_device L w (Suc i)))"
  by auto

termination
  by (relation "measure (\<lambda>(L, w, i). nat (w - int i))") auto

declare open_device.simps [simp del]

definition spd_main :: "boot \<Rightarrow> 'd usb \<Rightarrow> u32 \<Rightarrow> string list \<Rightarrow> ('d host, mvars) cm" where
  "spd_main L E r0 args =
     (if init_err L < 0 then err_exit ''libusb_init failed: %s'' [PS (usb_error L (init_err L))]
      else bnd (parse_options (300 * REOPEN_FREQ) 0 args) (\<lambda>(w, vb, args).
        thn (open_device L w 0)
       (thn (spdio_init L 0)
       (thn (modify (\<lambda>s. s\<lparr>flags := flags s OR FLAGS_TRANSCODE, verbose := vb\<rparr>))
        (run_commands E r0 (length args) mvars_init args)))))"

end
