(* ===== verification/Unpac.thy ===== *)
theory Unpac
  imports CMonad CStd
begin

text \<open>
  The firmware unpacker (unpac/unpac.c). The PAC file is a list of bytes with a read
  position, the structures of the format are read from their offsets (the C structures have
  no padding), and the state collects what is printed and the files that are written. The
  crossing of the names with wildcard patterns is specified by the relation \<open>glob\<close>.
\<close>

unbundle bit_operations_syntax

section \<open>Checksum and names\<close>

definition pac_crc16_step :: "u32 \<Rightarrow> u32" where
  "pac_crc16_step crc = drop_bit 1 crc XOR ((0 - (crc AND 1)) AND 0xa001)"

fun pac_crc16 :: "u32 \<Rightarrow> byte list \<Rightarrow> u32" where
  "pac_crc16 crc [] = crc"
| "pac_crc16 crc (b # s) = pac_crc16 ((pac_crc16_step ^^ 8) (crc XOR ucast b)) s"

text \<open>\<open>j + 1 < dn\<close> keeps room for the terminator; the list is what is stored before it.\<close>

fun u16_to_u8 :: "nat \<Rightarrow> u16 list \<Rightarrow> byte list" where
  "u16_to_u8 dn [] = []"
| "u16_to_u8 dn (a # s) =
     (if a = 0 then []
      else let a = (if a - 0x20 \<ge> 0x5f then 0x3f else a)
           in if 1 < dn then ucast a # u16_to_u8 (dn - 1) s else u16_to_u8 dn s)"

text \<open>
  A pattern is a C string (of signed characters), the name an array of 16-bit characters that ends at a zero or at
  its end. The value is \<open>None\<close> when the wildcards are nested too deep. The first function
  is the C function, the second its loop behind the label \<open>wildcard\<close>.
\<close>

function compare_u8_u16 :: "nat \<Rightarrow> byte list \<Rightarrow> u16 list \<Rightarrow> bool option"
  and compare_wildcard :: "nat \<Rightarrow> byte list \<Rightarrow> u16 list \<Rightarrow> bool option" where
  "compare_u8_u16 depth d s =
     (if depth > 10 then None
      else case d of
        [] \<Rightarrow> Some (\<not> (s = [] \<or> hd s = 0))
      | a # d' \<Rightarrow>
          if a = 0x2a then compare_wildcard depth d' s
          else let b = (case s of [] \<Rightarrow> 0 | b # _ \<Rightarrow> b)
            in if a = 0x3f then (if b = 0 then Some True else compare_u8_u16 depth d' (tl s))
               else if (scast a :: u32) \<noteq> ucast b then Some True
               else if a = 0 then Some False
               else compare_u8_u16 depth d' (tl s))"
| "compare_wildcard depth d s =
     (case compare_u8_u16 (depth + 1) d s of
        None \<Rightarrow> None
      | Some False \<Rightarrow> Some False
      | Some True \<Rightarrow>
          (case s of
             [] \<Rightarrow> Some True
           | b # s' \<Rightarrow> if b = 0 then Some True else compare_wildcard depth d s'))"
  by pat_completeness auto

termination
  by (relation "inv_image (lex_prod (measure id) (lex_prod (measure id) (measure id)))
      (\<lambda>x. case x of Inl (depth, d, s) \<Rightarrow> (length d, length s, 0 :: nat)
                   | Inr (depth, d, s) \<Rightarrow> (length d, length s, 1))") auto

declare compare_u8_u16.simps [simp del] compare_wildcard.simps [simp del]

definition check_path :: "byte list \<Rightarrow> int" where
  "check_path path =
     (if list_ex (\<lambda>a. a = 0x2f \<or> a = 0x5c \<or> a = 0x3a) path then -1 else int (length path))"

section \<open>The file format\<close>

definition read16 :: "byte list \<Rightarrow> nat \<Rightarrow> u16" where
  "read16 bs p = ucast (READ16_LE (blit (\<lambda>_. 0) 0 bs) p)"

definition read32 :: "byte list \<Rightarrow> nat \<Rightarrow> u32" where
  "read32 bs p = READ32_LE (blit (\<lambda>_. 0) 0 bs) p"

definition read16s :: "byte list \<Rightarrow> nat \<Rightarrow> nat \<Rightarrow> u16 list" where
  "read16s bs p n = map (\<lambda>i. read16 bs (p + 2 * i)) [0..<n]"

record sprd_head =
  pac_version :: "u16 list"
  pac_size :: u32
  fw_name :: "u16 list"
  fw_version :: "u16 list"
  file_count :: u32
  dir_offset :: u32
  fw_alias :: "u16 list"
  pac_magic :: u32
  head_crc :: u16
  data_crc :: u16

definition head_size :: nat where "head_size = 2124"

definition sprd_head_of :: "byte list \<Rightarrow> sprd_head" where
  "sprd_head_of b = \<lparr>pac_version = read16s b 0 24, pac_size = read32 b 48, fw_name = read16s b 52 256,
     fw_version = read16s b 564 256, file_count = read32 b 1076, dir_offset = read32 b 1080,
     fw_alias = read16s b 1104 100, pac_magic = read32 b 2116, head_crc = read16 b 2120,
     data_crc = read16 b 2122\<rparr>"

record sprd_file =
  struct_size :: u32
  fid :: "u16 list"
  fname :: "u16 list"
  size_high :: u32
  pac_offset_high :: u32
  fsize :: u32
  ftype :: u32
  pac_offset :: u32
  addr_num :: u32
  addrs :: "u32 list"

definition file_struct_size :: nat where "file_struct_size = 2580"

definition sprd_file_of :: "byte list \<Rightarrow> sprd_file" where
  "sprd_file_of b = \<lparr>struct_size = read32 b 0, fid = read16s b 4 256, fname = read16s b 516 256,
     size_high = read32 b 1532, pac_offset_high = read32 b 1536, fsize = read32 b 1540,
     ftype = read32 b 1544, pac_offset = read32 b 1552, addr_num = read32 b 1560,
     addrs = map (\<lambda>i. read32 b (1564 + 4 * i)) [0..<5]\<rparr>"

section \<open>The program\<close>

datatype pac_mode = MODE_LIST | MODE_EXTRACT | MODE_CHECK

record unp =
  pac :: "byte list"
  fpos :: nat
  printed :: string
  written :: "string \<Rightarrow> byte list option"
  writable :: "string \<Rightarrow> bool"
  cwd :: string

definition prints :: "string \<Rightarrow> (unp, unit) cm" where
  "prints str = modify (\<lambda>s. s\<lparr>printed := printed s @ str\<rparr>)"

text \<open>The macro READ.\<close>

definition fread :: "string \<Rightarrow> nat \<Rightarrow> (unp, byte list) cm" where
  "fread name n = (\<lambda>s.
     if fpos s + n \<le> length (pac s) then Ret (take n (drop (fpos s) (pac s))) (s\<lparr>fpos := fpos s + n\<rparr>)
     else err_exit ''fread(%s) failed'' [PS name] s)"

definition fseek :: "nat \<Rightarrow> (unp, unit) cm" where
  "fseek n = modify (\<lambda>s. s\<lparr>fpos := n\<rparr>)"

definition chunk :: nat where "chunk = 0x1000"

definition conv_str :: "u16 list \<Rightarrow> string" where
  "conv_str x = str_of (u16_to_u8 257 x)"

text \<open>Is the file selected by the patterns?\<close>

definition not_match :: "byte list \<Rightarrow> u16 list \<Rightarrow> (unp, bool) cm" where
  "not_match d s = (case compare_u8_u16 0 d s of
     None \<Rightarrow> err_exit ''use less wildcards'' [] | Some r \<Rightarrow> ret r)"

fun selected :: "string list \<Rightarrow> sprd_file \<Rightarrow> (unp, bool) cm" where
  "selected [] f = ret False"
| "selected (p # ps) f =
     bnd (not_match (bytes_of p) (fname f)) (\<lambda>bad1.
       if \<not> bad1 then ret True
       else if hd (fid f) \<noteq> 0 then
         bnd (not_match (bytes_of p) (fid f)) (\<lambda>bad2. if \<not> bad2 then ret True else selected ps f)
       else selected ps f)"

definition file_size :: "sprd_file \<Rightarrow> u64" where
  "file_size f = push_bit 32 (ucast (size_high f)) OR ucast (fsize f)"

definition file_offset :: "sprd_file \<Rightarrow> u64" where
  "file_offset f = push_bit 32 (ucast (pac_offset_high f)) OR ucast (pac_offset f)"

definition addr_line :: "sprd_file \<Rightarrow> string" where
  "addr_line f = (if addr_num f \<le> 5 then
     concat (map (\<lambda>j. if addrs f ! j = 0 then []
       else (if j = 0 then '', addr = 0x'' else '', addr'' @ dec_str j @ '' = 0x'') @ hex_str (unat (addrs f ! j)))
       [0..<unat (addr_num f)]) else [])"

definition file_line :: "sprd_file \<Rightarrow> string" where
  "file_line f =
     (if ftype f > 9 then ''type = 0x'' @ hex_str (unat (ftype f)) else ''type = '' @ dec_str (unat (ftype f))) @
     (if file_size f \<noteq> 0 then '', size = 0x'' @ hex_str (unat (file_size f)) else []) @
     (if file_offset f \<noteq> 0 then '', offset = 0x'' @ hex_str (unat (file_offset f)) else []) @
     addr_line f @
     (if hd (fid f) \<noteq> 0 then '', id = \"'' @ conv_str (fid f) @ ''\"'' else []) @
     (if hd (fname f) \<noteq> 0 then '', name = \"'' @ conv_str (fname f) @ ''\"'' else []) @ newline"

text \<open>Copying \<open>l\<close> bytes to a file, a chunk at a time.\<close>

function copy_out :: "string \<Rightarrow> nat \<Rightarrow> (unp, unit) cm" where
  "copy_out fn l =
     (if l = 0 then ret ()
      else let n = (if l > chunk then chunk else l)
        in bnd (fread ''chunk'' n) (\<lambda>buf.
           thn (modify (\<lambda>s. s\<lparr>written := (written s)(fn :=
                  Some (case written s fn of None \<Rightarrow> buf | Some old \<Rightarrow> old @ buf))\<rparr>))
             (copy_out fn (l - n))))"
  by auto

termination
  by (relation "measure snd") (auto simp: chunk_def split: if_splits)

declare copy_out.simps [simp del]

text \<open>
  The extraction of one file. On an unsafe name the loop goes on without moving the read
  position back to the directory.
\<close>

definition extract_file :: "nat \<Rightarrow> sprd_file \<Rightarrow> (unp, unit) cm" where
  "extract_file i f =
     (let name = conv_str (fname f)
      in thn (prints (name @ newline))
        (if file_offset f \<ge> 2 ^ 63 then err_exit ''fseek failed'' []
         else thn (fseek (unat (file_offset f)))
           (if check_path (u16_to_u8 257 (fname f)) < 1 then prints (''!!! unsafe filename detected'' @ newline)
            else bnd (gets (\<lambda>s. writable s name)) (\<lambda>ok.
              if \<not> ok then err_exit ''fopen(output) failed'' []
              else thn (modify (\<lambda>s. s\<lparr>written := (written s)(name := Some [])\<rparr>))
                  (thn (copy_out name (unat (file_size f)))
                   (fseek (head_size + (i + 1) * file_struct_size)))))))"

fun pac_files :: "pac_mode \<Rightarrow> string list \<Rightarrow> nat \<Rightarrow> nat \<Rightarrow> (unp, unit) cm" where
  "pac_files mode args i 0 = ret ()"
| "pac_files mode args i (Suc k) =
     bnd (fread ''file'' file_struct_size) (\<lambda>b.
       let f = sprd_file_of b
       in if struct_size f \<noteq> of_nat file_struct_size then err_exit ''unexpected struct size'' []
          else if mode = MODE_EXTRACT \<and> (hd (fname f) = 0 \<or> file_offset f = 0 \<or> file_size f = 0)
          then pac_files mode args (i + 1) k
          else bnd (selected args f) (\<lambda>sel.
            thn (if args \<noteq> [] \<and> \<not> sel then ret ()
                 else if mode = MODE_LIST then prints (file_line f)
                 else extract_file i f)
            (pac_files mode args (i + 1) k)))"

text \<open>The CRC of \<open>l\<close> bytes, a chunk at a time.\<close>

function check_data :: "u32 \<Rightarrow> nat \<Rightarrow> (unp, u32) cm" where
  "check_data crc l =
     (if l = 0 then ret crc
      else let n = (if l > chunk then chunk else l)
        in bnd (fread ''chunk'' n) (\<lambda>buf. check_data (pac_crc16 crc buf) (l - n)))"
  by auto

termination
  by (relation "measure snd") (auto simp: chunk_def split: if_splits)

declare check_data.simps [simp del]

definition crc_line :: "string \<Rightarrow> u16 \<Rightarrow> u32 \<Rightarrow> string" where
  "crc_line name have_crc crc =
     name @ '': 0x'' @ hex_pad 4 (unat have_crc) @
     (if ucast have_crc \<noteq> crc then '' (expected 0x'' @ hex_pad 4 (unat crc) @ '')'' else []) @ newline"

definition pac_main :: "pac_mode \<Rightarrow> string list \<Rightarrow> (unp, unit) cm" where
  "pac_main mode args =
     bnd (fread ''head'' head_size) (\<lambda>b.
       let h = sprd_head_of b
       in if pac_magic h \<noteq> NOT 0x50005 then err_exit ''bad pac_magic'' []
          else thn (cwhen (mode = MODE_LIST) (prints (
              ''pac_version: '' @ conv_str (pac_version h) @ newline @
              ''pac_size: '' @ dec_str (unat (pac_size h)) @ newline @
              ''fw_name: '' @ conv_str (fw_name h) @ newline @
              ''fw_version: '' @ conv_str (fw_version h) @ newline @
              ''fw_alias: '' @ conv_str (fw_alias h) @ newline)))
         (thn (cwhen (mode = MODE_LIST \<or> mode = MODE_CHECK)
              (prints (crc_line ''head_crc'' (head_crc h) (pac_crc16 0 (take (head_size - 4) b)))))
         (if dir_offset h \<noteq> of_nat head_size then err_exit ''unexpected directory offset'' []
          else if drop_bit 10 (file_count h) \<noteq> 0 then err_exit ''too many files'' []
          else if mode = MODE_LIST \<or> mode = MODE_EXTRACT then pac_files mode args 0 (unat (file_count h))
          else if unat (pac_size h) < head_size then err_exit ''unexpected pac size'' []
          else bnd (check_data 0 (unat (pac_size h) - head_size)) (\<lambda>crc.
            prints (crc_line ''data_crc'' (data_crc h) crc)))))"

text \<open>
  The arguments: options, mode, file, patterns. \<open>None\<close> for the file means that it cannot be
  opened; \<open>chdir_ok\<close> says whether the directory can be entered.
\<close>

fun unpac_options :: "string option \<Rightarrow> string list \<Rightarrow> (unp, string option \<times> string list) cm" where
  "unpac_options dir [] = ret (dir, [])"
| "unpac_options dir (a # args) =
     (if a \<noteq> [] \<and> hd a = CHR ''-'' then
        (if a = ''-d'' \<or> a = ''--dir'' then
           (case args of [] \<Rightarrow> ret (None, []) | d # args \<Rightarrow> unpac_options (Some d) args)
         else if a = ''--'' then ret (dir, args)
         else err_exit ''unknown option'' [])
      else ret (dir, a # args))"

definition unpac_main ::
  "(string \<Rightarrow> byte list option) \<Rightarrow> (string \<Rightarrow> bool) \<Rightarrow> string list \<Rightarrow> (unp, unit) cm" where
  "unpac_main files chdir_ok argv =
     bnd (unpac_options None argv) (\<lambda>(dir, args). case args of
       m # fn # names \<Rightarrow>
         bnd (if m = ''list'' then ret MODE_LIST
              else if m = ''extract'' then ret MODE_EXTRACT
              else if m = ''check'' then (if names \<noteq> [] then err_exit ''extra arguments'' [] else ret MODE_CHECK)
              else err_exit ''unknown mode'' []) (\<lambda>mode.
         case files fn of
           None \<Rightarrow> err_exit ''fopen(input) failed'' []
         | Some bs \<Rightarrow>
             thn (case dir of
                    Some d \<Rightarrow> (if mode = MODE_EXTRACT then
                      (if \<not> chdir_ok d then err_exit ''chdir failed'' [] else modify (\<lambda>s. s\<lparr>cwd := d\<rparr>))
                      else ret ())
                  | None \<Rightarrow> ret ())
            (thn (modify (\<lambda>s. s\<lparr>pac := bs, fpos := 0\<rparr>))
             (pac_main mode names)))
     | _ \<Rightarrow> err_exit ''Usage: unpac [-d dir] {list|extract|check} firmware.pac [names]'' [])"

section \<open>Patterns\<close>

inductive glob :: "byte list \<Rightarrow> u16 list \<Rightarrow> bool" where
  glob_end: "glob [] []"
| glob_any: "glob ps cs \<Longrightarrow> glob (0x3f # ps) (c # cs)"
| glob_chr: "glob ps cs \<Longrightarrow> p \<noteq> 0x2a \<Longrightarrow> p \<noteq> 0x3f \<Longrightarrow> (scast p :: u32) = ucast c \<Longrightarrow> glob (p # ps) (c # cs)"
| glob_none: "glob ps cs \<Longrightarrow> glob (0x2a # ps) cs"
| glob_more: "glob (0x2a # ps) cs \<Longrightarrow> glob (0x2a # ps) (c # cs)"

inductive_cases glob_NilE: "glob [] cs"
inductive_cases glob_ConsE: "glob (p # ps) cs"

inductive_simps glob_Nil: "glob [] cs"
inductive_simps glob_Cons: "glob (p # ps) cs"

lemma glob_star: "glob (0x2a # ps) cs = (glob ps cs \<or> (\<exists>c cs'. cs = c # cs' \<and> glob (0x2a # ps) cs'))"
  by (subst glob_Cons) auto

text \<open>The name up to its terminator, and the wildcards of a pattern.\<close>

definition name_of :: "u16 list \<Rightarrow> u16 list" where
  "name_of s = takeWhile (\<lambda>c. c \<noteq> 0) s"

definition stars :: "byte list \<Rightarrow> nat" where
  "stars d = length (filter (\<lambda>a. a = 0x2a) d)"

lemma scast_eq_0: "(scast (a :: byte) :: u32) = 0 \<longleftrightarrow> a = 0"
proof
  assume h: "(scast a :: u32) = 0"
  show "a = 0"
  proof (rule bit_word_eqI)
    fix n assume "n < LENGTH(8)"
    then show "bit a n = bit 0 n" using arg_cong [OF h, of "\<lambda>w. bit w n"] by (simp add: bit_simps)
  qed
qed simp

lemma name_of_simps [simp]:
  "name_of [] = []" "name_of (b # s) = (if b = 0 then [] else b # name_of s)"
  by (simp_all add: name_of_def)

lemma stars_Cons [simp]: "stars (a # d) = (if a = 0x2a then Suc (stars d) else stars d)"
  by (simp add: stars_def)

lemma compare_glob:
  "0 \<notin> set d \<Longrightarrow> depth + stars d \<le> 10 \<Longrightarrow> compare_u8_u16 depth d s = Some (\<not> glob d (name_of s))"
  "0 \<notin> set d \<Longrightarrow> depth + 1 + stars d \<le> 10 \<Longrightarrow> compare_wildcard depth d s = Some (\<not> glob (0x2a # d) (name_of s))"
proof (induction depth d s and depth d s rule: compare_u8_u16_compare_wildcard.induct)
  case (1 depth d s)
  have depth: "\<not> depth > 10" using 1(5) by simp
  show ?case
  proof (cases d)
    case Nil
    then show ?thesis using depth
      by (cases s) (auto simp: compare_u8_u16.simps [of depth "[]"] glob_Nil)
  next
    case (Cons a d')
    note unf = compare_u8_u16.simps [of depth "a # d'"]
    have a0: "a \<noteq> 0" "0 \<notin> set d'" using 1(4) Cons by auto
    show ?thesis
    proof (cases "a = 0x2a")
      case True
      then have "compare_wildcard depth d' s = Some (\<not> glob (0x2a # d') (name_of s))"
        using 1(1) [OF depth Cons True] 1(5) a0 Cons by simp
      then show ?thesis using True Cons depth
        by (simp add: compare_u8_u16.simps [of depth "0x2a # d'"])
    next
      case star: False
      have le: "depth + stars d' \<le> 10" using 1(5) Cons star by simp
      show ?thesis
      proof (cases s)
        case Nil
        then show ?thesis using Cons depth star a0
          by (simp add: unf glob_Cons [of a d'] scast_eq_0)
      next
        case s: (Cons b s')
        show ?thesis
        proof (cases "a = 0x3f")
          case True
          have "b \<noteq> 0 \<Longrightarrow> compare_u8_u16 depth d' s' = Some (\<not> glob d' (name_of s'))"
            using 1(2) [OF depth Cons star _ True, of b] a0 le s by simp
          then show ?thesis using True Cons depth s
            by (simp add: compare_u8_u16.simps [of depth "0x3f # d'"] glob_Cons [of "0x3f" d'])
        next
          case False
          have "(scast a :: u32) = ucast b \<Longrightarrow> compare_u8_u16 depth d' s' = Some (\<not> glob d' (name_of s'))"
            using 1(3) [OF depth Cons star _ False, of b] a0 le s by simp
          moreover have "(scast a :: u32) = ucast b \<Longrightarrow> b \<noteq> 0" using a0 scast_eq_0 [of a] by auto
          ultimately show ?thesis using star False Cons depth s a0
            by (auto simp: unf glob_Cons [of a d'])
        qed
      qed
    qed
  qed
next
  case (2 depth d s)
  have r: "compare_u8_u16 (depth + 1) d s = Some (\<not> glob d (name_of s))"
    using 2(1,3,4) by simp
  note unf = compare_wildcard.simps [of depth d]
  show ?case
  proof (cases "glob d (name_of s)")
    case True
    then show ?thesis using r by (simp add: unf glob_none)
  next
    case False
    show ?thesis
    proof (cases s)
      case Nil
      then show ?thesis using r False by (simp add: unf glob_star [of d "[]"])
    next
      case (Cons b s')
      have "b \<noteq> 0 \<Longrightarrow> compare_wildcard depth d s' = Some (\<not> glob (0x2a # d) (name_of s'))"
        using 2(2) [OF r _ Cons] False 2(3,4) by simp
      then show ?thesis
        using r False Cons by (auto simp: unf glob_star [of d "b # _"] glob_star [of d "[]"])
    qed
  qed
qed

section \<open>The CRC in chunks\<close>

lemma pac_crc16_append: "pac_crc16 c (xs @ ys) = pac_crc16 (pac_crc16 c xs) ys"
  by (induction xs arbitrary: c) auto

lemma check_data_run:
  "fpos s + l \<le> length (pac s) \<Longrightarrow>
     check_data c l s = Ret (pac_crc16 c (take l (drop (fpos s) (pac s)))) (s\<lparr>fpos := fpos s + l\<rparr>)"
proof (induction c l arbitrary: s rule: check_data.induct)
  case (1 c l)
  show ?case
  proof (cases "l = 0")
    case True
    then show ?thesis by (simp add: check_data.simps [of c 0] ret_def)
  next
    case False
    define n where "n = (if l > chunk then chunk else l)"
    define buf where "buf = take n (drop (fpos s) (pac s))"
    let ?s = "s\<lparr>fpos := fpos s + n\<rparr>"
    have n: "n \<le> l" by (simp add: n_def)
    have rd: "fread ''chunk'' n s = Ret buf ?s" using 1(2) n by (simp add: fread_def buf_def)
    have ih: "check_data (pac_crc16 c buf) (l - n) ?s =
        Ret (pac_crc16 (pac_crc16 c buf) (take (l - n) (drop (fpos ?s) (pac ?s)))) (?s\<lparr>fpos := fpos ?s + (l - n)\<rparr>)"
      using 1(1) [OF False n_def] 1(2) n by simp
    have "check_data c l s = bnd (fread ''chunk'' n) (\<lambda>buf. check_data (pac_crc16 c buf) (l - n)) s"
      using False by (simp add: check_data.simps [of c l] n_def Let_def)
    also have "\<dots> = Ret (pac_crc16 (pac_crc16 c buf) (take (l - n) (drop (fpos ?s) (pac ?s))))
        (?s\<lparr>fpos := fpos ?s + (l - n)\<rparr>)"
      using rd ih by (simp add: bnd_def)
    also have "pac_crc16 (pac_crc16 c buf) (take (l - n) (drop (fpos ?s) (pac ?s))) =
        pac_crc16 c (take l (drop (fpos s) (pac s)))"
    proof -
      have "take l (drop (fpos s) (pac s)) = take (n + (l - n)) (drop (fpos s) (pac s))" using n by simp
      then show ?thesis
        unfolding take_add by (simp add: buf_def add.commute flip: pac_crc16_append)
    qed
    finally show ?thesis using n by simp
  qed
qed

lemma copy_out_run:
  "fpos s + l \<le> length (pac s) \<Longrightarrow> written s fn = Some old \<Longrightarrow>
     copy_out fn l s = Ret () (s\<lparr>fpos := fpos s + l,
       written := (written s)(fn := Some (old @ take l (drop (fpos s) (pac s))))\<rparr>)"
proof (induction fn l arbitrary: s old rule: copy_out.induct)
  case (1 fn l)
  show ?case
  proof (cases "l = 0")
    case True
    then show ?thesis using 1(3) by (simp add: copy_out.simps [of fn 0] ret_def fun_upd_idem)
  next
    case False
    define n where "n = (if l > chunk then chunk else l)"
    define buf where "buf = take n (drop (fpos s) (pac s))"
    let ?s = "s\<lparr>fpos := fpos s + n, written := (written s)(fn := Some (old @ buf))\<rparr>"
    have n: "n \<le> l" by (simp add: n_def)
    have rd: "fread ''chunk'' n s = Ret buf (s\<lparr>fpos := fpos s + n\<rparr>)" using 1(2) n by (simp add: fread_def buf_def)
    have ih: "copy_out fn (l - n) ?s = Ret () (?s\<lparr>fpos := fpos ?s + (l - n),
       written := (written ?s)(fn := Some ((old @ buf) @ take (l - n) (drop (fpos ?s) (pac ?s))))\<rparr>)"
      by (rule 1(1) [OF False n_def]) (use 1(2) n in simp_all)
    have upd: "?s\<lparr>fpos := fpos ?s + (l - n), written := (written ?s)(fn := Some z)\<rparr> =
        s\<lparr>fpos := fpos s + l, written := (written s)(fn := Some z)\<rparr>" for z
      using n by simp
    have "copy_out fn l s = copy_out fn (l - n) ?s"
      using False rd 1(3) by (simp add: copy_out.simps [of fn l] n_def [symmetric] Let_def bnd_def thn_def modify_def)
    moreover have "(old @ buf) @ take (l - n) (drop (fpos ?s) (pac ?s)) = old @ take l (drop (fpos s) (pac s))"
    proof -
      have "take l (drop (fpos s) (pac s)) = take (n + (l - n)) (drop (fpos s) (pac s))" using n by simp
      then show ?thesis unfolding take_add by (simp add: buf_def add.commute)
    qed
    ultimately show ?thesis using ih unfolding upd by (simp only:)
  qed
qed

end
