(* ===== verification/Bignum.thy ===== *)
theory Bignum
  imports Prelude
begin

text \<open>
  The multi-word arithmetic of the key search (fphelper/fwcrypto.c): numbers as lists of
  32-bit words, least significant first, with their conversions from and to big-endian
  bytes, multiplication, and division modulo 2 ^ 32 by an odd number. \<open>bn_val\<close> and \<open>be_val\<close>
  are the numbers that the lists stand for.
\<close>

unbundle bit_operations_syntax

section \<open>Operations\<close>

definition be_word :: "byte list \<Rightarrow> u32" where
  "be_word bs = READ32_BE (blit (\<lambda>_. 0) 0 bs) 0"

text \<open>\<open>s += n\<close> and reading backwards: the words are taken from the end of the bytes.\<close>

function bignum_frombin :: "byte list \<Rightarrow> u32 list" where
  "bignum_frombin s =
     (let n = length s in
      if n \<ge> 4 then be_word (drop (n - 4) s) # bignum_frombin (take (n - 4) s)
      else if n = 0 then []
      else [let a = ucast (s ! (n - 1))
            in if n > 1 then let a = a OR push_bit 8 (ucast (s ! (n - 2)))
                 in if n > 2 then a OR push_bit 16 (ucast (s ! (n - 3))) else a
               else a])"
  by auto

termination
  by (relation "measure length") auto

declare bignum_frombin.simps [simp del]

fun bignum_tobin :: "u32 list \<Rightarrow> byte list" where
  "bignum_tobin [] = []"
| "bignum_tobin (a # s) = bignum_tobin s @ WRITE32_BE a"

text \<open>The loop \<open>while (c)\<close> of a row, and the row itself, on the words from \<open>d[i]\<close> on.\<close>

fun add_carry :: "u32 list \<Rightarrow> u32 \<Rightarrow> u32 list" where
  "add_carry [] c = []"
| "add_carry (x # d) c =
     (if c = 0 then x # d
      else let a = ucast x + ucast c :: u64 in ucast a # add_carry d (ucast (drop_bit 32 a)))"

fun mul_row :: "u32 \<Rightarrow> u32 list \<Rightarrow> u32 list \<Rightarrow> u32 \<Rightarrow> u32 list" where
  "mul_row m [] d c = add_carry d c"
| "mul_row m (s # ss) [] c = []"
| "mul_row m (s # ss) (x # d) c =
     (let b = ucast m * ucast s :: u64;
          a = ucast x + ucast (ucast b :: u32) + ucast c :: u64;
          c = ucast (drop_bit 32 a) + ucast (drop_bit 32 b)
      in ucast a # mul_row m ss d c)"

fun mul_rows :: "u32 list \<Rightarrow> u32 list \<Rightarrow> u32 list \<Rightarrow> u32 list" where
  "mul_rows [] s2 d = d"
| "mul_rows (m # s1) s2 d =
     (case mul_row m s2 d 0 of [] \<Rightarrow> [] | x # d \<Rightarrow> x # mul_rows s1 s2 d)"

definition bignum_mul :: "u32 list \<Rightarrow> u32 list \<Rightarrow> u32 list" where
  "bignum_mul s1 s2 = mul_rows s1 s2 (replicate (length s1 + length s2) 0)"

fun rev_mul32_loop :: "nat \<Rightarrow> u32 \<Rightarrow> u32 \<Rightarrow> u32 \<Rightarrow> u32 \<Rightarrow> u32" where
  "rev_mul32_loop 0 i v x a = a"
| "rev_mul32_loop (Suc k) i v x a =
     (let (a, v) = (if v AND 1 \<noteq> 0 then (a OR i, v - x) else (a, v))
      in rev_mul32_loop k (i * 2) (drop_bit 1 v) x a)"

text \<open>The bit \<open>i\<close> leaves the word after 32 rounds, which ends the loop.\<close>

definition rev_mul32 :: "u32 \<Rightarrow> u32 \<Rightarrow> u32" where
  "rev_mul32 v x = rev_mul32_loop 32 1 v x 0"

section \<open>Values\<close>

fun bn_val :: "u32 list \<Rightarrow> nat" where
  "bn_val [] = 0"
| "bn_val (a # s) = unat a + 2 ^ 32 * bn_val s"

definition be_val :: "byte list \<Rightarrow> nat" where
  "be_val bs = foldl (\<lambda>n b. 256 * n + unat b) 0 bs"

lemma be_val_Nil [simp]: "be_val [] = 0"
  by (simp add: be_val_def)

lemma be_val_snoc [simp]: "be_val (bs @ [b]) = 256 * be_val bs + unat b"
  by (simp add: be_val_def)

lemma be_val_append: "be_val (xs @ ys) = be_val xs * 256 ^ length ys + be_val ys"
proof (induction ys rule: rev_induct)
  case (snoc y ys)
  have "be_val (xs @ ys @ [y]) = 256 * be_val (xs @ ys) + unat y"
    using be_val_snoc [of "xs @ ys" y] by simp
  with snoc show ?case by (simp add: algebra_simps)
qed simp

section \<open>Multiplication\<close>

lemma bn_val_bound: "bn_val d < 2 ^ (32 * length d)"
proof (induction d)
  case (Cons a d)
  have "unat a < 2 ^ 32" using unsigned_less [of a, where ?'a = nat] by simp
  with Cons show ?case by (simp add: power_add algebra_simps)
qed simp

lemma u64_split:
  fixes a :: u64
  shows "unat (ucast a :: u32) + 2 ^ 32 * unat (ucast (drop_bit 32 a) :: u32) = unat a"
proof -
  have "unat a < 2 ^ 64" using unsigned_less [of a, where ?'a = nat] by simp
  then have "unat a div 2 ^ 32 < 2 ^ 32" by (simp add: less_mult_imp_div_less)
  then show ?thesis by (simp add: word_nat)
qed

lemma unat_ucast64 [simp]: "unat (ucast (w :: u32) :: u64) = unat w"
  using unsigned_less [of w, where ?'a = nat] by (simp add: word_nat)

lemma add_carry_val:
  "bn_val d + unat c < 2 ^ (32 * length d) \<Longrightarrow>
     bn_val (add_carry d c) = bn_val d + unat c \<and> length (add_carry d c) = length d"
proof (induction d c rule: add_carry.induct)
  case (2 x d c)
  show ?case
  proof (cases "c = 0")
    case False
    define a where "a = (ucast x + ucast c :: u64)"
    define c' where "c' = (ucast (drop_bit 32 a) :: u32)"
    have "unat a = unat x + unat c"
      using unsigned_less [of x, where ?'a = nat] unsigned_less [of c, where ?'a = nat]
      by (simp add: a_def unat_word_ariths)
    then have s: "unat (ucast a :: u32) + 2 ^ 32 * unat c' = unat x + unat c"
      using u64_split [of a] by (simp add: c'_def)
    have "unat x + unat c + 2 ^ 32 * bn_val d < 2 ^ 32 * 2 ^ (32 * length d)"
      using 2(2) by (simp add: power_add)
    then have "2 ^ 32 * (unat c' + bn_val d) < 2 ^ 32 * 2 ^ (32 * length d)"
      using s by (simp add: algebra_simps)
    then have "bn_val d + unat c' < 2 ^ (32 * length d)" by simp
    then have "bn_val (add_carry d c') = bn_val d + unat c'" "length (add_carry d c') = length d"
      using 2(1) [OF False a_def] by (simp_all add: c'_def)
    moreover have "add_carry (x # d) c = ucast a # add_carry d c'"
      using False by (simp add: a_def c'_def Let_def)
    ultimately show ?thesis using s by simp
  qed simp
qed simp

lemma mul_row_val:
  "bn_val d + unat m * bn_val s + unat c < 2 ^ (32 * length d) \<Longrightarrow> length s \<le> length d \<Longrightarrow>
     bn_val (mul_row m s d c) = bn_val d + unat m * bn_val s + unat c \<and> length (mul_row m s d c) = length d"
proof (induction m s d c rule: mul_row.induct)
  case (1 m d c)
  then show ?case using add_carry_val by simp
next
  case (3 m s ss x d c)
  define b where "b = (ucast m * ucast s :: u64)"
  define a where "a = (ucast x + ucast (ucast b :: u32) + ucast c :: u64)"
  define c' where "c' = (ucast (drop_bit 32 a) + ucast (drop_bit 32 b) :: u32)"
  have lt: "unat x < 2 ^ 32" "unat m < 2 ^ 32" "unat s < 2 ^ 32" "unat c < 2 ^ 32"
    using unsigned_less [of x, where ?'a = nat] unsigned_less [of m, where ?'a = nat]
      unsigned_less [of s, where ?'a = nat] unsigned_less [of c, where ?'a = nat] by simp_all
  have ms: "unat m * unat s \<le> (2 ^ 32 - 1) * (2 ^ 32 - 1)"
    using lt by (intro mult_le_mono) auto
  have ub: "unat b = unat m * unat s"
    using ms by (simp add: b_def unat_word_ariths)
  let ?bl = "unat (ucast b :: u32)" and ?bh = "unat (ucast (drop_bit 32 b) :: u32)"
  let ?ah = "unat (ucast (drop_bit 32 a) :: u32)"
  have bs: "?bl + 2 ^ 32 * ?bh = unat m * unat s" using u64_split [of b] ub by simp
  have bl: "?bl < 2 ^ 32" using unsigned_less [of "ucast b :: u32", where ?'a = nat] by simp
  have ua: "unat a = unat x + ?bl + unat c"
    using lt bl by (simp add: a_def unat_word_ariths)
  have as: "unat (ucast a :: u32) + 2 ^ 32 * ?ah = unat x + ?bl + unat c"
    using u64_split [of a] ua by simp
  have "2 ^ 32 * (?ah + ?bh) \<le> unat x + unat c + unat m * unat s"
    using as bs unfolding distrib_left by linarith
  also have "\<dots> < 2 ^ 32 * 2 ^ 32" using lt ms by simp
  finally have "?ah + ?bh < 2 ^ 32" by simp
  then have uc: "unat c' = ?ah + ?bh" by (simp add: c'_def unat_word_ariths)
  have key: "unat (ucast a :: u32) + 2 ^ 32 * unat c' = unat x + unat c + unat m * unat s"
    using as bs unfolding uc distrib_left by linarith
  have "unat x + 2 ^ 32 * bn_val d + unat m * (unat s + 2 ^ 32 * bn_val ss) + unat c
      < 2 ^ 32 * 2 ^ (32 * length d)"
    using 3(2) by (simp add: power_add)
  then have "2 ^ 32 * (bn_val d + unat m * bn_val ss + unat c') < 2 ^ 32 * 2 ^ (32 * length d)"
    using key by (simp add: algebra_simps)
  then have "bn_val d + unat m * bn_val ss + unat c' < 2 ^ (32 * length d)" by simp
  then have ih: "bn_val (mul_row m ss d c') = bn_val d + unat m * bn_val ss + unat c'"
    "length (mul_row m ss d c') = length d"
    using 3(1) [OF b_def a_def c'_def] 3(3) by simp_all
  have "mul_row m (s # ss) (x # d) c = ucast a # mul_row m ss d c'"
    by (simp add: a_def b_def c'_def Let_def)
  then have "bn_val (mul_row m (s # ss) (x # d) c) =
      unat (ucast a :: u32) + 2 ^ 32 * (bn_val d + unat m * bn_val ss + unat c')"
    using ih by simp
  also have "\<dots> = (unat (ucast a :: u32) + 2 ^ 32 * unat c') + 2 ^ 32 * bn_val d + unat m * (2 ^ 32 * bn_val ss)"
    unfolding distrib_left by (simp only: ac_simps)
  also have "\<dots> = bn_val (x # d) + unat m * bn_val (s # ss) + unat c"
    unfolding key bn_val.simps distrib_left by (simp only: ac_simps)
  finally show ?case
    using \<open>mul_row m (s # ss) (x # d) c = ucast a # mul_row m ss d c'\<close> ih(2) by simp
qed simp

lemma mul_rows_val:
  "bn_val d + bn_val s1 * bn_val s2 < 2 ^ (32 * length d) \<Longrightarrow> length s1 + length s2 \<le> length d \<Longrightarrow>
     bn_val (mul_rows s1 s2 d) = bn_val d + bn_val s1 * bn_val s2 \<and> length (mul_rows s1 s2 d) = length d"
proof (induction s1 s2 d rule: mul_rows.induct)
  case (2 m s1 s2 d)
  have "bn_val d + unat m * bn_val s2 + unat (0 :: u32) < 2 ^ (32 * length d)"
    using 2(2) by (simp add: algebra_simps)
  then have row: "bn_val (mul_row m s2 d 0) = bn_val d + unat m * bn_val s2"
    "length (mul_row m s2 d 0) = length d"
    using mul_row_val [of d m s2 0] 2(3) by simp_all
  have "mul_row m s2 d 0 \<noteq> []" using row(2) 2(3) by auto
  then obtain x d' where xd: "mul_row m s2 d 0 = x # d'" by (cases "mul_row m s2 d 0") auto
  then have v: "unat x + 2 ^ 32 * bn_val d' = bn_val d + unat m * bn_val s2" and l: "length d = Suc (length d')"
    using row by simp_all
  have "2 ^ 32 * (bn_val d' + bn_val s1 * bn_val s2) \<le> bn_val d + (unat m + 2 ^ 32 * bn_val s1) * bn_val s2"
    using v by (simp add: algebra_simps)
  also have "\<dots> < 2 ^ 32 * 2 ^ (32 * length d')" using 2(2) l by (simp add: power_add)
  finally have "bn_val d' + bn_val s1 * bn_val s2 < 2 ^ (32 * length d')" by simp
  then have "bn_val (mul_rows s1 s2 d') = bn_val d' + bn_val s1 * bn_val s2"
    "length (mul_rows s1 s2 d') = length d'"
    using 2(1) [OF xd] 2(3) l by simp_all
  then show ?case using xd v l by (simp add: algebra_simps)
qed simp

lemma bn_val_zeros [simp]: "bn_val (replicate n 0) = 0"
  by (induction n) auto

lemma bignum_mul_val: "bn_val (bignum_mul s1 s2) = bn_val s1 * bn_val s2"
proof -
  have "bn_val s1 * bn_val s2 < 2 ^ (32 * length s1) * 2 ^ (32 * length s2)"
    by (intro mult_strict_mono bn_val_bound) simp_all
  then show ?thesis
    using mul_rows_val [of "replicate (length s1 + length s2) 0" s1 s2]
    by (simp add: bignum_mul_def power_add distrib_left)
qed

section \<open>Division\<close>

lemma odd_test: "(w AND 1 \<noteq> (0 :: u32)) = odd w"
  by (simp add: and_one_eq odd_iff_mod_2_eq_one)

lemma two_drop:
  assumes "even (w :: u32)" shows "2 * drop_bit 1 w = w"
proof -
  have "push_bit 1 (drop_bit 1 w) = w"
  proof (rule bit_word_eqI)
    fix n assume "n < LENGTH(32)"
    then show "bit (push_bit 1 (drop_bit 1 w)) n = bit w n"
      using assms by (cases n) (simp_all only: bit_push_bit_iff bit_drop_bit_eq o_def bit_0, simp_all)
  qed
  then show ?thesis by (simp add: push_bit_eq_mult mult.commute)
qed

lemma push_bit_Suc_drop:
  assumes "even (w :: u32)" shows "push_bit (Suc k) (drop_bit 1 w) = push_bit k w"
proof -
  have "push_bit (Suc k) (drop_bit 1 w) = (2 * drop_bit 1 w) * 2 ^ k"
    by (simp only: push_bit_eq_mult power_Suc ac_simps)
  then show ?thesis by (simp only: two_drop [OF assms] push_bit_eq_mult)
qed

lemma push_bit_32 [simp]: "push_bit 32 (w :: u32) = 0"
  by (rule bit_word_eqI) (simp add: bit_simps)

lemma rev_mul32_inv:
  assumes "odd x"
  shows "k + j = 32 \<Longrightarrow> a = take_bit k a \<Longrightarrow> a * x + push_bit k v = v0 \<Longrightarrow>
    rev_mul32_loop j (push_bit k 1) v x a * x = v0"
proof (induction j arbitrary: k a v)
  case 0
  then show ?case by simp
next
  case (Suc j)
  show ?case
  proof (cases "odd v")
    case True
    have a': "a OR push_bit k 1 = a + push_bit k 1"
      by (rule disjunctive_add [symmetric], subst Suc.prems(2)) (auto simp: bit_simps)
    have t: "a OR push_bit k 1 = take_bit (Suc k) (a OR push_bit k 1)"
      by (subst (1 2) Suc.prems(2), rule bit_word_eqI) (auto simp: bit_simps)
    have "even (v - x)" using True assms by simp
    then have "(a OR push_bit k 1) * x + push_bit (Suc k) (drop_bit 1 (v - x)) = v0"
      using Suc.prems(3)
      unfolding a' push_bit_Suc_drop [OF \<open>even (v - x)\<close>] by (simp add: push_bit_eq_mult algebra_simps)
    then have "rev_mul32_loop j (push_bit (Suc k) 1) (drop_bit 1 (v - x)) x (a OR push_bit k 1) * x = v0"
      using Suc.IH [of "Suc k" "a OR push_bit k 1"] Suc.prems(1) t by simp
    then show ?thesis using True by (simp add: odd_test push_bit_eq_mult mult.commute)
  next
    case False
    have t: "a = take_bit (Suc k) a"
      by (subst (1 2) Suc.prems(2), rule bit_word_eqI) (auto simp: bit_simps)
    have "a * x + push_bit (Suc k) (drop_bit 1 v) = v0"
      using False Suc.prems(3) push_bit_Suc_drop [of v k] by simp
    then have "rev_mul32_loop j (push_bit (Suc k) 1) (drop_bit 1 v) x a * x = v0"
      using Suc.IH [of "Suc k" a] Suc.prems(1) t by simp
    then show ?thesis using False by (simp add: odd_test push_bit_eq_mult mult.commute)
  qed
qed

lemma rev_mul32_inverse: "odd x \<Longrightarrow> rev_mul32 v x * x = v"
  using rev_mul32_inv [of x 0 32 0 v v] by (simp add: rev_mul32_def)

section \<open>Conversions\<close>

lemma digits256:
  "256 * (256 * (256 * (n div 2 ^ 24) + n div 2 ^ 16 mod 256) + n div 2 ^ 8 mod 256) + n mod 256 = (n::nat)"
proof -
  have d: "n div 2 ^ 16 = n div 2 ^ 8 div 256" "n div 2 ^ 24 = n div 2 ^ 8 div 256 div 256" "n div 2 ^ 8 = n div 256"
    by (simp_all add: div_mult2_eq [symmetric])
  show ?thesis unfolding d
    using mult_div_mod_eq [of 256 n] mult_div_mod_eq [of 256 "n div 256"]
      mult_div_mod_eq [of 256 "n div 256 div 256"] by simp
qed

lemma be_val_WRITE32_BE: "be_val (WRITE32_BE a) = unat a"
proof -
  have "unat a < 2 ^ 32" using unsigned_less [of a, where ?'a = nat] by simp
  then have "unat a div 2 ^ 24 mod 256 = unat a div 2 ^ 24" by (simp add: less_mult_imp_div_less)
  with digits256 [of "unat a"] show ?thesis
    by (simp add: WRITE32_BE_def be_val_def unat_ucast unat_drop_bit)
qed

lemma be_word_WRITE32_BE: "be_word (WRITE32_BE a) = a"
  by (simp add: be_word_def READ32_BE_WRITE)

lemma be_val4: "length bs = 4 \<Longrightarrow> be_val bs < 2 ^ 32"
proof -
  assume "length bs = 4"
  then obtain a b c d where "bs = [a, b, c, d]"
    by (auto simp: length_Suc_conv eval_nat_numeral)
  then show ?thesis
    using byte_less [of a] byte_less [of b] byte_less [of c] byte_less [of d] by (simp add: be_val_def)
qed

text \<open>The bytes of a word are determined by its value.\<close>

lemma unat_byte_or:
  "unat (ucast (a :: byte) OR push_bit 8 w :: u32) = unat a + 256 * (unat w mod 2 ^ 24)"
proof -
  have "ucast a OR push_bit 8 w = ucast a + push_bit 8 w"
    by (rule disjunctive_add [symmetric]) (auto simp: bit_simps dest: bit_byte)
  moreover have "push_bit 8 w = 256 * w" by (simp add: push_bit_eq_mult)
  moreover have "unat (256 * w) = 256 * (unat w mod 2 ^ 24)"
  proof -
    have "unat (256 * w) = 256 * unat w mod (256 * 2 ^ 24)" by (simp add: unat_word_ariths)
    then show ?thesis by (simp only: mult_mod_right)
  qed
  moreover have "unat (ucast a :: u32) = unat a" using byte_less [of a] by (simp add: word_nat)
  moreover have "unat w mod 2 ^ 24 < 2 ^ 24" by simp
  ultimately show ?thesis using byte_less [of a] by (simp add: unat_word_ariths)
qed

lemma unat_be_word:
  "unat (be_word [a, b, c, d]) = be_val [a, b, c, d]"
proof -
  have eq: "be_word [a, b, c, d] = ucast d OR push_bit 8 (ucast c OR push_bit 8 (ucast b OR push_bit 8 (ucast a)))"
    unfolding be_word_def READ32_BE_def blit_def
    by (rule bit_word_eqI) (auto simp: bit_simps dest: bit_byte)
  have a: "unat (ucast a :: u32) = unat a" using byte_less [of a] by (simp add: word_nat)
  show ?thesis
    unfolding eq be_val_def unat_byte_or a
    using byte_less [of a] byte_less [of b] byte_less [of c] byte_less [of d] by simp
qed

lemma be_word_val: "length bs = 4 \<Longrightarrow> unat (be_word bs) = be_val bs"
  by (auto simp: length_Suc_conv eval_nat_numeral unat_be_word)

lemma be_val_tobin: "be_val (bignum_tobin ws) = bn_val ws"
  by (induction ws) (simp_all add: be_val_append be_val_WRITE32_BE)

lemma length_tobin [simp]: "length (bignum_tobin ws) = 4 * length ws"
  by (induction ws) simp_all

lemma frombin_tobin: "bignum_frombin (bignum_tobin ws) = ws"
proof (induction ws)
  case Nil
  show ?case by (subst bignum_frombin.simps) simp
next
  case (Cons a ws)
  then show ?case by (subst bignum_frombin.simps) (simp add: be_word_WRITE32_BE Let_def)
qed

lemma bn_val_frombin: "bn_val (bignum_frombin s) = be_val s"
proof (induction s rule: bignum_frombin.induct)
  case (1 s)
  show ?case
  proof (cases "length s \<ge> 4")
    case True
    let ?h = "take (length s - 4) s" and ?t = "drop (length s - 4) s"
    have "be_val s = be_val ?h * 256 ^ length ?t + be_val ?t"
      using be_val_append [of ?h ?t] by simp
    moreover have "be_val ?t = unat (be_word ?t)"
      using True be_word_val [of ?t] by simp
    ultimately show ?thesis
      using 1 [OF refl True] True by (subst bignum_frombin.simps) (simp add: Let_def)
  next
    case False
    have two: "unat (ucast a OR push_bit 8 (ucast b) :: u32) = be_val [b, a]" for a b :: byte
      using byte_less [of b] by (simp add: unat_byte_or be_val_def unat_ucast)
    have three: "unat (ucast a OR push_bit 8 (ucast b) OR push_bit 16 (ucast c) :: u32) = be_val [c, b, a]"
      for a b c :: byte
    proof -
      have eq: "(ucast a OR push_bit 8 (ucast b) OR push_bit 16 (ucast c) :: u32) =
          ucast a OR push_bit 8 (ucast b OR push_bit 8 (ucast c))"
        by (rule bit_word_eqI) (auto simp: bit_simps dest: bit_byte)
      have c: "unat (ucast c :: u32) = unat c"
        using byte_less [of c] by (simp add: unat_ucast)
      show ?thesis
        unfolding eq be_val_def unat_byte_or c using byte_less [of b] byte_less [of c] by simp
    qed
    have one: "unat (ucast a :: u32) = be_val [a]" for a :: byte
      using byte_less [of a] by (simp add: be_val_def unat_ucast)
    from False consider "s = []" | a where "s = [a]" | a b where "s = [b, a]" | a b c where "s = [c, b, a]"
      by (auto simp: not_le less_Suc_eq eval_nat_numeral length_Suc_conv)
    then show ?thesis
      by cases (subst bignum_frombin.simps, simp add: one two three or.assoc)+
  qed
qed

section \<open>Properties\<close>

text \<open>
  C40: bignum_mul computes the product of the numbers its operands stand for, for operands of
  every length and with every carry.
\<close>

theorem bignum_mul_is_product: "bn_val (bignum_mul s1 s2) = bn_val s1 * bn_val s2"
  by (rule bignum_mul_val)

text \<open>
  Rev_mul32 divides modulo 2 ^ 32: for every odd divisor the result times the divisor is
  the dividend.
\<close>

theorem rev_mul32_divides: "odd x \<Longrightarrow> rev_mul32 v x * x = v"
  by (rule rev_mul32_inverse)

theorem rev_mul32_divides_witness: "rev_mul32 0xdeadbeef 0x10001 * 0x10001 = 0xdeadbeef"
  by (rule rev_mul32_divides) simp

text \<open>
  The conversions between bytes and words keep the value, in both directions, for byte
  strings of every length.
\<close>

theorem bignum_conversions:
  "bn_val (bignum_frombin s) = be_val s \<and> be_val (bignum_tobin ws) = bn_val ws \<and>
   bignum_frombin (bignum_tobin ws) = ws"
  by (simp add: bn_val_frombin be_val_tobin frombin_tobin)

end
