(* ===== verification/FwCrypto.thy ===== *)
theory FwCrypto
  imports Bignum CMonad CStd
begin

text \<open>
  The signing tool for feature phone firmware (fphelper/fwcrypto.c): the search for the
  boot key, whose primes come from a weak generator, and checking and making the signature
  of a firmware image. OpenSSL is a parameter, the record \<open>crypto\<close>; allocations succeed.
\<close>

unbundle bit_operations_syntax

section \<open>The libraries and the state\<close>

record rsa =
  rsa_n :: nat
  rsa_e :: nat
  rsa_d :: nat
  rsa_p :: nat
  rsa_q :: nat
  rsa_dmp1 :: nat
  rsa_dmq1 :: nat
  rsa_iqmp :: nat

record crypto =
  SHA1 :: "byte list \<Rightarrow> byte list"
  MD5 :: "byte list \<Rightarrow> byte list"
  BN_bin2bn :: "byte list \<Rightarrow> nat"
  BN_bn2bin :: "nat \<Rightarrow> byte list"
  BN_bn2binpad :: "nat \<Rightarrow> nat \<Rightarrow> byte list option"
  BN_num_bytes :: "nat \<Rightarrow> nat"
  BN_sub :: "nat \<Rightarrow> nat \<Rightarrow> nat"
  BN_mul :: "nat \<Rightarrow> nat \<Rightarrow> nat"
  BN_mod :: "nat \<Rightarrow> nat \<Rightarrow> nat"
  BN_mod_inverse :: "nat \<Rightarrow> nat \<Rightarrow> nat"
  RSA_check_key :: "rsa \<Rightarrow> int"
  RSA_public_decrypt :: "nat \<Rightarrow> nat \<Rightarrow> byte list \<Rightarrow> int \<times> byte list"
  RSA_private_encrypt :: "rsa \<Rightarrow> byte list \<Rightarrow> int \<times> byte list"
  PEM_read :: "bool \<Rightarrow> byte list \<Rightarrow> rsa option"
  PEM_write :: "rsa \<Rightarrow> byte list option"

record fws =
  disk_files :: "string \<Rightarrow> byte list option"
  may_write :: "string \<Rightarrow> bool"
  printed_log :: "(string \<times> parg list) list"

definition fw_printf :: "string \<Rightarrow> parg list \<Rightarrow> (fws, unit) cm" where
  "fw_printf fmt args = modify (\<lambda>s. s\<lparr>printed_log := printed_log s @ [(fmt, args)]\<rparr>)"

definition PU :: "u32 \<Rightarrow> parg" where "PU w = PI (uint w)"

text \<open>The macros \<open>READ32_LE\<close> and \<open>READ32_BE\<close> on a buffer held as a list.\<close>

definition le32_at :: "byte list \<Rightarrow> nat \<Rightarrow> u32" where
  "le32_at bs off = READ32_LE (blit (\<lambda>_. 0) 0 bs) off"

definition be32_at :: "byte list \<Rightarrow> nat \<Rightarrow> u32" where
  "be32_at bs off = READ32_BE (blit (\<lambda>_. 0) 0 bs) off"

definition bytes_at :: "byte list \<Rightarrow> nat \<Rightarrow> nat \<Rightarrow> byte list" where
  "bytes_at bs off n = take n (drop off bs)"

definition put_at :: "byte list \<Rightarrow> nat \<Rightarrow> byte list \<Rightarrow> byte list" where
  "put_at bs off xs = take off bs @ xs @ drop (off + length xs) bs"

section \<open>Hashing and files\<close>

text \<open>SHA-1 of the words of the data in the other byte order; the last \<open>len % 4\<close> bytes do not count.\<close>

fun swap_words :: "byte list \<Rightarrow> byte list" where
  "swap_words (a # b # c # d # p) = d # c # b # a # swap_words p"
| "swap_words p = []"

definition sprd_sha1 :: "crypto \<Rightarrow> byte list \<Rightarrow> byte list" where
  "sprd_sha1 C buf = SHA1 C (swap_words buf)"

definition fw_loadfile :: "string \<Rightarrow> fws \<Rightarrow> byte list option" where
  "fw_loadfile fn s = (case disk_files s fn of None \<Rightarrow> None | Some [] \<Rightarrow> None | Some bs \<Rightarrow> Some bs)"

definition load_image :: "string \<Rightarrow> (fws, byte list) cm" where
  "load_image fn = bnd (gets (fw_loadfile fn)) (\<lambda>img.
     case img of None \<Rightarrow> err_exit ''loadfile(\"%s\") failed'' [PS fn] | Some bs \<Rightarrow> ret bs)"

definition rsa_from_file :: "'z crypto_scheme \<Rightarrow> string \<Rightarrow> bool \<Rightarrow> (fws, rsa option) cm" where
  "rsa_from_file C fn priv = bnd (gets (\<lambda>s. disk_files s fn)) (\<lambda>f.
     case f of
       None \<Rightarrow> thn (fw_printf ''!!! BIO_new_file failed'' []) (ret None)
     | Some bs \<Rightarrow> (case PEM_read C priv bs of
           None \<Rightarrow> thn (fw_printf ''!!! PEM_read_bio_RSA%s failed''
             [PS (if priv then ''PrivateKey'' else ''_PUBKEY'')]) (ret None)
         | Some k \<Rightarrow> ret (Some k)))"

section \<open>The generator of the primes\<close>

definition md5_empty :: "byte list" where
  "md5_empty = [0x93,0xb8,0x85,0xad,0xfe,0x0d,0xa0,0x89,
     0xcd,0xf6,0x34,0x90,0x4f,0xd5,0x9f,0x71]"

text \<open>The second loop, from the last byte to the first.\<close>

fun rand_init_loop :: "u32 \<Rightarrow> (byte \<times> byte) list \<Rightarrow> byte list" where
  "rand_init_loop a [] = []"
| "rand_init_loop a ((sd, h) # r) =
     (let a = a + (ucast sd + push_bit 8 (ucast h))
      in ucast a # rand_init_loop (drop_bit 8 a) r)"

definition rand_init :: "u32 \<Rightarrow> byte list" where
  "rand_init init =
     (let sd = map (\<lambda>i. ucast (drop_bit i init)) [0..<16]
      in rev (rand_init_loop 0 (rev (zip sd md5_empty))))"

text \<open>
  \<open>while (!seed[--i]++ && i)\<close>: a byte that was zero, not one that has become zero, passes
  the increment on.
\<close>

fun rand_inc :: "byte list \<Rightarrow> byte list" where
  "rand_inc [] = []"
| "rand_inc (x # xs) = (x + 1) # (if x = 0 then rand_inc xs else xs)"

definition rand_next :: "byte list \<Rightarrow> byte list" where
  "rand_next sd = rev (rand_inc (rev sd))"

definition rand_buf :: "crypto \<Rightarrow> byte list \<Rightarrow> byte list" where
  "rand_buf C sd = MD5 C sd"

definition guess_hi :: "crypto \<Rightarrow> u32 \<Rightarrow> u32" where
  "guess_hi C i =
     (let r = rand_init i;
          p = rand_buf C r; r = rand_next r;
          r = rand_next r; r = rand_next r; r = rand_next r;
          q = rand_buf C r;
          t0 = be32_at p 0 OR 0xc0000000;
          t1 = be32_at q 0 OR 0xc0000000
      in ucast (drop_bit 32 (ucast t0 * ucast t1 :: u64)))"

function fast_check_loop :: "crypto \<Rightarrow> u32 \<Rightarrow> nat \<Rightarrow> int" where
  "fast_check_loop C hi i =
     (if i < 2 ^ 23
      then if hi - guess_hi C (of_nat i) < 2 then int i else fast_check_loop C hi (i + 1)
      else -1)"
  by auto

termination
  by (relation "measure (\<lambda>(C, hi, i). 2 ^ 23 - i)") auto

declare fast_check_loop.simps [simp del]

definition fast_check_n :: "crypto \<Rightarrow> u32 \<Rightarrow> int" where
  "fast_check_n C hi = fast_check_loop C hi 0"

section \<open>The search for the key\<close>

fun rand_fill :: "crypto \<Rightarrow> nat \<Rightarrow> byte list \<Rightarrow> byte list" where
  "rand_fill C 0 r = []"
| "rand_fill C (Suc k) r = rand_buf C r @ rand_fill C k (rand_next r)"

text \<open>One candidate: the low words \<open>p0\<close> and \<open>q0\<close> and the second word of their product.\<close>

definition candidate :: "u32 list \<Rightarrow> u32 list \<Rightarrow> u32 list \<Rightarrow> nat \<Rightarrow> (u32 \<times> u32) option" where
  "candidate p q n iter =
     (let p0 = p ! 0 + of_nat iter;
          q0 = rev_mul32 (n ! 0) p0
      in if drop_bit 25 (q0 - q ! 0) \<noteq> 0 then None
         else let n1 = ucast (drop_bit 32 (ucast p0 * ucast q0 :: u64)) :: u32;
                  n1 = (if p0 < p ! 0 then n1 + q0 else n1);
                  n1 = (if q0 < q ! 0 then n1 + p0 else n1);
                  n1 = n1 + (p0 * (q ! 1) + q0 * (p ! 1))
              in if n1 = n ! 1 then Some (p0, q0) else None)"

definition set_low :: "u32 list \<Rightarrow> u32 \<Rightarrow> u32 list" where
  "set_low p p0 = p[0 := p0, 1 := p ! 1 + (if p0 < p ! 0 then 1 else 0)]"

function key_loop :: "u32 list \<Rightarrow> u32 list \<Rightarrow> u32 list \<Rightarrow> nat \<Rightarrow> (fws, u32 list \<times> u32 list) cm" where
  "key_loop p q n iter =
     (if iter < 2 ^ 25 then
        (case candidate p q n iter of
           None \<Rightarrow> key_loop p q n (iter + 2)
         | Some (p0, q0) \<Rightarrow>
             thn (fw_printf ''found match: p+0x%x q+0x%x'' [PU (p0 - p ! 0), PU (q0 - q ! 0)])
               (if bignum_mul (set_low p p0) (set_low q q0) = n
                then ret (set_low p p0, set_low q q0)
                else key_loop p q n (iter + 2)))
      else err_exit ''key not found'' [])"
  by pat_completeness auto

termination
  by (relation "measure (\<lambda>(p, q, n, iter). 2 ^ 25 - iter)") auto

declare key_loop.simps [simp del]

definition create_rsa :: "crypto \<Rightarrow> nat \<Rightarrow> nat \<Rightarrow> nat \<Rightarrow> nat \<Rightarrow> rsa" where
  "create_rsa C n e p q =
     (let p1 = BN_sub C p 1;
          q1 = BN_sub C q 1;
          phi = BN_mul C p1 q1;
          d = BN_mod_inverse C e phi
      in \<lparr>rsa_n = n, rsa_e = e, rsa_d = d, rsa_p = p, rsa_q = q,
          rsa_dmp1 = BN_mod C d p1, rsa_dmq1 = BN_mod C d q1, rsa_iqmp = BN_mod_inverse C q p\<rparr>)"

text \<open>\<open>memcmp (p, q, 64) < 0\<close> on the words as they lie in the memory of a little-endian host.\<close>

fun memcmp_less :: "byte list \<Rightarrow> byte list \<Rightarrow> bool" where
  "memcmp_less (a # as) (b # bs) = (a < b \<or> (a = b \<and> memcmp_less as bs))"
| "memcmp_less _ _ = False"

definition swap_primes :: "u32 list \<Rightarrow> u32 list \<Rightarrow> bool" where
  "swap_primes p q = memcmp_less (concat (map WRITE32_LE p)) (concat (map WRITE32_LE q))"

definition make_key :: "crypto \<Rightarrow> byte list \<Rightarrow> u32 list \<Rightarrow> u32 list \<Rightarrow> rsa" where
  "make_key C boot_key p q =
     (let n = BN_bin2bn C (bytes_at boot_key 4 128);
          e = BN_bin2bn C (bytes_at boot_key 0 4);
          buf = bignum_tobin p @ bignum_tobin q;
          swap = (if swap_primes p q then 64 else 0);
          p = BN_bin2bn C (bytes_at buf swap 64);
          q = BN_bin2bn C (bytes_at buf (64 - swap) 64)
      in create_rsa C n e p q)"

text \<open>The words of the first guess, odd and with the two top bits set.\<close>

definition first_guess :: "byte list \<Rightarrow> u32 list" where
  "first_guess buf =
     (let p = bignum_frombin buf; p = p[0 := p ! 0 OR 1]
      in p[15 := p ! 15 OR push_bit 30 3])"

definition find_boot_key :: "crypto \<Rightarrow> byte list \<Rightarrow> (fws, rsa) cm" where
  "find_boot_key C boot_key =
     (let n = bignum_frombin (bytes_at boot_key 4 128)
      in thn (fw_printf ''boot key N: 0x%08x..%08x'' [PU (n ! 31), PU (n ! 0)])
        (let sd = fast_check_n C (be32_at boot_key 4)
         in thn (cwhen (sd < 0) (err_exit ''key seed not found'' []))
           (thn (fw_printf ''found key seed: 0x%06x'' [PI sd])
             (let buf = rand_fill C 8 (rand_init (word_of_int sd));
                  p = first_guess (take 64 buf);
                  q = first_guess (take 64 (drop 64 buf))
              in bnd (key_loop p q n 0) (\<lambda>(p, q). ret (make_key C boot_key p q))))))"

section \<open>The commands\<close>

definition check_boot :: "byte list \<Rightarrow> (fws, unit) cm" where
  "check_boot img =
     cwhen (length img < 0x10400 \<or> bytes_at img 0x20 4 \<noteq> bytes_of ''2656'')
       (err_exit ''unexpected header'' [])"

definition check_sign :: "byte list \<Rightarrow> (fws, unit) cm" where
  "check_sign img =
     cwhen (bytes_at img 0x10000 15 \<noteq> bytes_of ''SPRD-SECUREFLAG'') (err_exit ''bad sign header'' [])"

definition check_vlr :: "byte list \<Rightarrow> (fws, unit) cm" where
  "check_vlr img =
     cwhen (bytes_at img 0x10200 4 \<noteq> 0xff # bytes_of ''VLR'') (err_exit ''bad vlr header'' [])"

definition check_boot_size :: "byte list \<Rightarrow> (fws, u32) cm" where
  "check_boot_size img =
     (let boot_size = le32_at img 0x24
      in thn (fw_printf ''boot size: 0x%x'' [PU (boot_size * 4)])
        (thn (cwhen (boot_size \<ge> 0x4000) (err_exit ''unexpected boot size'' []))
          (ret boot_size)))"

definition print_hash :: "string \<Rightarrow> byte list \<Rightarrow> (fws, unit) cm" where
  "print_hash name h = fw_printf name (map (\<lambda>i. PU (le32_at h (4 * i))) [0..<5])"

definition vlr_size :: "byte list \<Rightarrow> u32" where
  "vlr_size img = le32_at img 0x10288"

definition boot_key_of :: "byte list \<Rightarrow> byte list" where
  "boot_key_of img = drop 0x2dc img"

definition signature_of :: "byte list \<Rightarrow> byte list" where
  "signature_of img = bytes_at img 0x10204 128"

definition verify_fw :: "crypto \<Rightarrow> string \<Rightarrow> (fws, unit) cm" where
  "verify_fw C bin_fn =
     bnd (load_image bin_fn) (\<lambda>img.
     thn (check_boot img)
     (bnd (check_boot_size img) (\<lambda>boot_size.
     thn (print_hash ''boot hash:'' (sprd_sha1 C (take (unat boot_size * 4) img)))
     (thn (check_sign img)
     (thn (check_vlr img)
     (let fw_size = vlr_size img
      in thn (fw_printf ''fw size: 0x%x'' [PU fw_size])
     (thn (cwhen (unat fw_size > length img - 0x10400) (err_exit ''unexpected fw size'' []))
     (let data_hash = sprd_sha1 C (bytes_at img 0x10400 (unat fw_size));
          boot_key = boot_key_of img
      in thn (print_hash ''fw hash:'' data_hash)
     (thn (fw_printf ''high bits of N: 0x%08x'' [PU (be32_at boot_key 4)])
     (let (dec_len, dec_buf) = RSA_public_decrypt C (BN_bin2bn C (bytes_at boot_key 4 128))
            (BN_bin2bn C (bytes_at boot_key 0 4)) (signature_of img)
      in thn (cwhen (dec_len \<noteq> 128) (err_exit ''wrong dec_len (%d, expected 128)'' [PI dec_len]))
     (thn (cwhen (bytes_at dec_buf 108 20 \<noteq> take 20 data_hash)
            (fw_printf ''!!! decrypted data not match'' []))
        (fw_printf ''decrypted data:'' (map (\<lambda>i. PU (le32_at dec_buf (4 * i))) [0..<32])))))))))))))"

definition find_fw_key :: "crypto \<Rightarrow> string \<Rightarrow> string \<Rightarrow> (fws, unit) cm" where
  "find_fw_key C bin_fn priv_fn =
     bnd (load_image bin_fn) (\<lambda>img.
     thn (check_boot img)
     (bnd (check_boot_size img) (\<lambda>_.
     thn (check_sign img)
     (bnd (find_boot_key C (boot_key_of img)) (\<lambda>k.
     thn (cwhen (RSA_check_key C k \<noteq> 1) (err_exit ''RSA_check_key failed'' []))
     (bnd (gets (\<lambda>s. may_write s priv_fn)) (\<lambda>w.
     thn (cwhen (\<not> w) (err_exit ''BIO_new_file failed'' []))
     (case PEM_write C k of
        None \<Rightarrow> thn (modify (\<lambda>s. s\<lparr>disk_files := (disk_files s)(priv_fn := Some [])\<rparr>))
          (err_exit ''PEM_write_bio_RSAPrivateKey failed'' [])
      | Some pem \<Rightarrow> modify (\<lambda>s. s\<lparr>disk_files := (disk_files s)(priv_fn := Some pem)\<rparr>)))))))))"

text \<open>
  The size field and the size taken: the value of \<open>READ32_LE\<close>, an \<open>int\<close>, is widened to
  \<open>size_t\<close> with its sign; a new size is not.
\<close>

definition sign_size :: "byte list \<Rightarrow> u32 \<Rightarrow> byte list \<times> u64" where
  "sign_size img new_fw_size =
     (if new_fw_size \<noteq> -1
      then (put_at img 0x10288 (WRITE32_LE new_fw_size), ucast new_fw_size)
      else (img, scast (vlr_size img)))"

definition sign_data :: "crypto \<Rightarrow> rsa \<Rightarrow> byte list \<Rightarrow> byte list \<Rightarrow> (fws, byte list) cm" where
  "sign_data C k img data_hash =
     (let boot_key = boot_key_of img;
          n8 = int (BN_num_bytes C (rsa_n k)) * 8
      in thn (cwhen (n8 \<noteq> 1024) (err_exit ''wrong RSA key size (%d, expected 1024)'' [PI n8]))
     (case BN_bn2binpad C (rsa_e k) 4 of
        None \<Rightarrow> err_exit ''BN_bn2binpad failed'' []
      | Some e \<Rightarrow>
          thn (cwhen (e \<noteq> bytes_at boot_key 0 4) (err_exit ''E not match'' []))
         (thn (cwhen (BN_bn2bin C (rsa_n k) \<noteq> bytes_at boot_key 4 128) (err_exit ''N not match'' []))
         (let (dec_len, buf) = RSA_public_decrypt C (rsa_n k) (rsa_e k) (signature_of img)
          in thn (cwhen (dec_len \<noteq> 128) (err_exit ''wrong dec_len (%d, expected 128)'' [PI dec_len]))
         (let (enc_len, enc) = RSA_private_encrypt C k (take 108 buf @ take 20 data_hash)
          in thn (cwhen (enc_len \<noteq> 128) (err_exit ''wrong enc_len (%d, expected 128)'' [PI enc_len]))
            (ret (put_at img 0x10204 enc)))))))"

definition sign_fw :: "crypto \<Rightarrow> string \<Rightarrow> string \<Rightarrow> u32 \<Rightarrow> string \<Rightarrow> (fws, unit) cm" where
  "sign_fw C bin_fn priv_fn new_fw_size out_fn =
     bnd (load_image bin_fn) (\<lambda>img.
     thn (check_boot img)
     (thn (check_sign img)
     (thn (check_vlr img)
     (let (img, fw_size) = sign_size img new_fw_size
      in thn (cwhen (unat fw_size > length img - 0x10400) (err_exit ''bad fw size'' []))
     (let data_hash = sprd_sha1 C (bytes_at img 0x10400 (unat fw_size))
      in bnd (if priv_fn \<noteq> [] then rsa_from_file C priv_fn True
              else bnd (find_boot_key C (boot_key_of img)) (\<lambda>k. ret (Some k))) (\<lambda>k.
     case k of
       None \<Rightarrow> err_exit [] []
     | Some k \<Rightarrow> bnd (sign_data C k img data_hash) (\<lambda>img.
         modify (\<lambda>s. if may_write s out_fn
           then s\<lparr>disk_files := (disk_files s)(out_fn := Some img)\<rparr> else s))))))))"

fun fwcrypto_main :: "crypto \<Rightarrow> string list \<Rightarrow> (fws, unit) cm" where
  "fwcrypto_main C [] = ret ()"
| "fwcrypto_main C (c # args) =
     (if c = ''verify_fw'' then
        (case args of a # rest \<Rightarrow> thn (verify_fw C a) (fwcrypto_main C rest)
         | _ \<Rightarrow> err_exit ''bad command'' [])
      else if c = ''find_fw_key'' then
        (case args of a # b # rest \<Rightarrow> thn (find_fw_key C a b) (fwcrypto_main C rest)
         | _ \<Rightarrow> err_exit ''bad command'' [])
      else if c = ''sign_fw'' then
        (case args of a # b # n # d # rest \<Rightarrow>
           thn (sign_fw C a b (word_of_int (fst (strtoll 0 n))) d) (fwcrypto_main C rest)
         | _ \<Rightarrow> err_exit ''bad command'' [])
      else if c = ''check_n'' then
        (case args of a # rest \<Rightarrow>
           let r = fast_check_n C (word_of_int (fst (strtoll 0 a)))
           in thn (if r < 0 then fw_printf ''key seed not found'' []
                   else fw_printf ''found key seed: 0x%06x'' [PI r]) (fwcrypto_main C rest)
         | _ \<Rightarrow> err_exit ''bad command'' [])
      else err_exit ''unknown command'' [])"

end
