(* ===== verification/FwKey.thy ===== *)
theory FwKey
  imports FwCrypto
begin

text \<open>
  The key search of fphelper/fwcrypto.c: what a found key is, that a key within the reach of
  the search is found, the generator as an addition, and the order of the two primes.
\<close>

unbundle bit_operations_syntax

section \<open>The generator\<close>

fun le_val :: "byte list \<Rightarrow> nat" where
  "le_val [] = 0"
| "le_val (b # bs) = unat b + 256 * le_val bs"

lemma be_val_rev: "be_val (rev bs) = le_val bs"
  by (induction bs) simp_all

lemma rand_init_loop_val:
  "unat a < 2 ^ 10 \<Longrightarrow> le_val (rand_init_loop a r) =
     (unat a + le_val (map fst r) + 256 * le_val (map snd r)) mod 256 ^ length r"
proof (induction a r rule: rand_init_loop.induct)
  case (2 a sd h r)
  define a' where "a' = a + (ucast sd + push_bit 8 (ucast h))"
  have h: "unat (push_bit 8 (ucast h) :: u32) = 256 * unat h"
    using unat_shift8_or [of h 0] by simp
  have ua: "unat a' = unat a + unat sd + 256 * unat h"
    using 2(2) byte_less [of sd] byte_less [of h] h
    by (simp add: a'_def unat_word_ariths unat_ucast)
  have d: "unat (drop_bit 8 a') = unat a' div 256" by (simp add: unat_drop_bit)
  have "unat (drop_bit 8 a') < 2 ^ 10"
    using 2(2) byte_less [of sd] byte_less [of h] by (simp add: d ua less_mult_imp_div_less)
  from 2(1) [OF a'_def this]
  have ih: "le_val (rand_init_loop (drop_bit 8 a') r) =
      (unat a' div 256 + le_val (map fst r) + 256 * le_val (map snd r)) mod 256 ^ length r"
    by (simp add: d)
  have u: "unat (ucast a' :: byte) = unat a' mod 256" by (simp add: unat_ucast)
  have "le_val (rand_init_loop a ((sd, h) # r)) =
      unat a' mod 256 + 256 * ((unat a' div 256 + le_val (map fst r) + 256 * le_val (map snd r)) mod 256 ^ length r)"
    by (simp add: Let_def a'_def [symmetric] ih u)
  also have "\<dots> = (unat a' + 256 * (le_val (map fst r) + 256 * le_val (map snd r))) mod (256 * 256 ^ length r)"
  proof -
    let ?Y = "unat a' div 256 + le_val (map fst r) + 256 * le_val (map snd r)"
    let ?X = "unat a' + 256 * (le_val (map fst r) + 256 * le_val (map snd r))"
    have x: "?X = unat a' mod 256 + 256 * ?Y"
      using mult_div_mod_eq [of 256 "unat a'"] unfolding distrib_left by linarith
    have "?X mod 256 = unat a' mod 256" by (rule mod_mult_self2)
    moreover have "?X div 256 = ?Y" unfolding x by simp
    ultimately show ?thesis unfolding mod_mult2_eq by simp
  qed
  finally show ?case by (simp add: ua algebra_simps)
qed simp

lemma rand_init_add:
  "be_val (rand_init init) =
     (be_val (map (\<lambda>i. ucast (drop_bit i init)) [0..<16]) + 256 * be_val md5_empty) mod 2 ^ 128"
proof -
  let ?sd = "map (\<lambda>i. ucast (drop_bit i init)) [0..<16] :: byte list"
  have l: "length ?sd = 16" "length md5_empty = 16" by (simp_all add: md5_empty_def)
  have "be_val (rand_init init) = le_val (rand_init_loop 0 (rev (zip ?sd md5_empty)))"
    by (simp add: rand_init_def Let_def be_val_rev)
  also have "\<dots> = (le_val (rev ?sd) + 256 * le_val (rev md5_empty)) mod 256 ^ 16"
    using l by (simp add: rand_init_loop_val rev_map [symmetric] del: rev_map)
  also have "\<dots> = (be_val ?sd + 256 * be_val md5_empty) mod 256 ^ 16"
    using be_val_rev [of "rev ?sd"] be_val_rev [of "rev md5_empty"] by simp
  finally show ?thesis by simp
qed

section \<open>What the search finds\<close>

lemma key_loop_product:
  "key_loop p q n iter s = Ret (p', q') s' \<Longrightarrow>
     bignum_mul p' q' = n \<and> length p' = length p \<and> length q' = length q"
proof (induction p q n iter arbitrary: s rule: key_loop.induct)
  case (1 p q n iter)
  from 1(3) have lt: "iter < 2 ^ 25"
    by (subst (asm) key_loop.simps) (simp add: run_simps split: if_splits)
  show ?case
  proof (cases "candidate p q n iter")
    case None
    with 1(1) [OF lt None] 1(3) lt show ?thesis
      by (subst (asm) (2) key_loop.simps) simp
  next
    case (Some c)
    then obtain p0 q0 where c: "candidate p q n iter = Some (p0, q0)" by (cases c) auto
    show ?thesis
    proof (cases "bignum_mul (set_low p p0) (set_low q q0) = n")
      case True
      with 1(3) lt c show ?thesis
        by (subst (asm) key_loop.simps)
          (auto simp: thn_def bnd_def fw_printf_def modify_def ret_def set_low_def)
    next
      case False
      with 1(2) [OF lt c refl False] 1(3) lt c show ?thesis
        by (subst (asm) (2) key_loop.simps) (auto simp: thn_def bnd_def fw_printf_def modify_def)
    qed
  qed
qed

lemma length_frombin: "length (bignum_frombin s) = (length s + 3) div 4"
proof (induction s rule: bignum_frombin.induct)
  case (1 s)
  have three: "(n + 3) div 4 = 1" if "n \<noteq> 0" "\<not> 4 \<le> n" for n :: nat using that by arith
  from 1 three [of "length s"] show ?case by (subst bignum_frombin.simps) (auto simp: Let_def)
qed

lemma length_first_guess: "length buf = 64 \<Longrightarrow> length (first_guess buf) = 16"
  by (simp add: first_guess_def Let_def length_frombin)

lemma length_rand_fill: "(\<And>x. length (MD5 C x) = 16) \<Longrightarrow> length (rand_fill C k r) = 16 * k"
  by (induction k arbitrary: r) (simp_all add: rand_buf_def)

lemma make_key_primes:
  assumes "\<And>bs. BN_bin2bn C bs = be_val bs" "length p = 16" "length q = 16"
  shows "rsa_p (make_key C key p q) = (if swap_primes p q then bn_val q else bn_val p)"
    and "rsa_q (make_key C key p q) = (if swap_primes p q then bn_val p else bn_val q)"
proof -
  have l: "length (bignum_tobin p) = 64" "length (bignum_tobin q) = 64" using assms by simp_all
  have "bytes_at (bignum_tobin p @ bignum_tobin q) 0 64 = bignum_tobin p"
    "bytes_at (bignum_tobin p @ bignum_tobin q) 64 64 = bignum_tobin q"
    using l by (simp_all add: bytes_at_def del: length_tobin)
  then show "rsa_p (make_key C key p q) = (if swap_primes p q then bn_val q else bn_val p)"
    "rsa_q (make_key C key p q) = (if swap_primes p q then bn_val p else bn_val q)"
    by (simp_all add: make_key_def create_rsa_def Let_def assms(1) be_val_tobin)
qed

lemma make_key_product:
  assumes "\<And>bs. BN_bin2bn C bs = be_val bs" "length p = 16" "length q = 16"
  shows "rsa_p (make_key C key p q) * rsa_q (make_key C key p q) = bn_val p * bn_val q"
    and "rsa_n (make_key C key p q) = be_val (bytes_at key 4 128)"
    and "rsa_e (make_key C key p q) = be_val (bytes_at key 0 4)"
  using make_key_primes [OF assms] by (simp_all add: make_key_def create_rsa_def Let_def assms(1))

lemma find_boot_key_product:
  assumes "\<And>bs. BN_bin2bn C bs = be_val bs" "\<And>x. length (MD5 C x) = 16"
    and "find_boot_key C key s = Ret k s'"
  shows "rsa_p k * rsa_q k = rsa_n k \<and> rsa_n k = be_val (bytes_at key 4 128) \<and>
    rsa_e k = be_val (bytes_at key 0 4)"
proof -
  define n where "n = bignum_frombin (bytes_at key 4 128)"
  define buf where "buf = rand_fill C 8 (rand_init (word_of_int (fast_check_n C (be32_at key 4))))"
  define p where "p = first_guess (take 64 buf)"
  define q where "q = first_guess (take 64 (drop 64 buf))"
  have "length buf = 128" by (simp add: buf_def length_rand_fill assms(2))
  then have l: "length p = 16" "length q = 16" by (simp_all add: p_def q_def length_first_guess)
  from assms(3) obtain t p' q' t' where kl: "key_loop p q n 0 t = Ret (p', q') t'"
    and k: "k = make_key C key p' q'"
    by (auto simp: find_boot_key_def Let_def thn_def bnd_def cwhen_def ret_def fw_printf_def modify_def
        err_exit_def n_def [symmetric] buf_def [symmetric] p_def [symmetric] q_def [symmetric]
        split: if_splits outcome.splits)
  from key_loop_product [OF kl] l have m: "bignum_mul p' q' = n" "length p' = 16" "length q' = 16" by simp_all
  have "bn_val p' * bn_val q' = be_val (bytes_at key 4 128)"
    using bignum_mul_val [of p' q'] m(1) by (simp add: n_def bn_val_frombin)
  with make_key_product [OF assms(1) m(2,3), of key] show ?thesis by (simp add: k)
qed

section \<open>What the search does not miss\<close>

lemma odd_mult_cancel:
  fixes x y z :: u32
  assumes "odd x" "y * x = z * x"
  shows "y = z"
proof -
  have "x * rev_mul32 1 x = 1" using rev_mul32_inverse [OF assms(1), of 1] by (simp add: mult.commute)
  then have "y = y * x * rev_mul32 1 x" "z = z * x * rev_mul32 1 x"
    by (simp_all add: mult.assoc)
  with assms(2) show ?thesis by metis
qed

lemma of_nat_2p32: "(of_nat (2 ^ 32 * k) :: u32) = 0"
  by (subst word_of_nat_eq_0_iff) simp

lemma word0_of_val: "ws \<noteq> [] \<Longrightarrow> ws ! 0 = of_nat (bn_val ws)"
proof (cases ws)
  case (Cons a r)
  then show ?thesis using of_nat_2p32 [of "bn_val r"] by simp
qed simp

lemma word1_of_val: "2 \<le> length ws \<Longrightarrow> ws ! 1 = of_nat (bn_val ws div 2 ^ 32)"
proof -
  assume "2 \<le> length ws"
  then obtain a b r where ws: "ws = a # b # r"
    by (metis One_nat_def Suc_1 Suc_le_length_iff list.collapse)
  have "unat a < 2 ^ 32" using unsigned_less [of a, where ?'a = nat] by simp
  then have "bn_val ws div 2 ^ 32 = bn_val (b # r)" by (simp add: ws)
  then show ?thesis using word0_of_val [of "b # r"] by (simp add: ws)
qed

lemma length_mul_row: "length s \<le> length d \<Longrightarrow> length (mul_row m s d c) = length d"
proof (induction m s d c rule: mul_row.induct)
  case (1 m d c)
  show ?case by (induction d c rule: add_carry.induct) (simp_all add: Let_def)
qed (simp_all add: Let_def)

lemma length_mul_rows: "length s1 + length s2 \<le> length d \<Longrightarrow> length (mul_rows s1 s2 d) = length d"
proof (induction s1 s2 d rule: mul_rows.induct)
  case (2 m s1 s2 d)
  have "length (mul_row m s2 d 0) = length d" using 2(2) by (simp add: length_mul_row)
  moreover from this 2(2) obtain x d' where "mul_row m s2 d 0 = x # d'"
    by (cases "mul_row m s2 d 0") auto
  ultimately show ?case using 2 by simp
qed simp

lemma length_bignum_mul: "length (bignum_mul s1 s2) = length s1 + length s2"
  by (simp add: bignum_mul_def length_mul_rows)

lemma mul_low_words:
  assumes "2 \<le> length p" "2 \<le> length q"
  shows "bignum_mul p q ! 0 = p ! 0 * q ! 0"
    and "bignum_mul p q ! 1 =
      ucast (drop_bit 32 (ucast (p ! 0) * ucast (q ! 0) :: u64)) + p ! 0 * q ! 1 + q ! 0 * p ! 1"
proof -
  from assms obtain p0 p1 ps where p: "p = p0 # p1 # ps"
    by (metis One_nat_def Suc_1 Suc_le_length_iff)
  from assms obtain q0 q1 qs where q: "q = q0 # q1 # qs"
    by (metis One_nat_def Suc_1 Suc_le_length_iff)
  let ?P = "bn_val ps" and ?Q = "bn_val qs"
  define c where "c = unat p0 * unat q1 + unat q0 * unat p1"
  define d where "d = unat p1 * unat q1 + unat p0 * ?Q + unat q0 * ?P
     + 2 ^ 32 * (unat p1 * ?Q + unat q1 * ?P) + 2 ^ 64 * (?P * ?Q)"
  have v: "bn_val (bignum_mul p q) = unat p0 * unat q0 + 2 ^ 32 * (c + 2 ^ 32 * d)"
    by (simp add: bignum_mul_val p q c_def d_def algebra_simps)
  have l: "bignum_mul p q \<noteq> []" "2 \<le> length (bignum_mul p q)"
    using assms length_bignum_mul [of p q] by auto
  show "bignum_mul p q ! 0 = p ! 0 * q ! 0"
    unfolding word0_of_val [OF l(1)] v of_nat_add of_nat_2p32 by (simp add: p q)
  have "unat p0 * unat q0 \<le> (2 ^ 32 - 1) * (2 ^ 32 - 1)"
    using unsigned_less [of p0, where ?'a = nat] unsigned_less [of q0, where ?'a = nat]
    by (intro mult_le_mono) auto
  then have "unat (ucast p0 * ucast q0 :: u64) = unat p0 * unat q0"
    by (simp add: unat_word_ariths)
  then have hi: "(ucast (drop_bit 32 (ucast p0 * ucast q0 :: u64)) :: u32) = of_nat (unat p0 * unat q0 div 2 ^ 32)"
    by (simp add: word_unat_eq_iff unat_ucast unat_drop_bit unat_of_nat)
  have "bn_val (bignum_mul p q) div 2 ^ 32 = unat p0 * unat q0 div 2 ^ 32 + (c + 2 ^ 32 * d)"
    unfolding v by simp
  then show "bignum_mul p q ! 1 =
      ucast (drop_bit 32 (ucast (p ! 0) * ucast (q ! 0) :: u64)) + p ! 0 * q ! 1 + q ! 0 * p ! 1"
    unfolding word1_of_val [OF l(2)] by (simp only: of_nat_add of_nat_2p32) (simp add: p q hi c_def)
qed

lemma candidate_hits:
  assumes "2 \<le> length p" "2 \<le> length q"
    and "odd (p ! 0 + of_nat iter)"
    and "P = set_low p (p ! 0 + of_nat iter)" and "Q = set_low q (q ! 0 + d)" and "unat d < 2 ^ 25"
  shows "candidate p q (bignum_mul P Q) iter = Some (p ! 0 + of_nat iter, q ! 0 + d)"
proof -
  define p0 where "p0 = p ! 0 + of_nat iter"
  define q0 where "q0 = q ! 0 + d"
  have list: "p \<noteq> []" "q \<noteq> []" "Suc 0 < length p" "Suc 0 < length q" using assms(1,2) by auto
  have PQ: "2 \<le> length P" "2 \<le> length Q" "P ! 0 = p0" "Q ! 0 = q0"
    "P ! 1 = p ! 1 + (if p0 < p ! 0 then 1 else 0)" "Q ! 1 = q ! 1 + (if q0 < q ! 0 then 1 else 0)"
    using assms(1,2,4,5) list by (simp_all add: set_low_def p0_def q0_def)
  note lo = mul_low_words [OF PQ(1,2)]
  have "rev_mul32 (bignum_mul P Q ! 0) p0 * p0 = q0 * p0"
    using rev_mul32_inverse [of p0] assms(3) lo(1) PQ by (simp add: p0_def mult.commute)
  then have r: "rev_mul32 (bignum_mul P Q ! 0) p0 = q0"
    using odd_mult_cancel [of p0] assms(3) unfolding p0_def by blast
  have "drop_bit 25 (q0 - q ! 0) = 0"
    using assms(6) by (simp add: q0_def word_unat_eq_iff unat_drop_bit)
  moreover have "bignum_mul P Q ! 1 = ucast (drop_bit 32 (ucast p0 * ucast q0 :: u64)) +
      p0 * (q ! 1 + (if q0 < q ! 0 then 1 else 0)) + q0 * (p ! 1 + (if p0 < p ! 0 then 1 else 0))"
    using lo(2) unfolding PQ .
  ultimately show ?thesis
    unfolding candidate_def p0_def [symmetric] q0_def [symmetric] r Let_def
    by (cases "p0 < p ! 0"; cases "q0 < q ! 0") (simp_all add: distrib_left)
qed

lemma key_loop_finds:
  assumes "2 \<le> length p" "2 \<le> length q" "odd (p ! 0)"
    and "P = set_low p (p ! 0 + of_nat k)" and "Q = set_low q (q ! 0 + d)"
    and "even k" "k < 2 ^ 25" and "unat d < 2 ^ 25"
  shows "even iter \<Longrightarrow> iter \<le> k \<Longrightarrow>
    \<exists>p' q' s'. key_loop p q (bignum_mul P Q) iter s = Ret (p', q') s' \<and> bignum_mul p' q' = bignum_mul P Q"
proof (induction "k - iter" arbitrary: iter s rule: less_induct)
  case less
  let ?n = "bignum_mul P Q"
  have lt: "iter < 2 ^ 25" using less.prems assms(7) by simp
  have hit: "candidate p q ?n k = Some (p ! 0 + of_nat k, q ! 0 + d)"
    using candidate_hits [OF assms(1,2) _ assms(4,5,8)] assms(3,6) by simp
  have step: "\<exists>p' q' s'. key_loop p q ?n (iter + 2) t = Ret (p', q') s' \<and> bignum_mul p' q' = ?n"
    if "iter \<noteq> k" for t
  proof -
    have "iter + 2 \<le> k" using that less.prems assms(6) by presburger
    then show ?thesis using less.hyps [of "iter + 2" t] less.prems by simp
  qed
  show ?case
  proof (cases "candidate p q ?n iter")
    case None
    then have "iter \<noteq> k" using hit by auto
    with step [of s] None lt show ?thesis by (subst key_loop.simps) simp
  next
    case (Some c)
    then obtain p0 q0 where c: "candidate p q ?n iter = Some (p0, q0)" by (cases c) auto
    show ?thesis
    proof (cases "bignum_mul (set_low p p0) (set_low q q0) = ?n")
      case True
      with c lt show ?thesis
        by (subst key_loop.simps) (auto simp: thn_def bnd_def fw_printf_def modify_def ret_def)
    next
      case False
      have "iter \<noteq> k" using False c hit assms(4,5) by auto
      with step False c lt show ?thesis
        by (subst key_loop.simps) (simp add: thn_def bnd_def fw_printf_def modify_def)
    qed
  qed
qed

section \<open>The search as a whole\<close>

lemma bn_val_inj: "length a = length b \<Longrightarrow> bn_val a = bn_val b \<Longrightarrow> a = b"
proof (induction a b rule: list_induct2)
  case (Cons x a y b)
  have "unat x < 2 ^ 32" "unat y < 2 ^ 32"
    using unsigned_less [of x, where ?'a = nat] unsigned_less [of y, where ?'a = nat] by simp_all
  moreover have eq: "unat x + 2 ^ 32 * bn_val a = unat y + 2 ^ 32 * bn_val b" using Cons(3) by simp
  ultimately have "unat x = unat y"
    by (metis mod_less mod_mult_self2)
  with eq Cons(2) show ?case by (simp add: word_unat_eq_iff)
qed simp

definition seed_guesses :: "crypto \<Rightarrow> byte list \<Rightarrow> u32 list \<times> u32 list" where
  "seed_guesses C key =
     (let buf = rand_fill C 8 (rand_init (word_of_int (fast_check_n C (be32_at key 4))))
      in (first_guess (take 64 buf), first_guess (take 64 (drop 64 buf))))"

lemma first_guess_odd: "length buf = 64 \<Longrightarrow> odd (first_guess buf ! 0)"
proof -
  assume "length buf = 64"
  then have "bignum_frombin buf \<noteq> []" using length_frombin [of buf] by auto
  then show ?thesis by (simp add: first_guess_def Let_def even_or_iff)
qed

lemma find_boot_key_complete:
  assumes "\<And>bs. BN_bin2bn C bs = be_val bs" "\<And>x. length (MD5 C x) = 16"
    and "132 \<le> length key" and "0 \<le> fast_check_n C (be32_at key 4)"
    and "seed_guesses C key = (p, q)"
    and "be_val (bytes_at key 4 128) =
      bn_val (set_low p (p ! 0 + of_nat k)) * bn_val (set_low q (q ! 0 + d))"
    and "even k" "k < 2 ^ 25" and "unat d < 2 ^ 25"
  shows "\<exists>key' s'. find_boot_key C key s = Ret key' s' \<and>
    rsa_p key' * rsa_q key' = be_val (bytes_at key 4 128)"
proof -
  define n where "n = bignum_frombin (bytes_at key 4 128)"
  define buf where "buf = rand_fill C 8 (rand_init (word_of_int (fast_check_n C (be32_at key 4))))"
  have "length buf = 128" by (simp add: buf_def length_rand_fill assms(2))
  then have b: "length (take 64 buf) = 64" "length (take 64 (drop 64 buf)) = 64" by simp_all
  have pq: "p = first_guess (take 64 buf)" "q = first_guess (take 64 (drop 64 buf))"
    using assms(5) by (simp_all add: seed_guesses_def Let_def buf_def)
  have l: "length p = 16" "length q = 16" "odd (p ! 0)"
    using length_first_guess [OF b(1)] length_first_guess [OF b(2)] first_guess_odd [OF b(1)]
    by (simp_all add: pq)
  let ?P = "set_low p (p ! 0 + of_nat k)" and ?Q = "set_low q (q ! 0 + d)"
  have "length n = 32" using assms(3) by (simp add: n_def length_frombin bytes_at_def)
  moreover have "length (bignum_mul ?P ?Q) = 32" using l by (simp add: length_bignum_mul set_low_def)
  moreover have "bn_val n = bn_val (bignum_mul ?P ?Q)"
    by (simp add: n_def bn_val_frombin assms(6) bignum_mul_val)
  ultimately have n: "n = bignum_mul ?P ?Q" by (simp add: bn_val_inj)
  have "\<exists>p' q' t'. key_loop p q (bignum_mul ?P ?Q) 0 t = Ret (p', q') t' \<and> bignum_mul p' q' = bignum_mul ?P ?Q" for t
    using l by (intro key_loop_finds [OF _ _ l(3) refl refl assms(7-9)]) simp_all
  then obtain p' q' t' where "key_loop p q n 0 (s\<lparr>printed_log := printed_log s @
      [(''boot key N: 0x%08x..%08x'', [PU (n ! 31), PU (n ! 0)])] @
      [(''found key seed: 0x%06x'', [PI (fast_check_n C (be32_at key 4))])]\<rparr>) = Ret (p', q') t'"
    unfolding n by meson
  then have "find_boot_key C key s = Ret (make_key C key p' q') t'"
    using assms(4)
    by (simp add: find_boot_key_def Let_def thn_def bnd_def cwhen_def ret_def fw_printf_def modify_def
        n_def [symmetric] buf_def [symmetric] pq [symmetric])
  with find_boot_key_product [OF assms(1,2) this] show ?thesis by auto
qed

text \<open>Both ways to fail, and no other.\<close>

lemma key_loop_ends:
  "wp (key_loop p q n iter) (\<lambda>_ _. True) (\<lambda>e _. e = ErrExit ''key not found'' []) s"
proof (induction p q n iter arbitrary: s rule: key_loop.induct)
  case (1 p q n iter)
  show ?case
    by (subst key_loop.simps)
      (auto simp: wp_simps fw_printf_def intro: 1 split: option.splits)
qed

lemma find_boot_key_ends:
  "wp (find_boot_key C key) (\<lambda>_ _. True)
    (\<lambda>e _. e \<in> {ErrExit ''key seed not found'' [], ErrExit ''key not found'' []}) s"
  unfolding find_boot_key_def Let_def
  by (auto simp: wp_simps fw_printf_def split: prod.splits intro: wp_mono [OF key_loop_ends])

text \<open>
  C39: a key that the search returns is a key of the device: its primes multiply to the
  modulus stored in the boot loader, and the modulus and exponent are the stored ones. The
  search always ends.
\<close>

theorem found_key_factors_modulus:
  assumes "\<And>bs. BN_bin2bn C bs = be_val bs" "\<And>x. length (MD5 C x) = 16"
  shows "wp (find_boot_key C key)
    (\<lambda>k _. rsa_p k * rsa_q k = rsa_n k \<and> rsa_n k = be_val (bytes_at key 4 128) \<and>
       rsa_e k = be_val (bytes_at key 0 4))
    (\<lambda>e _. e \<in> {ErrExit ''key seed not found'' [], ErrExit ''key not found'' []}) s"
  using find_boot_key_ends [of C key s] find_boot_key_product [OF assms]
  by (auto simp: wp_def split: outcome.splits)

text \<open>A library with the documented behaviour and a constant digest, for the witnesses.\<close>

definition sample_crypto :: crypto where
  "sample_crypto = \<lparr>SHA1 = (\<lambda>_. replicate 20 0), MD5 = (\<lambda>_. replicate 16 0), BN_bin2bn = be_val,
     BN_bn2bin = (\<lambda>n. []), BN_bn2binpad = (\<lambda>n k. Some (replicate k 0)), BN_num_bytes = (\<lambda>n. 128),
     BN_sub = (-), BN_mul = (*), BN_mod = (mod), BN_mod_inverse = (\<lambda>a b. 1),
     RSA_check_key = (\<lambda>k. 1), RSA_public_decrypt = (\<lambda>n e c. (128, c)),
     RSA_private_encrypt = (\<lambda>k m. (128, m)), PEM_read = (\<lambda>_ _. None), PEM_write = (\<lambda>_. None)\<rparr>"

definition sample_fws :: fws where
  "sample_fws = \<lparr>disk_files = (\<lambda>_. None), may_write = (\<lambda>_. True), printed_log = []\<rparr>"

text \<open>The key whose primes are both the first guess from a digest of zeros.\<close>

definition sample_key :: "byte list" where
  "sample_key = [0, 0, 0, 3, 0x90] @ replicate 62 0 @ [1, 0x80] @ replicate 62 0 @ [1]"

theorem found_key_factors_modulus_witness:
  "wp (find_boot_key sample_crypto sample_key)
    (\<lambda>k _. rsa_p k * rsa_q k = rsa_n k \<and> rsa_n k = be_val (bytes_at sample_key 4 128) \<and>
       rsa_e k = be_val (bytes_at sample_key 0 4))
    (\<lambda>e _. e \<in> {ErrExit ''key seed not found'' [], ErrExit ''key not found'' []}) sample_fws"
  by (rule found_key_factors_modulus) (simp_all add: sample_crypto_def)

text \<open>
  C38: the search is complete within its reach: when the generator seed is found and the
  modulus is a product of two numbers that lie less than 2 ^ 25 above the two guesses (the
  first at an even distance, and no carry goes past the second word), a factorisation of
  the modulus is returned.
\<close>

theorem key_search_complete:
  assumes "\<And>bs. BN_bin2bn C bs = be_val bs" "\<And>x. length (MD5 C x) = 16"
    and "132 \<le> length key" and "0 \<le> fast_check_n C (be32_at key 4)"
    and "seed_guesses C key = (p, q)"
    and "be_val (bytes_at key 4 128) =
      bn_val (set_low p (p ! 0 + of_nat k)) * bn_val (set_low q (q ! 0 + d))"
    and "even k" "k < 2 ^ 25" and "unat d < 2 ^ 25"
  shows "\<exists>key' s'. find_boot_key C key s = Ret key' s' \<and>
    rsa_p key' * rsa_q key' = be_val (bytes_at key 4 128)"
  using assms by (rule find_boot_key_complete)

lemma be_val_zeros: "be_val (replicate n 0) = 0"
  by (induction n) (simp_all add: replicate_app_Cons_same be_val_def)

lemma sample_fill: "rand_fill sample_crypto 8 r = replicate 128 0"
proof -
  have "rand_fill sample_crypto k r = replicate (16 * k) 0" for k
    by (induction k arbitrary: r) (simp_all add: rand_buf_def sample_crypto_def replicate_add [symmetric])
  from this [of 8] show ?thesis by simp
qed

lemma frombin_zeros: "bignum_frombin (replicate (4 * k) 0) = replicate k 0"
proof (induction k)
  case 0
  show ?case by (subst bignum_frombin.simps) simp
next
  case (Suc k)
  have "be_word (replicate 4 0) = 0"
    by (simp add: be_word_def READ32_BE_def blit_def eval_nat_numeral)
  with Suc show ?case by (subst bignum_frombin.simps) (simp add: Let_def)
qed

lemma bn_val_append: "bn_val (xs @ ys) = bn_val xs + 2 ^ (32 * length xs) * bn_val ys"
  by (induction xs) (simp_all add: power_add algebra_simps)

lemma bn_val_ends: "bn_val (a # replicate 14 0 @ [b]) = unat a + 2 ^ 480 * unat b"
  by (simp add: bn_val_append)

lemma sample_guess: "first_guess (replicate 64 0) = 1 # replicate 14 0 @ [0xc0000000]"
  using frombin_zeros [of 16] by (simp add: first_guess_def Let_def eval_nat_numeral)

theorem key_search_complete_witness:
  "\<exists>key' s'. find_boot_key sample_crypto sample_key sample_fws = Ret key' s' \<and>
    rsa_p key' * rsa_q key' = be_val (bytes_at sample_key 4 128)"
proof (rule key_search_complete)
  show "seed_guesses sample_crypto sample_key =
      (1 # replicate 14 0 @ [0xc0000000], 1 # replicate 14 0 @ [0xc0000000])"
    by (simp add: seed_guesses_def sample_fill sample_guess Let_def)
  show "0 \<le> fast_check_n sample_crypto (be32_at sample_key 4)"
    unfolding fast_check_n_def
    by (subst fast_check_loop.simps)
      (simp add: guess_hi_def Let_def rand_buf_def sample_crypto_def be32_at_def READ32_BE_def blit_def sample_key_def nth_append)
  show "be_val (bytes_at sample_key 4 128) =
      bn_val (set_low (1 # replicate 14 0 @ [0xc0000000]) ((1 # replicate 14 0 @ [0xc0000000]) ! 0 + of_nat 0)) *
      bn_val (set_low (1 # replicate 14 0 @ [0xc0000000]) ((1 # replicate 14 0 @ [0xc0000000]) ! 0 + 0))"
  proof -
    have low: "set_low w (w ! 0 + 0) = w" "set_low w (w ! 0 + of_nat 0) = w" for w
      by (simp_all add: set_low_def)
    have "bytes_at sample_key 4 128 = [0x90] @ replicate 62 0 @ [1, 0x80] @ replicate 62 0 @ [1]"
      by (simp add: bytes_at_def sample_key_def)
    then have "be_val (bytes_at sample_key 4 128) = 0x90 * 256 ^ 127 + 0x180 * 256 ^ 63 + 1"
      by (simp only: be_val_append be_val_zeros length_append length_replicate list.size) (simp add: be_val_def)
    then show ?thesis by (simp only: low bn_val_ends) simp
  qed
qed (simp_all add: sample_crypto_def sample_key_def)

text \<open>
  The comment "P must be greater than Q" does not describe the code: the order is
  decided by the bytes of the words as they lie in memory, lowest first, so that a larger
  first factor can be taken for the smaller one.
\<close>

theorem prime_order_ignored:
  assumes "\<And>bs. BN_bin2bn C bs = be_val bs"
  shows "\<exists>p q. length p = 16 \<and> length q = 16 \<and> bn_val q < bn_val p \<and>
    rsa_p (make_key C key p q) < rsa_q (make_key C key p q)"
proof (intro exI conjI)
  let ?p = "1 # replicate 14 0 @ [0xc0000001] :: u32 list" and ?q = "3 # replicate 14 0 @ [0xc0000000] :: u32 list"
  show len: "length ?p = 16" "length ?q = 16" by simp_all
  show less: "bn_val ?q < bn_val ?p" by (simp only: bn_val_ends) simp
  have "swap_primes ?p ?q" by (simp add: swap_primes_def WRITE32_LE_def)
  then have "rsa_p (make_key C key ?p ?q) = bn_val ?q" "rsa_q (make_key C key ?p ?q) = bn_val ?p"
    using len by (simp_all only: make_key_primes [OF assms] if_True)
  with less show "rsa_p (make_key C key ?p ?q) < rsa_q (make_key C key ?p ?q)" by simp
qed

theorem prime_order_ignored_witness:
  "\<exists>p q. length p = 16 \<and> length q = 16 \<and> bn_val q < bn_val p \<and>
    rsa_p (make_key sample_crypto sample_key p q) < rsa_q (make_key sample_crypto sample_key p q)"
  by (rule prime_order_ignored) (simp add: sample_crypto_def)

text \<open>
  C30: the 16-byte state of the generator starts as a sum of big-endian numbers: the bits of
  the seed, spread over the bytes, and 256 times the MD5 digest of the empty string.
\<close>

theorem rand_init_is_addition:
  "be_val (rand_init init) =
     (be_val (map (\<lambda>i. ucast (drop_bit i init)) [0..<16]) + 256 * be_val md5_empty) mod 2 ^ 128"
  by (rule rand_init_add)

end
