(* ===== verification/FwSign.thy ===== *)
theory FwSign
  imports FwKey
begin

text \<open>
  Signing and checking of fphelper/fwcrypto.c together: an image that sign_fw writes is
  accepted by verify_fw, and differs from its input in the size and the signature only.
\<close>

section \<open>Buffers\<close>

lemma length_put_at [simp]: "off + length xs \<le> length bs \<Longrightarrow> length (put_at bs off xs) = length bs"
  by (simp add: put_at_def)

lemma bytes_at_put_other:
  assumes "off + length xs \<le> length bs" "o' + n \<le> off \<or> off + length xs \<le> o'"
  shows "bytes_at (put_at bs off xs) o' n = bytes_at bs o' n"
proof (rule nth_equalityI)
  show l: "length (bytes_at (put_at bs off xs) o' n) = length (bytes_at bs o' n)"
    using assms(1) by (simp add: bytes_at_def)
  fix i assume "i < length (bytes_at (put_at bs off xs) o' n)"
  then have i: "i < n" "o' + i < length bs" using assms(1) by (auto simp: bytes_at_def)
  then show "bytes_at (put_at bs off xs) o' n ! i = bytes_at bs o' n ! i"
    using assms by (auto simp: bytes_at_def put_at_def nth_append)
qed

lemma bytes_at_put_same:
  "off + length xs \<le> length bs \<Longrightarrow> bytes_at (put_at bs off xs) off (length xs) = xs"
  by (simp add: bytes_at_def put_at_def)

lemma nth_put_other:
  "off + length xs \<le> length bs \<Longrightarrow> i < length bs \<Longrightarrow> i < off \<or> off + length xs \<le> i \<Longrightarrow> put_at bs off xs ! i = bs ! i"
  by (auto simp: put_at_def nth_append)

lemma le32_put_other:
  assumes "off + length xs \<le> length bs" "o' + 4 \<le> length bs" "o' + 4 \<le> off \<or> off + length xs \<le> o'"
  shows "le32_at (put_at bs off xs) o' = le32_at bs o'"
proof -
  have n: "put_at bs off xs ! (o' + i) = bs ! (o' + i)" if "i < 4" for i
    using that assms by (intro nth_put_other) auto
  show ?thesis
    using n [of 0] n [of 1] n [of 2] n [of 3] assms by (simp add: le32_at_def READ32_LE_def blit_def)
qed

lemma le32_put_same:
  assumes "off + 4 \<le> length bs" shows "le32_at (put_at bs off (WRITE32_LE w)) off = w"
proof -
  have "blit (\<lambda>_. 0) 0 (put_at bs off (WRITE32_LE w)) (off + i) = blit (\<lambda>_. 0) off (WRITE32_LE w) (off + i)"
    if "i < 4" for i
    using that assms by (auto simp: blit_def put_at_def nth_append)
  from this [of 0] this [of 1] this [of 2] this [of 3] show ?thesis
    using READ32_LE_WRITE [of "\<lambda>_. 0" off w] by (simp add: le32_at_def READ32_LE_def)
qed

lemma bytes_at_drop: "bytes_at (drop k bs) off n = bytes_at bs (k + off) n"
  by (simp add: bytes_at_def add.commute)

section \<open>What makes an image\<close>

definition image_ok :: "byte list \<Rightarrow> bool" where
  "image_ok img =
     (0x10400 \<le> length img \<and> bytes_at img 0x20 4 = bytes_of ''2656'' \<and>
      bytes_at img 0x10000 15 = bytes_of ''SPRD-SECUREFLAG'' \<and>
      bytes_at img 0x10200 4 = 0xff # bytes_of ''VLR'' \<and> le32_at img 0x24 < 0x4000)"

definition key_fits :: "crypto \<Rightarrow> rsa \<Rightarrow> byte list \<Rightarrow> bool" where
  "key_fits C k img =
     (BN_num_bytes C (rsa_n k) = 128 \<and> BN_bn2binpad C (rsa_e k) 4 = Some (bytes_at img 0x2dc 4) \<and>
      BN_bn2bin C (rsa_n k) = bytes_at img 0x2e0 128)"

definition fw_hash :: "crypto \<Rightarrow> byte list \<Rightarrow> nat \<Rightarrow> byte list" where
  "fw_hash C img n = sprd_sha1 C (bytes_at img 0x10400 n)"

lemma image_ok_put:
  assumes "image_ok img" "0x10204 \<le> off" "off + length xs \<le> 0x10400"
  shows "image_ok (put_at img off xs)"
proof -
  have l: "off + length xs \<le> length img" using assms by (simp add: image_ok_def)
  then show ?thesis
    using assms by (simp add: image_ok_def bytes_at_put_other [OF l] le32_put_other [OF l])
qed

lemma verify_run:
  assumes "disk_files s fn = Some img" "image_ok img" "unat (vlr_size img) \<le> length img - 0x10400"
    and "RSA_public_decrypt C (BN_bin2bn C (bytes_at img 0x2e0 128)) (BN_bin2bn C (bytes_at img 0x2dc 4))
      (signature_of img) = (128, dec)"
    and "bytes_at dec 108 20 = take 20 (fw_hash C img (unat (vlr_size img)))"
  shows "\<exists>t l. verify_fw C fn s = Ret () t \<and> printed_log t = printed_log s @ l \<and>
    ''!!! decrypted data not match'' \<notin> fst ` set l"
proof -
  have b: "bytes_at (boot_key_of img) 4 128 = bytes_at img 0x2e0 128"
    "bytes_at (boot_key_of img) 0 4 = bytes_at img 0x2dc 4"
    by (simp_all add: boot_key_of_def bytes_at_drop)
  have "img \<noteq> []" using assms(2) by (auto simp: image_ok_def)
  then have ld: "wp (load_image fn) Q E s = Q img s" for Q E
    using assms(1) by (cases img) (simp_all add: load_image_def fw_loadfile_def wp_simps)
  note parts = image_ok_def check_boot_def check_sign_def check_vlr_def check_boot_size_def print_hash_def
  have "wp (verify_fw C fn) (\<lambda>_ t. \<exists>l. printed_log t = printed_log s @ l \<and>
      ''!!! decrypted data not match'' \<notin> fst ` set l) (\<lambda>_ _. False) s"
    using assms(2-5) unfolding verify_fw_def
    by (simp add: wp_simps ld parts fw_printf_def fw_hash_def not_less not_le Let_def b)
  from wp_Ret [OF this] show ?thesis by auto
qed

lemma sign_run:
  assumes "disk_files s fn = Some img" "image_ok img" "may_write s out" "priv \<noteq> []"
    and "disk_files s priv = Some pem" "PEM_read C True pem = Some k" "key_fits C k img"
    and "sign_size img nfs = (img1, sz)" "unat sz \<le> length img1 - 0x10400"
    and "image_ok img1" "key_fits C k img1" "signature_of img1 = signature_of img"
    and "RSA_public_decrypt C (rsa_n k) (rsa_e k) (signature_of img) = (128, dec)"
    and "RSA_private_encrypt C k (take 108 dec @ take 20 (fw_hash C img1 (unat sz))) = (128, enc)"
  shows "sign_fw C fn priv nfs out s =
    Ret () (s\<lparr>disk_files := (disk_files s)(out := Some (put_at img1 0x10204 enc))\<rparr>)"
proof -
  have b: "bytes_at (boot_key_of img1) 4 128 = bytes_at img1 0x2e0 128"
    "bytes_at (boot_key_of img1) 0 4 = bytes_at img1 0x2dc 4"
    by (simp_all add: boot_key_of_def bytes_at_drop)
  have "img \<noteq> []" using assms(2) by (auto simp: image_ok_def)
  then have ld: "load_image fn s = Ret img s"
    using assms(1) by (cases img) (simp_all add: load_image_def fw_loadfile_def bnd_def gets_def ret_def)
  have pem: "rsa_from_file C priv True s = Ret (Some k) s"
    using assms(5,6) by (simp add: rsa_from_file_def bnd_def gets_def ret_def)
  have data: "sign_data C k img1 (fw_hash C img1 (unat sz)) s = Ret (put_at img1 0x10204 enc) s"
    using assms(11-14) unfolding sign_data_def Let_def b
    by (simp add: key_fits_def thn_def bnd_def cwhen_def ret_def)
  note parts = image_ok_def check_boot_def check_sign_def check_vlr_def
  show ?thesis
    using assms(2-4,8,9) pem data unfolding sign_fw_def
    by (simp add: bnd_def thn_def ld parts modify_def cwhen_def ret_def fw_hash_def Let_def)
qed

section \<open>Round trip\<close>

definition new_size :: "byte list \<Rightarrow> u32 \<Rightarrow> u32" where
  "new_size img nfs = (if nfs \<noteq> -1 then nfs else vlr_size img)"

lemma unat_scast_small:
  fixes w :: u32
  assumes "unat w < 2 ^ 31" shows "unat (scast w :: u64) = unat w"
proof -
  have "uint w < 2 ^ 31" using assms nat_less_iff [of "uint w" "2 ^ 31"] by simp
  moreover have "- (2 ^ 31) \<le> uint w" by (rule order_trans [of _ 0]) simp_all
  ultimately have "sint w = uint w" by (simp add: sint_uint signed_take_bit_int_eq_self)
  then have "(scast w :: u64) = ucast w" by (simp add: scast_eq unsigned_ucast_eq)
  then show ?thesis by simp
qed

lemma sign_size_image:
  assumes "image_ok img" "length img < 2 ^ 31" "unat (new_size img nfs) \<le> length img - 0x10400"
  shows "\<exists>img1 sz. sign_size img nfs = (img1, sz) \<and> unat sz = unat (new_size img nfs) \<and>
    vlr_size img1 = new_size img nfs \<and> image_ok img1 \<and> length img1 = length img \<and>
    (\<forall>o' n. o' + n \<le> 0x10288 \<or> 0x1028c \<le> o' \<longrightarrow> bytes_at img1 o' n = bytes_at img o' n)"
proof (cases "nfs = -1")
  case True
  have "unat (vlr_size img) < 2 ^ 31" using assms(2,3) True by (simp add: new_size_def)
  then have "unat (scast (vlr_size img) :: u64) = unat (vlr_size img)" by (rule unat_scast_small)
  then show ?thesis using assms(1) True by (simp add: sign_size_def new_size_def)
next
  case False
  have l: "0x10288 + length (WRITE32_LE nfs) \<le> length img" using assms(1) by (simp add: image_ok_def)
  then have "image_ok (put_at img 0x10288 (WRITE32_LE nfs))"
    using assms(1) by (intro image_ok_put) simp_all
  moreover have "vlr_size (put_at img 0x10288 (WRITE32_LE nfs)) = nfs"
    using l by (simp add: vlr_size_def le32_put_same)
  ultimately show ?thesis
    using False l by (simp add: sign_size_def new_size_def bytes_at_put_other)
qed

lemma sign_then_verify_aux:
  assumes "disk_files s fn = Some img" "image_ok img" "length img < 2 ^ 31"
    and "unat (new_size img nfs) \<le> length img - 0x10400"
    and "may_write s out" "priv \<noteq> []" "disk_files s priv = Some pem" "PEM_read C True pem = Some k"
    and "key_fits C k img"
    and "\<And>x. length (SHA1 C x) = 20"
    and "BN_bin2bn C (BN_bn2bin C (rsa_n k)) = rsa_n k"
    and "\<And>b. BN_bn2binpad C (rsa_e k) 4 = Some b \<Longrightarrow> BN_bin2bn C b = rsa_e k"
    and "RSA_public_decrypt C (rsa_n k) (rsa_e k) (signature_of img) = (128, dec)" "length dec = 128"
    and "\<And>h. length h = 20 \<Longrightarrow> \<exists>c. length c = 128 \<and> RSA_private_encrypt C k (take 108 dec @ h) = (128, c) \<and>
      RSA_public_decrypt C (rsa_n k) (rsa_e k) c = (128, take 108 dec @ h)"
  shows "\<exists>s' img' t l. sign_fw C fn priv nfs out s = Ret () s' \<and> disk_files s' out = Some img' \<and>
    length img' = length img \<and> vlr_size img' = new_size img nfs \<and>
    (\<forall>o' n. o' + n \<le> 0x10204 \<or> (0x10284 \<le> o' \<and> o' + n \<le> 0x10288) \<or> 0x1028c \<le> o' \<longrightarrow> bytes_at img' o' n = bytes_at img o' n) \<and>
    verify_fw C out s' = Ret () t \<and> printed_log t = printed_log s' @ l \<and>
    ''!!! decrypted data not match'' \<notin> fst ` set l"
proof -
  obtain img1 sz where size: "sign_size img nfs = (img1, sz)" "unat sz = unat (new_size img nfs)"
      "vlr_size img1 = new_size img nfs"
    and ok1: "image_ok img1" and len1: "length img1 = length img"
    and same1: "\<And>o' n. o' + n \<le> 0x10288 \<or> 0x1028c \<le> o' \<Longrightarrow> bytes_at img1 o' n = bytes_at img o' n"
    using sign_size_image [OF assms(2,3,4)] by blast
  have fits1: "key_fits C k img1" using assms(9) same1 by (simp add: key_fits_def)
  have sig1: "signature_of img1 = signature_of img" using same1 by (simp add: signature_of_def)
  define h where "h = fw_hash C img1 (unat sz)"
  have h: "length h = 20" by (simp add: h_def fw_hash_def sprd_sha1_def assms(10))
  from assms(15) [OF this] obtain c where c: "length c = 128"
    "RSA_private_encrypt C k (take 108 dec @ h) = (128, c)"
    "RSA_public_decrypt C (rsa_n k) (rsa_e k) c = (128, take 108 dec @ h)" by blast
  define img' where "img' = put_at img1 0x10204 c"
  have l: "0x10204 + length c \<le> length img1" using ok1 c by (simp add: image_ok_def)
  have s': "sign_fw C fn priv nfs out s = Ret () (s\<lparr>disk_files := (disk_files s)(out := Some img')\<rparr>)"
    unfolding img'_def
    using sign_run [OF assms(1,2,5-9) size(1) _ ok1 fits1 sig1 assms(13)] c(2) h assms(4) size(2) len1
    by (simp add: h_def)
  have put: "\<And>o' n. o' + n \<le> 0x10204 \<or> 0x10284 \<le> o' \<Longrightarrow> bytes_at img' o' n = bytes_at img1 o' n"
    using bytes_at_put_other [OF l] c(1) by (simp add: img'_def)
  have v: "vlr_size img' = new_size img nfs"
    using le32_put_other [OF l, of "0x10288"] ok1 c(1) size(3) by (simp add: vlr_size_def img'_def image_ok_def)
  have ok': "image_ok img'" unfolding img'_def using ok1 c(1) by (intro image_ok_put) simp_all
  have l': "length img' = length img" using l len1 by (simp add: img'_def)
  have sig: "signature_of img' = c" using bytes_at_put_same [OF l] c(1) by (simp add: signature_of_def img'_def)
  have ne: "BN_bin2bn C (bytes_at img' 0x2e0 128) = rsa_n k" "BN_bin2bn C (bytes_at img' 0x2dc 4) = rsa_e k"
    using fits1 put assms(11,12) by (simp_all add: key_fits_def)
  have hash: "fw_hash C img' (unat (vlr_size img')) = h"
    using put by (simp add: fw_hash_def h_def v size(2))
  have run: "\<exists>t l. verify_fw C out (s\<lparr>disk_files := (disk_files s)(out := Some img')\<rparr>) = Ret () t \<and>
      printed_log t = printed_log (s\<lparr>disk_files := (disk_files s)(out := Some img')\<rparr>) @ l \<and>
      ''!!! decrypted data not match'' \<notin> fst ` set l"
    by (rule verify_run [OF _ ok' _ _, where dec = "take 108 dec @ h"])
      (use assms(4,14) l' v ne sig c(3) hash h in \<open>simp_all add: bytes_at_def\<close>)
  have same: "\<And>o' n. o' + n \<le> 0x10204 \<or> (0x10284 \<le> o' \<and> o' + n \<le> 0x10288) \<or> 0x1028c \<le> o' \<Longrightarrow> bytes_at img' o' n = bytes_at img o' n"
    using put same1 by auto
  from run obtain t l where t: "verify_fw C out (s\<lparr>disk_files := (disk_files s)(out := Some img')\<rparr>) = Ret () t"
    "printed_log t = printed_log (s\<lparr>disk_files := (disk_files s)(out := Some img')\<rparr>) @ l"
    "''!!! decrypted data not match'' \<notin> fst ` set l" by blast
  show ?thesis
    by (intro exI conjI) (rule s', simp, rule l', rule v, use same in blast, rule t(1), rule t(2), rule t(3))
qed

text \<open>An image and a key for the witness; the private operation of the library is the identity.\<close>

definition sample_image :: "byte list" where
  "sample_image = replicate 0x20 0 @ bytes_of ''2656'' @ replicate 0xffdc 0 @ bytes_of ''SPRD-SECUREFLAG'' @
     replicate 0x1f1 0 @ 0xff # bytes_of ''VLR'' @ replicate 0x1fc 0 @ [1, 2, 3, 4, 5, 6, 7, 8]"

definition sign_crypto :: crypto where
  "sign_crypto = sample_crypto\<lparr>BN_bn2bin := (\<lambda>n. replicate 128 0), PEM_read := (\<lambda>_ _. Some
     \<lparr>rsa_n = 0, rsa_e = 0, rsa_d = 0, rsa_p = 0, rsa_q = 0, rsa_dmp1 = 0, rsa_dmq1 = 0, rsa_iqmp = 0\<rparr>)\<rparr>"

definition sign_fws :: fws where
  "sign_fws = sample_fws\<lparr>disk_files := [''in'' \<mapsto> sample_image, ''key'' \<mapsto> [1]]\<rparr>"

text \<open>
  C35: sign_fw makes what verify_fw accepts: for an image with the right headers and a key
  that belongs to it, signing returns, the file it writes differs from the input in the 128
  bytes of the signature (from 0x10204 on) and the four of the firmware size (at 0x10288)
  only, and checking that file reports no mismatch, given
  that the public operation undoes the private one.
\<close>

theorem sign_then_verify:
  assumes "disk_files s fn = Some img" "image_ok img" "length img < 2 ^ 31"
    and "unat (new_size img nfs) \<le> length img - 0x10400"
    and "may_write s out" "priv \<noteq> []" "disk_files s priv = Some pem" "PEM_read C True pem = Some k"
    and "key_fits C k img"
    and "\<And>x. length (SHA1 C x) = 20"
    and "BN_bin2bn C (BN_bn2bin C (rsa_n k)) = rsa_n k"
    and "\<And>b. BN_bn2binpad C (rsa_e k) 4 = Some b \<Longrightarrow> BN_bin2bn C b = rsa_e k"
    and "RSA_public_decrypt C (rsa_n k) (rsa_e k) (signature_of img) = (128, dec)" "length dec = 128"
    and "\<And>h. length h = 20 \<Longrightarrow> \<exists>c. length c = 128 \<and> RSA_private_encrypt C k (take 108 dec @ h) = (128, c) \<and>
      RSA_public_decrypt C (rsa_n k) (rsa_e k) c = (128, take 108 dec @ h)"
  shows "\<exists>s' img' t l. sign_fw C fn priv nfs out s = Ret () s' \<and> disk_files s' out = Some img' \<and>
    length img' = length img \<and> vlr_size img' = new_size img nfs \<and>
    (\<forall>o' n. o' + n \<le> 0x10204 \<or> (0x10284 \<le> o' \<and> o' + n \<le> 0x10288) \<or> 0x1028c \<le> o' \<longrightarrow> bytes_at img' o' n = bytes_at img o' n) \<and>
    verify_fw C out s' = Ret () t \<and> printed_log t = printed_log s' @ l \<and>
    ''!!! decrypted data not match'' \<notin> fst ` set l"
  using assms by (rule sign_then_verify_aux)

lemma sample_image_ok: "image_ok sample_image" "length sample_image = 0x10408"
  by (simp_all add: image_ok_def sample_image_def bytes_at_def bytes_of_def le32_at_def READ32_LE_def
      blit_def nth_append)

theorem sign_then_verify_witness:
  "\<exists>s' img' t l. sign_fw sign_crypto ''in'' ''key'' 8 ''out'' sign_fws = Ret () s' \<and>
    disk_files s' ''out'' = Some img' \<and> length img' = 0x10408 \<and> vlr_size img' = 8 \<and>
    bytes_at img' 0x10400 8 = [1, 2, 3, 4, 5, 6, 7, 8] \<and>
    verify_fw sign_crypto ''out'' s' = Ret () t \<and> printed_log t = printed_log s' @ l \<and>
    ''!!! decrypted data not match'' \<notin> fst ` set l"
proof -
  let ?k = "\<lparr>rsa_n = 0, rsa_e = 0, rsa_d = 0, rsa_p = 0, rsa_q = 0, rsa_dmp1 = 0, rsa_dmq1 = 0, rsa_iqmp = 0\<rparr>"
  have sig: "signature_of sample_image = replicate 128 0"
    by (simp add: signature_of_def sample_image_def bytes_at_def bytes_of_def)
  have fits: "key_fits sign_crypto ?k sample_image"
    by (simp add: key_fits_def sign_crypto_def sample_crypto_def sample_image_def bytes_at_def bytes_of_def)
  have size: "unat (new_size sample_image 8) \<le> length sample_image - 0x10400"
    by (simp add: sample_image_ok new_size_def)
  have sha: "length (SHA1 sign_crypto x) = 20" for x by (simp add: sign_crypto_def sample_crypto_def)
  have data: "bytes_at sample_image 0x10400 8 = [1, 2, 3, 4, 5, 6, 7, 8]"
    by (simp add: sample_image_def bytes_at_def bytes_of_def)
  have "\<exists>s' img' t l. sign_fw sign_crypto ''in'' ''key'' 8 ''out'' sign_fws = Ret () s' \<and>
      disk_files s' ''out'' = Some img' \<and>
      length img' = length sample_image \<and> vlr_size img' = new_size sample_image 8 \<and>
      (\<forall>o' n. o' + n \<le> 0x10204 \<or> (0x10284 \<le> o' \<and> o' + n \<le> 0x10288) \<or> 0x1028c \<le> o' \<longrightarrow> bytes_at img' o' n = bytes_at sample_image o' n) \<and>
      verify_fw sign_crypto ''out'' s' = Ret () t \<and> printed_log t = printed_log s' @ l \<and>
      ''!!! decrypted data not match'' \<notin> fst ` set l"
    by (rule sign_then_verify [OF _ sample_image_ok(1) _ size _ _ _ _ fits sha,
          where pem = "[1]" and dec = "replicate 128 0"])
      (simp_all add: sample_image_ok(2) sign_fws_def sample_fws_def sign_crypto_def sample_crypto_def sig be_val_zeros)
  then show ?thesis using data by (auto simp: sample_image_ok(2) new_size_def)
qed

end
