(* ===== verification/FdlUsb.thy ===== *)
theory FdlUsb
  imports Checksum CMonad
begin

text \<open>
  The USB channel of the custom loader (custom_fdl/usbio.c, channel.c): the controller
  driver, the ring buffer between the receive interrupt and getchar, the cutting of replies
  into packets, and the descriptors. The registers are a parameter, the record \<open>mmio\<close>: a
  volatile read may change the device, a write does. The fields \<open>got\<close>, \<open>given\<close>, \<open>tx_fifo\<close>,
  \<open>trsize\<close> and \<open>txlog\<close> are ghosts, which the code does not read: the bytes received and handed
  out, the words in the transmit FIFO, the sizes stored in the transfer size registers and the
  packets that the controller was started with.
\<close>

unbundle bit_operations_syntax

section \<open>State and registers\<close>

definition USB_MAXREAD :: u32 where "USB_MAXREAD = 64"
definition USB_BUFSIZE :: u32 where "USB_BUFSIZE = 0x800"

record 'h mmio =
  ld4 :: "u32 \<Rightarrow> 'h \<Rightarrow> u32 \<times> 'h"
  st4 :: "u32 \<Rightarrow> u32 \<Rightarrow> 'h \<Rightarrow> 'h"
  usb_chip :: nat
  usb_spins :: nat

record 'h usbst =
  rpos :: u32
  wpos :: u32
  ubuf :: mem
  priv :: bool
  hw :: 'h
  got :: "byte list"
  given :: "byte list"
  tx_fifo :: "u32 list"
  trsize :: "u32 \<Rightarrow> u32"
  txlog :: "(u32 \<times> byte list) list"

type_synonym ('h, 'a) um = "('h usbst, 'a) cm"

definition USB_BASE :: "'h mmio \<Rightarrow> u32" where
  "USB_BASE M = (if usb_chip M = 3 then 0x20300000 else 0x90000000)"

definition mem4 :: "'h mmio \<Rightarrow> u32 \<Rightarrow> ('h, u32) um" where
  "mem4 M a = (\<lambda>s. case ld4 M a (hw s) of (v, h) \<Rightarrow> Ret v (s\<lparr>hw := h\<rparr>))"

definition mem4_set :: "'h mmio \<Rightarrow> u32 \<Rightarrow> u32 \<Rightarrow> ('h, unit) um" where
  "mem4_set M a v = modify (\<lambda>s. s\<lparr>hw := st4 M a v (hw s)\<rparr>)"

definition USB_CR :: "'h mmio \<Rightarrow> u32 \<Rightarrow> ('h, u32) um" where
  "USB_CR M off = mem4 M (USB_BASE M + off)"

definition USB_CR_set :: "'h mmio \<Rightarrow> u32 \<Rightarrow> u32 \<Rightarrow> ('h, unit) um" where
  "USB_CR_set M off v = mem4_set M (USB_BASE M + off) v"

definition USB_CR_or :: "'h mmio \<Rightarrow> u32 \<Rightarrow> u32 \<Rightarrow> ('h, unit) um" where
  "USB_CR_or M off v = bnd (USB_CR M off) (\<lambda>a. USB_CR_set M off (a OR v))"

definition USB_CTRL :: u32 where "USB_CTRL = 0"
definition INT_STS :: u32 where "INT_STS = 0x18"
definition INT_CLR :: u32 where "INT_CLR = 0x1c"
definition TIMEOUT_LMT :: u32 where "TIMEOUT_LMT = 0x28"
definition TR_SIZE_IN_ENDP0 :: u32 where "TR_SIZE_IN_ENDP0 = 0x40"
definition REQ_SETUP_LOW :: u32 where "REQ_SETUP_LOW = 0x5c"
definition REQ_SETUP_HIGH :: u32 where "REQ_SETUP_HIGH = 0x60"
definition ENDP0_CTRL :: u32 where "ENDP0_CTRL = 0x64"
definition INT_CTRL_ENDP0 :: u32 where "INT_CTRL_ENDP0 = 0x68"
definition INT_STS_ENDP0 :: u32 where "INT_STS_ENDP0 = 0x6c"
definition INT_CLR_ENDP0 :: u32 where "INT_CLR_ENDP0 = 0x70"
definition ENDP2_CTRL :: u32 where "ENDP2_CTRL = 0x100"
definition RCV_DATA_ENDP2 :: u32 where "RCV_DATA_ENDP2 = 0x104"
definition INT_CTRL_ENDP2 :: u32 where "INT_CTRL_ENDP2 = 0x10c"
definition INT_STS_ENDP2 :: u32 where "INT_STS_ENDP2 = 0x110"
definition INT_CLR_ENDP2 :: u32 where "INT_CLR_ENDP2 = 0x114"
definition ENDP3_CTRL :: u32 where "ENDP3_CTRL = 0x140"
definition TRANS_SIZE_ENDP3 :: u32 where "TRANS_SIZE_ENDP3 = 0x148"
definition INT_CTRL_ENDP3 :: u32 where "INT_CTRL_ENDP3 = 0x14c"
definition INT_STS_ENDP3 :: u32 where "INT_STS_ENDP3 = 0x150"
definition INT_CLR_ENDP3 :: u32 where "INT_CLR_ENDP3 = 0x154"

definition FIFO_endp0_in :: "'h mmio \<Rightarrow> u32" where "FIFO_endp0_in M = USB_BASE M + 0x80000"
definition FIFO_endp3 :: "'h mmio \<Rightarrow> u32" where "FIFO_endp3 M = USB_BASE M + 0x80008"

definition FIFO_endp_out :: "'h mmio \<Rightarrow> u32" where
  "FIFO_endp_out M = USB_BASE M + (if usb_chip M = 2 then 0x80020 else 0x8000c)"

definition USB_MAXPSIZE :: "'h mmio \<Rightarrow> u32 \<Rightarrow> u32 \<Rightarrow> ('h, unit) um" where
  "USB_MAXPSIZE M off n =
     bnd (USB_CR M off) (\<lambda>a. USB_CR_set M off ((a AND NOT 0x7ff000) OR push_bit 12 n))"

definition USB_TRSIZE :: "'h mmio \<Rightarrow> u32 \<Rightarrow> u32 \<Rightarrow> ('h, unit) um" where
  "USB_TRSIZE M off n = bnd (USB_CR M off) (\<lambda>a. let a = (a AND NOT 0x1ffff) OR n
     in thn (USB_CR_set M off a) (modify (\<lambda>s. s\<lparr>trsize := (trsize s)(off := a AND 0x1ffff)\<rparr>)))"

text \<open>Waiting for a bit of a register, for at most \<open>usb_spins\<close> reads.\<close>

fun usb_poll :: "'h mmio \<Rightarrow> u32 \<Rightarrow> u32 \<Rightarrow> nat \<Rightarrow> ('h, unit) um" where
  "usb_poll M off bits 0 = no_fuel"
| "usb_poll M off bits (Suc n) =
     bnd (USB_CR M off) (\<lambda>a. if a AND bits = 0 then usb_poll M off bits n else ret ())"

section \<open>Set-up\<close>

definition usb_init_endp0 :: "'h mmio \<Rightarrow> ('h, unit) um" where
  "usb_init_endp0 M =
     thn (USB_MAXPSIZE M ENDP0_CTRL 8)
    (thn (USB_CR_or M INT_CLR_ENDP0 (push_bit 8 1))
    (thn (USB_CR_or M INT_CTRL_ENDP0 (push_bit 8 1))
    (USB_CR_or M ENDP0_CTRL (push_bit 28 1))))"

definition usb_init_endp2 :: "'h mmio \<Rightarrow> ('h, unit) um" where
  "usb_init_endp2 M =
     thn (USB_MAXPSIZE M ENDP2_CTRL 0x40)
    (thn (USB_TRSIZE M RCV_DATA_ENDP2 0x2000)
    (thn (USB_CR_set M INT_CLR_ENDP2 0x3fff)
    (thn (USB_CR_set M INT_CTRL_ENDP2 0)
    (thn (USB_CR_or M INT_CLR_ENDP2 1)
    (thn (USB_CR_or M INT_CTRL_ENDP2 1)
    (thn (USB_CR_or M ENDP2_CTRL (push_bit 25 1))
    (USB_CR_or M ENDP2_CTRL (push_bit 28 1))))))))"

definition usb_init_endp3 :: "'h mmio \<Rightarrow> ('h, unit) um" where
  "usb_init_endp3 M =
     thn (USB_MAXPSIZE M ENDP3_CTRL 0x40)
    (thn (USB_TRSIZE M TRANS_SIZE_ENDP3 0x40)
    (thn (USB_CR_set M INT_CLR_ENDP3 0x3fff)
    (thn (USB_CR_set M INT_CTRL_ENDP3 0)
    (thn (USB_CR_or M INT_CLR_ENDP3 (push_bit 9 1))
    (thn (USB_CR_or M INT_CTRL_ENDP3 (push_bit 9 1))
    (USB_CR_or M ENDP3_CTRL (push_bit 25 1)))))))"

definition usb_channel_open :: "'h mmio \<Rightarrow> ('h, int) um" where
  "usb_channel_open M =
     bnd (gets priv) (\<lambda>opened.
       thn (cwhen (\<not> opened)
         (thn (modify (\<lambda>s. s\<lparr>rpos := 0, wpos := 0, priv := True\<rparr>))
         (thn (USB_CR_or M USB_CTRL 1)
         (thn (usb_init_endp0 M)
         (thn (usb_init_endp2 M)
         (thn (usb_init_endp3 M)
         (USB_CR_set M TIMEOUT_LMT 15)))))))
      (ret 0))"

section \<open>Sending\<close>

text \<open>One word into the FIFO of the endpoint; the ghost keeps what the FIFO holds.\<close>

definition fifo_put :: "'h mmio \<Rightarrow> u32 \<Rightarrow> u32 \<Rightarrow> ('h, unit) um" where
  "fifo_put M fifo w = thn (mem4_set M fifo w) (modify (\<lambda>s. s\<lparr>tx_fifo := tx_fifo s @ [w]\<rparr>))"

fun fifo_fill :: "'h mmio \<Rightarrow> u32 \<Rightarrow> mem \<Rightarrow> nat \<Rightarrow> nat \<Rightarrow> ('h, unit) um" where
  "fifo_fill M fifo m p 0 = ret ()"
| "fifo_fill M fifo m p (Suc n) =
     thn (fifo_put M fifo (swap_be32 (READ32_LE m p))) (fifo_fill M fifo m (p + 4) n)"

text \<open>
  Setting bit 27 sends as many bytes of the FIFO as the transfer size register \<open>tr\<close> says, most
  significant byte of a word first.
\<close>

definition fifo_start :: "'h mmio \<Rightarrow> u32 \<Rightarrow> u32 \<Rightarrow> u32 \<Rightarrow> ('h, unit) um" where
  "fifo_start M ctrl ep tr = thn (USB_CR_or M ctrl (push_bit 27 1))
     (modify (\<lambda>s. s\<lparr>tx_fifo := [],
        txlog := txlog s @ [(ep, take (unat (trsize s tr)) (concat (map WRITE32_BE (tx_fifo s))))]\<rparr>))"

definition usb_send :: "'h mmio \<Rightarrow> u32 \<Rightarrow> mem \<Rightarrow> nat \<Rightarrow> u32 \<Rightarrow> ('h, unit) um" where
  "usb_send M ep m p len =
     (if ep = 0 \<or> ep = 4 then
        let ctrl = (if ep = 0 then ENDP0_CTRL else ENDP3_CTRL);
            tr_size = (if ep = 0 then TR_SIZE_IN_ENDP0 else TRANS_SIZE_ENDP3);
            fifo = (if ep = 0 then FIFO_endp0_in M else FIFO_endp3 M)
        in thn (USB_MAXPSIZE M ctrl len)
          (thn (USB_TRSIZE M tr_size len)
          (thn (fifo_fill M fifo m p ((unat len + 3) div 4))
          (thn (fifo_start M ctrl ep tr_size)
          (cwhen (ep = 4)
            (thn (usb_poll M INT_STS_ENDP3 (push_bit 9 1) (usb_spins M))
                 (USB_CR_or M INT_CLR_ENDP3 (push_bit 9 1)))))))
      else ret ())"

function usb_write_loop :: "'h mmio \<Rightarrow> mem \<Rightarrow> nat \<Rightarrow> u32 \<Rightarrow> ('h, nat \<times> u32) um" where
  "usb_write_loop M m p len =
     (if len > USB_MAXREAD
      then thn (usb_send M 4 m p USB_MAXREAD) (usb_write_loop M m (p + 64) (len - USB_MAXREAD))
      else ret (p, len))"
  by auto

termination
  by (relation "measure (\<lambda>(M, m, p, len). unat len)")
    (auto simp: USB_MAXREAD_def unat_sub word_less_nat_alt word_le_nat_alt)

declare usb_write_loop.simps [simp del]

definition usb_channel_write :: "'h mmio \<Rightarrow> mem \<Rightarrow> nat \<Rightarrow> u32 \<Rightarrow> ('h, nat) um" where
  "usb_channel_write M m src len =
     bnd (usb_write_loop M m src len) (\<lambda>(p, len).
       if len \<noteq> 0
       then if len = USB_MAXREAD
            then let len = drop_bit 1 len
                 in thn (usb_send M 4 m p len)
                   (let p = p + unat len in thn (usb_send M 4 m p len) (ret (p - src)))
            else thn (usb_send M 4 m p len) (ret (p - src))
       else ret (p - src))"

section \<open>Receiving\<close>

fun fifo_read :: "'h mmio \<Rightarrow> u32 \<Rightarrow> nat \<Rightarrow> ('h, byte list) um" where
  "fifo_read M fifo 0 = ret []"
| "fifo_read M fifo (Suc n) =
     bnd (mem4 M fifo) (\<lambda>a. bnd (mem4 M fifo) (\<lambda>b. bnd (fifo_read M fifo n) (\<lambda>r.
       ret (WRITE32_LE (swap_be32 a) @ WRITE32_LE (swap_be32 b) @ r))))"

definition usb_recv :: "'h mmio \<Rightarrow> u32 \<Rightarrow> nat \<Rightarrow> ('h, byte list) um" where
  "usb_recv M ep len =
     (if ep = 1 \<or> ep = 3 then
        let ctrl = (if ep = 1 then ENDP0_CTRL else ENDP2_CTRL);
            fifo = (if ep = 1 then FIFO_endp_out M else FIFO_endp_out M + 4)
        in bnd (fifo_read M fifo ((len + 7) div 8)) (\<lambda>bs.
             thn (USB_CR_or M ctrl (push_bit 28 1)) (ret bs))
      else ret [])"

definition ring_put :: "byte \<Rightarrow> 'h usbst \<Rightarrow> 'h usbst" where
  "ring_put b s = s\<lparr>ubuf := (ubuf s)(unat (wpos s) := b),
     wpos := (wpos s + 1) AND (USB_BUFSIZE - 1), got := got s @ [b]\<rparr>"

definition ring_get :: "'h usbst \<Rightarrow> byte \<times> 'h usbst" where
  "ring_get s = (let b = ubuf s (unat (rpos s))
     in (b, s\<lparr>rpos := (rpos s + 1) AND (USB_BUFSIZE - 1), given := given s @ [b]\<rparr>))"

definition usb_int_endp2 :: "'h mmio \<Rightarrow> ('h, unit) um" where
  "usb_int_endp2 M =
     bnd (USB_CR M INT_STS_ENDP2) (\<lambda>sts.
       thn (cwhen (sts AND 1 \<noteq> 0)
         (bnd (USB_CR M ENDP2_CTRL) (\<lambda>a.
            let len = a AND (USB_BUFSIZE - 1);
                len = (if len > USB_MAXREAD then USB_MAXREAD else len)
            in bnd (usb_recv M 3 (unat len)) (\<lambda>buf.
                 thn (modify (\<lambda>s. fold ring_put (take (unat len) buf) s))
                   (USB_CR_or M ENDP2_CTRL (push_bit 28 1))))))
      (USB_CR_set M INT_CLR_ENDP2 0x3fff))"

definition usb_int_endp3 :: "'h mmio \<Rightarrow> ('h, unit) um" where
  "usb_int_endp3 M = USB_CR_set M INT_CLR_ENDP3 0x3fff"

section \<open>Descriptors\<close>

definition dev_desc :: "byte list" where
  "dev_desc = [0x12, 0x01, 0x10, 0x01, 0x00, 0x00, 0x00, 0x40,
     0x82, 0x17, 0x00, 0x4d, 0x02, 0x02, 0x00, 0x00, 0x00, 0x01]"

definition config_desc :: "byte list" where
  "config_desc = [0x09, 0x02, 0x20, 0x00, 0x01, 0x01, 0x00, 0xc0, 0x32,
     0x09, 0x04, 0x00, 0x00, 0x02, 0xff, 0x00, 0x00, 0x00,
     0x07, 0x05, 0x83, 0x02, 0x40, 0x00, 0x00,
     0x07, 0x05, 0x02, 0x02, 0x40, 0x00, 0x00]"

text \<open>\<open>pad\<close> is the memory behind a descriptor, of which the last word sent may hold up to two bytes.\<close>

definition usb_send_desc :: "'h mmio \<Rightarrow> mem \<Rightarrow> u32 \<Rightarrow> u32 \<Rightarrow> ('h, unit) um" where
  "usb_send_desc M pad type len =
     (if type = 1 \<or> type = 2 then
        let p = (if type = 1 then dev_desc else config_desc);
            n = of_nat (length p);
            len = (if len > n then n else len)
        in usb_send M 0 (blit pad 0 p) 0 len
      else ret ())"

definition usb_int_endp0 :: "'h mmio \<Rightarrow> mem \<Rightarrow> ('h, unit) um" where
  "usb_int_endp0 M pad =
     bnd (USB_CR M INT_STS_ENDP0) (\<lambda>sts.
       thn (cwhen (sts AND push_bit 8 1 \<noteq> 0)
         (bnd (USB_CR M REQ_SETUP_LOW) (\<lambda>a.
          bnd (USB_CR M REQ_SETUP_HIGH) (\<lambda>hi.
            let len = drop_bit 16 hi;
                req = drop_bit 8 a AND 0xff;
                b = a AND (0x1f OR 0x60)
            in cwhen (b = 0 \<and> req = 6) (usb_send_desc M pad (drop_bit 24 a) len)))))
      (USB_CR_set M INT_CLR_ENDP0 0x3fff))"

section \<open>The interrupt poll and getchar\<close>

definition usb_pending :: "'h mmio \<Rightarrow> ('h, bool) um" where
  "usb_pending M =
     (if usb_chip M \<noteq> 3 then bnd (mem4 M 0x80001004) (\<lambda>a. ret (a AND push_bit 5 1 \<noteq> 0))
      else bnd (mem4 M 0x80000004) (\<lambda>a. ret (a AND push_bit 25 1 \<noteq> 0)))"

definition usb_check_int :: "'h mmio \<Rightarrow> mem \<Rightarrow> ('h, unit) um" where
  "usb_check_int M pad =
     bnd (usb_pending M) (\<lambda>b.
       cwhen b
         (bnd (USB_CR M INT_STS) (\<lambda>mask.
           thn (cwhen (mask AND 0x3fff \<noteq> 0)
             (thn (cwhen (mask AND push_bit 10 1 \<noteq> 0) (usb_int_endp2 M))
             (thn (cwhen (mask AND push_bit 11 1 \<noteq> 0) (usb_int_endp3 M))
             (cwhen (mask AND push_bit 8 1 \<noteq> 0) (usb_int_endp0 M pad)))))
          (USB_CR_set M INT_CLR 0x7f))))"

fun usb_wait :: "'h mmio \<Rightarrow> mem \<Rightarrow> nat \<Rightarrow> ('h, unit) um" where
  "usb_wait M pad 0 = no_fuel"
| "usb_wait M pad (Suc n) =
     bnd (gets (\<lambda>s. rpos s \<noteq> wpos s)) (\<lambda>b.
       if b then ret () else thn (usb_check_int M pad) (usb_wait M pad n))"

definition ring_take :: "('h, int) um" where
  "ring_take = (\<lambda>s. case ring_get s of (b, s) \<Rightarrow> Ret (uint b) s)"

definition usb_channel_getchar :: "'h mmio \<Rightarrow> mem \<Rightarrow> bool \<Rightarrow> ('h, int) um" where
  "usb_channel_getchar M pad wait =
     (if wait then thn (usb_wait M pad (usb_spins M)) ring_take
      else bnd (gets (\<lambda>s. (rpos s - wpos s - 1) AND (USB_BUFSIZE - 1))) (\<lambda>free.
             thn (cwhen (free \<ge> USB_MAXREAD) (usb_check_int M pad))
            (bnd (gets (\<lambda>s. rpos s = wpos s)) (\<lambda>empty. if empty then ret (-1) else ring_take))))"

definition usb_channel_close :: "('h, int) um" where
  "usb_channel_close = ret 0"

text \<open>The boot mode and the channel it selects: there is only this one.\<close>

definition dl_getbootmode :: "'h mmio \<Rightarrow> ('h, u32) um" where
  "dl_getbootmode M = bnd (mem4 M 0x8b000228) (\<lambda>a. ret (drop_bit 8 a AND 0xff))"

end
