(* ===== verification/UsbRing.thy ===== *)
theory UsbRing
  imports FdlUsb
begin

text \<open>
  Correctness of the USB channel: the ring buffer is a queue of bytes (an instance of the
  interface \<open>byte_queue\<close>), no received byte is lost, doubled or reordered on its way to
  getchar, whatever the controller does, and a write reaches the wire as short packets that
  make up exactly the data.
\<close>

unbundle bit_operations_syntax

section \<open>A bounded queue of bytes\<close>

locale byte_queue =
  fixes content :: "'s \<Rightarrow> byte list"
    and wf :: "'s \<Rightarrow> bool"
    and put :: "byte \<Rightarrow> 's \<Rightarrow> 's"
    and get :: "'s \<Rightarrow> byte \<times> 's"
    and cap :: nat
  assumes put_ok: "wf s \<Longrightarrow> length (content s) < cap \<Longrightarrow> wf (put b s) \<and> content (put b s) = content s @ [b]"
    and get_ok: "wf s \<Longrightarrow> content s = b # bs \<Longrightarrow>
      fst (get s) = b \<and> wf (snd (get s)) \<and> content (snd (get s)) = bs"
begin

lemma put_list:
  "wf s \<Longrightarrow> length (content s) + length bs \<le> cap \<Longrightarrow>
     wf (fold put bs s) \<and> content (fold put bs s) = content s @ bs"
proof (induction bs arbitrary: s)
  case (Cons b bs)
  then show ?case using put_ok [of s b] by simp
qed simp

fun drain :: "nat \<Rightarrow> 's \<Rightarrow> byte list \<times> 's" where
  "drain 0 s = ([], s)"
| "drain (Suc n) s = (case get s of (b, s) \<Rightarrow> case drain n s of (bs, s) \<Rightarrow> (b # bs, s))"

lemma drain_list:
  "wf s \<Longrightarrow> n \<le> length (content s) \<Longrightarrow>
     fst (drain n s) = take n (content s) \<and> content (snd (drain n s)) = drop n (content s) \<and> wf (snd (drain n s))"
proof (induction n arbitrary: s)
  case (Suc n)
  then obtain b bs where c: "content s = b # bs" by (cases "content s") auto
  from get_ok [OF Suc(2) c] Suc(1) [of "snd (get s)"] Suc(3) c show ?case
    by (cases "get s"; cases "drain n (snd (get s))") auto
qed simp

text \<open>First in, first out: what is put into an empty queue comes out in the same order.\<close>

lemma fifo: "wf s \<Longrightarrow> content s = [] \<Longrightarrow> length bs \<le> cap \<Longrightarrow> fst (drain (length bs) (fold put bs s)) = bs"
  using put_list [of s bs] drain_list [of "fold put bs s" "length bs"] by simp

end

section \<open>The ring buffer is one\<close>

definition ring_len :: "'h usbst \<Rightarrow> nat" where
  "ring_len s = (unat (wpos s) + 2048 - unat (rpos s)) mod 2048"

definition ring_content :: "'h usbst \<Rightarrow> byte list" where
  "ring_content s = map (\<lambda>i. ubuf s ((unat (rpos s) + i) mod 2048)) [0..<ring_len s]"

definition ring_wf :: "'h usbst \<Rightarrow> bool" where
  "ring_wf s = (unat (rpos s) < 2048 \<and> unat (wpos s) < 2048)"

lemma and_7ff: "w AND 0x7ff = take_bit 11 (w :: u32)"
  by (simp add: take_bit_eq_mask mask_eq_exp_minus_1)

lemma unat_and_7ff: "unat (w AND (USB_BUFSIZE - 1)) = unat w mod 2048"
proof -
  have e: "USB_BUFSIZE - 1 = 0x7ff" by (simp add: USB_BUFSIZE_def)
  show ?thesis unfolding e and_7ff by (simp add: unsigned_take_bit_eq take_bit_nat)
qed

lemma unat_next: "unat w < 2048 \<Longrightarrow> unat ((w + 1) AND (USB_BUFSIZE - 1)) = (unat w + 1) mod 2048"
  by (simp add: unat_and_7ff unat_word_ariths)


lemma length_ring_content [simp]: "length (ring_content s) = ring_len s"
  by (simp add: ring_content_def)

lemma mod2048_cases:
  "(a::nat) < 2048 \<Longrightarrow> b < 2048 \<Longrightarrow> (a + 2048 - b) mod 2048 = (if b \<le> a then a - b else a + 2048 - b)"
  by (auto simp: mod_if)

lemma ring_len_cases:
  "ring_wf s \<Longrightarrow> ring_len s = (if unat (rpos s) \<le> unat (wpos s) then unat (wpos s) - unat (rpos s)
     else unat (wpos s) + 2048 - unat (rpos s))"
  by (simp add: ring_len_def ring_wf_def mod2048_cases)

lemma pos_aux:
  assumes "(r::nat) < 2048" "w < 2048" "n = (if r \<le> w then w - r else w + 2048 - r)" "i \<le> n"
  shows "(r + i) mod 2048 = w \<longleftrightarrow> i = n"
proof -
  have n: "r \<le> w \<Longrightarrow> r + n = w" "\<not> r \<le> w \<Longrightarrow> r + n = w + 2048" using assms(1-3) by simp_all
  show ?thesis
  proof (cases "r + i < 2048")
    case True
    then show ?thesis using n assms(2,4) by (cases "r \<le> w") auto
  next
    case False
    then have "(r + i) mod 2048 = r + i - 2048"
      using n assms(1,2,4) by (cases "r \<le> w") (auto simp: mod_if)
    then show ?thesis using False n assms(2,4) by (cases "r \<le> w") auto
  qed
qed

lemma ring_pos:
  assumes "ring_wf s" "i \<le> ring_len s"
  shows "(unat (rpos s) + i) mod 2048 = unat (wpos s) \<longleftrightarrow> i = ring_len s"
proof -
  have lt: "unat (rpos s) < 2048" "unat (wpos s) < 2048" using assms(1) by (simp_all add: ring_wf_def)
  show ?thesis
    by (rule pos_aux [OF lt ring_len_cases [OF assms(1)] assms(2)])
qed

lemma ring_put_ok:
  assumes "ring_wf s" "ring_len s < 2047"
  shows "ring_wf (ring_put b s) \<and> ring_content (ring_put b s) = ring_content s @ [b]"
proof -
  let ?t = "ring_put b s" and ?r = "unat (rpos s)" and ?w = "unat (wpos s)"
  have lt: "?r < 2048" "?w < 2048" using assms by (simp_all add: ring_wf_def)
  have w: "unat (wpos ?t) = (?w + 1) mod 2048" using lt by (simp add: ring_put_def unat_next)
  have r: "rpos ?t = rpos s" by (simp add: ring_put_def)
  have wf: "ring_wf ?t" using lt w r by (simp add: ring_wf_def)
  have l: "ring_len ?t = Suc (ring_len s)"
    using ring_len_cases [OF wf] ring_len_cases [OF assms(1)] assms(2) lt unfolding w r
    by (cases "?w = 2047"; cases "?r \<le> ?w") (auto split: if_splits)
  have pos: "(?r + ring_len s) mod 2048 = ?w" using ring_pos [OF assms(1), of "ring_len s"] by simp
  have other: "(?r + i) mod 2048 \<noteq> ?w" if "i < ring_len s" for i
    using ring_pos [OF assms(1), of i] that by simp
  have "ubuf ?t ((?r + i) mod 2048) = ubuf s ((?r + i) mod 2048)" if "i < ring_len s" for i
    using other [OF that] by (simp add: ring_put_def)
  moreover have "ubuf ?t ((?r + ring_len s) mod 2048) = b" unfolding pos by (simp add: ring_put_def)
  ultimately show ?thesis using wf by (simp add: ring_content_def l r)
qed

lemma ring_get_ok:
  assumes "ring_wf s" "ring_content s = b # bs"
  shows "fst (ring_get s) = b \<and> ring_wf (snd (ring_get s)) \<and> ring_content (snd (ring_get s)) = bs"
proof -
  let ?t = "snd (ring_get s)" and ?r = "unat (rpos s)" and ?w = "unat (wpos s)"
  have lt: "?r < 2048" "?w < 2048" using assms by (simp_all add: ring_wf_def)
  have r: "unat (rpos ?t) = (?r + 1) mod 2048" using lt by (simp add: ring_get_def Let_def unat_next)
  have w: "wpos ?t = wpos s" by (simp add: ring_get_def Let_def)
  have wf: "ring_wf ?t" using lt r w by (simp add: ring_wf_def)
  have pos: "0 < ring_len s" using arg_cong [OF assms(2), of length] by simp
  then have l: "ring_len ?t = ring_len s - 1"
    using ring_len_cases [OF wf] ring_len_cases [OF assms(1)] lt unfolding w r
    by (cases "?r = 2047"; cases "?r \<le> ?w") (auto split: if_splits)
  have step: "((?r + 1) mod 2048 + i) mod 2048 = (?r + Suc i) mod 2048" for i
    by (simp add: mod_simps)
  have up: "[0..<ring_len s] = 0 # map Suc [0..<ring_len s - 1]"
    using pos by (simp add: upt_conv_Cons map_Suc_upt)
  have "b # bs = ubuf s (?r mod 2048) # map (\<lambda>i. ubuf s ((?r + Suc i) mod 2048)) [0..<ring_len s - 1]"
    unfolding assms(2) [symmetric] ring_content_def up by (simp add: comp_def)
  then show ?thesis
    using lt wf by (simp add: ring_content_def l r step) (simp add: ring_get_def Let_def mod_simps)
qed

interpretation ring: byte_queue ring_content ring_wf ring_put ring_get 2047
proof unfold_locales
  fix s :: "'a usbst" and b
  assume "ring_wf s" "length (ring_content s) < 2047"
  then show "ring_wf (ring_put b s) \<and> ring_content (ring_put b s) = ring_content s @ [b]"
    by (simp add: ring_put_ok)
next
  fix s :: "'a usbst" and b bs
  assume "ring_wf s" "ring_content s = b # bs"
  then show "fst (ring_get s) = b \<and> ring_wf (snd (ring_get s)) \<and> ring_content (snd (ring_get s)) = bs"
    by (rule ring_get_ok)
qed

section \<open>Nothing is lost\<close>

text \<open>
  What a register access leaves alone: \<open>core\<close> is the state without the device. Every
  operation on registers keeps it.
\<close>

definition usb_core :: "'h usbst \<Rightarrow> (u32 \<times> u32 \<times> mem) \<times> byte list \<times> byte list" where
  "usb_core s = ((rpos s, wpos s, ubuf s), got s, given s)"

definition silent :: "('h, 'a) um \<Rightarrow> bool" where
  "silent m = (\<forall>s. wlp m (\<lambda>_ t. usb_core t = usb_core s) s)"

named_theorems silent_intros \<open>statements that keep the ring buffer\<close>

lemma silentD: "silent m \<Longrightarrow> wlp m (\<lambda>_ t. usb_core t = usb_core s) s"
  by (simp add: silent_def)

lemma silent_mem4 [silent_intros]: "silent (mem4 M a)"
  by (auto simp: silent_def wlp_def mem4_def usb_core_def split: prod.splits)

lemma silent_mem4_set [silent_intros]: "silent (mem4_set M a v)"
  by (auto simp: silent_def wlp_simps mem4_set_def usb_core_def)

lemma silent_ret [silent_intros]: "silent (ret a)"
  by (simp add: silent_def wlp_simps)

lemma silent_bnd [silent_intros]: "silent m \<Longrightarrow> (\<And>a. silent (f a)) \<Longrightarrow> silent (bnd m f)"
proof (unfold silent_def wlp_bnd, intro allI)
  fix s
  assume m: "\<forall>s. wlp m (\<lambda>_ t. usb_core t = usb_core s) s"
    and f: "\<And>a. \<forall>s. wlp (f a) (\<lambda>_ t. usb_core t = usb_core s) s"
  show "wlp m (\<lambda>a. wlp (f a) (\<lambda>_ t. usb_core t = usb_core s)) s"
    by (rule wlp_mono [OF m [rule_format]], rule wlp_mono [OF f [rule_format]]) simp
qed

lemma silent_thn [silent_intros]: "silent m \<Longrightarrow> silent n \<Longrightarrow> silent (thn m n)"
  unfolding thn_def by (intro silent_bnd)

lemma silent_cwhen [silent_intros]: "silent m \<Longrightarrow> silent (cwhen b m)"
  by (simp add: cwhen_def silent_ret)

lemma silent_if [silent_intros]: "silent m \<Longrightarrow> silent n \<Longrightarrow> silent (if b then m else n)"
  by simp

lemma silent_no_fuel [silent_intros]: "silent no_fuel"
  by (simp add: silent_def wlp_simps)

lemma silent_USB_CR [silent_intros]: "silent (USB_CR M a)"
  unfolding USB_CR_def by (rule silent_intros)

lemma silent_USB_CR_set [silent_intros]: "silent (USB_CR_set M a v)"
  unfolding USB_CR_set_def by (rule silent_intros)

lemma silent_USB_CR_or [silent_intros]: "silent (USB_CR_or M a v)"
  unfolding USB_CR_or_def by (intro silent_intros)

lemma silent_sizes [silent_intros]: "silent (USB_MAXPSIZE M a v)" "silent (USB_TRSIZE M a v)"
  unfolding USB_MAXPSIZE_def USB_TRSIZE_def Let_def
  by (intro silent_intros)+ (simp add: silent_def wlp_simps usb_core_def)

lemma silent_fifo_put [silent_intros]: "silent (fifo_put M f w)"
  unfolding fifo_put_def
  by (intro silent_intros) (simp add: silent_def wlp_simps usb_core_def)

lemma silent_fifo_start [silent_intros]: "silent (fifo_start M c ep tr)"
  unfolding fifo_start_def
  by (intro silent_intros) (simp add: silent_def wlp_simps usb_core_def)

lemma silent_fifo_fill [silent_intros]: "silent (fifo_fill M f m p n)"
  by (induction n arbitrary: p) (simp_all add: silent_intros)

lemma silent_fifo_read [silent_intros]: "silent (fifo_read M f n)"
  by (induction n) (simp_all add: silent_intros)

lemma silent_poll [silent_intros]: "silent (usb_poll M f b n)"
  by (induction n) (auto intro!: silent_intros)

lemma silent_send [silent_intros]: "silent (usb_send M ep m p len)"
  unfolding usb_send_def Let_def by (intro silent_intros)

lemma silent_recv [silent_intros]: "silent (usb_recv M ep len)"
  unfolding usb_recv_def Let_def by (intro silent_intros)

lemma silent_endp0 [silent_intros]: "silent (usb_int_endp0 M pad)"
  unfolding usb_int_endp0_def usb_send_desc_def Let_def by (intro silent_intros)

lemma silent_endp3 [silent_intros]: "silent (usb_int_endp3 M)"
  unfolding usb_int_endp3_def by (intro silent_intros)

lemma silent_write_loop [silent_intros]: "silent (usb_write_loop M m p len)"
proof (induction M m p len rule: usb_write_loop.induct)
  case (1 M m p len)
  then show ?case by (subst usb_write_loop.simps) (auto intro!: silent_intros)
qed

lemma silent_write: "silent (usb_channel_write M m p len)"
  unfolding usb_channel_write_def Let_def
  by (intro silent_bnd silent_write_loop) (auto intro!: silent_intros split: prod.splits)

text \<open>The invariant: the bytes received are those handed out, then those in the buffer.\<close>

definition usb_inv :: "'h usbst \<Rightarrow> bool" where
  "usb_inv s = (ring_wf s \<and> got s = given s @ ring_content s)"

lemma core_ring:
  "usb_core t = usb_core s \<Longrightarrow> ring_wf t = ring_wf s \<and> ring_len t = ring_len s \<and>
     ring_content t = ring_content s \<and> usb_inv t = usb_inv s \<and> got t = got s \<and> given t = given s"
  by (simp add: usb_core_def ring_wf_def ring_len_def ring_content_def usb_inv_def)

lemma got_fold_put: "got (fold ring_put bs s) = got s @ bs \<and> given (fold ring_put bs s) = given s"
  by (induction bs arbitrary: s) (simp_all add: ring_put_def)

text \<open>Bytes that arrive while at least 64 places are free.\<close>

definition arrived :: "'h usbst \<Rightarrow> 'h usbst \<Rightarrow> bool" where
  "arrived s t = (usb_inv t \<and> given t = given s \<and> (\<exists>bs. length bs \<le> 64 \<and> ring_content t = ring_content s @ bs))"

lemma arrived_refl: "usb_inv s \<Longrightarrow> usb_core t = usb_core s \<Longrightarrow> arrived s t"
  using core_ring [of t s] by (auto simp: arrived_def)

lemma arrived_core: "arrived s t \<Longrightarrow> usb_core u = usb_core t \<Longrightarrow> arrived s u"
  using core_ring [of u t] by (auto simp: arrived_def)

lemma arrived_put:
  assumes "usb_inv s" "ring_len s + 64 \<le> 2047" "length bs \<le> 64"
  shows "arrived s (fold ring_put bs s)"
  using ring.put_list [of s bs] got_fold_put [of bs s] assms by (auto simp: arrived_def usb_inv_def)

lemma wlp_silent: "silent m \<Longrightarrow> (\<And>a t. usb_core t = usb_core s \<Longrightarrow> Q a t) \<Longrightarrow> wlp m Q s"
  by (rule wlp_mono [OF silentD]) auto

lemma wlp_silent_arrived: "silent m \<Longrightarrow> arrived s u \<Longrightarrow> wlp m (\<lambda>_ t. arrived s t) u"
  by (rule wlp_silent) (auto intro: arrived_core)

lemma arrived_trans_core: "usb_core t = usb_core s \<Longrightarrow> arrived t u \<Longrightarrow> arrived s u"
  using core_ring [of t s] by (auto simp: arrived_def)

lemma wlp_arrived_bnd:
  assumes "silent m" "\<And>a t. usb_core t = usb_core s \<Longrightarrow> wlp (f a) (\<lambda>_ u. arrived t u) t"
  shows "wlp (bnd m f) (\<lambda>_ u. arrived s u) s"
  unfolding wlp_bnd
  by (rule wlp_silent [OF assms(1)], rule wlp_mono [OF assms(2)]) (auto intro: arrived_trans_core)

lemma wlp_arrived_thn:
  assumes "wlp m (\<lambda>_ u. arrived s u) s" "silent n"
  shows "wlp (thn m n) (\<lambda>_ u. arrived s u) s"
  unfolding wlp_thn by (rule wlp_mono [OF assms(1)]) (rule wlp_silent_arrived [OF assms(2)])

lemma wlp_arrived_silent: "silent m \<Longrightarrow> usb_inv s \<Longrightarrow> wlp m (\<lambda>_ u. arrived s u) s"
  by (rule wlp_silent) (auto intro: arrived_refl)

text \<open>The state in which bytes may arrive, kept by register accesses.\<close>

definition roomy :: "'h usbst \<Rightarrow> bool" where
  "roomy s = (usb_inv s \<and> ring_len s + 64 \<le> 2047)"

lemma roomy_core: "usb_core t = usb_core s \<Longrightarrow> roomy s \<Longrightarrow> roomy t"
  using core_ring [of t s] by (simp add: roomy_def)

lemma roomy_inv: "roomy s \<Longrightarrow> usb_inv s"
  by (simp add: roomy_def)

lemma wlp_arrived_cwhen: "(b \<Longrightarrow> wlp m (\<lambda>_ u. arrived s u) s) \<Longrightarrow> usb_inv s \<Longrightarrow> wlp (cwhen b m) (\<lambda>_ u. arrived s u) s"
  by (simp add: wlp_simps arrived_refl)

lemma endp2_arrived:
  fixes s :: "'h usbst"
  assumes "roomy s"
  shows "wlp (usb_int_endp2 M) (\<lambda>_ t. arrived s t) s"
  unfolding usb_int_endp2_def
proof (rule wlp_arrived_bnd [OF silent_USB_CR], rule wlp_arrived_thn [OF wlp_arrived_cwhen silent_USB_CR_set],
    rule wlp_arrived_bnd [OF silent_USB_CR])
  fix sts a :: u32 and t u :: "'h usbst"
  assume t: "usb_core t = usb_core s" and u: "usb_core u = usb_core t"
  show "wlp (let len = a AND (USB_BUFSIZE - 1); len = if len > USB_MAXREAD then USB_MAXREAD else len
      in bnd (usb_recv M 3 (unat len)) (\<lambda>buf. thn (modify (\<lambda>s. fold ring_put (take (unat len) buf) s))
        (USB_CR_or M ENDP2_CTRL (push_bit 28 1)))) (\<lambda>_ v. arrived u v) u"
    unfolding Let_def
  proof (rule wlp_arrived_bnd [OF silent_recv], rule wlp_arrived_thn [OF _ silent_USB_CR_or])
    fix buf :: "byte list" and v :: "'h usbst"
    assume v: "usb_core v = usb_core u"
    let ?len = "unat (if USB_MAXREAD < a AND (USB_BUFSIZE - 1) then USB_MAXREAD else a AND (USB_BUFSIZE - 1))"
    have "roomy v" using roomy_core [OF _ assms, of v] t u v by simp
    moreover have "length (take ?len buf) \<le> 64"
      by (auto simp: USB_MAXREAD_def word_less_nat_alt min_def)
    ultimately have "arrived v (fold ring_put (take ?len buf) v)"
      unfolding roomy_def by (intro arrived_put) auto
    then show "wlp (modify (\<lambda>s. fold ring_put (take ?len buf) s)) (\<lambda>_ x. arrived v x) v"
      by (simp add: wlp_simps)
  qed
next
  fix t :: "'h usbst"
  assume "usb_core t = usb_core s"
  then show "usb_inv t" using assms roomy_core roomy_inv by metis
qed

lemma check_int_arrived:
  fixes s :: "'h usbst"
  assumes "roomy s"
  shows "wlp (usb_check_int M pad) (\<lambda>_ t. arrived s t) s"
  unfolding usb_check_int_def
proof (rule wlp_arrived_bnd, goal_cases)
  case 1
  show ?case unfolding usb_pending_def by (intro silent_intros)
next
  case (2 b t)
  have t: "roomy t" by (rule roomy_core [OF 2 assms])
  show ?case
  proof (intro wlp_arrived_cwhen wlp_arrived_bnd [OF silent_USB_CR] roomy_inv t)
    fix mask :: u32 and u :: "'h usbst"
    assume "usb_core u = usb_core t"
    then have "roomy u" using t by (rule roomy_core)
    then show "wlp (thn (cwhen (mask AND 0x3fff \<noteq> 0)
             (thn (cwhen (mask AND push_bit 10 1 \<noteq> 0) (usb_int_endp2 M))
             (thn (cwhen (mask AND push_bit 11 1 \<noteq> 0) (usb_int_endp3 M))
             (cwhen (mask AND push_bit 8 1 \<noteq> 0) (usb_int_endp0 M pad)))))
          (USB_CR_set M INT_CLR 0x7f)) (\<lambda>_ v. arrived u v) u"
      by (intro wlp_arrived_thn wlp_arrived_cwhen endp2_arrived silent_intros roomy_inv)
  qed
qed

section \<open>Reading and writing\<close>

lemma ring_empty: "ring_wf s \<Longrightarrow> (ring_content s = []) = (rpos s = wpos s)"
proof -
  assume wf: "ring_wf s"
  have "(ring_content s = []) = (ring_len s = 0)" by (simp add: ring_content_def)
  also have "\<dots> = (unat (rpos s) = unat (wpos s))"
    using ring_len_cases [OF wf] wf by (auto simp: ring_wf_def split: if_splits)
  finally show ?thesis by (simp add: word_unat_eq_iff)
qed

lemma wait_arrived:
  "usb_inv s \<Longrightarrow> wlp (usb_wait M pad n)
     (\<lambda>_ t. usb_inv t \<and> ring_content t \<noteq> [] \<and> given t = given s \<and> (\<exists>bs. got t = got s @ bs)) s"
proof (induction n arbitrary: s)
  case (Suc n)
  have empty: "(rpos s = wpos s) = (ring_content s = [])"
    using Suc(2) ring_empty [of s] by (simp add: usb_inv_def)
  show ?case
  proof (cases "rpos s = wpos s")
    case True
    then have "roomy s" using Suc(2) by (simp add: roomy_def ring_len_def)
    from check_int_arrived [OF this, of M pad]
    have "wlp (usb_check_int M pad) (\<lambda>_. wlp (usb_wait M pad n)
      (\<lambda>_ t. usb_inv t \<and> ring_content t \<noteq> [] \<and> given t = given s \<and> (\<exists>bs. got t = got s @ bs))) s"
    proof (rule wlp_mono)
      fix t :: "'a usbst"
      assume "arrived s t"
      then obtain bs where t: "usb_inv t" "given t = given s" "got t = got s @ bs"
        using Suc(2) by (auto simp: arrived_def usb_inv_def)
      show "wlp (usb_wait M pad n)
          (\<lambda>_ t. usb_inv t \<and> ring_content t \<noteq> [] \<and> given t = given s \<and> (\<exists>bs. got t = got s @ bs)) t"
        by (rule wlp_mono [OF Suc(1) [OF t(1)]]) (auto simp: t)
    qed
    with True show ?thesis by (simp add: wlp_simps)
  next
    case False
    with Suc(2) empty show ?thesis by (simp add: wlp_simps)
  qed
qed (simp add: wlp_simps)

lemma ring_take_inv:
  assumes "usb_inv s" "ring_content s \<noteq> []"
  shows "wlp ring_take (\<lambda>r t. usb_inv t \<and> got t = got s \<and> (\<exists>b. r = uint b \<and> given t = given s @ [b])) s"
proof -
  from assms(2) obtain b bs where c: "ring_content s = b # bs" by (cases "ring_content s") auto
  have "fst (ring_get s) = b \<and> ring_wf (snd (ring_get s)) \<and> ring_content (snd (ring_get s)) = bs"
    using ring.get_ok [OF _ c] assms(1) by (simp add: usb_inv_def)
  moreover have "got (snd (ring_get s)) = got s" "given (snd (ring_get s)) = given s @ [fst (ring_get s)]"
    by (simp_all add: ring_get_def Let_def)
  ultimately show ?thesis
    using assms(1) c by (auto simp: ring_take_def wlp_def usb_inv_def split: prod.split)
qed

lemma uint_byte_neq [simp]: "uint (b :: byte) \<noteq> -1"
  using uint_ge_0 [of b] by linarith

lemma ring_free:
  assumes "usb_inv s" "(rpos s - wpos s - 1) AND (USB_BUFSIZE - 1) \<ge> USB_MAXREAD"
  shows "roomy s"
proof -
  have wf: "ring_wf s" using assms(1) by (simp add: usb_inv_def)
  let ?r = "unat (rpos s)" and ?w = "unat (wpos s)"
  have lt: "?r < 2048" "?w < 2048" using wf by (simp_all add: ring_wf_def)
  have "unat ((rpos s - wpos s - 1) AND (USB_BUFSIZE - 1)) = unat (rpos s - (wpos s + 1)) mod 2048"
    by (simp add: unat_and_7ff diff_diff_eq)
  also have "unat (rpos s - (wpos s + 1)) = (if ?w + 1 \<le> ?r then ?r - (?w + 1) else 2 ^ 32 + ?r - (?w + 1))"
  proof -
    have "unat (wpos s + 1) = ?w + 1" using lt by (simp add: unat_word_ariths)
    then show ?thesis by (simp add: unat_sub_if')
  qed
  finally have free: "64 \<le> (if ?w + 1 \<le> ?r then ?r - (?w + 1) else 2 ^ 32 + ?r - (?w + 1)) mod 2048"
    using assms(2) by (simp add: word_le_nat_alt USB_MAXREAD_def)
  have "ring_len s + 64 \<le> 2047"
  proof (cases "?w + 1 \<le> ?r")
    case True
    then show ?thesis using free lt ring_len_cases [OF wf] by simp
  next
    case False
    then have "(2 ^ 32 + ?r - (?w + 1)) = 2048 * (2 ^ 21 - 1) + (2047 + ?r - ?w)" using lt by simp
    then have "(2 ^ 32 + ?r - (?w + 1)) mod 2048 = (2047 + ?r - ?w) mod 2048" by (metis mod_mult_self4)
    then show ?thesis using False free lt ring_len_cases [OF wf] by (simp split: if_splits)
  qed
  with assms(1) show ?thesis by (simp add: roomy_def)
qed

lemma getchar_inv:
  assumes "usb_inv s"
  shows "wlp (usb_channel_getchar M pad wait) (\<lambda>r t. usb_inv t \<and> (\<exists>bs. got t = got s @ bs) \<and>
    (if r = -1 then \<not> wait \<and> given t = given s \<and> ring_content t = []
     else \<exists>b. r = uint b \<and> given t = given s @ [b])) s"
proof (cases wait)
  case True
  show ?thesis
    unfolding usb_channel_getchar_def if_P [OF True] wlp_thn
    by (rule wlp_mono [OF wait_arrived [OF assms]], elim conjE, rule wlp_mono [OF ring_take_inv]) (auto simp: True)
next
  case False
  let ?free = "(rpos s - wpos s - 1) AND (USB_BUFSIZE - 1) \<ge> USB_MAXREAD"
  have "wlp (cwhen ?free (usb_check_int M pad)) (\<lambda>_ t. usb_inv t \<and> given t = given s \<and> (\<exists>bs. got t = got s @ bs)) s"
  proof (cases ?free)
    case True
    show ?thesis
      using wlp_mono [OF check_int_arrived [OF ring_free [OF assms True], of M pad],
          where Q' = "\<lambda>_ t. usb_inv t \<and> given t = given s \<and> (\<exists>bs. got t = got s @ bs)"] True assms
      by (auto simp: wlp_simps arrived_def usb_inv_def)
  qed (use assms in \<open>auto simp: wlp_simps\<close>)
  then show ?thesis
    unfolding usb_channel_getchar_def if_not_P [OF False] wlp_bnd wlp_thn wlp_gets
  proof (rule wlp_mono)
    fix t :: "'a usbst"
    assume t: "usb_inv t \<and> given t = given s \<and> (\<exists>bs. got t = got s @ bs)"
    show "wlp (if rpos t = wpos t then ret (-1) else ring_take)
        (\<lambda>r t. usb_inv t \<and> (\<exists>bs. got t = got s @ bs) \<and>
          (if r = -1 then \<not> wait \<and> given t = given s \<and> ring_content t = []
           else \<exists>b. r = uint b \<and> given t = given s @ [b])) t"
    proof (cases "rpos t = wpos t")
      case True
      then have "ring_content t = []" using t ring_empty [of t] by (simp add: usb_inv_def)
      with True t False show ?thesis by (simp add: wlp_simps)
    next
      case False
      then have "ring_content t \<noteq> []" using t ring_empty [of t] by (simp add: usb_inv_def)
      moreover have "usb_inv t" using t by simp
      ultimately have take: "wlp ring_take (\<lambda>r u. usb_inv u \<and> got u = got t \<and> (\<exists>b. r = uint b \<and> given u = given t @ [b])) t"
        by (intro ring_take_inv)
      show ?thesis
        unfolding if_not_P [OF False] by (rule wlp_mono [OF take]) (use t in auto)
    qed
  qed
qed

text \<open>
  The channel as a state machine: what the loader does with it is opening it (again, when
  the host asks for another baud rate), reading characters and writing packets, and the
  controller may do anything at any register access.
\<close>

definition usb_fresh :: "'h usbst \<Rightarrow> bool" where
  "usb_fresh s = (\<not> priv s \<and> got s = [] \<and> given s = [])"

inductive usb_reach :: "'h mmio \<Rightarrow> mem \<Rightarrow> 'h usbst \<Rightarrow> bool" for M :: "'h mmio" and pad :: mem where
  opened: "usb_fresh s \<Longrightarrow> usb_channel_open M s = Ret r t \<Longrightarrow> usb_reach M pad t"
| reopened: "usb_reach M pad s \<Longrightarrow> priv s \<Longrightarrow> usb_channel_open M s = Ret r t \<Longrightarrow> usb_reach M pad t"
| read_char: "usb_reach M pad s \<Longrightarrow> usb_channel_getchar M pad w s = Ret c t \<Longrightarrow> usb_reach M pad t"
| written: "usb_reach M pad s \<Longrightarrow> usb_channel_write M m p len s = Ret n t \<Longrightarrow> usb_reach M pad t"

lemma open_inv:
  assumes "usb_fresh s \<or> usb_inv s \<and> priv s"
  shows "wlp (usb_channel_open M) (\<lambda>_ t. usb_inv t) s"
proof -
  have rest: "silent (thn (USB_CR_or M USB_CTRL 1) (thn (usb_init_endp0 M) (thn (usb_init_endp2 M)
      (thn (usb_init_endp3 M) (USB_CR_set M TIMEOUT_LMT 15)))))"
    unfolding usb_init_endp0_def usb_init_endp2_def usb_init_endp3_def by (intro silent_intros)
  show ?thesis
  proof (cases "priv s")
    case True
    then show ?thesis using assms by (simp add: usb_channel_open_def wlp_simps usb_fresh_def)
  next
    case False
    then have "usb_inv (s\<lparr>rpos := 0, wpos := 0, priv := True\<rparr>)"
      using assms by (simp add: usb_fresh_def usb_inv_def ring_wf_def ring_content_def ring_len_def)
    then have "wlp (thn (USB_CR_or M USB_CTRL 1) (thn (usb_init_endp0 M) (thn (usb_init_endp2 M)
      (thn (usb_init_endp3 M) (USB_CR_set M TIMEOUT_LMT 15))))) (\<lambda>_ t. usb_inv t)
      (s\<lparr>rpos := 0, wpos := 0, priv := True\<rparr>)"
      by (intro wlp_silent [OF rest]) (metis core_ring)
    moreover have "wlp (ret (0 :: int)) (\<lambda>_ t. usb_inv t) = (usb_inv :: 'a usbst \<Rightarrow> bool)" by (simp add: fun_eq_iff wlp_simps)
    ultimately show ?thesis using False by (simp add: usb_channel_open_def wlp_simps)
  qed
qed

lemma reach_inv: "usb_reach M pad s \<Longrightarrow> usb_inv s"
proof (induction rule: usb_reach.induct)
  case (opened s r t)
  then show ?case using wlp_Ret [OF open_inv] by blast
next
  case (reopened s r t)
  then show ?case using wlp_Ret [OF open_inv] by blast
next
  case (read_char s w c t)
  then show ?case using wlp_Ret [OF getchar_inv] by blast
next
  case (written s m p len n t)
  then show ?case using wlp_Ret [OF silentD [OF silent_write]] core_ring by blast
qed

section \<open>What a write sends\<close>

lemma swap_word: "WRITE32_BE (swap_be32 (READ32_LE m p)) = mslice m p 4"
proof -
  have b: "mslice m p 4 = [m p, m (p + 1), m (p + 2), m (p + 3)]"
    by (simp add: mslice_def upt_rec eval_nat_numeral)
  have e: "(0xff00 :: u32) = push_bit 8 (mask 8)" by (simp add: mask_eq_exp_minus_1 push_bit_eq_mult)
  show ?thesis
    unfolding b WRITE32_BE_def swap_be32_def READ32_LE_def Let_def list.inject e
    by (intro conjI bit_word_eqI TrueI) (auto simp: bit_simps dest: bit_byte)
qed

lemma fifo_bytes:
  "concat (map WRITE32_BE (map (\<lambda>i. swap_be32 (READ32_LE m (p + 4 * i))) [0..<n])) = mslice m p (4 * n)"
  by (induction n) (simp_all add: swap_word mslice_add [symmetric] add.commute)

lemma fifo_bytes_comp:
  "concat (map (\<lambda>i. WRITE32_BE (swap_be32 (READ32_LE m (p + 4 * i)))) [0..<n]) = mslice m p (4 * n)"
  using fifo_bytes [of m p n] by (simp add: comp_def)

text \<open>A controller that reports the end of every transfer on endpoint 3.\<close>

definition tx_ready :: "'h mmio \<Rightarrow> bool" where
  "tx_ready M = (0 < usb_spins M \<and> (\<forall>h. fst (ld4 M (USB_BASE M + INT_STS_ENDP3) h) AND push_bit 9 1 \<noteq> 0))"

text \<open>Only the device changes: the postcondition holds whatever the device has become.\<close>

lemma wp_USB_CR: "(\<And>v h. Q v (s\<lparr>hw := h\<rparr>)) \<Longrightarrow> wp (USB_CR M a) Q E s"
  by (simp add: USB_CR_def mem4_def wp_def split: prod.split)

lemma wp_USB_CR_set: "(\<And>h. Q () (s\<lparr>hw := h\<rparr>)) \<Longrightarrow> wp (USB_CR_set M a v) Q E s"
  by (simp add: USB_CR_set_def mem4_set_def wp_simps)

lemma wp_USB_CR_or: "(\<And>h. Q () (s\<lparr>hw := h\<rparr>)) \<Longrightarrow> wp (USB_CR_or M a v) Q E s"
  unfolding USB_CR_or_def wp_bnd by (rule wp_USB_CR, rule wp_USB_CR_set) simp

lemma wp_maxpsize: "(\<And>h. Q () (s\<lparr>hw := h\<rparr>)) \<Longrightarrow> wp (USB_MAXPSIZE M a n) Q E s"
  unfolding USB_MAXPSIZE_def wp_bnd by (rule wp_USB_CR, rule wp_USB_CR_set, simp)

lemma size_fits: "n \<le> 64 \<Longrightarrow> n AND 0x1ffff = (n :: u32)"
proof -
  assume "n \<le> 64"
  then have "unat n < 2 ^ 17" by (simp add: word_le_nat_alt)
  moreover have "(0x1ffff :: u32) = mask 17" by (simp add: mask_eq_exp_minus_1)
  then have "n AND 0x1ffff = take_bit 17 n" by (simp only: take_bit_eq_mask)
  ultimately show ?thesis by (simp add: word_unat_eq_iff unsigned_take_bit_eq take_bit_nat_eq_self)
qed

lemma size_stored:
  assumes "n AND m = (n :: u32)"
  shows "((a AND NOT m) OR n) AND m = n"
proof (rule bit_word_eqI)
  fix k
  have "bit n k \<Longrightarrow> bit m k" using arg_cong [OF assms, of "\<lambda>w. bit w k"] by (auto simp: bit_simps)
  then show "bit (((a AND NOT m) OR n) AND m) k = bit n k" by (auto simp: bit_simps)
qed

lemma wp_trsize:
  assumes "n \<le> 64" "\<And>h. Q () (s\<lparr>hw := h, trsize := (trsize s)(a := n)\<rparr>)"
  shows "wp (USB_TRSIZE M a n) Q E s"
  unfolding USB_TRSIZE_def wp_bnd Let_def wp_thn
  by (rule wp_USB_CR, rule wp_USB_CR_set, rule wp_modify [THEN iffD2], unfold size_stored [OF size_fits [OF assms(1)]])
    (use assms(2) in simp)

lemma wp_fifo_fill:
  "(\<And>h. Q () (s\<lparr>hw := h, tx_fifo := tx_fifo s @ map (\<lambda>i. swap_be32 (READ32_LE m (p + 4 * i))) [0..<n]\<rparr>)) \<Longrightarrow>
     wp (fifo_fill M f m p n) Q E s"
proof (induction n arbitrary: p s)
  case 0
  from 0 [of "hw s"] show ?case by (simp add: wp_simps)
next
  case (Suc n)
  have up: "map (\<lambda>i. swap_be32 (READ32_LE m (p + 4 * i))) [0..<Suc n] =
      swap_be32 (READ32_LE m p) # map (\<lambda>i. swap_be32 (READ32_LE m (p + 4 + 4 * i))) [0..<n]"
    by (simp only: upt_conv_Cons [OF zero_less_Suc] map_Suc_upt [symmetric]) (simp add: comp_def add.assoc)
  show ?case
    unfolding fifo_fill.simps fifo_put_def mem4_set_def wp_simps
    by (rule Suc.IH) (use Suc.prems in \<open>simp only: up usbst.simps append_assoc append_Cons append_Nil\<close>, simp)
qed

lemma wp_poll:
  assumes "tx_ready M" "\<And>h. Q () (s\<lparr>hw := h\<rparr>)"
  shows "wp (usb_poll M INT_STS_ENDP3 (push_bit 9 1) (usb_spins M)) Q E s"
proof -
  obtain n where n: "usb_spins M = Suc n" using assms(1) by (cases "usb_spins M") (auto simp: tx_ready_def)
  obtain v h where v: "ld4 M (USB_BASE M + INT_STS_ENDP3) (hw s) = (v, h)"
    by (cases "ld4 M (USB_BASE M + INT_STS_ENDP3) (hw s)")
  then have "v AND push_bit 9 1 \<noteq> 0" using assms(1) by (metis fst_conv tx_ready_def)
  then show ?thesis using assms(2) [of h] v n by (simp add: wp_def USB_CR_def mem4_def bnd_def ret_def)
qed

lemma wp_send:
  assumes "tx_ready M" "tx_fifo s = []" "len \<le> 64"
    and "\<And>h z. Q () (s\<lparr>hw := h, trsize := z, txlog := txlog s @ [(4, mslice m p (unat len))]\<rparr>)"
  shows "wp (usb_send M 4 m p len) Q E s"
proof -
  let ?n = "(unat len + 3) div 4"
  have "unat len \<le> 4 * ?n" by simp
  then have take: "take (unat len) (mslice m p (4 * ?n)) = mslice m p (unat len)" by simp
  have z: "((4 :: u32) = 0) = False" by simp
  have swap_hw: "Q () (s\<lparr>hw := h, trsize := z, txlog := x\<rparr>) \<Longrightarrow> Q () (s\<lparr>trsize := z, tx_fifo := [], txlog := x, hw := h\<rparr>)"
    for h x z using assms(2) by (cases s) simp
  have thnI: "\<And>m n Q E s. wp m (\<lambda>_. wp n Q E) E s \<Longrightarrow> wp (thn m n) Q E s" by (simp add: wp_thn)
  show ?thesis
    unfolding usb_send_def Let_def fifo_start_def z if_False simp_thms if_True cwhen_def
    by (rule thnI, rule wp_maxpsize, rule thnI, rule wp_trsize [OF assms(3)], rule thnI, rule wp_fifo_fill, rule thnI, rule thnI,
        rule wp_USB_CR_or, rule wp_modify [THEN iffD2], rule thnI, rule wp_poll [OF assms(1)], rule wp_USB_CR_or)
      (simp add: assms(2) fifo_bytes_comp comp_def take, rule swap_hw, rule assms(4))
qed

text \<open>The packets on the wire so far, and those that a write adds.\<close>

definition sends :: "'h usbst \<Rightarrow> mem \<Rightarrow> nat \<Rightarrow> byte list list \<Rightarrow> nat \<Rightarrow> 'h usbst \<Rightarrow> bool" where
  "sends s m p ps n t = (tx_fifo t = [] \<and> txlog t = txlog s @ map (Pair 4) ps \<and> concat ps = mslice m p n \<and>
     (\<forall>x \<in> set ps. 0 < length x \<and> length x \<le> 64))"

lemma sends_step:
  assumes "sends (s\<lparr>hw := h, trsize := z, txlog := txlog s @ [(4, mslice m p k)]\<rparr>) m (p + k) ps n t" "0 < k" "k \<le> 64"
  shows "sends s m p (mslice m p k # ps) (k + n) t"
  using assms by (auto simp: sends_def mslice_add)

lemma write_loop_sends:
  "tx_ready M \<Longrightarrow> tx_fifo s = [] \<Longrightarrow> wp (usb_write_loop M m p len)
    (\<lambda>(p', len') t. p \<le> p' \<and> p' - p + unat len' = unat len \<and> len' \<le> 64 \<and> (len \<noteq> 0 \<longrightarrow> len' \<noteq> 0) \<and>
      (\<exists>ps. sends s m p ps (p' - p) t)) (\<lambda>_ _. False) s"
proof (induction M m p len arbitrary: s rule: usb_write_loop.induct)
  case (1 M m p len)
  show ?case
  proof (cases "len > USB_MAXREAD")
    case True
    then have u: "unat (len - USB_MAXREAD) = unat len - 64" "64 < unat len" "len - USB_MAXREAD \<noteq> 0"
      by (auto simp: USB_MAXREAD_def unat_sub word_less_nat_alt word_le_nat_alt)
    show ?thesis
      unfolding usb_write_loop.simps [of M m p len] if_P [OF True] wp_thn
    proof (rule wp_send [OF 1(2,3)], simp add: USB_MAXREAD_def, rule wp_mono [OF 1(1) [OF True 1(2)]], goal_cases)
      case (1 h z)
      show ?case using \<open>tx_fifo s = []\<close> by simp
    next
      case (2 h z a t)
      then obtain p' len' ps where a: "a = (p', len')" "p + 64 \<le> p'" "p' - (p + 64) + unat len' = unat len - 64"
          "len' \<le> 64" "len' \<noteq> 0"
        and s: "sends (s\<lparr>hw := h, trsize := z, txlog := txlog s @ [(4, mslice m p (unat USB_MAXREAD))]\<rparr>) m (p + 64) ps (p' - (p + 64)) t"
        using u by auto
      then have "sends (s\<lparr>hw := h, trsize := z, txlog := txlog s @ [(4, mslice m p 64)]\<rparr>) m (p + 64) ps (p' - (p + 64)) t"
        by (simp add: USB_MAXREAD_def)
      from sends_step [OF this] have "sends s m p (mslice m p 64 # ps) (64 + (p' - (p + 64))) t" by simp
      moreover have "64 + (p' - (p + 64)) = p' - p" using a(2) by simp
      ultimately show ?case using a u by auto
    qed simp
  next
    case False
    then show ?thesis
      using 1(3) unfolding usb_write_loop.simps [of M m p len] if_not_P [OF False]
      by (auto simp: wp_simps sends_def USB_MAXREAD_def intro!: exI [of _ "[]"])
  qed
qed

lemma sends_snoc:
  assumes "sends s m p ps n u" "0 < k" "k \<le> 64"
  shows "sends s m p (ps @ [mslice m (p + n) k]) (n + k) (u\<lparr>hw := h, trsize := z, txlog := txlog u @ [(4, mslice m (p + n) k)]\<rparr>)"
  using assms by (auto simp: sends_def mslice_add)

text \<open>What \<open>usb_channel_write\<close> has done when it returns \<open>r\<close>: the result leaves out the last packet.\<close>

definition wrote :: "'h usbst \<Rightarrow> mem \<Rightarrow> nat \<Rightarrow> u32 \<Rightarrow> nat \<Rightarrow> 'h usbst \<Rightarrow> bool" where
  "wrote s m src len r t = (\<exists>ps. sends s m src ps (unat len) t \<and>
      (if len = 0 then ps = [] \<and> r = 0 else ps \<noteq> [] \<and> length (last ps) < 64 \<and> r + length (last ps) = unat len))"

lemma wroteI:
  "sends s m src (ps @ [x]) n t \<Longrightarrow> length x < 64 \<Longrightarrow> r + length x = n \<Longrightarrow> unat len = n \<Longrightarrow> len \<noteq> 0 \<Longrightarrow>
     wrote s m src len r t"
  unfolding wrote_def by (rule exI [of _ "ps @ [x]"]) simp

lemma write_sends:
  assumes "tx_ready M" "tx_fifo s = []"
  shows "wp (usb_channel_write M m src len)
    (wrote s m src len)
    (\<lambda>_ _. False) s"
  unfolding usb_channel_write_def wp_bnd
proof (rule wp_mono [OF write_loop_sends [OF assms]])
  fix a :: "nat \<times> u32" and t
  assume "(case a of (p', len') \<Rightarrow> \<lambda>t. src \<le> p' \<and> p' - src + unat len' = unat len \<and> len' \<le> 64 \<and>
      (len \<noteq> 0 \<longrightarrow> len' \<noteq> 0) \<and> (\<exists>ps. sends s m src ps (p' - src) t)) t"
  then obtain p' ps and len' :: u32 where a: "a = (p', len')" "src \<le> p'" "p' - src + unat len' = unat len" "len' \<le> 64"
      "len \<noteq> 0 \<Longrightarrow> len' \<noteq> 0"
    and s: "sends s m src ps (p' - src) t"
    by (cases a) blast
  have fifo: "tx_fifo t = []" using s by (simp add: sends_def)
  have at: "src + (p' - src) = p'" using a(2) by simp
  consider "len' = 0" | "len' = USB_MAXREAD" | "len' \<noteq> 0" "len' \<noteq> USB_MAXREAD" by blast
  then have "wp (if len' \<noteq> 0
       then if len' = USB_MAXREAD
            then let len = drop_bit 1 len'
                 in thn (usb_send M 4 m p' len)
                   (let p = p' + unat len in thn (usb_send M 4 m p len) (ret (p - src)))
            else thn (usb_send M 4 m p' len') (ret (p' - src))
       else ret (p' - src)) (wrote s m src len) (\<lambda>_ _. False) t"
  proof cases
    case 1
    with a(5) have "len = 0" by blast
    with 1 a(3) have "p' - src = 0" by simp
    with 1 s \<open>len = 0\<close> show ?thesis by (auto simp: wp_simps sends_def wrote_def)
  next
    case 2
    have half: "unat (drop_bit 1 (64 :: u32)) = 32" "drop_bit 1 (64 :: u32) = 32" by simp_all
    have U: "unat (32 :: u32) = 32" by simp
    have nz: "(64 :: u32) \<noteq> 0" by simp
    have n: "unat len = p' - src + 32 + 32" using a(3) 2 by (simp add: USB_MAXREAD_def)
    then have "len \<noteq> 0" by auto
    show ?thesis
      unfolding 2 if_P [OF refl] Let_def USB_MAXREAD_def half if_P [OF nz] wp_thn
    proof (rule wp_send [OF assms(1) fifo], simp, rule wp_send [OF assms(1)], simp add: fifo, simp, unfold wp_ret)
      fix h z h' z'
      let ?u = "t\<lparr>hw := h, trsize := z, txlog := txlog t @ [(4, mslice m p' (unat (32 :: u32)))]\<rparr>"
      have u: "sends s m src (ps @ [mslice m p' 32]) (p' - src + 32) ?u"
        using sends_snoc [OF s, of 32 z h] at by simp
      have R: "p' + 32 - src + length (mslice m (p' + 32) 32) = p' - src + 32 + 32" using a(2) by simp
      have "src + (p' - src + 32) = p' + 32" using at by simp
      with sends_snoc [OF u, of 32 z' h']
      have "sends s m src ((ps @ [mslice m p' 32]) @ [mslice m (p' + 32) 32]) (p' - src + 32 + 32)
          (?u\<lparr>hw := h', trsize := z', txlog := txlog ?u @ [(4, mslice m (p' + 32) 32)]\<rparr>)" by simp
      from wroteI [OF this _ R n \<open>len \<noteq> 0\<close>] have W: "wrote s m src len (p' + 32 - src)
          (?u\<lparr>hw := h', trsize := z', txlog := txlog ?u @ [(4, mslice m (p' + 32) 32)]\<rparr>)" by simp
      show "wrote s m src len (p' + unat (32 :: u32) - src)
          (?u\<lparr>hw := h', trsize := z', txlog := txlog ?u @ [(4, mslice m (p' + unat (32 :: u32)) (unat (32 :: u32)))]\<rparr>)"
        unfolding U by (rule W [unfolded U])
    qed
  next
    case 3
    have "len' < 64" using a(4) 3(2) by (simp add: USB_MAXREAD_def order_less_le)
    then have l: "0 < unat len'" "unat len' < 64"
      using 3(1) by (simp_all add: word_less_nat_alt unat_gt_0)
    then have "len \<noteq> 0" using a(3) by auto
    show ?thesis
      unfolding if_P [OF 3(1)] if_not_P [OF 3(2)] wp_thn
    proof (rule wp_send [OF assms(1) fifo a(4)], unfold wp_ret)
      fix h z
      have "sends s m src (ps @ [mslice m p' (unat len')]) (p' - src + unat len')
          (t\<lparr>hw := h, trsize := z, txlog := txlog t @ [(4, mslice m p' (unat len'))]\<rparr>)"
        using sends_snoc [OF s, of "unat len'" z h] at l by simp
      then show "wrote s m src len (p' - src) (t\<lparr>hw := h, trsize := z, txlog := txlog t @ [(4, mslice m p' (unat len'))]\<rparr>)"
        by (rule wroteI) (use a(3) l \<open>len \<noteq> 0\<close> in simp_all)
    qed
  qed
  then show "wp (case a of (p, len) \<Rightarrow> if len \<noteq> 0
       then if len = USB_MAXREAD
            then let len = drop_bit 1 len
                 in thn (usb_send M 4 m p len)
                   (let p = p + unat len in thn (usb_send M 4 m p len) (ret (p - src)))
            else thn (usb_send M 4 m p len) (ret (p - src))
       else ret (p - src)) (wrote s m src len) (\<lambda>_ _. False) t"
    unfolding a(1) prod.case .
qed simp

section \<open>getchar without waiting returns\<close>

text \<open>Whatever the device answers.\<close>

abbreviation ends :: "('s, 'a) cm \<Rightarrow> bool" where
  "ends m \<equiv> returns m (\<lambda>_. True)"

named_theorems ends_intros \<open>statements that return\<close>

lemma ends_ret_modify [ends_intros]: "ends (ret a)" "ends (modify f)"
  by (simp_all add: returns_ret returns_modify)

lemmas [ends_intros] = returns_any returns_thn returns_cwhen returns_if

lemma ends_basic [ends_intros]: "ends (mem4 M x)" "ends (mem4_set M x v)" "ends ring_take"
  by (simp_all add: returns_def wp_def mem4_def mem4_set_def ring_take_def modify_def split: prod.split)

lemma ends_regs [ends_intros]:
  "ends (USB_CR M x)" "ends (USB_CR_set M x v)" "ends (USB_CR_or M x v)"
  "ends (USB_MAXPSIZE M x v)" "ends (USB_TRSIZE M x v)"
  unfolding USB_CR_def USB_CR_set_def USB_CR_or_def USB_MAXPSIZE_def USB_TRSIZE_def Let_def by (intro ends_intros)+

lemma ends_fifo [ends_intros]: "ends (fifo_fill M f m p n)" "ends (fifo_read M f k)"
proof -
  show "ends (fifo_fill M f m p n)"
    by (induction M f m p n rule: fifo_fill.induct) (simp_all add: fifo_put_def ends_intros)
  show "ends (fifo_read M f k)"
    by (induction M f k rule: fifo_read.induct) (simp_all add: ends_intros)
qed

lemma ends_send0 [ends_intros]: "ends (usb_send M 0 m p len)"
proof -
  have z: "((0 :: u32) = 4) = False" by simp
  show ?thesis
    unfolding usb_send_def Let_def fifo_start_def z simp_thms if_True cwhen_def if_False by (intro ends_intros)
qed

lemma ends_recv [ends_intros]: "ends (usb_recv M ep len)"
  unfolding usb_recv_def Let_def by (intro ends_intros)

lemma ends_check_int [ends_intros]: "ends (usb_check_int M pad)"
  unfolding usb_check_int_def usb_pending_def usb_int_endp0_def usb_int_endp2_def usb_int_endp3_def
    usb_send_desc_def Let_def
  by (intro ends_intros)

section \<open>Properties\<close>


definition sample_mmio :: "unit mmio" where
  "sample_mmio = \<lparr>ld4 = (\<lambda>a h. (if a = 0x90000100 then 1 else 0xffffffff, h)), st4 = (\<lambda>a v h. h),
     usb_chip = 1, usb_spins = 2\<rparr>"

definition sample_usb :: "unit usbst" where
  "sample_usb = \<lparr>rpos = 0, wpos = 0, ubuf = (\<lambda>_. 0), priv = False, hw = (), got = [], given = [],
     tx_fifo = [], trsize = (\<lambda>_. 0), txlog = []\<rparr>"

text \<open>Running statements step by step.\<close>

lemma run_step:
  "bnd m f s = (case m s of Ret a t \<Rightarrow> f a t | Exit e t \<Rightarrow> Exit e t | OutOfFuel t \<Rightarrow> OutOfFuel t)"
  "thn m n s = (case m s of Ret a t \<Rightarrow> n t | Exit e t \<Rightarrow> Exit e t | OutOfFuel t \<Rightarrow> OutOfFuel t)"
  by (simp_all add: bnd_def thn_def)

lemmas runs = run_step run_ret run_gets run_modify run_cwhen

lemma sample_regs:
  "mem4 sample_mmio a s = Ret (if a = 0x90000100 then 1 else 0xffffffff) s"
  "USB_CR sample_mmio off s = Ret (if off = ENDP2_CTRL then 1 else 0xffffffff) s"
  "USB_CR_set sample_mmio off v s = Ret () s"
  "USB_CR_or sample_mmio off v s = Ret () s"
  by (cases s; simp add: mem4_def sample_mmio_def USB_CR_def USB_CR_set_def mem4_set_def USB_CR_or_def USB_BASE_def
      runs ENDP2_CTRL_def)+

definition sample_open :: "unit usbst" where
  "sample_open = sample_usb\<lparr>priv := True, trsize := (\<lambda>_. 0)(RCV_DATA_ENDP2 := 0x2000, TRANS_SIZE_ENDP3 := 0x40)\<rparr>"

lemma sample_opened: "usb_reach sample_mmio pad sample_open"
proof (rule usb_reach.opened)
  show "usb_fresh sample_usb" by (simp add: usb_fresh_def sample_usb_def)
  show "usb_channel_open sample_mmio sample_usb = Ret 0 sample_open"
    by (simp add: usb_channel_open_def sample_usb_def sample_open_def usb_init_endp0_def usb_init_endp2_def usb_init_endp3_def
        USB_MAXPSIZE_def USB_TRSIZE_def Let_def ENDP2_CTRL_def RCV_DATA_ENDP2_def TRANS_SIZE_ENDP3_def sample_regs runs)
qed


text \<open>
  From every reachable state, a call of getchar that returns either hands out the oldest
  received byte that had not been handed out yet, or, only when asked not to wait and when
  every received byte has been handed out, returns -1.
\<close>

theorem usb_getchar_oldest:
  assumes "usb_reach M pad s" "usb_channel_getchar M pad wait s = Ret r t"
  shows "if r = -1 then \<not> wait \<and> given t = given s \<and> given t = got t
         else r = uint (got t ! length (given s)) \<and> given t = take (length (given s) + 1) (got t)"
proof -
  have t: "usb_inv t" "if r = -1 then \<not> wait \<and> given t = given s \<and> ring_content t = []
      else \<exists>b. r = uint b \<and> given t = given s @ [b]"
    using wlp_Ret [OF getchar_inv [OF reach_inv [OF assms(1)]] assms(2)] by simp_all
  show ?thesis
  proof (cases "r = -1")
    case False
    then obtain b where b: "r = uint b" "given t = given s @ [b]" using t(2) by auto
    moreover have "got t = (given s @ [b]) @ ring_content t" using t(1) b by (simp add: usb_inv_def)
    ultimately show ?thesis using False by simp
  qed (use t in \<open>simp add: usb_inv_def\<close>)
qed

definition sample_read :: "unit usbst" where
  "sample_read = sample_open\<lparr>rpos := 1, wpos := 1, ubuf := (\<lambda>_. 0)(0 := 255), got := [255], given := [255]\<rparr>"

lemma sample_getchar:
  "usb_channel_getchar sample_mmio pad True sample_open = Ret 255 sample_read"
proof -
  let ?s = "sample_open" and ?t = "ring_put 255 sample_open"
  have spins: "usb_spins sample_mmio = Suc (Suc 0)" "usb_chip sample_mmio = 1" by (simp_all add: sample_mmio_def)
  have word: "swap_be32 0xffffffff = 0xffffffff" "WRITE32_LE 0xffffffff = [255, 255, 255, 255]"
    by (simp_all add: swap_be32_def WRITE32_LE_def)
  have fifo: "FIFO_endp_out sample_mmio + 4 = 0x90080010"
    by (simp add: FIFO_endp_out_def USB_BASE_def spins)
  have n: "(Suc 0 + 7) div 8 = Suc 0" by simp
  have recv: "usb_recv sample_mmio 3 (Suc 0) s = Ret [255, 255, 255, 255, 255, 255, 255, 255] s" for s
    unfolding usb_recv_def Let_def n by (simp add: fifo sample_regs runs word)
  have endp2: "usb_int_endp2 sample_mmio ?s = Ret () ?t"
    by (simp add: usb_int_endp2_def sample_regs runs recv USB_MAXREAD_def USB_BUFSIZE_def Let_def INT_STS_ENDP2_def ENDP2_CTRL_def)
  have endp0: "usb_int_endp0 sample_mmio pad s = Ret () s" for s
    by (simp add: usb_int_endp0_def sample_regs runs INT_STS_ENDP0_def REQ_SETUP_LOW_def REQ_SETUP_HIGH_def
        ENDP2_CTRL_def Let_def)
  have check: "usb_check_int sample_mmio pad ?s = Ret () ?t"
    by (simp add: usb_check_int_def usb_pending_def spins sample_regs runs endp2 endp0 usb_int_endp3_def INT_STS_def
        ENDP2_CTRL_def)
  have t: "?t = sample_open\<lparr>wpos := 1, ubuf := (\<lambda>_. 0)(0 := 255), got := [255]\<rparr>"
    by (simp add: ring_put_def sample_open_def sample_usb_def USB_BUFSIZE_def)
  show ?thesis
    by (simp add: usb_channel_getchar_def spins runs check [unfolded t sample_open_def sample_usb_def, simplified] sample_open_def sample_usb_def Let_def ring_put_def ring_take_def ring_get_def USB_BUFSIZE_def sample_read_def)
qed

theorem usb_getchar_oldest_witness:
  "(255 :: int) = uint (got sample_read ! 0) \<and> given sample_read = take 1 (got sample_read)"
  using usb_getchar_oldest [OF sample_opened sample_getchar [of "\<lambda>_. 0"]]
  by (simp add: sample_open_def sample_usb_def)

text \<open>
  Getchar called without waiting always returns, whatever the controller answers and
  whatever is in the buffer.
\<close>

theorem usb_getchar_returns: "\<exists>r t. usb_channel_getchar M pad False s = Ret r t"
proof -
  have "ends (usb_channel_getchar M pad False)"
    unfolding usb_channel_getchar_def if_False by (intro ends_intros)
  then show ?thesis by (rule returns_Ret [THEN exE]) blast
qed

text \<open>
  C30: When the controller reports the end of its transfers, a write of \<open>len\<close> bytes returns,
  and the packets it has put on endpoint 3 make up exactly those bytes: none is empty or
  longer than 64 bytes, and the last one is shorter than 64, so the host's bulk read ends
  with it. The value returned falls short of \<open>len\<close> by the size of the last packet.
\<close>

theorem usb_write_packets:
  assumes "tx_ready M" "tx_fifo s = []"
  shows "\<exists>r t ps. usb_channel_write M m src len s = Ret r t \<and> txlog t = txlog s @ map (Pair 4) ps \<and>
    concat ps = mslice m src (unat len) \<and> list_all (\<lambda>x. 0 < length x \<and> length x \<le> 64) ps \<and>
    (if len = 0 then ps = [] else length (last ps) < 64 \<and> r + length (last ps) = unat len)"
  using wp_Ret [OF write_sends [OF assms, of m src len]]
  by (fastforce simp: wrote_def sends_def list_all_iff split: if_splits)

lemma sample_tx_ready: "tx_ready sample_mmio"
  by (simp add: tx_ready_def sample_mmio_def USB_BASE_def INT_STS_ENDP3_def)

theorem usb_write_packets_witness:
  "\<exists>r t ps. usb_channel_write sample_mmio (\<lambda>_. 7) 100 130 sample_usb = Ret r t \<and>
     txlog t = txlog sample_usb @ map (Pair 4) ps \<and> concat ps = mslice (\<lambda>_. 7) 100 130 \<and>
     list_all (\<lambda>x. 0 < length x \<and> length x \<le> 64) ps \<and> length (last ps) < 64 \<and> r + length (last ps) = 130"
  using usb_write_packets [OF sample_tx_ready, of sample_usb "\<lambda>_. 7" 100 130]
  by (simp add: sample_usb_def)

end
