(* ===== verification/FlashChip.thy ===== *)
theory FlashChip
  imports FdlSfc
begin

text \<open>
  The flash driver against a serial flash chip. \<open>spi_out\<close> reads off the command registers
  the bytes that the controller shifts out; the locale \<open>nor_flash\<close> states what a chip does
  with them in the usual command set (write enable, status, page program, sector erase, and
  the commands that leave the contents alone). From these laws follow the effects of
  sfc_write_enable, sfc_write and sfc_erase; \<open>sim_nor\<close> is a chip that satisfies them.
\<close>

unbundle bit_operations_syntax

section \<open>The bytes on the wire\<close>

text \<open>The byte of \<open>type_info\<close> that describes command register \<open>k\<close>.\<close>

definition ti :: "sfc \<Rightarrow> nat \<Rightarrow> u32" where
  "ti r k = take_bit 8 (drop_bit (8 * (k mod 4)) (type_info r (k div 4)))"

definition spi_slot :: "u32 \<Rightarrow> u32 \<Rightarrow> byte list" where
  "spi_slot t c =
     (if t AND 1 = 0 \<or> drop_bit 5 t AND 3 \<noteq> SFC_OP_WRITE then []
      else let bs = take (unat (drop_bit 3 t AND 3) + 1) (WRITE32_LE c)
        in if t AND 0x80 \<noteq> 0 then rev bs else bs)"

definition spi_out :: "sfc \<Rightarrow> byte list" where
  "spi_out r = concat (map (\<lambda>k. spi_slot (ti r k) (cmd r k)) [0..<12])"

text \<open>The number of bytes that the chip is asked for; the last one ends in the top byte of \<open>cmd[7]\<close>.\<close>

definition spi_in :: "sfc \<Rightarrow> nat" where
  "spi_in r = (let t = ti r 7 in if t AND 1 = 0 \<or> drop_bit 5 t AND 3 \<noteq> SFC_OP_READ then 0
     else unat (drop_bit 3 t AND 3) + 1)"

definition write_mode :: "sfc \<Rightarrow> bool" where
  "write_mode r = (cmd_set r AND 0x1f = 0)"

definition be24 :: "u32 \<Rightarrow> byte list" where
  "be24 a = [ucast (drop_bit 16 a), ucast (drop_bit 8 a), ucast a]"

text \<open>What programming does to the contents: bits can only be cleared.\<close>

definition prog :: "(u32 \<Rightarrow> byte) \<Rightarrow> u32 \<Rightarrow> byte list \<Rightarrow> u32 \<Rightarrow> byte" where
  "prog m a bs = (\<lambda>x. if unat (x - a) < length bs then m x AND bs ! unat (x - a) else m x)"

definition erased :: "(u32 \<Rightarrow> byte) \<Rightarrow> u32 \<Rightarrow> u32 \<Rightarrow> byte" where
  "erased m a = (\<lambda>x. if x AND NOT 0xfff = a AND NOT 0xfff then 0xff else m x)"

lemma prog_append:
  assumes "length xs + length ys \<le> 2 ^ 32"
  shows "prog (prog m a xs) (a + of_nat (length xs)) ys = prog m a (xs @ ys)"
proof (cases "ys = []")
  case False
  then have "length xs < 2 ^ 32" using assms by (cases ys) auto
  then have "unat (x - (a + of_nat (length xs))) =
      (if length xs \<le> unat (x - a) then unat (x - a) - length xs
       else 2 ^ 32 + unat (x - a) - length xs)" for x
    by (rule unat_diff_add)
  then show ?thesis using assms by (auto simp: prog_def nth_append fun_eq_iff)
qed (simp add: prog_def)

section \<open>The registers of a page program\<close>

lemma byte_of_or:
  assumes "a < 4" "b < 4" "take_bit 8 x = (x :: u32)"
  shows "take_bit 8 (drop_bit (8 * a) (w OR push_bit (b * 8) x)) =
    take_bit 8 (drop_bit (8 * a) w) OR (if a = b then x else 0)"
proof (rule bit_word_eqI)
  fix n assume "n < LENGTH(32)"
  have x: "k < 8" if "bit x k" for k
    using that arg_cong [OF assms(3), of "\<lambda>w. bit w k"] by (auto simp: bit_simps)
  have "a = 0 \<or> a = 1 \<or> a = 2 \<or> a = 3" "b = 0 \<or> b = 1 \<or> b = 2 \<or> b = 3" using assms(1,2) by auto
  then show "bit (take_bit 8 (drop_bit (8 * a) (w OR push_bit (b * 8) x))) n =
      bit (take_bit 8 (drop_bit (8 * a) w) OR (if a = b then x else 0)) n"
    by (elim disjE) (auto simp: bit_simps dest: x)
qed

lemma type_values:
  "SFC_TYPEINFO 1 SFC_OP_WRITE 0 = 0x01" "SFC_TYPEINFO 2 SFC_OP_WRITE 0 = 0x09"
  "SFC_TYPEINFO 3 SFC_OP_WRITE 0 = 0x11" "SFC_TYPEINFO 4 SFC_OP_WRITE 0 = 0x19"
  "SFC_TYPEINFO 3 SFC_OP_WRITE 1 = 0x91" "SFC_TYPEINFO 1 SFC_OP_READ 0 = 0x21"
  "SFC_TYPEINFO 3 SFC_OP_READ 0 = 0x31"
  by (simp_all add: SFC_TYPEINFO_def SFC_OP_WRITE_def SFC_OP_READ_def)

lemma slot_values [simp]:
  "spi_slot 0 c = []" "spi_slot 0x01 c = take 1 (WRITE32_LE c)" "spi_slot 0x09 c = take 2 (WRITE32_LE c)"
  "spi_slot 0x11 c = take 3 (WRITE32_LE c)" "spi_slot 0x19 c = WRITE32_LE c" "spi_slot 0x91 c = be24 c"
  "spi_slot 0x21 c = []" "spi_slot 0x31 c = []"
  by (simp_all add: spi_slot_def SFC_OP_WRITE_def WRITE32_LE_def be24_def)

lemma ti_put:
  assumes "take_bit 8 (SFC_TYPEINFO n SFC_OP_WRITE 0) = SFC_TYPEINFO n SFC_OP_WRITE 0"
  shows "ti (sfc_put k a n r) j = ti r j OR (if j = k then SFC_TYPEINFO n SFC_OP_WRITE 0 else 0)"
proof (cases "j div 4 = k div 4")
  case True
  have "(j = k) = (j mod 4 = k mod 4)"
    using True by (metis mult_div_mod_eq)
  then show ?thesis
    using byte_of_or [OF _ _ assms, of "j mod 4" "k mod 4"] True by (simp add: ti_def sfc_put_def mult.commute)
qed (auto simp: ti_def sfc_put_def)

definition slot :: "sfc \<Rightarrow> nat \<Rightarrow> byte list" where
  "slot r k = spi_slot (ti r k) (cmd r k)"

lemma slot_put:
  assumes "n = 1 \<or> n = 2 \<or> n = 3 \<or> n = 4"
  shows "j \<noteq> k \<Longrightarrow> slot (sfc_put k a n r) j = slot r j"
    and "ti r k = 0 \<Longrightarrow> slot (sfc_put k a n r) k = take (unat n) (WRITE32_LE a)"
    and "j \<noteq> k \<Longrightarrow> ti (sfc_put k a n r) j = ti r j"
    and "cmd_set (sfc_put k a n r) = cmd_set r"
proof -
  have v: "take_bit 8 (SFC_TYPEINFO n SFC_OP_WRITE 0) = SFC_TYPEINFO n SFC_OP_WRITE 0"
    using assms by (elim disjE) (simp_all add: type_values)
  have c: "cmd (sfc_put k a n r) k = a" by (simp add: sfc_put_def)
  show "j \<noteq> k \<Longrightarrow> ti (sfc_put k a n r) j = ti r j" by (simp add: ti_put [OF v])
  then show "j \<noteq> k \<Longrightarrow> slot (sfc_put k a n r) j = slot r j" by (simp add: slot_def sfc_put_def)
  have t: "ti r k = 0 \<Longrightarrow> ti (sfc_put k a n r) k = SFC_TYPEINFO n SFC_OP_WRITE 0" by (simp add: ti_put [OF v])
  have "spi_slot (SFC_TYPEINFO n SFC_OP_WRITE 0) a = take (unat n) (WRITE32_LE a)"
    using assms by (elim disjE) (simp_all add: type_values)
  then show "ti r k = 0 \<Longrightarrow> slot (sfc_put k a n r) k = take (unat n) (WRITE32_LE a)"
    by (simp add: slot_def t c)
  show "cmd_set (sfc_put k a n r) = cmd_set r" by (simp add: sfc_put_def)
qed

lemma word_bytes:
  "WRITE32_LE (ucast (a :: byte) OR push_bit 8 (ucast (b :: byte)) OR push_bit 16 (ucast (c :: byte)) OR
     push_bit 24 (ucast (d :: byte))) = [a, b, c, d]"
  unfolding WRITE32_LE_def list.inject
  by (intro conjI bit_word_eqI TrueI) (auto simp: bit_simps dest: bit_byte)

lemma slot_tail:
  assumes "n = 1 \<or> n = 2 \<or> n = 3 \<or> n = 4" "k < 12" "\<forall>j \<ge> k. ti r j = 0" "take (unat n) (WRITE32_LE a) = src"
  shows "(\<forall>j < k. slot (sfc_put k a n r) j = slot r j) \<and>
    concat (map (slot (sfc_put k a n r)) [k..<12]) = src \<and> cmd_set (sfc_put k a n r) = cmd_set r"
proof -
  have "slot r j = []" if "j \<ge> k" for j using assms(3) that by (simp add: slot_def)
  then have "concat (map (slot (sfc_put k a n r)) [Suc k..<12]) = []"
    using slot_put(1) [OF assms(1), of _ k a r] by simp
  then show ?thesis using assms by (simp add: upt_conv_Cons slot_put)
qed

lemma last_bytes:
  "take (unat (1 :: u32)) (WRITE32_LE (ucast (a :: byte))) = [a]"
  "take (unat (2 :: u32)) (WRITE32_LE (ucast (a :: byte) OR push_bit 8 (ucast (b :: byte)))) = [a, b]"
  "take (unat (3 :: u32)) (WRITE32_LE ((ucast (a :: byte) OR push_bit 8 (ucast (b :: byte))) OR push_bit 16 (ucast (c :: byte)))) = [a, b, c]"
  using word_bytes [of a 0 0 0] word_bytes [of a b 0 0] word_bytes [of a b c 0] by (simp_all add: or.assoc)

text \<open>The registers from \<open>k\<close> on hold the data, those before it are left alone.\<close>

lemma sfc_fill_slots:
  "length src \<le> 4 * (12 - k) \<Longrightarrow> \<forall>j \<ge> k. ti r j = 0 \<Longrightarrow>
     (\<forall>j < k. slot (sfc_fill k src r) j = slot r j) \<and>
     concat (map (slot (sfc_fill k src r)) [k..<12]) = src \<and> cmd_set (sfc_fill k src r) = cmd_set r"
proof (induction k src r rule: sfc_fill.induct, goal_cases)
  case (1 k a b c d src r)
  let ?w = "ucast a OR push_bit 8 (ucast b) OR push_bit 16 (ucast c) OR push_bit 24 (ucast d)"
  let ?r = "sfc_put k ?w 4 r"
  have k: "k < 12" using 1(2) by simp
  have u: "[k..<12] = k # [k + 1..<12]" using k by (simp add: upt_conv_Cons)
  have "length src \<le> 4 * (12 - (k + 1))" using 1(2) by simp
  moreover have "\<forall>j \<ge> k + 1. ti ?r j = 0" using 1(3) by (simp add: slot_put)
  ultimately have IH: "(\<forall>j < k + 1. slot (sfc_fill (k + 1) src ?r) j = slot ?r j) \<and>
      concat (map (slot (sfc_fill (k + 1) src ?r)) [k + 1..<12]) = src \<and> cmd_set (sfc_fill (k + 1) src ?r) = cmd_set ?r"
    by (rule 1(1))
  moreover have "slot ?r k = [a, b, c, d]" using 1(3) word_bytes [of a b c d] by (simp add: slot_put)
  ultimately show ?case by (simp add: u slot_put)
next
  case (2 k r)
  then show ?case by (simp add: slot_def)
next
  case (3 k v r)
  then show ?case using slot_tail [of 1 k r "ucast v" "[v]"] last_bytes(1) [of v] by simp
next
  case (4 k v vb r)
  then show ?case
    using slot_tail [of 2 k r "ucast v OR push_bit 8 (ucast vb)" "[v, vb]"] last_bytes(2) [of v vb] by simp
next
  case (5 k v vb vc r)
  then show ?case
    using slot_tail [of 3 k r "(ucast v OR push_bit 8 (ucast vb)) OR push_bit 16 (ucast vc)" "[v, vb, vc]"]
      last_bytes(3) [of v vb vc] by simp
qed

section \<open>The interface of a chip\<close>

text \<open>
  A chip of \<open>sz\<close> bytes. \<open>wel\<close> is its write enable latch, \<open>busy\<close> how often the status is still
  read as busy, \<open>maker\<close> the first byte of its identification, \<open>srs\<close> the protection bits: bits 2
  to 7 of the first status register, and the second one. While \<open>free\<close> does not hold of them some
  sectors are locked, and nothing is said of what programming and erasing do. The laws speak
  of addresses below \<open>sz\<close> only: a smaller chip shows up again above it.
\<close>

definition cells_of :: "'f nor \<Rightarrow> nat \<Rightarrow> 'f \<Rightarrow> u32 \<Rightarrow> byte" where
  "cells_of H sz f = (\<lambda>x. if unat x < sz then peek H f x else 0)"

text \<open>The makers whose way of protection \<open>sfc_unlock\<close> knows, and when none of their sectors is locked.\<close>

definition unlocked :: "u32 \<Rightarrow> u32 \<times> u32 \<Rightarrow> bool" where
  "unlocked maker r = (if maker = 0xef \<or> maker = 0xc8 then fst r AND 0xfc = 0 \<and> snd r AND 0x40 = 0
     else maker = 0xc2 \<and> fst r AND 0xbc = 0)"

locale nor_flash =
  fixes H :: "'f nor"
    and wel :: "'f \<Rightarrow> bool"
    and busy :: "'f \<Rightarrow> nat"
    and sz :: nat
    and maker :: u32
    and srs :: "'f \<Rightarrow> u32 \<times> u32"
    and free :: "u32 \<times> u32 \<Rightarrow> bool"
  assumes clear: "tbuf_clear H r = r\<lparr>cmd := (\<lambda>_. 0), type_info := (\<lambda>_. 0)\<rparr>"
    and responds: "polls H r f < spins H"
    and enable: "write_mode r \<Longrightarrow> spi_out r = [0x06] \<Longrightarrow> busy f = 0 \<Longrightarrow> exec H r f = (f', v) \<Longrightarrow>
      wel f' \<and> busy f' = 0 \<and> (cells_of H sz f', srs f') = (cells_of H sz f, srs f)"
    and status: "write_mode r \<Longrightarrow> spi_out r = [0x05] \<Longrightarrow> spi_in r = 1 \<Longrightarrow> exec H r f = (f', v) \<Longrightarrow>
      (drop_bit 24 v AND 1 \<noteq> 0) = (busy f \<noteq> 0) \<and> (drop_bit 24 v AND 2 \<noteq> 0) = wel f \<and> drop_bit 24 v AND 0xfc = fst (srs f) \<and>
      wel f' = wel f \<and> busy f' = busy f - 1 \<and> (cells_of H sz f', srs f') = (cells_of H sz f, srs f)"
    and program: "write_mode r \<Longrightarrow> spi_out r = 0x02 # be24 a @ bs \<Longrightarrow> drop_bit 24 a = 0 \<Longrightarrow> bs \<noteq> [] \<Longrightarrow>
      unat (a AND 255) + length bs \<le> 256 \<Longrightarrow> unat a + length bs \<le> sz \<Longrightarrow> free (srs f) \<Longrightarrow> wel f \<Longrightarrow> busy f = 0 \<Longrightarrow>
      exec H r f = (f', v) \<Longrightarrow> (cells_of H sz f', srs f') = (prog (cells_of H sz f) a bs, srs f) \<and> busy f' < spins H"
    and erase: "write_mode r \<Longrightarrow> spi_out r = 0x20 # be24 a \<Longrightarrow> drop_bit 24 a = 0 \<Longrightarrow>
      unat (a AND NOT 0xfff) + 4096 \<le> sz \<Longrightarrow> free (srs f) \<Longrightarrow> wel f \<Longrightarrow> busy f = 0 \<Longrightarrow>
      exec H r f = (f', v) \<Longrightarrow> (cells_of H sz f', srs f') = (erased (cells_of H sz f) a, srs f) \<and> busy f' < spins H"
    and query: "write_mode r \<Longrightarrow> spi_out r = [c] \<Longrightarrow> c = 0x9f \<or> c = 0x35 \<Longrightarrow> busy f = 0 \<Longrightarrow>
      exec H r f = (f', v) \<Longrightarrow> (cells_of H sz f', srs f') = (cells_of H sz f, srs f) \<and> busy f' = 0"
    and read_id: "write_mode r \<Longrightarrow> spi_out r = [0x9f] \<Longrightarrow> spi_in r = 3 \<Longrightarrow> busy f = 0 \<Longrightarrow>
      exec H r f = (f', v) \<Longrightarrow> drop_bit 24 v = maker"
    and status2: "write_mode r \<Longrightarrow> spi_out r = [0x35] \<Longrightarrow> spi_in r = 1 \<Longrightarrow> busy f = 0 \<Longrightarrow> maker = 0xef \<or> maker = 0xc8 \<Longrightarrow>
      exec H r f = (f', v) \<Longrightarrow> drop_bit 24 v = snd (srs f)"
    and write_status: "write_mode r \<Longrightarrow> spi_out r = [0x01, b] \<Longrightarrow> wel f \<Longrightarrow> busy f = 0 \<Longrightarrow> exec H r f = (f', v) \<Longrightarrow>
      cells_of H sz f' = cells_of H sz f \<and> busy f' < spins H \<and> fst (srs f') = ucast b AND 0xfc \<and>
      snd (srs f') AND NOT (snd (srs f)) = 0"
    and write_both: "write_mode r \<Longrightarrow> spi_out r = [0x01, b, b'] \<Longrightarrow> maker = 0xc8 \<Longrightarrow> wel f \<Longrightarrow> busy f = 0 \<Longrightarrow> exec H r f = (f', v) \<Longrightarrow>
      cells_of H sz f' = cells_of H sz f \<and> busy f' < spins H \<and> srs f' = (ucast b AND 0xfc, ucast b')"
    and write_status2: "write_mode r \<Longrightarrow> spi_out r = [0x31, b] \<Longrightarrow> maker = 0xef \<Longrightarrow> wel f \<Longrightarrow> busy f = 0 \<Longrightarrow> exec H r f = (f', v) \<Longrightarrow>
      cells_of H sz f' = cells_of H sz f \<and> busy f' < spins H \<and> srs f' = (fst (srs f), ucast b)"
    and opens_up: "unlocked maker r' \<Longrightarrow> free r'"
    and patient: "0 < spins H"

text \<open>The registers when the command bytes are filled in, and when the command starts.\<close>

definition ready :: "sfc \<Rightarrow> sfc" where
  "ready r = r\<lparr>tbuf_clr := 1, cmd := (\<lambda>_. 0), type_info := (\<lambda>_. 0),
     cmd_set := (cmd_set r AND NOT 1) AND NOT 0x1e\<rparr>"

definition started :: "sfc \<Rightarrow> sfc" where
  "started r = r\<lparr>int_clr := 1, soft_req := soft_req r OR 1\<rparr>"

lemma started_simps [simp]:
  "spi_out (started r) = spi_out r" "spi_in (started r) = spi_in r" "write_mode (started r) = write_mode r"
  "cmd (started r) = cmd r"
  by (simp_all add: started_def spi_out_def spi_in_def write_mode_def ti_def Let_def)

lemma ready_simps [simp]: "ti (ready r) j = 0" "type_info (ready r) = (\<lambda>_. 0)" "cmd (ready r) = (\<lambda>_. 0)"
  by (simp_all add: ready_def ti_def)

lemma write_mode_upd [simp]:
  "write_mode (r\<lparr>cmd := c\<rparr>) = write_mode r" "write_mode (r\<lparr>type_info := t\<rparr>) = write_mode r"
  by (simp_all add: write_mode_def)

lemma write_mode_ready [simp]: "write_mode (ready r)"
proof -
  have "(0x1f :: u32) = mask 5" by (simp add: mask_eq_exp_minus_1)
  then have "bit (0x1f :: u32) n \<Longrightarrow> n < 5" for n by (simp only: bit_mask_iff)
  then have "bit (0x1f :: u32) n \<Longrightarrow> n = 0 \<or> n = 1 \<or> n = 2 \<or> n = 3 \<or> n = 4" for n by fastforce
  then show ?thesis
    unfolding write_mode_def ready_def by simp (rule bit_word_eqI, fastforce simp: bit_simps)
qed

text \<open>Commands of one register, and those with an address or a value.\<close>

lemma upt_12: "[0..<12] = [0, 1, 2, 3, 4, 5, 6, 7, 8, 9, 10, 11 :: nat]"
  by (simp add: upt_rec)

lemma spi_out_slots: "spi_out r = slot r 0 @ slot r 1 @ concat (map (slot r) [2..<12])"
proof -
  have "[0..<12] = [0..<2] @ [2..<(12 :: nat)]" using upt_add_eq_append [of 0 2 10] by simp
  moreover have "[0..<2] = [0, 1 :: nat]" by (simp add: numeral_2_eq_2)
  ultimately show ?thesis unfolding spi_out_def slot_def by simp
qed

lemma out_words:
  assumes "type_info r = (\<lambda>_. 0)(0 := w)" "w < 0x1000000"
  shows "spi_out r = spi_slot (take_bit 8 w) (cmd r 0) @ spi_slot (take_bit 8 (drop_bit 8 w)) (cmd r 1) @
    spi_slot (take_bit 8 (drop_bit 16 w)) (cmd r 2)"
    "spi_in r = 0"
proof -
  have "take_bit 8 (drop_bit 24 w) = 0"
    using assms(2) by (auto simp: word_less_nat_alt word_unat_eq_iff unsigned_take_bit_eq word_nat)
  then show "spi_out r = spi_slot (take_bit 8 w) (cmd r 0) @ spi_slot (take_bit 8 (drop_bit 8 w)) (cmd r 1) @
      spi_slot (take_bit 8 (drop_bit 16 w)) (cmd r 2)"
    by (simp add: spi_out_def ti_def assms(1) upt_12)
  show "spi_in r = 0" by (simp add: spi_in_def ti_def assms(1))
qed

lemma program_out:
  assumes "drop_bit 24 addr = 0" "length bs \<le> 40"
  shows "spi_out (sfc_program addr bs (ready r)) = 0x02 # be24 addr @ bs"
    "write_mode (sfc_program addr bs (ready r))"
proof -
  let ?r = "(ready r)\<lparr>cmd := (cmd (ready r))(0 := 0x02, 1 := addr), type_info := (type_info (ready r))(0 := 0x9101)\<rparr>"
  have p: "sfc_program addr bs (ready r) = sfc_fill 2 bs ?r"
    using assms(1) by (simp add: sfc_program_def Let_def type_values)
  have z: "ti ?r j = 0" if "j \<ge> 2" for j
  proof (cases "j < 4")
    case True
    then have "j = 2 \<or> j = 3" using that by auto
    then show ?thesis by (auto simp: ti_def)
  qed (simp add: ti_def)
  have f: "(\<forall>j < 2. slot (sfc_fill 2 bs ?r) j = slot ?r j) \<and>
      concat (map (slot (sfc_fill 2 bs ?r)) [2..<12]) = bs \<and> cmd_set (sfc_fill 2 bs ?r) = cmd_set ?r"
    by (rule sfc_fill_slots) (use assms(2) z in auto)
  have "slot ?r 0 = [0x02]" "slot ?r 1 = be24 addr" by (simp_all add: slot_def ti_def WRITE32_LE_def)
  with f show "spi_out (sfc_program addr bs (ready r)) = 0x02 # be24 addr @ bs"
    unfolding p spi_out_slots by simp
  have "write_mode ?r" by simp
  then show "write_mode (sfc_program addr bs (ready r))" using f unfolding p write_mode_def by simp
qed

section \<open>Operations of the driver\<close>

lemma ready_eq:
  "SFC_CMDSET 7 (r\<lparr>tbuf_clr := 1, cmd := (\<lambda>_. 0), type_info := (\<lambda>_. 0), cmd_set := cmd_set r AND - 2\<rparr>) = ready r"
  "SFC_CMDSET 7 (r\<lparr>tbuf_clr := 1, type_info := (\<lambda>_. 0), cmd := (\<lambda>_. 0), cmd_set := cmd_set r AND - 2\<rparr>) = ready r"
  by (simp_all add: SFC_CMDSET_def ready_def)

lemma be24_bytes: "be24 a = rev (take 3 (WRITE32_LE a))"
  by (simp add: be24_def WRITE32_LE_def)

definition read_regs :: "sfc \<Rightarrow> u32 \<Rightarrow> u32 \<Rightarrow> sfc" where
  "read_regs r c n = (let r = ready r in r\<lparr>cmd := (cmd r)(0 := c),
     type_info := (type_info r)(0 := SFC_TYPEINFO 1 SFC_OP_WRITE 0, 1 := push_bit 24 (SFC_TYPEINFO n SFC_OP_READ 0))\<rparr>)"

lemma read_regs_out:
  assumes "n = 1 \<or> n = 3"
  shows "spi_out (read_regs r c n) = [ucast c]" "spi_in (read_regs r c n) = unat n" "write_mode (read_regs r c n)"
proof -
  have t: "SFC_TYPEINFO n SFC_OP_READ 0 = (if n = 1 then 0x21 else 0x31)" using assms by (auto simp: type_values)
  show "spi_out (read_regs r c n) = [ucast c]"
    by (simp add: spi_out_def read_regs_def Let_def ti_def upt_12 type_values(1) t WRITE32_LE_def)
  show "spi_in (read_regs r c n) = unat n"
    using assms by (auto simp: spi_in_def read_regs_def Let_def ti_def type_values(1) t [unfolded SFC_OP_READ_def] SFC_OP_READ_def)
  show "write_mode (read_regs r c n)" by (simp add: read_regs_def Let_def)
qed

definition write_regs :: "sfc \<Rightarrow> (nat \<Rightarrow> u32) \<Rightarrow> u32 \<Rightarrow> sfc" where
  "write_regs r c w = (ready r)\<lparr>cmd := c, type_info := (\<lambda>_. 0)(0 := w)\<rparr>"

lemma write_regs_out:
  "write_mode (write_regs r c w)"
  "w < 0x1000000 \<Longrightarrow> spi_out (write_regs r c w) = spi_slot (take_bit 8 w) (c 0) @ spi_slot (take_bit 8 (drop_bit 8 w)) (c 1) @
    spi_slot (take_bit 8 (drop_bit 16 w)) (c 2)"
  using out_words(1) [of "write_regs r c w" w] by (simp_all add: write_regs_def)

context nor_flash
begin

abbreviation cells :: "'f \<Rightarrow> u32 \<Rightarrow> byte" where "cells \<equiv> cells_of H sz"

text \<open>Contents and protection.\<close>

abbreviation img :: "'f \<Rightarrow> (u32 \<Rightarrow> byte) \<times> u32 \<times> u32" where "img f \<equiv> (cells f, srs f)"

lemma wp_start:
  assumes "\<And>c v. exec H (started (sfcr s 0)) (chip s) = (c, v) \<Longrightarrow>
    Q () (s\<lparr>chip := c, sfcr := (sfcr s)(0 := (started (sfcr s 0))\<lparr>cmd := (cmd (sfcr s 0))(7 := v)\<rparr>)\<rparr>)"
  shows "wp (sfc_start H 0) Q E s"
proof -
  obtain c v where e: "exec H (started (sfcr s 0)) (chip s) = (c, v)" by fastforce
  show ?thesis
    using assms [OF e] e by (simp add: sfc_start_def reg_def wp_simps started_def wp_sfc_ready responds)
qed

lemma wp_command:
  assumes "\<And>c v r. exec H (started (f (ready (sfcr s 0)))) (chip s) = (c, v) \<Longrightarrow>
    wp k Q E (s\<lparr>chip := c, sfcr := r\<rparr>)"
  shows "wp (thn (sfc_clear H 0) (thn (sfc_write_mode 0) (thn (reg 0 f) (thn (sfc_start H 0) k)))) Q E s"
  unfolding wp_thn sfc_clear_def sfc_write_mode_def reg_def wp_modify
  by (rule wp_start) (use assms in \<open>simp add: clear ready_eq\<close>)

lemma wp_read:
  assumes "\<And>c v r. exec H (started (read_regs (sfcr s 0) cm n)) (chip s) = (c, v) \<Longrightarrow>
    Q v (s\<lparr>chip := c, sfcr := r\<rparr>)"
  shows "wp (sfc_cmd_read H 0 cm n) Q E s"
proof -
  have z: "(\<lambda>_. 0)(7 := 0) = (\<lambda>_ :: nat. 0 :: u32)" by auto
  show ?thesis
    unfolding sfc_cmd_read_def wp_thn sfc_clear_def sfc_write_mode_def reg_def wp_modify
    by (rule wp_start) (use assms in \<open>simp add: clear z ready_eq wp_gets read_regs_def Let_def\<close>)
qed

lemma wp_status:
  assumes "\<And>c v r. (v AND 1 \<noteq> 0) = (busy (chip s) \<noteq> 0) \<Longrightarrow> (v AND 2 \<noteq> 0) = wel (chip s) \<Longrightarrow> v AND 0xfc = fst (srs (chip s)) \<Longrightarrow>
    wel c = wel (chip s) \<Longrightarrow> busy c = busy (chip s) - 1 \<Longrightarrow> img c = img (chip s) \<Longrightarrow> Q v (s\<lparr>chip := c, sfcr := r\<rparr>)"
  shows "wp (sfc_read_status H 0) Q E s"
  unfolding sfc_read_status_def wp_bnd
proof (rule wp_read, unfold wp_ret)
  fix c v r
  assume e: "exec H (started (read_regs (sfcr s 0) 5 1)) (chip s) = (c, v)"
  have "spi_out (started (read_regs (sfcr s 0) 5 1)) = [5]" "spi_in (started (read_regs (sfcr s 0) 5 1)) = 1"
    "write_mode (started (read_regs (sfcr s 0) 5 1))"
    using read_regs_out [of 1 "sfcr s 0" 5] by simp_all
  from status [OF this(3,1,2) e] show "Q (drop_bit 24 v) (s\<lparr>chip := c, sfcr := r\<rparr>)"
    by (intro assms) auto
qed

lemma upd_again [simp]: "s\<lparr>chip := c, sfcr := r, chip := c', sfcr := r'\<rparr> = s\<lparr>chip := c', sfcr := r'\<rparr>"
  by simp

lemma wp_wait:
  assumes "busy (chip s) < spins H"
    and "\<And>c r. busy c = 0 \<Longrightarrow> img c = img (chip s) \<Longrightarrow> Q () (s\<lparr>chip := c, sfcr := r\<rparr>)"
  shows "wp (SFC_WRITE_WAIT H 0) Q E s"
proof -
  have "wp (sfc_poll H 0 1 False n) Q E s"
    if "busy (chip s) < n" "\<And>c r. busy c = 0 \<Longrightarrow> img c = img (chip s) \<Longrightarrow> Q () (s\<lparr>chip := c, sfcr := r\<rparr>)"
    for n and s :: "('f, 'a) sfcst_scheme"
    using that
  proof (induction n arbitrary: s)
    case (Suc n)
    show ?case
      unfolding sfc_poll.simps wp_bnd
    proof (rule wp_status)
      fix c v r
      assume v: "(v AND 1 \<noteq> 0) = (busy (chip s) \<noteq> 0)" and b: "busy c = busy (chip s) - 1" "img c = img (chip s)"
      show "wp (if (v AND 1 \<noteq> 0) = False then ret () else sfc_poll H 0 1 False n) Q E (s\<lparr>chip := c, sfcr := r\<rparr>)"
      proof (cases "busy (chip s) = 0")
        case True
        then show ?thesis using v b Suc.prems(2) [of c r] by (simp add: wp_ret)
      next
        case False
        have "wp (sfc_poll H 0 1 False n) Q E (s\<lparr>chip := c, sfcr := r\<rparr>)"
          by (rule Suc.IH) (use False Suc.prems b in auto)
        then show ?thesis using v False by simp
      qed
    qed
  qed simp
  then show ?thesis unfolding SFC_WRITE_WAIT_def using assms by blast
qed

lemma wp_enable:
  assumes "busy (chip s) = 0"
    and "\<And>c r. wel c \<Longrightarrow> busy c = 0 \<Longrightarrow> img c = img (chip s) \<Longrightarrow> Q () (s\<lparr>chip := c, sfcr := r\<rparr>)"
  shows "wp (sfc_write_enable H 0) Q E s"
proof -
  obtain n where n: "spins H = Suc n" using patient by (cases "spins H") auto
  have regs: "(\<lambda>r. r\<lparr>cmd := (cmd r)(0 := 6), type_info := (type_info r)(0 := SFC_TYPEINFO 1 SFC_OP_WRITE 0)\<rparr>) (ready r) =
      write_regs r ((\<lambda>_. 0)(0 := 6)) 1" for r
    by (simp add: write_regs_def type_values)
  show ?thesis
    unfolding sfc_write_enable_def
  proof (rule wp_command, unfold regs)
    fix c v r
    assume e: "exec H (started (write_regs (sfcr s 0) ((\<lambda>_. 0)(0 := 6)) 1)) (chip s) = (c, v)"
    have "wel c \<and> busy c = 0 \<and> img c = img (chip s)"
      by (rule enable [OF _ _ assms(1) e]) (simp_all add: write_regs_out WRITE32_LE_def)
    then show "wp (sfc_poll H 0 2 True (spins H)) Q E (s\<lparr>chip := c, sfcr := r\<rparr>)"
      unfolding n sfc_poll.simps wp_bnd
      by (intro wp_status) (auto simp: wp_ret intro!: assms(2))
  qed
qed

lemma chunk_bounds:
  assumes "src \<noteq> []"
  shows "sfc_chunk addr src \<le> length src" "sfc_chunk addr src \<le> 32" "unat (addr AND 255) + sfc_chunk addr src \<le> 256"
proof -
  have "unat (addr AND 255) < 256"
    using word_and_le1 [of addr 255] by (simp add: word_le_nat_alt)
  then show "sfc_chunk addr src \<le> length src" "sfc_chunk addr src \<le> 32" "unat (addr AND 255) + sfc_chunk addr src \<le> 256"
    by (auto simp: sfc_chunk_def Let_def)
qed

lemma wp_sfc_write:
  assumes "busy (chip s) = 0" "free (srs (chip s))" "unat addr + length src \<le> sz" "unat addr + length src \<le> 2 ^ 24"
    and "\<And>c r. busy c = 0 \<Longrightarrow> img c = (prog (cells (chip s)) addr src, srs (chip s)) \<Longrightarrow> Q () (s\<lparr>chip := c, sfcr := r\<rparr>)"
  shows "wp (sfc_write H 0 addr src) Q E s"
  using assms
proof (induction "length src" arbitrary: addr src s rule: less_induct)
  case less
  show ?case
  proof (cases "src = []")
    case True
    then show ?thesis
      using less.prems(5) [of "chip s" "sfcr s"] less.prems(1) by (simp add: sfc_write.simps wp_ret prog_def)
  next
    case False
    define n where "n = sfc_chunk addr src"
    have n: "n \<le> length src" "n \<le> 32" "unat (addr AND 255) + n \<le> 256" "0 < n"
      using chunk_bounds [OF False, of addr] sfc_chunk_pos [OF False, of addr] by (simp_all add: n_def)
    have "unat addr < 2 ^ 24" using less.prems(4) False by (cases src) auto
    then have top: "drop_bit 24 addr = 0"
      by (simp add: word_unat_eq_iff word_nat)
    have "of_nat n = (of_nat n :: u32)" "unat (of_nat n :: u32) = n" using n(2) by (simp_all add: unat_of_nat)
    then have step: "unat (addr + of_nat n) = unat addr + n"
      using less.prems(4) n(1) by (subst unat_add_lem [THEN iffD1]) simp_all
    have w: "sfc_write H 0 addr src =
      thn (sfc_write_enable H 0) (thn (sfc_clear H 0) (thn (sfc_write_mode 0) (thn (reg 0 (sfc_program addr (take n src)))
        (thn (sfc_start H 0) (thn (SFC_WRITE_WAIT H 0) (sfc_write H 0 (addr + of_nat n) (drop n src)))))))"
      using False by (subst sfc_write.simps) (simp add: n_def Let_def)
    show ?thesis
      unfolding w wp_thn [of "sfc_write_enable H 0"]
    proof (rule wp_enable [OF less.prems(1)], rule wp_command, unfold wp_thn [of "SFC_WRITE_WAIT H 0"])
      fix c r c' v r'
      assume c: "wel c" "busy c = 0" "img c = img (chip s)"
        and e: "exec H (started (sfc_program addr (take n src) (ready (sfcr (s\<lparr>chip := c, sfcr := r\<rparr>) 0))))
          (chip (s\<lparr>chip := c, sfcr := r\<rparr>)) = (c', v)"
      have p: "img c' = (prog (cells c) addr (take n src), srs c) \<and> busy c' < spins H"
        by (rule program [OF _ _ top _ _ _ _ c(1,2)])
          (use e n top program_out [of addr "take n src"] False c(3) less.prems(2,3) in simp_all)
      show "wp (SFC_WRITE_WAIT H 0) (\<lambda>_. wp (sfc_write H 0 (addr + of_nat n) (drop n src)) Q E) E
          (s\<lparr>chip := c, sfcr := r, chip := c', sfcr := r'\<rparr>)"
      proof (rule wp_wait)
        fix c'' r''
        assume c'': "busy c'' = 0" "img c'' = img (chip (s\<lparr>chip := c, sfcr := r, chip := c', sfcr := r'\<rparr>))"
        let ?t = "s\<lparr>chip := c'', sfcr := r''\<rparr>"
        have "wp (sfc_write H 0 (addr + of_nat n) (drop n src)) Q E ?t"
        proof (rule less.hyps)
          show "length (drop n src) < length src" using n False by simp
          show "busy (chip ?t) = 0" using c'' by simp
          show "free (srs (chip ?t))" using c'' p c(3) less.prems(2) by simp
          show "unat (addr + of_nat n) + length (drop n src) \<le> 2 ^ 24" using step less.prems(4) n(1) by simp
          show "unat (addr + of_nat n) + length (drop n src) \<le> sz" using step less.prems(3) n(1) by simp
          fix d q
          assume d: "busy d = 0" "img d = (prog (cells (chip ?t)) (addr + of_nat n) (drop n src), srs (chip ?t))"
          have "prog (prog (cells (chip s)) addr (take n src)) (addr + of_nat n) (drop n src) = prog (cells (chip s)) addr src"
            using prog_append [of "take n src" "drop n src" "cells (chip s)" addr] n(1) less.prems(4) by simp
          then show "Q () (?t\<lparr>chip := d, sfcr := q\<rparr>)"
            using less.prems(5) [OF d(1)] d(2) c'' p c(3) by simp
        qed
        then show "wp (sfc_write H 0 (addr + of_nat n) (drop n src)) Q E
            (s\<lparr>chip := c, sfcr := r, chip := c', sfcr := r', chip := c'', sfcr := r''\<rparr>)" by simp
      qed (use p in simp)
    qed
  qed
qed

lemma wp_erase:
  assumes "busy (chip s) = 0" "free (srs (chip s))" "drop_bit 24 addr = 0" "unat (addr AND NOT 0xfff) + 4096 \<le> sz"
    and "\<And>c r. busy c = 0 \<Longrightarrow> img c = (erased (cells (chip s)) addr, srs (chip s)) \<Longrightarrow> Q () (s\<lparr>chip := c, sfcr := r\<rparr>)"
  shows "wp (sfc_erase H 0 addr 0x20 3) Q E s"
proof -
  have regs: "(\<lambda>r. let tmp = SFC_TYPEINFO 1 SFC_OP_WRITE 0;
         tmp = (if (3 :: u32) \<noteq> 0 then tmp OR push_bit 8 (SFC_TYPEINFO 3 SFC_OP_WRITE 1) else tmp)
       in r\<lparr>cmd := (cmd r)(0 := 0x20, 1 := addr), type_info := (type_info r)(0 := tmp)\<rparr>) (ready r) =
      write_regs r ((\<lambda>_. 0)(0 := 0x20, 1 := addr)) 0x9101" for r
    by (simp add: write_regs_def type_values Let_def)
  show ?thesis
    unfolding sfc_erase_def wp_thn [of "sfc_write_enable H 0"]
  proof (rule wp_enable [OF assms(1)], rule wp_command, unfold regs)
    fix c r c' v r'
    assume c: "wel c" "busy c = 0" "img c = img (chip s)"
      and e: "exec H (started (write_regs (sfcr (s\<lparr>chip := c, sfcr := r\<rparr>) 0) ((\<lambda>_. 0)(0 := 0x20, 1 := addr)) 0x9101))
        (chip (s\<lparr>chip := c, sfcr := r\<rparr>)) = (c', v)"
    have p: "img c' = (erased (cells c) addr, srs c) \<and> busy c' < spins H"
      by (rule erase [OF _ _ assms(3,4) _ c(1,2)]) (use e c(3) assms(2) in \<open>simp_all add: write_regs_out WRITE32_LE_def\<close>)
    show "wp (SFC_WRITE_WAIT H 0) Q E (s\<lparr>chip := c, sfcr := r, chip := c', sfcr := r'\<rparr>)"
      by (rule wp_wait) (use p c assms(5) in simp_all)
  qed
qed

text \<open>Writing the status registers: \<open>P\<close> is what becomes of the protection bits.\<close>

lemma wp_protect:
  assumes "busy (chip s) = 0" "n = 1 \<or> n = 2"
    and law: "\<And>r f f' v. write_mode r \<Longrightarrow>
      spi_out r = (if n = 1 then [ucast cm, ucast val] else [ucast cm, ucast val, ucast (drop_bit 8 val)]) \<Longrightarrow>
      wel f \<Longrightarrow> busy f = 0 \<Longrightarrow> exec H r f = (f', v) \<Longrightarrow> cells f' = cells f \<and> busy f' < spins H \<and> P (srs f) (srs f')"
    and Q: "\<And>c r. busy c = 0 \<Longrightarrow> cells c = cells (chip s) \<Longrightarrow> P (srs (chip s)) (srs c) \<Longrightarrow> Q () (s\<lparr>chip := c, sfcr := r\<rparr>)"
  shows "wp (sfc_cmd_write H 0 cm val n) Q E s"
proof -
  define w :: u32 where "w = (if n = 1 then 0x0101 else 0x010101)"
  define rc where "rc = (if n = 1 then (\<lambda>_ :: nat. 0)(0 := cm, 1 := val) else (\<lambda>_. 0)(0 := cm, 1 := val, 2 := drop_bit 8 val))"
  have regs: "(\<lambda>r. let r = r\<lparr>cmd := (cmd r)(0 := cm, 1 := val)\<rparr>;
           tmp = SFC_TYPEINFO 1 SFC_OP_WRITE 0 OR push_bit 8 (SFC_TYPEINFO 1 SFC_OP_WRITE 0);
           (r, tmp) = (if n > 1
                       then (r\<lparr>cmd := (cmd r)(2 := drop_bit 8 val)\<rparr>,
                             tmp OR push_bit 16 (SFC_TYPEINFO 1 SFC_OP_WRITE 0))
                       else (r, tmp))
       in r\<lparr>type_info := (type_info r)(0 := tmp)\<rparr>) (ready r) = write_regs r rc w" for r
    using assms(2) by (auto simp: write_regs_def type_values Let_def rc_def w_def)
  have out: "spi_out (started (write_regs r rc w)) =
      (if n = 1 then [ucast cm, ucast val] else [ucast cm, ucast val, ucast (drop_bit 8 val)])" for r
    by (simp add: write_regs_out rc_def w_def WRITE32_LE_def)
  show ?thesis
    unfolding sfc_cmd_write_def wp_thn [of "sfc_write_enable H 0"]
  proof (rule wp_enable [OF assms(1)], rule wp_command, unfold regs)
    fix c r c' v r'
    assume c: "wel c" "busy c = 0" "img c = img (chip s)"
      and e: "exec H (started (write_regs (sfcr (s\<lparr>chip := c, sfcr := r\<rparr>) 0) rc w)) (chip (s\<lparr>chip := c, sfcr := r\<rparr>)) = (c', v)"
    have p: "cells c' = cells c \<and> busy c' < spins H \<and> P (srs c) (srs c')"
      by (rule law [OF _ out c(1,2)]) (use e in \<open>simp_all add: write_regs_out\<close>)
    show "wp (SFC_WRITE_WAIT H 0) Q E (s\<lparr>chip := c, sfcr := r, chip := c', sfcr := r'\<rparr>)"
      by (rule wp_wait) (use p c Q in simp_all)
  qed
qed

lemma wp_query:
  assumes "busy (chip s) = 0" "cm = 0x9f \<and> n = 3 \<or> cm = 0x35 \<and> n = 1"
    and "\<And>c r v. busy c = 0 \<Longrightarrow> img c = img (chip s) \<Longrightarrow> cm = 0x9f \<longrightarrow> drop_bit 24 v = maker \<Longrightarrow>
      cm = 0x35 \<and> (maker = 0xef \<or> maker = 0xc8) \<longrightarrow> drop_bit 24 v = snd (srs (chip s)) \<Longrightarrow> Q v (s\<lparr>chip := c, sfcr := r\<rparr>)"
  shows "wp (sfc_cmd_read H 0 cm n) Q E s"
proof (rule wp_read)
  fix c v r
  assume e: "exec H (started (read_regs (sfcr s 0) cm n)) (chip s) = (c, v)"
  let ?r = "started (read_regs (sfcr s 0) cm n)"
  have n: "n = 1 \<or> n = 3" using assms(2) by auto
  note out = read_regs_out [OF n, of "sfcr s 0" cm]
  have m: "write_mode ?r" "spi_out ?r = [ucast cm]" "spi_in ?r = unat n" using out by simp_all
  have "(ucast cm :: byte) = 0x9f \<or> (ucast cm :: byte) = 0x35" using assms(2) by auto
  then have i: "img c = img (chip s) \<and> busy c = 0"
    by (intro query [OF m(1) _ _ assms(1) e, of "ucast cm"]) (simp_all add: out)
  have "drop_bit 24 v = maker" if "cm = 0x9f"
    by (rule read_id [OF m(1) _ _ assms(1) e]) (use that assms(2) m in auto)
  moreover have "drop_bit 24 v = snd (srs (chip s))" if "cm = 0x35" "maker = 0xef \<or> maker = 0xc8"
    by (rule status2 [OF m(1) _ _ assms(1) that(2) e]) (use that assms(2) m in auto)
  ultimately show "Q v (s\<lparr>chip := c, sfcr := r\<rparr>)" using assms(3) i by blast
qed

lemma wp_spiread:
  assumes "\<And>r. Q () (s\<lparr>sfcr := r\<rparr>)"
  shows "wp (sfc_spiread H 0) Q E s"
  unfolding sfc_spiread_def sfc_clear_def sfc_cmdclr_def reg_def by (simp add: wp_simps assms)

end

section \<open>A simulated chip\<close>

text \<open>
  A Winbond chip of 4 MB: contents, write enable latch, remaining busy time and the protection
  bits. It shows up again every 4 MB. While a protection bit is set, all sectors are locked:
  programming and erasing do nothing.
\<close>

record sim =
  sim_mem :: "u32 \<Rightarrow> byte"
  sim_wel :: bool
  sim_busy :: nat
  sim_regs :: "u32 \<times> u32"

definition sim_addr :: "byte list \<Rightarrow> u32" where
  "sim_addr bs = push_bit 16 (ucast (bs ! 0)) OR push_bit 8 (ucast (bs ! 1)) OR ucast (bs ! 2)"

definition sim_free :: "u32 \<times> u32 \<Rightarrow> bool" where
  "sim_free r = (fst r AND 0x7c = 0 \<and> snd r AND 0x40 = 0)"

definition sim_srs :: "sim \<Rightarrow> u32 \<times> u32" where
  "sim_srs f = (fst (sim_regs f) AND 0xfc, snd (sim_regs f) AND 0xff)"

definition sim_change :: "sim \<Rightarrow> ((u32 \<Rightarrow> byte) \<Rightarrow> u32 \<Rightarrow> byte) \<Rightarrow> nat \<Rightarrow> sim" where
  "sim_change f g n = (if sim_free (sim_srs f) then f\<lparr>sim_mem := g (sim_mem f), sim_wel := False, sim_busy := n\<rparr>
     else f\<lparr>sim_wel := False\<rparr>)"

definition sim_write :: "sim \<Rightarrow> byte \<Rightarrow> byte list \<Rightarrow> sim" where
  "sim_write f c bs = f\<lparr>sim_wel := False, sim_busy := 3, sim_regs :=
     (if c = 0x31 then (fst (sim_regs f), ucast (bs ! 0))
      else (ucast (bs ! 0), if length bs > 1 then ucast (bs ! 1) else snd (sim_regs f)))\<rparr>"

definition sim_exec :: "sfc \<Rightarrow> sim \<Rightarrow> sim \<times> u32" where
  "sim_exec r f = (case spi_out r of
     [] \<Rightarrow> (f, 0)
   | c # bs \<Rightarrow>
       if c = 0x05 then (f\<lparr>sim_busy := sim_busy f - 1\<rparr>, push_bit 24
         (fst (sim_srs f) OR (if sim_busy f \<noteq> 0 then 1 else 0) OR (if sim_wel f then 2 else 0)))
       else if sim_busy f \<noteq> 0 then (f, 0)
       else if c = 0x9f then (f, 0xef401600)
       else if c = 0x35 then (f, push_bit 24 (snd (sim_srs f)))
       else if c = 0x06 then (f\<lparr>sim_wel := True\<rparr>, 0)
       else if \<not> sim_wel f then (f, 0)
       else if c = 0x02 then (sim_change f (\<lambda>m. prog m (sim_addr bs AND 0x3fffff) (drop 3 bs)) 1, 0)
       else if c = 0x20 then (sim_change f (\<lambda>m. erased m (sim_addr bs AND 0x3fffff)) 2, 0)
       else if c = 0x01 \<or> c = 0x31 then (sim_write f c bs, 0)
       else (f, 0))"

definition sim_nor :: "sim nor" where
  "sim_nor = \<lparr>tbuf_clear = (\<lambda>r. r\<lparr>cmd := (\<lambda>_. 0), type_info := (\<lambda>_. 0)\<rparr>), exec = sim_exec, polls = (\<lambda>_ _. 2),
     peek = (\<lambda>f x. sim_mem f (x AND 0x3fffff)), spins = 4\<rparr>"

lemma sim_addr: "drop_bit 24 a = 0 \<Longrightarrow> sim_addr (be24 a @ bs) = a"
proof (rule bit_word_eqI)
  fix n assume a: "drop_bit 24 a = 0" "n < LENGTH(32)"
  have hi: "\<not> bit a k" if "24 \<le> k" for k
    using arg_cong [OF a(1), of "\<lambda>w. bit w (k - 24)"] that by (simp add: bit_simps)
  from a(2) have "n < 32" by simp
  then show "bit (sim_addr (be24 a @ bs)) n = bit a n"
    by (cases rule: byte_index_cases) (auto simp: sim_addr_def be24_def bit_simps hi nth_append numeral_2_eq_2)
qed

lemma sim_addr0: "drop_bit 24 a = 0 \<Longrightarrow> sim_addr (be24 a) = a"
  using sim_addr [of a "[]"] by simp

lemma length_be24 [simp]: "length (be24 a) = 3"
  by (simp add: be24_def)

lemma low_22: "unat x < 0x400000 \<Longrightarrow> x AND 0x3fffff = (x :: u32)"
proof -
  assume "unat x < 0x400000"
  have "(0x3fffff :: u32) = mask 22" by (simp add: mask_eq_exp_minus_1)
  then have "x AND 0x3fffff = take_bit 22 x" by (simp only: take_bit_eq_mask)
  also have "\<dots> = x"
    by (rule word_unat_eq_iff [THEN iffD2]) (use \<open>unat x < 0x400000\<close> in \<open>simp add: unsigned_take_bit_eq take_bit_nat_eq_self\<close>)
  finally show ?thesis .
qed

lemma sim_cells: "cells_of sim_nor 0x400000 f = (\<lambda>x. if unat x < 0x400000 then sim_mem f x else 0)"
  by (auto simp: cells_of_def sim_nor_def low_22)

lemma sim_program:
  assumes "unat a + length bs \<le> 0x400000" "sim_mem f' = prog (sim_mem f) a bs"
  shows "cells_of sim_nor 0x400000 f' = prog (cells_of sim_nor 0x400000 f) a bs"
proof
  fix x
  have "unat x < 0x400000" if "unat (x - a) < length bs"
  proof -
    have "unat (a + (x - a)) = unat a + unat (x - a)" using assms(1) that by (intro unat_add_lem [THEN iffD1]) simp
    then show ?thesis using assms(1) that by simp
  qed
  then show "cells_of sim_nor 0x400000 f' x = prog (cells_of sim_nor 0x400000 f) a bs x"
    by (auto simp: sim_cells prog_def assms(2))
qed

lemma sim_erase:
  assumes "unat (a AND NOT 0xfff) + 4096 \<le> 0x400000" "sim_mem f' = erased (sim_mem f) a"
  shows "cells_of sim_nor 0x400000 f' = erased (cells_of sim_nor 0x400000 f) a"
proof
  fix x
  have "unat x < 0x400000" if "x AND NOT 0xfff = a AND NOT 0xfff"
  proof -
    have "x = (x AND NOT 0xfff) OR (x AND 0xfff)" by (rule bit_word_eqI) (auto simp: bit_simps)
    also have "\<dots> = (x AND NOT 0xfff) + (x AND 0xfff)" by (rule disjunctive_add [symmetric]) (simp add: bit_simps)
    finally have x: "x = (a AND NOT 0xfff) + (x AND 0xfff)" using that by simp
    have "x AND 0xfff \<le> 0xfff" by (rule word_and_le1)
    then have l: "unat (x AND 0xfff) \<le> 4095" by (simp add: word_le_nat_alt)
    have "unat ((a AND NOT 0xfff) + (x AND 0xfff)) = unat (a AND NOT 0xfff) + unat (x AND 0xfff)"
      using assms(1) l by (intro unat_add_lem [THEN iffD1]) simp
    then show ?thesis using assms(1) l x by simp
  qed
  then show "cells_of sim_nor 0x400000 f' x = erased (cells_of sim_nor 0x400000 f) a x"
    by (auto simp: sim_cells erased_def assms(2))
qed

lemma top_byte: "drop_bit 24 (push_bit 24 x) = (x AND 0xff :: u32)"
proof -
  have "(0xff :: u32) = mask 8" by (simp add: mask_eq_exp_minus_1)
  then have "x AND 0xff = take_bit 8 x" by (simp only: take_bit_eq_mask)
  then show ?thesis by (auto intro: bit_word_eqI simp: bit_simps)
qed

lemma byte_and: "ucast (b :: byte) AND 0xff = (ucast b :: u32)"
proof -
  have "(0xff :: u32) = mask 8" by (simp add: mask_eq_exp_minus_1)
  then have "ucast b AND 0xff = take_bit 8 (ucast b :: u32)" by (simp only: take_bit_eq_mask)
  also have "\<dots> = ucast b" by (rule bit_word_eqI) (auto simp: bit_simps dest: bit_byte)
  finally show ?thesis .
qed

lemma unat_add_le: "unat (a + b :: u32) \<le> unat a + unat b"
  by (simp add: unat_word_ariths)

lemma block_below:
  assumes "unat (a AND NOT 0xfff :: u32) + 4096 \<le> n"
  shows "unat a < n"
proof -
  have "a = (a AND NOT 0xfff) OR (a AND 0xfff)" by (rule bit_word_eqI) (auto simp: bit_simps)
  also have "\<dots> = (a AND NOT 0xfff) + (a AND 0xfff)" by (rule disjunctive_add [symmetric]) (simp add: bit_simps)
  finally have "unat a \<le> unat (a AND NOT 0xfff) + unat (a AND 0xfff)" by (metis unat_add_le)
  moreover have "a AND 0xfff \<le> 0xfff" by (rule word_and_le1)
  ultimately show ?thesis using assms by (simp add: word_le_nat_alt)
qed

lemma sim_status:
  fixes r :: u32 and p q :: bool
  defines "v \<equiv> drop_bit 24 (push_bit 24 ((r AND 0xfc) OR (if p then 1 else 0) OR (if q then 2 else 0)))"
  shows "(v AND 1 \<noteq> 0) = p" "(v AND 2 \<noteq> 0) = q" "v AND 0xfc = r AND 0xfc"
  unfolding v_def top_byte by (simp_all add: word_ao_dist and.assoc)

interpretation sim: nor_flash sim_nor sim_wel sim_busy "0x400000" "0xef" sim_srs sim_free
proof
  have e: "exec sim_nor = sim_exec" "spins sim_nor = 4" "polls sim_nor r f < spins sim_nor" for r f
    by (simp_all add: sim_nor_def)
  note defs = e(1) sim_exec_def
  fix r :: sfc and f f' :: sim and v a :: u32 and c b b' :: byte and bs :: "byte list" and r' :: "u32 \<times> u32"
  have mem: "cells_of sim_nor 0x400000 f' = cells_of sim_nor 0x400000 f" if "sim_mem f' = sim_mem f" for f f'
    unfolding sim_cells that ..
  have srs: "sim_srs (f\<lparr>sim_mem := m\<rparr>) = sim_srs f" "sim_srs (f\<lparr>sim_wel := w\<rparr>) = sim_srs f" "sim_srs (f\<lparr>sim_busy := n\<rparr>) = sim_srs f"
    for f m w n by (simp_all add: sim_srs_def)
  show "tbuf_clear sim_nor r = r\<lparr>cmd := (\<lambda>_. 0), type_info := (\<lambda>_. 0)\<rparr>" by (simp add: sim_nor_def)
  show "polls sim_nor r f < spins sim_nor" by (rule e)
  show "0 < spins sim_nor" by (simp add: e)
  show "unlocked 0xef r' \<Longrightarrow> sim_free r'"
  proof -
    assume "unlocked 0xef r'"
    then have u: "fst r' AND 0xfc = 0" "snd r' AND 0x40 = 0" by (simp_all add: unlocked_def)
    have "fst r' AND 0x7c = (fst r' AND 0xfc) AND 0x7c" by (simp add: and.assoc)
    then show ?thesis using u by (simp add: sim_free_def)
  qed
  assume x: "exec sim_nor r f = (f', v)"
  show "spi_out r = [0x06] \<Longrightarrow> sim_busy f = 0 \<Longrightarrow> sim_wel f' \<and> sim_busy f' = 0 \<and>
      (cells_of sim_nor 0x400000 f', sim_srs f') = (cells_of sim_nor 0x400000 f, sim_srs f)"
    using x by (auto simp: defs sim_cells srs)
  show "spi_out r = [0x05] \<Longrightarrow> (drop_bit 24 v AND 1 \<noteq> 0) = (sim_busy f \<noteq> 0) \<and> (drop_bit 24 v AND 2 \<noteq> 0) = sim_wel f \<and>
      drop_bit 24 v AND 0xfc = fst (sim_srs f) \<and> sim_wel f' = sim_wel f \<and> sim_busy f' = sim_busy f - 1 \<and>
      (cells_of sim_nor 0x400000 f', sim_srs f') = (cells_of sim_nor 0x400000 f, sim_srs f)"
  proof -
    assume "spi_out r = [0x05]"
    then have f': "f' = f\<lparr>sim_busy := sim_busy f - 1\<rparr>"
      and v: "v = push_bit 24 ((fst (sim_regs f) AND 0xfc) OR (if sim_busy f \<noteq> 0 then 1 else 0) OR (if sim_wel f then 2 else 0))"
      using x by (simp_all add: defs sim_srs_def)
    show ?thesis unfolding v sim_status by (auto simp: f' sim_srs_def sim_cells)
  qed
  show "spi_out r = 0x02 # be24 a @ bs \<Longrightarrow> drop_bit 24 a = 0 \<Longrightarrow> unat a + length bs \<le> 0x400000 \<Longrightarrow> bs \<noteq> [] \<Longrightarrow>
      sim_free (sim_srs f) \<Longrightarrow> sim_wel f \<Longrightarrow> sim_busy f = 0 \<Longrightarrow>
      (cells_of sim_nor 0x400000 f', sim_srs f') = (prog (cells_of sim_nor 0x400000 f) a bs, sim_srs f) \<and> sim_busy f' < spins sim_nor"
  proof -
    assume p: "spi_out r = 0x02 # be24 a @ bs" "drop_bit 24 a = 0" "unat a + length bs \<le> 0x400000" "bs \<noteq> []"
      "sim_free (sim_srs f)" "sim_wel f" "sim_busy f = 0"
    have "unat a < 0x400000" using p(3,4) by (cases bs) simp_all
    then have "sim_addr (be24 a @ bs) AND 0x3fffff = a" using sim_addr [OF p(2)] low_22 by simp
    then have "f' = f\<lparr>sim_mem := prog (sim_mem f) a bs, sim_wel := False, sim_busy := 1\<rparr>"
      using x p by (simp add: defs sim_change_def)
    then show ?thesis using sim_program [OF p(3), of f' f] by (simp add: srs e)
  qed
  show "spi_out r = 0x20 # be24 a \<Longrightarrow> drop_bit 24 a = 0 \<Longrightarrow> unat (a AND NOT 0xfff) + 4096 \<le> 0x400000 \<Longrightarrow>
      sim_free (sim_srs f) \<Longrightarrow> sim_wel f \<Longrightarrow> sim_busy f = 0 \<Longrightarrow>
      (cells_of sim_nor 0x400000 f', sim_srs f') = (erased (cells_of sim_nor 0x400000 f) a, sim_srs f) \<and> sim_busy f' < spins sim_nor"
  proof -
    assume p: "spi_out r = 0x20 # be24 a" "drop_bit 24 a = 0" "unat (a AND NOT 0xfff) + 4096 \<le> 0x400000"
      "sim_free (sim_srs f)" "sim_wel f" "sim_busy f = 0"
    have "sim_addr (be24 a) AND 0x3fffff = a" using sim_addr0 [OF p(2)] low_22 [OF block_below [OF p(3)]] by simp
    then have "f' = f\<lparr>sim_mem := erased (sim_mem f) a, sim_wel := False, sim_busy := 2\<rparr>"
      using x p by (simp add: defs sim_change_def)
    then show ?thesis using sim_erase [OF p(3), of f' f] by (simp add: srs e)
  qed
  show "spi_out r = [c] \<Longrightarrow> c = 0x9f \<or> c = 0x35 \<Longrightarrow> sim_busy f = 0 \<Longrightarrow>
      (cells_of sim_nor 0x400000 f', sim_srs f') = (cells_of sim_nor 0x400000 f, sim_srs f) \<and> sim_busy f' = 0"
    using x by (auto simp: defs)
  show "spi_out r = [0x9f] \<Longrightarrow> sim_busy f = 0 \<Longrightarrow> drop_bit 24 v = 0xef"
    using x by (auto simp: defs drop_bit_eq_div)
  show "spi_out r = [0x35] \<Longrightarrow> sim_busy f = 0 \<Longrightarrow> drop_bit 24 v = snd (sim_srs f)"
    using x by (auto simp: defs top_byte sim_srs_def and.assoc)
  show "spi_out r = [0x01, b] \<Longrightarrow> sim_wel f \<Longrightarrow> sim_busy f = 0 \<Longrightarrow>
      cells_of sim_nor 0x400000 f' = cells_of sim_nor 0x400000 f \<and> sim_busy f' < spins sim_nor \<and> fst (sim_srs f') = ucast b AND 0xfc \<and>
      snd (sim_srs f') AND NOT (snd (sim_srs f)) = 0"
  proof -
    assume p: "spi_out r = [0x01, b]" "sim_wel f" "sim_busy f = 0"
    have f': "f' = f\<lparr>sim_wel := False, sim_busy := 3, sim_regs := (ucast b, snd (sim_regs f))\<rparr>"
      using x p by (simp add: defs sim_write_def)
    have "snd (sim_srs f') = snd (sim_srs f)" by (simp add: f' sim_srs_def)
    then have "snd (sim_srs f') AND NOT (snd (sim_srs f)) = 0" by (simp del: bit.conj_disj_distrib)
    then show ?thesis by (auto simp: f' sim_cells sim_srs_def e)
  qed
  show "spi_out r = [0x31, b] \<Longrightarrow> sim_wel f \<Longrightarrow> sim_busy f = 0 \<Longrightarrow>
      cells_of sim_nor 0x400000 f' = cells_of sim_nor 0x400000 f \<and> sim_busy f' < spins sim_nor \<and> sim_srs f' = (fst (sim_srs f), ucast b)"
    using x by (auto simp: defs sim_write_def sim_cells sim_srs_def e byte_and)
qed (simp_all)

section \<open>Properties\<close>

text \<open>
  C10: sfc_write programs any number of bytes at any place of a chip none of whose sectors is
  locked: it cuts the data at page boundaries and at 32 bytes, waits for the chip each time,
  and leaves the flash with every byte of the range ANDed with the data, every other byte and
  the protection bits as they were, and the chip idle. The chip may have any size up to 16 MB
  and may show up again above its size; the controller may take any number of rounds below
  the model's bound to get ready.
\<close>

theorem sfc_write_programs:
  assumes "nor_flash H wel busy sz maker srs free" "busy (chip s) = 0" "free (srs (chip s))"
    and "unat addr + length src \<le> sz" "sz \<le> 2 ^ 24"
  shows "\<exists>c r. sfc_write H 0 addr src s = Ret () (s\<lparr>chip := c, sfcr := r\<rparr>) \<and> busy c = 0 \<and> srs c = srs (chip s) \<and>
    (\<forall>x. unat x < sz \<longrightarrow> peek H c x =
      (if unat (x - addr) < length src then peek H (chip s) x AND src ! unat (x - addr) else peek H (chip s) x))"
proof -
  let ?img = "\<lambda>f. (cells_of H sz f, srs f)"
  let ?Q = "\<lambda>_ t. \<exists>c r. t = s\<lparr>chip := c, sfcr := r\<rparr> \<and> busy c = 0 \<and> ?img c = (prog (cells_of H sz (chip s)) addr src, srs (chip s))"
  have "unat addr + length src \<le> 2 ^ 24" using assms(4,5) by simp
  then have "wp (sfc_write H 0 addr src) ?Q (\<lambda>_ _. False) s"
    by (rule nor_flash.wp_sfc_write [OF assms(1-4)]) blast
  from wp_Ret [OF this] obtain c r where c: "sfc_write H 0 addr src s = Ret () (s\<lparr>chip := c, sfcr := r\<rparr>)" "busy c = 0"
      "srs c = srs (chip s)" "cells_of H sz c = prog (cells_of H sz (chip s)) addr src" by auto
  have "peek H c x = (if unat (x - addr) < length src then peek H (chip s) x AND src ! unat (x - addr) else peek H (chip s) x)"
    if "unat x < sz" for x
    using fun_cong [OF c(4), of x] that by (simp add: cells_of_def prog_def split: if_splits)
  then show ?thesis using c by blast
qed

definition sample_chip :: "sim sfcst" where
  "sample_chip = \<lparr>packet_temp = (\<lambda>_. 0), rx = rx_init, tx = [], opens = [],
     ram = (\<lambda>_. 0), dl_start = 0, dl_size = 0, dl_recv = 0,
     sfcr = (\<lambda>_. \<lparr>cmd_set = 0, soft_req = 0, tbuf_clr = 0, int_clr = 0, cmd = (\<lambda>_. 0), type_info = (\<lambda>_. 0)\<rparr>),
     chip = \<lparr>sim_mem = (\<lambda>_. 0xff), sim_wel = False, sim_busy = 0, sim_regs = (0, 0)\<rparr>, sfc_clk = 0\<rparr>"

theorem sfc_write_programs_witness:
  "\<exists>c r. sfc_write sim_nor 0 0x1fe [1, 2, 3] sample_chip = Ret () (sample_chip\<lparr>chip := c, sfcr := r\<rparr>) \<and>
     peek sim_nor c 0x200 = 3 \<and> peek sim_nor c 0x201 = 0xff"
proof -
  have "\<exists>c r. sfc_write sim_nor 0 0x1fe [1, 2, 3] sample_chip = Ret () (sample_chip\<lparr>chip := c, sfcr := r\<rparr>) \<and>
    sim_busy c = 0 \<and> sim_srs c = sim_srs (chip sample_chip) \<and> (\<forall>x. unat x < 0x400000 \<longrightarrow> peek sim_nor c x =
      (if unat (x - 0x1fe) < length [1, 2, 3 :: byte]
       then peek sim_nor (chip sample_chip) x AND [1, 2, 3] ! unat (x - 0x1fe) else peek sim_nor (chip sample_chip) x))"
    by (rule sfc_write_programs [OF sim.nor_flash_axioms]) (simp_all add: sample_chip_def sim_free_def sim_srs_def)
  then obtain c r where c: "sfc_write sim_nor 0 0x1fe [1, 2, 3] sample_chip = Ret () (sample_chip\<lparr>chip := c, sfcr := r\<rparr>)"
    "\<And>x. unat x < 0x400000 \<Longrightarrow> peek sim_nor c x = (if unat (x - 0x1fe) < length [1, 2, 3 :: byte]
       then peek sim_nor (chip sample_chip) x AND [1, 2, 3] ! unat (x - 0x1fe) else peek sim_nor (chip sample_chip) x)" by blast
  have "peek sim_nor c 0x200 = 3" "peek sim_nor c 0x201 = 0xff"
    using c(2) [of "0x200"] c(2) [of "0x201"] by (simp_all add: sample_chip_def sim_nor_def)
  then show ?thesis using c(1) by blast
qed

text \<open>
  The registers that sfc_write fills in make the controller send the page program command,
  the 24-bit address and exactly the data, up to the 40 bytes that ten registers hold.
\<close>

theorem page_program_bytes:
  assumes "drop_bit 24 addr = 0" "length bs \<le> 40"
  shows "spi_out (sfc_program addr bs (ready r)) = 0x02 # be24 addr @ bs"
  using program_out(1) [OF assms] .

theorem page_program_bytes_witness:
  "spi_out (sfc_program 0x12345 [7, 8, 9, 10, 11] (ready (sfcr sample_chip 0))) = [0x02, 0x01, 0x23, 0x45, 7, 8, 9, 10, 11]"
  using page_program_bytes [of "0x12345" "[7, 8, 9, 10, 11]" "sfcr sample_chip 0"] by (simp add: be24_def)

end
