(* ===== verification/FdlFlash.thy ===== *)
theory FdlFlash
  imports FlashChip FdlMain
begin

text \<open>
  Downloading into the flash: data_midst and erase_flash of custom_fdl/main.c with a chip
  that satisfies \<open>nor_flash\<close>. A block is programmed in place where only bits have to be
  cleared, and is otherwise put together in RAM, erased and written back; either way the
  flash holds the data afterwards and everything outside the download is as it was.
\<close>

unbundle bit_operations_syntax

section \<open>Blocks\<close>

lemma unat_and_fff: "unat (w AND 0xfff :: u32) = unat w mod 4096"
proof -
  have "(0xfff :: u32) = mask 12" by (simp add: mask_eq_exp_minus_1)
  then have "w AND 0xfff = take_bit 12 w" by (simp only: take_bit_eq_mask)
  then show ?thesis by (simp add: unsigned_take_bit_eq take_bit_nat)
qed

lemma and_not_fff: "w AND NOT 0xfff = w - (w AND 0xfff :: u32)"
proof -
  have "w = (w AND NOT 0xfff) OR (w AND 0xfff)" by (rule bit_word_eqI) (auto simp: bit_simps)
  also have "\<dots> = (w AND NOT 0xfff) + (w AND 0xfff)"
    by (rule disjunctive_add [symmetric]) (simp add: bit_simps)
  finally show ?thesis by (metis add_diff_cancel_right')
qed

lemma unat_and_not_fff: "unat (w AND NOT 0xfff :: u32) = unat w - unat w mod 4096"
  unfolding and_not_fff by (subst unat_sub) (simp_all add: word_le_nat_alt unat_and_fff)

lemma unat_minus_and_fff: "unat (- w AND 0xfff :: u32) = (4096 - unat w mod 4096) mod 4096"
proof -
  have "unat (- w) = (2 ^ 32 - unat w) mod 2 ^ 32"
    using unat_sub_if' [of 0 w] by (cases "w = 0") (auto simp: unat_gt_0 word_le_nat_alt)
  then have "unat (- w) mod 4096 = (2 ^ 32 - unat w) mod 4096" by (simp add: mod_mod_cancel)
  also have "\<dots> = (4096 - unat w mod 4096) mod 4096"
  proof -
    have u: "unat w < 2 ^ 32" using unsigned_less [of w] by simp
    define q r where "q = unat w div 4096" and "r = unat w mod 4096"
    have w: "unat w = 4096 * q + r" "r < 4096" by (simp_all add: q_def r_def)
    then have "q < 2 ^ 20" using u by simp
    then have "2 ^ 32 - unat w = 4096 * (2 ^ 20 - 1 - q) + (4096 - r)" using w by (simp add: algebra_simps)
    then show ?thesis by (metis mod_mult_self4 r_def)
  qed
  finally show ?thesis by (simp add: unat_and_fff)
qed

lemma in_block: "(x AND NOT 0xfff = a AND NOT 0xfff) = (unat (x - (a AND NOT 0xfff)) < 4096)" for x a :: u32
proof
  assume "x AND NOT 0xfff = a AND NOT 0xfff"
  then have "x - (a AND NOT 0xfff) = x - (x AND NOT 0xfff)" by simp
  also have "\<dots> = x AND 0xfff" unfolding and_not_fff by simp
  finally have "x - (a AND NOT 0xfff) = x AND 0xfff" .
  then show "unat (x - (a AND NOT 0xfff)) < 4096" by (simp add: unat_and_fff)
next
  let ?b = "a AND NOT 0xfff"
  assume l: "unat (x - ?b) < 4096"
  have b: "unat ?b = 4096 * (unat a div 4096)" unfolding unat_and_not_fff by (rule minus_mod_eq_mult_div)
  have "unat a < 2 ^ 32" using unsigned_less [of a] by simp
  then have "unat ?b + 4096 \<le> 2 ^ 32" unfolding b by simp
  then have "unat (?b + (x - ?b)) = unat ?b + unat (x - ?b)" using l by (intro unat_add_lem [THEN iffD1]) simp
  moreover have "?b + (x - ?b) = x" by (metis add.commute diff_add_cancel)
  ultimately have "unat x = 4096 * (unat a div 4096) + unat (x - ?b)" unfolding b by simp
  then have "unat x div 4096 = unat a div 4096" using l by simp
  then show "x AND NOT 0xfff = ?b"
    unfolding word_unat_eq_iff unat_and_not_fff minus_mod_eq_mult_div by simp
qed

text \<open>The flash after storing \<open>src\<close> at \<open>A\<close>, where up to \<open>rem\<close> bytes from there on are being replaced.\<close>

definition stored :: "(u32 \<Rightarrow> byte) \<Rightarrow> u32 \<Rightarrow> byte list \<Rightarrow> nat \<Rightarrow> (u32 \<Rightarrow> byte) \<Rightarrow> bool" where
  "stored m A src rem m' = (\<forall>x. if unat (x - A) < length src then m' x = src ! unat (x - A)
     else rem \<le> unat (x - A) \<longrightarrow> m' x = m x)"

lemma stored_append:
  assumes "stored m A xs rem m1" "stored m1 (A + of_nat (length xs)) ys (rem - length xs) m2"
    and "length xs + length ys \<le> rem" "rem \<le> 2 ^ 32" "length xs < 2 ^ 32"
  shows "stored m A (xs @ ys) rem m2"
  unfolding stored_def
proof
  fix x
  have u: "unat (x - (A + of_nat (length xs))) =
      (if length xs \<le> unat (x - A) then unat (x - A) - length xs else 2 ^ 32 + unat (x - A) - length xs)"
    by (rule unat_diff_add) (rule assms(5))
  have 1: "if unat (x - A) < length xs then m1 x = xs ! unat (x - A) else rem \<le> unat (x - A) \<longrightarrow> m1 x = m x"
    and 2: "if unat (x - (A + of_nat (length xs))) < length ys then m2 x = ys ! unat (x - (A + of_nat (length xs)))
      else rem - length xs \<le> unat (x - (A + of_nat (length xs))) \<longrightarrow> m2 x = m1 x"
    using assms(1,2) by (auto simp: stored_def)
  show "if unat (x - A) < length (xs @ ys) then m2 x = (xs @ ys) ! unat (x - A) else rem \<le> unat (x - A) \<longrightarrow> m2 x = m x"
  proof (cases "unat (x - A) < length xs")
    case True
    then have "unat (x - (A + of_nat (length xs))) = 2 ^ 32 + unat (x - A) - length xs" using u by simp
    then have "m2 x = m1 x" using 2 True assms(3,4) by (auto split: if_splits)
    then show ?thesis using 1 True by (simp add: nth_append)
  next
    case False
    then have "unat (x - (A + of_nat (length xs))) = unat (x - A) - length xs" using u by simp
    then show ?thesis using 1 2 False assms(3) by (auto simp: nth_append split: if_splits)
  qed
qed

section \<open>Scanning and comparing\<close>

lemma cmp_bytes_eq: "length d = length s \<Longrightarrow> cmp_bytes d s = (if d = s then 0 else 1)"
  by (induction d s rule: cmp_bytes.induct) auto

lemma cmp_words_eq: "length d = length s \<Longrightarrow> cmp_words d s = (if d = s then 0 else 1)"
  by (induction d s rule: cmp_words.induct) (auto simp: cmp_bytes_eq)

lemma keep_bits: "(a XOR b) AND b = 0 \<Longrightarrow> a AND b = (b :: byte)"
  by (rule bit_word_eqI) (auto simp: bit_simps bit_eq_iff)

lemma or_zero_iff: "(a OR b = 0) = (a = 0 \<and> b = (0 :: byte))"
  by (auto simp: bit_eq_iff bit_simps)

lemma flash_scan_False:
  "flash_scan rd addr src diff = (False, d) \<Longrightarrow>
     (\<forall>i < length src. rd (addr + of_nat i) AND src ! i = src ! i) \<and>
     (d = 0 \<longleftrightarrow> diff = 0 \<and> (\<forall>i < length src. rd (addr + of_nat i) = src ! i))"
proof (induction rd addr src diff rule: flash_scan.induct)
  case (2 rd addr b src diff)
  let ?a = "rd addr XOR b"
  have f: "?a AND b = 0" "flash_scan rd (addr + 1) src (diff OR ?a) = (False, d)"
    using "2.prems" by (auto simp: Let_def split: if_splits)
  have "rd addr AND b = b" using keep_bits [OF f(1)] .
  moreover have "?a = 0 \<longleftrightarrow> rd addr = b" by (auto simp: bit_eq_iff bit_simps)
  moreover have "(\<forall>i < length src. rd (addr + 1 + of_nat i) AND src ! i = src ! i) \<and>
      (d = 0 \<longleftrightarrow> (diff OR ?a) = 0 \<and> (\<forall>i < length src. rd (addr + 1 + of_nat i) = src ! i))"
    using "2.IH" f by simp
  ultimately show ?case
    by (simp add: or_zero_iff All_less_Suc2 add.assoc)
qed simp

section \<open>The driver under the loader\<close>

lemma ld_simps [simp]:
  "ld B (s\<lparr>sfcr := r\<rparr>) = ld B s" "ld B (s\<lparr>flash_id := i\<rparr>) = ld B s" "ld B (s\<lparr>dl_recv := k\<rparr>) = ld B s"
  "ld B (s\<lparr>sfc_clk := w\<rparr>) = ld B s"
  by (simp_all add: ld_def fun_eq_iff)

lemma ld_flash: "in_flash B a \<Longrightarrow> ld B s a = peek (chp B) (chip s) (a - FW_ADDR B)"
  by (simp add: ld_def)

lemma in_flash_iff: "in_flash B a = (unat (a - FW_ADDR B) < 2 ^ 24)"
proof -
  have "unat (a - FW_ADDR B) < 2 ^ 32" using unsigned_less [of "a - FW_ADDR B"] by simp
  then show ?thesis by (simp add: in_flash_def word_unat_eq_iff word_nat div_eq_0_iff)
qed

lemma FW_ADDR_fff: "unat (FW_ADDR B + A) mod 4096 = unat A mod 4096"
proof -
  obtain k where k: "unat (FW_ADDR B) = 4096 * k"
  proof -
    have "unat (FW_ADDR B) = 4096 * (if chip_no B \<noteq> 1 then 0x30000 else 0x10000)" by (simp add: FW_ADDR_def)
    then show ?thesis by (rule that)
  qed
  have "unat (FW_ADDR B + A) mod 4096 = (unat (FW_ADDR B) + unat A) mod 2 ^ 32 mod 4096"
    by (simp only: unat_word_ariths) simp
  also have "\<dots> = (unat (FW_ADDR B) + unat A) mod 4096" by (simp add: mod_mod_cancel)
  finally show ?thesis by (simp add: k)
qed

text \<open>The RAM buffer in which a block is put together lies outside the flash.\<close>

definition block_buf :: "'f board \<Rightarrow> u32" where
  "block_buf B = chipram_addr B + 0x9000"

definition buffer_ok :: "'f board \<Rightarrow> bool" where
  "buffer_ok B = (\<forall>i < 4096. \<not> in_flash B (block_buf B + of_nat i))"

lemma and_of_nat: "unat w mod 4096 = k \<Longrightarrow> w AND 0xfff = (of_nat k :: u32)"
  by (simp add: word_unat_eq_iff unat_and_fff unat_of_nat)

lemma block_start:
  fixes A :: u32
  assumes "unat A < 2 ^ 24"
  shows "(FW_ADDR B + A) AND NOT 0xfff = FW_ADDR B + (A AND NOT 0xfff)"
    "unat (A AND NOT 0xfff) + 4096 \<le> 2 ^ 24" "A = (A AND NOT 0xfff) + of_nat (unat A mod 4096)"
proof -
  have "(FW_ADDR B + A) AND 0xfff = A AND 0xfff"
    by (simp add: word_unat_eq_iff unat_and_fff FW_ADDR_fff)
  then show "(FW_ADDR B + A) AND NOT 0xfff = FW_ADDR B + (A AND NOT 0xfff)"
    unfolding and_not_fff by simp
  show "unat (A AND NOT 0xfff) + 4096 \<le> 2 ^ 24"
    using assms unfolding unat_and_not_fff minus_mod_eq_mult_div by simp
  show "A = (A AND NOT 0xfff) + of_nat (unat A mod 4096)"
    unfolding and_not_fff by (simp add: and_of_nat [OF refl])
qed

lemma ld_block:
  assumes "unat base + 4096 \<le> 2 ^ 24" "k < 4096"
  shows "ld B s (FW_ADDR B + base + of_nat k) = peek (chp B) (chip s) (base + of_nat k)"
proof -
  have "unat (base + of_nat k) = unat base + k"
    using assms by (subst unat_add_lem [THEN iffD1]) (simp_all add: unat_of_nat)
  then have "in_flash B (FW_ADDR B + base + of_nat k)" using assms by (simp add: in_flash_iff add.assoc)
  then show ?thesis by (simp add: ld_flash add.assoc)
qed

lemma ld_block_bytes:
  "unat base + 4096 \<le> 2 ^ 24 \<Longrightarrow> j + k \<le> 4096 \<Longrightarrow>
     ld_bytes B s (FW_ADDR B + base + of_nat j) k = mbytes (peek (chp B) (chip s)) (base + of_nat j) k"
  unfolding ld_bytes_def mbytes_def
  using ld_block [of base "j + i" B s for i] by (auto simp: add.assoc)

text \<open>The block as \<open>fill_block\<close> puts it together.\<close>

definition block_image :: "(u32 \<Rightarrow> byte) \<Rightarrow> u32 \<Rightarrow> nat \<Rightarrow> byte list \<Rightarrow> nat \<Rightarrow> byte list" where
  "block_image m base off src j = mbytes m base off @ src @ replicate j 0xff @
     mbytes m (base + of_nat (off + length src + j)) (4096 - (off + length src + j))"

lemma st_fields: "dl_start (st_bytes a bs s) = dl_start s" "dl_size (st_bytes a bs s) = dl_size s"
  by (simp_all add: st_bytes_def)

lemma mupd_append_at:
  "length xs = k \<Longrightarrow> k + length ys \<le> 2 ^ 32 \<Longrightarrow> mupd (mupd m a xs) (a + of_nat k) ys = mupd m a (xs @ ys)"
  using mupd_append [of xs ys m a] by simp

lemma fill_block_image:
  fixes A :: u32
  assumes A: "unat A < 2 ^ 24" "unat A mod 4096 + length src \<le> 4096" "src \<noteq> []"
    and rem: "length src \<le> unat (dl_start s + dl_size s - (FW_ADDR B + A))"
  defines "base \<equiv> A AND NOT 0xfff" and "off \<equiv> unat A mod 4096"
  defines "j \<equiv> min (4096 - (off + length src)) (unat (dl_start s + dl_size s - (FW_ADDR B + A)) - length src)"
  shows "fill_block B (FW_ADDR B + A) src s =
    Ret () (s\<lparr>ram := mupd (ram s) (block_buf B) (block_image (peek (chp B) (chip s)) base off src j)\<rparr>)"
proof -
  let ?n = "length src" and ?addr = "FW_ADDR B + A" and ?buf = "block_buf B" and ?m = "peek (chp B) (chip s)"
  have n: "off + ?n \<le> 4096" "off < 4096" using A(2) by (simp_all add: off_def)
  have j: "off + ?n + j \<le> 4096" using n by (simp add: j_def)
  have base: "unat base + 4096 \<le> 2 ^ 24" "A = base + of_nat off" "?addr AND NOT 0xfff = FW_ADDR B + base"
    using block_start [OF A(1)] by (simp_all add: base_def off_def)
  have "unat ?addr mod 4096 = off" by (simp add: off_def FW_ADDR_fff)
  then have off: "?addr AND 0xfff = of_nat off" "unat (of_nat off :: u32) = off"
    using n(2) by (simp_all add: and_of_nat unat_of_nat)
  have place: "?addr + of_nat k = FW_ADDR B + base + of_nat (off + k)" for k by (simp add: base(2) add.assoc)
  have "unat (base + of_nat k) mod 4096 = k mod 4096" if "k \<le> 4096" for k
  proof -
    have "unat (base + of_nat k) = unat base + k"
      using base(1) that by (subst unat_add_lem [THEN iffD1]) (simp_all add: unat_of_nat)
    moreover have "unat base mod 4096 = 0"
      unfolding base_def unat_and_not_fff minus_mod_eq_mult_div by simp
    ultimately show ?thesis by (metis add_0 mod_add_left_eq)
  qed
  then have pos: "unat (FW_ADDR B + base + of_nat k) mod 4096 = k mod 4096" if "k \<le> 4096" for k
    using that by (simp add: FW_ADDR_fff add.assoc)
  define e2 where "e2 = FW_ADDR B + base + of_nat (off + ?n)"
  have e2: "?addr + of_nat ?n = e2" by (simp add: e2_def place)
  have gap: "unat (- e2 AND 0xfff) = (if off + ?n = 4096 then 0 else 4096 - (off + ?n))"
    unfolding unat_minus_and_fff e2_def pos [OF n(1)] using n A(3) by (cases "off + ?n = 4096") simp_all
  define rest where "rest = dl_start s + dl_size s - e2"
  have "rest = dl_start s + dl_size s - ?addr - of_nat ?n" by (simp add: rest_def e2 [symmetric])
  then have rest: "unat rest = unat (dl_start s + dl_size s - ?addr) - ?n"
    using rem n by (simp add: unat_sub word_le_nat_alt unat_of_nat)
  define i where "i = (if rest > (- e2 AND 0xfff) then - e2 AND 0xfff else rest)"
  have i: "unat i = (if off + ?n = 4096 then 0 else j)"
    unfolding i_def j_def rest [symmetric] using gap n
    by (cases "off + ?n = 4096") (auto simp: word_less_nat_alt min_def)
  have j0: "off + ?n = 4096 \<Longrightarrow> j = 0" by (simp add: j_def)
  then have "unat i = j" using i by (auto split: if_splits)
  then have i': "unat i = j" "i = of_nat j" by (auto simp: word_unat_eq_iff)
  have e3: "e2 + i = FW_ADDR B + base + of_nat (off + ?n + j)" by (simp add: e2_def i'(2) add.assoc)
  define k where "k = 4096 - (off + ?n + j)"
  have tail: "unat (- (e2 + i) AND 0xfff) = k"
    unfolding unat_minus_and_fff e3 pos [OF j] using j A(3) by (cases "off + ?n + j = 4096") (simp_all add: k_def)
  have at2: "e2 AND 0xfff = of_nat ((off + ?n) mod 4096)" unfolding e2_def by (rule and_of_nat, rule pos [OF n(1)])
  have at3: "(e2 + i) AND 0xfff = of_nat ((off + ?n + j) mod 4096)" unfolding e3 by (rule and_of_nat, rule pos [OF j])
  have mid: "mupd m (?buf + (e2 AND 0xfff)) (replicate (unat i) 0xff) = mupd m (?buf + of_nat (off + ?n)) (replicate j 0xff)" for m
    using n j0 i'(1) unfolding at2 by (cases "off + ?n = 4096") simp_all
  have last: "mupd m (?buf + ((e2 + i) AND 0xfff)) (mbytes f a k) = mupd m (?buf + of_nat (off + ?n + j)) (mbytes f a k)" for m f a
    using j unfolding at3 by (cases "off + ?n + j = 4096") (simp_all add: k_def)
  have ldb: "ld_bytes B t (FW_ADDR B + base) off = mbytes ?m base off"
    "ld_bytes B t (e2 + i) k = mbytes ?m (base + of_nat (off + ?n + j)) k" if "chip t = chip s" for t
    using ld_block_bytes [OF base(1), of 0 off B t] ld_block_bytes [OF base(1), of "off + ?n + j" k B t] n j that
    by (simp_all add: e3 k_def)
  have blk: "- ERASE_BLK = NOT 0xfff" "ERASE_BLK - 1 = 0xfff" by (simp_all add: ERASE_BLK_def)
  have "mupd (mupd (mupd (mupd (ram s) ?buf (mbytes ?m base off)) (?buf + of_nat off) src)
      (?buf + of_nat (off + ?n)) (replicate j 0xff)) (?buf + of_nat (off + ?n + j)) (mbytes ?m (base + of_nat (off + ?n + j)) k) =
    mupd (ram s) ?buf (block_image ?m base off src j)"
  proof -
    have 1: "mupd (mupd (ram s) ?buf (mbytes ?m base off)) (?buf + of_nat off) src = mupd (ram s) ?buf (mbytes ?m base off @ src)"
      by (rule mupd_append_at) (use n in simp_all)
    have 2: "mupd (mupd (ram s) ?buf (mbytes ?m base off @ src)) (?buf + of_nat (off + ?n)) (replicate j 0xff) =
        mupd (ram s) ?buf ((mbytes ?m base off @ src) @ replicate j 0xff)"
      by (rule mupd_append_at) (use j in simp_all)
    have 3: "mupd (mupd (ram s) ?buf ((mbytes ?m base off @ src) @ replicate j 0xff)) (?buf + of_nat (off + ?n + j)) p =
        mupd (ram s) ?buf (((mbytes ?m base off @ src) @ replicate j 0xff) @ p)" if "length p = k" for p
      by (rule mupd_append_at) (use j that in \<open>simp_all add: k_def\<close>)
    show ?thesis unfolding 1 2 by (subst 3) (simp_all add: block_image_def k_def)
  qed
  then show ?thesis
    unfolding fill_block_def modify_def Let_def blk block_buf_def [symmetric] base(3) off e2 st_fields
    unfolding rest_def [symmetric] i_def [symmetric] unfolding tail st_bytes_def
    by (simp add: ldb mid last)
qed

lemma length_block_image: "off + length src + j \<le> 4096 \<Longrightarrow> length (block_image m base off src j) = 4096"
  by (simp add: block_image_def)

lemma nth_block_image:
  assumes "off + length src + j \<le> 4096" "i < 4096"
  shows "block_image m base off src j ! i =
    (if i < off then m (base + of_nat i) else if i < off + length src then src ! (i - off)
     else if i < off + length src + j then 0xff else m (base + of_nat i))"
proof -
  have "i = (off + length src + j) + (i - (off + length src + j))" if "off + length src + j \<le> i" using that by simp
  then have e: "base + of_nat (off + length src + j) + of_nat (i - (off + length src + j)) = base + of_nat i"
    if "off + length src + j \<le> i" using that by (metis (no_types) add.assoc of_nat_add)
  have n: "mbytes m a k ! l = m (a + of_nat l)" if "l < k" for a k l using that by (simp add: mbytes_def)
  consider "i < off" | "off \<le> i" "i < off + length src" | "off + length src \<le> i" "i < off + length src + j"
    | "off + length src + j \<le> i" by linarith
  then show ?thesis
  proof cases
    case 4
    then have "block_image m base off src j ! i =
        mbytes m (base + of_nat (off + length src + j)) (4096 - (off + length src + j)) ! (i - (off + length src + j))"
    proof -
      have "(p1 @ p2 @ p3 @ p4) ! i = p4 ! (i - (off + length src + j))"
        if "length p1 = off" "length p2 = length src" "length p3 = j" for p1 p2 p3 p4 :: "byte list"
        using nth_append_right [of "p1 @ p2 @ p3" i p4] that 4 by (simp add: add.assoc)
      then show ?thesis unfolding block_image_def by simp
    qed
    also have "\<dots> = m (base + of_nat i)" using 4 assms n e by simp
    finally show ?thesis using 4 by simp
  next
    case 1
    then show ?thesis by (simp add: block_image_def nth_append n)
  next
    case 2
    then have "i - off < length src" by linarith
    with 2 show ?thesis by (simp add: block_image_def nth_append)
  next
    case 3
    then have "\<not> i - off < length src" "i - off - length src < j" by linarith+
    with 3 show ?thesis by (simp add: block_image_def nth_append)
  qed
qed

text \<open>What the erase and the rewriting of the block leave in the flash.\<close>

lemma rewritten_block:
  fixes A :: u32 and m :: "u32 \<Rightarrow> byte"
  assumes "unat A mod 4096 + length src \<le> 4096" "length src \<le> rem"
    and "unat A < 2 ^ 24"
  defines "base \<equiv> A AND NOT 0xfff" and "off \<equiv> unat A mod 4096"
  defines "X \<equiv> block_image m base off src (min (4096 - (off + length src)) (rem - length src))"
  shows "mbytes (prog (erased m base) base X) base 4096 = X"
    "stored m A src rem (prog (erased m base) base X)"
proof -
  define j where "j = min (4096 - (off + length src)) (rem - length src)"
  have j: "off + length src + j \<le> 4096" using assms(1) by (simp add: j_def off_def)
  have len: "length X = 4096" unfolding X_def j_def [symmetric] by (rule length_block_image [OF j])
  have A: "A = base + of_nat off" using block_start(3) [OF assms(3)] by (simp add: base_def off_def)
  have bb: "base AND NOT 0xfff = base" by (simp add: base_def and.assoc)
  have er: "erased m base x = (if unat (x - base) < 4096 then 0xff else m x)" for x
    using in_block [of x base] unfolding bb by (simp only: erased_def bb)
  have new: "prog (erased m base) base X x = (if unat (x - base) < 4096 then X ! unat (x - base) else m x)" for x
  proof -
    have "(0xff :: byte) = - 1" by simp
    then have "0xff AND b = b" for b :: byte by (simp only: and.left_neutral)
    then show ?thesis by (simp add: prog_def er len)
  qed
  show "mbytes (prog (erased m base) base X) base 4096 = X"
    by (rule nth_equalityI) (simp_all add: len mbytes_def new unat_of_nat)
  show "stored m A src rem (prog (erased m base) base X)"
    unfolding stored_def
  proof
    fix x
    let ?i = "unat (x - base)"
    have off: "off < 4096" by (simp add: off_def)
    have u: "unat (x - A) = (if off \<le> ?i then ?i - off else 2 ^ 32 + ?i - off)"
      unfolding A by (rule unat_diff_add) (use off in simp)
    have x: "base + of_nat ?i = x" by simp
    show "if unat (x - A) < length src then prog (erased m base) base X x = src ! unat (x - A)
        else rem \<le> unat (x - A) \<longrightarrow> prog (erased m base) base X x = m x"
    proof (cases "?i < 4096")
      case True
      then have X: "X ! ?i = (if ?i < off then m x else if ?i < off + length src then src ! (?i - off)
          else if ?i < off + length src + j then 0xff else m x)"
        unfolding X_def j_def [symmetric] nth_block_image [OF j True] x by simp
      show ?thesis
      proof (cases "off \<le> ?i")
        case o: True
        show ?thesis using X True o assms(2) by (auto simp: new u j_def)
      next
        case False
        then show ?thesis using X True off assms(1) by (auto simp: new u off_def)
      qed
    next
      case False
      then show ?thesis using off assms(1) by (auto simp: new u off_def)
    qed
  qed
qed

lemma byte_and_3: "ucast (ucast (v AND NOT m :: u32) :: byte) AND (m' :: u32) = 0" if "m' AND NOT m = 0"
proof (rule bit_word_eqI)
  fix n
  have "bit m' n \<Longrightarrow> bit m n" if "n < 32"
    using arg_cong [OF \<open>m' AND NOT m = 0\<close>, of "\<lambda>w. bit w n"] that by (simp add: bit_simps)
  then show "n < LENGTH(32) \<Longrightarrow> bit (ucast (ucast (v AND NOT m) :: byte) AND m') n = bit (0 :: u32) n"
    by (auto simp: bit_simps)
qed

lemma and_part: "x AND m = 0 \<Longrightarrow> x AND (m AND k) = (0 :: u32)"
  by (simp add: and.assoc [symmetric])

lemma and_sub: "x AND NOT y = 0 \<Longrightarrow> y AND m = 0 \<Longrightarrow> x AND m = (0 :: u32)"
  by (auto simp: bit_eq_iff bit_simps)

text \<open>What sfc_unlock writes into the status registers leaves no protection bit set.\<close>

lemma unlock_values:
  fixes v w :: u32
  shows "ucast (ucast (v AND NOT 0xfc) :: byte) AND (0xfc :: u32) = 0"
    "ucast (ucast (v AND NOT 0xbc) :: byte) AND (0xbc :: u32) = 0"
    "ucast (ucast (v AND NOT 0x40) :: byte) AND (0x40 :: u32) = 0"
    "ucast (ucast (v AND NOT 0x40fc) :: byte) AND (0xfc :: u32) = 0"
    "ucast (ucast (drop_bit 8 (v AND NOT 0x40fc)) :: byte) AND (0x40 :: u32) = 0"
    "(v OR push_bit 8 w) AND 0x40fc = 0 \<Longrightarrow> v AND 0xfc = 0 \<and> w AND 0x40 = 0"
proof -
  show "ucast (ucast (v AND NOT 0xfc) :: byte) AND (0xfc :: u32) = 0"
    "ucast (ucast (v AND NOT 0xbc) :: byte) AND (0xbc :: u32) = 0"
    "ucast (ucast (v AND NOT 0x40) :: byte) AND (0x40 :: u32) = 0"
    "ucast (ucast (v AND NOT 0x40fc) :: byte) AND (0xfc :: u32) = 0"
    by (rule byte_and_3, simp)+
  have "drop_bit 8 (v AND NOT m) = drop_bit 8 v AND NOT (drop_bit 8 m)" for m
    by (rule bit_word_eqI) (auto simp: bit_simps dest: bit_imp_le_length)
  then have d: "drop_bit 8 (v AND NOT 0x40fc) = drop_bit 8 v AND NOT (drop_bit 8 0x40fc)" .
  show "ucast (ucast (drop_bit 8 (v AND NOT 0x40fc)) :: byte) AND (0x40 :: u32) = 0"
    unfolding d by (rule byte_and_3) simp
  assume "(v OR push_bit 8 w) AND 0x40fc = 0"
  then have "v AND 0x40fc = 0 \<and> push_bit 8 w AND 0x40fc = 0" by (auto simp: word_ao_dist bit_eq_iff bit_simps)
  then have v: "v AND (0x40fc AND 0xfc) = 0" and w: "push_bit 8 w AND (0x40fc AND 0x4000) = 0"
    by (simp_all only: and_part)
  have "push_bit 8 (w AND 0x40) = push_bit 8 w AND push_bit 8 0x40" by (rule bit_word_eqI) (auto simp: bit_simps)
  also have "\<dots> = 0" using w by simp
  finally have "drop_bit 8 (push_bit 8 (w AND 0x40)) = 0" by (simp only: drop_bit_of_0)
  moreover have "drop_bit 8 (push_bit 8 (w AND 0x40)) = (w AND 0x40) AND mask 24"
    by (rule bit_word_eqI) (auto simp: bit_simps)
  ultimately have "w AND (0x40 AND 0xffffff) = 0" by (simp add: and.assoc mask_eq_exp_minus_1)
  then show "v AND 0xfc = 0 \<and> w AND 0x40 = 0" using v by simp
qed

section \<open>Erased words\<close>

lemma read_ones: "READ32_LE m 0 = - 1 \<longleftrightarrow> m 0 = 0xff \<and> m 1 = 0xff \<and> m 2 = 0xff \<and> m 3 = 0xff"
proof
  assume e: "READ32_LE m 0 = - 1"
  have "WRITE32_LE (READ32_LE m 0) = [m 0, m 1, m 2, m 3]"
    unfolding WRITE32_LE_def list.inject READ32_LE_def
    by (intro conjI bit_word_eqI TrueI) (auto simp: bit_simps dest: bit_byte)
  moreover have "WRITE32_LE (- 1) = [0xff, 0xff, 0xff, 0xff]"
  proof -
    have m: "(0xff :: byte) = - 1" by simp
    show ?thesis
      unfolding m WRITE32_LE_def list.inject by (intro conjI bit_word_eqI TrueI) (simp_all add: bit_simps)
  qed
  ultimately show "m 0 = 0xff \<and> m 1 = 0xff \<and> m 2 = 0xff \<and> m 3 = 0xff" unfolding e by simp
qed (simp add: READ32_LE_def)

lemma rotr_ones: "NOT (word_rotr n w) = 0 \<longleftrightarrow> w = (- 1 :: u32)"
proof -
  have "word_rotl n (- 1 :: u32) = - 1" by (rule bit_word_eqI) (simp add: word_rotl_eq_word_rotr bit_simps)
  moreover have "word_rotr n (- 1 :: u32) = - 1" by (rule bit_word_eqI) (simp add: bit_simps)
  ultimately have "word_rotr n w = - 1 \<longleftrightarrow> w = - 1" by (metis word_rot_rl)
  moreover have "NOT v = 0 \<longleftrightarrow> v = (- 1 :: u32)" for v by (metis bit.double_compl bit.compl_zero)
  ultimately show ?thesis by simp
qed

lemma ld_word_clean: "NOT (ld_word B s a) = 0 \<longleftrightarrow> (\<forall>j < 4. ld B s ((a AND NOT 3) + of_nat j) = 0xff)"
proof -
  have "(\<forall>j < 4. P j) = (P 0 \<and> P 1 \<and> P 2 \<and> P (3 :: nat))" for P
    by (auto simp: eval_nat_numeral All_less_Suc)
  then show ?thesis unfolding ld_word_def rotr_ones read_ones by simp
qed

lemma and_not_3: "unat w mod 4 = r \<Longrightarrow> w AND NOT 3 = w - of_nat r" for w :: u32
proof -
  assume r: "unat w mod 4 = r"
  have "(3 :: u32) = mask 2" by (simp add: mask_eq_exp_minus_1)
  then have "w AND 3 = take_bit 2 w" by (simp only: take_bit_eq_mask)
  then have "w AND 3 = of_nat r"
    using r by (simp add: word_unat_eq_iff unsigned_take_bit_eq take_bit_nat unat_of_nat)
  moreover have "w = (w AND NOT 3) OR (w AND 3)" by (rule bit_word_eqI) (auto simp: bit_simps)
  moreover have "(w AND NOT 3) OR (w AND 3) = (w AND NOT 3) + (w AND 3)"
    by (rule disjunctive_add [symmetric]) (simp add: bit_simps)
  ultimately show ?thesis by (metis add_diff_cancel_right')
qed

lemma round4: "i < 4096 \<Longrightarrow> j < 4 \<Longrightarrow> i - i mod 4 + j < (4096 :: nat)"
  by presburger

lemma block_clean_iff:
  assumes "unat A mod 4096 = 0" "unat A < 2 ^ 24"
  shows "block_clean B s (FW_ADDR B + A) \<longleftrightarrow> (\<forall>k < 4096. peek (chp B) (chip s) (A + of_nat k) = 0xff)"
proof -
  let ?p = "\<lambda>k. peek (chp B) (chip s) (A + of_nat k)"
  have base: "unat A + 4096 \<le> 2 ^ 24"
  proof -
    obtain q where q: "unat A = 4096 * q" using assms(1) by (metis mod_0_imp_dvd dvd_def)
    then show ?thesis using assms(2) by simp
  qed
  have word: "NOT (ld_word B s (FW_ADDR B + A + of_nat i)) = 0 \<longleftrightarrow> (\<forall>j < 4. ?p (i - i mod 4 + j) = 0xff)" if "i < 4096" for i
  proof -
    have ua: "unat (A + of_nat i) = unat A + i"
      using base that by (subst unat_add_lem [THEN iffD1]) (simp_all add: unat_of_nat)
    have "unat (FW_ADDR B + (A + of_nat i)) mod 4 = unat (FW_ADDR B + (A + of_nat i)) mod 4096 mod 4" by (simp add: mod_mod_cancel)
    also have "\<dots> = (unat A + i) mod 4" unfolding FW_ADDR_fff ua by (simp add: mod_mod_cancel)
    also have "\<dots> = i mod 4"
    proof -
      have "unat A mod 4 = unat A mod 4096 mod 4" by (simp add: mod_mod_cancel)
      then have "unat A mod 4 = 0" using assms(1) by simp
      then show ?thesis by presburger
    qed
    finally have r: "unat (FW_ADDR B + A + of_nat i) mod 4 = i mod 4" by (simp add: add.assoc)
    have "of_nat (i - i mod 4) = (of_nat i - of_nat (i mod 4) :: u32)" by (simp add: of_nat_diff)
    then have at: "(FW_ADDR B + A + of_nat i) AND NOT 3 = FW_ADDR B + A + of_nat (i - i mod 4)"
      unfolding and_not_3 [OF r] by simp
    have "ld B s (FW_ADDR B + A + of_nat (i - i mod 4) + of_nat j) = ?p (i - i mod 4 + j)" if "j < 4" for j
    proof -
      have "i - i mod 4 + j < 4096" using \<open>i < 4096\<close> that by (rule round4)
      from ld_block [OF base this, of B s] show ?thesis by (simp only: of_nat_add add.assoc)
    qed
    then show ?thesis unfolding ld_word_clean at by simp
  qed
  show ?thesis
  proof
    assume c: "block_clean B s (FW_ADDR B + A)"
    show "\<forall>k < 4096. ?p k = 0xff"
    proof (intro allI impI)
      fix k :: nat assume k: "k < 4096"
      then have "NOT (ld_word B s (FW_ADDR B + A + of_nat k)) = 0"
        using c by (auto simp: block_clean_def list_all_iff ERASE_BLK_def)
      then have "\<forall>j < 4. ?p (k - k mod 4 + j) = 0xff" using word [OF k] by simp
      then have "?p (k - k mod 4 + k mod 4) = 0xff" by (metis mod_less_divisor zero_less_numeral)
      then show "?p k = 0xff" by simp
    qed
  next
    assume a: "\<forall>k < 4096. ?p k = 0xff"
    have "\<forall>j < 4. ?p (i - i mod 4 + j) = 0xff" if "i < 4096" for i
    proof (intro allI impI)
      fix j :: nat assume "j < 4"
      with that have "i - i mod 4 + j < 4096" by (rule round4)
      with a show "?p (i - i mod 4 + j) = 0xff" by blast
    qed
    then show "block_clean B s (FW_ADDR B + A)"
      using word by (auto simp: block_clean_def list_all_iff ERASE_BLK_def)
  qed
qed

section \<open>The driver on a chip\<close>

text \<open>sfc_unlock for a maker, once the chip has been identified.\<close>

definition unlock_by :: "'f board \<Rightarrow> u32 \<Rightarrow> ('f, unit) fm" where
  "unlock_by B id1 = (let msk = (if id1 = 0xef \<or> id1 = 0xc8 then 0xfc else 0xbc) in
     if id1 = 0xef \<or> id1 = 0xc8 \<or> id1 = 0xc2 then
       bnd (sfc_read_status (chp B) 0) (\<lambda>sr1.
       bnd (if msk = 0xfc then bnd (sfc_cmd_read (chp B) 0 0x35 1) (\<lambda>v. ret (drop_bit 24 v)) else ret 0) (\<lambda>sr2.
         if id1 = 0xc8 then
           let sr1 = sr1 OR push_bit 8 sr2
           in cwhen (sr1 AND 0x40fc \<noteq> 0) (sfc_cmd_write (chp B) 0 0x01 (sr1 AND NOT 0x40fc) 2)
         else thn (cwhen (sr1 AND msk \<noteq> 0) (sfc_cmd_write (chp B) 0 0x01 (sr1 AND NOT msk) 1))
                  (cwhen (sr2 AND 0x40 \<noteq> 0) (sfc_cmd_write (chp B) 0 0x31 (sr2 AND NOT 0x40) 1))))
     else ret ())"

lemma sfc_unlock_by:
  "sfc_unlock B = bnd (gets flash_id) (\<lambda>id. if NOT id \<noteq> 0 then ret () else bnd (sfc_readid (chp B) 0) (\<lambda>id.
     thn (modify (\<lambda>s. s\<lparr>flash_id := id\<rparr>)) (thn (unlock_by B (drop_bit 16 id)) (sfc_spiread (chp B) 0))))"
  unfolding sfc_unlock_def unlock_by_def Let_def ..

lemma cwhen_False: "cwhen False m = ret ()"
  by (simp add: cwhen_def)

lemma thn_skip: "thn m (ret ()) = m"
  by (simp add: thn_def bnd_def ret_def fun_eq_iff split: outcome.split)

lemma unlock_makers:
  "id1 = 0xef \<Longrightarrow> unlock_by B id1 = bnd (sfc_read_status (chp B) 0) (\<lambda>v.
     bnd (bnd (sfc_cmd_read (chp B) 0 0x35 1) (\<lambda>v. ret (drop_bit 24 v))) (\<lambda>w.
       thn (cwhen (v AND 0xfc \<noteq> 0) (sfc_cmd_write (chp B) 0 0x01 (v AND NOT 0xfc) 1))
           (cwhen (w AND 0x40 \<noteq> 0) (sfc_cmd_write (chp B) 0 0x31 (w AND NOT 0x40) 1))))"
  "id1 = 0xc8 \<Longrightarrow> unlock_by B id1 = bnd (sfc_read_status (chp B) 0) (\<lambda>v.
     bnd (bnd (sfc_cmd_read (chp B) 0 0x35 1) (\<lambda>v. ret (drop_bit 24 v))) (\<lambda>w.
       cwhen ((v OR push_bit 8 w) AND 0x40fc \<noteq> 0) (sfc_cmd_write (chp B) 0 0x01 ((v OR push_bit 8 w) AND NOT 0x40fc) 2)))"
  "id1 = 0xc2 \<Longrightarrow> unlock_by B id1 = bnd (sfc_read_status (chp B) 0) (\<lambda>v.
     cwhen (v AND 0xbc \<noteq> 0) (sfc_cmd_write (chp B) 0 0x01 (v AND NOT 0xbc) 1))"
  by (simp_all add: unlock_by_def Let_def bnd_ret cwhen_False thn_skip)

locale loader_flash = nor_flash "chp B" wel busy sz maker srs free
  for B :: "'f board" and wel :: "'f \<Rightarrow> bool" and busy :: "'f \<Rightarrow> nat" and sz :: nat and maker :: u32
    and srs :: "'f \<Rightarrow> u32 \<times> u32" and free :: "u32 \<times> u32 \<Rightarrow> bool" +
  assumes blocks: "4096 dvd sz" and below_16M: "sz \<le> 2 ^ 24"
begin

text \<open>The chip's sectors can be unlocked, or are unlocked already.\<close>

definition unlockable :: "'f fdl \<Rightarrow> bool" where
  "unlockable s = ((flash_id s = -1 \<and> (maker = 0xef \<or> maker = 0xc8 \<or> maker = 0xc2)) \<or> free (srs (chip s)))"

text \<open>The states that sfc_unlock may reach from \<open>s\<close>: the contents of the flash stay.\<close>

definition idle_from :: "'f fdl \<Rightarrow> 'f fdl \<Rightarrow> bool" where
  "idle_from s t = (\<exists>c r i. t = s\<lparr>chip := c, sfcr := r, flash_id := i\<rparr> \<and> busy c = 0 \<and> cells c = cells (chip s))"

lemma idle_from_refl: "busy (chip s) = 0 \<Longrightarrow> idle_from s s"
  unfolding idle_from_def by (intro exI [of _ "chip s"] exI [of _ "sfcr s"] exI [of _ "flash_id s"]) simp

lemma idle_from_busy: "idle_from s t \<Longrightarrow> busy (chip t) = 0"
  by (auto simp: idle_from_def)

lemma idle_from_id: "idle_from s t \<Longrightarrow> idle_from s (t\<lparr>flash_id := i\<rparr>)"
  unfolding idle_from_def
proof (elim exE conjE)
  fix c r j assume c: "t = s\<lparr>chip := c, sfcr := r, flash_id := j\<rparr>" "busy c = 0" "cells c = cells (chip s)"
  show "\<exists>c r j. t\<lparr>flash_id := i\<rparr> = s\<lparr>chip := c, sfcr := r, flash_id := j\<rparr> \<and> busy c = 0 \<and> cells c = cells (chip s)"
    using c by (intro exI [of _ c] exI [of _ r] exI [of _ i]) simp
qed

lemma idle_from_chip:
  assumes "idle_from s t" "busy c = 0" "cells c = cells (chip t)"
  shows "idle_from s (t\<lparr>chip := c, sfcr := r\<rparr>)"
proof -
  obtain c' r' i where t: "t = s\<lparr>chip := c', sfcr := r', flash_id := i\<rparr>" "cells c' = cells (chip s)"
    using assms(1) by (auto simp: idle_from_def)
  have "t\<lparr>chip := c, sfcr := r\<rparr> = s\<lparr>chip := c, sfcr := r, flash_id := i\<rparr>" unfolding t by (cases s) simp
  moreover have "cells c = cells (chip s)" using assms(3) t by simp
  ultimately show ?thesis unfolding idle_from_def using assms(2) by blast
qed

lemma idle_query:
  assumes "idle_from s t" "cm = 0x9f \<and> n = 3 \<or> cm = 0x35 \<and> n = 1"
    and "\<And>v u. idle_from s u \<Longrightarrow> srs (chip u) = srs (chip t) \<Longrightarrow> (cm = 0x9f \<longrightarrow> drop_bit 24 v = maker) \<Longrightarrow>
      (cm = 0x35 \<and> (maker = 0xef \<or> maker = 0xc8) \<longrightarrow> drop_bit 24 v = snd (srs (chip t))) \<Longrightarrow> Q v u"
  shows "wp (sfc_cmd_read (chp B) 0 cm n) Q E t"
  by (rule wp_query [OF idle_from_busy [OF assms(1)] assms(2)], rule assms(3), rule idle_from_chip [OF assms(1)]) simp_all

lemma idle_status:
  assumes "idle_from s t"
    and "\<And>v u. idle_from s u \<Longrightarrow> srs (chip u) = srs (chip t) \<Longrightarrow> v AND 0xfc = fst (srs (chip t)) \<Longrightarrow> Q v u"
  shows "wp (sfc_read_status (chp B) 0) Q E t"
  by (rule wp_status, rule assms(2), rule idle_from_chip [OF assms(1)]) (simp_all add: idle_from_busy [OF assms(1)])

lemma idle_write:
  assumes "idle_from s t"
    and "\<And>u. idle_from s u \<Longrightarrow> fst (srs (chip u)) = ucast (ucast v :: byte) AND 0xfc \<Longrightarrow>
      snd (srs (chip u)) AND NOT (snd (srs (chip t))) = 0 \<Longrightarrow> Q () u"
  shows "wp (sfc_cmd_write (chp B) 0 0x01 v 1) Q E t"
proof (rule wp_protect [OF idle_from_busy [OF assms(1)]])
  fix c r
  assume "busy c = 0" "cells c = cells (chip t)" "fst (srs c) = ucast (ucast v :: byte) AND 0xfc \<and> snd (srs c) AND NOT (snd (srs (chip t))) = 0"
  then show "Q () (t\<lparr>chip := c, sfcr := r\<rparr>)" by (intro assms(2) idle_from_chip [OF assms(1)]) simp_all
qed (simp, drule write_status, simp_all)

lemma idle_write_both:
  assumes "idle_from s t" "maker = 0xc8"
    and "\<And>u. idle_from s u \<Longrightarrow> srs (chip u) = (ucast (ucast v :: byte) AND 0xfc, ucast (ucast (drop_bit 8 v) :: byte)) \<Longrightarrow> Q () u"
  shows "wp (sfc_cmd_write (chp B) 0 0x01 v 2) Q E t"
proof (rule wp_protect [OF idle_from_busy [OF assms(1)]])
  fix c r
  assume "busy c = 0" "cells c = cells (chip t)" "srs c = (ucast (ucast v :: byte) AND 0xfc, ucast (ucast (drop_bit 8 v) :: byte))"
  then show "Q () (t\<lparr>chip := c, sfcr := r\<rparr>)" by (intro assms(3) idle_from_chip [OF assms(1)]) simp_all
qed (simp, drule write_both, simp_all add: assms(2))

lemma idle_write_second:
  assumes "idle_from s t" "maker = 0xef"
    and "\<And>u. idle_from s u \<Longrightarrow> srs (chip u) = (fst (srs (chip t)), ucast (ucast v :: byte)) \<Longrightarrow> Q () u"
  shows "wp (sfc_cmd_write (chp B) 0 0x31 v 1) Q E t"
proof (rule wp_protect [OF idle_from_busy [OF assms(1)]])
  fix c r
  assume "busy c = 0" "cells c = cells (chip t)" "srs c = (fst (srs (chip t)), ucast (ucast v :: byte))"
  then show "Q () (t\<lparr>chip := c, sfcr := r\<rparr>)" by (intro assms(3) idle_from_chip [OF assms(1)]) simp_all
qed (simp, drule write_status2, simp_all add: assms(2))

text \<open>Unlocking each maker's chip, once its status registers have been read.\<close>

lemma wp_unlock_c8:
  assumes "idle_from s t" "maker = 0xc8" "v AND 0xfc = fst (srs (chip t))" "w = snd (srs (chip t))"
    and Q: "\<And>u. idle_from s u \<Longrightarrow> free (srs (chip u)) \<Longrightarrow> Q () u"
  shows "wp (cwhen ((v OR push_bit 8 w) AND 0x40fc \<noteq> 0)
    (sfc_cmd_write (chp B) 0 0x01 ((v OR push_bit 8 w) AND NOT 0x40fc) 2)) Q E t"
proof (cases "(v OR push_bit 8 w) AND 0x40fc = 0")
  case True
  then have "unlocked maker (srs (chip t))" using unlock_values(6) [OF True] assms(2-4) by (simp add: unlocked_def)
  then show ?thesis using Q [OF assms(1)] opens_up True by (simp add: wp_cwhen)
next
  case False
  have "wp (sfc_cmd_write (chp B) 0 0x01 ((v OR push_bit 8 w) AND NOT 0x40fc) 2) Q E t"
  proof (rule idle_write_both [OF assms(1,2)], rule Q, assumption, rule opens_up)
    fix u
    assume "srs (chip u) = (ucast (ucast ((v OR push_bit 8 w) AND NOT 0x40fc) :: byte) AND 0xfc,
      ucast (ucast (drop_bit 8 ((v OR push_bit 8 w) AND NOT 0x40fc)) :: byte))"
    then show "unlocked maker (srs (chip u))"
      unfolding unlocked_def if_P [OF disjI2 [OF assms(2)]]
      using unlock_values(4,5) [of "v OR push_bit 8 w"] by (simp add: and.assoc)
  qed
  then show ?thesis using False by (simp add: wp_cwhen)
qed

lemma wp_unlock_ef:
  assumes "idle_from s t" "maker = 0xef" "v AND 0xfc = fst (srs (chip t))" "w = snd (srs (chip t))"
    and Q: "\<And>u. idle_from s u \<Longrightarrow> free (srs (chip u)) \<Longrightarrow> Q () u"
  shows "wp (thn (cwhen (v AND 0xfc \<noteq> 0) (sfc_cmd_write (chp B) 0 0x01 (v AND NOT 0xfc) 1))
    (cwhen (w AND 0x40 \<noteq> 0) (sfc_cmd_write (chp B) 0 0x31 (w AND NOT 0x40) 1))) Q E t"
proof -
  have second: "wp (cwhen (w AND 0x40 \<noteq> 0) (sfc_cmd_write (chp B) 0 0x31 (w AND NOT 0x40) 1)) Q E u"
    if u: "idle_from s u" "fst (srs (chip u)) AND 0xfc = 0" "w AND 0x40 = 0 \<longrightarrow> snd (srs (chip u)) AND 0x40 = 0" for u
  proof (cases "w AND 0x40 = 0")
    case True
    then have "unlocked maker (srs (chip u))" using u assms(2) by (simp add: unlocked_def)
    then show ?thesis using Q [OF u(1)] opens_up True by (simp add: wp_cwhen)
  next
    case False
    have "wp (sfc_cmd_write (chp B) 0 0x31 (w AND NOT 0x40) 1) Q E u"
    proof (rule idle_write_second [OF u(1) assms(2)], rule Q, assumption, rule opens_up)
      fix q
      assume "srs (chip q) = (fst (srs (chip u)), ucast (ucast (w AND NOT 0x40) :: byte))"
      then show "unlocked maker (srs (chip q))"
        unfolding unlocked_def if_P [OF disjI1 [OF assms(2)]] using unlock_values(3) [of w] u(2) by simp
    qed
    then show ?thesis using False by (simp add: wp_cwhen)
  qed
  show ?thesis
    unfolding wp_thn
  proof (cases "v AND 0xfc = 0")
    case True
    then show "wp (cwhen (v AND 0xfc \<noteq> 0) (sfc_cmd_write (chp B) 0 0x01 (v AND NOT 0xfc) 1))
      (\<lambda>_. wp (cwhen (w AND 0x40 \<noteq> 0) (sfc_cmd_write (chp B) 0 0x31 (w AND NOT 0x40) 1)) Q E) E t"
      using second [OF assms(1)] assms(3,4) by (simp add: wp_cwhen)
  next
    case False
    have "wp (sfc_cmd_write (chp B) 0 0x01 (v AND NOT 0xfc) 1)
      (\<lambda>_. wp (cwhen (w AND 0x40 \<noteq> 0) (sfc_cmd_write (chp B) 0 0x31 (w AND NOT 0x40) 1)) Q E) E t"
      by (rule idle_write [OF assms(1)], rule second, assumption)
        (use unlock_values(1) [of v] and_sub assms(4) in \<open>auto simp: and.assoc\<close>)
    then show "wp (cwhen (v AND 0xfc \<noteq> 0) (sfc_cmd_write (chp B) 0 0x01 (v AND NOT 0xfc) 1))
      (\<lambda>_. wp (cwhen (w AND 0x40 \<noteq> 0) (sfc_cmd_write (chp B) 0 0x31 (w AND NOT 0x40) 1)) Q E) E t"
      using False by (simp add: wp_cwhen)
  qed
qed

lemma wp_unlock_c2:
  assumes "idle_from s t" "maker = 0xc2" "v AND 0xfc = fst (srs (chip t))"
    and Q: "\<And>u. idle_from s u \<Longrightarrow> free (srs (chip u)) \<Longrightarrow> Q () u"
  shows "wp (cwhen (v AND 0xbc \<noteq> 0) (sfc_cmd_write (chp B) 0 0x01 (v AND NOT 0xbc) 1)) Q E t"
proof (cases "v AND 0xbc = 0")
  case True
  have "fst (srs (chip t)) AND 0xbc = v AND 0xbc" unfolding assms(3) [symmetric] by (simp add: and.assoc)
  then have "unlocked maker (srs (chip t))" using True assms(2) by (simp add: unlocked_def)
  then show ?thesis using Q [OF assms(1)] opens_up True by (simp add: wp_cwhen)
next
  case False
  have "wp (sfc_cmd_write (chp B) 0 0x01 (v AND NOT 0xbc) 1) Q E t"
  proof (rule idle_write [OF assms(1)], rule Q, assumption, rule opens_up)
    fix u
    assume "fst (srs (chip u)) = ucast (ucast (v AND NOT 0xbc) :: byte) AND 0xfc"
    then show "unlocked maker (srs (chip u))"
      using unlock_values(2) [of v] assms(2) by (simp add: unlocked_def and.assoc)
  qed
  then show ?thesis using False by (simp add: wp_cwhen)
qed

lemma wp_unlock_by:
  assumes "idle_from s t" "maker = 0xef \<or> maker = 0xc8 \<or> maker = 0xc2 \<or> free (srs (chip t))"
    and Q: "\<And>u. idle_from s u \<Longrightarrow> free (srs (chip u)) \<Longrightarrow> Q () u"
  shows "wp (unlock_by B maker) Q E t"
proof -
  consider "maker = 0xef" | "maker = 0xc8" | "maker = 0xc2" | "maker \<noteq> 0xef" "maker \<noteq> 0xc8" "maker \<noteq> 0xc2" "free (srs (chip t))"
    using assms(2) by blast
  then show ?thesis
  proof cases
    case 1
    show ?thesis
      unfolding unlock_makers(1) [OF 1] wp_bnd wp_ret
    proof (rule idle_status [OF assms(1)], rule idle_query)
      fix v u v' u'
      assume u: "srs (chip u) = srs (chip t)" "v AND 0xfc = fst (srs (chip t))"
        and u': "idle_from s u'" "srs (chip u') = srs (chip u)"
        and w: "(0x35 :: u32) = 0x35 \<and> (maker = 0xef \<or> maker = 0xc8) \<longrightarrow> drop_bit 24 v' = snd (srs (chip u))"
      show "wp (thn (cwhen (v AND 0xfc \<noteq> 0) (sfc_cmd_write (chp B) 0 0x01 (v AND NOT 0xfc) 1))
          (cwhen (drop_bit 24 v' AND 0x40 \<noteq> 0) (sfc_cmd_write (chp B) 0 0x31 (drop_bit 24 v' AND NOT 0x40) 1))) Q E u'"
        by (rule wp_unlock_ef [OF u'(1) 1]) (use u u' w 1 Q in simp_all)
    qed simp_all
  next
    case 2
    show ?thesis
      unfolding unlock_makers(2) [OF 2] wp_bnd wp_ret
    proof (rule idle_status [OF assms(1)], rule idle_query)
      fix v u v' u'
      assume u: "srs (chip u) = srs (chip t)" "v AND 0xfc = fst (srs (chip t))"
        and u': "idle_from s u'" "srs (chip u') = srs (chip u)"
        and w: "(0x35 :: u32) = 0x35 \<and> (maker = 0xef \<or> maker = 0xc8) \<longrightarrow> drop_bit 24 v' = snd (srs (chip u))"
      show "wp (cwhen ((v OR push_bit 8 (drop_bit 24 v')) AND 0x40fc \<noteq> 0)
          (sfc_cmd_write (chp B) 0 0x01 ((v OR push_bit 8 (drop_bit 24 v')) AND NOT 0x40fc) 2)) Q E u'"
        by (rule wp_unlock_c8 [OF u'(1) 2]) (use u u' w 2 Q in simp_all)
    qed simp_all
  next
    case 3
    show ?thesis
      unfolding unlock_makers(3) [OF 3] wp_bnd
    proof (rule idle_status [OF assms(1)])
      fix v u
      assume u: "idle_from s u" "srs (chip u) = srs (chip t)" "v AND 0xfc = fst (srs (chip t))"
      show "wp (cwhen (v AND 0xbc \<noteq> 0) (sfc_cmd_write (chp B) 0 0x01 (v AND NOT 0xbc) 1)) Q E u"
        by (rule wp_unlock_c2 [OF u(1) 3]) (use u Q in simp_all)
    qed
  next
    case 4
    then show ?thesis using Q [OF assms(1)] by (simp add: unlock_by_def wp_ret)
  qed
qed

lemma wp_unlock:
  assumes "busy (chip s) = 0" "unlockable s"
    and "\<And>c r i. busy c = 0 \<Longrightarrow> cells c = cells (chip s) \<Longrightarrow> free (srs c) \<Longrightarrow> Q () (s\<lparr>chip := c, sfcr := r, flash_id := i\<rparr>)"
  shows "wp (sfc_unlock B) Q E s"
proof -
  have Q: "idle_from s t \<Longrightarrow> free (srs (chip t)) \<Longrightarrow> Q () t" for t using assms(3) by (auto simp: idle_from_def)
  note s = idle_from_refl [OF assms(1)]
  show ?thesis
  proof (cases "flash_id s = -1")
    case False
    then have "NOT (flash_id s) \<noteq> 0" by (metis bit.double_compl bit.compl_zero)
    moreover have "free (srs (chip s))" using assms(2) False by (simp add: unlockable_def)
    ultimately show ?thesis unfolding sfc_unlock_def wp_bnd wp_gets by (simp add: wp_ret Q [OF s])
  next
    case True
    have fin: "wp (sfc_spiread (chp B) 0) Q E u" if "idle_from s u" "free (srs (chip u))" for u
    proof (rule wp_spiread)
      fix r
      have "idle_from s (u\<lparr>chip := chip u, sfcr := r\<rparr>)" by (rule idle_from_chip [OF that(1) idle_from_busy [OF that(1)] refl])
      then show "Q () (u\<lparr>sfcr := r\<rparr>)" using Q that by simp
    qed
    have n: "NOT (flash_id s) = 0" by (simp add: True)
    show ?thesis
      unfolding sfc_unlock_by sfc_readid_def wp_bnd wp_gets n
    proof (simp only: refl not_True_eq_False if_False wp_bnd, rule idle_query [OF s])
      fix v u
      assume u: "idle_from s u" "srs (chip u) = srs (chip s)" and "(0x9f :: u32) = 0x9f \<longrightarrow> drop_bit 24 v = maker"
      then have id: "drop_bit 16 (drop_bit 8 v) = maker" by simp
      let ?u = "u\<lparr>flash_id := drop_bit 8 v\<rparr>"
      have "wp (unlock_by B maker) (\<lambda>_. wp (sfc_spiread (chp B) 0) Q E) E ?u"
        by (rule wp_unlock_by [OF idle_from_id [OF u(1)]]) (use assms(2) u(2) fin in \<open>auto simp: unlockable_def\<close>)
      then show "wp (ret (drop_bit 8 v)) (\<lambda>a. wp (thn (modify (flash_id_update (\<lambda>_. a)))
          (thn (unlock_by B (drop_bit 16 a)) (sfc_spiread (chp B) 0))) Q E) E u"
        by (simp only: wp_ret wp_thn wp_modify id)
    qed simp
  qed
qed

text \<open>What the loader reads in the flash are the cells of the chip.\<close>

lemma cells_peek: "unat x < sz \<Longrightarrow> cells f x = peek (chp B) f x"
  by (simp add: cells_of_def)

lemma ld_cells:
  assumes "unat x < sz"
  shows "ld B s (FW_ADDR B + x) = cells (chip s) x"
proof -
  have "unat x < 2 ^ 24" using assms below_16M by simp
  then show ?thesis using assms by (simp add: ld_flash in_flash_iff cells_peek)
qed

lemma unat_plus: "unat (A :: u32) + n \<le> sz \<Longrightarrow> i < n \<Longrightarrow> unat (A + of_nat i) = unat A + i"
  using below_16M by (subst unat_add_lem [THEN iffD1]) (simp_all add: unat_of_nat)

lemma ld_cells_at: "unat (A :: u32) + n \<le> sz \<Longrightarrow> i < n \<Longrightarrow> ld B s (FW_ADDR B + A + of_nat i) = cells (chip s) (A + of_nat i)"
  using ld_cells [of "A + of_nat i" s] unat_plus [of A n i] by (simp add: add.assoc)

text \<open>An erase block that starts inside the chip ends inside it.\<close>

lemma whole_block:
  assumes "unat (A :: u32) < sz"
  shows "unat (A AND NOT 0xfff) + 4096 \<le> sz"
proof -
  obtain q where q: "sz = 4096 * q" using blocks by (auto simp: dvd_def)
  then have "unat A div 4096 < q" using assms by (simp add: div_less_iff_less_mult mult.commute)
  then have "4096 * (unat A div 4096) + 4096 \<le> 4096 * q" by linarith
  then show ?thesis unfolding unat_and_not_fff minus_mod_eq_mult_div q .
qed

lemma block_image_cells:
  assumes "unat base + 4096 \<le> sz" "off + length src + j \<le> 4096"
  shows "block_image (peek (chp B) f) base off src j = block_image (cells f) base off src j"
proof (rule nth_equalityI)
  fix i assume "i < length (block_image (peek (chp B) f) base off src j)"
  then have i: "i < 4096" by (simp add: length_block_image [OF assms(2)])
  then have "unat (base + of_nat i) < sz" using unat_plus [OF assms(1) i] assms(1) by simp
  then show "block_image (peek (chp B) f) base off src j ! i = block_image (cells f) base off src j ! i"
    unfolding nth_block_image [OF assms(2) i] by (simp add: cells_peek)
qed (simp add: length_block_image [OF assms(2)])

lemma block_clean_cells:
  assumes "unat A mod 4096 = 0" "unat A + 4096 \<le> sz"
  shows "block_clean B s (FW_ADDR B + A) \<longleftrightarrow> (\<forall>k < 4096. cells (chip s) (A + of_nat k) = 0xff)"
proof -
  have A: "unat A < 2 ^ 24" using assms(2) below_16M by simp
  have "unat (A + of_nat k) < sz" if "k < 4096" for k using unat_plus [OF assms(2) that] assms(2) that by simp
  then show ?thesis unfolding block_clean_iff [OF assms(1) A] by (simp add: cells_peek)
qed

lemma wp_write_check:
  assumes "busy (chip s) = 0" "free (srs (chip s))" "unat A + length src \<le> sz"
    and "\<And>c r v. busy c = 0 \<Longrightarrow> srs c = srs (chip s) \<Longrightarrow> cells c = prog (cells (chip s)) A src \<Longrightarrow>
      v = (if mbytes (cells c) A (length src) = src then 0 else 1) \<Longrightarrow> Q v (s\<lparr>chip := c, sfcr := r\<rparr>)"
  shows "wp (write_and_check B 0 A ba src (FW_ADDR B)) Q E s"
proof -
  have l: "unat A + length src \<le> 2 ^ 24" using assms(3) below_16M by simp
  show ?thesis
    unfolding write_and_check_def wp_thn
  proof (rule wp_sfc_write [OF assms(1-3) l], rule wp_spiread, unfold wp_gets)
    fix c r r'
    assume c: "busy c = 0" "img c = (prog (cells (chip s)) A src, srs (chip s))"
    let ?t = "s\<lparr>chip := c, sfcr := r, sfcr := r'\<rparr>"
    have "ld_bytes B ?t (FW_ADDR B + A) (length src) = mbytes (cells c) A (length src)"
      using ld_cells_at [OF assms(3), of _ ?t] by (simp add: ld_bytes_def mbytes_def)
    then show "Q (let d = ld_bytes B ?t (FW_ADDR B + A) (length src)
        in if (ba OR A) AND 3 = 0 then cmp_words d src else cmp_bytes d src) ?t"
      using assms(4) [OF c(1) _ _ refl, of r'] c(2) by (simp add: Let_def cmp_words_eq cmp_bytes_eq)
  qed
qed

text \<open>One block. The RAM may change in the block buffer only.\<close>

definition keeps :: "'f fdl \<Rightarrow> 'f fdl \<Rightarrow> bool" where
  "keeps s t = (\<exists>c r m. t = s\<lparr>chip := c, sfcr := r, ram := m\<rparr> \<and> busy c = 0 \<and> srs c = srs (chip s))"

lemma keeps_fields: "keeps s t \<Longrightarrow> busy (chip t) = 0 \<and> srs (chip t) = srs (chip s) \<and> dl_start t = dl_start s \<and> dl_size t = dl_size s \<and> dl_recv t = dl_recv s"
  by (auto simp: keeps_def)

lemma keeps_trans: "keeps s t \<Longrightarrow> keeps t u \<Longrightarrow> keeps s u"
proof -
  assume "keeps s t" "keeps t u"
  then obtain c r m c' r' m' where t: "t = s\<lparr>chip := c, sfcr := r, ram := m\<rparr>" "srs c = srs (chip s)"
    and u: "u = t\<lparr>chip := c', sfcr := r', ram := m'\<rparr>" "busy c' = 0" "srs c' = srs (chip t)" by (auto simp: keeps_def)
  have "u = s\<lparr>chip := c', sfcr := r', ram := m'\<rparr>" unfolding u(1) t(1) by (cases s) simp
  moreover have "srs c' = srs (chip s)" using u(3) t by simp
  ultimately show "keeps s u" using u(2) unfolding keeps_def by blast
qed

lemma keeps_chip: "busy c = 0 \<Longrightarrow> srs c = srs (chip s) \<Longrightarrow> keeps s (s\<lparr>chip := c, sfcr := r\<rparr>)"
  unfolding keeps_def by (intro exI [of _ c] exI [of _ r] exI [of _ "ram s"]) (cases s, simp)

lemma keeps_ram_chip: "busy c = 0 \<Longrightarrow> srs c = srs (chip s) \<Longrightarrow> keeps s (s\<lparr>ram := m, chip := c, sfcr := r\<rparr>)"
  unfolding keeps_def by (intro exI [of _ c] exI [of _ r] exI [of _ m]) (cases s, simp)

lemma wp_midst_block:
  fixes A :: u32
  assumes idle: "busy (chip s) = 0" "free (srs (chip s))" and src: "src \<noteq> []" "unat A + length src \<le> sz" "unat A mod 4096 + length src \<le> 4096"
    and buf: "buffer_ok B"
    and rem: "length src \<le> unat (dl_start s + dl_size s - (FW_ADDR B + A))"
    and Q: "\<And>t. keeps s t \<Longrightarrow> stored (cells (chip s)) A src
      (unat (dl_start s + dl_size s - (FW_ADDR B + A))) (cells (chip t)) \<Longrightarrow> Q 0 t"
  shows "wp (midst_block B (FW_ADDR B + A) src sa) Q E s"
proof -
  let ?addr = "FW_ADDR B + A" and ?m = "cells (chip s)" and ?rem = "unat (dl_start s + dl_size s - (FW_ADDR B + A))"
  have As: "unat A < sz" using src(1,2) by (cases src) auto
  then have A: "unat A < 2 ^ 24" using below_16M by simp
  obtain er d where scan: "flash_scan (ld B s) ?addr src 0 = (er, d)" by fastforce
  have rd: "ld B s (?addr + of_nat i) = ?m (A + of_nat i)" if "i < length src" for i by (rule ld_cells_at [OF src(2) that])
  have word: "A + of_nat (unat (x - A)) = x" for x by simp
  show ?thesis
  proof (cases er)
    case True
    define base where "base = A AND NOT 0xfff"
    define X where "X = block_image ?m base (unat A mod 4096) src (min (4096 - (unat A mod 4096 + length src)) (?rem - length src))"
    note blk = rewritten_block [OF src(3) rem A, of ?m, folded base_def, folded X_def]
    have len: "length X = 4096"
      unfolding X_def by (rule length_block_image) (use src(3) in simp)
    have b: "unat base + 4096 \<le> 2 ^ 24" "(?addr AND - ERASE_BLK) - FW_ADDR B = base" "base AND NOT 0xfff = base"
    proof -
      have e: "- ERASE_BLK = NOT 0xfff" by (simp add: ERASE_BLK_def)
      show "unat base + 4096 \<le> 2 ^ 24" unfolding base_def by (rule block_start(2) [OF A])
      show "(?addr AND - ERASE_BLK) - FW_ADDR B = base" unfolding e block_start(1) [OF A] base_def by simp
      show "base AND NOT 0xfff = base" by (simp add: base_def and.assoc)
    qed
    then have top: "drop_bit 24 base = 0" by (simp add: word_unat_eq_iff word_nat)
    have bs: "unat base + 4096 \<le> sz" "unat (base AND NOT 0xfff) + 4096 \<le> sz"
      using whole_block [OF As] unfolding b(3) by (simp_all add: base_def)
    have fill: "fill_block B ?addr src s = Ret () (s\<lparr>ram := mupd (ram s) (block_buf B) X\<rparr>)"
    proof -
      have "unat A mod 4096 + length src + min (4096 - (unat A mod 4096 + length src)) (?rem - length src) \<le> 4096" using src(3) by simp
      from fill_block_image [OF A src(3,1) rem, folded base_def, unfolded block_image_cells [OF bs(1) this]]
      show ?thesis unfolding X_def .
    qed
    have data: "ld_bytes B t (block_buf B) (unat ERASE_BLK) = X" if "ram t = mupd (ram s) (block_buf B) X" for t
    proof (rule nth_equalityI)
      fix i assume "i < length (ld_bytes B t (block_buf B) (unat ERASE_BLK))"
      then have i: "i < 4096" by (simp add: ld_bytes_def ERASE_BLK_def)
      have "\<not> in_flash B (block_buf B + of_nat i)" using buf i by (simp add: buffer_ok_def)
      then show "ld_bytes B t (block_buf B) (unat ERASE_BLK) ! i = X ! i"
        using i by (simp add: ld_bytes_def mbytes_def ERASE_BLK_def ld_def that mupd_def unat_of_nat len)
    qed (simp add: ld_bytes_def ERASE_BLK_def len)
    have "wp (thn (fill_block B ?addr src) (thn (sfc_erase (chp B) 0 base ERASE_CMD 3)
        (bnd (gets (\<lambda>s. ld_bytes B s (block_buf B) (unat ERASE_BLK))) (\<lambda>data.
           write_and_check B 0 base (block_buf B) data (FW_ADDR B))))) Q E s"
      unfolding wp_thn wp_bnd wp_gets ERASE_CMD_def
    proof (subst wp_def, simp only: fill outcome.case, rule wp_erase [OF _ _ top bs(2)])
      show "busy (chip (s\<lparr>ram := mupd (ram s) (block_buf B) X\<rparr>)) = 0" "free (srs (chip (s\<lparr>ram := mupd (ram s) (block_buf B) X\<rparr>)))"
        using idle by simp_all
      fix c r
      assume c: "busy c = 0" "img c = (erased (cells (chip (s\<lparr>ram := mupd (ram s) (block_buf B) X\<rparr>))) base,
        srs (chip (s\<lparr>ram := mupd (ram s) (block_buf B) X\<rparr>)))"
      let ?t = "s\<lparr>ram := mupd (ram s) (block_buf B) X, chip := c, sfcr := r\<rparr>"
      have X: "ld_bytes B ?t (block_buf B) (unat ERASE_BLK) = X" by (rule data) simp
      show "wp (write_and_check B 0 base (block_buf B) (ld_bytes B ?t (block_buf B) (unat ERASE_BLK)) (FW_ADDR B)) Q E ?t"
        unfolding X
      proof (rule wp_write_check)
        show "unat base + length X \<le> sz" using bs len by simp
        fix c' r' v
        assume c': "busy c' = 0" "srs c' = srs (chip ?t)" "cells c' = prog (cells (chip ?t)) base X"
          and v: "v = (if mbytes (cells c') base (length X) = X then 0 else (1 :: u32))"
        have p: "cells c' = prog (erased ?m base) base X" using c c' by simp
        then have "v = 0" using v blk(1) len by simp
        moreover have "Q 0 (s\<lparr>ram := mupd (ram s) (block_buf B) X, chip := c', sfcr := r'\<rparr>)"
          by (rule Q [OF keeps_ram_chip [OF c'(1)]]) (use blk(2) p c c'(2) in simp_all)
        ultimately show "Q v (?t\<lparr>chip := c', sfcr := r'\<rparr>)" by simp
      qed (use c idle in simp_all)
    qed
    then show ?thesis
      unfolding midst_block_def Let_def wp_bnd wp_gets scan prod.case if_P [OF True] b(2) block_buf_def [symmetric] .
  next
    case False
    note sc = flash_scan_False [of "ld B s" ?addr src 0 d, unfolded scan [symmetric]]
    have keep: "\<forall>i < length src. ?m (A + of_nat i) AND src ! i = src ! i"
      and same: "d = 0 \<Longrightarrow> \<forall>i < length src. ?m (A + of_nat i) = src ! i"
      using flash_scan_False [of "ld B s" ?addr src 0 d] scan False rd by auto
    have "wp (if d \<noteq> 0 then write_and_check B 0 A sa src (FW_ADDR B) else ret 0) Q E s"
    proof (cases "d = 0")
      case True
      have "Q 0 (s\<lparr>chip := chip s, sfcr := sfcr s\<rparr>)"
        by (rule Q [OF keeps_chip [OF idle(1) refl]]) (use same [OF True] word in \<open>auto simp: stored_def\<close>)
      then show ?thesis using True by (simp add: wp_ret)
    next
      case d: False
      show ?thesis
        unfolding if_P [OF d]
      proof (rule wp_write_check [OF idle src(2)])
        fix c r v
        assume c: "busy c = 0" "cells c = prog ?m A src" "srs c = srs (chip s)"
          and v: "v = (if mbytes (cells c) A (length src) = src then 0 else (1 :: u32))"
        have "prog ?m A src (A + of_nat i) = src ! i" if "i < length src" for i
        proof -
          have "i < 2 ^ 32" using that src(2) below_16M by simp
          then show ?thesis using keep that by (simp add: prog_def unat_of_nat)
        qed
        then have "mbytes (cells c) A (length src) = src"
          unfolding c(2) mbytes_def by (intro nth_equalityI) simp_all
        moreover have "stored ?m A src ?rem (cells c)"
          unfolding stored_def c(2) using keep word by (auto simp: prog_def)
        ultimately show "Q v (s\<lparr>chip := c, sfcr := r\<rparr>)" using Q [OF keeps_chip [OF c(1,3)]] v by simp
      qed
    qed
    then show ?thesis
      unfolding midst_block_def Let_def wp_bnd wp_gets scan prod.case if_not_P [OF False] add_diff_cancel_left' .
  qed
qed

lemma chunk_size:
  fixes A :: u32
  shows "midst_chunk (FW_ADDR B + A) src = min (length src) (4096 - unat A mod 4096)"
proof -
  have off: "(FW_ADDR B + A) AND (ERASE_BLK - 1) = of_nat (unat A mod 4096)"
    using and_of_nat [OF FW_ADDR_fff, of B A] by (simp add: ERASE_BLK_def)
  have "unat (ERASE_BLK - of_nat (unat A mod 4096)) = 4096 - unat A mod 4096"
    by (subst unat_sub) (simp_all add: ERASE_BLK_def word_le_nat_alt unat_of_nat)
  then show ?thesis by (auto simp: midst_chunk_def Let_def off)
qed

lemma wp_midst_flash:
  fixes A :: u32
  assumes "busy (chip s) = 0" "free (srs (chip s))" "unat A + length src \<le> sz" and buf: "buffer_ok B"
    and "length src \<le> unat (dl_start s + dl_size s - (FW_ADDR B + A))"
    and "\<And>t. keeps s t \<Longrightarrow> stored (cells (chip s)) A src
      (unat (dl_start s + dl_size s - (FW_ADDR B + A))) (cells (chip t)) \<Longrightarrow> Q BSL_REP_ACK t"
  shows "wp (midst_flash B (FW_ADDR B + A) src sa) Q E s"
  using assms(1-3,5,6)
proof (induction "length src" arbitrary: A src sa s rule: less_induct)
  case less
  let ?rem = "unat (dl_start s + dl_size s - (FW_ADDR B + A))" and ?m = "cells (chip s)"
  show ?case
  proof (cases "src = []")
    case True
    have "Q BSL_REP_ACK (s\<lparr>chip := chip s, sfcr := sfcr s\<rparr>)"
      by (rule less.prems(5) [OF keeps_chip [OF less.prems(1) refl]]) (simp add: stored_def True)
    then show ?thesis by (simp add: midst_flash.simps True wp_ret)
  next
    case False
    define n where "n = midst_chunk (FW_ADDR B + A) src"
    have n: "n \<le> length src" "0 < n" "unat A mod 4096 + n \<le> 4096"
      using midst_chunk_pos [OF False, of "FW_ADDR B + A"] by (auto simp: n_def chunk_size)
    have lt: "n < 2 ^ 24" using n(1,3) by simp
    have step: "unat (A + of_nat n) = unat A + n" if "n < length src"
      using less.prems(3) below_16M n lt that by (subst unat_add_lem [THEN iffD1]) (simp_all add: unat_of_nat)
    show ?thesis
      using False unfolding midst_flash.simps [of B "FW_ADDR B + A"] n_def [symmetric] Let_def
    proof (simp only: if_False wp_bnd, intro wp_midst_block)
      show "busy (chip s) = 0" "free (srs (chip s))" by (rule less.prems)+
      show "buffer_ok B" by (rule buf)
      fix t
      assume t: "keeps s t" "stored ?m A (take n src) ?rem (cells (chip t))"
      note f = keeps_fields [OF t(1)]
      have "wp (midst_flash B (FW_ADDR B + (A + of_nat n)) (drop n src) (sa + of_nat n)) Q E t"
      proof (cases "n = length src")
        case True
        then have "Q BSL_REP_ACK t" using less.prems(5) t by simp
        then show ?thesis using True by (simp add: midst_flash.simps wp_ret)
      next
        case False
        then have nl: "n < length src" using n(1) by simp
        have rem': "unat (dl_start t + dl_size t - (FW_ADDR B + (A + of_nat n))) = ?rem - n"
        proof -
          have "dl_start t + dl_size t - (FW_ADDR B + (A + of_nat n)) = (dl_start s + dl_size s - (FW_ADDR B + A)) - of_nat n"
            using f by simp
          then show ?thesis using less.prems(4) n lt by (simp only: unat_sub word_le_nat_alt) (simp add: unat_of_nat unat_sub word_le_nat_alt)
        qed
        show ?thesis
        proof (rule less.hyps)
          show "length (drop n src) < length src" using n by simp
          show "busy (chip t) = 0" "free (srs (chip t))" using f less.prems(2) by simp_all
          show "unat (A + of_nat n) + length (drop n src) \<le> sz" using step [OF nl] less.prems(3) n by simp
          show "length (drop n src) \<le> unat (dl_start t + dl_size t - (FW_ADDR B + (A + of_nat n)))"
            unfolding rem' using less.prems(4) by simp
          fix u
          assume u: "keeps t u" "stored (cells (chip t)) (A + of_nat n) (drop n src)
            (unat (dl_start t + dl_size t - (FW_ADDR B + (A + of_nat n)))) (cells (chip u))"
          have "stored ?m A (take n src @ drop n src) ?rem (cells (chip u))"
          proof (rule stored_append [OF t(2)])
            have l: "length (take n src) = n" using n by simp
            show "stored (cells (chip t)) (A + of_nat (length (take n src))) (drop n src)
                (?rem - length (take n src)) (cells (chip u))" using u(2) unfolding l rem' .
            show "?rem \<le> 2 ^ 32"
              using unsigned_less [of "dl_start s + dl_size s - (FW_ADDR B + A)", where ?'a = nat] by simp
          qed (use n less.prems(4) lt in simp_all)
          then show "Q BSL_REP_ACK u" using less.prems(5) [OF keeps_trans [OF t(1) u(1)]] by simp
        qed
      qed
      then show "wp (if (0 :: u32) \<noteq> 0 then ret BSL_REP_OPERATION_FAILED
          else midst_flash B (FW_ADDR B + A + of_nat n) (drop n src) (sa + of_nat n)) Q E t"
        by (simp add: add.assoc)
    qed (use False n less.prems in auto)
  qed
qed

lemma wp_erase_loop:
  fixes A :: u32
  assumes "busy (chip s) = 0" "free (srs (chip s))" "unat A mod 4096 = 0" "unat A + 4096 * k \<le> sz" "0 < k"
    and "\<And>t. keeps s t \<Longrightarrow> (\<forall>x. cells (chip t) x = (if unat (x - A) < 4096 * k then 0xff else cells (chip s) x)) \<Longrightarrow>
      Q BSL_REP_ACK t"
  shows "wp (erase_loop B k (FW_ADDR B + A) (FW_ADDR B + A + of_nat (4096 * k))) Q E s"
  using assms
proof (induction k arbitrary: A s)
  case (Suc k)
  let ?m = "cells (chip s)"
  have As: "unat A + 4096 \<le> sz" using Suc.prems(4) by simp
  have A: "unat A < 2 ^ 24" using As below_16M by simp
  have blk: "unat (A AND NOT 0xfff) + 4096 \<le> sz" by (rule whole_block) (use As in simp)
  have top: "drop_bit 24 A = 0" using A by (simp add: word_unat_eq_iff word_nat)
  have self: "A AND NOT 0xfff = A" unfolding and_not_fff and_of_nat [OF Suc.prems(3)] by simp
  have er: "erased ?m A x = (if unat (x - A) < 4096 then 0xff else ?m x)" for x
    using in_block [of x A] unfolding self by (simp only: erased_def self)
  have at: "unat (A + of_nat i - A) = i" if "i < 4096" for i using that by (simp add: unat_of_nat)
  \<comment> \<open>the rest of the loop, once the block is clean\<close>
  have rest: "wp (if \<not> True then ret BSL_REP_OPERATION_FAILED
       else let addr = FW_ADDR B + A + ERASE_BLK
         in if addr \<noteq> FW_ADDR B + A + of_nat (4096 * Suc k) then erase_loop B k addr (FW_ADDR B + A + of_nat (4096 * Suc k))
            else ret BSL_REP_ACK) Q E t"
    if t: "keeps s t" "\<forall>x. cells (chip t) x = (if unat (x - A) < 4096 then 0xff else ?m x)" for t
  proof (cases k)
    case 0
    then show ?thesis using Suc.prems(6) [OF t(1)] t(2) by (simp add: wp_ret ERASE_BLK_def)
  next
    case (Suc k')
    have step: "unat (A + 4096) = unat A + 4096"
      using Suc.prems(4) Suc below_16M by (subst unat_add_lem [THEN iffD1]) simp_all
    have fin: "FW_ADDR B + A + of_nat (4096 * Suc k) = FW_ADDR B + (A + 4096) + of_nat (4096 * k)" by (simp add: algebra_simps)
    have "4096 * k < 2 ^ 32" "0 < 4096 * k" using Suc.prems(4) Suc below_16M by simp_all
    then have "(of_nat (4096 * k) :: u32) \<noteq> 0" by (simp only: word_of_nat_eq_0_iff) (auto dest: nat_dvd_not_less)
    then have go: "FW_ADDR B + A + ERASE_BLK \<noteq> FW_ADDR B + A + of_nat (4096 * Suc k)"
      unfolding fin by (simp add: ERASE_BLK_def add.assoc)
    have "wp (erase_loop B k (FW_ADDR B + (A + 4096)) (FW_ADDR B + (A + 4096) + of_nat (4096 * k))) Q E t"
    proof (rule Suc.IH)
      show "busy (chip t) = 0" "free (srs (chip t))" using keeps_fields [OF t(1)] Suc.prems(2) by simp_all
      show "unat (A + 4096) mod 4096 = 0" using Suc.prems(3) by (simp add: step)
      show "unat (A + 4096) + 4096 * k \<le> sz" using Suc.prems(4) by (simp add: step)
      show "0 < k" using Suc by simp
      fix u
      assume u: "keeps t u" "\<forall>x. cells (chip u) x = (if unat (x - (A + 4096)) < 4096 * k then 0xff else cells (chip t) x)"
      have "cells (chip u) x = (if unat (x - A) < 4096 * Suc k then 0xff else ?m x)" for x
      proof -
        have "unat (x - (A + 4096)) = (if 4096 \<le> unat (x - A) then unat (x - A) - 4096 else 2 ^ 32 + unat (x - A) - 4096)"
          using unat_diff_add [of 4096 x A] by simp
        then show ?thesis using u(2) t(2) Suc.prems(4) below_16M by (auto split: if_splits)
      qed
      then show "Q BSL_REP_ACK u" using Suc.prems(6) [OF keeps_trans [OF t(1) u(1)]] by simp
    qed
    moreover have e: "FW_ADDR B + A + ERASE_BLK = FW_ADDR B + (A + 4096)" by (simp add: ERASE_BLK_def add.assoc)
    ultimately show ?thesis
      using go by (simp only: Let_def not_True_eq_False if_False if_True not_False_eq_True fin e)
  qed
  show ?case
    unfolding erase_loop.simps wp_bnd wp_gets
  proof (cases "block_clean B s (FW_ADDR B + A)")
    case True
    then have c: "\<forall>i < 4096. ?m (A + of_nat i) = 0xff" using block_clean_cells [OF Suc.prems(3) As, of s] by blast
    have "?m x = 0xff" if "unat (x - A) < 4096" for x using c [rule_format, OF that] by simp
    then have "wp (if \<not> True then ret BSL_REP_OPERATION_FAILED
       else let addr = FW_ADDR B + A + ERASE_BLK
         in if addr \<noteq> FW_ADDR B + A + of_nat (4096 * Suc k) then erase_loop B k addr (FW_ADDR B + A + of_nat (4096 * Suc k))
            else ret BSL_REP_ACK) Q E (s\<lparr>chip := chip s, sfcr := sfcr s\<rparr>)"
      by (intro rest keeps_chip Suc.prems(1)) simp_all
    then show "wp (if \<not> block_clean B s (FW_ADDR B + A) then thn (sfc_erase (chp B) 0 (FW_ADDR B + A - FW_ADDR B) ERASE_CMD 3)
           (thn (sfc_spiread (chp B) 0) (gets (\<lambda>s. block_clean B s (FW_ADDR B + A)))) else ret True)
        (\<lambda>a. wp (if \<not> a then ret BSL_REP_OPERATION_FAILED
       else let addr = FW_ADDR B + A + ERASE_BLK
         in if addr \<noteq> FW_ADDR B + A + of_nat (4096 * Suc k) then erase_loop B k addr (FW_ADDR B + A + of_nat (4096 * Suc k))
            else ret BSL_REP_ACK) Q E) E s"
      using True by (simp add: wp_ret)
  next
    case False
    show "wp (if \<not> block_clean B s (FW_ADDR B + A) then thn (sfc_erase (chp B) 0 (FW_ADDR B + A - FW_ADDR B) ERASE_CMD 3)
           (thn (sfc_spiread (chp B) 0) (gets (\<lambda>s. block_clean B s (FW_ADDR B + A)))) else ret True)
        (\<lambda>a. wp (if \<not> a then ret BSL_REP_OPERATION_FAILED
       else let addr = FW_ADDR B + A + ERASE_BLK
         in if addr \<noteq> FW_ADDR B + A + of_nat (4096 * Suc k) then erase_loop B k addr (FW_ADDR B + A + of_nat (4096 * Suc k))
            else ret BSL_REP_ACK) Q E) E s"
      unfolding if_P [OF False] wp_thn ERASE_CMD_def add_diff_cancel_left'
    proof (rule wp_erase [OF Suc.prems(1,2) top blk], rule wp_spiread, unfold wp_gets)
      fix c r r'
      assume c: "busy c = 0" "img c = (erased ?m A, srs (chip s))"
      let ?t = "s\<lparr>chip := c, sfcr := r, sfcr := r'\<rparr>"
      have clean: "block_clean B ?t (FW_ADDR B + A) = True"
        using block_clean_cells [OF Suc.prems(3) As, of ?t] c(2) at by (simp add: er)
      show "wp (if \<not> block_clean B ?t (FW_ADDR B + A) then ret BSL_REP_OPERATION_FAILED
       else let addr = FW_ADDR B + A + ERASE_BLK
         in if addr \<noteq> FW_ADDR B + A + of_nat (4096 * Suc k) then erase_loop B k addr (FW_ADDR B + A + of_nat (4096 * Suc k))
            else ret BSL_REP_ACK) Q E ?t"
        unfolding clean by (rule rest) (use c keeps_chip [OF c(1), of s] er in simp_all)
    qed
  qed
qed simp

lemma wp_data_midst:
  fixes s :: "'f fdl"
  assumes "busy (chip s) = 0" "unlockable s" "with_sfc B" "buffer_ok B"
    and "pkt16 s 2 \<le> dl_size s - dl_recv s" "in_flash B (dl_start s + dl_recv s)"
    and "unat (dl_start s + dl_recv s - FW_ADDR B) + unat (pkt16 s 2) \<le> sz"
  shows "wp (data_midst B) (\<lambda>r t. r = BSL_REP_ACK \<and> dl_recv t = dl_recv s + pkt16 s 2 \<and> free (srs (chip t)) \<and>
    stored (cells (chip s)) (dl_start s + dl_recv s - FW_ADDR B) (pkt_data s)
      (unat (dl_size s - dl_recv s)) (cells (chip t))) (\<lambda>_ _. False) s"
proof -
  let ?A = "dl_start s + dl_recv s - FW_ADDR B" and ?Q = "\<lambda>r t. r = BSL_REP_ACK \<and> dl_recv t = dl_recv s + pkt16 s 2 \<and> free (srs (chip t)) \<and>
    stored (cells (chip s)) (dl_start s + dl_recv s - FW_ADDR B) (pkt_data s)
      (unat (dl_size s - dl_recv s)) (cells (chip t))"
  have len: "length (pkt_data s) = unat (pkt16 s 2)" by (simp add: pkt_data_def)
  have A: "FW_ADDR B + ?A = dl_start s + dl_recv s" by simp
  let ?s = "s\<lparr>dl_recv := dl_recv s + pkt16 s 2, sfc_clk := sfc_clk s OR 3\<rparr>"
  have "wp (sfc_unlock B) (\<lambda>_. wp (midst_flash B (FW_ADDR B + ?A) (pkt_data s) (pkt_addr B + 4)) ?Q (\<lambda>_ _. False)) (\<lambda>_ _. False) ?s"
  proof (rule wp_unlock)
    show "busy (chip ?s) = 0" "unlockable ?s" using assms(1,2) by (simp_all add: unlockable_def)
    fix c r i
    assume c: "busy c = 0" "cells c = cells (chip ?s)" "free (srs c)"
    let ?t = "?s\<lparr>chip := c, sfcr := r, flash_id := i\<rparr>"
    have rem: "unat (dl_start ?t + dl_size ?t - (FW_ADDR B + ?A)) = unat (dl_size s - dl_recv s)" unfolding A by simp
    show "wp (midst_flash B (FW_ADDR B + ?A) (pkt_data s) (pkt_addr B + 4)) ?Q (\<lambda>_ _. False) ?t"
    proof (rule wp_midst_flash)
      show "busy (chip ?t) = 0" "free (srs (chip ?t))" using c by simp_all
      show "unat ?A + length (pkt_data s) \<le> sz" using assms(7) len by simp
      show "buffer_ok B" by (rule assms)
      show "length (pkt_data s) \<le> unat (dl_start ?t + dl_size ?t - (FW_ADDR B + ?A))"
        unfolding rem len using assms(5) by (simp add: word_le_nat_alt)
      fix u
      assume u: "keeps ?t u" "stored (cells (chip ?t)) ?A (pkt_data s)
        (unat (dl_start ?t + dl_size ?t - (FW_ADDR B + ?A))) (cells (chip u))"
      show "?Q BSL_REP_ACK u" using keeps_fields [OF u(1)] u(2) c(2,3) unfolding rem by simp
    qed
  qed
  then have "wp (thn sfc_init (thn (sfc_unlock B) (midst_flash B (FW_ADDR B + ?A) (pkt_data s) (pkt_addr B + 4)))) ?Q (\<lambda>_ _. False)
      (s\<lparr>dl_recv := dl_recv s + pkt16 s 2\<rparr>)"
    by (simp only: wp_thn sfc_init_def wp_modify) simp
  then have "wp (\<lambda>s'. thn sfc_init (thn (sfc_unlock B) (midst_flash B (FW_ADDR B + ?A) (pkt_data s) (pkt_addr B + 4)))
      (s\<lparr>dl_recv := dl_recv s + pkt16 s 2\<rparr>)) ?Q (\<lambda>_ _. False) s"
    by (simp only: wp_def)
  moreover have "data_midst B s = thn sfc_init (thn (sfc_unlock B) (midst_flash B (FW_ADDR B + ?A) (pkt_data s) (pkt_addr B + 4)))
      (s\<lparr>dl_recv := dl_recv s + pkt16 s 2\<rparr>)"
  proof -
    have "\<not> dl_size s - dl_recv s < pkt16 s 2" using assms(5) by (simp add: not_less)
    then show ?thesis unfolding A data_midst_def Let_def using assms(3,6) by (simp add: in_flash_def)
  qed
  ultimately show ?thesis by (simp add: wp_def)
qed

lemma wp_erase_flash:
  fixes s :: "'f fdl"
  assumes "busy (chip s) = 0" "unlockable s" "pkt16 s 2 = 8" "in_flash B (pkt32 s 4)"
    and "pkt32 s 4 AND 0xfff = 0" "pkt32 s 8 AND 0xfff = 0"
    and "unat (pkt32 s 4 - FW_ADDR B) + unat (pkt32 s 8) \<le> sz"
  shows "wp (dl_erase_flash B) (\<lambda>r t. r = BSL_REP_ACK \<and> (pkt32 s 8 \<noteq> 0 \<longrightarrow> free (srs (chip t))) \<and> (\<forall>x. cells (chip t) x =
      (if unat (x - (pkt32 s 4 - FW_ADDR B)) < unat (pkt32 s 8) then 0xff else cells (chip s) x))) (\<lambda>_ _. False) s"
proof -
  let ?A = "pkt32 s 4 - FW_ADDR B" and ?sz = "pkt32 s 8"
  let ?Q = "\<lambda>r t. r = BSL_REP_ACK \<and> (pkt32 s 8 \<noteq> 0 \<longrightarrow> free (srs (chip t))) \<and> (\<forall>x. cells (chip t) x =
      (if unat (x - ?A) < unat ?sz then 0xff else cells (chip s) x))"
  have A: "FW_ADDR B + ?A = pkt32 s 4" by simp
  have or: "(pkt32 s 4 OR ?sz) AND (ERASE_BLK - 1) = 0"
    using assms(5,6) by (simp add: ERASE_BLK_def word_ao_dist)
  have al: "unat ?A mod 4096 = 0" "unat ?sz mod 4096 = 0"
    using FW_ADDR_fff [of B ?A] arg_cong [OF assms(5), of unat] arg_cong [OF assms(6), of unat] unfolding A unat_and_fff by simp_all
  then obtain k where k: "unat ?sz = 4096 * k" by (metis mod_0_imp_dvd dvd_def)
  have "?sz = of_nat (unat ?sz)" by simp
  then have szk: "?sz = of_nat (4096 * k)" unfolding k .
  show ?thesis
  proof (cases "?sz = 0")
    case True
    then show ?thesis using assms(3,4) or by (simp add: wp_def dl_erase_flash_def Let_def in_flash_def)
  next
    case False
    then have k0: "0 < k" using k by (cases k) (auto simp: word_unat_eq_iff)
    have n: "unat ?sz div unat ERASE_BLK = k" by (simp add: k ERASE_BLK_def)
    let ?s = "s\<lparr>sfc_clk := sfc_clk s OR 3\<rparr>"
    have "wp (sfc_unlock B) (\<lambda>_. wp (erase_loop B k (FW_ADDR B + ?A) (FW_ADDR B + ?A + of_nat (4096 * k))) ?Q (\<lambda>_ _. False)) (\<lambda>_ _. False) ?s"
    proof (rule wp_unlock)
      show "busy (chip ?s) = 0" "unlockable ?s" using assms(1,2) by (simp_all add: unlockable_def)
      fix c r i
      assume c: "busy c = 0" "cells c = cells (chip ?s)" "free (srs c)"
      let ?t = "?s\<lparr>chip := c, sfcr := r, flash_id := i\<rparr>"
      show "wp (erase_loop B k (FW_ADDR B + ?A) (FW_ADDR B + ?A + of_nat (4096 * k))) ?Q (\<lambda>_ _. False) ?t"
      proof (rule wp_erase_loop)
        fix u
        assume "keeps ?t u" "\<forall>x. cells (chip u) x = (if unat (x - ?A) < 4096 * k then 0xff else cells (chip ?t) x)"
        then show "?Q BSL_REP_ACK u" using keeps_fields [of ?t u] c k by simp
      qed (use c al k k0 assms(7) in simp_all)
    qed
    then have "wp (thn sfc_init (thn (sfc_unlock B) (erase_loop B k (pkt32 s 4) (pkt32 s 4 + ?sz)))) ?Q (\<lambda>_ _. False) s"
      unfolding A szk [symmetric] by (simp only: wp_thn sfc_init_def wp_modify)
    moreover have "dl_erase_flash B s = thn sfc_init (thn (sfc_unlock B) (erase_loop B k (pkt32 s 4) (pkt32 s 4 + ?sz))) s"
      unfolding dl_erase_flash_def Let_def n using assms(3,4) or False by (simp add: in_flash_def)
    ultimately show ?thesis by (simp add: wp_def)
  qed
qed

end

section \<open>Nothing but a verified block is reported as written\<close>

text \<open>The driver leaves the RAM and the download state alone, whatever the controller does.\<close>

definition quiet :: "('f fdl, 'a) cm \<Rightarrow> bool" where
  "quiet m = (\<forall>s. wlp m (\<lambda>_ t. ram t = ram s) s)"

named_theorems quiet_intros \<open>statements that do not touch the RAM\<close>

lemma quiet_basic [quiet_intros]: "quiet (ret a)" "quiet (gets f)" "quiet (reg cs g)" "quiet no_fuel"
  by (simp_all add: quiet_def reg_def wlp_simps)

lemma quiet_bnd [quiet_intros]: "quiet m \<Longrightarrow> (\<And>a. quiet (f a)) \<Longrightarrow> quiet (bnd m f)"
proof (unfold quiet_def wlp_bnd, intro allI)
  fix s
  assume m: "\<forall>s. wlp m (\<lambda>_ t. ram t = ram s) s" and f: "\<And>a. \<forall>s. wlp (f a) (\<lambda>_ t. ram t = ram s) s"
  show "wlp m (\<lambda>a. wlp (f a) (\<lambda>_ t. ram t = ram s)) s"
    by (rule wlp_mono [OF m [rule_format]], rule wlp_mono [OF f [rule_format]]) simp
qed

lemma quiet_thn [quiet_intros]: "quiet m \<Longrightarrow> quiet n \<Longrightarrow> quiet (thn m n)"
  unfolding thn_def by (rule quiet_bnd)

lemma quiet_ready [quiet_intros]: "quiet (sfc_ready k n)"
  by (induction k n rule: sfc_ready.induct) (simp_all add: quiet_intros)

lemma quiet_exec [quiet_intros]: "quiet (modify (\<lambda>s. let (f, v) = exec H (sfcr s cs) (chip s)
    in s\<lparr>chip := f, sfcr := (sfcr s)(cs := (sfcr s cs)\<lparr>cmd := (cmd (sfcr s cs))(7 := v)\<rparr>)\<rparr>))"
  by (simp add: quiet_def wlp_simps Let_def split: prod.split)

lemma quiet_start [quiet_intros]: "quiet (sfc_start H cs)"
  unfolding sfc_start_def by (intro quiet_intros)

lemma quiet_driver [quiet_intros]:
  "quiet (sfc_clear H cs)" "quiet (sfc_cmdclr cs)" "quiet (sfc_write_mode cs)"
  "quiet (sfc_cmd_read H cs c n)" "quiet (sfc_read_status H cs)" "quiet (sfc_spiread H cs)"
  unfolding sfc_clear_def sfc_cmdclr_def sfc_write_mode_def sfc_cmd_read_def sfc_read_status_def sfc_spiread_def
  by (intro quiet_intros)+

lemma quiet_poll [quiet_intros]: "quiet (sfc_poll H cs msk up k)"
proof (induction k)
  case (Suc k)
  have "quiet (if b then ret () else sfc_poll H cs msk up k)" for b using Suc by (simp add: quiet_intros)
  then show ?case by (auto intro: quiet_intros)
qed (simp add: quiet_intros)

lemma quiet_erase [quiet_intros]: "quiet (sfc_erase H cs a c n)"
  unfolding sfc_erase_def sfc_write_enable_def SFC_WRITE_WAIT_def by (intro quiet_intros)

lemma wlp_checked:
  assumes "\<And>c r m. ram c = m \<Longrightarrow> mbytes (ld B c) (fw + a) (length buf) = buf \<Longrightarrow> Q 0 c" "\<And>v c. v \<noteq> 0 \<Longrightarrow> Q v c"
  shows "wlp (write_and_check B cs a ba buf fw) Q s"
proof -
  have "wlp (gets (\<lambda>s. let d = ld_bytes B s (fw + a) (length buf)
      in if (ba OR a) AND 3 = 0 then cmp_words d buf else cmp_bytes d buf)) Q t" for t
    using assms(1) [OF refl, of t] assms(2) [of 1 t]
    by (auto simp: wlp_simps Let_def cmp_words_eq cmp_bytes_eq ld_bytes_def)
  then show ?thesis unfolding write_and_check_def wlp_thn by (auto simp: wlp_def split: outcome.split)
qed

lemma block_verified:
  fixes A :: u32
  assumes src: "src \<noteq> []" "unat A + length src \<le> 2 ^ 24" "unat A mod 4096 + length src \<le> 4096"
    and buf: "buffer_ok B"
    and rem: "length src \<le> unat (dl_start s + dl_size s - (FW_ADDR B + A))"
  shows "wlp (midst_block B (FW_ADDR B + A) src sa) (\<lambda>r t. r = 0 \<longrightarrow> mbytes (ld B t) (FW_ADDR B + A) (length src) = src) s"
proof -
  let ?addr = "FW_ADDR B + A" and ?m = "peek (chp B) (chip s)" and ?rem = "unat (dl_start s + dl_size s - (FW_ADDR B + A))"
  let ?Q = "\<lambda>r t. r = 0 \<longrightarrow> mbytes (ld B t) ?addr (length src) = src"
  have A: "unat A < 2 ^ 24" using src(1,2) by (cases src) auto
  obtain er d where scan: "flash_scan (ld B s) ?addr src 0 = (er, d)" by fastforce
  show ?thesis
  proof (cases er)
    case True
    define base off where "base = A AND NOT 0xfff" and "off = unat A mod 4096"
    define j where "j = min (4096 - (off + length src)) (?rem - length src)"
    define X where "X = block_image ?m base off src j"
    have j: "off + length src + j \<le> 4096" using src(3) by (simp add: j_def off_def)
    have len: "length X = 4096" unfolding X_def by (rule length_block_image [OF j])
    have b: "(?addr AND - ERASE_BLK) - FW_ADDR B = base"
      using block_start(1) [OF A, of B] by (simp add: base_def ERASE_BLK_def)
    have A': "A = base + of_nat off" using block_start(3) [OF A] by (simp add: base_def off_def)
    have data: "ld_bytes B t (block_buf B) (unat ERASE_BLK) = X" if "ram t = mupd (ram s) (block_buf B) X" for t
    proof (rule nth_equalityI)
      fix i assume "i < length (ld_bytes B t (block_buf B) (unat ERASE_BLK))"
      then have i: "i < 4096" by (simp add: ld_bytes_def ERASE_BLK_def)
      have "\<not> in_flash B (block_buf B + of_nat i)" using buf i by (simp add: buffer_ok_def)
      then show "ld_bytes B t (block_buf B) (unat ERASE_BLK) ! i = X ! i"
        using i by (simp add: ld_bytes_def mbytes_def ERASE_BLK_def ld_def that mupd_def unat_of_nat len)
    qed (simp add: ld_bytes_def ERASE_BLK_def len)
    have slice: "mbytes f ?addr (length src) = src" if f: "mbytes f (FW_ADDR B + base) (length X) = X" for f
    proof (rule nth_equalityI)
      fix i assume "i < length (mbytes f ?addr (length src))"
      then have i: "i < length src" by simp
      then have o: "off + i < 4096" using src(3) by (simp add: off_def)
      have "mbytes f ?addr (length src) ! i = f (FW_ADDR B + base + of_nat (off + i))"
        using i by (simp add: mbytes_def A' add.assoc)
      also have "\<dots> = X ! (off + i)" using arg_cong [OF f, of "\<lambda>l. l ! (off + i)"] o len by (simp add: mbytes_def)
      also have "\<dots> = src ! i" unfolding X_def nth_block_image [OF j o] using i by simp
      finally show "mbytes f ?addr (length src) ! i = src ! i" .
    qed simp
    have fill: "fill_block B ?addr src s = Ret () (s\<lparr>ram := mupd (ram s) (block_buf B) X\<rparr>)"
      unfolding X_def base_def off_def j_def by (rule fill_block_image [OF A src(3,1) rem])
    have "wlp (thn (sfc_erase (chp B) 0 base ERASE_CMD 3) (bnd (gets (\<lambda>s. ld_bytes B s (block_buf B) (unat ERASE_BLK)))
        (\<lambda>data. write_and_check B 0 base (block_buf B) data (FW_ADDR B)))) ?Q (s\<lparr>ram := mupd (ram s) (block_buf B) X\<rparr>)"
      unfolding wlp_thn wlp_bnd wlp_gets
    proof (rule wlp_mono [OF quiet_erase [unfolded quiet_def, rule_format]])
      fix a :: unit and t :: "'a fdl"
      assume "ram t = ram (s\<lparr>ram := mupd (ram s) (block_buf B) X\<rparr>)"
      then have X: "ld_bytes B t (block_buf B) (unat ERASE_BLK) = X" by (intro data) simp
      show "wlp (write_and_check B 0 base (block_buf B) (ld_bytes B t (block_buf B) (unat ERASE_BLK)) (FW_ADDR B)) ?Q t"
        unfolding X by (rule wlp_checked) (use slice in auto)
    qed
    then have "wlp (thn (fill_block B ?addr src) (thn (sfc_erase (chp B) 0 base ERASE_CMD 3)
        (bnd (gets (\<lambda>s. ld_bytes B s (block_buf B) (unat ERASE_BLK))) (\<lambda>data.
           write_and_check B 0 base (block_buf B) data (FW_ADDR B))))) ?Q s"
      unfolding wlp_thn by (subst wlp_def) (simp add: fill)
    then show ?thesis
      unfolding midst_block_def Let_def wlp_bnd wlp_gets scan prod.case if_P [OF True] b block_buf_def [symmetric] .
  next
    case False
    have same: "d = 0 \<Longrightarrow> mbytes (ld B s) ?addr (length src) = src"
      using flash_scan_False [of "ld B s" ?addr src 0 d] scan False by (auto simp: mbytes_def intro: nth_equalityI)
    have "wlp (if d \<noteq> 0 then write_and_check B 0 A sa src (FW_ADDR B) else ret 0) ?Q s"
    proof (cases "d = 0")
      case True
      then show ?thesis using same by (simp add: wlp_ret)
    next
      case d: False
      show ?thesis unfolding if_P [OF d] by (rule wlp_checked) auto
    qed
    then show ?thesis
      unfolding midst_block_def Let_def wlp_bnd wlp_gets scan prod.case if_not_P [OF False] add_diff_cancel_left' .
  qed
qed

section \<open>Properties\<close>

definition sim_board :: "sim board" where
  "sim_board = nor.extend sim_nor \<lparr>chip_no = 1, chip_id = 0x65620000, rom = False, with_sfc = True,
     with_efuse = False, chipram_addr = 0x40000000, pkt_addr = 0x40008000, stack = (\<lambda>_. 0),
     call_entry = (\<lambda>_ _. None), efuse = (\<lambda>_. None)\<rparr>"

text \<open>A chip filled with 0x5a whose first 2 MB are locked, by both of its status registers.\<close>

definition locked_chip :: sim where
  "locked_chip = \<lparr>sim_mem = (\<lambda>_. 0x5a), sim_wel = False, sim_busy = 0, sim_regs = (0x38, 0x42)\<rparr>"

definition sim_fdl :: "u32 \<Rightarrow> u32 \<Rightarrow> byte list \<Rightarrow> sim fdl" where
  "sim_fdl start sz p = \<lparr>packet_temp = blit (\<lambda>_. 0) 0 p, rx = rx_init, tx = [], opens = [],
     ram = (\<lambda>_. 0), dl_start = start, dl_size = sz, dl_recv = 0,
     sfcr = (\<lambda>_. \<lparr>cmd_set = 0, soft_req = 0, tbuf_clr = 0, int_clr = 0, cmd = (\<lambda>_. 0), type_info = (\<lambda>_. 0)\<rparr>),
     chip = locked_chip, sfc_clk = 0, flash_id = -1\<rparr>"

lemma chp_sim [simp]: "chp sim_board = sim_nor"
  by (simp add: chp_def sim_board_def sim_nor_def nor.defs)

lemma sim_fields [simp]: "with_sfc sim_board" "FW_ADDR sim_board = 0x10000000" "chipram_addr sim_board = 0x40000000"
  by (simp_all add: sim_board_def sim_nor_def nor.defs FW_ADDR_def)

lemma sim_buffer: "buffer_ok sim_board"
proof -
  have "\<not> unat (0x40009000 + of_nat i - 0x10000000 :: u32) < 2 ^ 24" if "i < 4096" for i
  proof -
    have "unat (0x30009000 + of_nat i :: u32) = 0x30009000 + i"
      using that by (subst unat_add_lem [THEN iffD1]) (simp_all add: unat_of_nat)
    then show ?thesis by simp
  qed
  then show ?thesis by (simp add: buffer_ok_def block_buf_def in_flash_iff)
qed

interpretation sim_loader: loader_flash sim_board sim_wel sim_busy "0x400000" "0xef" sim_srs sim_free
proof (rule loader_flash.intro)
  show "nor_flash (chp sim_board) sim_wel sim_busy 0x400000 0xef sim_srs sim_free"
    unfolding chp_sim by (rule sim.nor_flash_axioms)
qed (simp add: loader_flash_axioms_def)

text \<open>
  C7: Downloading into the flash works on every chip of the usual command set, of any size up
  to 16 MB, that is unlocked or has not been identified yet and comes from one of the three
  makers whose protection sfc_unlock knows, however many sectors are locked: when a data packet
  lies inside the download and inside the chip, data_midst acknowledges it, the flash then
  reads back as the data, every byte of the chip outside the part of the download that is
  still to come is what it was, also those that share an erase block with it, and no sector of
  the chip is locked any more, as the next packet needs it. Of a chip with locked sectors
  nothing is supposed about programming and erasing.
\<close>

theorem flash_download:
  fixes s :: "'f fdl"
  assumes "nor_flash (chp B) wel busy sz maker srs free" "4096 dvd sz" "sz \<le> 2 ^ 24" "busy (chip s) = 0"
    and "(flash_id s = -1 \<and> (maker = 0xef \<or> maker = 0xc8 \<or> maker = 0xc2)) \<or> free (srs (chip s))"
    and "with_sfc B" "buffer_ok B"
    and "pkt16 s 2 \<le> dl_size s - dl_recv s" "in_flash B (dl_start s + dl_recv s)"
    and "unat (dl_start s + dl_recv s - FW_ADDR B) + unat (pkt16 s 2) \<le> sz"
  shows "\<exists>t. data_midst B s = Ret BSL_REP_ACK t \<and> dl_recv t = dl_recv s + pkt16 s 2 \<and> free (srs (chip t)) \<and>
    mbytes (ld B t) (dl_start s + dl_recv s) (unat (pkt16 s 2)) = pkt_data s \<and>
    (\<forall>x. unat (x - FW_ADDR B) < sz \<longrightarrow> unat (dl_size s - dl_recv s) \<le> unat (x - (dl_start s + dl_recv s)) \<longrightarrow> ld B t x = ld B s x)"
proof -
  let ?a = "dl_start s + dl_recv s" and ?n = "unat (pkt16 s 2)" and ?rem = "unat (dl_size s - dl_recv s)"
  let ?cells = "cells_of (chp B) sz"
  note loader = loader_flash.intro [OF assms(1) loader_flash_axioms.intro [OF assms(2,3)]]
  have un: "loader_flash.unlockable maker srs free s" using assms(5) by (simp add: loader_flash.unlockable_def [OF loader])
  obtain t where t: "data_midst B s = Ret BSL_REP_ACK t" "dl_recv t = dl_recv s + pkt16 s 2" "free (srs (chip t))"
      "stored (?cells (chip s)) (?a - FW_ADDR B) (pkt_data s) ?rem (?cells (chip t))"
    using wp_Ret [OF loader_flash.wp_data_midst [OF loader assms(4) un assms(6-10)]] by blast
  have len: "length (pkt_data s) = ?n" by (simp add: pkt_data_def)
  have ld: "ld B u x = ?cells (chip u) (x - FW_ADDR B)" if "unat (x - FW_ADDR B) < sz" for u x
    using loader_flash.ld_cells [OF loader that, of u] by simp
  have new: "if unat (x - ?a) < ?n then ld B t x = pkt_data s ! unat (x - ?a) else ?rem \<le> unat (x - ?a) \<longrightarrow> ld B t x = ld B s x"
    if "unat (x - FW_ADDR B) < sz" for x
  proof -
    have e: "(x - FW_ADDR B) - (?a - FW_ADDR B) = x - ?a" by simp
    show ?thesis
      using t(4) [unfolded stored_def len, rule_format, of "x - FW_ADDR B"] unfolding e ld [OF that] .
  qed
  have "mbytes (ld B t) ?a ?n = pkt_data s"
  proof (rule nth_equalityI)
    fix i assume "i < length (mbytes (ld B t) ?a ?n)"
    then have i: "i < ?n" by simp
    have lt: "?n < 2 ^ 32" using unsigned_less [of "pkt16 s 2", where ?'a = nat] by simp
    have p: "unat ((?a - FW_ADDR B) + of_nat i) = unat (?a - FW_ADDR B) + i"
      by (rule loader_flash.unat_plus [OF loader assms(10) i])
    have e: "?a + of_nat i - FW_ADDR B = (?a - FW_ADDR B) + of_nat i" by simp
    have "unat (?a + of_nat i - FW_ADDR B) < sz" unfolding e p using assms(10) i by linarith
    from new [OF this] show "mbytes (ld B t) ?a ?n ! i = pkt_data s ! i"
      using i lt by (simp add: mbytes_def unat_of_nat)
  qed (simp add: len)
  moreover have "ld B t x = ld B s x" if "unat (x - FW_ADDR B) < sz" "?rem \<le> unat (x - ?a)" for x
    using new [OF that(1)] that(2) assms(8) by (auto simp: word_le_nat_alt split: if_splits)
  ultimately show ?thesis using t by blast
qed

definition sample_midst :: "sim fdl" where
  "sample_midst = sim_fdl 0x10001ffe 10 (WRITE16_BE BSL_CMD_MIDST_DATA @ WRITE16_BE 3 @ [1, 2, 3])"

lemma sample_midst_fields:
  "pkt16 sample_midst 2 = 3" "dl_start sample_midst = 0x10001ffe" "dl_size sample_midst = 10" "dl_recv sample_midst = 0"
  "chip sample_midst = locked_chip" "flash_id sample_midst = -1"
  by (simp_all add: sample_midst_def sim_fdl_def pkt16_def READ16_BE_def blit_def WRITE16_BE_def nth_Cons' cmd_defs)

lemma sample_midst_data: "pkt_data sample_midst = [1, 2, 3]"
  by (simp add: pkt_data_def sample_midst_fields)
    (simp add: sample_midst_def sim_fdl_def mslice_def blit_def WRITE16_BE_def upt_rec nth_Cons' cmd_defs)

lemma locked_fields: "sim_busy locked_chip = 0" "peek sim_nor locked_chip x = 0x5a" "\<not> sim_free (sim_srs locked_chip)"
  by (simp_all add: locked_chip_def sim_nor_def sim_free_def sim_srs_def)

theorem flash_download_witness:
  "\<not> sim_free (sim_srs (chip sample_midst)) \<and> (\<exists>t. data_midst sim_board sample_midst = Ret BSL_REP_ACK t \<and>
     sim_free (sim_srs (chip t)) \<and> mbytes (ld sim_board t) 0x10001ffe 3 = [1, 2, 3] \<and> ld sim_board t 0x10001000 = 0x5a)"
proof -
  have "\<exists>t. data_midst sim_board sample_midst = Ret BSL_REP_ACK t \<and> dl_recv t = dl_recv sample_midst + pkt16 sample_midst 2 \<and>
    sim_free (sim_srs (chip t)) \<and>
    mbytes (ld sim_board t) (dl_start sample_midst + dl_recv sample_midst) (unat (pkt16 sample_midst 2)) = pkt_data sample_midst \<and>
    (\<forall>x. unat (x - FW_ADDR sim_board) < 0x400000 \<longrightarrow> unat (dl_size sample_midst - dl_recv sample_midst) \<le>
      unat (x - (dl_start sample_midst + dl_recv sample_midst)) \<longrightarrow> ld sim_board t x = ld sim_board sample_midst x)"
    by (rule flash_download [OF sim_loader.nor_flash_axioms])
      (simp_all add: sim_buffer sample_midst_fields locked_fields in_flash_def)
  then obtain t where t: "data_midst sim_board sample_midst = Ret BSL_REP_ACK t" "sim_free (sim_srs (chip t))"
      "mbytes (ld sim_board t) 0x10001ffe 3 = [1, 2, 3]"
      "\<forall>x. unat (x - 0x10000000) < 0x400000 \<longrightarrow> 10 \<le> unat (x - 0x10001ffe) \<longrightarrow> ld sim_board t x = ld sim_board sample_midst x"
    by (auto simp: sample_midst_fields sample_midst_data)
  have "ld sim_board t 0x10001000 = ld sim_board sample_midst 0x10001000"
    by (rule t(4) [rule_format]) simp_all
  also have "\<dots> = 0x5a" by (simp add: ld_def in_flash_def sample_midst_fields locked_fields)
  finally show ?thesis using t by (auto simp: sample_midst_fields locked_fields)
qed

text \<open>
  C9: Erasing works, on the same chips as downloading: unlocked, or not identified yet and
  from a maker whose protection sfc_unlock knows. For an address and a size that are multiples
  of the erase block and lie in the chip, erase_flash acknowledges, and afterwards the chip
  reads 0xff in that range and what it did before everywhere else; unless the size is 0, no
  sector is locked any more.
\<close>

theorem flash_erase:
  fixes s :: "'f fdl"
  assumes "nor_flash (chp B) wel busy sz maker srs free" "4096 dvd sz" "sz \<le> 2 ^ 24" "busy (chip s) = 0"
    and "(flash_id s = -1 \<and> (maker = 0xef \<or> maker = 0xc8 \<or> maker = 0xc2)) \<or> free (srs (chip s))"
    and "pkt16 s 2 = 8" "in_flash B (pkt32 s 4)"
    and "pkt32 s 4 AND 0xfff = 0" "pkt32 s 8 AND 0xfff = 0"
    and "unat (pkt32 s 4 - FW_ADDR B) + unat (pkt32 s 8) \<le> sz"
  shows "\<exists>t. dl_erase_flash B s = Ret BSL_REP_ACK t \<and> (pkt32 s 8 \<noteq> 0 \<longrightarrow> free (srs (chip t))) \<and>
    (\<forall>x. unat (x - FW_ADDR B) < sz \<longrightarrow> ld B t x = (if unat (x - pkt32 s 4) < unat (pkt32 s 8) then 0xff else ld B s x))"
proof -
  let ?cells = "cells_of (chp B) sz"
  note loader = loader_flash.intro [OF assms(1) loader_flash_axioms.intro [OF assms(2,3)]]
  have un: "loader_flash.unlockable maker srs free s" using assms(5) by (simp add: loader_flash.unlockable_def [OF loader])
  obtain t where t: "dl_erase_flash B s = Ret BSL_REP_ACK t" "pkt32 s 8 \<noteq> 0 \<longrightarrow> free (srs (chip t))"
    "\<forall>x. ?cells (chip t) x =
      (if unat (x - (pkt32 s 4 - FW_ADDR B)) < unat (pkt32 s 8) then 0xff else ?cells (chip s) x)"
    using wp_Ret [OF loader_flash.wp_erase_flash [OF loader assms(4) un assms(6-10)]] by blast
  have ld: "ld B u x = ?cells (chip u) (x - FW_ADDR B)" if "unat (x - FW_ADDR B) < sz" for u x
    using loader_flash.ld_cells [OF loader that, of u] by simp
  have "ld B t x = (if unat (x - pkt32 s 4) < unat (pkt32 s 8) then 0xff else ld B s x)" if "unat (x - FW_ADDR B) < sz" for x
  proof -
    have e: "(x - FW_ADDR B) - (pkt32 s 4 - FW_ADDR B) = x - pkt32 s 4" by simp
    show ?thesis using t(3) [rule_format, of "x - FW_ADDR B"] unfolding e ld [OF that] .
  qed
  then show ?thesis using t(1,2) by blast
qed

definition sample_erase :: "sim fdl" where
  "sample_erase = sim_fdl (- 1) 0 (WRITE16_BE BSL_CMD_ERASE_FLASH @ WRITE16_BE 8 @ WRITE32_BE 0x10004000 @ WRITE32_BE 0x2000)"

lemma sample_erase_fields:
  "pkt16 sample_erase 2 = 8" "pkt32 sample_erase 4 = 0x10004000" "pkt32 sample_erase 8 = 0x2000"
  "chip sample_erase = locked_chip" "flash_id sample_erase = -1"
  by (simp_all add: sample_erase_def sim_fdl_def pkt16_def pkt32_def READ16_BE_def READ32_BE_def blit_def WRITE16_BE_def
      WRITE32_BE_def nth_Cons' cmd_defs)

theorem flash_erase_witness:
  "\<not> sim_free (sim_srs (chip sample_erase)) \<and> (\<exists>t. dl_erase_flash sim_board sample_erase = Ret BSL_REP_ACK t \<and>
     ld sim_board t 0x10005fff = 0xff \<and> ld sim_board t 0x10006000 = 0x5a)"
proof -
  have "\<exists>t. dl_erase_flash sim_board sample_erase = Ret BSL_REP_ACK t \<and>
    (pkt32 sample_erase 8 \<noteq> 0 \<longrightarrow> sim_free (sim_srs (chip t))) \<and>
    (\<forall>x. unat (x - FW_ADDR sim_board) < 0x400000 \<longrightarrow> ld sim_board t x =
      (if unat (x - pkt32 sample_erase 4) < unat (pkt32 sample_erase 8) then 0xff else ld sim_board sample_erase x))"
    by (rule flash_erase [OF sim_loader.nor_flash_axioms])
      (simp_all add: sample_erase_fields locked_fields in_flash_def)
  then obtain t where t: "dl_erase_flash sim_board sample_erase = Ret BSL_REP_ACK t"
    "\<And>x. unat (x - 0x10000000) < 0x400000 \<Longrightarrow> ld sim_board t x = (if unat (x - 0x10004000) < 0x2000 then 0xff else ld sim_board sample_erase x)"
    by (auto simp: sample_erase_fields)
  have "ld sim_board t 0x10005fff = 0xff" "ld sim_board t 0x10006000 = ld sim_board sample_erase 0x10006000"
    by (subst t(2); simp)+
  moreover have "ld sim_board sample_erase 0x10006000 = 0x5a"
    by (simp add: ld_def in_flash_def sample_erase_fields locked_fields)
  ultimately show ?thesis using t(1) by (auto simp: sample_erase_fields locked_fields)
qed

text \<open>
  C8: A block is never reported as written when it is not: whatever the flash controller and
  the chip do, if the step of data_midst for one erase block returns without an error, the
  memory at the block's address reads back as the data.
\<close>

theorem flash_block_verified:
  fixes A :: u32
  assumes "src \<noteq> []" "unat A + length src \<le> 2 ^ 24" "unat A mod 4096 + length src \<le> 4096" "buffer_ok B"
    and "length src \<le> unat (dl_start s + dl_size s - (FW_ADDR B + A))"
    and "midst_block B (FW_ADDR B + A) src sa s = Ret 0 t"
  shows "mbytes (ld B t) (FW_ADDR B + A) (length src) = src"
  using wlp_Ret [OF block_verified [OF assms(1-5)] assms(6)] by simp

lemma sample_block: "midst_block sim_board 0x10001ffe [0x5a, 0x5a] 0 sample_midst = Ret 0 sample_midst"
  by (simp add: midst_block_def Let_def bnd_def gets_def ret_def ld_def in_flash_def sample_midst_fields locked_fields)

theorem flash_block_verified_witness: "mbytes (ld sim_board sample_midst) 0x10001ffe 2 = [0x5a, 0x5a]"
proof -
  have "mbytes (ld sim_board sample_midst) (FW_ADDR sim_board + 0x1ffe) (length [0x5a, 0x5a :: byte]) = [0x5a, 0x5a]"
    by (rule flash_block_verified [OF _ _ _ sim_buffer, where s = sample_midst and sa = 0]) (simp_all add: sample_midst_fields sample_block)
  then show ?thesis by (simp add: numeral_2_eq_2)
qed

end
