(* ===== verification/LzmaDec.thy ===== *)
theory LzmaDec
  imports CMonad
begin

text \<open>
  The LZMA decoder of fphelper/lzmadec.h. The state is what the C function keeps moving: the
  unread input, the output so far, the probabilities and the two registers of the range
  decoder. \<open>goto err\<close> is \<open>lz_err\<close>, caught at the end of \<open>decode_lzma\<close>; an access outside
  \<open>probs\<close> or before the start of the output is the separate outcome \<open>lz_bad\<close>, so that its
  absence is a theorem. Indices and lengths are naturals here: they stay far below 2 ^ 32.
  The probabilities past \<open>num_probs\<close> do not exist; \<open>hack\<close> is LZMA_SPRD_HACK.
\<close>

unbundle bit_operations_syntax

section \<open>State\<close>

record lz =
  lz_src :: "byte list"
  lz_out :: "byte list"
  lz_probs :: "nat \<Rightarrow> u16"
  lz_range :: u32
  lz_code :: u32

text \<open>What stays fixed while decoding.\<close>

record lzp =
  lz_lc :: nat
  lz_lp :: nat
  lz_pb :: nat
  dict_size :: u32
  max_size :: u64
  dst_size :: nat
  hack :: bool

text \<open>The variables of the main loop: state, the last distances, the last byte (\<open>value\<close>).\<close>

record lzc =
  lz_state :: nat
  rep0 :: u32
  rep1 :: u32
  rep2 :: u32
  rep3 :: u32
  lz_value :: nat

type_synonym 'a lzm = "(lz, 'a) cm"

definition num_probs :: "lzp \<Rightarrow> nat" where
  "num_probs P = 1846 + 768 * 2 ^ (lz_lc P + lz_lp P)"

definition lz_err :: "'a lzm" where "lz_err = err_exit ''err'' []"
definition lz_bad :: "'a lzm" where "lz_bad = err_exit ''out of bounds'' []"

section \<open>The range decoder\<close>

definition RC_READ_BYTE :: "byte lzm" where
  "RC_READ_BYTE = (\<lambda>s. case lz_src s of [] \<Rightarrow> lz_err s | a # src \<Rightarrow> Ret a (s\<lparr>lz_src := src\<rparr>))"

definition RC_NORMALIZE :: "unit lzm" where
  "RC_NORMALIZE = bnd (gets lz_range) (\<lambda>r.
     cwhen (drop_bit 24 r = 0)
       (thn (modify (\<lambda>s. s\<lparr>lz_range := push_bit 8 (lz_range s)\<rparr>))
       (bnd RC_READ_BYTE (\<lambda>a. modify (\<lambda>s. s\<lparr>lz_code := push_bit 8 (lz_code s) OR ucast a\<rparr>)))))"

text \<open>\<open>RC_BIT(probs + p)\<close>; the result is \<open>bit0\<close>.\<close>

definition RC_BIT :: "lzp \<Rightarrow> nat \<Rightarrow> bool lzm" where
  "RC_BIT P p = thn RC_NORMALIZE (\<lambda>s.
     if p < num_probs P then
       let t0 = ucast (lz_probs s p) :: u32; t1 = t0 * drop_bit 11 (lz_range s);
           bit0 = (lz_code s < t1);
           t2 = (if bit0 then t0 - 2017 else t0);
           s = (if bit0 then s\<lparr>lz_range := t1\<rparr>
                else s\<lparr>lz_range := lz_range s - t1, lz_code := lz_code s - t1\<rparr>)
       in Ret bit0 (s\<lparr>lz_probs := (lz_probs s)(p := ucast (t0 - drop_bit 5 t2))\<rparr>)
     else lz_bad s)"

text \<open>\<open>BIT_TREE\<close> for \<open>n\<close>; the first argument bounds the number of bits.\<close>

fun bit_tree_loop :: "nat \<Rightarrow> lzp \<Rightarrow> nat \<Rightarrow> nat \<Rightarrow> nat \<Rightarrow> nat lzm" where
  "bit_tree_loop 0 P p3 n value = no_fuel"
| "bit_tree_loop (Suc k) P p3 n value =
     bnd (RC_BIT P (p3 + value)) (\<lambda>bit0.
       let value = 2 * value; value = (if bit0 then value else value + 1)
       in if value < n then bit_tree_loop k P p3 n value else ret value)"

definition BIT_TREE :: "lzp \<Rightarrow> nat \<Rightarrow> nat \<Rightarrow> nat lzm" where
  "BIT_TREE P p3 n = bnd (bit_tree_loop 9 P p3 n 1) (\<lambda>value. ret (value - n))"

section \<open>Literals\<close>

text \<open>\<open>dst[-rep]\<close>\<close>

definition back_byte :: "u32 \<Rightarrow> byte lzm" where
  "back_byte rep = (\<lambda>s. let n = length (lz_out s); d = unat rep
     in if 0 < d \<and> d \<le> n then Ret (lz_out s ! (n - d)) s else lz_bad s)"

fun literal_loop :: "nat \<Rightarrow> lzp \<Rightarrow> nat \<Rightarrow> u32 \<Rightarrow> u32 \<Rightarrow> nat \<Rightarrow> nat lzm" where
  "literal_loop 0 P p3 i offset value = no_fuel"
| "literal_loop (Suc k) P p3 i offset value =
     (let i = push_bit 1 i
      in bnd (RC_BIT P (p3 + unat offset + unat (i AND offset) + value)) (\<lambda>bit0.
        let value = 2 * value;
            (value, offset) = (if bit0 then (value, offset AND NOT i) else (value + 1, offset AND i))
        in if value < 256 then literal_loop k P p3 i offset value else ret value))"

definition lz_literal :: "lzp \<Rightarrow> lzc \<Rightarrow> lzc lzm" where
  "lz_literal P c = bnd (gets (\<lambda>s. length (lz_out s))) (\<lambda>pos.
     let k = pos mod 2 ^ lz_lp P; k = k * 2 ^ lz_lc P + lz_value c div 2 ^ (8 - lz_lc P);
         p3 = 1846 + 768 * k
     in bnd (if \<not> hack P \<and> lz_state c \<ge> 7
             then bnd (back_byte (rep0 c)) (\<lambda>b. ret (0x100, ucast b)) else ret (0, 0))
        (\<lambda>(offset, i). bnd (literal_loop 8 P p3 i offset 1) (\<lambda>value.
           let st = lz_state c; st = st - (if st < 4 then st else if st > 9 then 6 else 3)
           in ret (c\<lparr>lz_state := st, lz_value := value mod 256\<rparr>))))"

section \<open>Matches\<close>

text \<open>
  From the bit after the literal flag to \<open>if (!len)\<close>: the kind of match. \<open>p3\<close> is the index
  of the literal flag. The results are \<open>len\<close> and the index \<open>p1\<close>.
\<close>

definition match_kind :: "lzp \<Rightarrow> nat \<Rightarrow> lzc \<Rightarrow> (lzc \<times> nat \<times> nat) lzm" where
  "match_kind P p3 c =
     (let p1 = 192 + lz_state c; st = (if lz_state c < 7 then 0 else 3)
      in bnd (RC_BIT P p1) (\<lambda>bit0.
        if bit0 then ret (c\<lparr>lz_state := st, rep3 := rep2 c, rep2 := rep1 c, rep1 := rep0 c\<rparr>, 0, 818)
        else bnd (RC_BIT P (p1 + 12)) (\<lambda>bit0.
          bnd (if bit0
               then bnd (RC_BIT P (p3 + 240)) (\<lambda>bit0. ret (c, if bit0 then 1 else 0))
               else bnd (RC_BIT P (p1 + 24)) (\<lambda>bit0.
                 bnd (if bit0 then ret (rep1 c, rep2 c, rep3 c)
                      else bnd (RC_BIT P (p1 + 36)) (\<lambda>bit0.
                        if bit0 then ret (rep2 c, rep1 c, rep3 c) else ret (rep3 c, rep1 c, rep2 c)))
                 (\<lambda>(n, r2, r3). ret (c\<lparr>rep3 := r3, rep2 := r2, rep1 := rep0 c, rep0 := n\<rparr>, 0))))
          (\<lambda>(c, len). ret (c\<lparr>lz_state := (if len = 0 then or st 8 else or st 9)\<rparr>, len, 1332)))))"

definition match_length :: "lzp \<Rightarrow> nat \<Rightarrow> nat \<Rightarrow> nat lzm" where
  "match_length P p1 k = bnd (RC_BIT P p1) (\<lambda>bit0.
     bnd (if bit0 then ret (2, 8, p1 + k * 8 + 2)
          else bnd (RC_BIT P (p1 + 1)) (\<lambda>bit0.
            if bit0 then ret (10, 8, p1 + k * 8 + 2 + 128) else ret (18, 256, p1 + 1 + 256 + 1)))
     (\<lambda>(len, n, p3). bnd (BIT_TREE P p3 n) (\<lambda>value. ret (len + value))))"

text \<open>The bits that are not modelled by a probability.\<close>

fun direct_bits :: "nat \<Rightarrow> u32 \<Rightarrow> u32 \<Rightarrow> (u32 \<times> u32) lzm" where
  "direct_bits 0 i r = no_fuel"
| "direct_bits (Suc k) i r = thn RC_NORMALIZE
     (let i = drop_bit 1 i
      in bnd (\<lambda>s. let rg = drop_bit 1 (lz_range s)
           in if lz_code s \<ge> rg then Ret (r + i) (s\<lparr>lz_range := rg, lz_code := lz_code s - rg\<rparr>)
              else Ret r (s\<lparr>lz_range := rg\<rparr>))
         (\<lambda>r. if i \<noteq> 16 then direct_bits k i r else ret (i, r)))"

fun low_bits :: "nat \<Rightarrow> lzp \<Rightarrow> nat \<Rightarrow> nat \<Rightarrow> u32 \<Rightarrow> nat \<Rightarrow> u32 \<Rightarrow> u32 lzm" where
  "low_bits 0 P p3 i n value r = no_fuel"
| "low_bits (Suc k) P p3 i n value r = bnd (RC_BIT P (p3 + value)) (\<lambda>bit0.
     let value = 2 * value;
         (value, r) = (if bit0 then (value, r) else (value + 1, r OR n)); n = push_bit 1 n
     in if value < i then low_bits k P p3 i n value r else ret r)"

definition match_distance :: "lzp \<Rightarrow> nat \<Rightarrow> u32 lzm" where
  "match_distance P len = bnd (BIT_TREE P (304 + (if len < 6 then len else 5) * 64) 64) (\<lambda>value.
     bnd (if value > 3 then
       let n = value div 2 - 1; i = push_bit n 1; r = push_bit n (or 2 (of_nat value AND 1))
       in if n < 6 then low_bits 32 P (687 + unat r - value) (unat i) 1 1 r
          else bnd (direct_bits 32 i r) (\<lambda>(i, r). low_bits 32 P 802 (unat i) 1 1 r)
       else ret (of_nat value)) (\<lambda>r. ret (r + 1)))"

section \<open>Copying\<close>

text \<open>\<open>copy\<close>: one byte to the output; \<open>do { } while (--len)\<close>.\<close>

definition put_byte :: "lzp \<Rightarrow> byte \<Rightarrow> unit lzm" where
  "put_byte P b = (\<lambda>s. if length (lz_out s) = dst_size P then lz_err s else Ret () (s\<lparr>lz_out := lz_out s @ [b]\<rparr>))"

fun copy_loop :: "lzp \<Rightarrow> u32 \<Rightarrow> nat \<Rightarrow> byte lzm" where
  "copy_loop P rep 0 = no_fuel"
| "copy_loop P rep (Suc len) = bnd (back_byte rep) (\<lambda>b. thn (put_byte P b)
     (if len \<noteq> 0 then copy_loop P rep len else ret b))"

definition lz_match :: "lzp \<Rightarrow> nat \<Rightarrow> nat \<Rightarrow> lzc \<Rightarrow> lzc option lzm" where
  "lz_match P p3 k c = bnd (match_kind P p3 c) (\<lambda>(c, len, p1).
     bnd (if len = 0 then
            bnd (match_length P p1 k) (\<lambda>len.
              if lz_state c < 4
              then bnd (match_distance P len) (\<lambda>r. ret (c\<lparr>lz_state := lz_state c + 7, rep0 := r\<rparr>, len))
              else ret (c, len))
          else ret (c, len)) (\<lambda>(c, len).
     if rep0 c = 0 then ret None
     else bnd (gets (\<lambda>s. length (lz_out s))) (\<lambda>pos.
       if rep0 c > dict_size P then lz_err
       else if unat (rep0 c) > pos then lz_err
       else if max_size P - of_nat pos < of_nat len then lz_err
       else bnd (copy_loop P (rep0 c) len) (\<lambda>b. ret (Some (c\<lparr>lz_value := unat b\<rparr>))))))"

definition lz_step :: "lzp \<Rightarrow> lzc \<Rightarrow> lzc option lzm" where
  "lz_step P c = bnd (gets (\<lambda>s. length (lz_out s))) (\<lambda>pos.
     let k = pos mod 2 ^ lz_pb P; p3 = lz_state c * 16 + k
     in bnd (RC_BIT P p3) (\<lambda>bit0.
       if bit0 then bnd (lz_literal P c) (\<lambda>c. thn (put_byte P (of_nat (lz_value c))) (ret (Some c)))
       else lz_match P p3 k c))"

fun lz_loop :: "nat \<Rightarrow> lzp \<Rightarrow> lzc \<Rightarrow> unit lzm" where
  "lz_loop fuel P c = bnd (gets (\<lambda>s. length (lz_out s))) (\<lambda>pos.
     if max_size P = of_nat pos then ret ()
     else case fuel of 0 \<Rightarrow> no_fuel
       | Suc fuel \<Rightarrow> bnd (lz_step P c) (\<lambda>r. case r of None \<Rightarrow> ret () | Some c \<Rightarrow> lz_loop fuel P c))"

declare lz_loop.simps [simp del]

section \<open>The whole decoder\<close>

text \<open>The header: properties, dictionary size, size of the data, a zero, and the first code.\<close>

fun read_bytes :: "nat \<Rightarrow> byte list lzm" where
  "read_bytes 0 = ret []"
| "read_bytes (Suc n) = bnd RC_READ_BYTE (\<lambda>a. bnd (read_bytes n) (\<lambda>bs. ret (a # bs)))"

definition le64 :: "byte list \<Rightarrow> u64" where
  "le64 bs = foldr (\<lambda>b w. push_bit 8 w OR ucast b) bs 0"

definition lz_header :: "nat \<Rightarrow> bool \<Rightarrow> lzp lzm" where
  "lz_header cap hk = bnd RC_READ_BYTE (\<lambda>a.
     let pb = unat a div 9; lc = unat a mod 9; lp = pb mod 5; pb = pb div 5
     in if pb > 4 then lz_err
        else bnd (read_bytes 4) (\<lambda>d. bnd (read_bytes 8) (\<lambda>m. bnd RC_READ_BYTE (\<lambda>a.
          if a \<noteq> 0 then lz_err
          else bnd (read_bytes 4) (\<lambda>cd.
            let dict = ucast (le64 d); dict = (if dict < 0x1000 then 0x1000 else dict)
            in thn (modify (\<lambda>s. s\<lparr>lz_code := foldl (\<lambda>w b. push_bit 8 w OR ucast b) (lz_code s) cd\<rparr>))
              (ret \<lparr>lz_lc = lc, lz_lp = lp, lz_pb = pb, dict_size = dict, max_size = le64 m,
                 dst_size = cap, hack = hk\<rparr>))))))"

definition lz_body :: "nat \<Rightarrow> bool \<Rightarrow> bool \<Rightarrow> unit lzm" where
  "lz_body cap hk mem_ok = bnd (lz_header cap hk) (\<lambda>P.
     if \<not> mem_ok then lz_err
     else thn (modify (\<lambda>s. s\<lparr>lz_probs := (\<lambda>_. 1024)\<rparr>))
         (thn (lz_loop (cap + 1) P \<lparr>lz_state = 0, rep0 = 1, rep1 = 1, rep2 = 1, rep3 = 1, lz_value = 0\<rparr>)
          RC_NORMALIZE))"

text \<open>
  The results: the code, what \<open>*src_size\<close> is set to (the bytes left over), and the output;
  nothing for an access out of bounds. \<open>mem_ok\<close> says whether \<open>malloc\<close> succeeds.
\<close>

definition decode_lzma :: "bool \<Rightarrow> bool \<Rightarrow> byte list \<Rightarrow> nat \<Rightarrow> (u32 \<times> nat \<times> byte list) option" where
  "decode_lzma hk mem_ok src cap =
     (case lz_body cap hk mem_ok \<lparr>lz_src = src, lz_out = [], lz_probs = (\<lambda>_. 0), lz_range = - 1, lz_code = 0\<rparr> of
        Ret _ s \<Rightarrow> Some (lz_code s, length (lz_src s), lz_out s)
      | Exit (ErrExit m _) s \<Rightarrow> if m = ''err'' then Some (- 1, length (lz_src s), lz_out s) else None
      | OutOfFuel _ \<Rightarrow> None)"

end
