(* ===== verification/LzmaSafe.thy ===== *)
theory LzmaSafe
  imports LzmaDec
begin

text \<open>
  The LZMA decoder on arbitrary input: it ends, stays inside its tables and buffers, keeps
  the probabilities in a range in which both parts of a split range stay large. The rules \<open>wp_\<dots>\<close> below carry the invariant \<open>lz_inv\<close>
  through each of its pieces.
\<close>

unbundle bit_operations_syntax

section \<open>The invariant\<close>

definition lz_inv :: "lzp \<Rightarrow> lz \<Rightarrow> bool" where
  "lz_inv P s = ((\<forall>i. 31 \<le> unat (lz_probs s i) \<and> unat (lz_probs s i) \<le> 2017) \<and>
     0x10000 \<le> unat (lz_range s) \<and> length (lz_out s) \<le> dst_size P)"

definition lz_stop :: "lzp \<Rightarrow> exit_reason \<Rightarrow> lz \<Rightarrow> bool" where
  "lz_stop P e s = (e = ErrExit ''err'' [] \<and> length (lz_out s) \<le> dst_size P)"

lemma wp_lz_err: "lz_inv P s \<Longrightarrow> wp lz_err Q (lz_stop P) s"
  by (simp add: lz_err_def wp_simps lz_stop_def lz_inv_def)

section \<open>The range decoder\<close>

lemma wp_normalize:
  assumes "lz_inv P s"
    and "\<And>t. lz_inv P t \<Longrightarrow> 2 ^ 24 \<le> unat (lz_range t) \<Longrightarrow> lz_out t = lz_out s \<Longrightarrow> Q () t"
  shows "wp RC_NORMALIZE Q (lz_stop P) s"
proof (cases "drop_bit 24 (lz_range s) = 0")
  case True
  then have r: "unat (lz_range s) < 2 ^ 24"
    by (simp add: word_unat_eq_iff word_nat div_eq_0_iff)
  then have r8: "unat (push_bit 8 (lz_range s)) = 256 * unat (lz_range s)"
    by (simp add: push_bit_eq_mult unat_word_ariths)
  show ?thesis
  proof (cases "lz_src s")
    case Nil
    then show ?thesis using True assms(1)
      by (simp add: RC_NORMALIZE_def RC_READ_BYTE_def wp_simps)
        (simp add: wp_def lz_err_def err_exit_def lz_stop_def lz_inv_def)
  next
    case (Cons a src)
    let ?t = "s\<lparr>lz_range := push_bit 8 (lz_range s), lz_src := src, lz_code := push_bit 8 (lz_code s) OR ucast a\<rparr>"
    have "lz_inv P ?t"
      using assms(1) r8 by (auto simp: lz_inv_def)
    moreover have "2 ^ 24 \<le> unat (lz_range ?t)" using assms(1) r8 by (simp add: lz_inv_def)
    ultimately have "Q () ?t" by (rule assms(2)) simp
    then show ?thesis using True Cons
      by (simp add: RC_NORMALIZE_def RC_READ_BYTE_def wp_simps) (simp add: wp_def run_simps)
  qed
next
  case False
  then have "2 ^ 24 \<le> unat (lz_range s)" by (simp add: word_unat_eq_iff word_nat div_eq_0_iff not_less)
  then show ?thesis using False assms by (simp add: RC_NORMALIZE_def wp_simps)
qed

text \<open>The new probability, and the two parts of the range.\<close>

lemma prob_down: "31 \<le> p \<Longrightarrow> p \<le> 2017 \<Longrightarrow> 31 \<le> p - p div 32 \<and> p - p div 32 \<le> (2017 :: nat)"
proof -
  assume p: "31 \<le> p" "p \<le> 2017"
  define q where "q = p div 32"
  have "32 * q \<le> p" "p < 32 * q + 32" 
    using div_mult_mod_eq [of p 32] mod_less_divisor [of 32 p] unfolding q_def by linarith+
  then show ?thesis using p unfolding q_def [symmetric] by linarith
qed

lemma prob_up: "p \<le> 2017 \<Longrightarrow> p + (2048 - p) div 32 \<le> (2017 :: nat)"
proof -
  assume p: "p \<le> 2017"
  define q where "q = (2048 - p) div 32"
  have "32 * q \<le> 2048 - p"
    using div_mult_mod_eq [of "2048 - p" 32] unfolding q_def by linarith
  then show ?thesis using p unfolding q_def [symmetric] by linarith
qed

lemma new_prob:
  fixes p :: u16 and b :: bool
  assumes "31 \<le> unat p" "unat p \<le> 2017"
  defines "t0 \<equiv> ucast p :: u32" and "t2 \<equiv> if b then (ucast p :: u32) - 2017 else ucast p"
  shows "unat (ucast (t0 - drop_bit 5 t2) :: u16) =
      (if b then unat p + (2048 - unat p) div 32 else unat p - unat p div 32)"
proof -
  have t0: "unat t0 = unat p" using assms(2) by (simp add: t0_def word_nat)
  show ?thesis
  proof (cases b)
    case False
    then have "unat (drop_bit 5 t2) = unat p div 32" using t0 by (simp add: t2_def t0_def word_nat)
    then have "unat (t0 - drop_bit 5 t2) = unat p - unat p div 32"
      using t0 by (simp add: unat_sub word_le_nat_alt)
    then show ?thesis using False assms(2) by (simp add: word_nat)
  next
    case True
    define d where "d = 2017 - unat p"
    have t2: "unat t2 = (if d = 0 then 0 else 2 ^ 32 - d)"
      using True t0 assms(2) unat_sub_if' [of "ucast p :: u32" 2017] by (auto simp: t2_def t0_def d_def)
    have dr: "unat (drop_bit 5 t2) = (if d = 0 then 0 else 2 ^ 27 - (d + 31) div 32)"
    proof (cases "d = 0")
      case False
      have "d \<le> 2017" by (simp add: d_def)
      define e where "e = (d + 31) div 32"
      have e: "32 * e \<le> d + 31" "d + 31 < 32 * e + 32"
        using div_mult_mod_eq [of "d + 31" 32] mod_less_divisor [of 32 "d + 31"] unfolding e_def by linarith+
      have "(2 ^ 32 - d) div 32 = 2 ^ 27 - (d + 31) div 32"
        unfolding e_def [symmetric] using e \<open>d \<le> 2017\<close> False by (intro div_nat_eqI) simp_all
      then show ?thesis using False t2 by (simp add: word_nat)
    qed (simp add: t2 word_nat)
    have le: "(d + 31) div 32 \<le> d" "(d + 31) div 32 < 2 ^ 16" by (simp_all add: d_def)
    have "unat (t0 - drop_bit 5 t2) mod 2 ^ 16 = unat p + (d + 31) div 32"
    proof (cases "d = 0")
      case True
      then have "unat p = 2017" using assms(2) by (simp add: d_def)
      then show ?thesis using True t0 dr by (simp add: unat_sub word_le_nat_alt)
    next
      case False
      have sm: "unat p + (d + 31) div 32 \<le> 2017" using le(1) assms(2) by (simp add: d_def)
      have "unat (t0 - drop_bit 5 t2) = 2 ^ 32 + unat p - (2 ^ 27 - (d + 31) div 32)"
        using False t0 dr sm assms(2) le unat_sub_if' [of t0 "drop_bit 5 t2"] by (auto split: if_splits)
      also have "\<dots> = (unat p + (d + 31) div 32) + 2 ^ 16 * (2 ^ 16 - 2 ^ 11)" using le by simp
      finally show ?thesis using sm by (simp only: mod_mult_self2) simp
    qed
    moreover have "d + 31 = 2048 - unat p" using assms(2) by (simp add: d_def)
    ultimately show ?thesis using True by (simp add: word_nat)
  qed
qed

lemma split_range:
  fixes p :: u16 and r :: u32
  assumes "31 \<le> unat p" "unat p \<le> 2017" "2 ^ 24 \<le> unat r"
  defines "t1 \<equiv> ucast p * drop_bit 11 r"
  shows split_bound: "unat t1 = unat r div 2048 * unat p" and "t1 < r" "0x10000 \<le> unat t1" "0x10000 \<le> unat (r - t1)"
proof -
  define q where "q = unat r div 2048"
  have r: "unat r < 2 ^ 32" using unsigned_less [of r] by simp
  have q: "2 ^ 13 \<le> q" "q < 2 ^ 21" "2048 * q \<le> unat r" using assms(3) r by (simp_all add: q_def)
  have b: "31 * q \<le> unat p * q" "unat p * q \<le> 2017 * q" using assms(1,2) by simp_all
  have "unat (drop_bit 11 r) = q" by (simp add: word_nat q_def)
  moreover have "unat (ucast p :: u32) = unat p" using assms(2) by (simp add: word_nat)
  moreover have "unat p * q < 2 ^ 32" by (rule le_less_trans [OF b(2)]) (use q(2) in simp)
  ultimately have t1: "unat t1 = unat p * q" by (simp add: t1_def unat_word_ariths)
  then show "unat t1 = unat r div 2048 * unat p" by (simp add: q_def)
  have q': "8192 \<le> q" "q < 2097152" using q by simp_all
  have pq: "unat p * q < unat r" using b(2) q'(1) q(3) by linarith
  have pl: "65536 \<le> unat p * q" using b(1) q'(1) by linarith
  show lt: "t1 < r" using t1 pq by (simp only: word_less_nat_alt)
  show "0x10000 \<le> unat t1" using t1 pl by simp
  have "unat (r - t1) = unat r - unat p * q" using lt t1 by (simp add: unat_sub)
  moreover have "0x10000 \<le> unat r - unat p * q" using b(2) q'(1) q(3) by linarith
  ultimately show "0x10000 \<le> unat (r - t1)" by (simp only:)
qed

lemma wp_bit:
  assumes "lz_inv P s" "p < num_probs P"
    and "\<And>b t. lz_inv P t \<Longrightarrow> lz_out t = lz_out s \<Longrightarrow> Q b t"
  shows "wp (RC_BIT P p) Q (lz_stop P) s"
  unfolding RC_BIT_def wp_thn
proof (rule wp_normalize [OF assms(1)])
  fix t
  assume t: "lz_inv P t" "2 ^ 24 \<le> unat (lz_range t)" "lz_out t = lz_out s"
  have p: "31 \<le> unat (lz_probs t p)" "unat (lz_probs t p) \<le> 2017" using t(1) by (simp_all add: lz_inv_def)
  let ?t1 = "ucast (lz_probs t p) * drop_bit 11 (lz_range t)"
  note r = split_range [OF p t(2)]
  have n: "31 \<le> unat (ucast (ucast (lz_probs t p) - drop_bit 5 (if b then ucast (lz_probs t p) - 2017 else ucast (lz_probs t p) :: u32)) :: u16) \<and>
      unat (ucast (ucast (lz_probs t p) - drop_bit 5 (if b then ucast (lz_probs t p) - 2017 else ucast (lz_probs t p) :: u32)) :: u16) \<le> 2017" for b
    unfolding new_prob [OF p] using p prob_down [OF p] prob_up [OF p(2)] by simp
  let ?b = "lz_code t < ?t1"
  let ?p = "ucast (ucast (lz_probs t p) - drop_bit 5 (if ?b then ucast (lz_probs t p) - 2017 else ucast (lz_probs t p) :: u32)) :: u16"
  let ?u = "if ?b then t\<lparr>lz_range := ?t1\<rparr> else t\<lparr>lz_range := lz_range t - ?t1, lz_code := lz_code t - ?t1\<rparr>"
  have "lz_inv P (?u\<lparr>lz_probs := (lz_probs t)(p := ?p)\<rparr>)"
    using t(1) r n [of ?b] by (auto simp: lz_inv_def)
  then have "Q ?b (?u\<lparr>lz_probs := (lz_probs t)(p := ?p)\<rparr>)"
    by (rule assms(3)) (simp add: t(3))
  moreover have "lz_probs ?u = lz_probs t" by simp
  ultimately show "wp (\<lambda>s. if p < num_probs P then
       let t0 = ucast (lz_probs s p) :: u32; t1 = t0 * drop_bit 11 (lz_range s);
           bit0 = (lz_code s < t1);
           t2 = (if bit0 then t0 - 2017 else t0);
           s = (if bit0 then s\<lparr>lz_range := t1\<rparr>
                else s\<lparr>lz_range := lz_range s - t1, lz_code := lz_code s - t1\<rparr>)
       in Ret bit0 (s\<lparr>lz_probs := (lz_probs s)(p := ucast (t0 - drop_bit 5 t2))\<rparr>)
     else lz_bad s) Q (lz_stop P) t"
    using assms(2) by (simp only: wp_def if_True Let_def outcome.case)
qed

section \<open>The pieces\<close>

lemma probs_size: "2614 \<le> num_probs P"
proof -
  have "(1::nat) \<le> 2 ^ (lz_lc P + lz_lp P)" by simp
  then show ?thesis unfolding num_probs_def by linarith
qed

lemma and_p2: "i AND push_bit n 1 = (if bit i n then push_bit n 1 else (0 :: u32))"
  by (rule bit_word_eqI) (auto simp: bit_and_iff bit_exp_iff)

lemma and_100: "i AND 0x100 = 0 \<or> i AND 0x100 = (0x100 :: u32)"
  using and_p2 [of i 8] by (cases "bit i 8") simp_all

text \<open>A loop over bits that doubles \<open>w\<close> until it reaches \<open>n\<close>.\<close>

lemma doubling: "2 * w \<le> v \<Longrightarrow> n \<le> w * 2 ^ Suc k \<Longrightarrow> n \<le> v * (2 :: nat) ^ k"
  by (erule order_trans) (simp only: power_Suc mult.assoc [symmetric] mult.commute [of w 2] mult_le_mono1)

lemma wp_literal_loop:
  assumes "lz_inv P s" "p3 + 768 \<le> num_probs P" "offset = 0 \<or> offset = 0x100"
    and "w < 256" "256 \<le> w * 2 ^ k"
    and "\<And>v t. lz_inv P t \<Longrightarrow> lz_out t = lz_out s \<Longrightarrow> Q v t"
  shows "wp (literal_loop k P p3 i offset w) Q (lz_stop P) s"
  using assms
proof (induction k arbitrary: i offset w s)
  case (Suc k)
  let ?i = "push_bit 1 i"
  have "unat offset \<le> 256" using Suc.prems(3) by auto
  moreover have "unat (?i AND offset) \<le> 256" using Suc.prems(3) and_100 [of ?i] by auto
  ultimately have p: "p3 + unat offset + unat (?i AND offset) + w < num_probs P"
    using Suc.prems(2,4) by linarith
  have o: "offset AND NOT ?i = 0 \<or> offset AND NOT ?i = 0x100" "offset AND ?i = 0 \<or> offset AND ?i = 0x100"
    using Suc.prems(3) and_100 [of "NOT ?i"] and_100 [of ?i] by (auto simp: and.commute)
  have ih: "wp (literal_loop k P p3 ?i off v) Q (lz_stop P) t"
    if "off = 0 \<or> off = 0x100" "v < 256" "2 * w \<le> v" "lz_inv P t" "lz_out t = lz_out s" for off v t
  proof (rule Suc.IH [OF that(4) Suc.prems(2) that(1,2)])
    show "256 \<le> v * 2 ^ k" using that(3) Suc.prems(5) by (rule doubling)
  qed (use that(5) Suc.prems(6) in auto)
  show ?case
    unfolding literal_loop.simps Let_def wp_bnd
    by (rule wp_bit [OF Suc.prems(1) p])
      (use ih o Suc.prems(6) in \<open>auto simp: wp_ret split: prod.splits\<close>)
qed simp

lemma wp_bit_tree_loop:
  assumes "lz_inv P s" "p3 + n \<le> num_probs P" "w < n" "n \<le> w * 2 ^ k"
    and "\<And>v t. lz_inv P t \<Longrightarrow> lz_out t = lz_out s \<Longrightarrow> v < 2 * n \<Longrightarrow> Q v t"
  shows "wp (bit_tree_loop k P p3 n w) Q (lz_stop P) s"
  using assms
proof (induction k arbitrary: w s)
  case (Suc k)
  have p: "p3 + w < num_probs P" using Suc.prems(2,3) by linarith
  have ih: "wp (bit_tree_loop k P p3 n v) Q (lz_stop P) t"
    if "v < n" "2 * w \<le> v" "lz_inv P t" "lz_out t = lz_out s" for v t
  proof (rule Suc.IH [OF that(3) Suc.prems(2) that(1)])
    show "n \<le> v * 2 ^ k" using that(2) Suc.prems(4) by (rule doubling)
  qed (use that(4) Suc.prems(5) in auto)
  show ?case
    unfolding bit_tree_loop.simps Let_def wp_bnd
    by (rule wp_bit [OF Suc.prems(1) p]) (use ih Suc.prems(3,5) in \<open>auto simp: wp_ret\<close>)
qed simp

lemma wp_bit_tree:
  assumes "lz_inv P s" "p3 + n \<le> num_probs P" "1 < n" "n \<le> 512"
    and "\<And>v t. lz_inv P t \<Longrightarrow> lz_out t = lz_out s \<Longrightarrow> v < n \<Longrightarrow> Q v t"
  shows "wp (BIT_TREE P p3 n) Q (lz_stop P) s"
  unfolding BIT_TREE_def wp_bnd wp_ret
  by (rule wp_bit_tree_loop [OF assms(1,2,3)]) (use assms(3,4,5) in auto)

lemma wp_low_bits:
  assumes "lz_inv P s" "p3 + i \<le> num_probs P" "w < i" "i \<le> w * 2 ^ k"
    and "\<And>v t. lz_inv P t \<Longrightarrow> lz_out t = lz_out s \<Longrightarrow> Q v t"
  shows "wp (low_bits k P p3 i n w r) Q (lz_stop P) s"
  using assms
proof (induction k arbitrary: w n r s)
  case (Suc k)
  have p: "p3 + w < num_probs P" using Suc.prems(2,3) by linarith
  have ih: "wp (low_bits k P p3 i m v q) Q (lz_stop P) t"
    if "v < i" "2 * w \<le> v" "lz_inv P t" "lz_out t = lz_out s" for v m q t
  proof (rule Suc.IH [OF that(3) Suc.prems(2) that(1)])
    show "i \<le> v * 2 ^ k" using that(2) Suc.prems(4) by (rule doubling)
  qed (use that(4) Suc.prems(5) in auto)
  show ?case
    unfolding low_bits.simps Let_def wp_bnd
    by (rule wp_bit [OF Suc.prems(1) p])
      (use ih Suc.prems(5) in \<open>auto simp: wp_ret split: prod.splits\<close>)
qed simp

lemma wp_if_Ret:
  "wp (\<lambda>s. if c s then Ret (a s) (f s) else Ret (b s) (g s)) Q E s =
    (if c s then Q (a s) (f s) else Q (b s) (g s))"
  by (simp add: wp_def)

lemma wp_direct_bits:
  assumes "lz_inv P s" "i = push_bit m 1" "5 \<le> m" "m \<le> 31" "m \<le> k + 4"
    and "\<And>q t. lz_inv P t \<Longrightarrow> lz_out t = lz_out s \<Longrightarrow> Q (16, q) t"
  shows "wp (direct_bits k i r) Q (lz_stop P) s"
  using assms
proof (induction k arbitrary: i m r s)
  case (Suc k)
  obtain m' where m: "m = Suc m'" using Suc.prems(3) by (cases m) auto
  have i: "drop_bit 1 i = push_bit m' 1"
    unfolding Suc.prems(2) m by (rule bit_word_eqI) (use Suc.prems(4) m in \<open>auto simp: bit_simps\<close>)
  have i16: "(push_bit m' (1 :: u32) = 16) = (m' = 4)"
  proof -
    have "unat (push_bit m' (1 :: u32)) = 2 ^ m'"
      using Suc.prems(4) m by (simp add: push_bit_eq_mult unat_2p)
    then have "(push_bit m' (1 :: u32) = 16) = ((2 :: nat) ^ m' = 2 ^ 4)" by (simp add: word_unat_eq_iff)
    then show ?thesis by (simp only: power_inject_exp)
  qed
  have ih: "wp (if push_bit m' (1 :: u32) \<noteq> 16 then direct_bits k (push_bit m' 1) q else ret (push_bit m' 1, q)) Q (lz_stop P) t"
    if "lz_inv P t" "lz_out t = lz_out s" for q t
    using Suc.IH [OF that(1), of "push_bit m' 1" m' q] Suc.prems(3-6) m that i16 by (auto simp: wp_ret)
  have inv: "lz_inv P (t\<lparr>lz_range := drop_bit 1 (lz_range t), lz_code := c\<rparr>)" "lz_inv P (t\<lparr>lz_range := drop_bit 1 (lz_range t)\<rparr>)"
    if "lz_inv P t" "2 ^ 24 \<le> unat (lz_range t)" for t c
    using that by (simp_all add: lz_inv_def word_nat)
  show ?case
    unfolding direct_bits.simps wp_thn Let_def i wp_bnd wp_if_Ret
    by (rule wp_normalize [OF Suc.prems(1)]) (use ih inv in \<open>auto simp del: One_nat_def push_bit_of_1\<close>)
qed simp

section \<open>Matches\<close>

lemma wp_match_length:
  assumes "lz_inv P s" "p1 = 818 \<or> p1 = 1332" "k < 16"
    and "\<And>len t. lz_inv P t \<Longrightarrow> lz_out t = lz_out s \<Longrightarrow> 2 \<le> len \<Longrightarrow> len < 274 \<Longrightarrow> Q len t"
  shows "wp (match_length P p1 k) Q (lz_stop P) s"
proof -
  note n = probs_size [of P]
  have p: "p1 < num_probs P" "p1 + 1 < num_probs P" using assms(2) n by auto
  have tree: "wp (BIT_TREE P q m) (\<lambda>v. wp (ret (len + v)) Q (lz_stop P)) (lz_stop P) t"
    if "lz_inv P t" "lz_out t = lz_out s" "2 \<le> len" "len + m \<le> 274" "q + m \<le> num_probs P" "1 < m" for q m len t
    by (rule wp_bit_tree [OF that(1,5,6)]) (use that assms(4) in \<open>auto simp: wp_ret\<close>)
  have "p1 + k * 8 + 2 + 128 + 8 \<le> num_probs P" "p1 + 1 + 256 + 1 + 256 \<le> num_probs P"
    using assms(2,3) n by auto
  then have t: "wp (case x of (len, n, p3) \<Rightarrow> bnd (BIT_TREE P p3 n) (\<lambda>v. ret (len + v))) Q (lz_stop P) t"
    if "lz_inv P t" "lz_out t = lz_out s"
      "x \<in> {(2, 8, p1 + k * 8 + 2), (10, 8, p1 + k * 8 + 2 + 128), (18, 256, p1 + 1 + 256 + 1)}" for x t
    using that by (auto simp: wp_bnd intro!: tree)
  show ?thesis
    unfolding match_length_def wp_bnd
  proof (rule wp_bit [OF assms(1) p(1)])
    fix b t
    assume i: "lz_inv P t" "lz_out t = lz_out s"
    show "wp (if b then ret (2, 8, p1 + k * 8 + 2)
          else bnd (RC_BIT P (p1 + 1)) (\<lambda>bit0.
            if bit0 then ret (10, 8, p1 + k * 8 + 2 + 128) else ret (18, 256, p1 + 1 + 256 + 1)))
       (\<lambda>a. wp (case a of (len, n, p3) \<Rightarrow> bnd (BIT_TREE P p3 n) (\<lambda>v. ret (len + v))) Q (lz_stop P)) (lz_stop P) t"
      by (cases b) (use i t p in \<open>auto simp: wp_ret wp_bnd intro!: wp_bit\<close>)
  qed
qed

lemma unat_slot:
  assumes "v < 64"
  shows "unat (or 2 (of_nat v AND 1) :: u32) = 2 + v mod 2"
proof -
  have a: "of_nat v AND (1 :: u32) = of_nat (v mod 2)"
    using assms by (simp add: and_one_eq word_unat_eq_iff unat_of_nat unat_mod)
  show ?thesis
    by (cases "v mod 2 = 0") (simp_all add: a)
qed

lemma wp_match_distance:
  assumes "lz_inv P s"
    and "\<And>r t. lz_inv P t \<Longrightarrow> lz_out t = lz_out s \<Longrightarrow> Q r t"
  shows "wp (match_distance P len) Q (lz_stop P) s"
  unfolding match_distance_def wp_bnd
proof (rule wp_bit_tree [OF assms(1)])
  show "304 + (if len < 6 then len else 5) * 64 + 64 \<le> num_probs P" using probs_size [of P] by simp
  fix v t
  assume i: "lz_inv P t" "lz_out t = lz_out s" and v: "v < (64 :: nat)"
  let ?n = "v div 2 - 1"
  let ?r = "push_bit ?n (or 2 (of_nat v AND 1)) :: u32"
  have d: "wp (direct_bits 32 (push_bit ?n 1) ?r)
      (\<lambda>a. wp (case a of (i, r) \<Rightarrow> low_bits 32 P 802 (unat i) 1 1 r) R (lz_stop P)) (lz_stop P) t"
    if "6 \<le> ?n" "\<And>r u. lz_inv P u \<Longrightarrow> lz_out u = lz_out s \<Longrightarrow> R r u" for R
    by (rule wp_direct_bits [OF i(1) refl])
      (use v that i probs_size [of P] in \<open>auto intro!: wp_low_bits\<close>)
  have l: "wp (low_bits 32 P (687 + unat ?r - v) (unat (push_bit ?n (1 :: u32))) 1 1 ?r) R (lz_stop P) t"
    if "?n < 6" "3 < v" "\<And>r u. lz_inv P u \<Longrightarrow> lz_out u = lz_out s \<Longrightarrow> R r u" for R
  proof -
    have small: "m \<in> {1, 2, 3, 4, 5}" if "1 \<le> m" "m < 6" for m :: nat using that by auto
    have n: "?n \<in> {1, 2, 3, 4, 5}" by (rule small) (use that(1,2) in linarith)+
    have i': "unat (push_bit ?n (1 :: u32)) = 2 ^ ?n"
      using that(1) unat_2p [of ?n] by (simp add: push_bit_eq_mult)
    have "unat ?r = (2 + v mod 2) * 2 ^ ?n"
      using n unat_slot [OF v] by (auto simp: push_bit_eq_mult unat_word_ariths)
    then have "687 + unat ?r - v + unat (push_bit ?n (1 :: u32)) \<le> num_probs P"
      unfolding i' using n probs_size [of P] by auto
    then show ?thesis
      by (rule wp_low_bits [OF i(1)]) (use n i' i that(3) in auto)
  qed
  show "wp (if v > 3 then
       let n = v div 2 - 1; i = push_bit n 1; r = push_bit n (or 2 (of_nat v AND 1))
       in if n < 6 then low_bits 32 P (687 + unat r - v) (unat i) 1 1 r
          else bnd (direct_bits 32 i r) (\<lambda>(i, r). low_bits 32 P 802 (unat i) 1 1 r)
       else ret (of_nat v)) (\<lambda>r. wp (ret (r + 1)) Q (lz_stop P)) (lz_stop P) t"
    unfolding Let_def using l d i assms(2)
    by (cases "v > 3"; cases "?n < 6") (simp_all add: wp_ret wp_bnd)
qed simp_all

lemma wp_match_kind:
  assumes "lz_inv P s" "p3 < 192" "lz_state c < 12"
    and "\<And>c' len p1 t. lz_inv P t \<Longrightarrow> lz_out t = lz_out s \<Longrightarrow> lz_value c' = lz_value c \<Longrightarrow>
      lz_state c' \<in> {0, 3, 8, 9, 11} \<Longrightarrow> len \<le> 1 \<Longrightarrow> p1 = 818 \<or> p1 = 1332 \<Longrightarrow> Q (c', len, p1) t"
  shows "wp (match_kind P p3 c) Q (lz_stop P) s"
proof -
  have p: "192 + lz_state c < num_probs P" "192 + lz_state c + 12 < num_probs P"
    "192 + lz_state c + 24 < num_probs P" "192 + lz_state c + 36 < num_probs P" "p3 + 240 < num_probs P"
    using probs_size [of P] assms(2,3) by simp_all
  have st: "or 0 8 \<in> {0, 3, 8, 9, 11 :: nat}" "or 0 9 \<in> {0, 3, 8, 9, 11 :: nat}"
    "or 3 8 \<in> {0, 3, 8, 9, 11 :: nat}" "or 3 9 \<in> {0, 3, 8, 9, 11 :: nat}" by simp_all
  show ?thesis
    unfolding match_kind_def Let_def wp_bnd
    by (rule wp_bit [OF assms(1) p(1)])
      (use assms(1,4) p st in \<open>auto simp: wp_ret wp_bnd split: prod.splits if_splits intro!: wp_bit\<close>)
qed

section \<open>Copying\<close>

lemma wp_back_byte:
  assumes "0 < rep" "unat rep \<le> length (lz_out s)" "\<And>b. Q b s"
  shows "wp (back_byte rep) Q E s"
  using assms by (simp add: back_byte_def wp_def Let_def word_less_nat_alt)

lemma wp_put_byte:
  assumes "lz_inv P s" "lz_inv P (s\<lparr>lz_out := lz_out s @ [b]\<rparr>) \<Longrightarrow> Q () (s\<lparr>lz_out := lz_out s @ [b]\<rparr>)"
  shows "wp (put_byte P b) Q (lz_stop P) s"
proof (cases "length (lz_out s) = dst_size P")
  case True
  then show ?thesis using wp_lz_err [OF assms(1)] by (simp add: put_byte_def wp_def)
next
  case False
  then have "lz_inv P (s\<lparr>lz_out := lz_out s @ [b]\<rparr>)" using assms(1) by (simp add: lz_inv_def)
  then show ?thesis using False assms(2) by (simp add: put_byte_def wp_def)
qed

lemma wp_copy_loop:
  assumes "lz_inv P s" "0 < rep" "unat rep \<le> length (lz_out s)" "0 < len"
    and "\<And>b t. lz_inv P t \<Longrightarrow> length (lz_out t) = length (lz_out s) + len \<Longrightarrow> Q b t"
  shows "wp (copy_loop P rep len) Q (lz_stop P) s"
  using assms
proof (induction len arbitrary: s)
  case (Suc len)
  show ?case
    unfolding copy_loop.simps wp_bnd wp_thn
    by (rule wp_back_byte [OF Suc.prems(2,3)], rule wp_put_byte [OF Suc.prems(1)])
      (use Suc.prems in \<open>auto simp: wp_ret intro!: Suc.IH\<close>)
qed simp

section \<open>The main loop\<close>

definition lz_ctl :: "lzc \<Rightarrow> lz \<Rightarrow> bool" where
  "lz_ctl c s = (lz_state c < 12 \<and> lz_value c < 256 \<and>
     (7 \<le> lz_state c \<longrightarrow> 0 < rep0 c \<and> unat (rep0 c) \<le> length (lz_out s)))"

definition lz_par :: "lzp \<Rightarrow> bool" where
  "lz_par P = (lz_lc P \<le> 8 \<and> lz_pb P \<le> 4)"

lemma literal_index:
  assumes "lc \<le> 8" "v < (256 :: nat)"
  shows "x mod 2 ^ lp * 2 ^ lc + v div 2 ^ (8 - lc) < 2 ^ (lc + lp)"
proof -
  have "(256 :: nat) = 2 ^ lc * 2 ^ (8 - lc)" using assms(1) by (simp flip: power_add)
  then have a: "v div 2 ^ (8 - lc) < 2 ^ lc" using assms(2) by (simp add: less_mult_imp_div_less)
  have "Suc (x mod 2 ^ lp) \<le> 2 ^ lp" by (simp add: Suc_leI)
  then have "Suc (x mod 2 ^ lp) * 2 ^ lc \<le> 2 ^ lp * 2 ^ lc" by (rule mult_le_mono1)
  then show ?thesis using a by (simp add: power_add mult.commute)
qed

lemma wp_literal:
  assumes "lz_inv P s" "lz_par P" "lz_ctl c s"
    and "\<And>c' t. lz_inv P t \<Longrightarrow> lz_out t = lz_out s \<Longrightarrow> lz_value c' < 256 \<Longrightarrow> lz_state c' < 7 \<Longrightarrow> Q c' t"
  shows "wp (lz_literal P c) Q (lz_stop P) s"
proof -
  let ?k = "length (lz_out s) mod 2 ^ lz_lp P * 2 ^ lz_lc P + lz_value c div 2 ^ (8 - lz_lc P)"
  let ?st = "lz_state c - (if lz_state c < 4 then lz_state c else if 9 < lz_state c then 6 else 3)"
  have "Suc ?k \<le> 2 ^ (lz_lc P + lz_lp P)"
    using literal_index [of "lz_lc P" "lz_value c"] assms(2,3) by (simp add: lz_par_def lz_ctl_def Suc_leI)
  then have "768 * Suc ?k \<le> 768 * 2 ^ (lz_lc P + lz_lp P)" by (rule mult_le_mono2)
  then have p: "1846 + 768 * ?k + 768 \<le> num_probs P" unfolding num_probs_def by simp
  have st: "?st < 7" using assms(3) by (auto simp: lz_ctl_def)
  have lit: "wp (literal_loop 8 P (1846 + 768 * ?k) i offset 1)
      (\<lambda>v. wp (ret (c\<lparr>lz_state := ?st, lz_value := v mod 256\<rparr>)) Q (lz_stop P)) (lz_stop P) s"
    if "offset = 0 \<or> offset = 0x100" for i offset
    by (rule wp_literal_loop [OF assms(1) p that]) (use st assms(4) in \<open>auto simp: wp_ret\<close>)
  have bk: "wp (back_byte (rep0 c)) R (lz_stop P) s" if "7 \<le> lz_state c" "\<And>b. R b s" for R
    using that assms(3) by (auto simp: lz_ctl_def intro: wp_back_byte)
  show ?thesis
    unfolding lz_literal_def wp_bnd wp_gets Let_def
    using lit by (cases "\<not> hack P \<and> 7 \<le> lz_state c") (auto simp: wp_ret wp_bnd intro!: bk)
qed

text \<open>The end of a match: the checks, and the copy.\<close>

lemma wp_copy_part:
  assumes "lz_inv P s" "lz_state c < 12" "0 < len"
    and "Q None s"
    and "\<And>c' t. lz_inv P t \<Longrightarrow> lz_ctl c' t \<Longrightarrow> length (lz_out s) < length (lz_out t) \<Longrightarrow> Q (Some c') t"
  shows "wp (if rep0 c = 0 then ret None
     else bnd (gets (\<lambda>s. length (lz_out s))) (\<lambda>pos.
       if rep0 c > dict_size P then lz_err
       else if unat (rep0 c) > pos then lz_err
       else if max_size P - of_nat pos < of_nat len then lz_err
       else bnd (copy_loop P (rep0 c) len) (\<lambda>b. ret (Some (c\<lparr>lz_value := unat b\<rparr>))))) Q (lz_stop P) s"
proof (cases "rep0 c = 0")
  case False
  have "lz_ctl (c\<lparr>lz_value := unat b\<rparr>) t"
    if "unat (rep0 c) \<le> length (lz_out s)" "length (lz_out t) = length (lz_out s) + len" for b :: byte and t
    using that assms(2) False byte_less [of b] by (simp add: lz_ctl_def word_neq_0_conv)
  then have "wp (copy_loop P (rep0 c) len) (\<lambda>b. wp (ret (Some (c\<lparr>lz_value := unat b\<rparr>))) Q (lz_stop P)) (lz_stop P) s"
    if "unat (rep0 c) \<le> length (lz_out s)"
    using that False assms by (auto simp: wp_ret word_neq_0_conv intro!: wp_copy_loop)
  then show ?thesis using False by (simp add: wp_bnd wp_gets wp_lz_err [OF assms(1)])
qed (use assms(4) in \<open>simp add: wp_ret\<close>)

lemma wp_match:
  assumes "lz_inv P s" "p3 < 192" "k < 16" "lz_state c < 12"
    and "\<And>t. lz_inv P t \<Longrightarrow> Q None t"
    and "\<And>c' t. lz_inv P t \<Longrightarrow> lz_ctl c' t \<Longrightarrow> length (lz_out s) < length (lz_out t) \<Longrightarrow> Q (Some c') t"
  shows "wp (lz_match P p3 k c) Q (lz_stop P) s"
  unfolding lz_match_def wp_bnd
proof (rule wp_match_kind [OF assms(1,2,4)])
  fix c' :: lzc and len p1 :: nat and t
  assume i: "lz_inv P t" "lz_out t = lz_out s" and st: "lz_state c' \<in> {0, 3, 8, 9, 11}"
    and len: "len \<le> 1" and p1: "p1 = 818 \<or> p1 = 1332"
  let ?A = "\<lambda>(c, len). if rep0 c = 0 then ret None
     else bnd (gets (\<lambda>s. length (lz_out s))) (\<lambda>pos.
       if rep0 c > dict_size P then lz_err
       else if unat (rep0 c) > pos then lz_err
       else if max_size P - of_nat pos < of_nat len then lz_err
       else bnd (copy_loop P (rep0 c) len) (\<lambda>b. ret (Some (c\<lparr>lz_value := unat b\<rparr>))))"
  have A: "wp (?A (c', len)) Q (lz_stop P) u"
    if "lz_inv P u" "lz_out u = lz_out s" "lz_state c' < 12" "0 < len" for c' len u
    unfolding prod.case by (rule wp_copy_part) (use that assms(5,6) in auto)
  have l: "wp (match_length P p1 k) R (lz_stop P) t"
    if "\<And>n u. lz_inv P u \<Longrightarrow> lz_out u = lz_out s \<Longrightarrow> 2 \<le> n \<Longrightarrow> R n u" for R
    by (rule wp_match_length [OF i(1) p1 assms(3)]) (use that i(2) in auto)
  have "wp (match_length P p1 k) (\<lambda>n. wp (if lz_state c' < 4
      then bnd (match_distance P n) (\<lambda>r. ret (c'\<lparr>lz_state := lz_state c' + 7, rep0 := r\<rparr>, n))
      else ret (c', n)) (\<lambda>a. wp (?A a) Q (lz_stop P)) (lz_stop P)) (lz_stop P) t"
  proof (rule l)
    fix n u
    assume u: "lz_inv P u" "lz_out u = lz_out s" "2 \<le> (n :: nat)"
    have "wp (match_distance P n) (\<lambda>r. wp (ret (c'\<lparr>lz_state := lz_state c' + 7, rep0 := r\<rparr>, n))
        (\<lambda>a. wp (?A a) Q (lz_stop P)) (lz_stop P)) (lz_stop P) u" if "lz_state c' < 4"
      unfolding wp_ret by (rule wp_match_distance [OF u(1)], rule A) (use u that in auto)
    moreover have "wp (?A (c', n)) Q (lz_stop P) u" by (rule A) (use u st in auto)
    ultimately show "wp (if lz_state c' < 4
      then bnd (match_distance P n) (\<lambda>r. ret (c'\<lparr>lz_state := lz_state c' + 7, rep0 := r\<rparr>, n))
      else ret (c', n)) (\<lambda>a. wp (?A a) Q (lz_stop P)) (lz_stop P) u"
      by (cases "lz_state c' < 4") (simp_all only: if_True if_False wp_bnd wp_ret)
  qed
  moreover have "wp (?A (c', len)) Q (lz_stop P) t" if "len \<noteq> 0" by (rule A) (use i st that in auto)
  ultimately show "wp (case (c', len, p1) of (c, len, p1) \<Rightarrow>
     bnd (if len = 0 then
            bnd (match_length P p1 k) (\<lambda>len.
              if lz_state c < 4
              then bnd (match_distance P len) (\<lambda>r. ret (c\<lparr>lz_state := lz_state c + 7, rep0 := r\<rparr>, len))
              else ret (c, len))
          else ret (c, len)) ?A) Q (lz_stop P) t"
    by (cases "len = 0") (simp_all only: simp_thms if_True if_False prod.case wp_bnd wp_ret)
qed

lemma wp_step:
  assumes "lz_inv P s" "lz_par P" "lz_ctl c s"
    and "\<And>t. lz_inv P t \<Longrightarrow> Q None t"
    and "\<And>c' t. lz_inv P t \<Longrightarrow> lz_ctl c' t \<Longrightarrow> length (lz_out s) < length (lz_out t) \<Longrightarrow> Q (Some c') t"
  shows "wp (lz_step P c) Q (lz_stop P) s"
proof -
  let ?k = "length (lz_out s) mod 2 ^ lz_pb P"
  have "(2 :: nat) ^ lz_pb P \<le> 2 ^ 4"
    using assms(2) by (intro power_increasing) (simp_all add: lz_par_def)
  moreover have "?k < 2 ^ lz_pb P" by simp
  ultimately have k: "?k < 16" by (simp del: mod_less_divisor)
  have st: "lz_state c < 12" using assms(3) by (simp add: lz_ctl_def)
  have p3: "lz_state c * 16 + ?k < 192" using k st by linarith
  have p: "lz_state c * 16 + ?k < num_probs P" using p3 probs_size [of P] by linarith
  show ?thesis
    unfolding lz_step_def wp_bnd wp_gets Let_def
  proof (rule wp_bit [OF assms(1) p])
    fix b t
    assume t: "lz_inv P t" "lz_out t = lz_out s"
    have "lz_ctl c t" using assms(3) t(2) by (simp add: lz_ctl_def)
    then have lit: "wp (lz_literal P c) (\<lambda>c. wp (thn (put_byte P (of_nat (lz_value c))) (ret (Some c))) Q (lz_stop P)) (lz_stop P) t"
      unfolding wp_thn wp_ret
      by (rule wp_literal [OF t(1) assms(2)], intro wp_put_byte)
        (use t(2) assms(5) in \<open>auto simp: lz_ctl_def\<close>)
    have "wp (lz_match P (lz_state c * 16 + ?k) ?k c) Q (lz_stop P) t"
      by (rule wp_match [OF t(1) p3 k st]) (use assms(4,5) t(2) in auto)
    with lit show "wp (if b then bnd (lz_literal P c) (\<lambda>c. thn (put_byte P (of_nat (lz_value c))) (ret (Some c)))
       else lz_match P (lz_state c * 16 + ?k) ?k c) Q (lz_stop P) t"
      by (cases b) (simp_all only: if_True if_False wp_bnd)
  qed
qed

lemma wp_loop:
  assumes "lz_inv P s" "lz_par P" "lz_ctl c s" "dst_size P < length (lz_out s) + fuel"
    and "\<And>t. lz_inv P t \<Longrightarrow> Q () t"
  shows "wp (lz_loop fuel P c) Q (lz_stop P) s"
  using assms
proof (induction fuel arbitrary: c s)
  case 0
  then show ?case by (simp add: lz_inv_def)
next
  case (Suc fuel)
  have "wp (lz_step P c) (\<lambda>r. wp (case r of None \<Rightarrow> ret () | Some c \<Rightarrow> lz_loop fuel P c) Q (lz_stop P)) (lz_stop P) s"
    by (rule wp_step [OF Suc.prems(1-3)]) (use Suc in \<open>auto simp: wp_ret\<close>)
  then show ?case
    using Suc.prems(1,5) by (subst lz_loop.simps) (simp add: wp_bnd wp_gets wp_ret)
qed

section \<open>The header\<close>

definition lz_early :: "exit_reason \<Rightarrow> lz \<Rightarrow> bool" where
  "lz_early e s = (e = ErrExit ''err'' [] \<and> lz_out s = [])"

lemma wp_lz_read:
  assumes "lz_out s = []" "\<And>a src. lz_src s = a # src \<Longrightarrow> Q a (s\<lparr>lz_src := src\<rparr>)"
  shows "wp RC_READ_BYTE Q lz_early s"
  using assms
  by (cases "lz_src s") (auto simp: RC_READ_BYTE_def wp_def lz_early_def lz_err_def err_exit_def)

lemma wp_read_bytes:
  assumes "lz_out s = []" "\<And>bs src. length bs = n \<Longrightarrow> lz_src s = bs @ src \<Longrightarrow> Q bs (s\<lparr>lz_src := src\<rparr>)"
  shows "wp (read_bytes n) Q lz_early s"
  using assms
proof (induction n arbitrary: s Q)
  case 0
  show ?case using 0(2) [of "[]" "lz_src s"] by (simp add: wp_ret)
next
  case (Suc n)
  show ?case
    unfolding read_bytes.simps wp_bnd wp_ret
    by (rule wp_lz_read [OF Suc.prems(1)], rule Suc.IH) (use Suc.prems in auto)
qed

text \<open>What the header of an input has to be for the decoder to get past it.\<close>

definition lz_header_ok :: "byte list \<Rightarrow> bool" where
  "lz_header_ok src = (18 \<le> length src \<and> unat (src ! 0) < 225 \<and> src ! 13 = 0)"

lemma lz_header_ok_append:
  assumes "length d = 4" "length m = 8" "length cd = 4" "\<not> 4 < unat a div 9 div 5"
  shows "lz_header_ok (a # d @ m @ 0 # cd @ src)"
proof -
  have "unat a < 225" using assms(4) by (simp add: div_mult2_eq [symmetric] not_less)
  moreover have "(a # d @ m @ 0 # cd @ src) ! 13 = 0"
    using assms(1,2) by (simp add: nth_append)
  ultimately show ?thesis using assms(1-3) by (simp add: lz_header_ok_def)
qed

lemma wp_header:
  assumes "lz_out s = []"
    and "\<And>P t. lz_header_ok (lz_src s) \<Longrightarrow> lz_out t = [] \<Longrightarrow> lz_range t = lz_range s \<Longrightarrow> lz_par P \<Longrightarrow>
      dst_size P = cap \<Longrightarrow> Q P t"
  shows "wp (lz_header cap hk) Q lz_early s"
proof -
  have err: "wp lz_err R lz_early t" if "lz_out t = []" for R :: "lzp \<Rightarrow> lz \<Rightarrow> bool" and t
    using that by (simp add: lz_err_def wp_err_exit lz_early_def)
  show ?thesis
    unfolding lz_header_def Let_def wp_bnd wp_thn
    by (rule wp_lz_read [OF assms(1)])
      (use assms lz_header_ok_append in
        \<open>auto simp: wp_bnd wp_thn wp_modify wp_ret lz_par_def err less_Suc_eq_le [symmetric] mod_less_divisor
        intro!: wp_read_bytes wp_lz_read\<close>)
qed

section \<open>Every input\<close>

lemma decode_lzma_total:
  "\<exists>code left out. decode_lzma hk mem_ok src cap = Some (code, left, out) \<and> length out \<le> cap"
proof -
  let ?s = "\<lparr>lz_src = src, lz_out = [], lz_probs = (\<lambda>_. 0), lz_range = - 1, lz_code = 0\<rparr>"
  let ?E = "\<lambda>e t. e = ErrExit ''err'' [] \<and> length (lz_out t) \<le> cap"
  let ?c = "\<lparr>lz_state = 0, rep0 = 1, rep1 = 1, rep2 = 1, rep3 = 1, lz_value = 0\<rparr>"
  have run: "wp (lz_loop (cap + 1) P ?c) (\<lambda>_. wp RC_NORMALIZE (\<lambda>_ t. length (lz_out t) \<le> cap) ?E) ?E (t\<lparr>lz_probs := (\<lambda>_. 1024)\<rparr>)"
    if t: "lz_out t = []" "lz_range t = - 1" "lz_par P" "dst_size P = cap" for P t
  proof -
    have "lz_inv P (t\<lparr>lz_probs := (\<lambda>_. 1024)\<rparr>)" "lz_ctl ?c (t\<lparr>lz_probs := (\<lambda>_. 1024)\<rparr>)"
      using t by (simp_all add: lz_inv_def lz_ctl_def unsigned_minus_1_eq_mask mask_eq_exp_minus_1)
    then have "wp (lz_loop (cap + 1) P ?c) (\<lambda>_. wp RC_NORMALIZE (\<lambda>_ t. length (lz_out t) \<le> cap) (lz_stop P)) (lz_stop P) (t\<lparr>lz_probs := (\<lambda>_. 1024)\<rparr>)"
      using t by (intro wp_loop wp_normalize) (auto simp: lz_inv_def)
    then show ?thesis
      by (rule wp_mono) (use t in \<open>auto simp: lz_stop_def elim: wp_mono\<close>)
  qed
  have "wp (lz_header cap hk) (\<lambda>P. wp (if \<not> mem_ok then lz_err
     else thn (modify (\<lambda>s. s\<lparr>lz_probs := (\<lambda>_. 1024)\<rparr>)) (thn (lz_loop (cap + 1) P ?c) RC_NORMALIZE))
       (\<lambda>_ t. length (lz_out t) \<le> cap) ?E) lz_early ?s"
    using run by (intro wp_header) (auto simp: wp_thn wp_modify lz_err_def wp_err_exit)
  then have "wp (lz_body cap hk mem_ok) (\<lambda>_ t. length (lz_out t) \<le> cap) ?E ?s"
    unfolding lz_body_def wp_bnd by (rule wp_mono) (auto simp: lz_early_def)
  then show ?thesis
    by (auto simp: decode_lzma_def wp_def split: outcome.splits)
qed

text \<open>
  C16: \<open>decode_lzma\<close> on any bytes whatever, with any output buffer and whether or not
  \<open>malloc\<close> succeeds, returns: no index leaves the probability table, no match reaches back
  before the start of the output, no byte is written past the end of the buffer, and every
  loop ends (\<open>None\<close> would be an access out of bounds or a loop that used up its rounds).
\<close>

theorem decode_lzma_safe:
  "\<exists>code left out. decode_lzma hk mem_ok src cap = Some (code, left, out) \<and> length out \<le> cap"
  by (rule decode_lzma_total)

text \<open>
  An input that is shorter than the 18 bytes of the header, whose property byte is out of
  range or whose 14th byte is not zero, and a failing \<open>malloc\<close>, are answered with the code
  \<open>~0\<close> and no output.
\<close>

theorem decode_lzma_header_error:
  assumes "length src < 18 \<or> 225 \<le> unat (src ! 0) \<or> src ! 13 \<noteq> 0 \<or> \<not> mem_ok"
  shows "\<exists>left. decode_lzma hk mem_ok src cap = Some (- 1, left, [])"
proof -
  let ?s = "\<lparr>lz_src = src, lz_out = [], lz_probs = (\<lambda>_. 0), lz_range = - 1, lz_code = 0\<rparr>"
  have "wp (lz_body cap hk mem_ok) (\<lambda>_ _. False) lz_early ?s"
    unfolding lz_body_def wp_bnd
    by (rule wp_header) (use assms in \<open>auto simp: lz_header_ok_def lz_err_def wp_err_exit lz_early_def\<close>)
  then show ?thesis
    by (auto simp: decode_lzma_def wp_def lz_early_def split: outcome.splits)
qed

theorem decode_lzma_header_error_witness:
  "\<exists>left. decode_lzma False True [0xff] 16 = Some (- 1, left, [])"
  by (rule decode_lzma_header_error) simp

section \<open>The arithmetic and the copies\<close>



text \<open>
  A match copies byte by byte from \<open>rep\<close> bytes back, so a match that is longer than its
  distance repeats the last \<open>rep\<close> bytes of the output until it is full.
\<close>

theorem copy_loop_repeats:
  assumes "0 < len" "0 < rep" "unat rep \<le> length (lz_out s)" "length (lz_out s) + len \<le> dst_size P"
  shows "\<exists>b. copy_loop P rep len s = Ret b (s\<lparr>lz_out := lz_out s @
    map (\<lambda>i. lz_out s ! (length (lz_out s) - unat rep + i mod unat rep)) [0..<len]\<rparr>)"
  using assms
proof (induction len arbitrary: s)
  case (Suc len)
  let ?n = "length (lz_out s)" and ?d = "unat rep"
  have d: "0 < ?d" "?d \<le> ?n" using Suc.prems(2,3) by (simp_all add: word_less_nat_alt)
  let ?f = "\<lambda>i. lz_out s ! (?n - ?d + i mod ?d)"
  let ?t = "s\<lparr>lz_out := lz_out s @ [?f 0]\<rparr>"
  have b: "back_byte rep s = Ret (?f 0) s" using d by (simp add: back_byte_def Let_def)
  have p: "put_byte P (?f 0) s = Ret () ?t" using Suc.prems(4) by (simp add: put_byte_def)
  have step: "copy_loop P rep (Suc len) s = (if len \<noteq> 0 then copy_loop P rep len else ret (?f 0)) ?t"
    unfolding copy_loop.simps thn_def bnd_def b outcome.case p ..
  show ?case
  proof (cases "len = 0")
    case False
    have "lz_out ?t ! (Suc ?n - ?d + i mod ?d) = ?f (Suc i)" for i
    proof (cases "Suc (i mod ?d) = ?d")
      case True
      then show ?thesis using d by (simp add: mod_Suc nth_append)
    next
      case False
      then have "Suc (i mod ?d) < ?d" using d(1) by (simp add: Suc_lessI)
      then have "?n - ?d + Suc (i mod ?d) < ?n" "Suc ?n - ?d + i mod ?d = ?n - ?d + Suc (i mod ?d)" using d(2) by linarith+
      moreover have "Suc i mod ?d = Suc (i mod ?d)" using False by (simp add: mod_Suc)
      ultimately show ?thesis by (simp add: nth_append)
    qed
    then have m: "map (\<lambda>i. lz_out ?t ! (length (lz_out ?t) - ?d + i mod ?d)) [0..<len] = map ?f [Suc 0..<Suc len]"
      by (simp add: map_Suc_upt [symmetric] comp_def del: upt_Suc)
    have "\<exists>b. copy_loop P rep len ?t = Ret b (?t\<lparr>lz_out := lz_out ?t @
        map (\<lambda>i. lz_out ?t ! (length (lz_out ?t) - ?d + i mod ?d)) [0..<len]\<rparr>)"
      by (rule Suc.IH) (use Suc.prems False in auto)
    then show ?thesis unfolding m step using False by (simp add: upt_conv_Cons del: upt_Suc)
  next
    case True
    then show ?thesis unfolding step by (simp add: ret_def)
  qed
qed simp

theorem copy_loop_repeats_witness:
  "\<exists>b. copy_loop \<lparr>lz_lc = 3, lz_lp = 0, lz_pb = 2, dict_size = 4096, max_size = 7, dst_size = 7, hack = False\<rparr> 2 5
     \<lparr>lz_src = [], lz_out = [1, 2], lz_probs = (\<lambda>_. 1024), lz_range = 0, lz_code = 0\<rparr> =
   Ret b \<lparr>lz_src = [], lz_out = [1, 2, 1, 2, 1, 2, 1], lz_probs = (\<lambda>_. 1024), lz_range = 0, lz_code = 0\<rparr>"
  using copy_loop_repeats [of 5 2 "\<lparr>lz_src = [], lz_out = [1, 2], lz_probs = (\<lambda>_. 1024), lz_range = 0, lz_code = 0\<rparr>"
    "\<lparr>lz_lc = 3, lz_lp = 0, lz_pb = 2, dict_size = 4096, max_size = 7, dst_size = 7, hack = False\<rparr>"]
  by (simp add: upt_rec)

end
