(* ===== verification/FwBase.thy ===== *)
theory FwBase
  imports CMonad CStd
begin

text \<open>
  What the parts of fphelper/main.c share: the state of the program (the files it has
  written, what it has printed, the clues it has collected about the firmware), the
  environment (whether an allocation of a size succeeds, that of the LZMA decoder's table, and
  the content of fresh memory, the byte that follows a string literal that is read too far, and
  the two bytes in front of the image in memory),
  printing and files, and reading words from an image. What is printed is the list of formats
  with their arguments; line ends and the backslashes before them are left out. An image is a
  list of bytes; a word read past its end has zeros there, where the C code gets what the
  memory holds or is stopped.
\<close>

unbundle bit_operations_syntax

section \<open>State\<close>

text \<open>\<open>clues\<close>. \<open>trapgami\<close> is the offset in the image that the pointer stands for.\<close>

record clues_t =
  trapgami :: "nat option"
  ps_addr :: u32
  kern_addr :: u32
  pinmap_offs :: u32
  keymap_addr :: u32
  cl_chip :: nat
  drps_type :: nat

record fpo =
  fp_files :: "string \<Rightarrow> byte list option"
  fp_may :: "string \<Rightarrow> bool"
  fp_out :: "(string \<times> parg list) list"
  fp_errs :: "(string \<times> parg list) list"

record fph = fpo +
  clues :: clues_t
  init_count :: nat

record fpenv =
  malloc_ok :: "nat \<Rightarrow> bool"
  probs_ok :: bool
  junk :: "nat \<Rightarrow> byte"
  past_literal :: byte
  before_image :: u16

text \<open>
  A statement of any program of the directory (with the files and the output as part of its
  state), and of fphelper.
\<close>

type_synonym ('z, 'a) fpom = "('z fpo_scheme, 'a) cm"

type_synonym 'a fpm = "(fph, 'a) cm"

section \<open>Output\<close>

definition pr :: "string \<Rightarrow> parg list \<Rightarrow> ('z fpo_scheme, unit) cm" where
  "pr fmt args = modify (\<lambda>s. s\<lparr>fp_out := fp_out s @ [(fmt, args)]\<rparr>)"

definition pr_err :: "string \<Rightarrow> parg list \<Rightarrow> ('z fpo_scheme, unit) cm" where
  "pr_err fmt args = modify (\<lambda>s. s\<lparr>fp_errs := fp_errs s @ [(fmt, args)]\<rparr>)"

definition PN :: "nat \<Rightarrow> parg" where "PN n = PI (int n)"
definition PW :: "u32 \<Rightarrow> parg" where "PW w = PI (uint w)"

fun for_each :: "('a \<Rightarrow> ('s, unit) cm) \<Rightarrow> 'a list \<Rightarrow> ('s, unit) cm" where
  "for_each f [] = ret ()"
| "for_each f (x # xs) = thn (f x) (for_each f xs)"

definition set_clue :: "(clues_t \<Rightarrow> clues_t) \<Rightarrow> unit fpm" where
  "set_clue f = modify (\<lambda>s. s\<lparr>clues := f (clues s)\<rparr>)"

text \<open>\<open>fopen(name, "wb")\<close>: the file is emptied; the message of the callers if it fails.\<close>

definition open_out :: "string \<Rightarrow> ('z fpo_scheme, bool) cm" where
  "open_out name = bnd (gets (\<lambda>s. fp_may s name)) (\<lambda>ok.
     if ok then thn (modify (\<lambda>s. s\<lparr>fp_files := (fp_files s)(name \<mapsto> [])\<rparr>)) (ret True) else ret False)"

definition append_out :: "string \<Rightarrow> byte list \<Rightarrow> ('z fpo_scheme, unit) cm" where
  "append_out name bs = modify (\<lambda>s. s\<lparr>fp_files := (fp_files s)(name \<mapsto> (case fp_files s name of None \<Rightarrow> [] | Some old \<Rightarrow> old) @ bs)\<rparr>)"

definition save_out :: "string \<Rightarrow> byte list \<Rightarrow> ('z fpo_scheme, unit) cm" where
  "save_out name bs = bnd (open_out name) (\<lambda>ok.
     if ok then append_out name bs else pr_err ''fopen(output) failed'' [])"

section \<open>Reading\<close>

definition u8at :: "byte list \<Rightarrow> nat \<Rightarrow> byte" where
  "u8at bs o' = (if o' < length bs then bs ! o' else 0)"

definition w16 :: "byte list \<Rightarrow> nat \<Rightarrow> u16" where
  "w16 bs o' = ucast (READ16_LE (u8at bs) o')"

definition w32 :: "byte list \<Rightarrow> nat \<Rightarrow> u32" where
  "w32 bs o' = READ32_LE (u8at bs) o'"

section \<open>Printing and files return\<close>

lemma returns_pr [returns]: "returns (pr fmt args) (\<lambda>_. True)"
  unfolding pr_def by (intro returns) simp

lemma returns_pr_err [returns]: "returns (pr_err fmt args) (\<lambda>_. True)"
  unfolding pr_err_def by (intro returns) simp

lemma returns_for_each [returns]: "(\<And>x. returns (f x) (\<lambda>_. True)) \<Longrightarrow> returns (for_each f xs) (\<lambda>_. True)"
  by (induction xs) (auto intro: returns)

lemma returns_open_out: "returns (open_out name) (\<lambda>_. True)"
  unfolding open_out_def by (rule returns_bnd [where P = "\<lambda>_. True"]) (auto intro: returns returns_gets)

lemma returns_save_out [returns]: "returns (save_out name bs) (\<lambda>_. True)"
  unfolding save_out_def append_out_def
  by (rule returns_bnd [OF returns_open_out]) (auto intro: returns)

end
