(* ===== verification/FwLz.thy ===== *)
theory FwLz
  imports FwBase LzmaDec
begin

text \<open>
  The decompressors of fphelper/main.c: plain copying, the two byte-oriented LZ formats of
  the initialisation tables, the wrappers of the LZMA decoder, and the command that runs one
  of them on a part of the image. The output buffer is never NULL (the callers allocate it).
\<close>

unbundle bit_operations_syntax

section \<open>Input and output of the LZ decoders\<close>

record lzd =
  lz_in :: "byte list"
  lz_dst :: "byte list"

type_synonym 'a lzdm = "(lzd, 'a) cm"

text \<open>The macros: \<open>END\<close> leaves the decoder from wherever it is. \<open>OUT\<close> evaluates its
  argument after the test of the buffer's end.\<close>

definition END :: "'a lzdm" where "END = err_exit ''END'' []"

definition IN :: "byte lzdm" where
  "IN = (\<lambda>s. case lz_in s of [] \<Rightarrow> END s | a # r \<Rightarrow> Ret a (s\<lparr>lz_in := r\<rparr>))"

definition OUT :: "nat \<Rightarrow> (lzd \<Rightarrow> byte) \<Rightarrow> unit lzdm" where
  "OUT cap x = (\<lambda>s. if length (lz_dst s) = cap then END s else Ret () (s\<lparr>lz_dst := lz_dst s @ [x s]\<rparr>))"

definition CHECK_DIST :: "nat \<Rightarrow> unit lzdm" where
  "CHECK_DIST x = (\<lambda>s. if x > length (lz_dst s) then END s else Ret () s)"

text \<open>\<open>dst[-dist]\<close>; at distance 0 that is the byte of the fresh buffer.\<close>

definition dst_back :: "(nat \<Rightarrow> byte) \<Rightarrow> nat \<Rightarrow> lzd \<Rightarrow> byte" where
  "dst_back J dist s = (let n = length (lz_dst s) in if dist = 0 then J n else lz_dst s ! (n - dist))"

fun repeat :: "nat \<Rightarrow> unit lzdm \<Rightarrow> unit lzdm" where
  "repeat 0 m = ret ()"
| "repeat (Suc n) m = thn m (repeat n m)"

text \<open>\<open>skip\<close> and \<open>len\<close>, which take a byte of their own when their bits are zero.\<close>

definition get_skip :: "nat \<Rightarrow> nat lzdm" where
  "get_skip skip = (if skip = 0 then bnd IN (\<lambda>a. if a = 0 then END else ret (unat a)) else ret skip)"

definition get_len :: "nat \<Rightarrow> nat lzdm" where
  "get_len len = (if len = 0 then bnd IN (\<lambda>a. ret (unat a)) else ret len)"

definition literals :: "nat \<Rightarrow> nat \<Rightarrow> unit lzdm" where
  "literals cap skip = repeat (skip - 1) (bnd IN (\<lambda>tmp. OUT cap (\<lambda>_. tmp)))"

definition copies :: "nat \<Rightarrow> (nat \<Rightarrow> byte) \<Rightarrow> nat \<Rightarrow> nat \<Rightarrow> unit lzdm" where
  "copies cap J dist len = thn (CHECK_DIST dist) (repeat (len + 1) (OUT cap (dst_back J dist)))"

section \<open>The decoders\<close>

definition lzdec3_round :: "nat \<Rightarrow> (nat \<Rightarrow> byte) \<Rightarrow> unit lzdm" where
  "lzdec3_round cap J = bnd IN (\<lambda>code. bnd (get_skip (unat (code AND 7))) (\<lambda>skip.
     bnd (get_len (unat (drop_bit 4 code))) (\<lambda>len. thn (literals cap skip)
     (if code AND 8 \<noteq> 0 then bnd IN (\<lambda>dist. copies cap J (unat dist) (len + 1))
      else repeat len (OUT cap (\<lambda>_. 0))))))"

definition lzdec2_round :: "nat \<Rightarrow> (nat \<Rightarrow> byte) \<Rightarrow> unit lzdm" where
  "lzdec2_round cap J = bnd IN (\<lambda>code. bnd (get_skip (unat (code AND 3))) (\<lambda>skip.
     bnd (get_len (unat (drop_bit 4 code))) (\<lambda>len. thn (literals cap skip)
     (if len \<noteq> 0 then bnd IN (\<lambda>dist.
        let tmp = unat (drop_bit 2 code AND 3)
        in bnd (if tmp = 3 then bnd IN (\<lambda>a. ret (unat a)) else ret tmp) (\<lambda>tmp.
          copies cap J (or (unat dist) (push_bit 8 tmp)) (len + 1)))
      else ret ()))))"

text \<open>\<open>do \<dots> while (dst < dst_end)\<close>; every round reads a byte, which bounds the rounds.\<close>

fun lz_rounds :: "nat \<Rightarrow> nat \<Rightarrow> unit lzdm \<Rightarrow> unit lzdm" where
  "lz_rounds 0 cap body = no_fuel"
| "lz_rounds (Suc k) cap body = thn body (bnd (gets (\<lambda>s. length (lz_dst s))) (\<lambda>n.
     if n < cap then lz_rounds k cap body else ret ()))"

text \<open>The result: how much of the input was used, and the output.\<close>

definition lz_result :: "byte list \<Rightarrow> unit lzdm \<Rightarrow> (nat \<times> byte list) option" where
  "lz_result src m = (case m \<lparr>lz_in = src, lz_dst = []\<rparr> of
       Ret _ s \<Rightarrow> Some (length src - length (lz_in s), lz_dst s)
     | Exit _ s \<Rightarrow> Some (length src - length (lz_in s), lz_dst s)
     | OutOfFuel _ \<Rightarrow> None)"

definition sprd_lzdec3 :: "(nat \<Rightarrow> byte) \<Rightarrow> byte list \<Rightarrow> nat \<Rightarrow> (nat \<times> byte list) option" where
  "sprd_lzdec3 J src cap = lz_result src (lz_rounds (Suc (length src)) cap (lzdec3_round cap J))"

definition sprd_lzdec2 :: "(nat \<Rightarrow> byte) \<Rightarrow> byte list \<Rightarrow> nat \<Rightarrow> (nat \<times> byte list) option" where
  "sprd_lzdec2 J src cap = lz_result src (lz_rounds (Suc (length src)) cap (lzdec2_round cap J))"

definition decode_copy :: "byte list \<Rightarrow> nat \<Rightarrow> (nat \<times> byte list) option" where
  "decode_copy src cap = (let n = length src; n = (if n > cap then cap else n) in Some (n, take n src))"

definition decode_zero :: "byte list \<Rightarrow> nat \<Rightarrow> (nat \<times> byte list) option" where
  "decode_zero src cap = Some (0, replicate cap 0)"

section \<open>The LZMA wrappers\<close>

text \<open>
  The build uses the decoder of lzmadec.h (WITH_LZMADEC is 2). Unlike the others that one
  sets \<open>*src_size\<close> to the bytes it has left over.
\<close>

definition decode_lzma_impl :: "bool \<Rightarrow> fpenv \<Rightarrow> byte list \<Rightarrow> nat \<Rightarrow> ('z, nat \<times> byte list) fpom" where
  "decode_lzma_impl hk E src cap =
     (case LzmaDec.decode_lzma hk (probs_ok E) src cap of
        None \<Rightarrow> no_fuel
      | Some (code, left, out) \<Rightarrow>
          thn (cwhen (code \<noteq> 0) (pr ''!!! LzmaDecode: data error'' [])) (ret (left, out)))"

definition decode_lzma_std :: "fpenv \<Rightarrow> byte list \<Rightarrow> nat \<Rightarrow> ('z, nat \<times> byte list) fpom" where
  "decode_lzma_std = decode_lzma_impl False"

definition sprd_lzmadec :: "fpenv \<Rightarrow> byte list \<Rightarrow> nat \<Rightarrow> ('z, nat \<times> byte list) fpom" where
  "sprd_lzmadec = decode_lzma_impl True"

section \<open>Running a decoder on a part of the image\<close>

datatype decode_fn = Copy | Lzdec2 | Lzdec3 | Lzmadec | LzmadecSprd

definition of_result :: "(nat \<times> byte list) option \<Rightarrow> ('z, nat \<times> byte list) fpom" where
  "of_result r = (case r of None \<Rightarrow> no_fuel | Some x \<Rightarrow> ret x)"

fun call_decoder :: "fpenv \<Rightarrow> decode_fn \<Rightarrow> byte list \<Rightarrow> nat \<Rightarrow> ('z, nat \<times> byte list) fpom" where
  "call_decoder E Copy src cap = of_result (decode_copy src cap)"
| "call_decoder E Lzdec2 src cap = of_result (sprd_lzdec2 (junk E) src cap)"
| "call_decoder E Lzdec3 src cap = of_result (sprd_lzdec3 (junk E) src cap)"
| "call_decoder E Lzmadec src cap = decode_lzma_std E src cap"
| "call_decoder E LzmadecSprd src cap = sprd_lzmadec E src cap"

definition size_arg :: "string \<Rightarrow> nat" where
  "size_arg str = unat (word_of_int (fst (strtoll 0 str)) :: u64)"

text \<open>\<open>argv\<close> begins at the command; \<open>ERR_EXIT\<close> ends the program with status 1.\<close>

definition run_decoder :: "fpenv \<Rightarrow> byte list \<Rightarrow> string list \<Rightarrow> decode_fn \<Rightarrow> ('z, unit) fpom" where
  "run_decoder E fw argv f =
     (if length argv \<le> 3 then err_exit ''bad command'' []
      else let src_addr = size_arg (argv ! 1); cap = size_arg (argv ! 2); outfn = argv ! 3
      in if src_addr \<ge> length fw then err_exit ''addr >= filesize'' []
      else let src_size = length fw - src_addr
      in if \<not> malloc_ok E cap then err_exit ''malloc failed'' []
      else bnd (call_decoder E f (drop src_addr fw) cap) (\<lambda>(src_size, out).
        thn (pr ''src: 0x%zx-0x%zx, size = 0x%zx; dst: size = %zd / %zd''
          [PN src_addr, PN (src_addr + src_size), PN src_size, PN (length out), PN cap])
        (save_out outfn out)))"

end
