(* ===== verification/FwLzRt.thy ===== *)
theory FwLzRt
  imports FwLz
begin

text \<open>
  The LZ formats of the initialisation tables: the decoders stay in their buffers and end on
  every input, and they expand a sequence of tokens that is written in the format.
\<close>

unbundle bit_operations_syntax

section \<open>Staying in the buffers\<close>

text \<open>\<open>m\<close> ends, takes input only from the front of what is left, and does not overfill.\<close>

definition in_bounds :: "nat \<Rightarrow> lzd \<Rightarrow> lzd \<Rightarrow> bool" where
  "in_bounds cap s t = (length (lz_in t) \<le> length (lz_in s) \<and> length (lz_dst t) \<le> cap)"

definition contained :: "nat \<Rightarrow> 'a lzdm \<Rightarrow> bool" where
  "contained cap m = (\<forall>s. length (lz_dst s) \<le> cap \<longrightarrow> wp m (\<lambda>_. in_bounds cap s) (\<lambda>_. in_bounds cap s) s)"

named_theorems contained \<open>what stays in the buffers\<close>

lemma containedI:
  "(\<And>s. length (lz_dst s) \<le> cap \<Longrightarrow> wp m (\<lambda>_. in_bounds cap s) (\<lambda>_. in_bounds cap s) s) \<Longrightarrow> contained cap m"
  by (simp add: contained_def)

lemma contained_bnd [contained]:
  assumes "contained cap m" "\<And>a. contained cap (f a)"
  shows "contained cap (bnd m f)"
proof (rule containedI)
  fix s :: lzd
  assume "length (lz_dst s) \<le> cap"
  then have "wp m (\<lambda>_. in_bounds cap s) (\<lambda>_. in_bounds cap s) s" using assms(1) by (simp add: contained_def)
  then show "wp (bnd m f) (\<lambda>_. in_bounds cap s) (\<lambda>_. in_bounds cap s) s"
    unfolding wp_bnd
  proof (rule wp_mono)
    fix a t
    assume t: "in_bounds cap s t"
    then have "wp (f a) (\<lambda>_. in_bounds cap t) (\<lambda>_. in_bounds cap t) t"
      using assms(2) by (simp add: contained_def in_bounds_def)
    then show "wp (f a) (\<lambda>_. in_bounds cap s) (\<lambda>_. in_bounds cap s) t"
      by (rule wp_mono) (use t in \<open>auto simp: in_bounds_def\<close>)
  qed
qed

lemma contained_thn [contained]: "contained cap m \<Longrightarrow> contained cap n \<Longrightarrow> contained cap (thn m n)"
  unfolding thn_def by (rule contained_bnd)

lemma contained_ret [contained]: "contained cap (ret a)"
  by (simp add: contained_def wp_ret in_bounds_def)

lemma contained_if [contained]: "contained cap m \<Longrightarrow> contained cap n \<Longrightarrow> contained cap (if b then m else n)"
  by simp

lemma contained_END [contained]: "contained cap END"
  by (simp add: contained_def END_def wp_err_exit in_bounds_def)

lemma contained_IN [contained]: "contained cap IN"
  by (auto simp: contained_def IN_def END_def err_exit_def wp_def in_bounds_def split: list.split)

lemma contained_OUT [contained]: "contained cap (OUT cap x)"
  by (auto simp: contained_def OUT_def END_def err_exit_def wp_def in_bounds_def)

lemma contained_CHECK_DIST [contained]: "contained cap (CHECK_DIST x)"
  by (auto simp: contained_def CHECK_DIST_def END_def err_exit_def wp_def in_bounds_def)

lemma contained_repeat [contained]: "contained cap m \<Longrightarrow> contained cap (repeat n m)"
  by (induction n) (simp_all add: contained)

text \<open>A round that starts with \<open>IN\<close> uses up at least a byte when it gets to its end.\<close>

lemma wp_round:
  assumes "length (lz_dst s) \<le> cap" "\<And>a. contained cap (f a)"
  shows "wp (bnd IN f) (\<lambda>_ t. in_bounds cap s t \<and> length (lz_in t) < length (lz_in s)) (\<lambda>_. in_bounds cap s) s"
proof (cases "lz_in s")
  case Nil
  then show ?thesis using assms(1) by (simp add: wp_def bnd_def IN_def END_def err_exit_def in_bounds_def)
next
  case (Cons a r)
  have "wp (f a) (\<lambda>_. in_bounds cap (s\<lparr>lz_in := r\<rparr>)) (\<lambda>_. in_bounds cap (s\<lparr>lz_in := r\<rparr>)) (s\<lparr>lz_in := r\<rparr>)"
    using assms by (simp add: contained_def)
  then have "wp (f a) (\<lambda>_ t. in_bounds cap s t \<and> length (lz_in t) < length (lz_in s)) (\<lambda>_. in_bounds cap s) (s\<lparr>lz_in := r\<rparr>)"
    by (rule wp_mono) (use Cons in \<open>auto simp: in_bounds_def\<close>)
  then show ?thesis using Cons unfolding wp_bnd wp_def [of IN] by (simp add: IN_def)
qed

lemma wp_rounds:
  assumes "length (lz_dst s) \<le> cap" "length (lz_in s) < k" "\<And>a. contained cap (f a)"
  shows "wp (lz_rounds k cap (bnd IN f)) (\<lambda>_. in_bounds cap s) (\<lambda>_. in_bounds cap s) s"
  using assms(1,2)
proof (induction k arbitrary: s)
  case (Suc k)
  show ?case
    unfolding lz_rounds.simps wp_thn
  proof (rule wp_mono [OF wp_round [OF Suc.prems(1) assms(3)]])
    fix t
    assume t: "in_bounds cap s t \<and> length (lz_in t) < length (lz_in s)"
    then have "wp (lz_rounds k cap (bnd IN f)) (\<lambda>_. in_bounds cap t) (\<lambda>_. in_bounds cap t) t"
      using Suc.prems(2) by (intro Suc.IH) (auto simp: in_bounds_def)
    then have "wp (lz_rounds k cap (bnd IN f)) (\<lambda>_. in_bounds cap s) (\<lambda>_. in_bounds cap s) t"
      by (rule wp_mono) (use t in \<open>auto simp: in_bounds_def\<close>)
    then show "wp (bnd (gets (\<lambda>s. length (lz_dst s))) (\<lambda>n. if n < cap then lz_rounds k cap (bnd IN f) else ret ()))
        (\<lambda>_. in_bounds cap s) (\<lambda>_. in_bounds cap s) t"
      using t by (simp add: wp_bnd wp_gets wp_ret)
  qed
qed simp

lemma result_in_bounds:
  assumes "wp m (\<lambda>_. in_bounds cap \<lparr>lz_in = src, lz_dst = []\<rparr>) (\<lambda>_. in_bounds cap \<lparr>lz_in = src, lz_dst = []\<rparr>) \<lparr>lz_in = src, lz_dst = []\<rparr>"
  shows "\<exists>n out. lz_result src m = Some (n, out) \<and> n \<le> length src \<and> length out \<le> cap"
  using assms by (auto simp: lz_result_def wp_def in_bounds_def split: outcome.splits)

lemma lzdec_total:
  "(\<exists>n out. sprd_lzdec3 J src cap = Some (n, out) \<and> n \<le> length src \<and> length out \<le> cap) \<and>
   (\<exists>n out. sprd_lzdec2 J src cap = Some (n, out) \<and> n \<le> length src \<and> length out \<le> cap)"
  unfolding sprd_lzdec3_def sprd_lzdec2_def lzdec3_round_def lzdec2_round_def
  by (intro conjI result_in_bounds wp_rounds)
    (simp_all add: get_skip_def get_len_def literals_def copies_def Let_def contained)

text \<open>
  C21: The two LZ decoders return on every input; they use no more than the input there is
  and fill no more than the output buffer.
\<close>

theorem lzdec_in_bounds:
  "(\<exists>n out. sprd_lzdec3 J src cap = Some (n, out) \<and> n \<le> length src \<and> length out \<le> cap) \<and>
   (\<exists>n out. sprd_lzdec2 J src cap = Some (n, out) \<and> n \<le> length src \<and> length out \<le> cap)"
  by (rule lzdec_total)

section \<open>Tokens\<close>

text \<open>
  What the formats say: a token is a string of literals followed by zeros or by a copy of
  what was written \<open>d\<close> bytes ago.
\<close>

datatype lz_tok = Zeros "byte list" nat | Match "byte list" nat nat

fun copy_from :: "byte list \<Rightarrow> nat \<Rightarrow> nat \<Rightarrow> byte list" where
  "copy_from out d 0 = out"
| "copy_from out d (Suc n) = copy_from (out @ [out ! (length out - d)]) d n"

fun expand :: "byte list \<Rightarrow> lz_tok \<Rightarrow> byte list" where
  "expand out (Zeros l n) = out @ l @ replicate n 0"
| "expand out (Match l d n) = copy_from (out @ l) d n"

fun expand_all :: "byte list \<Rightarrow> lz_tok list \<Rightarrow> byte list" where
  "expand_all out [] = out"
| "expand_all out (t # ts) = expand_all (expand out t) ts"

lemma copy_from_numeral [simp]:
  "copy_from out d (numeral k) = copy_from (out @ [out ! (length out - d)]) d (pred_numeral k)"
  by (simp add: numeral_eq_Suc)

lemma length_copy_from [simp]: "length (copy_from out d n) = length out + n"
  by (induction n arbitrary: out) simp_all

fun tok_lits :: "lz_tok \<Rightarrow> byte list" where
  "tok_lits (Zeros l n) = l"
| "tok_lits (Match l d n) = l"

text \<open>Which tokens the two formats can write, after \<open>n0\<close> bytes of output; none is empty.\<close>

fun tok3_ok :: "nat \<Rightarrow> lz_tok \<Rightarrow> bool" where
  "tok3_ok n0 (Zeros l n) = (length l < 255 \<and> n < 256 \<and> 0 < length l + n)"
| "tok3_ok n0 (Match l d n) = (length l < 255 \<and> 2 \<le> n \<and> n < 258 \<and> 1 \<le> d \<and> d < 256 \<and> d \<le> n0 + length l)"

fun tok2_ok :: "nat \<Rightarrow> lz_tok \<Rightarrow> bool" where
  "tok2_ok n0 (Zeros l n) = (length l < 255 \<and> n = 0 \<and> 0 < length l)"
| "tok2_ok n0 (Match l d n) = (length l < 255 \<and> 3 \<le> n \<and> n < 258 \<and> 1 \<le> d \<and> d < 0x10000 \<and> d \<le> n0 + length l)"

fun toks_ok :: "(nat \<Rightarrow> lz_tok \<Rightarrow> bool) \<Rightarrow> nat \<Rightarrow> lz_tok list \<Rightarrow> bool" where
  "toks_ok ok n0 [] = True"
| "toks_ok ok n0 (t # ts) = (ok n0 t \<and> toks_ok ok (length (expand (replicate n0 0) t)) ts)"

text \<open>The encoders. A field that does not fit its bits is zero there and has its own byte.\<close>

definition bits_of :: "nat \<Rightarrow> nat \<Rightarrow> nat" where "bits_of m n = (if 0 < n \<and> n < m then n else 0)"
definition byte_of :: "nat \<Rightarrow> nat \<Rightarrow> byte list" where "byte_of m n = (if 0 < n \<and> n < m then [] else [of_nat n])"

fun enc3 :: "lz_tok \<Rightarrow> byte list" where
  "enc3 (Zeros l n) = of_nat (bits_of 8 (length l + 1) + 16 * bits_of 16 n) #
     byte_of 8 (length l + 1) @ byte_of 16 n @ l"
| "enc3 (Match l d n) = of_nat (bits_of 8 (length l + 1) + 8 + 16 * bits_of 16 (n - 2)) #
     byte_of 8 (length l + 1) @ byte_of 16 (n - 2) @ l @ [of_nat d]"

fun enc2 :: "lz_tok \<Rightarrow> byte list" where
  "enc2 (Zeros l n) = of_nat (bits_of 4 (length l + 1)) # byte_of 4 (length l + 1) @ [0] @ l"
| "enc2 (Match l d n) = of_nat (bits_of 4 (length l + 1) + 4 * min 3 (d div 256) + 16 * bits_of 16 (n - 2)) #
     byte_of 4 (length l + 1) @ byte_of 16 (n - 2) @ l @
     [of_nat (d mod 256)] @ (if 3 \<le> d div 256 then [of_nat (d div 256)] else [])"

section \<open>Running the pieces\<close>

named_theorems lz_runs \<open>execution of the pieces of the decoders\<close>

lemma run_IN [lz_runs]: "bnd IN f \<lparr>lz_in = a # r, lz_dst = out\<rparr> = f a \<lparr>lz_in = r, lz_dst = out\<rparr>"
  by (simp add: bnd_def IN_def)

lemma run_thnI: "m s = Ret () t \<Longrightarrow> thn m n s = n t"
  by (simp add: thn_def bnd_def)

lemma run_get_skip [lz_runs]:
  assumes "0 < k" "k < 256" "a = bits_of m k" "bs = byte_of m k"
  shows "bnd (get_skip a) f \<lparr>lz_in = bs @ r, lz_dst = out\<rparr> = f k \<lparr>lz_in = r, lz_dst = out\<rparr>"
  using assms by (auto simp: get_skip_def bits_of_def byte_of_def bnd_def IN_def ret_def unat_of_nat word_unat_eq_iff)

lemma run_get_len [lz_runs]:
  assumes "k < 256" "a = bits_of m k" "bs = byte_of m k"
  shows "bnd (get_len a) f \<lparr>lz_in = bs @ r, lz_dst = out\<rparr> = f k \<lparr>lz_in = r, lz_dst = out\<rparr>"
  using assms by (auto simp: get_len_def bits_of_def byte_of_def bnd_def IN_def ret_def unat_of_nat)

lemma run_literals:
  assumes "length out + length l \<le> cap"
  shows "literals cap (length l + 1) \<lparr>lz_in = l @ r, lz_dst = out\<rparr> = Ret () \<lparr>lz_in = r, lz_dst = out @ l\<rparr>"
  using assms
  by (induction l arbitrary: out) (simp_all add: literals_def thn_def bnd_def IN_def OUT_def ret_def)

lemma run_zeros:
  assumes "length out + n \<le> cap"
  shows "repeat n (OUT cap (\<lambda>_. 0)) \<lparr>lz_in = r, lz_dst = out\<rparr> = Ret () \<lparr>lz_in = r, lz_dst = out @ replicate n 0\<rparr>"
  using assms by (induction n arbitrary: out) (simp_all add: thn_def bnd_def OUT_def ret_def)

lemma run_copy:
  assumes "1 \<le> d" "d \<le> length out" "length out + n \<le> cap"
  shows "repeat n (OUT cap (dst_back J d)) \<lparr>lz_in = r, lz_dst = out\<rparr> = Ret () \<lparr>lz_in = r, lz_dst = copy_from out d n\<rparr>"
  using assms by (induction n arbitrary: out) (simp_all add: thn_def bnd_def OUT_def ret_def dst_back_def Let_def)

lemma run_copies:
  assumes "1 \<le> d" "d \<le> length out" "length out + n \<le> cap" "n = len + 1"
  shows "copies cap J d len \<lparr>lz_in = r, lz_dst = out\<rparr> = Ret () \<lparr>lz_in = r, lz_dst = copy_from out d n\<rparr>"
proof -
  have "CHECK_DIST d \<lparr>lz_in = r, lz_dst = out\<rparr> = Ret () \<lparr>lz_in = r, lz_dst = out\<rparr>"
    using assms(2) by (simp add: CHECK_DIST_def)
  then show ?thesis unfolding copies_def using run_copy [OF assms(1-3)] assms(4) by (simp add: run_thnI)
qed

lemma run_lits:
  assumes "length out + length l \<le> cap" "k = length l + 1"
  shows "thn (literals cap k) m \<lparr>lz_in = l @ r, lz_dst = out\<rparr> = m \<lparr>lz_in = r, lz_dst = out @ l\<rparr>"
  unfolding assms(2) by (rule run_thnI) (rule run_literals [OF assms(1)])

lemma unat_of_byte: "n < 256 \<Longrightarrow> unat (of_nat n :: byte) = n"
  by (simp add: unat_of_nat)

text \<open>The fields of the first byte.\<close>

lemma code_fields:
  fixes a :: byte
  shows "unat (a AND 7) = unat a mod 8" "unat (a AND 3) = unat a mod 4" "unat (drop_bit 4 a) = unat a div 16"
    "unat (drop_bit 2 a AND 3) = unat a div 4 mod 4" "(a AND 8 \<noteq> 0) = odd (unat a div 8)"
proof -
  have m: "(7 :: byte) = mask 3" "(3 :: byte) = mask 2" by (simp_all add: mask_eq_exp_minus_1)
  show "unat (a AND 7) = unat a mod 8" unfolding m take_bit_eq_mask [symmetric]
    by (simp add: unsigned_take_bit_eq word_nat)
  show "unat (a AND 3) = unat a mod 4" "unat (drop_bit 2 a AND 3) = unat a div 4 mod 4"
    unfolding m take_bit_eq_mask [symmetric] by (simp_all add: unsigned_take_bit_eq word_nat)
  show "unat (drop_bit 4 a) = unat a div 16" by (simp add: word_nat)
  have "(a AND 8 \<noteq> 0) = bit a 3" using and_exp_eq_0_iff_not_bit [of a 3] by simp
  also have "\<dots> = bit (unat a) 3" by (simp add: bit_unsigned_iff)
  also have "\<dots> = odd (unat a div 8)" by (simp add: bit_iff_odd)
  finally show "(a AND 8 \<noteq> 0) = odd (unat a div 8)" .
qed

section \<open>A token is decoded\<close>

lemma bits_of_less: "0 < m \<Longrightarrow> bits_of m n < m"
  by (simp add: bits_of_def)

lemma code3:
  assumes "a = of_nat (bits_of 8 k + 8 * b + 16 * bits_of 16 n)" "b < (2 :: nat)"
  shows "unat (a AND 7 :: byte) = bits_of 8 k" "unat (drop_bit 4 a) = bits_of 16 n" "(a AND 8 \<noteq> 0) = (b = 1)"
proof -
  have l: "bits_of 8 k < 8" "bits_of 16 n < 16" by (simp_all add: bits_of_less)
  then have "bits_of 8 k + 8 * b + 16 * bits_of 16 n < 256" using assms(2) by linarith
  then have u: "unat a = bits_of 8 k + 8 * b + 16 * bits_of 16 n" unfolding assms(1) by (rule unat_of_byte)
  have e: "bits_of 8 k + 8 * b + 16 * bits_of 16 n = bits_of 8 k + 8 * (b + 2 * bits_of 16 n)" by simp
  show "unat (a AND 7) = bits_of 8 k" unfolding code_fields u e using l(1) by (simp only: mod_mult_self2 mod_less)
  have "bits_of 8 k + 8 * b < 16" using l assms(2) by linarith
  then show "unat (drop_bit 4 a) = bits_of 16 n" by (simp add: code_fields u)
  have "(bits_of 8 k + 8 * b + 16 * bits_of 16 n) div 8 = b + 2 * bits_of 16 n"
    using l(1) by (intro div_nat_eqI) simp_all
  moreover have "b = 0 \<or> b = 1" using assms(2) by auto
  ultimately show "(a AND 8 \<noteq> 0) = (b = 1)" by (auto simp: code_fields u)
qed

lemma code2:
  assumes "a = of_nat (bits_of 4 k + 4 * b + 16 * bits_of 16 n)" "b < (4 :: nat)"
  shows "unat (a AND 3 :: byte) = bits_of 4 k" "unat (drop_bit 4 a) = bits_of 16 n" "unat (drop_bit 2 a AND 3) = b"
proof -
  have l: "bits_of 4 k < 4" "bits_of 16 n < 16" by (simp_all add: bits_of_less)
  then have "bits_of 4 k + 4 * b + 16 * bits_of 16 n < 256" using assms(2) by linarith
  then have u: "unat a = bits_of 4 k + 4 * b + 16 * bits_of 16 n" unfolding assms(1) by (rule unat_of_byte)
  have e: "bits_of 4 k + 4 * b + 16 * bits_of 16 n = bits_of 4 k + 4 * (b + 4 * bits_of 16 n)" by simp
  show "unat (a AND 3) = bits_of 4 k" unfolding code_fields u e using l(1) by (simp only: mod_mult_self2 mod_less)
  have "bits_of 4 k + 4 * b < 16" using l assms(2) by linarith
  then show "unat (drop_bit 4 a) = bits_of 16 n" by (simp add: code_fields u)
  have "(bits_of 4 k + 4 * b + 16 * bits_of 16 n) div 4 = b + 4 * bits_of 16 n"
    using l(1) by (intro div_nat_eqI) simp_all
  then show "unat (drop_bit 2 a AND 3) = b" unfolding code_fields(4) u using assms(2) by simp
qed

lemma round3:
  assumes "tok3_ok (length out) t" "length (expand out t) \<le> cap"
  shows "lzdec3_round cap J \<lparr>lz_in = enc3 t @ r, lz_dst = out\<rparr> = Ret () \<lparr>lz_in = r, lz_dst = expand out t\<rparr>"
proof (cases t)
  case (Zeros l n)
  define a where "a = (of_nat (bits_of 8 (length l + 1) + 8 * 0 + 16 * bits_of 16 n) :: byte)"
  have e: "enc3 t = a # byte_of 8 (length l + 1) @ byte_of 16 n @ l" by (simp add: Zeros a_def)
  have p: "(0 :: nat) < 2" "0 < length l + 1" by simp_all
  note c = code3 [OF a_def p(1)]
  have k: "length l + 1 < 256" "n < 256" "length out + length l \<le> cap" "length (out @ l) + n \<le> cap"
    using assms by (simp_all add: Zeros)
  show ?thesis
    unfolding lzdec3_round_def e append_Cons append_assoc run_IN c
      run_get_skip [OF p(2) k(1) refl refl] run_get_len [OF k(2) refl refl] run_lits [OF k(3) refl]
    using k(4) by (simp add: Zeros run_zeros)
next
  case (Match l d n)
  define a where "a = (of_nat (bits_of 8 (length l + 1) + 8 * 1 + 16 * bits_of 16 (n - 2)) :: byte)"
  have e: "enc3 t = a # byte_of 8 (length l + 1) @ byte_of 16 (n - 2) @ l @ [of_nat d]" by (simp add: Match a_def)
  have p: "(1 :: nat) < 2" "0 < length l + 1" by simp_all
  note c = code3 [OF a_def p(1)]
  have k: "length l + 1 < 256" "n - 2 < 256" "length out + length l \<le> cap"
    and d: "unat (of_nat d :: byte) = d" "1 \<le> d" "d \<le> length (out @ l)" "length (out @ l) + n \<le> cap" "n = n - 2 + 1 + 1"
    using assms by (auto simp: Match unat_of_byte)
  show ?thesis
    unfolding lzdec3_round_def e append_Cons append_assoc run_IN c
      run_get_skip [OF p(2) k(1) refl refl] run_get_len [OF k(2) refl refl] run_lits [OF k(3) refl]
    using run_copies [OF d(2-5)] by (simp add: Match run_IN d(1))
qed

lemma or_push8:
  assumes "x < 256"
  shows "or x (push_bit 8 y) = x + 256 * (y :: nat)"
proof -
  have x: "take_bit 8 x = x" using assms by (simp add: take_bit_nat_eq_self)
  have "bit x i \<Longrightarrow> i < 8" for i using bit_take_bit_iff [of 8 x i] unfolding x by simp
  then have "x + push_bit 8 y = or x (push_bit 8 y)"
    by (intro disjunctive_add) (auto simp: bit_push_bit_iff not_le)
  then show ?thesis by (simp add: push_bit_eq_mult)
qed

lemma round2:
  assumes "tok2_ok (length out) t" "length (expand out t) \<le> cap"
  shows "lzdec2_round cap J \<lparr>lz_in = enc2 t @ r, lz_dst = out\<rparr> = Ret () \<lparr>lz_in = r, lz_dst = expand out t\<rparr>"
proof (cases t)
  case (Zeros l n)
  define a where "a = (of_nat (bits_of 4 (length l + 1) + 4 * 0 + 16 * bits_of 16 0) :: byte)"
  have e: "enc2 t = a # byte_of 4 (length l + 1) @ byte_of 16 0 @ l"
    by (simp add: Zeros a_def bits_of_def byte_of_def)
  have p: "(0 :: nat) < 4" "0 < length l + 1" "(0 :: nat) < 256" by simp_all
  note c = code2 [OF a_def p(1)]
  have k: "length l + 1 < 256" "length out + length l \<le> cap"
    using assms by (simp_all add: Zeros)
  show ?thesis
    unfolding lzdec2_round_def e append_Cons append_assoc run_IN c
      run_get_skip [OF p(2) k(1) refl refl] run_get_len [OF p(3) refl refl] run_lits [OF k(2) refl]
    using assms(1) by (simp add: Zeros ret_def)
next
  case (Match l d n)
  define b where "b = min 3 (d div 256)"
  define a where "a = (of_nat (bits_of 4 (length l + 1) + 4 * b + 16 * bits_of 16 (n - 2)) :: byte)"
  let ?d = "of_nat (d mod 256) # (if 3 \<le> d div 256 then [of_nat (d div 256) :: byte] else [])"
  have e: "enc2 t = a # byte_of 4 (length l + 1) @ byte_of 16 (n - 2) @ l @ ?d" by (simp add: Match a_def b_def)
  have p: "b < 4" "0 < length l + 1" by (simp_all add: b_def)
  note c = code2 [OF a_def p(1)]
  have k: "length l + 1 < 256" "n - 2 < 256" "length out + length l \<le> cap"
    and d: "1 \<le> d" "d \<le> length (out @ l)" "length (out @ l) + n \<le> cap" "n = n - 2 + 1 + 1" and n: "n - 2 \<noteq> 0" and d2: "d < 65536"
    using assms by (auto simp: Match)
  have dd: "unat (of_nat (d mod 256) :: byte) = d mod 256" "unat (of_nat (d div 256) :: byte) = d div 256"
    using d2 by (simp_all add: unat_of_byte less_mult_imp_div_less)
  have u: "or (d mod 256) (push_bit 8 (d div 256)) = d" by (simp add: or_push8)
  show ?thesis
    unfolding lzdec2_round_def e append_Cons append_assoc run_IN c
      run_get_skip [OF p(2) k(1) refl refl] run_get_len [OF k(2) refl refl] run_lits [OF k(3) refl]
    using run_copies [OF d] n
    by (cases "3 \<le> d div 256") (simp_all add: Match run_IN dd u b_def Let_def bnd_assoc)
qed

section \<open>A sequence of tokens is decoded\<close>

lemma copy_from_cong: "length a = length b \<Longrightarrow> length (expand a t) = length (expand b t)"
  by (cases t) simp_all

lemma length_expand_all: "length out \<le> length (expand_all out ts)"
proof (induction ts arbitrary: out)
  case (Cons t ts)
  have "length out \<le> length (expand out t)" by (cases t) simp_all
  then show ?case using Cons [of "expand out t"] by simp
qed simp

lemma run_tokens:
  assumes "\<And>out t r. ok (length out) t \<Longrightarrow> length (expand out t) \<le> cap \<Longrightarrow>
      body \<lparr>lz_in = enc t @ r, lz_dst = out\<rparr> = Ret () \<lparr>lz_in = r, lz_dst = expand out t\<rparr>"
    and grow: "\<And>out t. ok (length out) t \<Longrightarrow> length out < length (expand out t)"
    and "toks_ok ok (length out) ts" "ts \<noteq> []" "cap = length (expand_all out ts)" "length ts \<le> k"
  shows "lz_rounds k cap body \<lparr>lz_in = concat (map enc ts), lz_dst = out\<rparr> = Ret () \<lparr>lz_in = [], lz_dst = expand_all out ts\<rparr>"
  using assms(3-6)
proof (induction ts arbitrary: out k)
  case (Cons t ts)
  obtain k' where k: "k = Suc k'" using Cons.prems(4) by (cases k) auto
  have t: "ok (length out) t" using Cons.prems(1) by simp
  have c: "length (expand out t) \<le> cap" using Cons.prems(3) length_expand_all [of "expand out t" ts] by simp
  have "length (expand (replicate (length out) 0) t) = length (expand out t)" by (rule copy_from_cong) simp
  then have ts: "toks_ok ok (length (expand out t)) ts" using Cons.prems(1) by simp
  have step: "lz_rounds k cap body \<lparr>lz_in = concat (map enc (t # ts)), lz_dst = out\<rparr> =
      (if length (expand out t) < cap then lz_rounds k' cap body else ret ()) \<lparr>lz_in = concat (map enc ts), lz_dst = expand out t\<rparr>"
    using assms(1) [OF t c, of "concat (map enc ts)"] by (simp add: k thn_def bnd_def gets_def)
  show ?case
  proof (cases ts)
    case Nil
    then show ?thesis using Cons.prems(3) step by (simp add: ret_def)
  next
    case (Cons t2 ts2)
    have "length (expand out t) < length (expand (expand out t) t2)" using ts Cons by (intro grow) simp
    also have "\<dots> \<le> cap" using Cons.prems(3) Cons length_expand_all [of "expand (expand out t) t2" ts2] by simp
    finally show ?thesis
      using step Cons.IH [OF ts, of k'] Cons Cons.prems(3,4) k by simp
  qed
qed simp

lemma tok3_grows: "tok3_ok (length out) t \<Longrightarrow> length out < length (expand out t)"
  by (cases t) auto

lemma tok2_grows: "tok2_ok (length out) t \<Longrightarrow> length out < length (expand out t)"
  by (cases t) auto

lemma rounds_enough:
  assumes "\<And>t. enc t \<noteq> []"
  shows "length ts \<le> Suc (length (concat (map enc ts)))"
proof -
  have "length ts \<le> length (concat (map enc ts))"
  proof (induction ts)
    case (Cons t ts)
    have "0 < length (enc t)" using assms by simp
    then have "1 \<le> length (enc t)" by linarith
    then have "1 + length ts \<le> length (enc t) + length (concat (map enc ts))" using Cons by (rule add_mono)
    then show ?case by simp
  qed simp
  then show ?thesis by simp
qed

lemma enc_not_Nil: "enc3 t \<noteq> []" "enc2 t \<noteq> []"
  by (cases t; simp)+

text \<open>
  C20: \<open>sprd_lzdec3\<close> is the inverse of the encoder of its format: whatever sequence of
  tokens is written (up to 254 literals, then up to 255 zeros or a copy of 2 to 257 bytes from
  up to 255 bytes back), it expands them all and uses exactly their bytes.
\<close>

theorem lzdec3_decodes:
  assumes "ts \<noteq> []" "toks_ok tok3_ok 0 ts"
  shows "sprd_lzdec3 J (concat (map enc3 ts)) (length (expand_all [] ts)) =
    Some (length (concat (map enc3 ts)), expand_all [] ts)"
proof -
  have "lz_rounds (Suc (length (concat (map enc3 ts)))) (length (expand_all [] ts)) (lzdec3_round (length (expand_all [] ts)) J)
      \<lparr>lz_in = concat (map enc3 ts), lz_dst = []\<rparr> = Ret () \<lparr>lz_in = [], lz_dst = expand_all [] ts\<rparr>"
    by (rule run_tokens [OF round3 tok3_grows])
      (use assms rounds_enough [of enc3, OF enc_not_Nil(1)] in auto)
  then show ?thesis by (simp add: sprd_lzdec3_def lz_result_def)
qed

theorem lzdec3_decodes_witness:
  "sprd_lzdec3 (\<lambda>_. 0) [0x2b, 1, 2, 2] 6 = Some (4, [1, 2, 1, 2, 1, 2])"
  using lzdec3_decodes [of "[Match [1, 2] 2 4]" "\<lambda>_. 0"]
  by (simp add: bits_of_def byte_of_def) (simp add: eval_nat_numeral)

text \<open>
  \<open>sprd_lzdec2\<close> is the inverse of the encoder of its format: up to 254 literals, then
  nothing or a copy of 3 to 257 bytes from up to 65535 bytes back, whose distance is spread
  over a byte, two bits of the first byte and, if these are 3, another byte.
\<close>

theorem lzdec2_decodes:
  assumes "ts \<noteq> []" "toks_ok tok2_ok 0 ts"
  shows "sprd_lzdec2 J (concat (map enc2 ts)) (length (expand_all [] ts)) =
    Some (length (concat (map enc2 ts)), expand_all [] ts)"
proof -
  have "lz_rounds (Suc (length (concat (map enc2 ts)))) (length (expand_all [] ts)) (lzdec2_round (length (expand_all [] ts)) J)
      \<lparr>lz_in = concat (map enc2 ts), lz_dst = []\<rparr> = Ret () \<lparr>lz_in = [], lz_dst = expand_all [] ts\<rparr>"
    by (rule run_tokens [OF round2 tok2_grows])
      (use assms rounds_enough [of enc2, OF enc_not_Nil(2)] in auto)
  then show ?thesis by (simp add: sprd_lzdec2_def lz_result_def)
qed

theorem lzdec2_decodes_witness:
  "sprd_lzdec2 (\<lambda>_. 0) [0x33, 1, 2, 2] 7 = Some (4, [1, 2, 1, 2, 1, 2, 1])"
  using lzdec2_decodes [of "[Match [1, 2] 2 5]" "\<lambda>_. 0"]
  by (simp add: bits_of_def byte_of_def) (simp add: eval_nat_numeral)

end
