(* ===== verification/FwSms.thy ===== *)
theory FwSms
  imports FwBase
begin

text \<open>
  Decoding what the phone stores (fphelper/main.c): text messages with their addresses, time
  stamps and 7-bit, 8-bit and 16-bit texts, the IMEI, strings of the product information. A
  function that only prints is the list of what it prints; positions are offsets in the image.
\<close>

unbundle bit_operations_syntax

type_synonym print = "string \<times> parg list"

definition esc :: "string \<Rightarrow> string" where "esc s = CHR 0x5C # s"

definition pr_all :: "print list \<Rightarrow> ('z fpo_scheme, unit) cm" where
  "pr_all = for_each (\<lambda>(fmt, args). pr fmt args)"

lemma returns_pr_all [returns]: "returns (pr_all xs) (\<lambda>_. True)"
  unfolding pr_all_def by (rule returns_for_each) (auto split: prod.split intro: returns)

definition pchar :: "u32 \<Rightarrow> print" where "pchar a = (''%c'', [PW a])"

section \<open>Strings\<close>

fun decode_imei_loop :: "byte list \<Rightarrow> nat \<Rightarrow> nat \<Rightarrow> nat \<Rightarrow> string option" where
  "decode_imei_loop b p 0 i = Some []"
| "decode_imei_loop b p (Suc k) i =
     (let a = unat (u8at b (p + i div 2)); a = (if odd i then a div 16 else a); a = a mod 16
      in if a \<ge> 10 then None
         else map_option (Cons (char_of (48 + a))) (decode_imei_loop b p k (i + 1)))"

definition decode_imei :: "byte list \<Rightarrow> nat \<Rightarrow> string option" where
  "decode_imei b p = (if u8at b p AND 15 \<noteq> 10 then None else decode_imei_loop b p 15 1)"

fun prodinfo_str :: "byte list \<Rightarrow> nat \<Rightarrow> nat \<Rightarrow> print list" where
  "prodinfo_str b p 0 = []"
| "prodinfo_str b p (Suc n) =
     (let a = u8at b p in if a = 0 then []
      else (if a \<ge> 32 \<and> a < 127 then pchar (ucast a) else (esc ''x%02x'', [PW (ucast a)])) # prodinfo_str b (p + 1) n)"

definition safe_print_utf16 :: "u32 \<Rightarrow> print list" where
  "safe_print_utf16 a =
     (if a \<ge> 0x80 then
        if a \<ge> 0x800 then
          if a - 0xd800 < 0x800 then [(esc ''u%x'', [PW a])]
          else [pchar (drop_bit 12 a OR 0xe0), pchar ((drop_bit 6 a AND 0x3f) OR 0x80), pchar ((a AND 0x3f) OR 0x80)]
        else [pchar (drop_bit 6 a OR 0xc0), pchar ((a AND 0x3f) OR 0x80)]
      else if a < 0x20 then (if a = 10 then [(esc ''n'', [])] else [(esc ''x%02x'', [PW a])])
      else (if a = 0x22 then [pchar 0x5c] else []) @ [pchar a])"

section \<open>Addresses\<close>

text \<open>An address in 7-bit characters: \<open>n\<close> half bytes are left, \<open>a\<close> holds \<open>k\<close> bits.\<close>

fun addr_text :: "byte list \<Rightarrow> nat \<Rightarrow> nat \<Rightarrow> nat \<Rightarrow> u32 \<Rightarrow> nat \<Rightarrow> (string \<times> nat) option" where
  "addr_text b p 0 i a k = Some ([], p)"
| "addr_text b p (Suc n) i a k =
     (let (a, p) = (if even i then (a OR push_bit k (ucast (u8at b p)), p + 1) else (a, p));
          k = k + 4
      in if k \<ge> 7
         then let c = a AND 127 in
           if c < 0x20 then None
           else map_option (\<lambda>(s, p). (char_of (unat c) # s, p)) (addr_text b p n (i + 1) (drop_bit 7 a) (k - 7))
         else addr_text b p n (i + 1) a k)"

definition conv :: string where "conv = ''0123456789*#abc''"

text \<open>An address in digits, low half byte first.\<close>

fun addr_digits :: "byte list \<Rightarrow> nat \<Rightarrow> nat \<Rightarrow> (string \<times> nat) option" where
  "addr_digits b p 0 = Some ([], p)"
| "addr_digits b p (Suc 0) =
     (let k = unat (u8at b p) mod 16 in if k > 14 then None else Some ([conv ! k], p + 1))"
| "addr_digits b p (Suc (Suc n)) =
     (let k = unat (u8at b p) mod 16; a = unat (u8at b p) div 16
      in if k > 14 then None else if a > 14 then None
         else map_option (\<lambda>(s, p). (conv ! k # conv ! a # s, p)) (addr_digits b (p + 1) n))"

definition sms_addr_decode :: "byte list \<Rightarrow> nat \<Rightarrow> (string \<times> nat) option" where
  "sms_addr_decode b p =
     (let n = unat (u8at b p); a = u8at b (p + 1); p = p + 2
      in if n = 0 \<or> n > 20 then None
         else if a = 0xd0 then addr_text b p n 0 0 0
         else if a OR 0x10 = 0x91 then
           map_option (\<lambda>(s, p). ((if a = 0x91 then ''+'' else []) @ s, p)) (addr_digits b p n)
         else None)"

section \<open>Messages\<close>

text \<open>The 7-bit characters: \<open>n\<close> of them, from \<open>k\<close> bits in \<open>a\<close> and the bytes from \<open>p\<close> on.\<close>

fun septets :: "byte list \<Rightarrow> nat \<Rightarrow> nat \<Rightarrow> u32 \<Rightarrow> nat \<Rightarrow> u32 list" where
  "septets b 0 p a k = []"
| "septets b (Suc n) p a k =
     (let (a, p, k) = (if k < 7 then (a OR push_bit k (ucast (u8at b p)), p + 1, k + 8) else (a, p, k))
      in (a AND 127) # septets b n p (drop_bit 7 a) (k - 7))"

definition sms_text :: "byte list \<Rightarrow> nat \<Rightarrow> byte \<Rightarrow> nat \<Rightarrow> nat \<Rightarrow> u32 list" where
  "sms_text b p dcs n k =
     (let d = dcs AND 0xc
      in if d = 0 then
           let (a, p, k) = (if k \<noteq> 0 then (drop_bit k (ucast (u8at b p)), p + 1, 8 - k) else (0, p, k))
           in septets b ((n + 6) div 7) p a k
         else if d = 4 then map (\<lambda>i. ucast (u8at b (p + i))) [0..<n]
         else if d = 8 then map (\<lambda>i. push_bit 8 (ucast (u8at b (p + 2 * i))) OR ucast (u8at b (p + 2 * i + 1))) [0..<n div 2]
         else [])"

text \<open>The time stamp, seven bytes of swapped decimal digits; nothing when a digit is none.\<close>

definition bcd :: "byte \<Rightarrow> nat" where "bcd a = unat a div 16 + (unat a mod 16) * 10"

definition sms_stamp :: "byte list \<Rightarrow> nat \<Rightarrow> print option" where
  "sms_stamp b p =
     (if \<exists>i \<in> set [0..<7]. (i < 6 \<and> unat (u8at b (p + i)) mod 16 > 9) \<or> unat (u8at b (p + i)) div 16 > 9 then None
      else let d = (\<lambda>i. bcd (u8at b (p + i))); a = d 0; k = d 6;
               (k, c) = (if k \<ge> 80 then (k - 80, 0x2d) else (k, 0x2b))
        in Some (''sms time stamp: %u.%02u.%02u %02u:%02u:%02u GMT%c%u:%02u'',
          [PN (a + (if a < 80 then 2000 else 1900)), PN (d 1), PN (d 2), PN (d 3), PN (d 4), PN (d 5),
           PI c, PN (k div 4), PN (k mod 4 * 15)]))"

text \<open>The part after the time stamp: \<open>p\<close> is at the length, \<open>fin\<close> the end of the record.\<close>

definition sms_body :: "byte list \<Rightarrow> nat \<Rightarrow> nat \<Rightarrow> byte \<Rightarrow> byte \<Rightarrow> print list" where
  "sms_body b p fin pdu dcs =
     (let n = unat (u8at b (p + 3)) * (if dcs AND 0xc \<noteq> 0 then 8 else 7); p = p + 4; len = fin - p
      in if len < (n + 7) div 8 then []
      else let udh = (pdu AND 0x40 \<noteq> 0 \<or> (n \<ge> 6 * 8 \<and> u8at b p = 5 \<and> u8at b (p + 1) = 0 \<and> u8at b (p + 2) = 3));
               a = unat (u8at b p) + 1
      in if udh \<and> (n < 8 \<or> n < a * 8) then []
      else let parts = (if udh then
              (if u8at b (p + 1) = 0 \<and> u8at b (p + 2) = 3
               then [(''sms part: %u / %u (ref = 0x%02x)'', map (\<lambda>i. PW (ucast (u8at b (p + i)))) [5, 4, 3])] else []) @
              (if u8at b (p + 1) = 8 \<and> u8at b (p + 2) = 4
               then [(''sms part: %u / %u (ref = 0x%04x)'', [PW (ucast (u8at b (p + 6))), PW (ucast (u8at b (p + 5))),
                 PN (unat (u8at b (p + 3)) * 256 + unat (u8at b (p + 4)))])] else []) else []);
            (n, p, k) = (if udh then (n - a * 8, p + a, if dcs AND 0xc = 0 \<and> a mod 7 \<noteq> 0 then 7 - a mod 7 else 0) else (n, p, 0));
            n = (if dcs AND 0xc \<noteq> 0 then n div 8 else n)
      in if dcs AND 0xc = 8 \<and> odd n then parts
         else parts @ [(''sms message: \"'', [])] @ concat (map safe_print_utf16 (sms_text b p dcs n k)) @ [(''\"'', [])])"

definition sms_decode :: "byte list \<Rightarrow> nat \<Rightarrow> nat \<Rightarrow> print list" where
  "sms_decode b p len =
     (let fin = p + len; p = p + 0x12; pdu = u8at b p; p = p + 1
      in if pdu AND 2 \<noteq> 0 then []
      else let p = (if pdu AND 1 \<noteq> 0 then p + 1 else p)
      in case sms_addr_decode b p of
        None \<Rightarrow> []
      | Some (adr, p) \<Rightarrow>
          (''sms %s: %s'', [PS (if pdu AND 1 \<noteq> 0 then ''receiver'' else ''sender''), PS adr]) #
          (let dcs = u8at b (p + 1)
           in if u8at b (p + 2) \<noteq> 0xff
              then case sms_stamp b (p + 2) of
                  None \<Rightarrow> []
                | Some t \<Rightarrow> t # sms_body b (p + 6) fin pdu dcs
              else sms_body b p fin pdu dcs))"

end
