(* ===== verification/FwSmsRt.thy ===== *)
theory FwSmsRt
  imports FwSms
begin

text \<open>
  The decoders of text messages against the formats: characters are printed as UTF-8, packed
  7-bit characters and the digits of an address come back, an address fits its buffer.
\<close>

unbundle bit_operations_syntax

section \<open>UTF-8\<close>

text \<open>The strict decoder of one character below 0x10000: no overlong forms, no surrogates.\<close>

definition cont :: "nat \<Rightarrow> bool" where "cont b = (0x80 \<le> b \<and> b < 0xc0)"

fun utf8_dec :: "nat list \<Rightarrow> nat option" where
  "utf8_dec [a] = (if a < 0x80 then Some a else None)"
| "utf8_dec [a, b] = (if 0xc2 \<le> a \<and> a < 0xe0 \<and> cont b then Some ((a - 0xc0) * 64 + (b - 0x80)) else None)"
| "utf8_dec [a, b, c] =
     (let v = (a - 0xe0) * 4096 + (b - 0x80) * 64 + (c - 0x80)
      in if 0xe0 \<le> a \<and> a < 0xf0 \<and> cont b \<and> cont c \<and> 0x800 \<le> v \<and> \<not> (0xd800 \<le> v \<and> v < 0xe000) then Some v else None)"
| "utf8_dec _ = None"

lemma utf8_parts:
  fixes x :: u32
  shows "unat ((x AND 0x3f) OR 0x80) = 0x80 + unat x mod 64"
    and "unat x < 32 \<Longrightarrow> unat (x OR 0xe0) = 0xe0 + unat x"
    and "unat x < 64 \<Longrightarrow> unat (x OR 0xc0) = 0xc0 + unat x"
proof -
  have e: "(0x3f :: u32) = mask 6" by (simp add: mask_eq_exp_minus_1)
  have m: "unat (x AND 0x3f) = unat x mod 64"
    unfolding e take_bit_eq_mask [symmetric] by (simp add: unsigned_take_bit_eq word_nat)
  have "(x AND 0x3f) OR 0x80 = (x AND 0x3f) + 0x80" using or_high [of "x AND 0x3f" 7 1] m
    by (simp add: less_trans [OF mod_less_divisor])
  then show "unat ((x AND 0x3f) OR 0x80) = 0x80 + unat x mod 64" using m mod_less_divisor [of 64 "unat x"]
    by (simp add: unat_word_ariths)
  show "unat x < 32 \<Longrightarrow> unat (x OR 0xe0) = 0xe0 + unat x"
    using or_high [of x 5 7] by (simp add: unat_word_ariths)
  show "unat x < 64 \<Longrightarrow> unat (x OR 0xc0) = 0xc0 + unat x"
    using or_high [of x 6 3] by (simp add: unat_word_ariths)
qed

text \<open>
  Every character from 0x80 up to 0xffff that is not a surrogate is printed as its UTF-8
  encoding: a strict UTF-8 decoder gives the character back from the bytes.
\<close>

theorem safe_print_utf8:
  assumes "0x80 \<le> a" "a < 0x10000" "\<not> (0xd800 \<le> a \<and> a < 0xe000)"
  shows "\<exists>bs. safe_print_utf16 a = map pchar bs \<and> utf8_dec (map unat bs) = Some (unat a)"
proof (cases "a < 0x800")
  case True
  let ?bs = "[drop_bit 6 a OR 0xc0, (a AND 0x3f) OR 0x80]"
  have r: "0x80 \<le> unat a" "unat a < 0x800" using assms(1) True by (simp_all add: word_le_nat_alt word_less_nat_alt)
  then have d: "2 \<le> unat a div 64" "unat a div 64 < 32" by (simp_all add: less_mult_imp_div_less)
  have "utf8_dec (map unat ?bs) = Some (unat a)"
    using d div_mult_mod_eq [of "unat a" 64] by (simp add: utf8_parts word_nat cont_def)
  moreover have "safe_print_utf16 a = map pchar ?bs" using assms(1) True by (simp add: safe_print_utf16_def)
  ultimately show ?thesis by blast
next
  case False
  let ?bs = "[drop_bit 12 a OR 0xe0, (drop_bit 6 a AND 0x3f) OR 0x80, (a AND 0x3f) OR 0x80]"
  have r: "0x800 \<le> unat a" "unat a < 0x10000" using assms(2) False by (simp_all add: word_le_nat_alt word_less_nat_alt)
  then have d: "unat a div 4096 < 16" by (simp add: less_mult_imp_div_less)
  have s: "\<not> (0xd800 \<le> unat a \<and> unat a < 0xe000)" using assms(3) by (simp add: word_le_nat_alt word_less_nat_alt)
  have "unat a = unat a div 4096 * 4096 + unat a div 64 mod 64 * 64 + unat a mod 64"
  proof -
    have "unat a div 4096 * 64 + unat a div 64 mod 64 = unat a div 64"
      using div_mult_mod_eq [of "unat a div 64" 64] by (simp add: div_mult2_eq [symmetric])
    moreover have "unat a div 64 * 64 + unat a mod 64 = unat a" by simp
    ultimately show ?thesis by linarith
  qed
  then have v: "utf8_dec (map unat ?bs) = Some (unat a)"
    using d r s by (simp add: utf8_parts word_nat cont_def Let_def)
  have "\<not> a - 0xd800 < 0x800"
  proof
    assume "a - 0xd800 < 0x800"
    then have "unat (a - 0xd800) < 0x800" by (simp add: word_less_nat_alt)
    then show False using s r unat_sub_if' [of a "0xd800"] by (auto split: if_splits)
  qed
  then have "safe_print_utf16 a = map pchar ?bs" using False assms(1) by (simp add: safe_print_utf16_def not_less)
  then show ?thesis using v by blast
qed

theorem safe_print_utf8_witness:
  "\<exists>bs. safe_print_utf16 0x20ac = map pchar bs \<and> utf8_dec (map unat bs) = Some 0x20ac"
  using safe_print_utf8 [of "0x20ac"] by simp

section \<open>Packed 7-bit characters\<close>

text \<open>A list of digits as a number, lowest first.\<close>

fun num_of :: "nat \<Rightarrow> nat list \<Rightarrow> nat" where
  "num_of B [] = 0"
| "num_of B (d # ds) = d + B * num_of B ds"

text \<open>The GSM packing: the characters are the digits to base 128 of a number, the bytes those to base 256.\<close>

definition pack7 :: "nat list \<Rightarrow> byte list" where
  "pack7 cs = map (\<lambda>i. of_nat (num_of 128 cs div 256 ^ i)) [0..<(7 * length cs + 7) div 8]"

lemma num_of_append: "num_of B (xs @ ys) = num_of B xs + B ^ length xs * num_of B ys"
  by (induction xs) (simp_all add: algebra_simps)

lemma num_of_less: "0 < B \<Longrightarrow> \<forall>x \<in> set xs. x < B \<Longrightarrow> num_of B xs < B ^ length xs"
proof (induction xs)
  case (Cons x xs)
  then have "x + B * num_of B xs < B * Suc (num_of B xs)" by simp
  also have "\<dots> \<le> B * B ^ length xs" using Cons by (intro mult_le_mono2) auto
  finally show ?case by simp
qed simp

lemma num_of_digits: "num_of B (map (\<lambda>i. n div B ^ i mod B) [0..<m]) = n mod B ^ m"
proof (induction m)
  case (Suc m)
  have "num_of B (map (\<lambda>i. n div B ^ i mod B) [0..<Suc m]) = n mod B ^ m + B ^ m * (n div B ^ m mod B)"
    using Suc by (simp add: num_of_append)
  also have "\<dots> = n mod (B ^ m * B)" by (simp add: mod_mult2_eq)
  finally show ?case by (simp add: mult.commute)
qed simp

lemma digit_num_of:
  assumes "\<forall>x \<in> set xs. x < B" "i < length xs"
  shows "num_of B xs div B ^ i mod B = xs ! i"
  using assms
proof (induction xs arbitrary: i)
  case (Cons x xs)
  show ?case
  proof (cases i)
    case (Suc j)
    have "num_of B (x # xs) div B ^ i = (x + B * num_of B xs) div B div B ^ j"
      by (simp add: Suc div_mult2_eq)
    also have "(x + B * num_of B xs) div B = num_of B xs" using Cons.prems(1) by simp
    finally show ?thesis using Cons.IH [of j] Cons.prems Suc by simp
  qed (use Cons.prems in simp)
qed simp

lemma septets_value:
  assumes "unat a < 2 ^ k" "k \<le> 7"
  shows "map unat (septets b n p a k) =
    map (\<lambda>i. (unat a + 2 ^ k * num_of 256 (map unat (drop p b))) div 128 ^ i mod 128) [0..<n]"
  using assms
proof (induction n arbitrary: p a k)
  case (Suc n)
  define L where "L = (\<lambda>p. num_of 256 (map unat (drop p b)))"
  have L: "L p = unat (u8at b p) + 256 * L (p + 1)"
  proof (cases "p < length b")
    case True
    then show ?thesis by (simp add: L_def u8at_def Cons_nth_drop_Suc [symmetric])
  qed (simp add: L_def u8at_def)
  obtain a' p' k' where s: "(a', p', k') = (if k < 7 then (a OR push_bit k (ucast (u8at b p)), p + 1, k + 8) else (a, p, k))"
    by (metis prod_cases3)
  have inv: "unat a' < 2 ^ k' \<and> 7 \<le> k' \<and> k' \<le> 14 \<and> unat a + 2 ^ k * L p = unat a' + 2 ^ k' * L p'"
  proof (cases "k < 7")
    case True
    have u: "unat (ucast (u8at b p) :: u32) = unat (u8at b p)" by (simp add: word_nat less_trans [OF byte_less])
    have p8: "unat (u8at b p) * 2 ^ k < 256 * 2 ^ 7"
      using byte_less [of "u8at b p"] True power_increasing [of k 7 "2 :: nat"] by (intro mult_less_le_imp_less) auto
    then have pb: "unat (push_bit k (ucast (u8at b p)) :: u32) = unat (u8at b p) * 2 ^ k"
      using u True by (simp add: push_bit_eq_mult unat_word_ariths unat_2p)
    have a': "a' = a + push_bit k (ucast (u8at b p))" "k' = k + 8" "p' = p + 1" using s True or_high [OF Suc.prems(1)] by auto
    have "unat a < 128" using Suc.prems True power_strict_increasing [of k 7 "2 :: nat"] by simp
    then have v: "unat a' = unat a + unat (u8at b p) * 2 ^ k" using pb p8 by (simp add: a' unat_word_ariths)
    have "Suc (unat (u8at b p)) * 2 ^ k \<le> 256 * 2 ^ k" using byte_less [of "u8at b p"] by (intro mult_le_mono1) simp
    then have "unat (u8at b p) * 2 ^ k + 2 ^ k \<le> 2 ^ k'" by (simp only: a' power_add mult_Suc) simp
    then have "unat a' < 2 ^ k'" using Suc.prems(1) v by linarith
    then show ?thesis using True v by (simp add: a' L power_add algebra_simps)
  next
    case False
    then show ?thesis using s Suc.prems by auto
  qed
  have X: "unat a + 2 ^ k * L p = unat a' + 128 * (2 ^ (k' - 7) * L p')"
    using inv power_add [of "2 :: nat" 7 "k' - 7"] by simp
  have h: "unat (a' AND 127) = (unat a + 2 ^ k * L p) mod 128"
  proof -
    have e: "(127 :: u32) = mask 7" by (simp add: mask_eq_exp_minus_1)
    have "unat (a' AND 127) = unat a' mod 128"
      unfolding e take_bit_eq_mask [symmetric] by (simp add: unsigned_take_bit_eq word_nat)
    then show ?thesis by (simp add: X)
  qed
  have d: "unat (drop_bit 7 a') = unat a' div 128" by (simp add: word_nat)
  have lt: "unat (drop_bit 7 a') < 2 ^ (k' - 7)"
    using inv power_add [of "2 :: nat" 7 "k' - 7"] by (simp add: d less_mult_imp_div_less mult.commute)
  have t: "unat (drop_bit 7 a') + 2 ^ (k' - 7) * L p' = (unat a + 2 ^ k * L p) div 128"
    by (simp add: X d)
  have up: "[0..<Suc n] = 0 # map Suc [0..<n]" by (simp add: map_Suc_upt upt_conv_Cons del: upt_Suc)
  have "map unat (septets b (Suc n) p a k) = unat (a' AND 127) # map unat (septets b n p' (drop_bit 7 a') (k' - 7))"
    using s by (auto simp: Let_def split: prod.splits if_splits)
  also have "map unat (septets b n p' (drop_bit 7 a') (k' - 7)) =
      map (\<lambda>i. (unat a + 2 ^ k * L p) div 128 div 128 ^ i mod 128) [0..<n]"
    unfolding t [symmetric] unfolding L_def by (rule Suc.IH [OF lt]) (use inv in linarith)
  also have "unat (a' AND 127) # \<dots> = map (\<lambda>i. (unat a + 2 ^ k * L p) div 128 ^ i mod 128) [0..<Suc n]"
    unfolding h up by (simp add: comp_def div_mult2_eq)
  finally show ?case unfolding L_def .
qed simp

lemma num_of_pack7:
  assumes "\<forall>c \<in> set cs. c < 128"
  shows "num_of 256 (map unat (pack7 cs)) = num_of 128 cs"
proof -
  let ?m = "(7 * length cs + 7) div 8"
  have "map unat (pack7 cs) = map (\<lambda>i. num_of 128 cs div 256 ^ i mod 256) [0..<?m]"
    by (simp add: pack7_def unat_of_nat)
  then have v: "num_of 256 (map unat (pack7 cs)) = num_of 128 cs mod 256 ^ ?m" by (simp only: num_of_digits)
  have "num_of 128 cs < 128 ^ length cs" using assms by (intro num_of_less) simp_all
  also have "(128 :: nat) ^ length cs = 2 ^ (7 * length cs)" by (simp add: power_mult)
  also have "\<dots> \<le> 2 ^ (8 * ?m)" by (intro power_increasing) linarith+
  also have "(2 :: nat) ^ (8 * ?m) = 256 ^ ?m" by (simp add: power_mult)
  finally show ?thesis using v by simp
qed

text \<open>
  C25: A text in packed 7-bit characters comes back: whatever bytes follow, the characters
  that \<open>sms_text\<close> takes from the packed form are those that were packed.
\<close>

theorem sms_text_unpacks:
  assumes "\<forall>c \<in> set cs. c < 128" "drop p b = pack7 cs @ rest" "dcs AND 0xc = 0"
  shows "map unat (sms_text b p dcs (7 * length cs) 0) = cs"
proof -
  let ?m = "(7 * length cs + 7) div 8"
  let ?V = "num_of 256 (map unat (drop p b))"
  have n: "(7 * length cs + 6) div 7 = length cs" by (intro div_nat_eqI) simp_all
  have V: "?V = num_of 128 cs + 256 ^ ?m * num_of 256 (map unat rest)"
    using num_of_pack7 [OF assms(1)] by (simp add: assms(2) num_of_append pack7_def)
  have le: "7 * length cs \<le> 8 * ?m"
    using div_mult_mod_eq [of "7 * length cs + 7" 8] mod_less_divisor [of 8 "7 * length cs + 7"] by linarith
  have "?V div 128 ^ i mod 128 = cs ! i" if i: "i < length cs" for i
  proof -
    have "7 * Suc i \<le> 8 * ?m" using i le by (intro order_trans [OF _ le] mult_le_mono2) simp
    then have "(2 :: nat) ^ (7 * Suc i) * 2 ^ (8 * ?m - 7 * Suc i) = 2 ^ (8 * ?m)"
      unfolding power_add [symmetric] by (simp only: le_add_diff_inverse)
    then have "(256 :: nat) ^ ?m = 128 ^ Suc i * 2 ^ (8 * ?m - 7 * Suc i)"
      by (simp only: power_mult) simp
    then have "?V = num_of 128 cs + 128 ^ i * (128 * (2 ^ (8 * ?m - 7 * Suc i) * num_of 256 (map unat rest)))"
      using V by (simp only: power_Suc2 mult.assoc)
    then obtain q where "?V = num_of 128 cs + 128 ^ i * (128 * q)" by blast
    then have "?V div 128 ^ i = num_of 128 cs div 128 ^ i + 128 * q" by simp
    then show ?thesis using digit_num_of [OF assms(1) i] by simp
  qed
  moreover have "map unat (sms_text b p dcs (7 * length cs) 0) = map (\<lambda>i. ?V div 128 ^ i mod 128) [0..<length cs]"
    using septets_value [of 0 0 b "length cs" p] by (simp add: sms_text_def assms(3) n)
  ultimately show ?thesis by (intro nth_equalityI) (simp_all only: length_map length_upt nth_map_upt diff_zero add_0)
qed

theorem sms_text_unpacks_witness:
  "map unat (sms_text [0xe8, 0x32, 0x9b, 0xfd, 0x06] 0 0 35 0) = [0x68, 0x65, 0x6c, 0x6c, 0x6f]"
  using sms_text_unpacks [of "[0x68, 0x65, 0x6c, 0x6c, 0x6f]" 0 "[0xe8, 0x32, 0x9b, 0xfd, 0x06]" "[]" 0]
  by (simp add: pack7_def upt_rec)

text \<open>
  After a user data header in a message of 7-bit characters, \<open>k\<close> bits of padding come
  before the text. The program counts them as text: of \<open>t\<close> characters and the padding it
  prints \<open>t + 1\<close>.
\<close>

theorem sms_text_counts_padding:
  assumes "dcs AND 0xc = 0" "0 < k" "k < 7"
  shows "length (sms_text b p dcs (7 * t + k) k) = t + 1"
proof -
  have l: "length (septets b n p a k) = n" for n p a k
    by (induction n arbitrary: p a k) (simp_all add: Let_def split: prod.splits)
  have "(7 * t + k + 6) div 7 = t + 1" using assms(2,3) by (intro div_nat_eqI) simp_all
  then show ?thesis using assms by (simp add: sms_text_def l)
qed

theorem sms_text_counts_padding_witness: "length (sms_text [0xd0, 0x65, 0xff] 0 0 8 1) = 2"
  using sms_text_counts_padding [of 0 1 "[0xd0, 0x65, 0xff]" 0 1] by simp

section \<open>Addresses\<close>

lemma u8at_drop:
  assumes "drop p b = xs"
  shows "u8at b (p + i) = u8at xs i"
  using assms by (auto simp: u8at_def)

lemma addr_text_size:
  "addr_text b p n i a k = Some (s, q) \<Longrightarrow> length s \<le> n \<and> q = p + (if even i then (n + 1) div 2 else n div 2)"
proof (induction n arbitrary: p i a k s)
  case (Suc n)
  show ?case using Suc.prems
    by (cases "even i"; cases "7 \<le> k + 4") (auto simp: Let_def split: if_splits dest!: Suc.IH)
qed simp

lemma addr_digits_size:
  "addr_digits b p n = Some (s, q) \<Longrightarrow> length s = n \<and> q = p + (n + 1) div 2"
  by (induction b p n arbitrary: s rule: addr_digits.induct) (auto simp: Let_def split: if_splits)

text \<open>
  A decoded address and its terminator fit into the 22 bytes that \<open>sms_decode\<close> gives it,
  and the decoder stops right after the half bytes that the length announces.
\<close>

theorem sms_addr_fits:
  assumes "sms_addr_decode b p = Some (s, q)"
  shows "length s + 1 \<le> 22 \<and> q = p + 2 + (unat (u8at b p) + 1) div 2"
proof -
  have n: "unat (u8at b p) \<le> 20" using assms by (simp add: sms_addr_decode_def Let_def split: if_splits)
  show ?thesis
    using assms n
    by (auto simp: sms_addr_decode_def Let_def split: if_splits dest!: addr_text_size addr_digits_size)
qed

text \<open>The digits as the phone stores them; \<open>f\<close> fills up an odd last byte.\<close>

fun enc_digits :: "nat \<Rightarrow> nat list \<Rightarrow> byte list" where
  "enc_digits f [] = []"
| "enc_digits f [d] = [of_nat (d + 16 * f)]"
| "enc_digits f (d # e # ds) = of_nat (d + 16 * e) # enc_digits f ds"

lemma addr_digits_enc:
  assumes "drop p b = enc_digits f ds @ rest" "\<forall>d \<in> set ds. d < 15" "f < 16"
  shows "addr_digits b p (length ds) = Some (map ((!) conv) ds, p + (length ds + 1) div 2)"
  using assms
proof (induction f ds arbitrary: p rule: enc_digits.induct)
  case (2 f d)
  have "u8at b p = of_nat (d + 16 * f)" using u8at_drop [OF 2(1), of 0] by (simp add: u8at_def)
  moreover have "d + 16 * f < 256" "d < 15" using 2(2,3) by auto
  ultimately have "unat (u8at b p) = d + 16 * f" by (simp only: unat_of_nat) simp
  then show ?case using \<open>d < 15\<close> by simp
next
  case (3 f d e ds)
  have "u8at b p = of_nat (d + 16 * e)" using u8at_drop [OF 3(2), of 0] by (simp add: u8at_def)
  moreover have "d + 16 * e < 256" "d < 15" "e < 15" using 3(3) by auto
  ultimately have u: "unat (u8at b p) = d + 16 * e" by (simp only: unat_of_nat) simp
  have "drop (p + 1) b = enc_digits f ds @ rest" using arg_cong [OF 3(2), of tl] by (simp add: drop_Suc tl_drop)
  then have "addr_digits b (p + 1) (length ds) = Some (map ((!) conv) ds, p + 1 + (length ds + 1) div 2)"
    using 3(1,3,4) by simp
  then show ?case using u \<open>d < 15\<close> \<open>e < 15\<close> by simp
qed simp

theorem sms_addr_fits_witness:
  "length ''+12345'' + 1 \<le> 22 \<and> 5 = 0 + 2 + (unat (u8at [5, 0x91, 0x21, 0x43, 0xf5] 0) + 1) div 2"
proof -
  have "addr_digits [5, 0x91, 0x21, 0x43, 0xf5] 2 5 = Some (''12345'', 5)"
    using addr_digits_enc [of 2 "[5, 0x91, 0x21, 0x43, 0xf5]" 15 "[1, 2, 3, 4, 5]" "[]"]
    by (simp add: conv_def del: addr_digits.simps) (simp add: eval_nat_numeral del: addr_digits.simps)
  then have "sms_addr_decode [5, 0x91, 0x21, 0x43, 0xf5] 0 = Some (''+12345'', 5)"
    by (simp add: sms_addr_decode_def u8at_def Let_def)
  then show ?thesis by (rule sms_addr_fits)
qed

text \<open>
  A telephone number of 1 to 20 digits (with *, #, a, b, c) in the international form
  comes back from the swapped half bytes it is stored in, with its plus sign.
\<close>

theorem sms_addr_decodes:
  assumes "ds \<noteq> []" "length ds \<le> 20" "\<forall>d \<in> set ds. d < 15" "f < 16"
    and "drop p b = [of_nat (length ds), 0x91] @ enc_digits f ds @ rest"
  shows "sms_addr_decode b p = Some (''+'' @ map ((!) conv) ds, p + 2 + (length ds + 1) div 2)"
proof -
  have b: "u8at b p = of_nat (length ds)" "u8at b (p + 1) = 0x91"
    using u8at_drop [OF assms(5), of 0] u8at_drop [OF assms(5), of 1] by (simp_all add: u8at_def)
  have n: "unat (u8at b p) = length ds" using assms(2) by (simp add: b unat_of_nat)
  have "drop (p + 2) b = enc_digits f ds @ rest"
    using arg_cong [OF assms(5), of "drop 2"] by (simp add: add.commute)
  then have "addr_digits b (p + 2) (length ds) = Some (map ((!) conv) ds, p + 2 + (length ds + 1) div 2)"
    using assms(3,4) by (rule addr_digits_enc)
  then show ?thesis using assms(1,2) by (simp add: sms_addr_decode_def Let_def n b(2) b(2) [simplified])
qed

theorem sms_addr_decodes_witness:
  "sms_addr_decode [5, 0x91, 0x21, 0x43, 0xf5, 0] 0 = Some (''+12345'', 5)"
  using sms_addr_decodes [of "[1, 2, 3, 4, 5]" 15 0 "[5, 0x91, 0x21, 0x43, 0xf5, 0]" "[0]"]
  by (simp add: conv_def)

end
