(* ===== verification/FwData.thy ===== *)
theory FwData
  imports FwSms
begin

text \<open>
  The scan of the phone's data area (\<open>scan_data\<close> of fphelper/main.c): product information,
  blocks of stored items with checksums, the messages, IMEI numbers and FAT images among them,
  and the extraction of the FAT images. \<open>size\<close> is the part of the image that is looked at.
\<close>

unbundle bit_operations_syntax

section \<open>Product information\<close>

definition prodinfo :: "byte list \<Rightarrow> nat \<Rightarrow> nat \<Rightarrow> print list" where
  "prodinfo b size' i =
     (let n = unat (w32 b (i + 0x34))
      in if size' - i < 0x100 \<or> w32 b i \<noteq> 0x53503039 \<or> n > 10 \<or> w32 b (i + 0xdc) \<noteq> 0x53534150 then []
      else [(''0x%x: prodinfo, end = 0x%08x'', [PN i, PW (w32 b (i + 0xfc))]), (''prodinfo serial: \"'', [])] @
        prodinfo_str b (i + 4) 0x30 @ [(''\"'', [])] @
        (if n \<noteq> 0
         then [(''prodinfo features:'', [])] @
           concat (map (\<lambda>j. [(''%u: \"'', [PN j])] @ prodinfo_str b (i + 0x38 + j * 10) 10 @ [(''\"'', [])]) [0..<n]) @
           [([], [])]
         else []))"

section \<open>Items\<close>

text \<open>An item: flag, checksum, id and length, 16 bits each, then the data, padded to words.\<close>

definition it_flag :: "byte list \<Rightarrow> nat \<Rightarrow> nat" where "it_flag b j = unat (w16 b j)"
definition it_sum :: "byte list \<Rightarrow> nat \<Rightarrow> u32" where "it_sum b j = ucast (w16 b (j + 2))"
definition it_id :: "byte list \<Rightarrow> nat \<Rightarrow> nat" where "it_id b j = unat (w16 b (j + 4))"
definition it_len :: "byte list \<Rightarrow> nat \<Rightarrow> nat" where "it_len b j = unat (w16 b (j + 6))"

definition item_bad :: "byte list \<Rightarrow> nat \<Rightarrow> bool" where
  "item_bad b j = (it_id b j = 0 \<or> it_id b j = 0xffff \<or> (it_flag b j \<noteq> 0 \<and> it_flag b j \<noteq> it_id b j) \<or> it_len b j = 0)"

definition item_size :: "nat \<Rightarrow> nat" where "item_size n = 8 + (n + 1) div 2 * 2"

fun storage_sum :: "byte list \<Rightarrow> nat \<Rightarrow> nat \<Rightarrow> u32" where
  "storage_sum b p n = (if n > 1 then ucast (w16 b p) + storage_sum b (p + 2) (n - 2) else 0)"

declare storage_sum.simps [simp del]

definition storage_chk :: "byte list \<Rightarrow> nat \<Rightarrow> nat \<Rightarrow> nat \<Rightarrow> u32" where
  "storage_chk b p n pos = (of_nat pos + 0xc513 + storage_sum b p n) AND 0xffff"

text \<open>The items of a block from \<open>j\<close> on: how many, and where they end.\<close>

function count_items :: "byte list \<Rightarrow> nat \<Rightarrow> nat \<Rightarrow> nat \<times> nat" where
  "count_items b j size2 =
     (if size2 < 8 \<or> item_bad b j then (0, j)
      else let n = item_size (it_len b j)
        in if size2 < n \<or> it_sum b j \<noteq> storage_chk b (j + 4) (n - 4) j then (0, j)
           else let (k, e) = count_items b (j + n) (size2 - n) in (k + 1, e))"
  by pat_completeness auto

termination
  by (relation "measure (\<lambda>(b, j, size2). size2)") (auto simp: item_size_def)

declare count_items.simps [simp del]

text \<open>Does a block start at \<open>i\<close>? The checksum is taken over the length as it is.\<close>

definition block_at :: "byte list \<Rightarrow> nat \<Rightarrow> nat \<Rightarrow> bool" where
  "block_at b size' i = (\<not> item_bad b i \<and> \<not> size' - i < it_len b i + 8 \<and> it_sum b i = storage_chk b (i + 4) (it_len b i + 4) i)"

text \<open>
  The mark 0x55aa at the end of a page of 512 bytes. The search may begin at the start of the
  image; then \<open>w\<close>, the two bytes in front of it, are compared.
\<close>

definition page_up :: "nat \<Rightarrow> nat" where "page_up j = (j + 0x1ff) div 0x200 * 0x200"

lemma page_up_le: "j \<le> page_up j"
  using div_mult_mod_eq [of "j + 511" 512] mod_less_divisor [of 512 "j + 511"]
  unfolding page_up_def by linarith

function find_mark :: "u16 \<Rightarrow> byte list \<Rightarrow> nat \<Rightarrow> nat \<Rightarrow> nat option" where
  "find_mark w b size' j =
     (let j = page_up j
      in if size' < j then None
         else if (if j = 0 then w else w16 b (j - 2)) = 0x55aa then Some j else find_mark w b size' (j + 0x200))"
  by pat_completeness auto

termination
proof (relation "measure (\<lambda>(w, b, size', j). size' + 1 - j)")
  fix w :: u16 and b :: "byte list" and size' j x
  assume "x = page_up j" "\<not> size' < x"
  then show "((w, b, size', x + 0x200), w, b, size', j) \<in> measure (\<lambda>(w, b, size', j). size' + 1 - j)"
    using page_up_le [of j] by simp
qed simp

declare find_mark.simps [simp del]

section \<open>The scan\<close>

text \<open>\<open>blk_list_t\<close> and \<open>fat_list_t\<close>; the lists are built from the front.\<close>

record blk_list_t =
  blk_offset :: nat
  blk_items :: nat

record fat_list_t =
  fat_id :: nat
  fat_len :: nat
  fat_blk_size :: nat

definition fat12_size :: "byte list \<Rightarrow> nat \<Rightarrow> nat" where
  "fat12_size b p = (if map (\<lambda>i. u8at b (p + 0x36 + i)) [0..<8] \<noteq> bytes_of ''FAT12   '' then 0
     else unat (u8at b (p + 0x13)) + unat (u8at b (p + 0x14)) * 256)"

fun show_items :: "fpenv \<Rightarrow> byte list \<Rightarrow> bool \<Rightarrow> nat \<Rightarrow> nat \<Rightarrow> fat_list_t list \<Rightarrow> (nat \<times> fat_list_t list) fpm" where
  "show_items E b ext 0 j fats = ret (j, fats)"
| "show_items E b ext (Suc k) j fats =
     (let n = it_len b j; a = fat12_size b (j + 8)
      in thn (pr ''0x%x: %sid = %u, size = %u''
           [PN j, PS (if it_flag b j = 0 then ''deleted, '' else []), PN (it_id b j), PN n])
         (bnd (if n \<noteq> 0 \<and> n mod 512 = 0 then
              if a \<noteq> 0 then thn (pr ''0x%x: FAT12 header, sectors = %u'' [PN (j + 8), PN a])
                (if \<not> ext then ret fats
                 else let d = n div 512; len = (a + d - 1) div d
                   in if malloc_ok E 24
                      then ret (\<lparr>fat_id = it_id b j, fat_len = len, fat_blk_size = n\<rparr> # fats)
                      else thn (pr ''!!! %s alloc failed'' [PS ''fatnode '']) (ret fats))
              else ret fats
            else if n = 232 then thn (pr_all (sms_decode b (j + 8) 232)) (ret fats)
            else if n = 8 then (case decode_imei b (j + 8) of
                None \<Rightarrow> ret fats
              | Some imei \<Rightarrow> thn (pr ''0x%x: IMEI = %s'' [PN (j + 8), PS imei]) (ret fats))
            else ret fats)
         (\<lambda>fats. show_items E b ext k (j + item_size n) fats)))"

text \<open>One block: the result is the position at which the scan goes on.\<close>

definition scan_block :: "fpenv \<Rightarrow> byte list \<Rightarrow> nat \<Rightarrow> bool \<Rightarrow> nat \<Rightarrow> blk_list_t list \<Rightarrow> fat_list_t list \<Rightarrow>
    (nat \<times> blk_list_t list \<times> fat_list_t list) fpm" where
  "scan_block E b size' ext i blks fats =
     (let (items, e) = count_items b i (size' - i)
      in thn (pr ''0x%x: storage block, items = %u, size = 0x%x'' [PN i, PN items, PN (e - i)])
         (thn (case find_mark (before_image E) b size' e of None \<Rightarrow> ret ()
            | Some j \<Rightarrow> if j - i \<noteq> 0 then pr '' / 0x%x'' [PN (j - i)] else ret ())
         (bnd (if \<not> ext then ret blks
               else if malloc_ok E 16 then ret (\<lparr>blk_offset = i, blk_items = items\<rparr> # blks)
               else thn (pr ''!!! %s alloc failed'' [PS ''blk node'']) (ret blks))
           (\<lambda>blks. bnd (show_items E b ext items i fats) (\<lambda>(j, fats).
             ret ((j + 3) div 4 * 4, blks, fats))))))"

fun scan_data_loop :: "nat \<Rightarrow> fpenv \<Rightarrow> byte list \<Rightarrow> nat \<Rightarrow> bool \<Rightarrow> nat \<Rightarrow> blk_list_t list \<Rightarrow> fat_list_t list \<Rightarrow>
    (blk_list_t list \<times> fat_list_t list) fpm" where
  "scan_data_loop 0 E b size' ext i blks fats = no_fuel"
| "scan_data_loop (Suc k) E b size' ext i blks fats =
     (if size' < i + 0x10 then ret (blks, fats)
      else thn (if i mod 0x100 = 0 then pr_all (prodinfo b size' i) else ret ())
        (bnd (if i mod 0x1000 = 0 \<and> block_at b size' i then scan_block E b size' ext i blks fats
              else ret (i + 4, blks, fats))
          (\<lambda>(i, blks, fats). scan_data_loop k E b size' ext i blks fats)))"

section \<open>Extraction\<close>

text \<open>Where the blocks of a FAT image are, 0 for a missing one; a live item beats a deleted one.\<close>

fun fill_items :: "byte list \<Rightarrow> fat_list_t \<Rightarrow> nat \<Rightarrow> nat \<Rightarrow> nat list \<Rightarrow> nat list" where
  "fill_items b fat 0 j arr = arr"
| "fill_items b fat (Suc k) j arr =
     (let d = it_id b j - fat_id fat; n = it_len b j;
          take_it = (fat_id fat \<le> it_id b j \<and> d < fat_len fat \<and> n = fat_blk_size fat
            \<and> (arr ! d = 0 \<or> it_flag b (arr ! d - 8) = 0))
      in fill_items b fat k (j + item_size n) (if take_it then arr[d := j + 8] else arr))"

definition fill_blocks :: "byte list \<Rightarrow> fat_list_t \<Rightarrow> blk_list_t list \<Rightarrow> nat list" where
  "fill_blocks b fat blks = fold (\<lambda>blk. fill_items b fat (blk_items blk) (blk_offset blk)) blks (replicate (fat_len fat) 0)"

definition fat_image :: "byte list \<Rightarrow> fat_list_t \<Rightarrow> nat list \<Rightarrow> byte list" where
  "fat_image b fat arr = concat (map (\<lambda>a. if a \<noteq> 0 then map (\<lambda>i. u8at b (a + i)) [0..<fat_blk_size fat]
     else replicate (fat_blk_size fat) 0xff) arr)"

definition extract_fat :: "fpenv \<Rightarrow> byte list \<Rightarrow> blk_list_t list \<Rightarrow> fat_list_t \<Rightarrow> unit fpm" where
  "extract_fat E b blks fat =
     (if \<not> malloc_ok E (fat_blk_size fat + fat_len fat * 4)
      then pr ''!!! %s alloc failed'' [PS ''fat temp'']
      else save_out (''fat_'' @ dec_str (fat_id fat) @ ''.img'') (fat_image b fat (fill_blocks b fat blks)))"

definition scan_data :: "nat \<Rightarrow> fpenv \<Rightarrow> byte list \<Rightarrow> nat \<Rightarrow> bool \<Rightarrow> unit fpm" where
  "scan_data fuel E b size' ext =
     (if size' < 0x10 then ret ()
      else bnd (scan_data_loop fuel E b (size' div 4 * 4) ext 0 [] []) (\<lambda>(blks, fats).
        if ext then for_each (extract_fat E b blks) fats else ret ()))"

end
