(* ===== verification/FwDataEnd.thy ===== *)
theory FwDataEnd
  imports FwData
begin

text \<open>
  When the scan of the data area ends: it does if the first item of every block has an even
  length, and there is an image on which it never does, because the test for a block and the
  count of its items disagree about the checksum of an item of odd length.
\<close>

section \<open>Items\<close>

fun items_end :: "byte list \<Rightarrow> nat \<Rightarrow> nat \<Rightarrow> nat" where
  "items_end b 0 j = j"
| "items_end b (Suc k) j = items_end b k (j + item_size (it_len b j))"

lemma count_items_end: "count_items b j n = (k, e) \<Longrightarrow> e = items_end b k j"
proof (induction b j n arbitrary: k e rule: count_items.induct)
  case (1 b j n)
  let ?n = "item_size (it_len b j)"
  obtain k' e' where r: "count_items b (j + ?n) (n - ?n) = (k', e')" by (cases "count_items b (j + ?n) (n - ?n)")
  show ?case
  proof (cases "(n < 8 \<or> item_bad b j) \<or> (n < ?n \<or> it_sum b j \<noteq> storage_chk b (j + 4) (?n - 4) j)")
    case True
    then have "count_items b j n = (0, j)" by (subst count_items.simps) (auto simp: Let_def)
    then show ?thesis using 1(2) by simp
  next
    case False
    then have "e' = items_end b k' (j + ?n)" using 1(1) [OF _ refl _ r] by blast
    moreover have "count_items b j n = (k' + 1, e')"
      using False by (subst count_items.simps) (simp add: Let_def r)
    then have "k = k' + 1 \<and> e = e'" using 1(2) by simp
    ultimately show ?thesis by simp
  qed
qed

lemma items_end_le: "j + 8 * k \<le> items_end b k j"
proof (induction k arbitrary: j)
  case (Suc k)
  have "j + 8 \<le> j + item_size (it_len b j)" by (simp add: item_size_def)
  then show ?case using Suc [of "j + item_size (it_len b j)"] by simp
qed simp

lemma even_block_has_item:
  assumes "block_at b n i" "even (it_len b i)"
  shows "0 < fst (count_items b i (n - i))"
proof -
  have s: "item_size (it_len b i) = it_len b i + 8" using assms(2) by (auto simp: item_size_def elim: evenE)
  have "\<not> n - i < 8" "\<not> item_bad b i" "\<not> n - i < it_len b i + 8"
    "it_sum b i = storage_chk b (i + 4) (it_len b i + 4) i"
    using assms(1) by (auto simp: block_at_def)
  then show ?thesis by (subst count_items.simps) (simp add: s Let_def ac_simps split: prod.split)
qed

lemma returns_show_items: "returns (show_items E b ext k j fats) (\<lambda>(e, _). e = items_end b k j)"
proof (induction k arbitrary: j fats)
  case (Suc k)
  show ?case
    unfolding show_items.simps Let_def items_end.simps
    by (intro returns_thn returns_pr returns_bnd [where P = "\<lambda>_. True"] returns_if Suc)
      (auto intro!: returns split: option.split)
qed (simp add: returns)

lemma returns_scan_block:
  assumes "0 < fst (count_items b i (n - i))"
  shows "returns (scan_block E b n ext i blks fats) (\<lambda>(i', _). i < i')"
proof -
  obtain k e where c: "count_items b i (n - i) = (k, e)" by (cases "count_items b i (n - i)")
  have "i + 8 * k \<le> e" using count_items_end [OF c] items_end_le by simp
  then have e: "i + 8 \<le> e" using assms c by simp
  have "e \<le> (e + 3) div 4 * 4"
    using div_mult_mod_eq [of "e + 3" 4] mod_less_divisor [of 4 "e + 3"] by linarith
  then have lt: "i < (e + 3) div 4 * 4" using e by linarith
  have sh: "returns (show_items E b ext k i fats) (\<lambda>(j, _). j = e)"
    unfolding count_items_end [OF c] by (rule returns_show_items)
  show ?thesis
    unfolding scan_block_def c Let_def prod.case
    by (intro returns_thn returns_pr returns_bnd [where P = "\<lambda>_. True"] returns_if returns_bnd [OF sh])
      (auto intro!: returns lt split: option.split)
qed

section \<open>The scan\<close>

lemma returns_scan_data_loop:
  assumes "\<And>i. i mod 0x1000 = 0 \<Longrightarrow> block_at b n i \<Longrightarrow> 0 < fst (count_items b i (n - i))" "n < i + k" "0 < k"
  shows "returns (scan_data_loop k E b n ext i blks fats) (\<lambda>_. True)"
  using assms(2,3)
proof (induction k arbitrary: i blks fats)
  case (Suc k)
  have nx: "returns (if i mod 0x1000 = 0 \<and> block_at b n i then scan_block E b n ext i blks fats
      else ret (i + 4, blks, fats)) (\<lambda>(i', _). i < i')"
    by (intro returns_if returns_ret returns_scan_block assms(1)) auto
  show ?case
  proof (cases "n < i + 0x10")
    case False
    then have "returns (scan_data_loop k E b n ext i' blks fats) (\<lambda>_. True)" if "i < i'" for i' blks fats
      using Suc.prems that by (intro Suc.IH) auto
    then show ?thesis
      unfolding scan_data_loop.simps if_not_P [OF False]
      by (intro returns_thn [OF _ returns_bnd [OF nx]] returns_if returns_pr_all returns_ret) (auto split: prod.split)
  qed (simp add: returns)
qed simp

text \<open>
  C22: If the first item of every storage block has an even length, \<open>scan_data\<close> comes to its
  end, with as many rounds as the image has bytes (one in four of them, in fact).
\<close>

theorem scan_data_ends:
  assumes "\<And>i. i mod 0x1000 = 0 \<Longrightarrow> block_at b (n div 4 * 4) i \<Longrightarrow> even (it_len b i)"
  shows "\<exists>t. scan_data (n + 1) E b n ext s = Ret () t"
proof -
  define k where "k = n + 1"
  have "returns (scan_data_loop k E b (n div 4 * 4) ext 0 [] []) (\<lambda>_. True)"
    by (rule returns_scan_data_loop)
      (use assms even_block_has_item div_mult_mod_eq [of n 4] in \<open>auto simp: k_def mod_less\<close>)
  then have "returns (scan_data k E b n ext) (\<lambda>_. True)"
    unfolding scan_data_def extract_fat_def
    by (intro returns_if returns_ret) (auto elim!: returns_bnd intro!: returns split: prod.split)
  then have "\<exists>a t. scan_data k E b n ext s = Ret a t \<and> True" by (rule returns_Ret)
  then show ?thesis by (simp add: k_def)
qed

theorem scan_data_ends_witness:
  "\<forall>s. \<exists>t. scan_data 17 \<lparr>malloc_ok = (\<lambda>_. True), probs_ok = True, junk = (\<lambda>_. 0), past_literal = 0, before_image = 0\<rparr>
     [0, 0, 0x1b, 0xc5, 1, 0, 2, 0, 5, 0, 0, 0, 0, 0, 0, 0] 16 True s = Ret () t"
proof
  fix s
  let ?b = "[0, 0, 0x1b, 0xc5, 1, 0, 2, 0, 5, 0, 0, 0, 0, 0, 0, 0] :: byte list"
  have "even (it_len ?b i)" if "i mod 0x1000 = 0" "block_at ?b (16 div 4 * 4) i" for i
  proof -
    have "4096 dvd i" "i \<le> 8" using that by (auto simp: block_at_def)
    then have "i = 0" by (auto dest: dvd_imp_le)
    then show ?thesis by (simp add: it_len_def w16_def u8at_def READ16_LE_def)
  qed
  then have "\<exists>t. scan_data (16 + 1) \<lparr>malloc_ok = (\<lambda>_. True), probs_ok = True, junk = (\<lambda>_. 0), past_literal = 0, before_image = 0\<rparr> ?b 16 True s = Ret () t"
    by (rule scan_data_ends)
  then show "\<exists>t. scan_data 17 \<lparr>malloc_ok = (\<lambda>_. True), probs_ok = True, junk = (\<lambda>_. 0), past_literal = 0, before_image = 0\<rparr> ?b 16 True s = Ret () t"
    by simp
qed

section \<open>Blocks that start with an item of odd length\<close>

lemma storage_sum_odd: "storage_sum b p (2 * k + 1) = storage_sum b p (2 * k)"
proof (induction k arbitrary: p)
  case (Suc k)
  then show ?case by (subst (1 2) storage_sum.simps) simp
qed (simp add: storage_sum.simps)

lemma storage_sum_next: "storage_sum b p (2 * k + 2) = storage_sum b p (2 * k) + ucast (w16 b (p + 2 * k))"
proof (induction k arbitrary: p)
  case 0
  show ?case by (subst storage_sum.simps) (simp add: storage_sum.simps)
next
  case (Suc k)
  have "storage_sum b p (2 * Suc k + 2) = ucast (w16 b p) + storage_sum b (p + 2) (2 * k + 2)"
    by (subst storage_sum.simps) (simp add: add.commute)
  also have "\<dots> = (ucast (w16 b p) + storage_sum b (p + 2) (2 * k)) + ucast (w16 b (p + 2 * Suc k))"
    by (simp add: Suc add.assoc)
  also have "ucast (w16 b p) + storage_sum b (p + 2) (2 * k) = storage_sum b p (2 * Suc k)"
    by (subst (2) storage_sum.simps) simp
  finally show ?case .
qed

lemma low16_add:
  fixes x :: u32 and w :: u16
  assumes "(x + ucast w) AND 0xffff = x AND 0xffff"
  shows "w = 0"
proof -
  have m: "(0xffff :: u32) = mask 16" by (simp add: mask_eq_exp_minus_1)
  have "take_bit 16 (x + ucast w) = take_bit 16 x"
    using assms unfolding m by (simp only: take_bit_eq_mask)
  then have "unat (take_bit 16 (x + ucast w)) = unat (take_bit 16 x)" by (rule arg_cong)
  then have "unat (x + ucast w) mod 2 ^ 16 = unat x mod 2 ^ 16" 
    unfolding unsigned_take_bit_eq by (simp only: take_bit_eq_mod)
  moreover have "unat (x + ucast w) = (unat x + unat w) mod 2 ^ 32" 
    using unsigned_less [of w, where ?'a = nat] by (simp add: unat_word_ariths unat_ucast)
  ultimately have "(unat x + unat w) mod 2 ^ 32 mod 2 ^ 16 = unat x mod 2 ^ 16" by simp
  then have "(unat x + unat w) mod 2 ^ 16 = unat x mod 2 ^ 16" by (simp only: mod_mod_cancel [OF le_imp_power_dvd, of 16 32])
  then have "2 ^ 16 dvd unat w" using mod_eq_dvd_iff_nat [of "unat x" "unat x + unat w" "2 ^ 16"] by simp
  moreover have "unat w < 2 ^ 16" by (rule order_less_le_trans [OF unsigned_less]) simp
  ultimately have "unat w = 0" by (auto dest: dvd_imp_le)
  then show ?thesis by (simp add: unat_eq_0)
qed

text \<open>
  The test for a block leaves the last byte of an odd item out of the checksum, the count of
  the items does not: unless that byte and its padding are zero, no item is counted.
\<close>

lemma odd_block_no_item:
  assumes "block_at b n i" "odd (it_len b i)" "w16 b (i + it_len b i + 7) \<noteq> 0"
  shows "count_items b i (n - i) = (0, i)"
proof -
  obtain k where k: "it_len b i = 2 * k + 1" using assms(2) by (rule oddE)
  have s: "item_size (it_len b i) = 2 * (k + 2) + 2 + 4" by (simp add: item_size_def k)
  have "it_sum b i = storage_chk b (i + 4) (2 * (k + 2) + 1) i"
    using assms(1) by (simp add: block_at_def k)
  moreover have "storage_chk b (i + 4) (2 * (k + 2) + 2) i \<noteq> storage_chk b (i + 4) (2 * (k + 2) + 1) i"
  proof
    let ?x = "of_nat i + 0xc513 + storage_sum b (i + 4) (2 * (k + 2)) :: u32"
    assume "storage_chk b (i + 4) (2 * (k + 2) + 2) i = storage_chk b (i + 4) (2 * (k + 2) + 1) i"
    then have "(?x + ucast (w16 b (i + 4 + 2 * (k + 2)))) AND 0xffff = ?x AND 0xffff"
      unfolding storage_chk_def storage_sum_odd storage_sum_next by (simp only: add.assoc)
    from low16_add [OF this] show False using assms(3) by (simp add: k algebra_simps)
  qed
  ultimately show ?thesis by (subst count_items.simps) (simp add: s Let_def)
qed

lemma returns_odd_block:
  assumes "count_items b i (n - i) = (0, i)" "i mod 4 = 0"
  shows "returns (scan_block E b n ext i blks fats) (\<lambda>(i', _). i' = i)"
proof -
  have "(i + 3) div 4 * 4 = i" using assms(2) by presburger
  then show ?thesis
    unfolding scan_block_def assms(1) Let_def prod.case show_items.simps bnd_ret
    by (intro returns_thn returns_pr returns_bnd [where P = "\<lambda>_. True"] returns_if returns_ret)
      (auto intro!: returns returns_pr split: option.split)
qed

lemma odd_block_loop:
  assumes "i mod 0x1000 = 0" "block_at b n i" "count_items b i (n - i) = (0, i)" "i + 0x10 \<le> n"
    and "\<And>j. j < i \<Longrightarrow> j mod 0x1000 = 0 \<Longrightarrow> \<not> block_at b n j" "j \<le> i" "j mod 4 = 0"
  shows "\<exists>t. scan_data_loop k E b n ext j blks fats s = OutOfFuel t"
  using assms(6,7)
proof (induction k arbitrary: j blks fats s)
  case (Suc k)
  have "4 dvd i" using assms(1) by (intro dvd_trans [of 4 "0x1000" i]) (simp_all add: mod_eq_0_iff_dvd)
  then have i4: "i mod 4 = 0" by simp
  let ?m = "if j mod 0x1000 = 0 \<and> block_at b n j then scan_block E b n ext j blks fats else ret (j + 4, blks, fats)"
  have "returns ?m (\<lambda>(j', _). j' \<le> i \<and> j' mod 4 = 0)"
  proof (cases "j = i")
    case True
    have "returns (scan_block E b n ext i blks fats) (\<lambda>(j', _). j' \<le> i \<and> j' mod 4 = 0)"
      by (rule returns_mono [OF returns_odd_block [OF assms(3) i4]]) (use i4 in auto)
    moreover have "j mod 0x1000 = 0 \<and> block_at b n j" unfolding True using assms(1,2) by blast
    ultimately show ?thesis unfolding True by (simp only: if_P)
  next
    case False
    then have nb: "\<not> (j mod 0x1000 = 0 \<and> block_at b n j)" using assms(5) Suc.prems by auto
    have "j + 4 \<le> i" using False Suc.prems i4 by presburger
    then have "returns (ret (j + 4, blks, fats)) (\<lambda>(j', _). j' \<le> i \<and> j' mod 4 = 0)"
      using Suc.prems(2) by (intro returns_ret) simp
    then show ?thesis unfolding if_not_P [OF nb] .
  qed
  then have "returns (thn (if j mod 0x100 = 0 then pr_all (prodinfo b n j) else ret ()) ?m) (\<lambda>(j', _). j' \<le> i \<and> j' mod 4 = 0)"
    by (rule returns_thn [rotated]) (intro returns_if returns_pr_all returns_ret TrueI)
  from returns_Ret [OF this, of s] obtain j' blks' fats' t where
    t: "thn (if j mod 0x100 = 0 then pr_all (prodinfo b n j) else ret ()) ?m s = Ret (j', blks', fats') t" "j' \<le> i" "j' mod 4 = 0"
    by auto
  have "\<not> n < j + 0x10" using assms(4) Suc.prems by simp
  then have "scan_data_loop (Suc k) E b n ext j blks fats s =
      bnd (thn (if j mod 0x100 = 0 then pr_all (prodinfo b n j) else ret ()) ?m)
        (\<lambda>(i, blks, fats). scan_data_loop k E b n ext i blks fats) s"
    by (simp add: thn_def bnd_assoc)
  also have "\<dots> = scan_data_loop k E b n ext j' blks' fats' t" by (simp add: bnd_def t(1))
  finally show ?case using Suc.IH [OF t(2,3)] by simp
qed (simp add: run_simps)

text \<open>
  C23: On an image whose first storage block begins with an item of odd length, with a last
  byte (or padding byte after it) that is not zero, \<open>scan_data\<close> never ends, however many rounds
  it is given: the block is recognised by a checksum without that byte, but its item is not
  counted with it, so the scan goes on where it was.
\<close>

theorem scan_data_hangs:
  assumes "i mod 0x1000 = 0" "i + 0x10 \<le> n div 4 * 4" "block_at b (n div 4 * 4) i"
    and "\<And>j. j < i \<Longrightarrow> j mod 0x1000 = 0 \<Longrightarrow> \<not> block_at b (n div 4 * 4) j"
    and "odd (it_len b i)" "w16 b (i + it_len b i + 7) \<noteq> 0"
  shows "\<exists>t. scan_data k E b n ext s = OutOfFuel t"
proof -
  obtain t where "scan_data_loop k E b (n div 4 * 4) ext 0 [] [] s = OutOfFuel t"
    using odd_block_loop [OF assms(1,3) odd_block_no_item [OF assms(3,5,6)] assms(2,4), of 0] by fastforce
  moreover have "\<not> n < 0x10" using assms(2) div_mult_mod_eq [of n 4] by linarith
  ultimately show ?thesis by (simp add: scan_data_def bnd_def)
qed

text \<open>An image of 16 bytes with one item of one byte.\<close>

definition odd_image :: "byte list" where
  "odd_image = [0, 0, 0x15, 0xc5, 1, 0, 1, 0, 1, 0, 0, 0, 0, 0, 0, 0]"

theorem scan_data_hangs_witness:
  "\<forall>k E ext s. \<exists>t. scan_data k E odd_image 16 ext s = OutOfFuel t"
proof (intro allI)
  fix k E ext s
  have w: "w16 odd_image 0 = 0" "w16 odd_image 2 = 0xc515" "w16 odd_image 4 = 1" "w16 odd_image 6 = 1" "w16 odd_image 8 = 1"
    by (simp_all add: w16_def u8at_def odd_image_def READ16_LE_def)
  have i: "it_len odd_image 0 = 1" "it_sum odd_image 0 = 0xc515" "\<not> item_bad odd_image 0"
    by (simp_all add: it_len_def it_sum_def item_bad_def it_id_def it_flag_def w)
  have c: "storage_chk odd_image 4 5 0 = 0xc515"
    by (simp add: storage_chk_def storage_sum.simps w)
  have "block_at odd_image (16 div 4 * 4) 0" by (simp add: block_at_def i c)
  then show "\<exists>t. scan_data k E odd_image 16 ext s = OutOfFuel t"
    by (rule scan_data_hangs [rotated 2]) (simp_all add: i w)
qed

end
