(* ===== verification/FwKeys.thy ===== *)
theory FwKeys
  imports FwSms
begin

text \<open>
  The recognisers of fphelper/main.c for what is found in a firmware image: the table of
  devices, entries of the list of displays, the key map, the list of flash chips, the pin map.
  \<open>wd b o k\<close> is \<open>p[k]\<close> for a pointer \<open>p\<close> to 32-bit words at offset \<open>o\<close>, \<open>wds\<close> the OR of several.
\<close>

unbundle bit_operations_syntax

definition wd :: "byte list \<Rightarrow> nat \<Rightarrow> nat \<Rightarrow> u32" where "wd b p k = w32 b (p + 4 * k)"

definition wds :: "byte list \<Rightarrow> nat \<Rightarrow> nat list \<Rightarrow> u32" where
  "wds b p ks = foldr (\<lambda>k w. wd b p k OR w) ks 0"

section \<open>The table of devices\<close>

text \<open>\<open>CHECK_DEVTAB\<close>: the distance of the entries in words, if the table is at \<open>i\<close>.\<close>

definition check_devtab :: "byte list \<Rightarrow> nat \<Rightarrow> nat \<Rightarrow> nat option" where
  "check_devtab b size' i =
     (let a = 0x4d5241; k = (if wd b i 5 \<noteq> a then 8 else 4)
      in if wd b i 0 \<noteq> a \<or> wds b i [1, 2, 3] \<noteq> 0 \<or> size' - i < 0x100 then None
         else if wd b i 5 \<noteq> a \<and> wd b i 9 \<noteq> a then None
         else if wd b i (9 + k * 3) \<noteq> a then None else Some k)"

definition devtab_chip :: "byte list \<Rightarrow> nat \<Rightarrow> nat \<Rightarrow> nat" where
  "devtab_chip b i k =
     (let p = i + 4 * k; arm_freq = wd b p 0; q = p + 4 * (k + 8); r = q + 4 * k; ahb_freq = wd b r 0
      in if wds b p [2, 3, 4] \<noteq> 0 \<or> wd b q 0 \<noteq> 0x424841 \<or> wds b q [1, 2, 3] \<noteq> 0 \<or> wds b r [2, 3, 4] \<noteq> 0 then 0
         else if k = 4 then
           (if arm_freq \<noteq> ahb_freq then 0 else if arm_freq = 208000000 then 3 else if arm_freq = 312000000 then 2 else 0)
         else if arm_freq = 208000000 \<and> ahb_freq = arm_freq div 2 then 1 else 0)"

section \<open>Displays\<close>

text \<open>The C function answers 1 for a bad entry.\<close>

definition check_lcd_entry :: "byte list \<Rightarrow> nat \<Rightarrow> bool" where
  "check_lcd_entry b p = (wd b p 6 \<noteq> 9 \<or> wds b p [1, 2, 7, 8, 9, 10] \<noteq> 0)"

definition show_lcd :: "byte list \<Rightarrow> u32 \<Rightarrow> nat \<Rightarrow> print" where
  "show_lcd b offset p = (''0x%x: LCD, id = 0x%06x (%u, %u, %u), addr = 0x%x'',
     [PW (of_nat p + offset), PW (wd b p 0), PW (wd b p 3 AND 0xffff), PW (drop_bit 16 (wd b p 3)), PW (wd b p 4), PW (wd b p 5)])"

definition find_lcd_list :: "byte list \<Rightarrow> nat \<Rightarrow> u32 \<Rightarrow> print list" where
  "find_lcd_list b size' offset =
     (if size' < 0x2c then []
      else let n = size' div 4 * 4
        in concat (map (\<lambda>k. let p = 4 * k; a = wd b p 5
             in if check_lcd_entry b p \<or> a < 0x1000 \<or> a AND NOT 0x043ffffc \<noteq> 0 then [] else [show_lcd b offset p])
           (filter (\<lambda>k. 4 * k + 0x2c \<le> n) [0..<n])))"

section \<open>The key map\<close>

text \<open>The counts at the end of the loop: index, empty keys, empty keys of columns 6 and 7.\<close>

definition key_ok :: "nat \<Rightarrow> bool" where
  "key_ok a = ((0x70 \<le> a \<and> a < 0x76) \<or> (0x68 \<le> a \<and> a < 0x6e) \<or> a = 0x3d \<or> (1 \<le> a \<and> a \<le> 0x39))"

fun keymap_loop :: "(nat \<Rightarrow> bool) \<Rightarrow> byte list \<Rightarrow> nat \<Rightarrow> nat \<Rightarrow> nat \<Rightarrow> nat \<Rightarrow> nat \<Rightarrow> nat \<times> nat \<times> nat" where
  "keymap_loop ok b p 0 i e e2 = (i, e, e2)"
| "keymap_loop ok b p (Suc n) i e e2 =
     (let a = unat (w16 b (p + 2 * i))
      in if a = 0xffff then keymap_loop ok b p n (i + 1) (e + 1) (if i mod 8 \<ge> 6 then e2 + 1 else e2)
         else if ok a then keymap_loop ok b p n (i + 1) e e2
         else (i, e, e2))"

definition check_keymap :: "nat \<Rightarrow> byte list \<Rightarrow> nat \<Rightarrow> nat \<Rightarrow> nat" where
  "check_keymap chip b p size' =
     (let n = size' div 2; a = (if chip = 1 then 48 else 64); n = (if n \<ge> a then a else n)
      in if size' div 2 < 35 then 0
         else let (i, e, e2) = keymap_loop key_ok b p n 0 0 0
           in if i < (if chip = 1 then 35 else 40) \<or> e < i - 32 then 0
              else if i > 40 \<and> e2 \<noteq> i div 4 then 0
              else 2 * i)"

definition keypad_names :: "(nat \<times> string) list" where
  "keypad_names =
     [(0x01, ''DIAL''), (0x04, ''UP''), (0x05, ''DOWN''), (0x06, ''LEFT''), (0x07, ''RIGHT''),
      (0x08, ''LSOFT''), (0x09, ''RSOFT''), (0x0d, ''CENTER''), (0x0e, ''CAMERA''), (0x1d, ''EXT_1D''),
      (0x1f, ''EXT_1F''), (0x21, ''EXT_21''), (0x23, ''HASH''), (0x24, ''VOLUP''), (0x25, ''VOLDOWN''),
      (0x29, ''EXT_29''), (0x2a, ''STAR''), (0x2b, ''PLUS''), (0x2c, ''EXT_2C''), (0x2d, ''MINUS''),
      (0x2f, ''EXT_2F''), (0x30, ''0''), (0x31, ''1''), (0x32, ''2''), (0x33, ''3''), (0x34, ''4''),
      (0x35, ''5''), (0x36, ''6''), (0x37, ''7''), (0x38, ''8''), (0x39, ''9'')]"

definition keypad_getname :: "nat \<Rightarrow> string option" where "keypad_getname a = map_of keypad_names a"

text \<open>What is said about the key map at \<open>p\<close>.\<close>

definition show_keymap :: "nat \<Rightarrow> byte list \<Rightarrow> nat \<Rightarrow> print list" where
  "show_keymap chip b p =
     (let k = (\<lambda>i. unat (w16 b (p + 2 * i)));
          full = (\<forall>i \<in> set [0, 8, 16, 24, 32]. w32 b (p + 2 * (i + 6)) = - 1);
          nrow = (if chip = 1 \<and> \<not> full then 5 else 8);
          shown = (\<lambda>a. if a = 0xffff then ''---'' else case keypad_getname a of None \<Rightarrow> ''???'' | Some nm \<Rightarrow> nm)
      in (if chip = 1 \<and> full then [('', rows = 8'', [])] else []) @
         (if k 0 \<noteq> 0xffff
          then ('', bootkey = 0x%02x'', [PN (k 0)]) #
            (case keypad_getname (k 0) of None \<Rightarrow> [] | Some nm \<Rightarrow> [('' (%s)'', [PS nm])])
          else []) @
         [('', sdboot keys = 0x%02x 0x%02x 0x%02x ('', [PN (k 1), PN (k nrow), PN (k (nrow + 1))])] @
         map (\<lambda>i. (''%s%s'', [PS (shown (k (i mod 2 + i div 2 * nrow))), PS (if i < 3 then '', '' else '')'')])) [1..<4] @
         [([], [])])"

definition check_keymap2 :: "byte list \<Rightarrow> nat \<Rightarrow> u32 \<Rightarrow> bool \<Rightarrow> unit fpm" where
  "check_keymap2 b size' base save = bnd (gets clues) (\<lambda>c.
     let adr = unat (keymap_addr c - base); n = check_keymap (cl_chip c) b adr (size' - adr)
     in if keymap_addr c = 0 \<or> size' \<le> adr \<or> n = 0 then ret ()
        else thn (pr ''0x%x: keymap'' [PW (keymap_addr c)])
          (thn (set_clue (\<lambda>c. c\<lparr>keymap_addr := 0\<rparr>))
          (thn (pr_all (show_keymap (cl_chip c) b adr))
          (if save then save_out ''keymap.bin'' (map (\<lambda>i. u8at b (adr + i)) [0..<n]) else ret ()))))"

section \<open>Flash chips\<close>

text \<open>The number of entries before the empty one; \<open>None\<close> for -1.\<close>

function check_flash_list :: "byte list \<Rightarrow> nat \<Rightarrow> nat \<Rightarrow> nat option" where
  "check_flash_list b p size' =
     (if size' < 0x20 then None
      else if wd b p 0 AND 0xffff = 0 then (if wds b p [0..<8] = 0 then Some 0 else None)
      else if wds b p [0..<5] AND 0xff00ff00 \<noteq> 0 \<or> wd b p 5 AND 0xfefeff00 \<noteq> 0 then None
      else map_option Suc (check_flash_list b (p + 0x20) (size' - 0x20)))"
  by pat_completeness auto

termination by (relation "measure (\<lambda>(b, p, size'). size')") auto

declare check_flash_list.simps [simp del]

section \<open>The pin map\<close>

text \<open>
  Pairs of an address and a value up to the address \<open>~0\<close>. The caller has seen that end, so
  the search does not leave the image.
\<close>

function pinmap_findval :: "byte list \<Rightarrow> nat \<Rightarrow> u32 \<Rightarrow> u32" where
  "pinmap_findval b p x =
     (if length b \<le> p then - 1
      else if wd b p 0 = x then wd b p 1
      else if wd b p 0 = - 1 then - 1
      else pinmap_findval b (p + 8) x)"
  by pat_completeness auto

termination by (relation "measure (\<lambda>(b, p, x). length b - p)") auto

declare pinmap_findval.simps [simp del]

definition PRINTPIN :: "string \<Rightarrow> u32 \<Rightarrow> print" where
  "PRINTPIN s x = (if x \<noteq> - 1 then (''0x%x'' @ s, [PW x]) else (''???'' @ s, []))"

definition pinmap_info :: "nat \<Rightarrow> byte list \<Rightarrow> nat \<Rightarrow> print list" where
  "pinmap_info chip b p =
     (let v = pinmap_findval b p;
          di = v 0x8c000138; clk = v (0x8c000138 + 4); cs = v (0x8c000138 + 12); cd = v (0x8c000138 + 16);
          sd_clk = v (0x8c00009c + 20); sd_cmd = v (0x8c00009c + 16); sd_d0 = v 0x8c00009c; sd_d1 = v (0x8c00009c + 4);
          sd_d2 = v (0x8c00009c + 8); sd_d3 = v (0x8c00009c + 12)
      in if chip \<noteq> 1 then []
         else [(''pinmap: LCD pins = '', [])] @ map (PRINTPIN '', '') [di, clk, cs] @ [PRINTPIN [] cd] @
           (if clk AND 0x3fff = 0x2004
            then [(''guess: SPI1 display, mode = %u'', [PN (if di AND 0x3fff = 0x2074 then 1 else 3)])] else []) @
           [(''pinmap: SD pins = '', [])] @ map (PRINTPIN '', '') [sd_clk, sd_cmd, sd_d0, sd_d1, sd_d2] @ [PRINTPIN [] sd_d3] @
           (if sd_clk = 0x2074 \<and> sd_cmd = 0x2074 then [(''guess: no SD card slot'', [])]
            else if sd_clk = 0x2001 \<and> sd_cmd = 0x3084 then [(''guess: with SD card slot'', [])]
            else []))"

end
