(* ===== verification/FwInit.thy ===== *)
theory FwInit
  imports FwKeys FwLz
begin

text \<open>
  The initialisation table of a firmware (fphelper/main.c): where the image is loaded, where
  its first part ends, and the segments that are copied or decompressed to RAM, which are
  scanned for the list of displays and, on request, written to files.
\<close>

unbundle bit_operations_syntax

section \<open>Segments\<close>

text \<open>
  The entries of the list of displays after the structure, \<open>k\<close> bytes apart; \<open>j\<close> counts them.
  The second entry may have another word before it.
\<close>

function lcd_entries :: "byte list \<Rightarrow> u32 \<Rightarrow> nat \<Rightarrow> nat \<Rightarrow> nat \<Rightarrow> nat \<Rightarrow> print list \<times> nat" where
  "lcd_entries b offset p size2 k j =
     (if size2 < k \<or> k = 0 then ([], j)
      else let size2 = size2 - k
        in if check_lcd_entry b p then
             if j \<noteq> 1 \<or> size2 < 8 \<or> check_lcd_entry b (p + 4) then ([], j)
             else let k = k + 4; (ps, n) = lcd_entries b offset (p + 4 + k) size2 k (j + 1)
               in (show_lcd b offset (p + 4) # ps, n)
           else let (ps, n) = lcd_entries b offset (p + k) size2 k (j + 1) in (show_lcd b offset p # ps, n))"
  by pat_completeness auto

termination by (relation "measure (\<lambda>(b, offset, p, size2, k, j). size2)") auto

declare lcd_entries.simps [simp del]

text \<open>The structure at \<open>i\<close>: the offset behind it and the bytes that are left there.\<close>

definition fat_config_at :: "byte list \<Rightarrow> nat \<Rightarrow> u32 \<Rightarrow> nat \<Rightarrow> (nat \<times> nat) option" where
  "fat_config_at b size' offset i =
     (let n = wd b i 3; j = unat n * 0x24; q = i + j + 0x14 + 8
      in if wd b i 0 \<noteq> 0x28 \<or> drop_bit 4 (n - 1) \<noteq> 0 then None
         else if wd b i 2 - wd b i 4 \<noteq> of_nat j \<or> wd b i 4 \<noteq> offset + of_nat i + 0x14 then None
         else if size' - i < j + 0x14 + 8 then None
         else if w32 b (q - 4) \<noteq> 100000 then None
         else Some (q, size' - i - (j + 0x14 + 8)))"

definition show_ram_guess :: "u32 \<Rightarrow> u32 \<Rightarrow> print list" where
  "show_ram_guess a b =
     (let x = (if a = 0x4000 \<and> b = 0x2000 then 8 else if a = 0x2000 \<and> b = 0x1000 then 4 else 0 :: nat)
      in (''guess: RAM size = '', []) #
         [if x \<noteq> 0 then (''%uMB (%uMbit)'', [PN x, PN (x * 8)]) else (''unknown (0x%0x, 0x%0x)'', [PW a, PW b])])"

definition scan_init_seg :: "byte list \<Rightarrow> nat \<Rightarrow> u32 \<Rightarrow> unit fpm" where
  "scan_init_seg b size' offset =
     (if size' < 0x1c then ret ()
      else let n = size' div 4 * 4
        in case find (\<lambda>i. fat_config_at b n offset i \<noteq> None) (map (\<lambda>k. 4 * k) [0..<(n - 0x1c) div 4 + 1]) of
             None \<Rightarrow> ret ()
           | Some i \<Rightarrow>
               let (q, size2) = the (fat_config_at b n offset i); (ps, j) = lcd_entries b offset q size2 0x2c 0
               in thn (pr ''0x%x (0x%x + 0x%x): fat_config'' [PW (offset + of_nat i), PW offset, PN i])
                 (thn (set_clue (\<lambda>c. c\<lparr>keymap_addr := wd b i 1 + 0xc\<rparr>))
                 (thn (pr ''guess: keymap addr = 0x%x'' [PW (wd b i 1 + 0xc)])
                 (thn (pr_all (show_ram_guess (w32 b (q - 16)) (w32 b (q - 12))))
                   (pr_all (ps @ (if j = 0 then find_lcd_list b n offset else [])))))))"

section \<open>The functions of the table\<close>

text \<open>
  The code behind the head of the table: the offsets of the decompressor, the copying and the
  zeroing function (0 if not there) and the kind of the decompressor. \<open>None\<close> stands for
  \<open>return 0\<close>; the first component is what has been printed.
\<close>

definition init_functions :: "byte list \<Rightarrow> nat \<Rightarrow> nat \<Rightarrow> print list \<times> (nat \<times> nat \<times> nat \<times> nat) option" where
  "init_functions b q size2 =
     (let lz = size2 \<ge> 0x10 \<and> wd b q 0 = 0xe28fc001;
          (ty, n) = (if lz \<and> wd b q 3 = 0x079c3001 then (2, 0x60) else if lz \<and> wd b q 3 = 0x075c3001 then (3, 0x5c) else (0, 0));
          lz_addr = (if lz then q else 0);
          p1 = (if n \<noteq> 0 then [(''0x%x: init_lzdec%u'', [PN lz_addr, PN ty])] else [])
      in if lz \<and> size2 < n then (p1, None)
      else let (q, size2) = (q + n, size2 - n);
          cp = size2 \<ge> 0x28 \<and> wd b q 0 = 0xe2522010; copy_addr = (if cp then q else 0);
          p2 = (if cp then [(''0x%x: init_copy'', [PN copy_addr])] else []);
          (q, size2) = (if cp then (q + 0x28, size2 - 0x28) else (q, size2));
          z = size2 \<ge> 0x38 \<and> wd b q 0 = 0xe3b03000; zero_addr = (if z then q else 0);
          p3 = (if z then [(''0x%x: init_zero'', [PN zero_addr])] else [])
      in (p1 @ p2 @ p3, Some (ty, lz_addr, copy_addr, zero_addr)))"

text \<open>A row of the table: source, destination, length, function.\<close>

record init_row =
  r_src :: u32
  r_dst :: u32
  r_len :: u32
  r_fn :: u32

definition init_rows :: "byte list \<Rightarrow> nat \<Rightarrow> nat \<Rightarrow> init_row list" where
  "init_rows b p n = map (\<lambda>i. \<lparr>r_src = wd b (p + 16 * i) 0, r_dst = wd b (p + 16 * i) 1,
     r_len = wd b (p + 16 * i) 2, r_fn = wd b (p + 16 * i) 3\<rparr>) [0..<n]"

text \<open>
  The load address: each known function could be the one of the first row; it counts if then
  the functions of all rows are known ones. The result is the address if there is just one.
\<close>

definition load_address :: "init_row list \<Rightarrow> u32 list \<Rightarrow> u32 option" where
  "load_address rows fns =
     (let fits = filter (\<lambda>a. a \<noteq> 0 \<and> (let d = r_fn (hd rows) - a
            in list_all (\<lambda>r. list_ex (\<lambda>f. f \<noteq> 0 \<and> r_fn r - d = f) fns) rows)) fns
      in case fits of [a] \<Rightarrow> Some (r_fn (hd rows) - a) | _ \<Rightarrow> None)"

section \<open>Where the parts are\<close>

definition next_free :: "init_row list \<Rightarrow> u32" where
  "next_free rows = foldl (\<lambda>nx r. if nx = r_dst r then nx + r_len r else nx) 0x04000000 rows"

definition guess_kern :: "byte list \<Rightarrow> init_row list \<Rightarrow> unit fpm" where
  "guess_kern b rows = bnd (gets clues) (\<lambda>c.
     case trapgami c of
       None \<Rightarrow> ret ()
     | Some t \<Rightarrow>
         if wd b t 2 = - 1 then ret ()
         else let nx = next_free rows; a = (if nx = 0x04000000 then nx else if nx = 0x04000010 then 0x04000100 else 0)
           in thn (set_clue (\<lambda>c. c\<lparr>kern_addr := a\<rparr>))
             (thn (pr ''guess: kern addr '' [])
               (if a \<noteq> 0 then pr ''= 0x%08x'' [PW a] else pr ''>= 0x%08x'' [PW nx])))"

definition ps_end :: "u32 \<Rightarrow> u32 \<Rightarrow> u32 \<Rightarrow> init_row list \<Rightarrow> u32" where
  "ps_end size' fwaddr zero_addr rows =
     foldl (\<lambda>n r. if (zero_addr \<noteq> 0 \<and> r_fn r = zero_addr) \<or> r_src r < fwaddr then n
       else let a = r_src r - fwaddr in if n > a then a else n) size' rows"

section \<open>The segments are unpacked\<close>

text \<open>The file that is open, and the address after what was written last (\<open>fo\<close> and \<open>next\<close>).\<close>

type_synonym init_out = "string option \<times> u32"

definition init_name :: "nat \<Rightarrow> u32 \<Rightarrow> string" where
  "init_name cnt dst = (if cnt \<noteq> 0 then ''init'' @ dec_str cnt @ ''_'' else ''init_'') @ hex_pad 8 (unat dst) @ ''.bin''"

definition unpack_segment :: "fpenv \<Rightarrow> byte list \<Rightarrow> nat \<Rightarrow> bool \<Rightarrow> nat \<Rightarrow> u32 \<Rightarrow> u32 \<Rightarrow> u32 \<Rightarrow> init_row \<Rightarrow> init_out \<Rightarrow> init_out fpm" where
  "unpack_segment E b size' save ty lz_addr copy_addr fwaddr r =
     (\<lambda>(fo, nx).
       let cp = (copy_addr \<noteq> 0 \<and> r_fn r = copy_addr); lz = (ty \<noteq> 0 \<and> r_fn r = lz_addr);
           offs = unat (r_src r - fwaddr); size2 = size' - offs; len = unat (r_len r);
           src = drop offs (take size' b)
       in if r_src r < fwaddr \<or> offs \<ge> size' \<or> \<not> (cp \<or> lz) then ret (fo, nx)
       else bnd (if save \<and> (fo = None \<or> r_dst r \<noteq> nx)
                 then bnd (gets init_count) (\<lambda>cnt. let nm = init_name cnt (r_dst r)
                   in bnd (open_out nm) (\<lambda>ok.
                     if ok then ret (Some nm) else thn (pr_err ''fopen(output) failed'' []) (ret None)))
                 else ret fo)
         (\<lambda>fo. let write = (\<lambda>bs. case fo of None \<Rightarrow> ret 0 | Some nm \<Rightarrow> thn (append_out nm bs) (ret (of_nat (length bs))))
           in bnd (if cp then
                let size2 = (if size2 > len then len else size2)
                in thn (scan_init_seg src size2 (r_dst r)) (write (take size2 src))
              else if \<not> malloc_ok E len then ret 0
              else bnd (of_result (if ty = 2 then sprd_lzdec2 (junk E) src len else sprd_lzdec3 (junk E) src len))
                (\<lambda>(_, seg). thn (scan_init_seg seg (length seg) (r_dst r)) (write seg)))
           (\<lambda>n. ret (fo, n + r_dst r))))"

fun unpack_segments :: "fpenv \<Rightarrow> byte list \<Rightarrow> nat \<Rightarrow> bool \<Rightarrow> nat \<Rightarrow> u32 \<Rightarrow> u32 \<Rightarrow> u32 \<Rightarrow> init_row list \<Rightarrow> init_out \<Rightarrow> unit fpm" where
  "unpack_segments E b size' save ty lz_addr copy_addr fwaddr [] fo = modify (\<lambda>s. s\<lparr>init_count := init_count s + 1\<rparr>)"
| "unpack_segments E b size' save ty lz_addr copy_addr fwaddr (r # rs) fo =
     bnd (unpack_segment E b size' save ty lz_addr copy_addr fwaddr r fo)
       (unpack_segments E b size' save ty lz_addr copy_addr fwaddr rs)"

section \<open>The whole table\<close>

text \<open>The result is the size of the first part, 0 when it is not found. \<open>unpack\<close> is \<open>flags & 2\<close>.\<close>

definition print_init_table :: "fpenv \<Rightarrow> byte list \<Rightarrow> nat \<Rightarrow> nat \<Rightarrow> bool \<Rightarrow> bool \<Rightarrow> u32 fpm" where
  "print_init_table E b size' o1 save unpack =
     (let o2 = wd b o1 0; o3 = wd b o1 1; (ps, fns) = init_functions b (o1 + 8) (size' - o1 - 8);
          o2' = o2 + of_nat o1; o3' = o3 + of_nat o1; n = o3' - o2'
      in if unat o3 > size' - o1 then ret 0
      else thn (pr ''0x%x: init_table, start = 0x%x, end = 0x%x'' [PN o1, PW o2', PW o3'])
      (thn (pr_all ps)
      (case fns of
        None \<Rightarrow> ret 0
      | Some (ty, lz, copy, zero) \<Rightarrow>
          if o2' \<ge> o3' \<or> n AND 0xf \<noteq> 0 \<or> drop_bit 4 n - 1 \<ge> 20 then ret 0
          else let rows = init_rows b (unat o2') (unat (drop_bit 4 n));
                   loaded = (\<lambda>fwaddr f. if f = 0 then 0 else of_nat f + fwaddr)
            in thn (pr_all (map (\<lambda>(i, r). (''%u: src = 0x%x, dst = 0x%08x, len = 0x%x, fn = 0x%x'',
                   [PN i, PW (r_src r), PW (r_dst r), PW (r_len r), PW (r_fn r)])) (enumerate 0 rows) @ [([], [])]))
              (thn (guess_kern b rows)
              (case load_address rows (map of_nat [lz, copy, zero]) of
                 None \<Rightarrow> ret 0
               | Some fwaddr \<Rightarrow>
                   let ps_size = ps_end (of_nat size') fwaddr (loaded fwaddr zero) rows
                   in thn (set_clue (\<lambda>c. c\<lparr>ps_addr := fwaddr\<rparr>))
                     (thn (pr ''ps_addr: 0x%x'' [PW fwaddr])
                     (thn (pr ''ps_size: 0x%x'' [PW ps_size])
                     (thn (if unpack then unpack_segments E b size' save ty (loaded fwaddr lz) (loaded fwaddr copy) fwaddr rows (None, 0)
                           else ret ())
                       (ret ps_size)))))))))"

end
