(* ===== verification/FwDrps.thy ===== *)
theory FwDrps
  imports FwKeys FwLz
begin

text \<open>
  Unpacking one part of a DRPS container (fphelper/main.c, \<open>drps_decode\<close>): the header, the
  directory of COLB entries, then LZMA data, in pieces if it starts with CAPN. \<open>FATAL\<close> prints
  the line of the program it stands in and gives up with 1.
\<close>

unbundle bit_operations_syntax

definition fatal :: "nat \<Rightarrow> nat fpm" where
  "fatal line = thn (pr_err ''!!! error at %s:%u'' [PS ''drps_decode'', PN line]) (ret 1)"

text \<open>\<open>ERR_EXIT\<close> of a function that returns a status.\<close>

definition err_ret :: "string \<Rightarrow> nat fpm" where
  "err_ret msg = thn (pr_err msg []) (ret 1)"

text \<open>
  \<open>RUN_LZMADEC\<close> on the \<open>src_size\<close> bytes at \<open>p\<close>: the lines of its three tests are the line it
  is used in. The results are the size in the header of the data and what was decoded;
  the decoder gets a buffer of the size of the header.
\<close>

definition run_lzmadec :: "fpenv \<Rightarrow> byte list \<Rightarrow> nat \<Rightarrow> nat \<Rightarrow> nat \<Rightarrow> string option \<Rightarrow> nat \<Rightarrow>
    (nat \<Rightarrow> byte list \<Rightarrow> nat fpm) \<Rightarrow> nat fpm" where
  "run_lzmadec E b p src_size cap outfn line cont =
     (let size2 = unat (w32 b (p + 5))
      in if src_size < 5 + 8 then fatal line
         else if w32 b (p + 5 + 4) \<noteq> 0 then fatal line
         else if size2 > cap then fatal line
         else bnd (sprd_lzmadec E (take src_size (drop p b)) size2) (\<lambda>(_, dst).
           thn (case outfn of None \<Rightarrow> ret () | Some nm \<Rightarrow> append_out nm dst) (cont size2 dst)))"

text \<open>The pieces of a CAPN part: \<open>p\<close> is the table of their offsets, \<open>mem'\<close> where they count from.\<close>

fun capn_pieces :: "fpenv \<Rightarrow> byte list \<Rightarrow> nat \<Rightarrow> nat \<Rightarrow> nat \<Rightarrow> nat \<Rightarrow> nat \<Rightarrow> string option \<Rightarrow> nat \<Rightarrow> nat \<Rightarrow> nat fpm" where
  "capn_pieces E b mem' src_addr data_size cap p outfn 0 offs = ret 0"
| "capn_pieces E b mem' src_addr data_size cap p outfn (Suc k) offs =
     (let nx = (if k \<noteq> 0 then unat (w32 b (p + 4)) else data_size)
      in if nx < offs \<or> nx > data_size then fatal 1384
         else run_lzmadec E b (mem' + offs) (nx - offs) cap outfn 1396 (\<lambda>size2 dst.
           if length dst \<noteq> size2
           then thn (pr ''lzmadec: src = 0x%zx, size = 0x%x, dst_size = %zd / %zd''
                  [PN (src_addr + offs), PN (nx - offs), PN (length dst), PN size2]) (fatal 1400)
           else capn_pieces E b mem' src_addr data_size cap (p + 4) outfn k nx))"

definition drps_part :: "fpenv \<Rightarrow> byte list \<Rightarrow> nat \<Rightarrow> nat \<Rightarrow> nat \<Rightarrow> nat \<Rightarrow> string option \<Rightarrow> nat fpm" where
  "drps_part E b mem' src_addr colb_size cap outfn =
     (if w32 b mem' = 0x4e504143 then
        let data_size = unat (w32 b (mem' + 8)); num = unat (w32 b (mem' + 12)); p = mem' + data_size; offs = unat (w32 b p)
        in if colb_size < 0x10 then fatal 1370
           else thn (pr ''0x%x: CAPN, 0x%x, size = 0x%x, num = %u'' [PN src_addr, PW (w32 b (mem' + 4)), PN data_size, PN num])
             (if data_size < 0x10 \<or> num = 0 \<or> num > 2 ^ 24 then fatal 1374
              else if colb_size < data_size then fatal 1375
              else if colb_size - data_size \<noteq> num * 4 then fatal 1377
              else if offs < 0x10 then fatal 1380
              else capn_pieces E b mem' src_addr data_size cap p outfn num offs)
      else run_lzmadec E b mem' colb_size cap outfn 1405 (\<lambda>size2 dst.
        if length dst \<noteq> size2
        then thn (pr ''lzmadec: src = 0x%zx, size = 0x%x, dst_size = %zd / %zd''
               [PN src_addr, PN colb_size, PN (length dst), PN size2]) (fatal 1409)
        else bnd (gets clues) (\<lambda>c.
          thn (if drps_type c = 1 \<and> kern_addr c \<noteq> 0
               then check_keymap2 dst (length dst) (kern_addr c) (outfn \<noteq> None) else ret ())
            (ret 0))))"

text \<open>An \<open>outfn\<close> of \<open>None\<close> is the null pointer: nothing is written.\<close>

definition drps_decode :: "fpenv \<Rightarrow> byte list \<Rightarrow> nat \<Rightarrow> nat \<Rightarrow> nat \<Rightarrow> string option \<Rightarrow> nat fpm" where
  "drps_decode E b size' drps_offs index outfn =
     (if size' < drps_offs then fatal 1327
      else let n = size' - drps_offs; p = drps_offs; drps_size = unat (w32 b (p + 8)); drps_num = unat (w32 b (p + 12))
      in if n < 0x10 then fatal 1329
      else if w32 b p \<noteq> 0x53505244 then fatal 1332
      else if n < drps_size then fatal 1334
      else if drps_num = 0 \<or> drps_num > 256 then fatal 1338
      else if index \<ge> drps_num then fatal 1339
      else if n - drps_size < (index + 1) * 0x14 then fatal 1340
      else let q = p + drps_size
      in if \<exists>i \<in> set [0..<index + 1]. w32 b (q + 0x14 * i) \<noteq> 0x424c4f43 then fatal 1344
      else let e = q + 0x14 * index; cap = unat (w32 b (e + 16)); colb_offs = unat (w32 b (e + 8)); colb_size = unat (w32 b (e + 12))
      in if cap = 0 \<or> cap > 2 ^ 28 then fatal 1347
      else if \<not> malloc_ok E cap then err_ret ''malloc failed''
      else if colb_offs < 0x10 then fatal 1355
      else if colb_size < 5 + 8 then fatal 1356
      else if colb_offs > drps_size then fatal 1357
      else if drps_size - colb_offs < colb_size then fatal 1359
      else let part = drps_part E b (p + colb_offs) (drps_offs + colb_offs) colb_size cap
      in case outfn of
           None \<Rightarrow> part None
         | Some nm \<Rightarrow> bnd (open_out nm) (\<lambda>ok. if \<not> ok then err_ret ''fopen(output) failed'' else part (Some nm)))"

end
