(* ===== verification/FwScan.thy ===== *)
theory FwScan
  imports FwInit FwDrps
begin

text \<open>
  The scan of a firmware image (\<open>scan_fw\<close> of fphelper/main.c): at every word the recognisers
  of the parts of a firmware are tried; what they find is printed, remembered in the clues and,
  on request, unpacked. The recognisers are here in the order of the loop.
\<close>

unbundle bit_operations_syntax

section \<open>The start of the firmware\<close>

definition fw_start :: "byte list \<Rightarrow> nat \<Rightarrow> nat \<Rightarrow> unit fpm" where
  "fw_start b size' i =
     (let a = wd b i 0; k = a - 0xe59ff000 + 8; sc6531e = (k \<noteq> 0x20); p2 = i + unat k; e = wd b p2 8;
          q = p2 + 64; size2 = size' - i - (0x60 - (if sc6531e then 4 else 0))
      in if size' - i < 0xa4 then ret ()
      else if sc6531e \<and> ((k \<noteq> 0x24 \<and> k \<noteq> 0x3e0) \<or> wd b i 8 \<noteq> 0x36353632) then ret ()
      else if \<exists>j \<in> set [1..<8]. wd b i j \<noteq> a then ret ()
      else thn (pr ''0x%x: firmware start, entry = 0x%x'' [PN i, PW (wd b p2 0)])
        (thn (if sc6531e then thn (pr ''0x%x: found SC6531E firmware marker'' [PN (i + 0x20)]) (set_clue (\<lambda>c. c\<lparr>cl_chip := 1\<rparr>)) else ret ())
        (if e \<noteq> 0 \<and> e \<noteq> 0xe92d400e then ret ()
         else case check_flash_list b q size2 of
           None \<Rightarrow> ret ()
         | Some n \<Rightarrow> if n = 0 then ret ()
             else thn (pr ''0x%x: supported flash, num = %u'' [PN q, PN n])
               (pr_all (map (\<lambda>j. let r = q + 32 * j;
                    id = push_bit 16 (ucast (w16 b r)) OR push_bit 8 (ucast (w16 b (r + 2))) OR ucast (w16 b (r + 4)) :: u32
                  in (''%u: flash id = 0x%x, layout = 0x%x, config = 0x%x'', [PN j, PW id, PW (wd b r 6), PW (wd b r 7)])) [0..<n])))))"

section \<open>Markers\<close>

definition init_code_at :: "byte list \<Rightarrow> nat \<Rightarrow> bool" where
  "init_code_at b i = (map (wd b i) [0..<5] = [0xe8ba000f, 0xe24fe018, 0xe3130001, 0x1047f003, 0xe12fff13])"

definition trapgami_at :: "byte list \<Rightarrow> nat \<Rightarrow> unit fpm" where
  "trapgami_at b i =
     (if wd b i 0 \<noteq> 0x50415254 \<or> wd b i 1 \<noteq> 0x494d4147 \<or> (wd b i 2 \<noteq> - 1 \<and> wd b i 2 AND 0xff000003 \<noteq> 0)
         \<or> (wd b i 3 \<noteq> - 1 \<and> wd b i 3 AND 0xff000003 \<noteq> 0) then ret ()
      else thn (pr ''0x%x: TRAPGAMI, kern = 0x%x, user = 0x%x'' [PN i, PW (wd b i 2), PW (wd b i 3)])
        (set_clue (\<lambda>c. c\<lparr>trapgami := Some i\<rparr>)))"

definition hgam_at :: "byte list \<Rightarrow> nat \<Rightarrow> nat \<Rightarrow> print list" where
  "hgam_at b size' i =
     (let lo = (\<lambda>k. wd b i k AND 0xff)
      in if wd b i 0 \<noteq> 0x4d414748 \<or> wd b i 1 \<noteq> 0x5346432e \<or> size' - i < 0x30 \<or> wd b i 10 \<noteq> 0xffffffff \<or> wd b i 11 \<noteq> 0x5441494c then []
      else (''0x%x: HGAM.CFS, cs0_id = 0x%06x, cs0_size = 0x%x'',
          [PN i, PW (push_bit 16 (lo 2) OR push_bit 8 (lo 3) OR lo 4), PW (wd b i 5)]) #
        (if wd b i 9 \<noteq> 0 \<and> wd b i 9 \<noteq> - 1
         then [('', cs1_id = 0x%06x, cs1_size = 0x%x'', [PW (lo 6 OR push_bit 8 (lo 7) OR push_bit 16 (lo 8)), PW (wd b i 9)])]
         else []) @ [([], [])])"

section \<open>The DRPS container\<close>

text \<open>\<open>id2str\<close>: four characters, highest byte first, others than printable ones as escapes.\<close>

definition id2str :: "u32 \<Rightarrow> string" where
  "id2str v = concat (map (\<lambda>k. let a = unat v div 256 ^ k mod 256
     in if 32 \<le> a \<and> a < 127 then [char_of a] else esc (''x'' @ hex_pad 2 a)) [3, 2, 1, 0])"

definition colb_kind :: "u32 \<Rightarrow> string \<times> nat" where
  "colb_kind v = (if v = 0x494d4147 then (''kern'', 1) else if v = 0x75736572 then (''user'', 2)
     else if v = 0x7253736f then (''rsrc'', 3) else (''unknown'', 0))"

text \<open>\<open>drps_cnt\<close> counts the parts of each kind in signed characters.\<close>

type_synonym drps_cnt = "nat \<Rightarrow> byte"

definition part_name :: "string \<Rightarrow> byte \<Rightarrow> string" where
  "part_name nm cnt = nm @ (if cnt = 0 then [] else dec_str (unat (scast cnt :: u32))) @ ''.bin''"

fun drps_entries :: "fpenv \<Rightarrow> byte list \<Rightarrow> nat \<Rightarrow> nat \<Rightarrow> bool \<Rightarrow> nat \<Rightarrow> nat \<Rightarrow> nat \<Rightarrow> drps_cnt \<Rightarrow> drps_cnt fpm" where
  "drps_entries E b size' i save 0 j p cnt = ret cnt"
| "drps_entries E b size' i save (Suc n) j p cnt =
     (if wd b p 0 \<noteq> 0x424c4f43 then ret cnt
      else let (nm, k) = colb_kind (wd b p 1)
      in thn (pr ''0x%x: COLB, name = \"%s\", offs = 0x%x (0x%x), size = 0x%x, 0x%x''
          [PN p, PS (id2str (wd b p 1)), PW (wd b p 2), PW (of_nat i + wd b p 2), PW (wd b p 3), PW (wd b p 4)])
        (thn (set_clue (\<lambda>c. c\<lparr>drps_type := k\<rparr>))
        (bnd (gets clues) (\<lambda>c.
          if save then thn (bnd (drps_decode E b size' i j (Some (part_name nm (cnt k)))) (\<lambda>_. ret ()))
            (drps_entries E b size' i save n (j + 1) (p + 20) (cnt(k := cnt k + 1)))
          else thn (if k \<noteq> 1 \<or> kern_addr c = 0 \<or> keymap_addr c < kern_addr c then ret ()
                    else bnd (drps_decode E b size' i j None) (\<lambda>_. ret ()))
            (drps_entries E b size' i save n (j + 1) (p + 20) cnt)))))"

text \<open>The results are the new size of the first part and the counters.\<close>

definition drps_at :: "fpenv \<Rightarrow> byte list \<Rightarrow> nat \<Rightarrow> nat \<Rightarrow> bool \<Rightarrow> nat \<Rightarrow> drps_cnt \<Rightarrow> (nat \<times> drps_cnt) fpm" where
  "drps_at E b size' i save ps_size cnt =
     (let j = unat (wd b i 2); n = unat (wd b i 3); ps_size' = (if ps_size > i then i else ps_size)
      in if wd b i 0 \<noteq> 0x53505244 \<or> wd b i 1 \<noteq> 0 \<or> n = 0 \<or> n > 32 \<or> j mod 4 \<noteq> 0 then ret (ps_size, cnt)
      else thn (pr ''0x%x: DRPS, size = 0x%x, num = %u'' [PN i, PN j, PN n])
        (if size' - i < j then ret (ps_size, cnt)
         else if size' - i - j < n * 0x14 then ret (ps_size', cnt)
         else bnd (drps_entries E b size' i save n 0 (i + j) cnt) (\<lambda>cnt. ret (ps_size', cnt))))"

section \<open>The pin map, the memory map\<close>

text \<open>The end of the pin map that starts before \<open>p\<close>; \<open>n\<close> pairs are left in the image.\<close>

fun pinmap_end :: "byte list \<Rightarrow> nat \<Rightarrow> nat \<Rightarrow> nat option" where
  "pinmap_end b 0 p = None"
| "pinmap_end b (Suc n) p =
     (if wd b p 0 = - 1 \<and> wd b p 1 = - 1 then Some (p + 8)
      else if drop_bit 12 (wd b p 0 XOR 0x8c000000) \<noteq> 0 \<and> drop_bit 12 (wd b p 0 XOR 0x82001000) \<noteq> 0 then None
      else pinmap_end b n (p + 8))"

definition pinmap_at :: "byte list \<Rightarrow> nat \<Rightarrow> nat \<Rightarrow> nat option" where
  "pinmap_at b size' i =
     (if \<exists>k \<in> set [0, 2, 4]. drop_bit 12 (wd b i k XOR 0x8c000000) \<noteq> 0 then None
      else pinmap_end b ((size' - i) div 8 - 3) (i + 24))"

definition devices_at :: "byte list \<Rightarrow> nat \<Rightarrow> nat \<Rightarrow> unit fpm" where
  "devices_at b size' i =
     (case check_devtab b size' i of
        None \<Rightarrow> ret ()
      | Some k \<Rightarrow> let c = devtab_chip b i k
          in if c = 0 then ret ()
             else thn (pr ''0x%x: devices_tab (chip = %s)'' [PN i, PS (if c = 1 then ''SC6531E'' else if c = 2 then ''SC6531'' else ''SC6530'')])
               (set_clue (\<lambda>x. x\<lparr>cl_chip := c\<rparr>)))"

fun map_rows :: "byte list \<Rightarrow> nat \<Rightarrow> nat \<Rightarrow> nat \<Rightarrow> print list" where
  "map_rows b 0 j p = []"
| "map_rows b (Suc n) j p =
     (if wds b p [0, 1, 2] AND 0xfff \<noteq> 0 \<or> drop_bit 4 (wd b p 3) \<noteq> 0 then []
      else (''%u: addr = 0x%x, size = 0x%x, 0x%x, %u, 0x%x, 0x%x'', PN j # map (\<lambda>k. PW (wd b p k)) [0..<6]) #
        map_rows b n (j + 1) (p + 24))"

definition memory_map_at :: "byte list \<Rightarrow> nat \<Rightarrow> nat \<Rightarrow> print list" where
  "memory_map_at b size' i =
     (let a = wd b i 1
      in if wd b i 6 \<noteq> 0x4000000 \<or> wd b i 3 \<noteq> 1 \<or> wds b i [0, 2] \<noteq> 0 \<or> a = 0 \<or> a AND NOT 0x1f00000 \<noteq> 0 then []
      else [(''guess: flash size = %uMB (%uMbit)'', [PW (drop_bit 20 a), PW (drop_bit 17 a)]), (''0x%x: memory_map'', [PN i])] @
        map_rows b ((size' - i) div 0x18) 0 i)"

section \<open>The loop\<close>

text \<open>
  One round at \<open>i\<close>; the results are where the next one is, the size of the first part and the
  counters. A pin map moves the scan to its end, where the last two recognisers look as well.
\<close>

definition scan_round :: "fpenv \<Rightarrow> byte list \<Rightarrow> nat \<Rightarrow> bool \<Rightarrow> bool \<Rightarrow> nat \<Rightarrow> nat \<Rightarrow> drps_cnt \<Rightarrow> (nat \<times> nat \<times> drps_cnt) fpm" where
  "scan_round E b size' save unpack i ps_size cnt =
     thn (if i mod 0x1000 = 0 then fw_start b size' i else ret ())
     (bnd (if init_code_at b i
           then bnd (print_init_table E b size' (i + 0x14) save unpack) (\<lambda>a. ret (if a \<noteq> 0 then unat a else ps_size))
           else ret ps_size) (\<lambda>ps_size.
      thn (trapgami_at b i)
      (thn (pr_all (hgam_at b size' i))
      (bnd (drps_at E b size' i save ps_size cnt) (\<lambda>(ps_size, cnt).
       bnd (case pinmap_at b size' i of
              None \<Rightarrow> ret i
            | Some e \<Rightarrow> thn (set_clue (\<lambda>c. c\<lparr>pinmap_offs := of_nat i\<rparr>))
                (thn (pr ''0x%x: pinmap (end = 0x%x)'' [PN i, PN e]) (ret (e - 4)))) (\<lambda>i'.
        thn (devices_at b size' i')
        (thn (if i' = i then pr_all (memory_map_at b size' i) else ret ())
          (ret (i' + 4, ps_size, cnt)))))))))"

fun scan_fw_loop :: "nat \<Rightarrow> fpenv \<Rightarrow> byte list \<Rightarrow> nat \<Rightarrow> bool \<Rightarrow> bool \<Rightarrow> nat \<Rightarrow> nat \<Rightarrow> drps_cnt \<Rightarrow> nat fpm" where
  "scan_fw_loop 0 E b size' save unpack i ps_size cnt = no_fuel"
| "scan_fw_loop (Suc k) E b size' save unpack i ps_size cnt =
     (if size' < i + 0x1c then ret ps_size
      else bnd (scan_round E b size' save unpack i ps_size cnt) (\<lambda>(i, ps_size, cnt).
        scan_fw_loop k E b size' save unpack i ps_size cnt))"

definition scan_fw :: "fpenv \<Rightarrow> byte list \<Rightarrow> nat \<Rightarrow> bool \<Rightarrow> bool \<Rightarrow> unit fpm" where
  "scan_fw E b size0 save unpack =
     (let size' = size0 div 4 * 4
      in if size' < 0x1c then ret ()
      else bnd (scan_fw_loop (size' + 1) E b size' save unpack 0 size' (\<lambda>_. 0)) (\<lambda>ps_size.
        bnd (gets clues) (\<lambda>c.
          thn (if pinmap_offs c \<noteq> 0 then pr_all (pinmap_info (cl_chip c) b (unat (pinmap_offs c))) else ret ())
            (if ps_size < size'
             then thn (check_keymap2 b ps_size (ps_addr c) save)
               (if save then save_out ''ps.bin'' (take ps_size b) else ret ())
             else ret ()))))"

end
