(* ===== verification/FwLcd.thy ===== *)
theory FwLcd
  imports FwSms
begin

text \<open>
  The decompiler of LCD initialisation code (\<open>lcd_init_dec\<close> of fphelper/main.c): a run over
  Thumb instructions that follows the constants in registers 0 to 7 and turns calls into
  commands. The code ends at \<open>fin\<close>.
\<close>

unbundle bit_operations_syntax

section \<open>Commands\<close>

text \<open>\<open>cmd\<close> is negative (\<open>None\<close>) when only data is pending.\<close>

definition lcd_init_print :: "nat option \<Rightarrow> nat list \<Rightarrow> print list" where
  "lcd_init_print cmd data =
     (let ps = (if data \<noteq> [] then ('' '', []) # map (\<lambda>d. (''0x%02x,'', [PN d])) data else []) @ [([], [])]
      in case cmd of
        None \<Rightarrow> if data = [] then [] else (''LCM_DATA(%u),'', [PN (length data)]) # ps
      | Some c \<Rightarrow> (''LCM_CMD(0x%02x, %u),'', [PN c, PN (length data)]) # ps)"

section \<open>The state\<close>

text \<open>
  A register is known when its bit of \<open>flags\<close> is set: \<open>regs\<close> has the values of the known
  ones. The addresses of the three functions are \<open>None\<close> until they are seen (\<open>badptr\<close>).
\<close>

record lcd =
  regs :: "nat \<Rightarrow> nat option"
  lcm_wait :: "u32 option"
  lcm_cmd :: "u32 option"
  lcm_data :: "u32 option"
  last_cmd :: "nat option"
  pending :: "nat list"

definition lcd0 :: lcd where
  "lcd0 = \<lparr>regs = (\<lambda>_. None), lcm_wait = None, lcm_cmd = None, lcm_data = None, last_cmd = None, pending = []\<rparr>"

text \<open>The values of the known registers 0 to 3, if these are the first ones.\<close>

definition call_args :: "'z lcd_scheme \<Rightarrow> nat list option" where
  "call_args s = (let k = takeWhile (\<lambda>i. regs s i \<noteq> None) [0..<4]
     in if \<forall>i \<in> set [length k..<4]. regs s i = None then Some (map (\<lambda>i. the (regs s i)) k) else None)"

text \<open>The address of a call from its two half words; \<open>pos\<close> is after the second.\<close>

definition blx_target :: "nat \<Rightarrow> u16 \<Rightarrow> u16 \<Rightarrow> u32" where
  "blx_target pos a1 a2 =
     (let hi = signed_drop_bit 21 (push_bit 21 (ucast a1 :: u32))
      in (of_nat pos + (push_bit 12 hi OR push_bit 1 (ucast a2 AND 0x7ff))) AND NOT 3)"

section \<open>A call\<close>

text \<open>What a call prints and the new state, or the message it stops with; \<open>site\<close> is where the call is.\<close>

definition unexpected :: "nat \<Rightarrow> print list" where
  "unexpected site = [(''!!! 0x%x: unexpected call'', [PN site])]"

definition lcd_call1 :: "nat \<Rightarrow> u32 \<Rightarrow> nat list \<Rightarrow> lcd \<Rightarrow> print list \<times> lcd option" where
  "lcd_call1 site t args s =
     (case args of
        [r0] \<Rightarrow>
          (let s = (if lcm_wait s = None then s\<lparr>lcm_wait := Some t\<rparr> else s)
           in if lcm_wait s \<noteq> Some t then (unexpected site, None)
              else (lcd_init_print (last_cmd s) (pending s) @ [(''LCM_DELAY(%u),'', [PN r0])],
                    Some (s\<lparr>pending := [], last_cmd := None\<rparr>)))
      | [r0, r1] \<Rightarrow>
          if r1 \<noteq> 0 then ([(''!!! 0x%x: r1 != 0'', [PN site])], None)
          else let s = (if lcm_cmd s = None then s\<lparr>lcm_cmd := Some t\<rparr> else s)
          in if lcm_cmd s = Some t
             then if last_cmd s \<noteq> None \<or> pending s \<noteq> []
                  then (lcd_init_print (last_cmd s) (pending s), Some (s\<lparr>pending := [], last_cmd := Some r0\<rparr>))
                  else ([], Some (s\<lparr>last_cmd := Some r0\<rparr>))
             else let s = (if lcm_data s = None then s\<lparr>lcm_data := Some t\<rparr> else s)
             in if lcm_data s = Some t
                then if length (pending s) = 31
                     then (lcd_init_print (last_cmd s) (pending s), Some (s\<lparr>pending := [r0], last_cmd := None\<rparr>))
                     else ([], Some (s\<lparr>pending := pending s @ [r0]\<rparr>))
                else (unexpected site, None)
      | _ \<Rightarrow> (unexpected site, None))"

definition lcd_call0 :: "u32 \<Rightarrow> nat list \<Rightarrow> print list" where
  "lcd_call0 t args =
     [(''blx_%x('', [PW t])] @
     concat (map (\<lambda>i. [(''%s0x%02x'', [PS (if i = 0 then [] else '', ''), PN (args ! i)])]) [0..<length args]) @
     [('')'', [])]"

definition lcd_call :: "bool \<Rightarrow> nat \<Rightarrow> u32 \<Rightarrow> lcd \<Rightarrow> print list \<times> lcd option" where
  "lcd_call mode1 site t s =
     (case call_args s of
        None \<Rightarrow> ([(''!!! 0x%x: unexpected call args'', [PN site])], None)
      | Some args \<Rightarrow>
          (case (if mode1 then lcd_call1 site t args s else (lcd_call0 t args, Some s)) of
             (ps, None) \<Rightarrow> (ps, None)
           | (ps, Some s) \<Rightarrow> (ps, Some (s\<lparr>regs := (\<lambda>i. if i < 4 then None else regs s i)\<rparr>))))"

section \<open>Instructions\<close>

text \<open>One instruction at \<open>p\<close>: what it prints, and where and how to go on.\<close>

definition lcd_step :: "byte list \<Rightarrow> nat \<Rightarrow> bool \<Rightarrow> nat \<Rightarrow> lcd \<Rightarrow> print list \<times> (nat \<times> lcd) option" where
  "lcd_step b fin mode1 p s =
     (if \<not> p + 2 \<le> fin then ([], None)
      else let a = w16 b p; n = unat a; p = p + 2
      in if a AND 0xf800 = 0x2000 then
           (let d = n div 256 mod 8
            in if regs s d \<noteq> None then ([], None)
               else ([], Some (p, s\<lparr>regs := (regs s)(d \<mapsto> n mod 256)\<rparr>)))
         else if a AND 0xffc0 = 0 then
           (let d = n mod 8; m = n div 8 mod 8
            in if regs s m = None then ([], None)
               else ([], Some (p, s\<lparr>regs := (regs s)(d := regs s m)\<rparr>)))
         else if a AND 0xf800 = 0xf000 then
           if \<not> p + 2 \<le> fin then ([], None)
           else let a2 = w16 b p; p = p + 2
           in if a2 AND 0xf801 \<noteq> 0xe800 then ([], None)
              else (case lcd_call mode1 (p - 4) (blx_target p a a2) s of
                  (ps, None) \<Rightarrow> (ps, None)
                | (ps, Some s) \<Rightarrow> (ps, Some (p, s)))
         else if a AND 0xf800 = 0xe000 then
           if n mod 2048 \<ge> 1024 then ([], None)
           else let k = n mod 2048 + 1
           in if (fin - p) div 2 < k then ([(''!!! jump out of the buffer'', [])], None)
              else ([], Some (p + 2 * k, s))
         else ([(''!!! 0x%x: unknown op 0x%04x'', [PN (p - 2), PW (ucast a)])], None))"

lemma lcd_step_progress: "lcd_step b fin mode1 p s = (ps, Some (p', s')) \<Longrightarrow> p < p' \<and> p' \<le> fin"
  by (auto simp: lcd_step_def Let_def split: if_splits prod.splits option.splits)

text \<open>
  The whole run: what it prints and the last state. An instruction that stops the run leaves
  the pending command and data as they were.
\<close>

function lcd_run :: "byte list \<Rightarrow> nat \<Rightarrow> bool \<Rightarrow> nat \<Rightarrow> lcd \<Rightarrow> print list \<times> lcd" where
  "lcd_run b fin mode1 p s =
     (case lcd_step b fin mode1 p s of
        (ps, None) \<Rightarrow> (ps, s)
      | (ps, Some (p', s')) \<Rightarrow> (let (qs, t) = lcd_run b fin mode1 p' s' in (ps @ qs, t)))"
  by pat_completeness auto

termination
  by (relation "measure (\<lambda>(b, fin, mode1, p, s). fin - p)") (auto dest: lcd_step_progress [OF sym])

declare lcd_run.simps [simp del]

definition lcd_init_dec :: "byte list \<Rightarrow> nat \<Rightarrow> nat \<Rightarrow> nat \<Rightarrow> print list" where
  "lcd_init_dec b size' pos mode =
     (if mode \<ge> 2 then [(''!!! unknown mode'', [])]
      else if pos \<ge> size' then [(''!!! pos >= size'', [])]
      else let (ps, s) = lcd_run b (size' div 2 * 2) (mode = 1) (pos div 2 * 2) lcd0
        in ps @ (if mode = 1 then lcd_init_print (last_cmd s) (pending s) @ [(''LCM_END'', [])] else []))"

section \<open>The data buffer, and the end of the code\<close>

lemma pending_call:
  assumes "lcd_call mode1 site t s = (ps, Some s')" "length (pending s) \<le> 31"
  shows "length (pending s') \<le> 31"
  using assms
  by (auto simp: lcd_call_def lcd_call1_def Let_def split: option.splits list.splits if_splits prod.splits)

lemma pending_step:
  assumes "lcd_step b fin mode1 p s = (ps, Some (p', s'))" "length (pending s) \<le> 31"
  shows "length (pending s') \<le> 31"
  using assms pending_call
  by (fastforce simp: lcd_step_def Let_def split: if_splits option.splits prod.splits)

text \<open>
  C28: However the code runs on, the data that is collected for a command never has more than
  the 31 bytes of the buffer.
\<close>

theorem lcd_run_data_fits:
  assumes "length (pending s) \<le> 31"
  shows "length (pending (snd (lcd_run b fin mode1 p s))) \<le> 31"
  using assms
proof (induction b fin mode1 p s rule: lcd_run.induct)
  case (1 b fin mode1 p s)
  show ?case
  proof (cases "lcd_step b fin mode1 p s")
    case (Pair ps r)
    show ?thesis
    proof (cases r)
      case (Some q)
      obtain p' s' where q: "q = (p', s')" by (cases q)
      have "length (pending s') \<le> 31" using pending_step Pair Some q 1(2) by blast
      then have "length (pending (snd (lcd_run b fin mode1 p' s'))) \<le> 31"
        using 1(1) Pair Some q by simp
      then show ?thesis by (subst lcd_run.simps) (simp add: Pair Some q case_prod_beta)
    qed (subst lcd_run.simps, simp add: Pair 1(2))
  qed
qed

theorem lcd_run_data_fits_witness:
  "length (pending (snd (lcd_run [0x2c, 0x20, 0, 0x21] 4 True 0 lcd0))) \<le> 31"
  using lcd_run_data_fits [of lcd0 "[0x2c, 0x20, 0, 0x21]" 4 True 0] by (simp add: lcd0_def)

lemma w16_take: "p + 2 \<le> n \<Longrightarrow> w16 (take n b) p = w16 b p"
  by (simp add: w16_def READ16_LE_def u8at_def)

lemma lcd_step_take: "lcd_step (take fin b) fin mode1 p s = lcd_step b fin mode1 p s"
  by (simp add: lcd_step_def w16_take Let_def)

text \<open>
  The run depends only on the code before its end: no instruction and no second half of
  a call is read from behind it, and a branch does not leave it.
\<close>

theorem lcd_run_inside:
  "lcd_run (take fin b) fin mode1 p s = lcd_run b fin mode1 p s"
proof (induction b fin mode1 p s rule: lcd_run.induct)
  case (1 b fin mode1 p s)
  have ih: "lcd_run (take fin b) fin mode1 p' s' = lcd_run b fin mode1 p' s'"
    if "lcd_step b fin mode1 p s = (ps, Some (p', s'))" for ps p' s'
    using 1 [OF that [symmetric] refl refl] by simp
  show ?case
    using ih
    by (subst (1 2) lcd_run.simps) (auto simp: lcd_step_take split: prod.split option.split)
qed

end
