(* ===== verification/FwDial.thy ===== *)
theory FwDial
  imports FwSms
begin

text \<open>
  The tables of dial codes in the user part of a firmware (fphelper/main.c, \<open>scan_user\<close>): a
  table entry has the address of a code string, two ids and the address of a handler; language
  codes have an address and an id. Offsets are naturals, words read from the image 32 bits.
\<close>

unbundle bit_operations_syntax

section \<open>Dial strings\<close>

definition dial_chars :: "byte list" where "dial_chars = bytes_of ''#*0123456789''"

fun dial_len :: "byte list \<Rightarrow> nat \<Rightarrow> nat \<Rightarrow> nat \<Rightarrow> nat" where
  "dial_len b start p 0 = 0"
| "dial_len b start p (Suc len) =
     (let a = u8at b p in if a = 0 then p - start
      else if a \<notin> set dial_chars then 0 else dial_len b start (p + 1) len)"

text \<open>
  The literal has 16 bytes with its terminator but 17 are compared. \<open>do \<dots> while (--len)\<close>
  runs at least once; \<open>len\<close> is not zero here.
\<close>

definition is_dial_str :: "fpenv \<Rightarrow> byte list \<Rightarrow> nat \<Rightarrow> nat \<Rightarrow> nat" where
  "is_dial_str E b p len =
     (let a = u8at b p; len = (if len > 80 then 80 else len)
      in if a \<noteq> 0x23 \<and> a \<noteq> 0x2a then 0
         else if len \<ge> 17 \<and> map (\<lambda>i. u8at b (p + i)) [0..<17] = bytes_of ''#PW+12345678+?#'' @ [0, past_literal E] then 16
         else dial_len b p p len)"

text \<open>
  The functions from here on are the same in fphelper_t117/main.c, with another test for dial
  strings and more names: both are arguments.
\<close>

type_synonym dial_test = "byte list \<Rightarrow> nat \<Rightarrow> nat \<Rightarrow> nat"

definition check_dial_code :: "dial_test \<Rightarrow> byte list \<Rightarrow> u32 \<Rightarrow> u32 \<Rightarrow> nat \<Rightarrow> bool" where
  "check_dial_code isd b size' base offs =
     (let code = w32 b offs - base; id1 = w32 b (offs + 4); id2 = w32 b (offs + 8)
      in \<not> size' \<le> code \<and> drop_bit 6 (id2 - 1) = 0 \<and> drop_bit 6 (id1 - 1) = 0 \<and>
         \<not> w32 b (offs + 12) - base \<ge> size' \<and> isd b (unat code) (unat (size' - code)) \<ge> 3)"

section \<open>The names of the codes\<close>

definition code_names :: "(string \<times> string) list" where
  "code_names =
     [(''####0000#'', ''version 2''), (''####1040#'', ''net info''), (''####2222#'', ''serial''),
      (''#*8378#0#'', ''tests menu''), (''#*8378#1#'', ''eng menu''), (''#*8378#2#'', ''version 1''),
      (''#*8378#3#'', ''prod info''), (''#*8378#4#'', ''phone info''), (''#*8378#5#'', ''chip test''),
      (''#*8378#8#'', ''monkey test''), (''#*786646468#'', ''nv counting''),
      (''*#0000#'', ''nokia version''), (''*#6774#'', ''oss third party''), (''*#7370#'', ''factory reset'')]"

definition id_names :: "((u32 \<times> u32) \<times> string) list" where
  "id_names =
     [((5, 1), ''tests menu''), ((5, 2), ''tests start''), ((5, 3), ''prod info''), ((5, 4), ''phone info''),
      ((5, 6), ''serial''), ((5, 7), ''net info''), ((0xb, 8), ''eng menu''), ((0xb, 9), ''version 1''),
      ((0xb, 0xa), ''version 2'')]"

definition code_name :: "(string \<times> string) list \<Rightarrow> string \<Rightarrow> u32 \<Rightarrow> u32 \<Rightarrow> string option" where
  "code_name nms str id2 id1 =
     (case map_of nms str of Some nm \<Rightarrow> Some nm | None \<Rightarrow> map_of id_names (id2, id1))"

section \<open>The tables\<close>

function dial_start :: "dial_test \<Rightarrow> byte list \<Rightarrow> u32 \<Rightarrow> u32 \<Rightarrow> nat \<Rightarrow> nat" where
  "dial_start isd b size' base offs =
     (if offs \<ge> 16 \<and> check_dial_code isd b size' base (offs - 16) then dial_start isd b size' base (offs - 16) else offs)"
  by pat_completeness auto

termination by (relation "measure (\<lambda>(isd, b, size', base, offs). offs)") auto

function dial_end :: "dial_test \<Rightarrow> byte list \<Rightarrow> u32 \<Rightarrow> u32 \<Rightarrow> nat \<Rightarrow> nat" where
  "dial_end isd b size' base fin =
     (if fin + 16 \<le> unat size' \<and> check_dial_code isd b size' base fin then dial_end isd b size' base (fin + 16) else fin)"
  by pat_completeness auto

termination by (relation "measure (\<lambda>(isd, b, size', base, fin). unat size' - fin)") auto

definition code_str :: "byte list \<Rightarrow> u32 \<Rightarrow> string" where "code_str b code = c_str (drop (unat code) b)"

definition show_code :: "(string \<times> string) list \<Rightarrow> byte list \<Rightarrow> u32 \<Rightarrow> nat \<Rightarrow> print list" where
  "show_code nms b base offs =
     (let code = w32 b offs - base; id1 = w32 b (offs + 4); id2 = w32 b (offs + 8); str = code_str b code
      in (''0x%x: %2u %2u %s'', [PN offs, PW id2, PW id1, PS str]) #
         (case code_name nms str id2 id1 of None \<Rightarrow> [] | Some nm \<Rightarrow> [('' (%s)'', [PS nm])]) @ [([], [])])"

function lang_codes :: "dial_test \<Rightarrow> byte list \<Rightarrow> u32 \<Rightarrow> u32 \<Rightarrow> nat \<Rightarrow> nat \<Rightarrow> print list \<times> nat" where
  "lang_codes isd b size' base fin offs =
     (let code = w32 b offs - base; i = w32 b (offs + 4)
      in if \<not> offs + 8 \<le> unat size' \<or> size' \<le> code \<or> i \<ge> 128 \<or> isd b (unat code) (unat (size' - code)) < 3
         then ([], offs)
         else let (ps, e) = lang_codes isd b size' base fin (offs + 8)
           in ((if offs = fin then [(''0x%x: language codes:'', [PN offs])] else []) @
               [(''0x%x: %2u %s'', [PN offs, PW i, PS (code_str b code)])] @ ps, e))"
  by pat_completeness auto

termination by (relation "measure (\<lambda>(isd, b, size', base, fin, offs). unat size' - offs)") auto

declare dial_start.simps [simp del] dial_end.simps [simp del] lang_codes.simps [simp del]

definition print_dial_codes :: "(string \<times> string) list \<Rightarrow> dial_test \<Rightarrow> byte list \<Rightarrow> u32 \<Rightarrow> u32 \<Rightarrow> nat \<Rightarrow> print list \<times> nat" where
  "print_dial_codes nms isd b size' base offs =
     (let fin = dial_end isd b size' base (offs + 16); offs = dial_start isd b size' base offs;
          (ps, e) = lang_codes isd b size' base fin fin
      in ((''0x%x: dial codes:'', [PN offs]) #
          concat (map (\<lambda>i. show_code nms b base (offs + 16 * i)) [0..<(fin - offs + 15) div 16]) @ ps, e))"

definition dial_table_at :: "dial_test \<Rightarrow> byte list \<Rightarrow> u32 \<Rightarrow> u32 \<Rightarrow> nat \<Rightarrow> bool" where
  "dial_table_at isd b size' base i =
     (let code = w32 b i - base; id1 = w32 b (i + 4); id2 = w32 b (i + 8)
      in \<not> size' \<le> code \<and> \<not> w32 b (i + 12) - base \<ge> size' \<and> (id2 = 5 \<or> id2 = 0xb) \<and> \<not> id1 - 1 \<ge> 10 \<and>
         isd b (unat code) (unat (size' - code)) \<ge> 1)"

lemma dial_end_le: "fin \<le> dial_end isd b size' base fin"
  by (induction isd b size' base fin rule: dial_end.induct) (subst dial_end.simps, auto)

lemma lang_codes_le: "offs \<le> snd (lang_codes isd b size' base fin offs)"
proof (induction isd b size' base fin offs rule: lang_codes.induct)
  case (1 isd b size' base fin offs)
  show ?case
    by (subst lang_codes.simps) (use 1 [OF refl refl] in \<open>auto simp: Let_def split: prod.split\<close>)
qed

lemma print_dial_codes_progress: "offs + 16 \<le> snd (print_dial_codes nms isd b size' base offs)"
  using dial_end_le [of "offs + 16" isd b size' base] lang_codes_le [of "dial_end isd b size' base (offs + 16)" isd b size' base "dial_end isd b size' base (offs + 16)"]
  by (simp add: print_dial_codes_def Let_def case_prod_beta)

function scan_user_loop :: "(string \<times> string) list \<Rightarrow> dial_test \<Rightarrow> byte list \<Rightarrow> u32 \<Rightarrow> u32 \<Rightarrow> nat \<Rightarrow> print list" where
  "scan_user_loop nms isd b size' base i =
     (if unat size' < i + 0x10 then []
      else if dial_table_at isd b size' base i
           then fst (print_dial_codes nms isd b size' base i) @
             scan_user_loop nms isd b size' base (snd (print_dial_codes nms isd b size' base i))
           else scan_user_loop nms isd b size' base (i + 4))"
  by pat_completeness auto

termination
proof (relation "measure (\<lambda>(nms, isd, b, size', base, i). unat size' - i)")
  fix nms :: "(string \<times> string) list" and isd b base i and size' :: u32
  assume "\<not> unat size' < i + 0x10"
  then show "((nms, isd, b, size', base, snd (print_dial_codes nms isd b size' base i)), nms, isd, b, size', base, i) \<in> measure (\<lambda>(nms, isd, b, size', base, i). unat size' - i)"
    using print_dial_codes_progress [of i nms isd b size' base] by simp
qed auto

definition scan_codes :: "(string \<times> string) list \<Rightarrow> dial_test \<Rightarrow> byte list \<Rightarrow> u32 \<Rightarrow> u32 \<Rightarrow> print list" where
  "scan_codes nms isd b size' base =
     (if size' < 0x10 then [] else scan_user_loop nms isd b (size' AND NOT 3) base 0)"

definition scan_user :: "fpenv \<Rightarrow> byte list \<Rightarrow> u32 \<Rightarrow> u32 \<Rightarrow> unit fpm" where
  "scan_user E b size' base = pr_all (scan_codes code_names (is_dial_str E) b size' base)"

end
