(* ===== verification/FwHelper.thy ===== *)
theory FwHelper
  imports FwScan FwLcd FwDial FwData
begin

text \<open>
  The advice for installing a boot loader (\<open>sdboot_helper\<close> of fphelper/main.c), and the
  command line of fphelper.
\<close>

unbundle bit_operations_syntax

section \<open>The scan for the boot loader\<close>

definition drps_end :: "byte list \<Rightarrow> nat \<Rightarrow> nat \<Rightarrow> nat option" where
  "drps_end b size' i =
     (let j = unat (wd b i 2); n = unat (wd b i 3)
      in if wd b i 0 \<noteq> 0x53505244 \<or> wd b i 1 \<noteq> 0 \<or> n = 0 \<or> n > 32 \<or> j mod 4 \<noteq> 0 then None
         else if size' - i < j \<or> size' - i - j < n * 0x14 then None
         else if \<exists>k \<in> set [0..<n]. wd b (i + j + 20 * k) 0 \<noteq> 0x424c4f43 then None
         else Some (i + j + 20 * n))"

definition jump_at :: "byte list \<Rightarrow> nat \<Rightarrow> nat \<Rightarrow> bool" where
  "jump_at b size' i = (wd b i 0 = 0x3d3d3d0a \<and> wd b i 1 = 0x3d3d3d3d \<and> \<not> size' - i < 0x3c \<and>
     (\<forall>j \<in> set [2..<14]. wd b i j = 0x3d3d3d3d) \<and> wd b i 14 = 0x00000a3d \<and> \<not> i > 0x400000 - 0x3c)"

text \<open>The chip, the end of the last container and the first place for a jump; \<open>None\<close> is \<open>return 0\<close>.\<close>

fun helper_scan :: "byte list \<Rightarrow> nat \<Rightarrow> nat list \<Rightarrow> nat \<Rightarrow> nat \<Rightarrow> nat option \<Rightarrow> (nat \<times> nat \<times> nat option) option" where
  "helper_scan b size' [] chip fin jump = Some (chip, fin, jump)"
| "helper_scan b size' (i # is) chip fin jump =
     (let fin = (case drps_end b size' i of None \<Rightarrow> fin | Some e \<Rightarrow> e);
          jump = (if jump = None \<and> jump_at b size' i then Some i else jump);
          k = (case check_devtab b size' i of None \<Rightarrow> 0 | Some k \<Rightarrow> devtab_chip b i k)
      in if k \<noteq> 0 \<and> chip \<noteq> 0 then None
         else helper_scan b size' is (if k \<noteq> 0 then k else chip) fin jump)"

definition sdboot_helper_scan :: "byte list \<Rightarrow> nat \<Rightarrow> (nat \<times> nat \<times> nat option) option" where
  "sdboot_helper_scan b size0 = (let n = size0 div 4 * 4
     in helper_scan b n (map (\<lambda>k. 4 * k) [0..<(n - 0x20) div 4]) 0 0 None)"

lemma block_up: "j < j div 0x8000 * 0x8000 + (0x8000 :: nat)"
  using div_mult_mod_eq [of j 32768] mod_less_divisor [of 32768 j] by linarith

text \<open>An erased page of 4 KB in a block of 32 KB whose last word is erased.\<close>

function find_empty :: "byte list \<Rightarrow> nat \<Rightarrow> nat \<Rightarrow> nat" where
  "find_empty b size' j =
     (if size' \<le> j then 0
      else if w32 b (j div 0x8000 * 0x8000 + 0x7ffc) \<noteq> - 1 then find_empty b size' (j div 0x8000 * 0x8000 + 0x8000)
      else if \<forall>k \<in> set [0..<0x400]. wd b j k = - 1 then j
      else find_empty b size' (j + 0x1000))"
  by pat_completeness auto

termination
  by (relation "measure (\<lambda>(b, size', j). size' - j)") (use block_up in \<open>auto simp: diff_less_mono2\<close>)

declare find_empty.simps [simp del]

section \<open>The entry\<close>

text \<open>Is the signature of a secure firmware there?\<close>

definition is_secure :: "byte list \<Rightarrow> nat \<Rightarrow> bool" where
  "is_secure b size' = (size' \<ge> 0x11000 \<and> map (\<lambda>i. u8at b (0x10000 + i)) [0..<15] = bytes_of ''SPRD-SECUREFLAG'')"

text \<open>The vectors: where they are, and the offset of the entry address from them.\<close>

definition vectors :: "byte list \<Rightarrow> nat \<Rightarrow> (nat \<times> u32) option" where
  "vectors b size' =
     (let k = wd b 0 0 - 0xe59ff000 + 8; k2 = w32 b 0x10400 - 0xe59ff000 + 8
      in if k = 0x20 then Some (0, k)
         else if (k \<noteq> 0x24 \<and> k \<noteq> 0x3e0) \<or> wd b 0 8 \<noteq> 0x36353632 then None
         else if k = 0x24 then Some (0, k)
         else if size' < 0x11000 \<or> w32 b 0x2dc \<noteq> 0x01000100 \<or> w32 b 0x10200 \<noteq> 0x524c56ff \<or> k2 \<noteq> 0x20 then None
         else Some (0x10400, k2))"

text \<open>The entry, the place of an installed jump (0 for none) and of an installed boot loader.\<close>

definition find_entry :: "byte list \<Rightarrow> nat \<Rightarrow> nat \<Rightarrow> nat \<times> nat \<times> nat" where
  "find_entry b size' entry =
     (let jump = (w32 b (entry - 36) = 0x3d3d3d0a \<and> w32 b (entry - 8) = 0x0a3d3d \<and> wd b entry 0 = 0xe59f0008 \<and> wd b entry 4 = 0x20a00200);
          jump_buf = (if jump then entry - 0x24 else 0);
          entry = (if jump then unat (w32 b (entry - 4)) else entry);
          inside = (unat (of_nat size' - of_nat entry :: u32) \<ge> 0x1000 \<and> entry mod 0x1000 = 0
            \<and> map (\<lambda>i. u8at b (entry + 8 + i)) [0..<8] = bytes_of ''SDLOADER'')
      in if inside then (unat (wd b entry 1), jump_buf, entry) else (entry, jump_buf, 0))"

section \<open>The advice\<close>

definition show_secure :: "byte list \<Rightarrow> string \<Rightarrow> print list" where
  "show_secure b extra =
     (let n = push_bit 24 (ucast (u8at b 0x2e0)) OR push_bit 16 (ucast (u8at b 0x2e1)) OR push_bit 8 (ucast (u8at b 0x2e2)) OR ucast (u8at b 0x2e3) :: u32
      in [(''Warning: This phone must be a Nokia/HMD with Secure Boot enabled.'', []),
          (''First you need to unlock the firmware for modifications:'', []),
          (''./spd_dump%s fdl nor_fdl1.bin 0x40004000'', [PS extra]),
          (''  write_data fw+0x%x 0 0 vlr_%08x.bin'', [PW 0x10204, PW n]),
          (''If there is no \"vlr_%08x.bin\", ask for it in the issues.'', [PW n]),
          (''To restore the original firmware signature (keep the flash dump for this):'', []),
          (''./spd_dump%s fdl nor_fdl1.bin 0x40004000'', [PS extra]),
          (''  write_data fw+0x%x 0x%x 0x88 <flash.bin>'', [PW 0x10204, PW 0x10204])])"

definition show_advice :: "string \<Rightarrow> nat \<Rightarrow> u32 \<Rightarrow> nat \<Rightarrow> nat \<Rightarrow> nat \<Rightarrow> print list" where
  "show_advice extra chip entry_offs entry jump_buf sdboot =
     (let s0 = (if sdboot \<noteq> 0 then ''0x'' @ hex_str sdboot else ''$sdboot'');
          s1 = (if sdboot \<noteq> 0 then ''0x'' @ hex_str (sdboot + 4) else ''$(($sdboot+4))'')
      in (if sdboot = 0 then [(char_of (208 :: nat) # char_of (161 :: nat) # ''an't find empty page for sdboot!'', [])] else []) @
         [(''# sdboot test run:'', []),
          (''./spd_dump%s fdl sdboot%u.bin 0x40004000'', [PS extra, PN chip]),
          (''# sdboot install/update:'', []),
          (''./spd_dump%s fdl nor_fdl1.bin 0x40004000'', [PS extra])] @
         (if jump_buf \<noteq> 0
          then [(''  write_word fw+0x%x 0x%x'', [PW entry_offs, PN (jump_buf + 0x1c + 8)]),
                (''  write_data fw+0x%x 0 0 jump4m.bin'', [PN (jump_buf + 0x1c)]),
                (''  write_word fw+0x%x %s'', [PN (jump_buf + 0x20), PS s0])]
          else [(''  write_word fw+0x%x %s'', [PW entry_offs, PS s0])]) @
         [(''  erase_flash fw+%s 4K'', [PS s0]),
          (''  write_data fw+%s 0 0 sdboot%u.bin'', [PS s0, PN chip]),
          (''  write_word fw+%s 0x%x'', [PS s1, PN entry]),
          (''# sdboot remove:'', [])] @
         (if jump_buf \<noteq> 0 then [(''echo \"============================\" > jump_orig.bin'', [])] else []) @
         [(''./spd_dump%s fdl nor_fdl1.bin 0x40004000'', [PS extra]),
          (''  write_word fw+0x%x 0x%x'', [PW entry_offs, PN entry])] @
         (if jump_buf \<noteq> 0 then [(''  write_data fw+0x%x 0 0x1c jump_orig.bin'', [PN (jump_buf + 0x1c)])] else []) @
         [(''  erase_flash fw+%s 4K'', [PS s0])])"

definition unsupported :: "print list" where "unsupported = [(''sdboot: unsupported firmware'', [])]"

definition sdboot_helper :: "byte list \<Rightarrow> nat \<Rightarrow> print list" where
  "sdboot_helper b size' =
     (case (if size' < 0x1000 then None else vectors b size') of
        None \<Rightarrow> unsupported
      | Some (p, k) \<Rightarrow>
          let secure = is_secure b size'; entry_offs = k + of_nat p; entry0 = unat (w32 b (p + unat k)); a = w32 b p
          in if secure \<noteq> (entry_offs \<ge> 0x10000) \<or> (\<exists>i \<in> set [1..<8]. wd b p i \<noteq> a) \<or> entry0 \<ge> size' \<or> entry0 mod 4 \<noteq> 0 \<or> entry0 < 0x40
             then unsupported
             else let (entry, jump0, sdboot0) = find_entry b size' entry0
             in case sdboot_helper_scan b size' of
                  None \<Rightarrow> unsupported
                | Some (chip, fin, jump1) \<Rightarrow>
                    if chip = 0 \<or> (chip \<noteq> 1) \<noteq> (w32 b 0 = 0xe59ff018) then unsupported
                    else let jump = (if jump0 \<noteq> 0 then jump0 else case jump1 of None \<Rightarrow> 0 | Some j \<Rightarrow> j);
                        sdboot = (if sdboot0 \<noteq> 0 then sdboot0
                          else find_empty b (size' div 0x8000 * 0x8000) ((fin + 0xfff) div 0x1000 * 0x1000));
                        jump2 = (if chip = 1 \<or> sdboot < 4 * 2 ^ 20 then 0 else jump);
                        extra = (if secure then '' end_data 0'' else [])
                      in [(''sdboot: entry = 0x%x, chip = %u'', [PN entry, PN chip]),
                          (''sdboot: jump_buf = 0x%x, end = 0x%x'', [PN jump, PN fin]),
                          (''sdboot: sdboot = 0x%x'', [PN sdboot])] @
                         (if \<not> (chip = 1 \<or> sdboot < 4 * 2 ^ 20) \<and> jump = 0 then unsupported
                          else [(''The instructions below are valid only for this firmware!'', [])] @
                            (if secure then show_secure b extra else []) @
                            show_advice extra chip entry_offs entry jump2 sdboot))"

section \<open>The command line\<close>

text \<open>A dump that is larger than the flash repeats its start.\<close>

definition dump_size :: "byte list \<Rightarrow> nat" where
  "dump_size b =
     (let n = length b; m4 = 4 * 2 ^ 20; m8 = 8 * 2 ^ 20
      in if n \<ge> 5 * 2 ^ 20 then
           if take (n - m4) b = drop m4 b then m4
           else if n \<ge> 9 * 2 ^ 20 \<and> take (n - m8) b = drop m8 b then m8
           else n
         else n)"

definition loadfile_fp :: "string \<Rightarrow> fph \<Rightarrow> byte list option" where
  "loadfile_fp fn s = (case fp_files s fn of None \<Rightarrow> None | Some [] \<Rightarrow> None | Some bs \<Rightarrow> Some bs)"

definition num_arg :: "string \<Rightarrow> nat" where
  "num_arg str = unat (word_of_int (fst (strtoll 0 str)) :: u32)"

definition unum_arg :: "string \<Rightarrow> nat" where
  "unum_arg str = unat (ucast (fst (strtoull 0 str)) :: u32)"

definition atoi_arg :: "string \<Rightarrow> nat" where
  "atoi_arg str = unat (word_of_int (atoi str) :: u32)"

text \<open>One command at the front of the arguments; the result is how many arguments it takes.\<close>

definition run_command :: "nat \<Rightarrow> fpenv \<Rightarrow> byte list \<Rightarrow> nat \<Rightarrow> string list \<Rightarrow> nat fpm" where
  "run_command fuel E b size' argv =
     (let c = hd argv; dec = (\<lambda>f. thn (run_decoder E (take size' b) argv f) (ret 4))
      in if c = ''scan'' then thn (scan_fw E b size' False True) (ret 1)
         else if c = ''scan_data'' then thn (scan_data fuel E b size' False) (ret 1)
         else if c = ''scan_user'' then thn (scan_user E b (of_nat size') 0x08000000) (ret 1)
         else if c = ''extract_data'' then thn (scan_data fuel E b size' True) (ret 1)
         else if c = ''sdboot'' then thn (pr_all (sdboot_helper b size')) (ret 1)
         else if c = ''lcd_init_dec'' then
           if length argv \<le> 2 then err_exit ''bad command'' []
           else thn (pr_all (lcd_init_dec b size' (unum_arg (argv ! 1)) (atoi_arg (argv ! 2)))) (ret 3)
         else if c = ''copy'' then dec Copy
         else if c = ''lzdec2'' then dec Lzdec2
         else if c = ''lzdec3'' then dec Lzdec3
         else if c = ''unpack'' then thn (scan_fw E b size' True True) (ret 1)
         else if c = ''lzmadec'' then dec Lzmadec
         else if c = ''lzmadec_sprd'' then dec LzmadecSprd
         else if c = ''drps_dec'' then
           if length argv \<le> 3 then err_exit ''bad command'' []
           else bnd (drps_decode E b size' (num_arg (argv ! 1)) (num_arg (argv ! 2)) (Some (argv ! 3))) (\<lambda>r.
             if r \<noteq> 0 then err_exit [] [] else ret 4)
         else err_exit ''unknown command'' [])"

fun run_commands :: "nat \<Rightarrow> fpenv \<Rightarrow> byte list \<Rightarrow> nat \<Rightarrow> nat \<Rightarrow> string list \<Rightarrow> unit fpm" where
  "run_commands fuel E b size' 0 argv = (if argv = [] then ret () else no_fuel)"
| "run_commands fuel E b size' (Suc k) argv =
     (if argv = [] then ret ()
      else bnd (run_command fuel E b size' argv) (\<lambda>n. run_commands fuel E b size' k (drop n argv)))"

text \<open>\<open>argv\<close> is what follows the name of the program; ERR_EXIT ends it with status 1.\<close>

definition fphelper_main :: "nat \<Rightarrow> fpenv \<Rightarrow> string list \<Rightarrow> unit fpm" where
  "fphelper_main fuel E argv =
     (if length argv < 2 then err_exit ''Usage: %s flash.bin cmd args...'' []
      else bnd (gets (loadfile_fp (hd argv))) (\<lambda>f. case f of
          None \<Rightarrow> err_exit ''loadfile failed'' []
        | Some b \<Rightarrow> run_commands fuel E b (dump_size b) (length argv) (tl argv)))"

end
