(* ===== verification/T117Init.thy ===== *)
theory T117Init
  imports FwInit
begin

text \<open>
  The initialisation table of a UMS9117 firmware (fphelper_t117/main.c): the same table as in
  fphelper/main.c (\<open>FwInit\<close>) with Thumb-2 code behind it, a fourth function that does nothing,
  and segments that are copied before they are decompressed. Functions that are the same in
  both programs are those of \<open>FwKeys\<close> and \<open>FwInit\<close>.
\<close>

unbundle bit_operations_syntax

section \<open>State\<close>

record t_clues =
  t_ps_addr :: u32
  t_pinmap :: u32
  t_keymap :: u32
  tfboot_offs :: u32
  tfboot_size :: u32

record tph = fpo +
  tclues :: t_clues
  t_init_count :: nat
  image_base :: u32

type_synonym 'a tpm = "(tph, 'a) cm"

definition set_tclue :: "(t_clues \<Rightarrow> t_clues) \<Rightarrow> unit tpm" where
  "set_tclue f = modify (\<lambda>s. s\<lparr>tclues := f (tclues s)\<rparr>)"

text \<open>\<open>save_bin\<close>: \<open>n\<close> bytes from \<open>p\<close> on.\<close>

definition save_bin :: "string \<Rightarrow> byte list \<Rightarrow> nat \<Rightarrow> nat \<Rightarrow> unit tpm" where
  "save_bin name b p n = save_out name (map (\<lambda>i. u8at b (p + i)) [0..<n])"

section \<open>Segments\<close>

text \<open>The structure at \<open>i\<close>: here the table it describes lies before it.\<close>

definition fat_config_here :: "byte list \<Rightarrow> nat \<Rightarrow> u32 \<Rightarrow> nat \<Rightarrow> bool" where
  "fat_config_here b size' offset i =
     (let n = wd b i 3; j = unat n * 0x24
      in wd b i 0 = 0x28 \<and> drop_bit 4 (n - 1) = 0 \<and> wd b i 2 - wd b i 4 = of_nat j \<and> j + 8 \<le> i \<and>
         wd b i 4 = offset + of_nat i - of_nat (j + 8) \<and> w32 b (i - 4) = 100000 \<and> \<not> size' - i < 0x14)"

definition scan_init_seg_t :: "byte list \<Rightarrow> nat \<Rightarrow> u32 \<Rightarrow> unit tpm" where
  "scan_init_seg_t b size' offset =
     (if size' < 0x1c then ret ()
      else let n = size' div 4 * 4
        in case find (fat_config_here b n offset) (map (\<lambda>k. 4 * k) [0..<(n - 0x1c) div 4 + 1]) of
             None \<Rightarrow> ret ()
           | Some i \<Rightarrow>
               let (ps, j) = lcd_entries b offset (i + 0x14) (n - i - 0x14) 0x2c 0
               in thn (pr ''0x%x (0x%x + 0x%x): fat_config'' [PW (offset + of_nat i), PW offset, PN i])
                 (thn (set_tclue (\<lambda>c. c\<lparr>t_keymap := wd b i 1 + 0xc\<rparr>))
                 (thn (pr ''guess: keymap addr = 0x%x'' [PW (wd b i 1 + 0xc)])
                   (pr_all (ps @ (if j = 0 then find_lcd_list b n offset else []))))))"

section \<open>The tfboot part\<close>

definition tfboot_here :: "byte list \<Rightarrow> nat \<Rightarrow> bool" where
  "tfboot_here b i =
     ((\<forall>j \<in> set [0..<15]. wd b i j = 0xe3a00000 + push_bit 12 (of_nat j)) \<and> w32 b (i + 0x74) = 0x8001006c \<and>
      (let t = w32 b (i + 0xac) - 0x80010000 in (t = 0xb0 \<or> t = 0xb4) \<and> w32 b (i + unat t) = 0x4c4d5053))"

text \<open>Its original end, searched from the end of the image; \<open>j\<close> goes down in words.\<close>

fun tfboot_end :: "byte list \<Rightarrow> nat \<Rightarrow> nat list \<Rightarrow> nat option" where
  "tfboot_end b i [] = None"
| "tfboot_end b i (j # js) =
     (if map (wd b (i + j)) [0..<5] = [0x11, 0, 0x7ff00000, 0x110, 0x43] then Some (j + 4) else tfboot_end b i js)"

definition find_tfboot :: "byte list \<Rightarrow> u32 \<Rightarrow> u32 \<Rightarrow> unit tpm" where
  "find_tfboot b size' offset = bnd (gets tclues) (\<lambda>c.
     if tfboot_offs c \<noteq> 0 \<or> size' - offset < 0x1000 then ret ()
     else case find (tfboot_here b) (map (\<lambda>k. unat offset + 4 * k) [0..<0x100]) of
            None \<Rightarrow> ret ()
          | Some i \<Rightarrow>
              let n = size' - of_nat i; top = unat n div 4 * 4 - 0x14;
                  fin = tfboot_end b i (filter (\<lambda>j. j > 0x100) (map (\<lambda>k. top - 4 * k) [0..<top div 4 + 1]))
              in if n < 0x1000 then ret ()
                 else thn (set_tclue (\<lambda>c. c\<lparr>tfboot_offs := of_nat i, tfboot_size := n\<rparr>))
                   (let m = (case fin of None \<Rightarrow> unat n | Some j \<Rightarrow> j)
                    in thn (pr ''0x%x: internal tfboot (size %s= 0x%x)'' [PN i, PS (if fin = None then ''<'' else []), PN m])
                      (save_bin ''tfboot.bin'' b i m)))"

section \<open>The functions of the table\<close>

definition init_functions_t :: "byte list \<Rightarrow> nat \<Rightarrow> nat \<Rightarrow> print list \<times> (nat \<times> nat \<times> nat \<times> nat) option" where
  "init_functions_t b q size2 =
     (let w = map (wd b q) [0..<4];
          (ty, n) = (if size2 < 0x10 then (0, 0)
            else if w = [0xf04f440a, 0xf8100c00, 0xf0133b01, 0xbf080407] then (3, 0x5c)
            else if w = [0x3b01f810, 0xf013440a, 0xbf080403, 0x4b01f810] then (2, 0x64) else (0, 0));
          lz_addr = (if ty \<noteq> 0 then q else 0);
          p1 = (if ty \<noteq> 0 then [(''0x%x: init_lzdec%u'', [PN lz_addr, PN ty])] else [])
      in if size2 < n then (p1, None)
      else let (q, size2) = (q + n, size2 - n);
          cp = size2 \<ge> 0x1c \<and> wd b q 0 = 0xbf243a10; copy_addr = (if cp then q else 0);
          p2 = (if cp then [(''0x%x: init_copy'', [PN copy_addr])] else []);
          (q, size2) = (if cp then (q + 0x1c, size2 - 0x1c) else (q, size2));
          z = size2 \<ge> 0x1c \<and> wd b q 0 = 0x24002300; zero_addr = (if z then q else 0);
          p3 = (if z then [(''0x%x: init_zero'', [PN zero_addr])] else [])
      in (p1 @ p2 @ p3, Some (ty, lz_addr, copy_addr, zero_addr)))"

definition ps_end_t :: "u32 \<Rightarrow> u32 \<Rightarrow> u32 \<Rightarrow> u32 \<Rightarrow> init_row list \<Rightarrow> u32" where
  "ps_end_t size' fwaddr zero_addr nop_addr rows =
     ps_end size' fwaddr zero_addr (filter (\<lambda>r. \<not> (nop_addr \<noteq> 0 \<and> r_fn r = nop_addr)) rows)"

section \<open>The segments are unpacked\<close>

text \<open>A row whose source is where an earlier row has copied to takes that row's source.\<close>

definition row_source :: "u32 \<Rightarrow> init_row list \<Rightarrow> init_row \<Rightarrow> u32" where
  "row_source copy_addr earlier r =
     (case find (\<lambda>e. copy_addr \<noteq> 0 \<and> r_src r = r_dst e \<and> r_fn e = copy_addr) earlier of
        None \<Rightarrow> r_src r | Some e \<Rightarrow> r_src e)"

definition unpack_segment_t :: "fpenv \<Rightarrow> byte list \<Rightarrow> nat \<Rightarrow> bool \<Rightarrow> nat \<Rightarrow> u32 \<Rightarrow> u32 \<Rightarrow> u32 \<Rightarrow> init_row list \<Rightarrow> init_row \<Rightarrow>
    init_out \<Rightarrow> init_out tpm" where
  "unpack_segment_t E b size' save ty lz_addr copy_addr fwaddr earlier r =
     (\<lambda>(fo, nx).
       let cp = (copy_addr \<noteq> 0 \<and> r_fn r = copy_addr); lz = (ty \<noteq> 0 \<and> r_fn r = lz_addr);
           a = row_source copy_addr earlier r; offs = unat (a - fwaddr); size2 = size' - offs; len = unat (r_len r);
           src = drop offs (take size' b)
       in if a < fwaddr \<or> offs \<ge> size' \<or> \<not> (cp \<or> lz) then ret (fo, nx)
       else bnd (if save \<and> (fo = None \<or> r_dst r \<noteq> nx)
                 then bnd (gets t_init_count) (\<lambda>cnt. let nm = init_name cnt (r_dst r)
                   in bnd (open_out nm) (\<lambda>ok.
                     if ok then ret (Some nm) else thn (pr_err ''fopen(output) failed'' []) (ret None)))
                 else ret fo)
         (\<lambda>fo. let write = (\<lambda>bs. case fo of None \<Rightarrow> ret 0 | Some nm \<Rightarrow> thn (append_out nm bs) (ret (of_nat (length bs))))
           in bnd (if cp then
                let size2 = (if size2 > len then len else size2)
                in thn (scan_init_seg_t src size2 (r_dst r)) (write (take size2 src))
              else if \<not> malloc_ok E len then ret 0
              else bnd (of_result (if ty = 2 then sprd_lzdec2 (junk E) src len else sprd_lzdec3 (junk E) src len))
                (\<lambda>(_, seg). thn (cwhen (length seg \<noteq> len)
                    (pr ''!!! lzdec failed (0x%x / 0x%x, dst = 0x%x)'' [PN (length seg), PN len, PW (r_dst r)]))
                  (thn (scan_init_seg_t seg (length seg) (r_dst r)) (write seg))))
           (\<lambda>n. ret (fo, n + r_dst r))))"

fun unpack_segments_t :: "fpenv \<Rightarrow> byte list \<Rightarrow> nat \<Rightarrow> bool \<Rightarrow> nat \<Rightarrow> u32 \<Rightarrow> u32 \<Rightarrow> u32 \<Rightarrow> init_row list \<Rightarrow> init_row list \<Rightarrow>
    init_out \<Rightarrow> unit tpm" where
  "unpack_segments_t E b size' save ty lz_addr copy_addr fwaddr earlier [] fo =
     modify (\<lambda>s. s\<lparr>t_init_count := t_init_count s + 1\<rparr>)"
| "unpack_segments_t E b size' save ty lz_addr copy_addr fwaddr earlier (r # rs) fo =
     bnd (unpack_segment_t E b size' save ty lz_addr copy_addr fwaddr earlier r fo)
       (unpack_segments_t E b size' save ty lz_addr copy_addr fwaddr (earlier @ [r]) rs)"

section \<open>The whole table\<close>

definition print_init_table_t :: "fpenv \<Rightarrow> byte list \<Rightarrow> nat \<Rightarrow> nat \<Rightarrow> bool \<Rightarrow> bool \<Rightarrow> u32 tpm" where
  "print_init_table_t E b size' o1 save unpack = bnd (gets tclues) (\<lambda>c.
     let o2 = wd b o1 0; o3 = wd b o1 1; (ps, fns) = init_functions_t b (o1 + 8) (size' - o1 - 8);
         o2' = o2 + of_nat o1; o3' = o3 + of_nat o1; n = o3' - o2'; nop = of_nat o1 - 0x1e
     in if unat o3 > size' - o1 \<or> o2' - tfboot_offs c < tfboot_size c then ret 0
     else thn (pr ''0x%x: init_table, start = 0x%x, end = 0x%x'' [PN o1, PW o2', PW o3'])
      (thn (pr_all ps)
      (case fns of
        None \<Rightarrow> ret 0
      | Some (ty, lz, copy, zero) \<Rightarrow>
          if o2' \<ge> o3' \<or> n AND 0xf \<noteq> 0 \<or> drop_bit 4 n - 1 \<ge> 20 then ret 0
          else let rows = init_rows b (unat o2') (unat (drop_bit 4 n));
                   loaded = (\<lambda>fwaddr f. if f = 0 then 0 else f + fwaddr)
            in thn (pr_all (map (\<lambda>(i, r). (''%u: src = 0x%x, dst = 0x%08x, len = 0x%x, fn = 0x%x'',
                   [PN i, PW (r_src r), PW (r_dst r), PW (r_len r), PW (r_fn r)])) (enumerate 0 rows) @ [([], [])]))
              (case load_address rows [of_nat lz, of_nat copy, of_nat zero, nop] of
                 None \<Rightarrow> ret 0
               | Some fwaddr \<Rightarrow>
                   let ps_size = ps_end_t (of_nat size') fwaddr (loaded fwaddr (of_nat zero)) (loaded fwaddr nop) rows
                   in thn (set_tclue (\<lambda>c. if t_ps_addr c = 0 then c\<lparr>t_ps_addr := fwaddr\<rparr> else c))
                     (thn (pr ''ps_addr: 0x%x'' [PW fwaddr])
                     (thn (pr ''ps_size: 0x%x'' [PW ps_size])
                     (thn (if unpack
                           then unpack_segments_t E b size' save ty (loaded fwaddr (of_nat lz)) (loaded fwaddr (of_nat copy))
                             fwaddr [] rows (None, 0)
                           else ret ())
                     (thn (find_tfboot b ps_size o3')
                       (ret ps_size)))))))))"

end
