(* ===== verification/T117Scan.thy ===== *)
theory T117Scan
  imports T117Init
begin

text \<open>
  The scan of a UMS9117 firmware (fphelper_t117/main.c, \<open>scan_fw\<close>): the key map, the pin map
  with the table of GPIOs behind it, the configurations of NAND chips, and the loop that
  looks for them and for the initialisation table.
\<close>

unbundle bit_operations_syntax

section \<open>The key map\<close>

definition key_ok_t :: "nat \<Rightarrow> bool" where "key_ok_t a = (a = 0x68 \<or> (1 \<le> a \<and> a \<le> 0x39))"

definition check_keymap_t :: "byte list \<Rightarrow> nat \<Rightarrow> nat \<Rightarrow> nat" where
  "check_keymap_t b p size' =
     (let n = size' div 2
      in if n < 40 then 0
         else let (i, e, e2) = keymap_loop key_ok_t b p (if n \<ge> 64 then 64 else n) 0 0 0
           in if i < 40 \<or> e < i - 32 then 0 else if i > 40 \<and> e2 \<noteq> i div 4 then 0 else 2 * i)"

definition show_keymap_t :: "byte list \<Rightarrow> nat \<Rightarrow> print list" where
  "show_keymap_t b p =
     (let k = (\<lambda>i. unat (w16 b (p + 2 * i)));
          shown = (\<lambda>a. if a = 0xffff then ''---'' else case keypad_getname a of None \<Rightarrow> ''???'' | Some nm \<Rightarrow> nm)
      in (if k 0 \<noteq> 0xffff
          then ('', bootkey = 0x%02x'', [PN (k 0)]) #
            (case keypad_getname (k 0) of None \<Rightarrow> [] | Some nm \<Rightarrow> [('' (%s)'', [PS nm])])
          else []) @
         [('', bl_update keys = 0x%02x 0x%02x ('', [PN (k 1), PN (k 8)])] @
         map (\<lambda>i. (''%s%s'', [PS (shown (k (i mod 2 + i div 2 * 8))), PS (if i < 2 then '', '' else '')'')])) [1..<3] @
         [([], [])])"

definition check_keymap2_t :: "byte list \<Rightarrow> nat \<Rightarrow> u32 \<Rightarrow> bool \<Rightarrow> unit tpm" where
  "check_keymap2_t b size' base save = bnd (gets tclues) (\<lambda>c.
     let a = t_keymap c - base; adr = unat a; n = check_keymap_t b adr (size' - adr)
     in if t_keymap c = 0 \<or> size' \<le> adr \<or> n = 0 then ret ()
        else thn (pr ''0x%x: keymap'' [PW a])
          (thn (set_tclue (\<lambda>c. c\<lparr>t_keymap := 0\<rparr>))
          (thn (pr_all (show_keymap_t b adr))
          (if save then save_bin ''keymap.bin'' b adr n else ret ()))))"

section \<open>The pin map and the GPIOs\<close>

text \<open>The last entry counts, not the first; the entry \<open>~0\<close> itself is the last one looked at.\<close>

function pinmap_findval_t :: "byte list \<Rightarrow> nat \<Rightarrow> u32 \<Rightarrow> u32 \<Rightarrow> u32" where
  "pinmap_findval_t b p x r =
     (if length b \<le> p then r
      else let r = (if wd b p 0 = x then wd b p 1 else r)
        in if wd b p 0 = - 1 then r else pinmap_findval_t b (p + 8) x r)"
  by pat_completeness auto

termination by (relation "measure (\<lambda>(b, p, x, r). length b - p)") auto

declare pinmap_findval_t.simps [simp del]

definition pinmap_info_t :: "byte list \<Rightarrow> nat \<Rightarrow> print list" where
  "pinmap_info_t b p =
     (let v = (\<lambda>k. pinmap_findval_t b p (0x402a00b8 + k) (- 1))
      in [(''pinmap: LCD pins = '', [])] @ map (\<lambda>k. PRINTPIN '', '' (v k)) [0, 4, 8, 12] @ [PRINTPIN [] (v 16)] @
        (if v 16 = 0 then [(''guess: SPI1 display'', [])] else []))"

function gpio_rows :: "byte list \<Rightarrow> nat \<Rightarrow> nat \<Rightarrow> nat option" where
  "gpio_rows b p n =
     (if n < 12 then None
      else let a = wd b p 0
        in if a AND 0xfffeff80 \<noteq> 0 then
             if a \<noteq> 0xffff \<or> wd b p 1 \<noteq> 2 \<or> wd b p 2 \<noteq> 5 then None else Some (p + 12)
           else if wd b p 1 \<ge> 2 \<or> wd b p 2 \<ge> 6 then None
           else gpio_rows b (p + 12) (n - 12))"
  by pat_completeness auto

termination by (relation "measure (\<lambda>(b, p, n). n)") auto

declare gpio_rows.simps [simp del]

text \<open>The end of the table of GPIOs behind \<open>p\<close>, if there is one.\<close>

definition check_gpiomap :: "byte list \<Rightarrow> nat \<Rightarrow> nat \<Rightarrow> nat option" where
  "check_gpiomap b size' p =
     (if size' - p < 20 \<or> wd b p 0 \<noteq> - 1 \<or> wd b p 1 \<noteq> 0xffff then None
      else gpio_rows b (p + 8) (size' - p - 8))"

fun pinmap_end_t :: "byte list \<Rightarrow> nat \<Rightarrow> nat \<Rightarrow> nat option" where
  "pinmap_end_t b 0 p = None"
| "pinmap_end_t b (Suc n) p =
     (if wd b p 0 = - 1 \<and> wd b p 1 = - 1 then Some (p + 8)
      else if drop_bit 12 (wd b p 0 XOR 0x402a0000) \<noteq> 0 \<and> drop_bit 12 (wd b p 0 XOR 0x40608000) \<noteq> 0 then None
      else pinmap_end_t b n (p + 8))"

definition pinmap_at_t :: "byte list \<Rightarrow> nat \<Rightarrow> nat \<Rightarrow> nat option" where
  "pinmap_at_t b size' i =
     (if \<exists>k \<in> set [0, 2, 4]. drop_bit 12 (wd b i k XOR 0x402a0000) \<noteq> 0 then None
      else pinmap_end_t b ((size' - i) div 8 - 3) (i + 24))"

section \<open>NAND configurations\<close>

definition pow2 :: "u32 \<Rightarrow> bool" where "pow2 t = (t AND (t - 1) = 0)"

definition nand_ok :: "byte list \<Rightarrow> nat \<Rightarrow> bool" where
  "nand_ok b p =
     (let lo = (\<lambda>k. wd b p k AND 0xffff); hi = drop_bit 16 (wd b p 6); t = wd b p 12
      in drop_bit 16 (wd b p 0) OR wd b p 1 = 0 \<and> \<not> lo 5 < 512 \<and> pow2 (lo 5) \<and> lo 6 \<noteq> 0 \<and> pow2 (lo 6) \<and>
         \<not> hi < 32 \<and> pow2 hi \<and> lo 7 \<noteq> 0 \<and> pow2 (lo 7) \<and>
         (t = 2000 OR push_bit 16 80 \<or> t = 2000 OR push_bit 16 90 \<or> t = 20 OR push_bit 16 50) \<and> wd b p 13 = 0)"

text \<open>The record behind the last configuration: zeros but for one half word.\<close>

definition nand_last :: "byte list \<Rightarrow> nat \<Rightarrow> bool" where
  "nand_last b p = (\<forall>i \<in> set [1..<14]. wd b p i XOR (if i = 8 then 0xff00 else 0) = 0)"

text \<open>
  The table began at \<open>offset\<close>. After the last record the code goes on with what follows it,
  without having tested that there is as much left.
\<close>

function nand_rows :: "byte list \<Rightarrow> nat \<Rightarrow> nat \<Rightarrow> nat \<Rightarrow> print list" where
  "nand_rows b offset p size2 =
     (if size2 < 0x38 then []
      else let fin = (wd b p 0 OR wd b p 2 = 0); q = (if fin then p + 0x38 else p)
        in if fin \<and> \<not> nand_last b p then []
           else (if fin then [(''0x%x: nand configs (size = 0x%x)'', [PN offset, PN (q - offset)])] else []) @
             (if nand_ok b q then nand_rows b offset (q + 0x38) (size2 - 0x38) else []))"
  by pat_completeness auto

termination by (relation "measure (\<lambda>(b, offset, p, size2). size2)") auto

declare nand_rows.simps [simp del]

definition check_nandconf :: "byte list \<Rightarrow> nat \<Rightarrow> nat \<Rightarrow> print list" where
  "check_nandconf b size' offset = nand_rows b offset offset (size' - offset)"

section \<open>The loop\<close>

definition init_code_at_t :: "byte list \<Rightarrow> nat \<Rightarrow> bool" where
  "init_code_at_t b i = (map (wd b i) [0..<5] = [0xe8ba0e09, 0xf013000f, 0xbf180f01, 0xf0431afb, 0x47180301])"

text \<open>A pin map at \<open>i\<close> that ends at \<open>e\<close>: the result is where the scan goes on, less 4.\<close>

definition found_pinmap :: "byte list \<Rightarrow> nat \<Rightarrow> bool \<Rightarrow> nat \<Rightarrow> nat \<Rightarrow> nat tpm" where
  "found_pinmap b size' save i e =
     (let g = check_gpiomap b size' e; e' = (case g of None \<Rightarrow> e | Some g \<Rightarrow> g)
      in thn (pr ''0x%x: pinmap (end = 0x%x)'' [PN i, PN e])
        (thn (if g \<noteq> None then pr ''0x%x: gpiomap (end = 0x%x)'' [PN (e + 8), PN e'] else ret ())
        (bnd (gets tclues) (\<lambda>c.
          thn (if t_pinmap c = 0
               then thn (set_tclue (\<lambda>c. c\<lparr>t_pinmap := of_nat i\<rparr>))
                 (if save then save_bin ''pinmap.bin'' b i (e' - i) else ret ())
               else ret ())
            (ret (e' - 4))))))"

definition scan_round_t :: "fpenv \<Rightarrow> byte list \<Rightarrow> nat \<Rightarrow> bool \<Rightarrow> bool \<Rightarrow> nat \<Rightarrow> nat \<Rightarrow> (nat \<times> nat) tpm" where
  "scan_round_t E b size' save unpack i ps_size =
     bnd (if init_code_at_t b i
          then bnd (print_init_table_t E b size' (i + 0x14) save unpack) (\<lambda>a.
            ret (if a \<noteq> 0 \<and> ps_size = size' then unat a else ps_size))
          else ret ps_size) (\<lambda>ps_size.
     bnd (case pinmap_at_t b size' i of None \<Rightarrow> ret i | Some e \<Rightarrow> found_pinmap b size' save i e) (\<lambda>i'.
     thn (if map (wd b i) [0..<4] = [0xf8b1, 0, 0x400, 1] then pr_all (check_nandconf b size' i') else ret ())
       (ret (i' + 4, ps_size))))"

fun scan_fw_loop_t :: "nat \<Rightarrow> fpenv \<Rightarrow> byte list \<Rightarrow> nat \<Rightarrow> bool \<Rightarrow> bool \<Rightarrow> nat \<Rightarrow> nat \<Rightarrow> nat tpm" where
  "scan_fw_loop_t 0 E b size' save unpack i ps_size = no_fuel"
| "scan_fw_loop_t (Suc k) E b size' save unpack i ps_size =
     (if size' < i + 0x1c then ret ps_size
      else bnd (scan_round_t E b size' save unpack i ps_size) (\<lambda>(i, ps_size).
        scan_fw_loop_t k E b size' save unpack i ps_size))"

text \<open>The header is skipped with its size in words, where the loop counts bytes.\<close>

definition scan_fw_t :: "fpenv \<Rightarrow> byte list \<Rightarrow> nat \<Rightarrow> bool \<Rightarrow> bool \<Rightarrow> unit tpm" where
  "scan_fw_t E b size0 save unpack =
     (let size' = size0 div 4 * 4; dhtb = (wd b 0 0 = 0x42544844 \<and> wd b 0 1 = 1)
      in if size' < 0x1c then ret ()
      else thn (if dhtb then pr ''0x%x: DHTB header (size = 0x%x)'' [PN 0, PW (wd b 0 0xc)] else ret ())
        (bnd (scan_fw_loop_t (size' + 1) E b size' save unpack (if dhtb then 0x80 else 0) size') (\<lambda>ps_size.
        bnd (gets tclues) (\<lambda>c.
          thn (if t_pinmap c \<noteq> 0 then pr_all (pinmap_info_t b (unat (t_pinmap c))) else ret ())
            (if ps_size < size' then check_keymap2_t b ps_size (t_ps_addr c) save else ret ())))))"

end
