(* ===== verification/FwScanEnd.thy ===== *)
theory FwScanEnd
  imports FwScan FwLzRt LzmaSafe T117Scan
begin

text \<open>
  The scans of a firmware image come to an end, in both programs: the decoders that they run
  return, and every round of the loop moves on. Reads behind the image give 0 here, so this
  says nothing of a program that crashes on them.
\<close>

lemmas [returns] = returns_any

lemma returns_cases [returns]:
  "(\<And>x. returns (f x) Q) \<Longrightarrow> returns m Q \<Longrightarrow> returns (case z of None \<Rightarrow> m | Some x \<Rightarrow> f x) Q"
  "(\<And>x y. returns (g x y) Q) \<Longrightarrow> returns (case u of (x, y) \<Rightarrow> g x y) Q"
  by (simp_all split: option.split prod.split)

section \<open>The decoders\<close>

lemma returns_lz [returns]:
  "returns (of_result (sprd_lzdec3 J src cap)) (\<lambda>_. True)" "returns (of_result (sprd_lzdec2 J src cap)) (\<lambda>_. True)"
  using lzdec_total [of J src cap] by (auto simp: of_result_def intro: returns)

lemma returns_lz_ty [returns]:
  "returns (of_result (if t then sprd_lzdec2 J src cap else sprd_lzdec3 J src cap)) (\<lambda>_. True)"
  by (simp add: returns)

lemma returns_lzma [returns]: "returns (sprd_lzmadec E src cap) (\<lambda>_. True)"
proof -
  obtain code left out where "decode_lzma True (probs_ok E) src cap = Some (code, left, out)"
    using decode_lzma_total [of True "probs_ok E" src cap] by blast
  then show ?thesis by (simp add: sprd_lzmadec_def decode_lzma_impl_def) (intro returns TrueI)
qed

section \<open>The parts of a firmware\<close>

lemma returns_save [returns]: "returns (set_clue f) (\<lambda>_. True)" "returns (append_out nm bs) (\<lambda>_. True)" "returns (open_out nm) (\<lambda>_. True)"
  by (simp_all add: set_clue_def append_out_def returns_modify returns_open_out)

lemma returns_keymap2 [returns]: "returns (check_keymap2 b n base save) (\<lambda>_. True)"
  unfolding check_keymap2_def Let_def by (intro returns TrueI)

lemma returns_run_lzmadec [returns]:
  "(\<And>a d. returns (cont a d) (\<lambda>_. True)) \<Longrightarrow> returns (run_lzmadec E b p n cap outfn line cont) (\<lambda>_. True)"
  unfolding run_lzmadec_def fatal_def Let_def by (intro returns TrueI)

lemma returns_capn_pieces [returns]: "returns (capn_pieces E b mem' src_addr dsz cap p outfn k offs) (\<lambda>_. True)"
  by (induction k arbitrary: p offs) (simp_all only: capn_pieces.simps Let_def fatal_def, (intro returns TrueI | assumption)+)

lemma returns_drps_decode [returns]: "returns (drps_decode E b n o' i outfn) (\<lambda>_. True)"
  unfolding drps_decode_def drps_part_def fatal_def err_ret_def Let_def by (intro returns TrueI)

lemma returns_drps_entries [returns]: "returns (drps_entries E b n i save k j p cnt) (\<lambda>_. True)"
  by (induction k arbitrary: j p cnt) (simp_all only: drps_entries.simps Let_def, (intro returns TrueI | assumption)+)

lemma returns_drps_at [returns]: "returns (drps_at E b n i save ps cnt) (\<lambda>_. True)"
  unfolding drps_at_def Let_def by (intro returns TrueI)

lemma returns_scan_init_seg [returns]: "returns (scan_init_seg b n x) (\<lambda>_. True)"
  unfolding scan_init_seg_def Let_def by (intro returns TrueI)

lemma returns_unpack_segment [returns]: "returns (unpack_segment E b n save ty lz cp fw r fo) (\<lambda>_. True)"
  unfolding unpack_segment_def Let_def by (intro returns TrueI)

lemma returns_unpack_segments [returns]: "returns (unpack_segments E b n save ty lz cp fw rs fo) (\<lambda>_. True)"
  by (induction rs arbitrary: fo) (simp_all only: unpack_segments.simps, (intro returns TrueI | assumption)+)

lemma returns_guess_kern [returns]: "returns (guess_kern b rows) (\<lambda>_. True)"
  unfolding guess_kern_def Let_def by (intro returns TrueI)

lemma returns_print_init_table [returns]: "returns (print_init_table E b n i save unpack) (\<lambda>_. True)"
  unfolding print_init_table_def Let_def by (intro returns TrueI)

lemma returns_fw_start [returns]: "returns (fw_start b n i) (\<lambda>_. True)"
  unfolding fw_start_def Let_def by (intro returns TrueI)

lemma returns_markers [returns]: "returns (trapgami_at b i) (\<lambda>_. True)" "returns (devices_at b n i) (\<lambda>_. True)"
  unfolding trapgami_at_def devices_at_def Let_def by (intro returns TrueI)+

section \<open>The loop\<close>

lemma pinmap_end_after: "pinmap_end b n p = Some e \<Longrightarrow> p + 8 \<le> e"
  by (induction b n p rule: pinmap_end.induct) (auto split: if_splits)

lemma pinmap_at_after: "pinmap_at b n i = Some e \<Longrightarrow> i + 32 \<le> e"
  unfolding pinmap_at_def by (auto split: if_splits dest: pinmap_end_after)

lemma returns_pinmap:
  assumes "\<And>i'. i \<le> i' \<Longrightarrow> returns (F i') Q"
  shows "returns (bnd (case pinmap_at b n i of None \<Rightarrow> ret i | Some e \<Rightarrow> thn (set_clue f) (thn (pr fmt (g e)) (ret (e - 4)))) F) Q"
  by (rule returns_bnd [where P = "\<lambda>i'. i \<le> i'"])
    (use assms in \<open>auto split: option.split dest: pinmap_at_after intro!: returns\<close>)

lemma returns_scan_round: "returns (scan_round E b n save unpack i ps cnt) (\<lambda>(i', _). i < i')"
  unfolding scan_round_def by (rule returns_pinmap returns TrueI)+ simp

text \<open>A loop with one unit of fuel for every position that is left always returns.\<close>

lemma returns_scan_loop:
  "n < k + i \<Longrightarrow> 0 < k \<Longrightarrow> returns (scan_fw_loop k E b n save unpack i ps cnt) (\<lambda>_. True)"
proof (induction k arbitrary: i ps cnt)
  case (Suc k)
  show ?case
    unfolding scan_fw_loop.simps
  proof (rule returns_if)
    assume "\<not> n < i + 0x1c"
    with Suc show "returns (bnd (scan_round E b n save unpack i ps cnt) (\<lambda>(i, ps, cnt). scan_fw_loop k E b n save unpack i ps cnt)) (\<lambda>_. True)"
      by (intro returns_bnd [OF returns_scan_round]) (auto split: prod.splits)
  qed (rule returns_ret, rule TrueI)
qed simp

lemma returns_scan_fw: "returns (scan_fw E b n save unpack) (\<lambda>_. True)"
  unfolding scan_fw_def Let_def by (intro returns returns_scan_loop TrueI) simp_all

section \<open>The firmware of the UMS9117\<close>

lemma returns_save_t [returns]:
  "returns (set_tclue f) (\<lambda>_. True)" "returns (save_bin name b p n) (\<lambda>_. True)"
  by (simp_all add: set_tclue_def save_bin_def returns)

lemma returns_scan_init_seg_t [returns]: "returns (scan_init_seg_t b n x) (\<lambda>_. True)"
  unfolding scan_init_seg_t_def Let_def by (intro returns TrueI)

lemma returns_find_tfboot [returns]: "returns (find_tfboot b n x) (\<lambda>_. True)"
  unfolding find_tfboot_def Let_def by (intro returns TrueI)

lemma returns_unpack_segment_t [returns]: "returns (unpack_segment_t E b n save ty lz cp fw es r fo) (\<lambda>_. True)"
  unfolding unpack_segment_t_def Let_def by (intro returns TrueI)

lemma returns_unpack_segments_t [returns]: "returns (unpack_segments_t E b n save ty lz cp fw es rs fo) (\<lambda>_. True)"
  by (induction rs arbitrary: es fo) (simp_all only: unpack_segments_t.simps, (intro returns TrueI | assumption)+)

lemma returns_print_init_table_t [returns]: "returns (print_init_table_t E b n i save unpack) (\<lambda>_. True)"
  unfolding print_init_table_t_def Let_def by (intro returns TrueI)

lemma returns_keymap2_t [returns]: "returns (check_keymap2_t b n x save) (\<lambda>_. True)"
  unfolding check_keymap2_t_def Let_def by (intro returns TrueI)

lemma pinmap_end_t_after: "pinmap_end_t b n p = Some e \<Longrightarrow> p + 8 \<le> e"
  by (induction b n p rule: pinmap_end_t.induct) (auto split: if_splits)

lemma pinmap_at_t_after: "pinmap_at_t b n i = Some e \<Longrightarrow> i + 32 \<le> e"
  unfolding pinmap_at_t_def by (auto split: if_splits dest: pinmap_end_t_after)

lemma gpio_rows_after: "gpio_rows b p n = Some e \<Longrightarrow> p \<le> e"
proof (induction b p n rule: gpio_rows.induct)
  case (1 b p n)
  then show ?case by (subst (asm) (2) gpio_rows.simps) (auto simp: Let_def split: if_splits)
qed

lemma check_gpiomap_after: "check_gpiomap b n p = Some e \<Longrightarrow> p \<le> e"
  unfolding check_gpiomap_def by (auto split: if_splits dest: gpio_rows_after)

lemma returns_found_pinmap: "i + 32 \<le> e \<Longrightarrow> returns (found_pinmap b n save i e) (\<lambda>i'. i \<le> i')"
  unfolding found_pinmap_def Let_def
  by (rule returns TrueI)+ (auto split: option.split dest!: check_gpiomap_after)

lemma returns_pinmap_t:
  assumes "\<And>i'. i \<le> i' \<Longrightarrow> returns (F i') Q"
  shows "returns (bnd (case pinmap_at_t b n i of None \<Rightarrow> ret i | Some e \<Rightarrow> found_pinmap b n save i e) F) Q"
  by (rule returns_bnd [where P = "\<lambda>i'. i \<le> i'"])
    (use assms in \<open>auto split: option.split intro: returns_ret returns_found_pinmap pinmap_at_t_after\<close>)

lemma returns_scan_round_t: "returns (scan_round_t E b n save unpack i ps) (\<lambda>(i', _). i < i')"
  unfolding scan_round_t_def by (rule returns_pinmap_t returns TrueI)+ simp

lemma returns_scan_loop_t:
  "n < k + i \<Longrightarrow> 0 < k \<Longrightarrow> returns (scan_fw_loop_t k E b n save unpack i ps) (\<lambda>_. True)"
proof (induction k arbitrary: i ps)
  case (Suc k)
  show ?case
    unfolding scan_fw_loop_t.simps
  proof (rule returns_if)
    assume "\<not> n < i + 0x1c"
    with Suc show "returns (bnd (scan_round_t E b n save unpack i ps) (\<lambda>(i, ps). scan_fw_loop_t k E b n save unpack i ps)) (\<lambda>_. True)"
      by (intro returns_bnd [OF returns_scan_round_t]) (auto split: prod.splits)
  qed (rule returns_ret, rule TrueI)
qed simp

lemma returns_scan_fw_t: "returns (scan_fw_t E b n save unpack) (\<lambda>_. True)"
  unfolding scan_fw_t_def Let_def by (intro returns returns_scan_loop_t TrueI) simp_all

section \<open>Both scans\<close>

text \<open>
  Neither scan of a firmware image hangs or runs out of rounds: whatever it unpacks on the way
  with the three decoders and whether or not a file can be opened or memory allocated,
  \<open>scan_fw\<close> of both programs returns, in the model, in which what is read behind the image is
  0. The C program has no such memory: \<open>find_tfboot\<close> of the second program may compute a size of
  nearly 4 GB, and reading that far ends the process.
\<close>

theorem scan_fw_returns:
  "(\<exists>t. scan_fw E b n save unpack s = Ret () t) \<and> (\<exists>t. scan_fw_t E b n save unpack s' = Ret () t)"
  using returns_Ret [OF returns_scan_fw] returns_Ret [OF returns_scan_fw_t] by simp

end
