(* ===== verification/T117Sign.thy ===== *)
theory T117Sign
  imports FwSign
begin

text \<open>
  Signing and checking of images for the UMS9117 (fphelper_t117/fwcrypto.c): a 0x200 byte DHTB
  header, the data, a signature header of 0x60 bytes and the signature data. Loading files and
  keys is the same code as in fphelper/fwcrypto.c (\<open>FwCrypto\<close>). Besides what that uses of
  OpenSSL there is SHA-256, and the RSA operations are those with PKCS #1 padding. A size
  that the code reads into a \<open>size_t\<close> is widened from an \<open>int\<close> with its sign.
\<close>

unbundle bit_operations_syntax

record crypto117 = crypto +
  SHA256 :: "byte list \<Rightarrow> byte list"
  PKCS1_public_decrypt :: "nat \<Rightarrow> nat \<Rightarrow> byte list \<Rightarrow> int \<times> byte list"
  PKCS1_private_encrypt :: "rsa \<Rightarrow> byte list \<Rightarrow> int \<times> byte list"

section \<open>The DHTB header\<close>

definition data_size :: "byte list \<Rightarrow> nat" where
  "data_size img = unat (scast (le32_at img 0x30) :: u64)"

definition check_dhtb :: "byte list \<Rightarrow> (fws, nat) cm" where
  "check_dhtb img =
     thn (cwhen (length img < 0x200 \<or> bytes_at img 0 4 \<noteq> bytes_of ''DHTB'') (err_exit ''bad DHTB header'' []))
     (let tmp = le32_at img 4
      in thn (cwhen (tmp \<noteq> 1) (err_exit ''unknown DHTB version (%u)'' [PU tmp]))
     (let extra_size = length img - 0x200; n = data_size img
      in thn (cwhen (extra_size < n) (err_exit ''bad data size'' []))
     (thn (cwhen (n mod 4 \<noteq> 0) (err_exit ''unaligned data size'' []))
        (ret n))))"

section \<open>Checking\<close>

text \<open>The signature data at \<open>sd\<close>: key size, key, hashes and the type field; then the encrypted part.\<close>

definition check_sign_head :: "byte list \<Rightarrow> nat \<Rightarrow> (fws, byte list) cm" where
  "check_sign_head img n =
     (let extra_size = length img - 0x200 - n
      in thn (cwhen (extra_size = 0) (err_exit ''no signature header'' []))
     (thn (cwhen (extra_size < 0x60) (err_exit ''too small signature header'' []))
     (let sign_head = 0x200 + n; sign_size = le32_at img (sign_head + 0x20); sign_offs = le32_at img (sign_head + 0x28)
      in thn (fw_printf ''signature data: offs = 0x%x, size = 0x%x'' [PU sign_offs, PU sign_size])
     (thn (cwhen (unat sign_offs \<noteq> 0x200 + n + 0x60) (fw_printf ''!!! unexpected signature data offset'' []))
     (thn (cwhen (length img < unat sign_offs) (err_exit ''signature out of file'' []))
     (let sd = drop (unat sign_offs) img
      in thn (cwhen (length sd < 0x234) (err_exit ''not enough signature data'' []))
     (let sign_type = le32_at sd 0
      in thn (fw_printf ''sign_type = %u'' [PU sign_type])
     (thn (cwhen (sign_type \<ge> 2) (err_exit ''unknown signature type'' []))
     (let tmp = sign_type * 0x20 + 0x234
      in thn (cwhen (sign_size \<noteq> tmp) (fw_printf ''!!! wrong signature data size (must be 0x%x)'' [PU tmp]))
     (thn (cwhen (length sd < unat tmp) (err_exit ''not enough signature data'' []))
        (ret sd)))))))))))"

definition show_key_hash :: "byte list \<Rightarrow> (fws, unit) cm" where
  "show_key_hash h =
     (let row = (\<lambda>i. fw_printf ''  %08x %08x %08x %08x''
          [PU (le32_at h i), PU (le32_at h (i + 4)), PU (le32_at h (i + 8)), PU (le32_at h (i + 12))])
      in thn (fw_printf ''key hash:'' []) (thn (row 0) (row 16)))"

definition verify_image :: "crypto117 \<Rightarrow> string \<Rightarrow> (fws, unit) cm" where
  "verify_image C bin_fn =
     bnd (load_image bin_fn) (\<lambda>img.
     bnd (check_dhtb img) (\<lambda>n.
     bnd (check_sign_head img n) (\<lambda>sd.
     let ext = unat (le32_at sd 0) * 0x20; data_hash = SHA256 C (bytes_at img 0x200 n)
     in thn (cwhen (bytes_at sd 0x10c 32 \<noteq> data_hash) (fw_printf ''!!! data hash not match'' []))
     (let key_bits = le32_at sd 4; key_len = unat key_bits div 8; key_size = drop_bit 3 key_bits + 8
      in thn (fw_printf ''public key: bits = %u, size = 0x%x'' [PU key_bits, PU key_size])
     (thn (cwhen (key_bits > 2048 \<or> key_bits AND 7 \<noteq> 0) (err_exit ''invalid key size'' []))
     (let key_hash = SHA256 C (bytes_at sd 4 (unat key_size))
      in thn (show_key_hash key_hash)
     (thn (cwhen (ext \<noteq> 0 \<and> bytes_at sd 0x12c 32 \<noteq> key_hash) (fw_printf ''!!! key hash not match'' []))
     (let extra_type = le32_at sd (ext + 0x12c); version = le32_at sd (ext + 0x130)
      in thn (fw_printf ''extra_type = %d, version = %d'' [PI (sint extra_type), PI (sint version)])
     (thn (cwhen (extra_type \<noteq> 1) (err_exit ''extra_type must be 1'' []))
     (let (dec_len, out) = PKCS1_public_decrypt C (BN_bin2bn C (bytes_at sd 12 key_len))
            (BN_bin2bn C (bytes_at sd 8 4)) (bytes_at sd (ext + 0x134) key_len);
          dec_buf = put_at (replicate 0x100 0) 0 out; tmp = ext + 0x28
      in thn (cwhen (dec_len < 0) (err_exit ''RSA_public_decrypt failed'' []))
     (thn (fw_printf ''dec_len = %d'' [PI dec_len])
     (thn (cwhen (dec_len \<noteq> int tmp) (err_exit ''wrong dec_len (must be %d)'' [PI (int tmp)]))
        (cwhen (bytes_at sd 0x10c tmp \<noteq> take tmp dec_buf)
          (fw_printf ''!!! decrypted data not match'' []))))))))))))))"

section \<open>Signing\<close>

definition make_head :: "u32 \<Rightarrow> nat \<Rightarrow> nat \<Rightarrow> byte list" where
  "make_head sign_type n file_size =
     (let h = replicate 0x60 0;
          h = put_at h 0x10 (WRITE32_LE (of_nat n));
          h = put_at h 0x18 (WRITE32_LE 0x200);
          h = put_at h 0x20 (WRITE32_LE (sign_type * 0x20 + 0x234))
      in put_at h 0x28 (WRITE32_LE (of_nat (file_size + 0x60))))"

text \<open>
  The signature data of 0x254 bytes (of which a file gets \<open>sign_size\<close>): the public key goes in
  first, then its hash, the type and version and the encrypted hashes.
\<close>

definition put_key :: "crypto117 \<Rightarrow> rsa \<Rightarrow> byte list \<Rightarrow> (fws, byte list \<times> u32) cm" where
  "put_key C k sd =
     (let key_bits = of_nat (BN_num_bytes C (rsa_n k)) * 8; key_size = drop_bit 3 key_bits + 8
      in thn (fw_printf ''public key: bits = %u, size = 0x%x'' [PU key_bits, PU key_size])
     (thn (cwhen (key_bits > 2048) (err_exit ''invalid key size'' []))
     (let sd = put_at sd 4 (WRITE32_LE key_bits)
      in case BN_bn2binpad C (rsa_e k) 4 of
           None \<Rightarrow> err_exit ''BN_bn2binpad failed'' []
         | Some e \<Rightarrow> ret (put_at (put_at sd 8 e) 12 (BN_bn2bin C (rsa_n k)), key_bits))))"

definition put_signature :: "crypto117 \<Rightarrow> rsa \<Rightarrow> u32 \<Rightarrow> u32 \<Rightarrow> byte list \<Rightarrow> (fws, byte list) cm" where
  "put_signature C k sign_type key_bits sd =
     (let ext = unat sign_type * 0x20; key_size = drop_bit 3 key_bits + 8;
          sd = (if sign_type = 1 then put_at sd 0x12c (SHA256 C (bytes_at sd 4 (unat key_size))) else sd);
          sd = put_at (put_at sd (ext + 0x12c) (WRITE32_LE 1)) (ext + 0x130) (WRITE32_LE (- 1));
          (enc_len, enc) = PKCS1_private_encrypt C k (bytes_at sd 0x10c (ext + 0x28))
      in thn (fw_printf ''enc_len = %d'' [PI enc_len])
     (thn (cwhen ((word_of_int enc_len :: u32) \<noteq> drop_bit 3 key_bits) (err_exit ''RSA_private_encrypt failed'' []))
        (ret (put_at sd (ext + 0x134) enc))))"

definition make_data :: "crypto117 \<Rightarrow> rsa \<Rightarrow> u32 \<Rightarrow> byte list \<Rightarrow> (fws, byte list) cm" where
  "make_data C k sign_type dat =
     (let sd = put_at (replicate 0x254 0) 0 (WRITE32_LE sign_type);
          sd = put_at sd 0x10c (SHA256 C dat)
      in bnd (put_key C k sd) (\<lambda>(sd, key_bits). put_signature C k sign_type key_bits sd))"

text \<open>\<open>extra_size\<close> is what is in the file after the header: the data is not taken off.\<close>

definition sign_image :: "crypto117 \<Rightarrow> string \<Rightarrow> u32 \<Rightarrow> string \<Rightarrow> string \<Rightarrow> (fws, unit) cm" where
  "sign_image C bin_fn sign_type priv_fn out_fn =
     thn (cwhen (sign_type \<ge> 2) (err_exit ''unknown signature type'' []))
     (bnd (load_image bin_fn) (\<lambda>img.
     bnd (check_dhtb img) (\<lambda>n.
     let extra_size = length img - 0x200
     in thn (cwhen (extra_size \<noteq> 0) (err_exit ''extra data at the end (maybe already signed)'' []))
     (bnd (rsa_from_file C priv_fn True) (\<lambda>k. case k of
        None \<Rightarrow> err_exit [] []
      | Some k \<Rightarrow> bnd (make_data C k sign_type (bytes_at img 0x200 n)) (\<lambda>sd.
          let file = img @ make_head sign_type n (length img) @ take (unat sign_type * 0x20 + 0x234) sd
          in modify (\<lambda>s. if may_write s out_fn
            then s\<lparr>disk_files := (disk_files s)(out_fn := Some file)\<rparr> else s)))))))"

fun fwcrypto117_main :: "crypto117 \<Rightarrow> string list \<Rightarrow> (fws, unit) cm" where
  "fwcrypto117_main C [] = ret ()"
| "fwcrypto117_main C (c # args) =
     (if c = ''verify_image'' then
        (case args of a # rest \<Rightarrow> thn (verify_image C a) (fwcrypto117_main C rest)
         | _ \<Rightarrow> err_exit ''bad command'' [])
      else if c = ''sign_image'' then
        (case args of a # t # k # d # rest \<Rightarrow>
           thn (sign_image C a (word_of_int (atoi t)) k d) (fwcrypto117_main C rest)
         | _ \<Rightarrow> err_exit ''bad command'' [])
      else err_exit ''unknown command'' [])"

end
