(* ===== verification/T117SignRt.thy ===== *)
theory T117SignRt
  imports T117Sign
begin

text \<open>
  What signing for the UMS9117 makes, checking accepts; and signing refuses every image that
  has data.
\<close>

section \<open>Parts of a buffer\<close>

named_theorems parts \<open>reading a part of a buffer that is written in parts\<close>

lemma bytes_at_append [parts]:
  "off + n \<le> length xs \<Longrightarrow> bytes_at (xs @ ys) off n = bytes_at xs off n"
  "length xs \<le> off \<Longrightarrow> bytes_at (xs @ ys) off n = bytes_at ys (off - length xs) n"
  by (simp_all add: bytes_at_def)

lemma length_bytes_at [parts]: "off + n \<le> length bs \<Longrightarrow> length (bytes_at bs off n) = n"
  by (simp add: bytes_at_def)

lemma bytes_at_take [parts]: "off + n \<le> m \<Longrightarrow> bytes_at (take m bs) off n = bytes_at bs off n"
  by (simp add: bytes_at_def drop_take min_def)

lemmas [parts] = bytes_at_put_other le32_put_other le32_put_same

lemma bytes_at_put [parts]: "off + length xs \<le> length bs \<Longrightarrow> n = length xs \<Longrightarrow> bytes_at (put_at bs off xs) off n = xs"
  using bytes_at_put_same by simp

lemma le32_bytes: "off + 4 \<le> length bs \<Longrightarrow> le32_at bs off = le32_at (bytes_at bs off 4) 0"
  by (simp add: le32_at_def READ32_LE_def blit_def bytes_at_def nth_append)

lemma le32_append [parts]:
  "off + 4 \<le> length xs \<Longrightarrow> le32_at (xs @ ys) off = le32_at xs off"
  "length xs \<le> off \<Longrightarrow> off - length xs + 4 \<le> length ys \<Longrightarrow> le32_at (xs @ ys) off = le32_at ys (off - length xs)"
  by (simp_all add: le32_bytes [of off] le32_bytes [of "off - length xs"] parts)

lemma le32_take [parts]: "off + 4 \<le> m \<Longrightarrow> m \<le> length bs \<Longrightarrow> le32_at (take m bs) off = le32_at bs off"
  by (simp add: le32_bytes [of off] parts)

section \<open>Signing refuses data\<close>

lemma check_dhtb_run:
  "check_dhtb img s = (if length img < 0x200 \<or> bytes_at img 0 4 \<noteq> bytes_of ''DHTB'' then Exit (ErrExit ''bad DHTB header'' []) s
     else if le32_at img 4 \<noteq> 1 then Exit (ErrExit ''unknown DHTB version (%u)'' [PU (le32_at img 4)]) s
     else if length img - 0x200 < data_size img then Exit (ErrExit ''bad data size'' []) s
     else if data_size img mod 4 \<noteq> 0 then Exit (ErrExit ''unaligned data size'' []) s
     else Ret (data_size img) s)"
  by (simp add: check_dhtb_def Let_def thn_def bnd_def cwhen_def err_exit_def ret_def)

text \<open>
  C37: \<open>sign_image\<close> signs no image that has data: unless the file consists of the 0x200 byte
  header alone, it ends with an error and writes nothing.
\<close>

theorem sign_image_refuses:
  assumes "length img \<noteq> 0x200" "disk_files s fn = Some img"
  shows "\<exists>e. sign_image C fn t priv out s = Exit e s"
proof (cases "t \<ge> 2 \<or> img = []")
  case True
  then show ?thesis
    using assms(2)
    by (auto simp: sign_image_def load_image_def fw_loadfile_def thn_def bnd_def cwhen_def gets_def err_exit_def ret_def)
next
  case False
  have ld: "load_image fn s = Ret img s"
    using assms(2) False by (cases img) (simp_all add: load_image_def fw_loadfile_def bnd_def gets_def ret_def)
  show ?thesis
    using assms(1) False
    by (auto simp: sign_image_def thn_def bnd_def cwhen_def ld check_dhtb_run err_exit_def ret_def Let_def)
qed
text \<open>A witness: an image with four bytes of data.\<close>

definition data_image :: "byte list" where
  "data_image = bytes_of ''DHTB'' @ [1, 0, 0, 0] @ replicate 0x28 0 @ [4, 0, 0, 0] @ replicate 0x1cc 0 @ [1, 2, 3, 4]"

theorem sign_image_refuses_witness:
  "\<exists>e. sign_image (crypto.extend sign_crypto
      \<lparr>SHA256 = (\<lambda>_. replicate 32 0), PKCS1_public_decrypt = (\<lambda>n e c. (0, c)), PKCS1_private_encrypt = (\<lambda>k m. (0, m))\<rparr>)
     ''in'' 1 ''key'' ''out'' (sign_fws\<lparr>disk_files := [''in'' \<mapsto> data_image]\<rparr>) =
   Exit e (sign_fws\<lparr>disk_files := [''in'' \<mapsto> data_image]\<rparr>)"
  by (rule sign_image_refuses [of data_image]) (simp_all add: data_image_def bytes_of_def)

section \<open>What signing makes\<close>

text \<open>\<open>sd\<close> is signature data for an image with the data \<open>dat\<close>.\<close>

definition signature_for :: "crypto117 \<Rightarrow> rsa \<Rightarrow> nat \<Rightarrow> u32 \<Rightarrow> byte list \<Rightarrow> byte list \<Rightarrow> bool" where
  "signature_for C k m t dat sd =
     (let ext = unat t * 0x20
      in length sd = 0x254 \<and> le32_at sd 0 = t \<and> le32_at sd 4 = of_nat m * 8 \<and>
         BN_bin2bn C (bytes_at sd 8 4) = rsa_e k \<and> BN_bin2bn C (bytes_at sd 12 m) = rsa_n k \<and>
         bytes_at sd 0x10c 32 = SHA256 C dat \<and>
         (t = 1 \<longrightarrow> bytes_at sd 0x12c 32 = SHA256 C (bytes_at sd 4 (m + 8))) \<and>
         le32_at sd (ext + 0x12c) = 1 \<and> length (bytes_at sd 0x10c (ext + 0x28)) = ext + 0x28 \<and>
         PKCS1_public_decrypt C (rsa_n k) (rsa_e k) (bytes_at sd (ext + 0x134) m) =
           (int (ext + 0x28), bytes_at sd 0x10c (ext + 0x28)))"

text \<open>What the tool relies on: sizes, and that the public operation undoes the private one.\<close>

definition key_works :: "crypto117 \<Rightarrow> rsa \<Rightarrow> nat \<Rightarrow> bool" where
  "key_works C k m =
     (m \<le> 256 \<and> BN_num_bytes C (rsa_n k) = m \<and> length (BN_bn2bin C (rsa_n k)) = m \<and>
      BN_bin2bn C (BN_bn2bin C (rsa_n k)) = rsa_n k \<and>
      (\<exists>e. BN_bn2binpad C (rsa_e k) 4 = Some e \<and> length e = 4 \<and> BN_bin2bn C e = rsa_e k) \<and>
      (\<forall>x. length (SHA256 C x) = 32) \<and>
      (\<forall>x. length x \<le> 0x48 \<longrightarrow> (\<exists>c. PKCS1_private_encrypt C k x = (int m, c) \<and> length c = m \<and>
         PKCS1_public_decrypt C (rsa_n k) (rsa_e k) c = (int (length x), x))))"

lemma two_types: "(t :: u32) < 2 \<Longrightarrow> t = 0 \<or> t = 1"
proof -
  assume "t < 2"
  then have "unat t < 2" by (simp add: word_less_nat_alt)
  then have "unat t = 0 \<or> unat t = 1" by linarith
  then show ?thesis by (auto simp: unat_eq_zero) (simp add: word_unat_eq_iff)
qed

lemma key_bits:
  assumes "m \<le> 256"
  shows "unat (of_nat m * 8 :: u32) = 8 * m" "drop_bit 3 (of_nat m * 8 :: u32) = of_nat m"
    "unat (of_nat m + 8 :: u32) = m + 8" "of_nat m * 8 AND (7 :: u32) = 0" "\<not> (2048 :: u32) < of_nat m * 8"
proof -
  show u: "unat (of_nat m * 8 :: u32) = 8 * m" using assms by (simp add: unat_word_ariths unat_of_nat)
  have "unat (drop_bit 3 (of_nat m * 8 :: u32)) = unat (of_nat m :: u32)"
    using assms by (simp add: unat_drop_bit u unat_of_nat)
  then show "drop_bit 3 (of_nat m * 8 :: u32) = of_nat m" by (simp only: word_unat_eq_iff)
  show "unat (of_nat m + 8 :: u32) = m + 8" using assms by (simp add: unat_word_ariths unat_of_nat)
  show "\<not> (2048 :: u32) < of_nat m * 8" using assms u by (simp add: word_less_nat_alt)
  have "(of_nat m * 8 :: u32) = push_bit 3 (of_nat m)" "(7 :: u32) = mask 3"
    by (simp_all add: push_bit_eq_mult mask_eq_exp_minus_1)
  then show "of_nat m * 8 AND (7 :: u32) = 0" by (simp only: take_bit_eq_mask [symmetric] take_bit_push_bit) simp
qed

lemma make_data_signs:
  assumes "key_works C k m" "t < 2"
  shows "wp (make_data C k t dat) (\<lambda>sd s'. signature_for C k m t dat sd \<and> disk_files s' = disk_files s \<and>
    may_write s' = may_write s) (\<lambda>_ _. False) s"
proof -
  obtain e where e: "BN_bn2binpad C (rsa_e k) 4 = Some e" "length e = 4" "BN_bin2bn C e = rsa_e k"
    using assms(1) unfolding key_works_def by blast
  have m: "m \<le> 256" "BN_num_bytes C (rsa_n k) = m" "length (BN_bn2bin C (rsa_n k)) = m"
      "BN_bin2bn C (BN_bn2bin C (rsa_n k)) = rsa_n k" "\<And>x. length (SHA256 C x) = 32"
    using assms(1) by (simp_all add: key_works_def)
  have crypt: "\<exists>c. PKCS1_private_encrypt C k x = (int m, c) \<and> length c = m \<and>
      PKCS1_public_decrypt C (rsa_n k) (rsa_e k) c = (int (length x), x)" if "length x \<le> 0x48" for x
    using assms(1) that unfolding key_works_def by blast
  note kb = key_bits [OF m(1)]
  define ext where "ext = unat t * 0x20"
  have ext: "ext = 0 \<and> t = 0 \<or> ext = 0x20 \<and> t = 1" using two_types [OF assms(2)] by (auto simp: ext_def)
  define d1 where "d1 = put_at (put_at (replicate 0x254 0) 0 (WRITE32_LE t)) 0x10c (SHA256 C dat)"
  define d2 where "d2 = put_at (put_at (put_at d1 4 (WRITE32_LE (of_nat m * 8))) 8 e) 12 (BN_bn2bin C (rsa_n k))"
  define d3 where "d3 = (if t = 1 then put_at d2 0x12c (SHA256 C (bytes_at d2 4 (m + 8))) else d2)"
  define d4 where "d4 = put_at (put_at d3 (ext + 0x12c) (WRITE32_LE 1)) (ext + 0x130) (WRITE32_LE (- 1))"
  have l1: "length d1 = 0x254" by (simp add: d1_def m)
  have l2: "length d2 = 0x254" using m(1) by (simp add: d2_def l1 e(2) m(3))
  have l3: "length d3 = 0x254" by (simp add: d3_def l2 m)
  have l4: "length d4 = 0x254" using ext by (auto simp: d4_def l3)
  have msg: "length (bytes_at d4 0x10c (ext + 0x28)) = ext + 0x28" "ext + 0x28 \<le> 0x48"
    using ext by (auto simp: bytes_at_def l4)
  then obtain c where c: "PKCS1_private_encrypt C k (bytes_at d4 0x10c (ext + 0x28)) = (int m, c)" "length c = m"
      "PKCS1_public_decrypt C (rsa_n k) (rsa_e k) c = (int (ext + 0x28), bytes_at d4 0x10c (ext + 0x28))"
    using crypt [of "bytes_at d4 0x10c (ext + 0x28)"] by auto
  define sd where "sd = put_at d4 (ext + 0x134) c"
  have "signature_for C k m t dat sd"
    using ext
  proof
    assume x: "ext = 0 \<and> t = 0"
    show ?thesis
      unfolding signature_for_def Let_def ext_def [symmetric] using x c m e
      by (simp add: parts sd_def d4_def d3_def d2_def d1_def)
  next
    assume x: "ext = 0x20 \<and> t = 1"
    show ?thesis
      unfolding signature_for_def Let_def ext_def [symmetric] using x c m e
      by (simp add: parts sd_def d4_def d3_def d2_def d1_def)
  qed
  moreover have "wp (put_key C k d1) (\<lambda>(d, b) s'. d = d2 \<and> b = of_nat m * 8 \<and> disk_files s' = disk_files s \<and>
      may_write s' = may_write s) (\<lambda>_ _. False) s"
    unfolding put_key_def Let_def m(2) e(1) option.case d2_def [symmetric]
    by (simp add: kb wp_simps fw_printf_def)
  moreover have sg: "wp (put_signature C k t (of_nat m * 8) d2) (\<lambda>d s'. d = sd \<and> disk_files s' = disk_files s1 \<and>
      may_write s' = may_write s1) (\<lambda>_ _. False) s1" for s1
    unfolding put_signature_def Let_def ext_def [symmetric] kb(2,3) d3_def [symmetric] d4_def [symmetric] c(1) prod.case
      sd_def [symmetric]
    by (simp add: wp_simps fw_printf_def)
  ultimately show ?thesis
    unfolding make_data_def Let_def d1_def [symmetric] wp_bnd
    by (elim wp_mono) (auto intro!: wp_mono [OF sg])
qed

section \<open>What signing makes is accepted\<close>

definition no_complaint :: "(string \<times> parg list) list \<Rightarrow> bool" where
  "no_complaint l = list_all (\<lambda>(f, _). take 3 f \<noteq> ''!!!'') l"

lemma make_head_parts:
  "length (make_head t n z) = 0x60" "le32_at (make_head t n z) 0x20 = t * 0x20 + 0x234"
  "le32_at (make_head t n z) 0x28 = of_nat (z + 0x60)"
  by (simp_all add: make_head_def Let_def parts)

definition signed_image :: "byte list \<Rightarrow> u32 \<Rightarrow> byte list \<Rightarrow> byte list" where
  "signed_image img t sd = img @ make_head t (data_size img) (length img) @ take (unat t * 0x20 + 0x234) sd"

lemma verify_signed:
  assumes "disk_files s fn = Some (signed_image img t sd)" "length img = 0x200 + data_size img"
    and "bytes_at img 0 4 = bytes_of ''DHTB''" "le32_at img 4 = 1" "data_size img mod 4 = 0" "length img < 2 ^ 31"
    and "signature_for C k m t (drop 0x200 img) sd" "t < 2" "m \<le> 256"
  shows "wp (verify_image C fn) (\<lambda>_ s'. \<exists>l. printed_log s' = printed_log s @ l \<and> no_complaint l) (\<lambda>_ _. False) s"
proof -
  define f where "f = signed_image img t sd"
  define ext where "ext = unat t * 0x20"
  have t: "ext = 0 \<and> t = 0 \<or> ext = 0x20 \<and> t = 1" using two_types [OF assms(8)] by (auto simp: ext_def)
  have sd: "length sd = 0x254" using assms(7) by (simp add: signature_for_def Let_def)
  have "f \<noteq> []" using assms(2) by (auto simp: f_def signed_image_def)
  then have ld: "wp (load_image fn) Q E s = Q f s" for Q E
    using assms(1) by (cases f) (simp_all add: f_def [symmetric] load_image_def fw_loadfile_def wp_simps)
  have len: "length f = length img + 0x60 + (ext + 0x234)"
    using t by (auto simp: f_def signed_image_def make_head_parts sd ext_def)
  have head: "bytes_at f 0 4 = bytes_of ''DHTB''" "le32_at f 4 = 1" "data_size f = data_size img"
    using assms(2-4) by (simp_all add: f_def signed_image_def parts data_size_def)
  have dat: "bytes_at f 0x200 (data_size img) = drop 0x200 img"
    using assms(2) by (simp add: f_def signed_image_def bytes_at_def)
  have off: "le32_at f (0x200 + data_size img + 0x20) = t * 0x20 + 0x234"
    "le32_at f (0x200 + data_size img + 0x28) = of_nat (length img + 0x60)"
    using assms(2) by (simp_all add: f_def signed_image_def parts make_head_parts)
  have u: "unat (of_nat (length img + 0x60) :: u32) = length img + 0x60" using assms(6) by (simp only: unat_of_nat) simp
  have sdf: "drop (length img + 0x60) f = take (ext + 0x234) sd"
    using make_head_parts(1) by (simp add: f_def signed_image_def ext_def)
  define sd' where "sd' = take (ext + 0x234) sd"
  have l': "length sd' = ext + 0x234" using t by (auto simp: sd'_def sd)
  have ty: "le32_at sd' 0 = t" using t assms(7) by (auto simp: sd'_def parts sd signature_for_def Let_def)
  have s1: "wp (check_dhtb f) (\<lambda>n s'. n = data_size img \<and> s' = s) (\<lambda>_ _. False) s"
    using assms(2,5) by (simp add: wp_def check_dhtb_run head len)
  have s2: "wp (check_sign_head f (data_size img)) (\<lambda>d s'. d = sd' \<and> (\<exists>l. printed_log s' = printed_log s @ l \<and> no_complaint l))
      (\<lambda>_ _. False) s"
    using t assms(2) unfolding check_sign_head_def Let_def off u sdf sd'_def [symmetric] l' ty
    by (auto simp: wp_simps fw_printf_def len no_complaint_def word_le_nat_alt)
  define kh where "kh = SHA256 C (bytes_at sd 4 (m + 8))"
  note kb = key_bits [OF assms(9)]
  have sig: "le32_at sd' 4 = of_nat m * 8" "BN_bin2bn C (bytes_at sd' 8 4) = rsa_e k" "BN_bin2bn C (bytes_at sd' 12 m) = rsa_n k"
      "bytes_at sd' 0x10c 32 = SHA256 C (drop 0x200 img)" "ext = 0 \<or> bytes_at sd' 0x12c 32 = kh"
      "bytes_at sd' 4 (m + 8) = bytes_at sd 4 (m + 8)"
      "le32_at sd' (ext + 0x12c) = 1" "bytes_at sd' 0x10c (ext + 0x28) = bytes_at sd 0x10c (ext + 0x28)"
      "bytes_at sd' (ext + 0x134) m = bytes_at sd (ext + 0x134) m"
    using t assms(7,9) by (auto simp: sd'_def parts sd kh_def signature_for_def Let_def)
  have dec: "PKCS1_public_decrypt C (rsa_n k) (rsa_e k) (bytes_at sd (ext + 0x134) m) =
      (int (ext + 0x28), bytes_at sd 0x10c (ext + 0x28))" "length (bytes_at sd 0x10c (ext + 0x28)) = ext + 0x28"
    using assms(7) by (simp_all add: signature_for_def Let_def ext_def)
  have buf: "take (ext + 0x28) (put_at (replicate 0x100 0) 0 x) = x" if "length x = ext + 0x28" for x :: "byte list"
    using that by (simp add: put_at_def)
  have mult_div_8: "8 * m div 8 = m" by simp
  show ?thesis
    unfolding verify_image_def wp_bnd ld
  proof (rule wp_mono [OF s1], goal_cases)
    case (1 n s')
    then have n: "n = data_size img" "s' = s" by simp_all
    show ?case
      unfolding n
    proof (rule wp_mono [OF s2], goal_cases)
      case (1 d s'')
      then obtain l where l: "d = sd'" "printed_log s'' = printed_log s @ l" "no_complaint l" by blast
      show ?case
        unfolding l(1) Let_def ty ext_def [symmetric] dat head sig kb(1-4) mult_div_8 dec prod.case
        using sig(5) dec(2) kb(5) l(2,3)
        by (simp add: wp_simps fw_printf_def show_key_hash_def no_complaint_def kh_def buf Let_def)
    qed simp
  qed simp
qed

text \<open>
  C36: The two halves of the tool for the UMS9117 fit together: for an image with a correct
  header and its data, and a key that works, the signature data that \<open>sign_image\<close> makes is
  appended with its header to the image, and \<open>verify_image\<close> accepts the file without a complaint
  (as \<open>sign_image\<close> itself only takes empty images, the file is put together here).
\<close>

theorem made_signature_verifies:
  assumes "length img = 0x200 + data_size img" "bytes_at img 0 4 = bytes_of ''DHTB''" "le32_at img 4 = 1"
    and "data_size img mod 4 = 0" "length img < 2 ^ 31" "key_works C k m" "t < 2"
  shows "\<exists>sd s'. make_data C k t (drop 0x200 img) s = Ret sd s' \<and>
    (\<forall>s fn. disk_files s fn = Some (signed_image img t sd) \<longrightarrow>
       (\<exists>s' l. verify_image C fn s = Ret () s' \<and> printed_log s' = printed_log s @ l \<and> no_complaint l))"
proof -
  have m: "m \<le> 256" using assms(6) by (simp add: key_works_def)
  obtain sd s' where "make_data C k t (drop 0x200 img) s = Ret sd s'" and sd: "signature_for C k m t (drop 0x200 img) sd"
    using wp_Ret [OF make_data_signs [OF assms(6,7), of "drop 0x200 img" s]] by blast
  moreover have "\<exists>s' l. verify_image C fn s = Ret () s' \<and> printed_log s' = printed_log s @ l \<and> no_complaint l"
    if "disk_files s fn = Some (signed_image img t sd)" for s fn
    using wp_Ret [OF verify_signed [OF that assms(1-5) sd assms(7) m]] by auto
  ultimately show ?thesis by blast
qed

definition works_crypto :: crypto117 where
  "works_crypto = crypto.extend (sign_crypto\<lparr>BN_bn2bin := (\<lambda>n. replicate 128 0), BN_bin2bn := (\<lambda>b. 0)\<rparr>)
      \<lparr>SHA256 = (\<lambda>_. replicate 32 0),
       PKCS1_public_decrypt = (\<lambda>n e c. (int (unat (c ! 0)), take (unat (c ! 0)) (drop 1 c))),
       PKCS1_private_encrypt = (\<lambda>k x. (128, of_nat (length x) # x @ replicate (127 - length x) 0))\<rparr>"

definition works_key :: rsa where
  "works_key = \<lparr>rsa_n = 0, rsa_e = 0, rsa_d = 0, rsa_p = 0, rsa_q = 0, rsa_dmp1 = 0, rsa_dmq1 = 0, rsa_iqmp = 0\<rparr>"

theorem made_signature_verifies_witness:
  "\<exists>sd s'. make_data works_crypto works_key 1 [1, 2, 3, 4] sign_fws = Ret sd s' \<and>
    (\<exists>s'' l. verify_image works_crypto ''f'' (sign_fws\<lparr>disk_files := [''f'' \<mapsto> signed_image data_image 1 sd]\<rparr>) = Ret () s'' \<and>
      printed_log s'' = printed_log sign_fws @ l \<and> no_complaint l)"
proof -
  have byte_len: "uint (of_nat n :: byte) = int n" if "n \<le> 72" for n
    using that by (simp add: uint_nat unat_of_nat)
  have "key_works works_crypto works_key 128"
    by (auto simp: key_works_def works_crypto_def sign_crypto_def sample_crypto_def works_key_def crypto.defs unat_of_nat byte_len)
  moreover have "data_size data_image = 4" "length data_image = 0x204" "bytes_at data_image 0 4 = bytes_of ''DHTB''"
      "le32_at data_image 4 = 1" "drop 0x200 data_image = [1, 2, 3, 4]"
    by (simp_all add: data_image_def data_size_def bytes_of_def le32_at_def READ32_LE_def blit_def nth_append bytes_at_def)
  ultimately obtain sd s' where sd: "make_data works_crypto works_key 1 [1, 2, 3, 4] sign_fws = Ret sd s'"
    and v: "\<And>s fn. disk_files s fn = Some (signed_image data_image 1 sd) \<Longrightarrow>
       (\<exists>s' l. verify_image works_crypto fn s = Ret () s' \<and> printed_log s' = printed_log s @ l \<and> no_complaint l)"
    using made_signature_verifies [of data_image works_crypto works_key 128 1 sign_fws] by (auto simp: word_less_nat_alt)
  from v [of "sign_fws\<lparr>disk_files := [''f'' \<mapsto> signed_image data_image 1 sd]\<rparr>" "''f''"] sd
  show ?thesis by auto
qed

end
