(* ===== verification/T117Nv.thy ===== *)
theory T117Nv
  imports FwSms
begin

text \<open>
  The non-volatile items of a UMS9117 phone (fphelper_t117/main.c, \<open>scan_nv\<close> and \<open>scan_nv1\<close>).
  A dump of the partition starts with a header block and a directory, both stored twice, and
  has for every item a link in the directory and, where that points, a head with two checksums
  and the data. The functions give the lines that are printed.
\<close>

unbundle bit_operations_syntax

section \<open>Checksum\<close>

definition slice :: "byte list \<Rightarrow> nat \<Rightarrow> nat \<Rightarrow> byte list" where
  "slice b p n = map (\<lambda>i. u8at b (p + i)) [0..<n]"

fun nv_sum :: "u32 \<Rightarrow> byte list \<Rightarrow> u32" where
  "nv_sum crc (x # y # r) = nv_sum (crc + (push_bit 8 (ucast y) OR ucast x)) r"
| "nv_sum crc [x] = crc + ucast x"
| "nv_sum crc [] = crc"

definition nv_checksum :: "byte list \<Rightarrow> u32" where
  "nv_checksum src =
     (let crc = nv_sum 0 src; crc = drop_bit 16 crc + (crc AND 0xffff); crc = crc + drop_bit 16 crc
      in NOT crc AND 0xffff)"

section \<open>Items\<close>

definition scan_nvitem :: "byte list \<Rightarrow> nat \<Rightarrow> nat \<Rightarrow> print list" where
  "scan_nvitem b p n =
     (if n = 8 then case decode_imei b p of None \<Rightarrow> [] | Some imei \<Rightarrow> [(''IMEI = %s'', [PS imei])] else [])"

text \<open>\<open>i\<close> is where the next item is, \<open>n\<close> how many bytes are left, \<open>last\<close> the id before.\<close>

function scan_nv1_loop :: "byte list \<Rightarrow> nat \<Rightarrow> nat \<Rightarrow> nat \<Rightarrow> print list" where
  "scan_nv1_loop b i n prev =
     (let fail = (\<lambda>i. [(''nv1 read error at 0x%x'', [PN i])]); d = unat (w16 b i); m = unat (w16 b (i + 2))
      in if n < 4 then fail i
         else if d \<le> prev then fail i
         else if w16 b i AND w16 b (i + 2) = 0xffff then [(''nv1 size = 0x%x'', [PN (i + 8)])]
         else (''0x%06x: id = %u, size = %u'', [PN (i + 4), PN d, PN m]) #
           (let k = (m + 3) div 4 * 4
            in if n - 4 < k then fail (i + 4)
               else scan_nvitem b (i + 4) k @ scan_nv1_loop b (i + 4 + k) (n - 4 - k) d))"
  by pat_completeness auto

termination by (relation "measure (\<lambda>(b, i, n, prev). n)") auto

declare scan_nv1_loop.simps [simp del]

definition scan_nv1 :: "byte list \<Rightarrow> nat \<Rightarrow> print list" where
  "scan_nv1 b size' =
     (if size' < 8 then [(''nv1 dump is too small'', [])]
      else (''nv1 id: 0x%08x'', [PW (w32 b 0)]) # scan_nv1_loop b 4 (size' - 4) 0)"

section \<open>The partition\<close>

text \<open>The link at \<open>p\<close> of the item \<open>d\<close>; \<open>data_off\<close> is where the items begin.\<close>

definition scan_link :: "byte list \<Rightarrow> nat \<Rightarrow> nat \<Rightarrow> nat \<Rightarrow> nat \<Rightarrow> print list" where
  "scan_link b size' data_off p d =
     (let n = unat (w16 b (p + 2)); off = w32 b (p + 4); q = unat off;
          chk = nv_checksum (slice b (p + 2) 14); chk1 = ucast (w16 b p); size2 = of_nat size' - off
      in if off = 0 then []
         else (''0x%06x: id = %u, size = %u'', [PW (off + 12), PN d, PN n]) #
           (if chk \<noteq> chk1
            then [(''!!! wrong nvitem link checksum (0x%04x, expected 0x%04x)'', [PW chk1, PW chk])]
            else if size' < q \<or> q < data_off \<or> unat size2 < 12 + n
            then [(''!!! invalid nvitem offset (0x%x)'', [PW off])]
            else let d2 = unat (w16 b (q + 4)); n2 = unat (w16 b (q + 6));
                chk = nv_checksum (slice b (q + 4) 8); chk1 = ucast (w16 b q);
                chk' = nv_checksum (slice b (q + 12) n); chk1' = ucast (w16 b (q + 2))
              in (if d2 \<noteq> d then [(''!!! nvitem id mismatch (%u, expected %u)'', [PN d2, PN d])] else []) @
                 (if chk \<noteq> chk1
                  then [(''!!! wrong nvitem head checksum (0x%04x, expected 0x%04x)'', [PW chk1, PW chk])] else []) @
                 (if n2 \<noteq> n then [(''!!! nvitem size mismatch (%u, expected %u)'', [PN n2, PN n])]
                  else (if chk' \<noteq> chk1'
                        then [(''!!! wrong nvitem data checksum (0x%04x, expected 0x%04x)'', [PW chk1', PW chk'])] else []) @
                    scan_nvitem b (q + 12) n)))"

text \<open>The size of the directory, rounded up to blocks.\<close>

definition dir_bytes :: "nat \<Rightarrow> nat \<Rightarrow> nat" where
  "dir_bytes blk n = unat ((of_nat (n * 0x10) + of_nat blk - 1) AND - of_nat blk :: u32)"

definition scan_nv :: "byte list \<Rightarrow> nat \<Rightarrow> print list" where
  "scan_nv b size' =
     (let small = [(''VNTS dump is too small'', [])]; blk = unat (w16 b 14); first_id = unat (w16 b 8);
          count = unat (w16 b 16); dir_size = dir_bytes blk count; dir = 2 * blk; data_off = dir + dir_size * 2
      in if size' < 0x20 then small
         else if w32 b 0 \<noteq> 0x53544e56 then [(''wrong VNTS header'', [])]
         else if w16 b 14 AND (w16 b 14 - 1) \<noteq> 0 \<or> blk < 0x100 then [(''invalid VNTS block size (0x%x)'', [PN blk])]
         else [(''nv1 id: 0x%08x'', [PW (w32 b 4)]), (''item range: %u..%u'', [PN first_id, PN (unat (w16 b 10))])] @
           (if size' < dir then small
            else (if slice b 0 blk \<noteq> slice b blk blk then [(''VNTS backup header is damaged'', [])] else []) @
              (if size' - dir < dir_size * 2 then small
               else (if slice b dir dir_size \<noteq> slice b (dir + dir_size) dir_size
                     then [(''VNTS backup dir is damaged'', [])] else []) @
                 concat (map (\<lambda>i. scan_link b size' data_off (dir + i * 0x10) (i + first_id)) [0..<count]))))"

end
