(* ===== verification/T117NvRt.thy ===== *)
theory T117NvRt
  imports T117Nv
begin

text \<open>
  A dump of the items of a UMS9117 phone that is laid out as the phone does it is listed by
  \<open>scan_nv\<close> item by item, without a complaint.
\<close>

unbundle bit_operations_syntax

section \<open>Reading what has been laid out\<close>

lemma u8at_drop_plus: "u8at b (p + i) = u8at (drop p b) i"
  by (auto simp: u8at_def)

lemma w_drop: "w16 b (p + i) = w16 (drop p b) i" "w32 b (p + i) = w32 (drop p b) i"
  unfolding w16_def w32_def READ16_LE_def READ32_LE_def by (simp_all only: u8at_drop_plus [symmetric] add.assoc)

lemma w_drop0: "w16 b p = w16 (drop p b) 0" "w32 b p = w32 (drop p b) 0"
  using w_drop [of b p 0] by simp_all

lemma slice_drop: "slice b (p + i) n = slice (drop p b) i n"
  unfolding slice_def by (simp only: u8at_drop_plus [symmetric] add.assoc)

lemma slice_0: "n \<le> length b \<Longrightarrow> slice b 0 n = take n b"
  by (intro nth_equalityI) (simp_all add: slice_def u8at_def)

lemma slice_take: "i + n \<le> length b \<Longrightarrow> slice b i n = take n (drop i b)"
  using slice_drop [of b i 0 n] slice_0 [of n "drop i b"] by simp

lemma decode_imei_drop: "decode_imei b p = decode_imei (drop p b) 0"
proof -
  have "decode_imei_loop b (p + j) k i = decode_imei_loop (drop p b) j k i" for j k i
    by (induction k arbitrary: i) (simp_all only: decode_imei_loop.simps u8at_drop_plus [symmetric] add.assoc)
  from this [of 0] show ?thesis using u8at_drop_plus [of b p 0] by (simp add: decode_imei_def)
qed

lemma decode_imei_append: "length xs = 8 \<Longrightarrow> decode_imei (xs @ ys) 0 = decode_imei xs 0"
proof -
  assume l: "length xs = 8"
  have "i + k \<le> 16 \<Longrightarrow> decode_imei_loop (xs @ ys) 0 k i = decode_imei_loop xs 0 k i" for k i
  proof (induction k arbitrary: i)
    case (Suc k)
    then have "i div 2 < 8" by simp
    then have "u8at (xs @ ys) (i div 2) = u8at xs (i div 2)" by (simp add: u8at_def nth_append l)
    moreover have "decode_imei_loop (xs @ ys) 0 k (i + 1) = decode_imei_loop xs 0 k (i + 1)" using Suc by simp
    ultimately show ?case by (simp only: decode_imei_loop.simps add_0)
  qed simp
  from this [of 1 15] show ?thesis using l by (simp add: decode_imei_def u8at_def nth_append)
qed

lemma scan_nvitem_at:
  assumes "drop p b = dat @ rest"
  shows "scan_nvitem b p (length dat) = scan_nvitem dat 0 (length dat)"
  using decode_imei_append [of dat rest]
  by (simp add: scan_nvitem_def decode_imei_drop [of b p] assms split: option.split)

lemma w16_eq: "w16 b p = ucast (u8at b p) OR push_bit 8 (ucast (u8at b (p + 1)))"
proof (rule bit_word_eqI)
  fix n assume "n < LENGTH(16)"
  then show "bit (w16 b p) n = bit (ucast (u8at b p) OR push_bit 8 (ucast (u8at b (p + 1))) :: u16) n"
    by (auto simp: w16_def READ16_LE_def bit_simps)
qed

definition le16 :: "nat \<Rightarrow> byte list" where "le16 n = WRITE16_LE (of_nat n)"
definition le32 :: "nat \<Rightarrow> byte list" where "le32 n = WRITE32_LE (of_nat n)"

lemma length_le [simp]: "length (le16 n) = 2" "length (le32 n) = 4"
  by (simp_all add: le16_def le32_def)

lemma w16_le16 [simp]: "w16 (le16 n @ r) 0 = of_nat n"
proof (rule bit_word_eqI)
  fix i assume "i < LENGTH(16)"
  then show "bit (w16 (le16 n @ r) 0) i = bit (of_nat n :: u16) i"
    by (auto simp: w16_eq le16_def WRITE16_LE_def u8at_def bit_simps)
qed

lemma w32_le32 [simp]: "w32 (le32 n @ r) 0 = of_nat n"
proof -
  have "READ32_LE (u8at (WRITE32_LE a @ r)) 0 = READ32_LE (blit (\<lambda>_. 0) 0 (WRITE32_LE a)) 0" for a
    by (simp add: READ32_LE_def WRITE32_LE_def u8at_def blit_def nth_append)
  then show ?thesis by (simp add: w32_def le32_def READ32_LE_WRITE)
qed
section \<open>The layout\<close>

text \<open>
  What the phone stores: an item with four bytes of its head and eight of its link that are of
  no interest here, and its data; or an empty link.
\<close>

datatype nv_entry = Item "byte list" "byte list" "byte list" | Hole "byte list" "byte list"

fun entry_ok :: "nv_entry \<Rightarrow> bool" where
  "entry_ok (Item x y dat) = (length x = 4 \<and> length y = 8 \<and> length dat < 2 ^ 16)"
| "entry_ok (Hole x y) = (length x = 4 \<and> length y = 8)"

definition sum16 :: "byte list \<Rightarrow> byte list" where "sum16 bs = WRITE16_LE (nv_checksum bs)"

fun nv_link :: "nat \<Rightarrow> nv_entry \<Rightarrow> byte list" where
  "nv_link off (Item x y dat) = (let l = le16 (length dat) @ le32 off @ y in sum16 l @ l)"
| "nv_link off (Hole x y) = x @ le32 0 @ y"

fun nv_store :: "nat \<Rightarrow> nv_entry \<Rightarrow> byte list" where
  "nv_store d (Item x y dat) = (let h = le16 d @ le16 (length dat) @ x in sum16 h @ sum16 dat @ h @ dat)"
| "nv_store d (Hole x y) = []"

fun nv_links :: "nat \<Rightarrow> nat \<Rightarrow> nv_entry list \<Rightarrow> byte list" where
  "nv_links d off [] = []"
| "nv_links d off (e # es) = nv_link off e @ nv_links (d + 1) (off + length (nv_store d e)) es"

fun nv_body :: "nat \<Rightarrow> nv_entry list \<Rightarrow> byte list" where
  "nv_body d [] = []"
| "nv_body d (e # es) = nv_store d e @ nv_body (d + 1) es"

text \<open>What should be printed.\<close>

fun nv_lines :: "nat \<Rightarrow> nat \<Rightarrow> nv_entry list \<Rightarrow> print list" where
  "nv_lines d off [] = []"
| "nv_lines d off (Item x y dat # es) =
     (''0x%06x: id = %u, size = %u'', [PN (off + 12), PN d, PN (length dat)]) # scan_nvitem dat 0 (length dat) @
     nv_lines (d + 1) (off + 12 + length dat) es"
| "nv_lines d off (Hole x y # es) = nv_lines (d + 1) off es"

lemma length_sum16 [simp]: "length (sum16 bs) = 2" by (simp add: sum16_def)

lemma length_entries [simp]:
  "entry_ok e \<Longrightarrow> length (nv_link off e) = 16"
  "entry_ok (Item x y dat) \<Longrightarrow> length (nv_store d (Item x y dat)) = 12 + length dat"
  by (cases e) (simp_all add: Let_def)

lemma w16_WRITE: "ucast (w16 (WRITE16_LE a @ r) 0) = take_bit 16 a"
proof (rule bit_word_eqI)
  fix i assume "i < LENGTH(32)"
  then show "bit (ucast (w16 (WRITE16_LE a @ r) 0) :: u32) i = bit (take_bit 16 a) i"
    by (auto simp: w16_eq WRITE16_LE_def u8at_def bit_simps)
qed

lemma take_checksum: "take_bit 16 (nv_checksum bs) = nv_checksum bs"
proof -
  have "(0xffff :: u32) = mask 16" by (simp add: mask_eq_exp_minus_1)
  then have "\<exists>z. nv_checksum bs = take_bit 16 z" unfolding nv_checksum_def Let_def by (simp only: take_bit_eq_mask) blast
  then show ?thesis by auto
qed

lemma w16_sum16 [simp]: "ucast (w16 (sum16 bs @ r) 0) = nv_checksum bs"
  by (simp add: sum16_def w16_WRITE take_checksum)

lemma w_append [simp]:
  "w16 (xs @ ys) (length xs) = w16 ys 0" "w32 (xs @ ys) (length xs) = w32 ys 0"
  using w_drop0 [of "xs @ ys" "length xs"] by simp_all
lemma drop_step: "drop p b = xs @ r \<Longrightarrow> drop (p + length xs) b = r"
  by (metis add.commute append_eq_conv_conj drop_drop)

lemma slice_front: "drop p b = xs @ r \<Longrightarrow> slice b p (length xs) = xs"
proof -
  assume d: "drop p b = xs @ r"
  then have "length xs \<le> length (drop p b)" by simp
  then show ?thesis using slice_0 [of "length xs" "drop p b"] slice_drop [of b p 0] by (simp add: d)
qed

lemma w_front:
  "drop p b = le16 n @ r \<Longrightarrow> n < 2 ^ 16 \<Longrightarrow> unat (w16 b p) = n"
  "drop p b = le32 m @ r \<Longrightarrow> w32 b p = of_nat m"
  "drop p b = sum16 xs @ r \<Longrightarrow> ucast (w16 b p) = nv_checksum xs"
  by (simp_all add: w_drop0 [of b p] unat_of_nat)

lemma scan_link_item:
  assumes ok: "entry_ok (Item x y dat)" and p: "drop p b = nv_link off (Item x y dat) @ r1"
    and q: "drop off b = nv_store d (Item x y dat) @ r2"
    and "data_off \<le> off" "0 < off" "length b < 2 ^ 32" "d < 2 ^ 16"
  shows "scan_link b (length b) data_off p d =
    (''0x%06x: id = %u, size = %u'', [PN (off + 12), PN d, PN (length dat)]) # scan_nvitem dat 0 (length dat)"
proof -
  define l where "l = le16 (length dat) @ le32 off @ y"
  define h where "h = le16 d @ le16 (length dat) @ x"
  have len: "length l = 14" "length h = 8" "length dat < 2 ^ 16" using ok by (simp_all add: l_def h_def)
  have p0: "drop p b = sum16 l @ l @ r1" using p by (simp add: l_def Let_def)
  have p2: "drop (p + 2) b = l @ r1" using drop_step [OF p0] by simp
  have p2': "drop (p + 2) b = le16 (length dat) @ le32 off @ y @ r1" using p2 by (simp add: l_def)
  have p4: "drop (p + 4) b = le32 off @ y @ r1" using drop_step [OF p2'] by (simp add: add.assoc)
  have q0: "drop off b = sum16 h @ sum16 dat @ h @ dat @ r2" using q by (simp add: h_def Let_def)
  have q2: "drop (off + 2) b = sum16 dat @ h @ dat @ r2" using drop_step [OF q0] by simp
  have q4: "drop (off + 4) b = h @ dat @ r2" using drop_step [OF q2] by (simp add: add.assoc)
  have q4': "drop (off + 4) b = le16 d @ le16 (length dat) @ x @ dat @ r2" using q4 by (simp add: h_def)
  have q6: "drop (off + 6) b = le16 (length dat) @ x @ dat @ r2" using drop_step [OF q4'] by (simp add: add.assoc)
  have q12: "drop (off + 12) b = dat @ r2" using drop_step [OF q4] len by (simp add: add.assoc)
  have "length (drop off b) \<ge> 12 + length dat" by (simp add: q0 len)
  then have sz: "off + 12 + length dat \<le> length b" by simp
  then have u: "unat (of_nat off :: u32) = off" using assms(6) by (simp add: unat_of_nat)
  have s2: "unat (of_nat (length b) - of_nat off :: u32) = length b - off"
    using sz assms(6) by (simp add: unat_sub word_le_nat_alt unat_of_nat)
  have nz: "(of_nat off :: u32) \<noteq> 0" using assms(5) u by (metis unat_0 less_numeral_extra(3))
  have off12: "PW (of_nat off + 12) = PN (off + 12)"
    using sz assms(6) u by (simp add: PW_def PN_def uint_nat unat_word_ariths)
  have fits: "\<not> length b - off < 12 + length dat" using sz by linarith
  show ?thesis
    unfolding scan_link_def Let_def w_front(1) [OF p2' len(3)] w_front(2) [OF p4] w_front(3) [OF p0]
      w_front(3) [OF q0] w_front(3) [OF q2] w_front(1) [OF q4' assms(7)] w_front(1) [OF q6 len(3)] u s2
      slice_front [OF p2, unfolded len] slice_front [OF q4, unfolded len] slice_front [OF q12] scan_nvitem_at [OF q12] off12
    using nz sz assms(4) fits by simp
qed

lemma scan_link_hole:
  assumes "entry_ok (Hole x y)" "drop p b = nv_link off (Hole x y) @ r"
  shows "scan_link b n data_off p d = []"
proof -
  have "drop (p + 4) b = le32 0 @ y @ r" using drop_step [of p b x] assms by simp
  then show ?thesis by (simp add: scan_link_def w_front(2))
qed

lemma scan_links:
  assumes "list_all entry_ok es" "drop p b = nv_links d off es @ r1" "drop off b = nv_body d es @ r2"
    and "data_off \<le> off" "0 < off" "length b < 2 ^ 32" "d + length es < 2 ^ 16"
  shows "concat (map (\<lambda>i. scan_link b (length b) data_off (p + i * 0x10) (i + d)) [0..<length es]) = nv_lines d off es"
  using assms
proof (induction es arbitrary: p d off)
  case (Cons e es)
  let ?off = "off + length (nv_store d e)"
  have ok: "entry_ok e" "list_all entry_ok es" using Cons.prems(1) by simp_all
  have p: "drop p b = nv_link off e @ nv_links (d + 1) ?off es @ r1" using Cons.prems(2) by simp
  have q: "drop off b = nv_store d e @ nv_body (d + 1) es @ r2" using Cons.prems(3) by simp
  have "drop (p + 16) b = nv_links (d + 1) ?off es @ r1" using drop_step [OF p] ok(1) by simp
  moreover have "drop ?off b = nv_body (d + 1) es @ r2" using drop_step [OF q] .
  ultimately have ih: "concat (map (\<lambda>i. scan_link b (length b) data_off (p + 16 + i * 0x10) (i + (d + 1))) [0..<length es]) =
      nv_lines (d + 1) ?off es"
    using Cons.prems(4-7) ok(2) by (intro Cons.IH) simp_all
  have "scan_link b (length b) data_off p d @ nv_lines (d + 1) ?off es = nv_lines d off (e # es)"
  proof (cases e)
    case (Item x y dat)
    then show ?thesis
      using scan_link_item [of x y dat p b off _ d] ok(1) p q Cons.prems(4-7) length_entries(2) by (simp add: add.assoc)
  next
    case (Hole x y)
    then show ?thesis using scan_link_hole [of x y p b off] ok(1) p by simp
  qed
  moreover have "[0..<length (e # es)] = 0 # map Suc [0..<length es]"
    by (simp add: map_Suc_upt upt_conv_Cons del: upt_Suc)
  ultimately show ?case using ih by (simp add: comp_def algebra_simps del: upt_Suc)
qed simp
section \<open>The dump\<close>

lemma unat_and_minus: "unat (w AND - (2 ^ k) :: u32) = unat w - unat w mod 2 ^ k"
proof -
  have "w = (w AND NOT (mask k)) OR take_bit k w" by (rule bit_word_eqI) (auto simp: bit_simps)
  also have "\<dots> = (w AND NOT (mask k)) + take_bit k w"
    by (rule disjunctive_add [symmetric]) (simp add: bit_simps)
  finally have "w AND - (2 ^ k) = w - take_bit k w"
    unfolding minus_exp_eq_not_mask by (metis add_diff_cancel_right')
  moreover have "take_bit k w \<le> w" by (simp add: word_le_nat_alt unsigned_take_bit_eq take_bit_nat)
  ultimately show ?thesis by (simp add: unat_sub unsigned_take_bit_eq take_bit_nat)
qed

text \<open>A directory of whole blocks, no smaller than its links.\<close>

lemma dir_bytes_ge:
  assumes "k < 16" "n < 2 ^ 16"
  shows "16 * n \<le> dir_bytes (2 ^ k) n"
proof -
  let ?x = "16 * n + 2 ^ k - 1"
  have p: "(2 :: nat) ^ k \<le> 2 ^ 15" using assms(1) by (intro power_increasing) simp_all
  have w: "(of_nat (n * 0x10) + of_nat (2 ^ k) - 1 :: u32) = of_nat ?x"
  proof -
    have "1 \<le> 16 * n + (2 :: nat) ^ k" using one_le_power [of "2 :: nat" k] by linarith
    from of_nat_diff [OF this, where 'a = "32 word"] show ?thesis by (simp add: mult.commute)
  qed
  have u: "unat (of_nat ?x :: u32) = ?x" using p assms(2) by (simp only: unat_of_nat) simp
  have "dir_bytes (2 ^ k) n = ?x - ?x mod 2 ^ k"
    unfolding dir_bytes_def w using unat_and_minus [of "of_nat ?x" k] u by simp
  moreover have "?x mod 2 ^ k < 2 ^ k" by simp
  ultimately show ?thesis by linarith
qed

definition nv_dir :: "nat \<Rightarrow> nat \<Rightarrow> nv_entry list \<Rightarrow> byte list" where
  "nv_dir blk d es =
     (let n = dir_bytes blk (length es); l = nv_links d (2 * blk + 2 * n) es
      in l @ replicate (n - length l) 0xff)"

definition nv_image :: "nat \<Rightarrow> nat \<Rightarrow> nat \<Rightarrow> nat \<Rightarrow> byte list \<Rightarrow> nv_entry list \<Rightarrow> byte list" where
  "nv_image blk id1 first prev pad es =
     (let head = le32 0x53544e56 @ le32 id1 @ le16 first @ le16 prev @ le16 0 @ le16 blk @ le16 (length es) @ pad;
          dir = nv_dir blk first es
      in head @ head @ dir @ dir @ nv_body first es)"

text \<open>
  C26: A dump laid out as the phone does it, with header and directory stored twice and correct
  checksums, is listed completely: the ids of the dump, then for every item its address, id,
  size and, for eight bytes that are one, the IMEI; nothing is said of empty links and
  there is no complaint.
\<close>

theorem scan_nv_lists:
  assumes "blk = 2 ^ k" "8 \<le> k" "k < 16" "length pad = blk - 18" "list_all entry_ok es"
    and "first + length es < 2 ^ 16" "prev < 2 ^ 16" "length (nv_image blk id1 first prev pad es) < 2 ^ 32"
  shows "scan_nv (nv_image blk id1 first prev pad es) (length (nv_image blk id1 first prev pad es)) =
    [(''nv1 id: 0x%08x'', [PW (of_nat id1)]), (''item range: %u..%u'', [PN first, PN prev])] @
    nv_lines first (2 * blk + 2 * dir_bytes blk (length es)) es"
proof -
  define n where "n = dir_bytes blk (length es)"
  define dir where "dir = nv_dir blk first es"
  define head where "head = le32 0x53544e56 @ le32 id1 @ le16 first @ le16 prev @ le16 0 @ le16 blk @ le16 (length es) @ pad"
  define b where "b = nv_image blk id1 first prev pad es"
  have "(2 :: nat) ^ 8 \<le> 2 ^ k" "(2 :: nat) ^ k \<le> 2 ^ 15" using assms(2,3) by (intro power_increasing; simp)+
  then have blk: "256 \<le> blk" "blk \<le> 2 ^ 15" using assms(1) by simp_all
  have n: "16 * length es \<le> n" using dir_bytes_ge [of k "length es"] assms(1,3,6) by (simp add: n_def)
  have "length (nv_links d off es) = 16 * length es" if "list_all entry_ok es" for d off es
    using that by (induction es arbitrary: d off) simp_all
  then have dir: "length dir = n" "dir = nv_links first (2 * blk + 2 * n) es @ replicate (n - 16 * length es) 0xff"
    using n assms(5) by (simp_all add: dir_def nv_dir_def Let_def n_def [symmetric])
  have head: "length head = blk" using blk assms(4) by (simp add: head_def)
  have b0: "drop 0 b = head @ head @ dir @ dir @ nv_body first es"
    by (simp add: b_def nv_image_def Let_def head_def dir_def)
  have b0': "drop 0 b = le32 0x53544e56 @ le32 id1 @ le16 first @ le16 prev @ le16 0 @ le16 blk @ le16 (length es) @
      pad @ head @ dir @ dir @ nv_body first es"
    using b0 by (simp add: head_def)
  note s4 = drop_step [OF b0', simplified] note s8 = drop_step [OF s4, simplified]
  note s10 = drop_step [OF s8, simplified] note s12 = drop_step [OF s10, simplified]
  note s14 = drop_step [OF s12, simplified] note s16 = drop_step [OF s14, simplified]
  have words: "w32 b 0 = 0x53544e56" "w32 b 4 = of_nat id1" "unat (w16 b 8) = first" "unat (w16 b 10) = prev"
    "unat (w16 b 14) = blk" "unat (w16 b 16) = length es" "w16 b 14 = 2 ^ k"
    using w_front(2) [OF b0'] w_front(2) [OF s4] w_front(1) [OF s8] w_front(1) [OF s10] w_front(1) [OF s14]
      w_front(1) [OF s16] blk assms(1,6,7) s14 w_drop0(1) [of b 14] by simp_all
  note d1 = drop_step [OF b0, unfolded head, simplified]
  note d2 = drop_step [OF d1, unfolded head]
  note d3 = drop_step [OF d2, unfolded dir(1)]
  note d4 = drop_step [OF d3, unfolded dir(1)]
  have dbl: "slice b 0 blk = head" "slice b blk blk = head" "slice b (2 * blk) n = dir" "slice b (2 * blk + n) n = dir"
    using slice_front [OF b0] slice_front [OF d1] slice_front [OF d2] slice_front [OF d3]
    by (simp_all add: head dir(1) mult_2)
  have len: "length b = 2 * blk + 2 * n + length (nv_body first es)"
    by (simp add: b_def nv_image_def Let_def head_def [symmetric] dir_def [symmetric] head dir(1))
  have pow: "(2 ^ k :: u16) AND (2 ^ k - 1) = 0"
  proof -
    have "(2 ^ k :: u16) AND (2 ^ k - 1) = take_bit k (push_bit k 1)"
      by (simp add: take_bit_eq_mask mask_eq_exp_minus_1 push_bit_eq_mult)
    then show ?thesis by (simp only: take_bit_push_bit) simp
  qed
  have links: "concat (map (\<lambda>i. scan_link b (length b) (2 * blk + n * 2) (2 * blk + i * 0x10) (i + first)) [0..<length es]) =
      nv_lines first (2 * blk + 2 * n) es"
  proof (rule scan_links [OF assms(5)])
    show "drop (2 * blk) b = nv_links first (2 * blk + 2 * n) es @ replicate (n - 16 * length es) 0xff @ dir @ nv_body first es"
      using d2 unfolding dir(2) by (simp only: mult_2 append_assoc)
    show "drop (2 * blk + 2 * n) b = nv_body first es @ []"
      using d4 by (simp only: mult_2 append_Nil2 add.assoc)
    show "length b < 2 ^ 32" using assms(8) by (simp only: b_def)
  qed (use blk assms(6) in simp_all)
  have "scan_nv b (length b) = [(''nv1 id: 0x%08x'', [PW (of_nat id1)]), (''item range: %u..%u'', [PN first, PN prev])] @
      nv_lines first (2 * blk + 2 * n) es"
    unfolding scan_nv_def Let_def words(1-6)
    unfolding n_def [symmetric] dbl links words(7)
    using pow blk len by simp
  then show ?thesis by (simp add: b_def n_def)
qed

text \<open>A dump with two items, one of them an IMEI, and an empty link between them.\<close>

definition sample_entries :: "nv_entry list" where
  "sample_entries = [Item (replicate 4 0) (replicate 8 0) [0x1a, 0x32, 0x54, 0x76, 0x98, 0x10, 0x32, 0x54],
     Hole (replicate 4 0xff) (replicate 8 0xff), Item (replicate 4 0) (replicate 8 0) [1, 2, 3]]"

theorem scan_nv_lists_witness:
  "scan_nv (nv_image 256 7 5 9 (replicate 238 0) sample_entries) (length (nv_image 256 7 5 9 (replicate 238 0) sample_entries)) =
    [(''nv1 id: 0x%08x'', [PW 7]), (''item range: %u..%u'', [PN 5, PN 9]),
     (''0x%06x: id = %u, size = %u'', [PN 1036, PN 5, PN 8]), (''IMEI = %s'', [PS ''123456789012345'']),
     (''0x%06x: id = %u, size = %u'', [PN 1056, PN 7, PN 3])]"
proof -
  have d: "dir_bytes 256 3 = 256" by (simp add: dir_bytes_def)
  have ok: "list_all entry_ok sample_entries" by (simp add: sample_entries_def)
  have n: "length sample_entries = 3" by (simp add: sample_entries_def)
  have l: "length (nv_image 256 7 5 9 (replicate 238 0) sample_entries) < 2 ^ 32"
    by (simp add: nv_image_def nv_dir_def Let_def n d) (simp add: sample_entries_def Let_def)
  have imei: "decode_imei [0x1a, 0x32, 0x54, 0x76, 0x98, 0x10, 0x32, 0x54] 0 = Some ''123456789012345''"
    by code_simp
  have ls: "nv_lines 5 1024 sample_entries = [(''0x%06x: id = %u, size = %u'', [PN 1036, PN 5, PN 8]),
     (''IMEI = %s'', [PS ''123456789012345'']), (''0x%06x: id = %u, size = %u'', [PN 1056, PN 7, PN 3])]"
    by (simp add: sample_entries_def scan_nvitem_def imei PN_def)
  show ?thesis
    using scan_nv_lists [of 256 8 "replicate 238 0" sample_entries 5 9 7, OF _ _ _ _ ok _ _ l] n d ls by simp
qed

end
