(* ===== verification/T117Lcd.thy ===== *)
theory T117Lcd
  imports FwLcd FwInit
begin

text \<open>
  The decompiler of LCD start-up code and the search for calls for Thumb-2 code
  (fphelper_t117/main.c, \<open>lcd_init_dec\<close> and \<open>find_calls\<close>). What is printed for a command is the
  same as in fphelper/main.c (\<open>FwLcd\<close>).
\<close>

unbundle bit_operations_syntax

section \<open>Calls\<close>

text \<open>
  The distance of a BL or BLX from the address behind it, from its two half words; \<open>None\<close> if
  the second is not that of a call. The last step puts in the two bits that Thumb-2 added.
\<close>

definition thumb_call :: "u16 \<Rightarrow> u16 \<Rightarrow> u32 option" where
  "thumb_call a1 a2 =
     (let a = ucast a2; b = signed_drop_bit (21 - 12) (push_bit 21 (ucast a1 :: u32)); b = b OR push_bit 1 (a AND 0x7ff);
          b = b XOR push_bit 10 (((NOT a AND 0x2800) + 0x800) AND 0x3000)
      in if a2 AND 0xd001 = 0xc000 then Some (b AND NOT 3)
         else if a2 AND 0x1000 = 0 then None
         else Some b)"

text \<open>\<open>"x" + (a >> 12 & 1)\<close>\<close>

definition call_suffix :: "u16 \<Rightarrow> string" where "call_suffix a2 = (if a2 AND 0x1000 = 0 then ''x'' else [])"

definition call_at :: "byte list \<Rightarrow> u32 \<Rightarrow> u32 \<Rightarrow> nat \<Rightarrow> print list" where
  "call_at b base target i =
     (let a1 = w16 b i; a2 = w16 b (i + 2)
      in if a1 AND 0xf800 \<noteq> 0xf000 then []
         else case thumb_call a1 a2 of
           None \<Rightarrow> []
         | Some d \<Rightarrow> if base + (d + of_nat i + 4) = target
             then [(''0x%x: bl%s'', [PW (base + of_nat i), PS (call_suffix a2)])] else [])"

definition find_calls :: "byte list \<Rightarrow> nat \<Rightarrow> u32 \<Rightarrow> u32 \<Rightarrow> print list" where
  "find_calls b size' base target =
     (if size' < 4 then [] else concat (map (\<lambda>k. call_at b base target (2 * k)) [0..<(size' - 2) div 2]))"

section \<open>The state of the decompiler\<close>

record lcd_t = lcd +
  lcm_cs :: nat

definition lcd0_t :: lcd_t where "lcd0_t = lcd.extend lcd0 \<lparr>lcm_cs = 0\<rparr>"

text \<open>
  A call in mode 1 with the values of the argument registers: what it prints and the new
  state, if the code goes on.
\<close>

definition lcd_call_t :: "nat \<Rightarrow> u32 \<Rightarrow> nat list \<Rightarrow> lcd_t \<Rightarrow> print list \<times> lcd_t option" where
  "lcd_call_t site t args s =
     (case args of
        [r0] \<Rightarrow>
          (let s = (if lcm_wait s = None then s\<lparr>lcm_wait := Some t\<rparr> else s)
           in if lcm_wait s \<noteq> Some t then (unexpected site, None)
              else (lcd_init_print (last_cmd s) (pending s) @ [(''LCM_DELAY(%u),'', [PN r0])],
                    Some (s\<lparr>pending := [], last_cmd := None\<rparr>)))
      | [r0, r1] \<Rightarrow>
          if lcm_cmd s = None \<and> r1 div 2 \<noteq> 0 then ([(''!!! unexpected cs (%u)'', [PN r1])], None)
          else if lcm_cmd s \<noteq> None \<and> r1 \<noteq> lcm_cs s then ([(''!!! 0x%x: r1 != cs'', [PN site])], None)
          else let s = (if lcm_cmd s = None then s\<lparr>lcm_cmd := Some t, lcm_cs := r1\<rparr> else s)
          in if lcm_cmd s = Some t
             then if last_cmd s \<noteq> None \<or> pending s \<noteq> []
                  then (lcd_init_print (last_cmd s) (pending s), Some (s\<lparr>pending := [], last_cmd := Some r0\<rparr>))
                  else ([], Some (s\<lparr>last_cmd := Some r0\<rparr>))
             else let s = (if lcm_data s = None then s\<lparr>lcm_data := Some t\<rparr> else s)
             in if lcm_data s = Some t
                then if length (pending s) = 31
                     then (lcd_init_print (last_cmd s) (pending s), Some (s\<lparr>pending := [r0], last_cmd := None\<rparr>))
                     else ([], Some (s\<lparr>pending := pending s @ [r0]\<rparr>))
                else (unexpected site, None)
      | _ \<Rightarrow> (unexpected site, None))"

text \<open>
  A call with one argument may go to a short function that sets the second one to 0 and goes
  on to the real one.
\<close>

definition short_call :: "byte list \<Rightarrow> nat \<Rightarrow> u32 \<Rightarrow> u16 \<Rightarrow> nat list \<Rightarrow> nat list" where
  "short_call b size' t a2 args =
     (case args of
        [r0] \<Rightarrow> if a2 AND 0x1000 \<noteq> 0 \<and> size' > unat t \<and> size' - unat t \<ge> 6 \<and> w16 b (unat t) = 0x2100 \<and>
            w16 b (unat t + 2) AND 0xf800 = 0xf000 then [r0, 0] else [r0]
      | _ \<Rightarrow> args)"

definition show_call_t :: "u32 \<Rightarrow> u32 \<Rightarrow> u16 \<Rightarrow> nat list \<Rightarrow> print list" where
  "show_call_t base t a2 args =
     [(''bl%s_%x('', [PS (call_suffix a2), PW (base + t)])] @
     map (\<lambda>i. (''%s0x%02x'', [PS (if i = 0 then [] else '', ''), PN (args ! i)])) [0..<length args] @ [('')'', [])]"

definition lcd_call2 :: "byte list \<Rightarrow> nat \<Rightarrow> u32 \<Rightarrow> bool \<Rightarrow> nat \<Rightarrow> u32 \<Rightarrow> u16 \<Rightarrow> lcd_t \<Rightarrow> print list \<times> lcd_t option" where
  "lcd_call2 b size' base mode1 site t a2 s =
     (case call_args s of
        None \<Rightarrow> ([(''!!! 0x%x: unexpected call args'', [PN site])], None)
      | Some args \<Rightarrow>
          let args = short_call b size' t a2 args
          in case (if mode1 then lcd_call_t site t args s else (show_call_t base t a2 args, Some s)) of
               (ps, None) \<Rightarrow> (ps, None)
             | (ps, Some s) \<Rightarrow> (ps, Some (s\<lparr>regs := (\<lambda>i. if i < 4 then None else regs s i)\<rparr>)))"

section \<open>Instructions\<close>

definition lcd_step_t :: "byte list \<Rightarrow> nat \<Rightarrow> u32 \<Rightarrow> bool \<Rightarrow> nat \<Rightarrow> lcd_t \<Rightarrow> print list \<times> (nat \<times> lcd_t) option" where
  "lcd_step_t b size' base mode1 p s =
     (let fin = size' div 2 * 2
      in if \<not> p + 2 \<le> fin then ([], None)
      else let a = w16 b p; n = unat a; p = p + 2
      in if a AND 0xf800 = 0x2000 then
           (let d = n div 256 mod 8
            in if regs s d \<noteq> None then ([], None)
               else ([], Some (p, s\<lparr>regs := (regs s)(d \<mapsto> n mod 256)\<rparr>)))
         else if a AND 0xffc0 = 0 \<or> a AND 0xffc0 = 0x4600 then
           (let d = n mod 8; m = n div 8 mod 8
            in if regs s m = None then ([], None)
               else ([], Some (p, s\<lparr>regs := (regs s)(d := regs s m)\<rparr>)))
         else if a AND 0xf800 = 0xf000 then
           if \<not> p + 2 \<le> fin then ([], None)
           else let a2 = w16 b p; p = p + 2
           in case thumb_call a a2 of
                None \<Rightarrow> ([], None)
              | Some d \<Rightarrow> (case lcd_call2 b size' base mode1 (p - 4) (d + of_nat p) a2 s of
                    (ps, None) \<Rightarrow> (ps, None)
                  | (ps, Some s) \<Rightarrow> (ps, Some (p, s)))
         else if a AND 0xf800 = 0xe000 then
           if n mod 2048 \<ge> 1024 then ([], None)
           else let k = n mod 2048 + 1
           in if (fin - p) div 2 < k then ([(''!!! jump out of the buffer'', [])], None)
              else ([], Some (p + 2 * k, s))
         else ([(''!!! 0x%x: unknown op 0x%04x'', [PN (p - 2), PW (ucast a)])], None))"

lemma lcd_step_t_progress: "lcd_step_t b size' base mode1 p s = (ps, Some (p', s')) \<Longrightarrow> p < p' \<and> p' \<le> size'"
  by (auto simp: lcd_step_t_def Let_def split: if_splits prod.splits option.splits)

function lcd_run_t :: "byte list \<Rightarrow> nat \<Rightarrow> u32 \<Rightarrow> bool \<Rightarrow> nat \<Rightarrow> lcd_t \<Rightarrow> print list \<times> lcd_t" where
  "lcd_run_t b size' base mode1 p s =
     (case lcd_step_t b size' base mode1 p s of
        (ps, None) \<Rightarrow> (ps, s)
      | (ps, Some (p', s')) \<Rightarrow> (let (qs, t) = lcd_run_t b size' base mode1 p' s' in (ps @ qs, t)))"
  by pat_completeness auto

termination
  by (relation "measure (\<lambda>(b, size', base, mode1, p, s). size' - p)") (auto dest: lcd_step_t_progress [OF sym])

declare lcd_run_t.simps [simp del]

definition lcd_init_dec_t :: "byte list \<Rightarrow> nat \<Rightarrow> u32 \<Rightarrow> u32 \<Rightarrow> nat \<Rightarrow> print list" where
  "lcd_init_dec_t b size' base pos mode =
     (if pos < base then [(''!!! pos < base'', [])]
      else if mode \<ge> 2 then [(''!!! unknown mode'', [])]
      else if unat (pos - base) \<ge> size' then [(''!!! pos >= size'', [])]
      else let (ps, s) = lcd_run_t b size' base (mode = 1) (unat (pos - base) div 2 * 2) lcd0_t
        in ps @ (if mode = 1 then lcd_init_print (last_cmd s) (pending s) @ [(''LCM_END'', [])] else []))"

end
