(* ===== verification/T117LcdRt.thy ===== *)
theory T117LcdRt
  imports T117Lcd
begin

text \<open>
  The decoder of branches of fphelper_t117/main.c against the encoding of the instruction in
  the manual of the processor: every BL is decoded to its distance, and \<open>find_calls\<close> finds it.
\<close>

unbundle bit_operations_syntax

section \<open>The encoding of BL\<close>

text \<open>
  A branch over the distance \<open>d\<close> (even, 25 bits with the sign \<open>S\<close>): bits 21 to 12 and \<open>S\<close> go
  into the first half word, bits 11 to 1 into the second, with bits 23 and 22 as \<open>J1\<close> and \<open>J2\<close>,
  which are the negations of their exclusive or with \<open>S\<close>.
\<close>

definition bl_hi :: "u32 \<Rightarrow> u16" where
  "bl_hi d = 0xf000 OR (if bit d 24 then 0x400 else 0) OR ucast (drop_bit 12 d AND 0x3ff)"

definition bl_lo :: "u32 \<Rightarrow> u16" where
  "bl_lo d = 0xd000 OR (if bit d 23 = bit d 24 then 0x2000 else 0) OR (if bit d 22 = bit d 24 then 0x800 else 0) OR
     ucast (drop_bit 1 d AND 0x7ff)"

definition bl_range :: "u32 \<Rightarrow> bool" where
  "bl_range d = (\<not> bit d 0 \<and> signed_take_bit 24 d = d)"

lemma bit_pow: "w = 2 ^ k \<Longrightarrow> bit (w :: int) n \<longleftrightarrow> n = k"
  by (auto simp: bit_exp_iff)

lemma bit_consts:
  "bit (0x2000 :: int) n \<longleftrightarrow> n = 13" "bit (0x800 :: int) n \<longleftrightarrow> n = 11" "bit (0x1000 :: int) n \<longleftrightarrow> n = 12"
  "bit (0x400 :: int) n \<longleftrightarrow> n = 10"
  "bit (0x2800 :: int) n \<longleftrightarrow> n = 13 \<or> n = 11" "bit (0xf000 :: int) n \<longleftrightarrow> 12 \<le> n \<and> n < 16"
  "bit (0xd000 :: int) n \<longleftrightarrow> n = 12 \<or> n = 14 \<or> n = 15" "bit (0x3ff :: int) n \<longleftrightarrow> n < 10" "bit (0x7ff :: int) n \<longleftrightarrow> n < 11"
proof -
  show b: "bit (0x2000 :: int) n \<longleftrightarrow> n = 13" "bit (0x800 :: int) n \<longleftrightarrow> n = 11" "bit (0x1000 :: int) n \<longleftrightarrow> n = 12"
    "bit (0x400 :: int) n \<longleftrightarrow> n = 10" for n by (rule bit_pow; simp)+
  have c: "bit (0x4000 :: int) n \<longleftrightarrow> n = 14" "bit (0x8000 :: int) n \<longleftrightarrow> n = 15" by (rule bit_pow; simp)+
  have "(0x2800 :: int) = 0x2000 OR 0x800" "(0xf000 :: int) = 0x8000 OR 0x4000 OR 0x2000 OR 0x1000"
    "(0xd000 :: int) = 0x8000 OR 0x4000 OR 0x1000" "(0x3ff :: int) = mask 10" "(0x7ff :: int) = mask 11"
    by (simp_all add: mask_eq_exp_minus_1)
  then show "bit (0x2800 :: int) n \<longleftrightarrow> n = 13 \<or> n = 11" "bit (0xf000 :: int) n \<longleftrightarrow> 12 \<le> n \<and> n < 16"
    "bit (0xd000 :: int) n \<longleftrightarrow> n = 12 \<or> n = 14 \<or> n = 15" "bit (0x3ff :: int) n \<longleftrightarrow> n < 10" "bit (0x7ff :: int) n \<longleftrightarrow> n < 11"
    by (simp_all only: bit_or_iff b c bit_mask_iff) auto
qed

text \<open>The two bits that the decoder puts in, computed by an addition.\<close>

lemma thumb2_bits:
  "((NOT a AND 0x2800) + 0x800) AND 0x3000 =
     ((if bit a 13 then 0 else 0x2000) OR (if bit a 11 then 0 else 0x1000) :: u32)"
proof -
  have "NOT a AND 0x2800 = ((if bit a 13 then 0 else 0x2000) OR (if bit a 11 then 0 else 0x800) :: u32)"
    by (rule bit_word_eqI) (auto simp: bit_simps bit_consts)
  then show ?thesis by simp
qed
lemma bl_bits:
  "bit (bl_hi d) n \<longleftrightarrow> n < 10 \<and> bit d (12 + n) \<or> n = 10 \<and> bit d 24 \<or> 12 \<le> n \<and> n < 16"
  "bit (bl_lo d) n \<longleftrightarrow> n < 11 \<and> bit d (1 + n) \<or> n = 13 \<and> bit d 23 = bit d 24 \<or> n = 11 \<and> bit d 22 = bit d 24 \<or>
     n = 12 \<or> n = 14 \<or> n = 15"
proof -
  show "bit (bl_hi d) n \<longleftrightarrow> n < 10 \<and> bit d (12 + n) \<or> n = 10 \<and> bit d 24 \<or> 12 \<le> n \<and> n < 16"
    by (cases "n < 16") (auto simp: bl_hi_def bit_simps bit_consts)
  show "bit (bl_lo d) n \<longleftrightarrow> n < 11 \<and> bit d (1 + n) \<or> n = 13 \<and> bit d 23 = bit d 24 \<or> n = 11 \<and> bit d 22 = bit d 24 \<or>
     n = 12 \<or> n = 14 \<or> n = 15"
    by (cases "n < 16") (auto simp: bl_lo_def bit_simps bit_consts)
qed

lemma bl_form: "bl_hi d AND 0xf800 = 0xf000" "bl_lo d AND 0x1000 \<noteq> 0" "bl_lo d AND 0xd001 \<noteq> 0xc000"
proof -
  have "(0xf800 :: int) = 0xf000 OR 0x800" by simp
  then have c: "bit (0xf800 :: int) n \<longleftrightarrow> 11 \<le> n \<and> n < 16" for n by (simp only: bit_or_iff bit_consts) auto
  show "bl_hi d AND 0xf800 = 0xf000"
    by (rule bit_word_eqI) (auto simp: bit_simps bl_bits bit_consts c)
  have "bit (bl_lo d AND 0x1000) 12" "bit (bl_lo d AND 0xd001) 12" "\<not> bit (0xc000 :: u16) 12" "\<not> bit (0 :: u16) 12"
    by (simp_all add: bit_and_iff bl_bits)
  then show "bl_lo d AND 0x1000 \<noteq> 0" "bl_lo d AND 0xd001 \<noteq> 0xc000" by metis+
qed

lemma thumb_call_bl:
  assumes "bl_range d"
  shows "thumb_call (bl_hi d) (bl_lo d) = Some d"
proof -
  have s: "bit d n = bit d 24" if "24 \<le> n" "n < 32" for n
  proof -
    have "bit d n = bit (signed_take_bit 24 d) n" using assms by (simp add: bl_range_def)
    also have "\<dots> = bit d 24" using that by (auto simp: bit_simps min_def)
    finally show ?thesis .
  qed
  have c: "bit (0x800000 :: int) n \<longleftrightarrow> n = 23" "bit (0x400000 :: int) n \<longleftrightarrow> n = 22" for n by (rule bit_pow; simp)+
  have d0: "\<not> bit d 0" using assms by (simp add: bl_range_def)
  let ?A = "signed_drop_bit (21 - 12) (push_bit 21 (ucast (bl_hi d) :: u32))"
  let ?B = "push_bit 1 (ucast (bl_lo d) AND 0x7ff) :: u32"
  let ?C = "push_bit 10 (((NOT (ucast (bl_lo d)) AND 0x2800) + 0x800) AND 0x3000) :: u32"
  have A: "bit ?A n \<longleftrightarrow> 12 \<le> n \<and> (if n < 22 then bit d n else bit d 24)" if "n < 32" for n
    using that by (auto simp: bit_simps bl_bits)
  have B: "bit ?B n \<longleftrightarrow> 1 \<le> n \<and> n < 12 \<and> bit d n" if "n < 32" for n
    unfolding bit_push_bit_iff using that by (auto simp: bit_simps bl_bits bit_consts)
  have C: "bit ?C n \<longleftrightarrow> n = 23 \<and> bit d 23 \<noteq> bit d 24 \<or> n = 22 \<and> bit d 22 \<noteq> bit d 24" if "n < 32" for n
    unfolding thumb2_bits using that by (auto simp: bit_simps bl_bits bit_consts c)
  have "(?A OR ?B) XOR ?C = d"
  proof (rule bit_word_eqI)
    fix n assume "n < LENGTH(32)"
    then have n: "n < 32" by simp
    consider "n = 0" | "1 \<le> n" "n < 12" | "12 \<le> n" "n < 22" | "n = 22" | "n = 23" | "24 \<le> n" by linarith
    then show "bit ((?A OR ?B) XOR ?C) n = bit d n"
      unfolding bit_xor_iff bit_or_iff A [OF n] B [OF n] C [OF n] using s [of n] n d0 by cases auto
  qed
  then show ?thesis using bl_form [of d] by (simp add: thumb_call_def Let_def)
qed

text \<open>
  C27: \<open>find_calls\<close> misses no BL: when the image has at an even offset \<open>i\<close> the two half words that
  the processor takes as a branch over the distance \<open>d\<close>, and that leads to the target, the
  address of the instruction is printed.
\<close>

theorem find_calls_bl:
  assumes "even i" "i + 4 \<le> size'" "bl_range d" "w16 b i = bl_hi d" "w16 b (i + 2) = bl_lo d"
    and "base + of_nat i + 4 + d = target"
  shows "(''0x%x: bl%s'', [PW (base + of_nat i), PS []]) \<in> set (find_calls b size' base target)"
proof -
  obtain k where k: "i = 2 * k" using assms(1) by blast
  have "call_at b base target i = [(''0x%x: bl%s'', [PW (base + of_nat i), PS []])]"
    using assms(4-6) bl_form [of d] thumb_call_bl [OF assms(3)]
    by (simp add: call_at_def call_suffix_def algebra_simps)
  moreover have "k \<in> set [0..<(size' - 2) div 2]" using assms(2) k by auto
  ultimately have "\<exists>k \<in> set [0..<(size' - 2) div 2]. (''0x%x: bl%s'', [PW (base + of_nat i), PS []]) \<in>
      set (call_at b base target (2 * k))"
    by (intro bexI [of _ k]) (simp_all add: k)
  then show ?thesis using assms(2) by (simp add: find_calls_def del: set_upt)
qed

theorem find_calls_bl_witness:
  "(''0x%x: bl%s'', [PW 0x80000002, PS []]) \<in>
     set (find_calls [0, 0, 0xff, 0xf7, 0xfc, 0xff] 6 0x80000000 0x7ffffffe)"
proof -
  have "bl_range (- 8)" by (simp add: bl_range_def)
  moreover have "bl_hi (- 8) = 0xf7ff" "bl_lo (- 8) = 0xfffc" by (simp_all add: bl_hi_def bl_lo_def)
  ultimately show ?thesis
    using find_calls_bl [of 2 6 "- 8" "[0, 0, 0xff, 0xf7, 0xfc, 0xff]" "0x80000000" "0x7ffffffe"]
    by (simp add: w16_def READ16_LE_def u8at_def)
qed

end
