(* ===== verification/T117Helper.thy ===== *)
theory T117Helper
  imports T117Scan T117Lcd T117Nv FwDial
begin

text \<open>
  The dial codes and the command line of fphelper_t117/main.c. The tables of dial codes are
  read as in fphelper/main.c (\<open>FwDial\<close>), with another test for dial strings and more names;
  loading a file and running a decoder are the same code in both programs.
\<close>

unbundle bit_operations_syntax

definition is_dial_str_t :: dial_test where
  "is_dial_str_t b p len =
     (if u8at b p \<noteq> 0x23 \<and> u8at b p \<noteq> 0x2a then 0 else dial_len b p p (if len > 80 then 80 else len))"

definition code_names_t :: "(string \<times> string) list" where
  "code_names_t =
     [(''####0000#'', ''version 2''), (''####1040#'', ''net info''), (''####2222#'', ''serial''),
      (''#*8378#0#'', ''tests menu''), (''#*8378#1#'', ''eng menu''), (''#*8378#2#'', ''version 1''),
      (''#*8378#3#'', ''prod info''), (''#*8378#4#'', ''phone info''), (''#*8378#5#'', ''chip test''),
      (''#*8378#8#'', ''monkey test''), (''#*8378#9#'', ''tf update''), (''#*786646468#'', ''nv counting''),
      (''#*786837#'', ''svn version''), (''*#6789#'', ''oss licenses''),
      (''*#0000#'', ''nokia version''), (''*#6774#'', ''oss third party''), (''*#7370#'', ''factory reset''),
      (''#*858*#'', ''hardware info''), (''*#567765*#'', ''aging test''), (''#*8888*#'', ''version 3''),
      (''#*888*#'', ''version 4''), (''*#066#'', ''update imei'')]"

definition scan_user_t :: "byte list \<Rightarrow> u32 \<Rightarrow> u32 \<Rightarrow> unit tpm" where
  "scan_user_t b size' base = pr_all (scan_codes code_names_t is_dial_str_t b size' base)"

section \<open>The command line\<close>

definition loadfile_t :: "string \<Rightarrow> tph \<Rightarrow> byte list option" where
  "loadfile_t fn s = (case fp_files s fn of None \<Rightarrow> None | Some [] \<Rightarrow> None | Some bs \<Rightarrow> Some bs)"

definition uarg :: "string \<Rightarrow> u32" where "uarg str = ucast (fst (strtoull 0 str))"

text \<open>One command at the front of the arguments; the result is how many arguments it takes.\<close>

definition run_command_t :: "fpenv \<Rightarrow> byte list \<Rightarrow> string list \<Rightarrow> nat tpm" where
  "run_command_t E b argv = bnd (gets image_base) (\<lambda>base.
     let c = hd argv; n = unat (of_nat (length b) :: u32); dec = (\<lambda>f. thn (run_decoder E b argv f) (ret 4))
      in if c = ''scan'' then thn (scan_fw_t E b n False True) (ret 1)
         else if c = ''scan_nv'' then thn (pr_all (scan_nv b n)) (ret 1)
         else if c = ''scan_nv1'' then thn (pr_all (scan_nv1 b n)) (ret 1)
         else if c = ''scan_user''
         then thn (scan_user_t b (of_nat n) (if base \<noteq> 0 then base AND NOT 3 else 0x88000000)) (ret 1)
         else if c = ''unpack'' then thn (scan_fw_t E b n True True) (ret 1)
         else if c = ''base'' then
           if length argv \<le> 1 then err_exit ''bad command'' []
           else thn (modify (\<lambda>s. s\<lparr>image_base := uarg (argv ! 1)\<rparr>)) (ret 2)
         else if c = ''find_calls'' then
           if length argv \<le> 1 then err_exit ''bad command'' []
           else thn (pr_all (find_calls b n base (uarg (argv ! 1)))) (ret 2)
         else if c = ''lcd_init_dec'' then
           if length argv \<le> 2 then err_exit ''bad command'' []
           else thn (pr_all (lcd_init_dec_t b n base (uarg (argv ! 1)) (unat (word_of_int (atoi (argv ! 2)) :: u32)))) (ret 3)
         else if c = ''copy'' then dec Copy
         else if c = ''lzdec2'' then dec Lzdec2
         else if c = ''lzdec3'' then dec Lzdec3
         else err_exit ''unknown command'' [])"

fun run_commands_t :: "nat \<Rightarrow> fpenv \<Rightarrow> byte list \<Rightarrow> string list \<Rightarrow> unit tpm" where
  "run_commands_t 0 E b argv = (if argv = [] then ret () else no_fuel)"
| "run_commands_t (Suc k) E b argv =
     (if argv = [] then ret () else bnd (run_command_t E b argv) (\<lambda>n. run_commands_t k E b (drop n argv)))"

text \<open>\<open>argv\<close> is what follows the name of the program; there are fewer commands than arguments.\<close>

definition fphelper117_main :: "fpenv \<Rightarrow> string list \<Rightarrow> unit tpm" where
  "fphelper117_main E argv =
     (if length argv < 2 then err_exit ''Usage: %s flash.bin cmd args...'' []
      else bnd (gets (loadfile_t (hd argv))) (\<lambda>f. case f of
          None \<Rightarrow> err_exit ''loadfile failed'' []
        | Some b \<Rightarrow> run_commands_t (length argv) E b (tl argv)))"

end
