(* ===== verification/Regs.thy ===== *)
theory Regs
  imports FdlState
begin

text \<open>
  Memory-mapped registers, as both loaders use them (MEM1, MEM2 and MEM4 of common.h). What the
  hardware does is the parameter \<open>'h mmio\<close>: a volatile read may change it, a write does;
  \<open>hw_spins\<close> is how often a register is read before giving up. \<open>DELAY\<close> has no effect on the
  state.
\<close>

unbundle bit_operations_syntax

section \<open>Registers\<close>

record 'h mmio =
  rd1 :: "u32 \<Rightarrow> 'h \<Rightarrow> byte \<times> 'h"
  rd2 :: "u32 \<Rightarrow> 'h \<Rightarrow> u16 \<times> 'h"
  rd4 :: "u32 \<Rightarrow> 'h \<Rightarrow> u32 \<times> 'h"
  wr1 :: "u32 \<Rightarrow> byte \<Rightarrow> 'h \<Rightarrow> 'h"
  wr2 :: "u32 \<Rightarrow> u16 \<Rightarrow> 'h \<Rightarrow> 'h"
  wr4 :: "u32 \<Rightarrow> u32 \<Rightarrow> 'h \<Rightarrow> 'h"
  hw_spins :: nat

record 'h hws = dls +
  hdev :: 'h

type_synonym ('h, 'x, 'a) hm = "(('h, 'x) hws_scheme, 'a) cm"

definition volatile :: "('h \<Rightarrow> 'a \<times> 'h) \<Rightarrow> ('h, 'x, 'a) hm" where
  "volatile f = (\<lambda>s. case f (hdev s) of (v, h) \<Rightarrow> Ret v (s\<lparr>hdev := h\<rparr>))"

definition MEM1 :: "('h, 'b) mmio_scheme \<Rightarrow> u32 \<Rightarrow> ('h, 'x, byte) hm" where "MEM1 M a = volatile (rd1 M a)"
definition MEM2 :: "('h, 'b) mmio_scheme \<Rightarrow> u32 \<Rightarrow> ('h, 'x, u16) hm" where "MEM2 M a = volatile (rd2 M a)"
definition MEM4 :: "('h, 'b) mmio_scheme \<Rightarrow> u32 \<Rightarrow> ('h, 'x, u32) hm" where "MEM4 M a = volatile (rd4 M a)"

definition set1 :: "('h, 'b) mmio_scheme \<Rightarrow> u32 \<Rightarrow> byte \<Rightarrow> ('h, 'x, unit) hm" where
  "set1 M a v = modify (\<lambda>s. s\<lparr>hdev := wr1 M a v (hdev s)\<rparr>)"

definition set2 :: "('h, 'b) mmio_scheme \<Rightarrow> u32 \<Rightarrow> u16 \<Rightarrow> ('h, 'x, unit) hm" where
  "set2 M a v = modify (\<lambda>s. s\<lparr>hdev := wr2 M a v (hdev s)\<rparr>)"

definition set4 :: "('h, 'b) mmio_scheme \<Rightarrow> u32 \<Rightarrow> u32 \<Rightarrow> ('h, 'x, unit) hm" where
  "set4 M a v = modify (\<lambda>s. s\<lparr>hdev := wr4 M a v (hdev s)\<rparr>)"

text \<open>\<open>MEM4(a) |= v\<close> and \<open>MEM4(a) &= v\<close>.\<close>

definition or1 :: "('h, 'b) mmio_scheme \<Rightarrow> u32 \<Rightarrow> byte \<Rightarrow> ('h, 'x, unit) hm" where
  "or1 M a v = bnd (MEM1 M a) (\<lambda>x. set1 M a (x OR v))"

definition or4 :: "('h, 'b) mmio_scheme \<Rightarrow> u32 \<Rightarrow> u32 \<Rightarrow> ('h, 'x, unit) hm" where
  "or4 M a v = bnd (MEM4 M a) (\<lambda>x. set4 M a (x OR v))"

definition and4 :: "('h, 'b) mmio_scheme \<Rightarrow> u32 \<Rightarrow> u32 \<Rightarrow> ('h, 'x, unit) hm" where
  "and4 M a v = bnd (MEM4 M a) (\<lambda>x. set4 M a (x AND v))"

text \<open>Statements one after the other.\<close>

definition steps :: "('s, unit) cm list \<Rightarrow> ('s, unit) cm" where
  "steps ms = foldr thn ms (ret ())"

text \<open>\<open>while (!c);\<close>\<close>

fun spin :: "nat \<Rightarrow> ('s, bool) cm \<Rightarrow> ('s, unit) cm" where
  "spin 0 c = no_fuel"
| "spin (Suc n) c = bnd c (\<lambda>ok. if ok then ret () else spin n c)"

section \<open>Register accesses return and change the hardware only\<close>

lemmas [returns] = returns_any

lemma returns_mem [returns]:
  "returns (MEM1 M a) (\<lambda>_. True)" "returns (MEM2 M a) (\<lambda>_. True)" "returns (MEM4 M a) (\<lambda>_. True)"
  "returns (set1 M a b) (\<lambda>_. True)" "returns (set2 M a w) (\<lambda>_. True)" "returns (set4 M a v) (\<lambda>_. True)"
  by (auto simp: returns_def wp_def MEM1_def MEM2_def MEM4_def set1_def set2_def set4_def volatile_def modify_def
      split: prod.split)

lemma returns_upd [returns]: "returns (or4 M a v) (\<lambda>_. True)" "returns (and4 M a v) (\<lambda>_. True)"
  unfolding or4_def and4_def by (intro returns TrueI)+

lemma returns_steps: "list_all (\<lambda>m. returns m (\<lambda>_. True)) ms \<Longrightarrow> returns (steps ms) (\<lambda>_. True)"
  by (induction ms) (simp_all add: steps_def returns_thn returns_ret)

text \<open>\<open>hw_only m\<close>: when \<open>m\<close> returns, nothing but the hardware has changed.\<close>

definition hw_only :: "('h, 'x, 'a) hm \<Rightarrow> bool" where
  "hw_only m = (\<forall>s. wlp m (\<lambda>_ t. \<exists>d. t = s\<lparr>hdev := d\<rparr>) s)"

named_theorems hw_only \<open>statements that change the hardware only\<close>

lemma hw_only_ret [hw_only]: "hw_only (ret a)"
  unfolding hw_only_def wlp_ret
proof
  fix s :: "('h, 'x) hws_scheme"
  show "\<exists>d. s = s\<lparr>hdev := d\<rparr>" by (rule exI [of _ "hdev s"]) simp
qed

lemma hw_only_no_fuel [hw_only]: "hw_only no_fuel"
  by (simp add: hw_only_def wlp_simps)

lemma hw_only_bnd [hw_only]:
  assumes "hw_only m" "\<And>a. hw_only (f a)"
  shows "hw_only (bnd m f)"
  unfolding hw_only_def wlp_bnd
proof
  fix s :: "('a, 'b) hws_scheme"
  show "wlp m (\<lambda>a. wlp (f a) (\<lambda>_ t. \<exists>d. t = s\<lparr>hdev := d\<rparr>)) s"
  proof (rule wlp_mono)
    show "wlp m (\<lambda>_ t. \<exists>d. t = s\<lparr>hdev := d\<rparr>) s" using assms(1) by (simp add: hw_only_def)
  next
    fix a t
    assume "\<exists>d. t = s\<lparr>hdev := d\<rparr>"
    then obtain d where t: "t = s\<lparr>hdev := d\<rparr>" ..
    have "wlp (f a) (\<lambda>_ u. \<exists>d. u = t\<lparr>hdev := d\<rparr>) t" using assms(2) by (simp add: hw_only_def)
    then show "wlp (f a) (\<lambda>_ u. \<exists>d. u = s\<lparr>hdev := d\<rparr>) t" by (rule wlp_mono) (auto simp: t)
  qed
qed

lemma hw_only_thn [hw_only]: "hw_only m \<Longrightarrow> hw_only n \<Longrightarrow> hw_only (thn m n)"
  unfolding thn_def by (rule hw_only_bnd)

lemma hw_only_if [hw_only]: "(b \<Longrightarrow> hw_only m) \<Longrightarrow> (\<not> b \<Longrightarrow> hw_only n) \<Longrightarrow> hw_only (if b then m else n)"
  by simp

lemma hw_only_volatile: "hw_only (volatile f)"
  by (auto simp: hw_only_def wlp_def volatile_def split: prod.split)

lemma hw_only_mem [hw_only]:
  "hw_only (MEM1 M a)" "hw_only (MEM2 M a)" "hw_only (MEM4 M a)"
  by (simp_all add: MEM1_def MEM2_def MEM4_def hw_only_volatile)

lemma hw_only_set [hw_only]: "hw_only (set1 M a b)" "hw_only (set2 M a w)" "hw_only (set4 M a v)"
  by (auto simp: hw_only_def wlp_modify set1_def set2_def set4_def)

lemma hw_only_upd [hw_only]: "hw_only (or4 M a v)" "hw_only (and4 M a v)"
  unfolding or4_def and4_def by (intro hw_only)+

lemma hw_only_steps: "list_all hw_only ms \<Longrightarrow> hw_only (steps ms)"
  by (induction ms) (simp_all add: steps_def hw_only_thn hw_only_ret)

text \<open>The statements of a \<open>steps\<close>, one by one.\<close>

lemma each_of:
  "list_all P []" "P m \<Longrightarrow> list_all P ms \<Longrightarrow> list_all P (m # ms)"
  "list_all P ms \<Longrightarrow> list_all P ns \<Longrightarrow> list_all P (ms @ ns)"
  "(\<And>x. P (f x)) \<Longrightarrow> list_all P (map f xs)" "(\<And>x y. P (g (x, y))) \<Longrightarrow> list_all P (map g ps)"
  by (auto simp: list_all_iff)

lemmas returns_each = returns_steps each_of TrueI
lemmas hw_only_each = hw_only_steps each_of

lemma spin_step:
  "c s = Ret True t \<Longrightarrow> spin (Suc n) c s = Ret () t" "c s = Ret False t \<Longrightarrow> spin (Suc n) c s = spin n c t"
  by (simp_all add: bnd_def ret_def)

end
