(* ===== verification/T117Hw.thy ===== *)
theory T117Hw
  imports Regs
begin

text \<open>
  The hardware of the UMS9117 as its loader sees it (t117_fdl/common.h, entry.c, efuse.h):
  timer, the bus to the power chip, clocks and power, the fuses, on the registers of \<open>Regs\<close>.
\<close>

unbundle bit_operations_syntax

section \<open>Time and the bus to the power chip\<close>

definition sys_timer_ms :: "('h, 'b) mmio_scheme \<Rightarrow> ('h, 'x, u32) hm" where
  "sys_timer_ms M = MEM4 M 0x4023000c"

definition sys_wait_ms :: "('h, 'b) mmio_scheme \<Rightarrow> u32 \<Rightarrow> ('h, 'x, unit) hm" where
  "sys_wait_ms M delay = bnd (sys_timer_ms M) (\<lambda>start.
     spin (hw_spins M) (bnd (sys_timer_ms M) (\<lambda>t. ret (\<not> t - start < delay))))"

fun adi_poll :: "('h, 'b) mmio_scheme \<Rightarrow> nat \<Rightarrow> ('h, 'x, u32) hm" where
  "adi_poll M 0 = no_fuel"
| "adi_poll M (Suc n) = bnd (MEM4 M 0x4060002c) (\<lambda>a. if sint a < 0 then adi_poll M n else ret (a AND 0xffff))"

definition adi_read :: "('h, 'b) mmio_scheme \<Rightarrow> u32 \<Rightarrow> ('h, 'x, u32) hm" where
  "adi_read M addr = thn (set4 M 0x40600028 addr) (adi_poll M (hw_spins M))"

text \<open>The wait of \<open>adi_write\<close>: \<open>n\<close> counts down, and the time since \<open>t0\<close> is limited.\<close>

fun adi_wait :: "('h, 'b) mmio_scheme \<Rightarrow> u32 \<Rightarrow> nat \<Rightarrow> ('h, 'x, bool) hm" where
  "adi_wait M t0 0 = ret False"
| "adi_wait M t0 (Suc n) = bnd (MEM4 M 0x40600030) (\<lambda>a.
     if a AND 0x800 = 0 then ret True
     else bnd (sys_timer_ms M) (\<lambda>t. if t - t0 > 3 \<or> n = 0 then ret False else adi_wait M t0 n))"

definition adi_write :: "('h, 'b) mmio_scheme \<Rightarrow> u32 \<Rightarrow> u32 \<Rightarrow> ('h, 'x, int) hm" where
  "adi_write M addr val = bnd (sys_timer_ms M) (\<lambda>t0. bnd (adi_wait M t0 1000) (\<lambda>ok.
     if ok then thn (set4 M addr val) (ret 0) else ret (- 1)))"

section \<open>Power and clocks\<close>

definition init_pmu0 :: "('h, 'b) mmio_scheme \<Rightarrow> ('h, 'x, unit) hm" where
  "init_pmu0 M = steps
     [or4 M 0x40410014 1,
      and4 M 0x402b009c (NOT 0x300), or4 M 0x402b009c 0x100,
      and4 M 0x402b00a0 (NOT 0x300), or4 M 0x402b00a0 0x100]"

definition init_pmu1 :: "('h, 'b) mmio_scheme \<Rightarrow> ('h, 'x, unit) hm" where
  "init_pmu1 M = (let b = 0x402b0000 in steps
     [or4 M (b + 0x80) 0x33, and4 M (b + 0x84) (NOT 0x13), or4 M (b + 0x8c) 0x33,
      and4 M (b + 0x90) (NOT 0x13), or4 M (b + 0x94) 1, or4 M (b + 0x98) 0x10,
      or4 M (b + 0x9c) 2, and4 M (b + 0x9c) (NOT 1), or4 M (b + 0xa0) 0x33,
      and4 M (b + 0xa8) (NOT 0x20), or4 M (b + 0xac) 0x33])"

definition init_dbg_freq :: "('h, 'b) mmio_scheme \<Rightarrow> u32 \<Rightarrow> ('h, 'x, unit) hm" where
  "init_dbg_freq M freq = bnd (MEM4 M 0x20e00038) (\<lambda>a.
     let a = a AND NOT 0x70707; q = (freq - 1) div 500000000
     in thn (set4 M 0x20e00038 (a OR q OR push_bit 8 q OR push_bit 16 q)) (or4 M 0x402d0270 3))"

text \<open>The index of the first entry of \<open>tab\<close> that is not below \<open>t0\<close>; the last one is \<open>~0\<close>.\<close>

fun freq_index :: "u32 list \<Rightarrow> u32 \<Rightarrow> u32" where
  "freq_index [] t0 = 0"
| "freq_index (t # ts) t0 = (if t < t0 then 1 + freq_index ts t0 else 0)"

definition mcu_divider :: "u32 \<Rightarrow> u32" where
  "mcu_divider freq =
     (let t0 = freq div 1000000; t1 = t0 div 26
      in push_bit 23 (t1 AND 0x7f) OR push_bit 23 (t0 - t1 * 26) div 26)"

definition init_mcu_freq :: "('h, 'b) mmio_scheme \<Rightarrow> u32 \<Rightarrow> ('h, 'x, unit) hm" where
  "init_mcu_freq M freq = bnd (MEM4 M 0x403f0000) (\<lambda>a0. bnd (MEM4 M 0x403f0004) (\<lambda>a1.
     let i = freq_index [936, 1248, NOT 0] (freq div 1000000)
     in thn (set4 M 0x403f0000 ((a0 AND NOT 0xc0) OR 5 OR push_bit 6 i))
       (set4 M 0x403f0004 ((a1 AND 0xc0000000) OR mcu_divider freq))))"

definition init_mcu :: "('h, 'b) mmio_scheme \<Rightarrow> ('h, 'x, unit) hm" where
  "init_mcu M = (let freq = 1000000000 in steps
     [or4 M 0x402d0300 3, init_dbg_freq M freq, init_mcu_freq M freq,
      set4 M 0x20e00054 3, or4 M 0x21500020 3, or4 M 0x402d0220 3, or4 M 0x402d02f8 1])"

definition init_freq :: "('h, 'b) mmio_scheme \<Rightarrow> ('h, 'x, unit) hm" where
  "init_freq M = steps
     [or4 M 0x402e00b0 0x2800, and4 M 0x21500020 (NOT 3), and4 M 0x402d0300 (NOT 3),
      init_pmu0 M, init_pmu1 M, init_mcu M, set4 M 0x402e2004 0x30]"

definition init_uart :: "('h, 'b) mmio_scheme \<Rightarrow> ('h, 'x, unit) hm" where
  "init_uart M = (let b = 0x70100000; baud = 115200; a = (26000000 + drop_bit 1 baud) div baud in steps
     [set4 M (b + 0x10) 0, or4 M 0x71300000 0x6000, set4 M (b + 0x24) (a AND 0xffff),
      set4 M (b + 0x28) (drop_bit 16 a), set4 M (b + 0x18) 28, set4 M (b + 0x1c) 0, set4 M (b + 0x20) 0])"

definition init_timer :: "('h, 'b) mmio_scheme \<Rightarrow> ('h, 'x, unit) hm" where
  "init_timer M = steps [or4 M 0x402e0000 0x400, or4 M 0x402e0010 8]"

text \<open>\<open>MEM4(a) &= ~0xffffff; MEM4(a) |= v;\<close>\<close>

definition low24 :: "('h, 'b) mmio_scheme \<Rightarrow> u32 \<Rightarrow> u32 \<Rightarrow> ('h, 'x, unit) hm" where
  "low24 M a v = thn (and4 M a (NOT 0xffffff)) (or4 M a v)"

definition init_pmu2 :: "('h, 'b) mmio_scheme \<Rightarrow> ('h, 'x, unit) hm" where
  "init_pmu2 M = (let b = 0x402b0000 in steps
     [low24 M b 0x11004, set4 M (b + 0x70) 0x2222, set4 M (b + 0x74) 0x101,
      low24 M (b + 0x18) 0x10106, low24 M (b + 0x28) 0x10204, low24 M (b + 0x34) 0x10402,
      low24 M (b + 0x38) 0x10501, low24 M (b + 0x3c) 0x10303, low24 M (b + 0x44) 0x10105,
      low24 M (b + 0x5c) 0x10101, set4 M (b + 0x78) 0x8080808, set4 M (b + 0x7c) 0x80800,
      set4 M (b + 0x17c) 0x80808, set4 M (b + 0x180) 0x800, set4 M (b + 0x338) 0, set4 M (b + 0x33c) 0x7F,
      set4 M (b + 0x340) 1, set4 M (b + 0x344) 0x10101,
      bnd (MEM4 M (b + 0x35c)) (\<lambda>a. set4 M (b + 0x35c) ((a AND 0xf) OR 0x10))])"

definition init_adi :: "('h, 'b) mmio_scheme \<Rightarrow> ('h, 'x, unit) hm" where
  "init_adi M = steps
     [set4 M 0x402e1000 0x10000, set4 M 0x40600008 0, set4 M 0x4060000c 0,
      or4 M 0x40600024 0x80000000, and4 M 0x40600020 (NOT 0x40000000)]"

text \<open>The results of \<open>adi_write\<close> are dropped.\<close>

definition adi_update :: "('h, 'b) mmio_scheme \<Rightarrow> u32 \<Rightarrow> (u32 \<Rightarrow> u32) \<Rightarrow> ('h, 'x, unit) hm" where
  "adi_update M a f = bnd (adi_read M a) (\<lambda>v. thn (adi_write M a (f v)) (ret ()))"

definition init_adi_por :: "('h, 'b) mmio_scheme \<Rightarrow> ('h, 'x, unit) hm" where
  "init_adi_por M = steps
     [adi_update M 0x40608e38 (\<lambda>v. v AND NOT 0x100), adi_update M 0x40608e38 (\<lambda>v. v AND NOT 1)]"

definition init_adi_wdg :: "('h, 'b) mmio_scheme \<Rightarrow> ('h, 'x, unit) hm" where
  "init_adi_wdg M = steps [adi_update M 0x40608c08 (\<lambda>v. v OR 4), adi_update M 0x40608c10 (\<lambda>v. v OR 4)]"

section \<open>The fuses\<close>

definition EFUSE_BASE :: u32 where "EFUSE_BASE = 0x40240000"

definition efuse_init :: "('h, 'b) mmio_scheme \<Rightarrow> ('h, 'x, unit) hm" where
  "efuse_init M = steps [or4 M 0x402e0000 0x2000, or4 M 0x402e0008 0x4000, and4 M 0x402e0008 (NOT 0x4000)]"

definition efuse_off :: "('h, 'b) mmio_scheme \<Rightarrow> ('h, 'x, unit) hm" where
  "efuse_off M = and4 M 0x402e0000 (NOT 0x2000)"

definition efuse_read :: "('h, 'b) mmio_scheme \<Rightarrow> u32 \<Rightarrow> u32 \<Rightarrow> ('h, 'x, u32) hm" where
  "efuse_read M i dbl_bit =
     thn (steps [set4 M (EFUSE_BASE + 0x48) 0xffff, or4 M (EFUSE_BASE + 0x50) 2,
       set4 M (EFUSE_BASE + 0x40) (1 OR push_bit 2 dbl_bit), or4 M (EFUSE_BASE + 0x54) 4])
     (bnd (MEM4 M (EFUSE_BASE + (0x1000 + i * 4))) (\<lambda>r.
       thn (and4 M (EFUSE_BASE + 0x54) (NOT 4)) (ret r)))"

end
