(* ===== verification/T117Ram.thy ===== *)
theory T117Ram
  imports T117Hw
begin

text \<open>
  Setting up the DRAM of the UMS9117 (t117_fdl/sdram_init.c): clock, calibration of the
  drivers, timing, delay lines, power-up, the self-test of the controller and the training of
  the write and read strobes with it. A wait for the hardware gives up after \<open>hw_spins\<close>
  reads; the wait of the self-test has a limit of its own in the code.
\<close>

unbundle bit_operations_syntax

section \<open>Fields of registers\<close>

definition insert_bits :: "u32 \<Rightarrow> nat \<Rightarrow> nat \<Rightarrow> u32 \<Rightarrow> u32" where
  "insert_bits orig sh n val =
     (let m = push_bit n 1 - 1 in (orig AND NOT (push_bit sh m)) OR push_bit sh (val AND m))"

definition insert_bits_mem :: "('h, 'b) mmio_scheme \<Rightarrow> u32 \<Rightarrow> nat \<Rightarrow> nat \<Rightarrow> u32 \<Rightarrow> ('h, 'x, unit) hm" where
  "insert_bits_mem M addr sh n val = bnd (MEM4 M addr) (\<lambda>a. set4 M addr (insert_bits a sh n val))"

text \<open>\<open>tmp = MEM4(addr); tmp = insert_bits(tmp, ...); ... MEM4(addr) = tmp;\<close>\<close>

definition put_fields :: "(nat \<times> nat \<times> u32) list \<Rightarrow> u32 \<Rightarrow> u32" where
  "put_fields fs a = foldl (\<lambda>a (sh, n, val). insert_bits a sh n val) a fs"

definition put_fields_mem :: "('h, 'b) mmio_scheme \<Rightarrow> u32 \<Rightarrow> (nat \<times> nat \<times> u32) list \<Rightarrow> ('h, 'x, unit) hm" where
  "put_fields_mem M addr fs = bnd (MEM4 M addr) (\<lambda>a. set4 M addr (put_fields fs a))"

fun dmc_print_str :: "('h, 'b) mmio_scheme \<Rightarrow> string \<Rightarrow> ('h, 'x, unit) hm" where
  "dmc_print_str M [] = ret ()"
| "dmc_print_str M (c # cs) =
     thn (spin (hw_spins M) (bnd (MEM4 M 0x7010000c) (\<lambda>a. ret (a AND 0xff00 = 0))))
    (thn (set4 M 0x70100000 (of_nat (of_char c))) (dmc_print_str M cs))"

definition print_line :: "('h, 'b) mmio_scheme \<Rightarrow> string \<Rightarrow> ('h, 'x, unit) hm" where
  "print_line M msg = dmc_print_str M (msg @ [CHR 0x0A])"

section \<open>Tables\<close>

definition ddr_clk_array :: "u32 list" where "ddr_clk_array = [256, 384, 533]"
definition DDR_DLL_CFG :: u32 where "DDR_DLL_CFG = 8"
definition DDR_DRV_CFG :: u32 where "DDR_DRV_CFG = 15"
definition DRAM_LPDDR2 :: u32 where "DRAM_LPDDR2 = 0x101"

record local_timing =
  lt_freq :: u32
  lt_data :: "u32 list"

definition dmc_local_timing_lpddr2 :: "local_timing list" where
  "dmc_local_timing_lpddr2 =
     [\<lparr>lt_freq = 256, lt_data = [0x42060404, 0x03070501, 0x34182039, 0x31080c0a, 0x00070000, 0x000f7700, 0x000f0000,
         0x000c0000, 0x003f0002, 0x003f0002, 0x003c0002, 0x01a83f02, 0x07d21808, 0x00060066]\<rparr>,
      \<lparr>lt_freq = 384, lt_data = [0x43090606, 0x03080700, 0x4f232c55, 0x5208131d, 0x000a0101, 0x001e7700, 0x001e0000,
         0x00180000, 0x00ff0004, 0x00ff0004, 0x00fc0004, 0x02583d04, 0x0bc28808, 0x00090099]\<rparr>,
      \<lparr>lt_freq = 533, lt_data = [0x250c0909, 0x03090802, 0x2e303836, 0x73081a16, 0x000c0202, 0x001e7701, 0x001e0001,
         0x00180001, 0x00ff0006, 0x00ff0006, 0x00f80006, 0x03283d06, 0x10428808, 0x000d00d5]\<rparr>]"

section \<open>Clock and calibration\<close>

definition sdram_clk_init :: "('h, 'b) mmio_scheme \<Rightarrow> u32 \<Rightarrow> ('h, 'x, unit) hm" where
  "sdram_clk_init M freq = steps
     [insert_bits_mem M 0x402e008c 11 8 (if freq = 533 then 12 else if freq = 384 then 11 else 9),
      insert_bits_mem M 0x402e00ac 0 1 1, insert_bits_mem M 0x402e008c 0 1 1, insert_bits_mem M 0x402e008c 0 1 0]"

text \<open>What it returns is used nowhere.\<close>

definition dmc_sprd_delay :: "('h, 'b) mmio_scheme \<Rightarrow> nat \<Rightarrow> ('h, 'x, unit) hm" where
  "dmc_sprd_delay M n = steps (replicate (n * 2) (thn (MEM4 M 0x402b00c4) (ret ())))"

text \<open>
  A loop of \<open>dmc_zq_cal\<close>: as long as the comparator (bit 17) is \<open>want\<close>, the strength in the
  field at \<open>sh\<close> is changed by \<open>d\<close>. The result is the strength at the end.
\<close>

fun zq_search :: "('h, 'b) mmio_scheme \<Rightarrow> nat \<Rightarrow> nat \<Rightarrow> bool \<Rightarrow> u32 \<Rightarrow> u32 \<Rightarrow> u32 \<Rightarrow> ('h, 'x, u32) hm" where
  "zq_search M 0 sh want d tmp cnt = no_fuel"
| "zq_search M (Suc k) sh want d tmp cnt = bnd (MEM4 M 0x30000008) (\<lambda>a.
     if bit a 17 \<noteq> want then ret cnt
     else let tmp = insert_bits tmp sh 5 (cnt + d)
       in thn (set4 M 0x30000008 tmp) (thn (dmc_sprd_delay M 1) (zq_search M k sh want d tmp (cnt + d))))"

definition zq_from :: "('h, 'b) mmio_scheme \<Rightarrow> nat \<Rightarrow> bool \<Rightarrow> u32 \<Rightarrow> u32 \<Rightarrow> u32 \<Rightarrow> ('h, 'x, u32) hm" where
  "zq_from M sh want d tmp cnt =
     (let tmp = insert_bits tmp sh 5 cnt
      in thn (set4 M 0x30000008 tmp) (zq_search M (hw_spins M) sh want d tmp cnt))"

definition zq_store :: "('h, 'b) mmio_scheme \<Rightarrow> u32 \<Rightarrow> u32 \<Rightarrow> u32 \<Rightarrow> ('h, 'x, unit) hm" where
  "zq_store M addr drvp drvn = bnd (MEM4 M addr) (\<lambda>a.
     set4 M addr (insert_bits (insert_bits (a OR push_bit 21 1) 0 5 drvp) 8 5 drvn))"

definition dmc_zq_cal :: "('h, 'b) mmio_scheme \<Rightarrow> u32 \<Rightarrow> ('h, 'x, unit) hm" where
  "dmc_zq_cal M target_drv =
     (let r = 0x30000008; off = NOT (push_bit 15 1); on = push_bit 15 1
      in bnd (MEM4 M r) (\<lambda>a.
      thn (set4 M r (insert_bits (a AND NOT (push_bit 16 1)) 10 5 target_drv))
     (thn (dmc_sprd_delay M 2)
     (bnd (MEM4 M r) (\<lambda>a. bnd (zq_from M 0 True 1 (a AND off) 0) (\<lambda>inc.
      bnd (MEM4 M r) (\<lambda>a. bnd (zq_from M 0 False (- 1) (a AND off) 31) (\<lambda>deinc.
      let drvn = drop_bit 1 (inc + deinc)
      in bnd (MEM4 M r) (\<lambda>a.
      let tmp = insert_bits a 0 5 drvn
      in thn (set4 M r tmp)
     (bnd (zq_from M 5 False 1 (tmp OR on) 0) (\<lambda>inc.
      bnd (MEM4 M r) (\<lambda>a. bnd (zq_from M 5 True (- 1) (a OR on) 31) (\<lambda>deinc.
      let drvp = drop_bit 1 (inc + deinc)
      in bnd (MEM4 M r) (\<lambda>a.
      thn (set4 M r (insert_bits a 5 5 drvp))
     (thn (or4 M r (push_bit 16 1))
     (thn (zq_store M 0x30000390 drvp drvn) (zq_store M 0x30000490 drvp drvn)))))))))))))))))"

section \<open>Timing and delay lines\<close>

fun search_for_freq_point :: "local_timing list \<Rightarrow> u32 \<Rightarrow> int" where
  "search_for_freq_point [] freq = - 1"
| "search_for_freq_point (p # ps) freq =
     (if lt_freq p = freq then 0
      else let j = search_for_freq_point ps freq in if j < 0 then - 1 else j + 1)"

definition write_timing :: "('h, 'b) mmio_scheme \<Rightarrow> u32 \<Rightarrow> u32 list \<Rightarrow> ('h, 'x, unit) hm" where
  "write_timing M b ws = steps (map (\<lambda>(k, w). set4 M (b + 4 * of_nat k) w) (enumerate 0 ws))"

fun timing_rows :: "('h, 'b) mmio_scheme \<Rightarrow> nat \<Rightarrow> u32 list \<Rightarrow> ('h, 'x, unit) hm" where
  "timing_rows M i [] = ret ()"
| "timing_rows M i (f # fs) =
     (let j = search_for_freq_point dmc_local_timing_lpddr2 f
      in if j < 0 then ret ()
         else thn (write_timing M (0x30000200 + push_bit 6 (of_nat i)) (lt_data (dmc_local_timing_lpddr2 ! nat j)))
           (timing_rows M (i + 1) fs))"

text \<open>It returns -1 also when it has written everything; its caller drops that.\<close>

definition lpddr_timing_pre_init :: "('h, 'b) mmio_scheme \<Rightarrow> u32 \<Rightarrow> u32 list \<Rightarrow> ('h, 'x, int) hm" where
  "lpddr_timing_pre_init M type freq_arr =
     (if type \<noteq> DRAM_LPDDR2 then ret (- 1) else thn (timing_rows M 0 freq_arr) (ret (- 1)))"

definition dram_ddr_init_pre_setting :: "('h, 'b) mmio_scheme \<Rightarrow> u32 \<Rightarrow> ('h, 'x, int) hm" where
  "dram_ddr_init_pre_setting M freq =
     thn (steps [put_fields_mem M 0x30000004 [(0, 3, 1), (16, 3, 1), (20, 6, 0)],
       insert_bits_mem M 0x3000000c 0 15 0, insert_bits_mem M 0x30000100 17 1 1])
    (thn (lpddr_timing_pre_init M DRAM_LPDDR2 ddr_clk_array)
    (case (if freq = 256 then Some 0 else if freq = 384 then Some 1 else if freq = 533 then Some 2 else None) of
       None \<Rightarrow> ret (- 1)
     | Some a \<Rightarrow>
         thn (steps [insert_bits_mem M 0x3000012c 4 2 a,
           put_fields_mem M 0x30000000 [(0, 3, 1), (14, 2, 1), (4, 3, 2)],
           put_fields_mem M 0x30000100 [(8, 1, 0), (17, 1, 1), (7, 1, 0), (4, 3, 2)]])
         (ret 0)))"

text \<open>The registers of the frequency point that is selected: \<open>a + (i << 6)\<close>.\<close>

definition freq_reg :: "('h, 'b) mmio_scheme \<Rightarrow> u32 \<Rightarrow> ('h, 'x, u32) hm" where
  "freq_reg M a = bnd (MEM4 M 0x3000012c) (\<lambda>i. ret (a + push_bit 6 (drop_bit 4 i AND 3)))"

definition get_clk_mode :: "('h, 'b) mmio_scheme \<Rightarrow> ('h, 'x, u32) hm" where
  "get_clk_mode M = bnd (freq_reg M 0x30000230) (\<lambda>r. bnd (MEM4 M r) (\<lambda>a. ret (drop_bit 15 a AND 1)))"

definition get_half_mode :: "('h, 'b) mmio_scheme \<Rightarrow> ('h, 'x, u32) hm" where
  "get_half_mode M = bnd (freq_reg M 0x3000022c) (\<lambda>r. bnd (MEM4 M r) (\<lambda>a. ret (drop_bit 8 a AND 1)))"

definition set_half_mode :: "('h, 'b) mmio_scheme \<Rightarrow> u32 \<Rightarrow> ('h, 'x, unit) hm" where
  "set_half_mode M mode = bnd (freq_reg M 0x3000022c) (\<lambda>r. insert_bits_mem M r 8 1 mode)"

definition lpddr_dll_init :: "('h, 'b) mmio_scheme \<Rightarrow> ('h, 'x, unit) hm" where
  "lpddr_dll_init M = steps
     [set4 M 0x30000308 0x80000008, set4 M 0x30000300 0x6a22c401,
      set4 M 0x30000408 0x80000008, set4 M 0x3000040c 0x80000006, set4 M 0x30000410 0x80000006, set4 M 0x30000400 0x6a22c401,
      set4 M 0x30000508 0x80000008, set4 M 0x3000050c 0x80000006, set4 M 0x30000510 0x80000006, set4 M 0x30000500 0x6a22c401]"

definition dmc_dll_init :: "('h, 'b) mmio_scheme \<Rightarrow> u32 \<Rightarrow> ('h, 'x, int) hm" where
  "dmc_dll_init M cfg =
     (let b = 0x30000000
      in thn (lpddr_dll_init M)
        (thn (spin (hw_spins M) (bnd (MEM4 M (b + 0x304)) (\<lambda>x. bnd (MEM4 M (b + 0x404)) (\<lambda>y. bnd (MEM4 M (b + 0x504)) (\<lambda>z.
           ret (x AND y AND z AND 0x10000000 \<noteq> 0))))))
        (bnd (MEM4 M (b + 0x300)) (\<lambda>a.
         let tmp = put_fields [(9, 2, 3), (12, 1, 1), (14, 2, 3), (27, 1, 1), (0, 7, cfg)] a
         in thn (steps [set4 M (b + 0x300) tmp, set4 M (b + 0x400) tmp, set4 M (b + 0x500) tmp]) (ret 0)))))"

record 'h rams = "'h hws" +
  ui_qrt_dly_data :: "nat \<Rightarrow> u32"
  t117_chip_id :: u32

type_synonym ('h, 'x, 'a) rm = "(('h, 'x) rams_scheme, 'a) cm"

definition ui_qtr_dly_cnt_init :: "('h, 'b) mmio_scheme \<Rightarrow> ('h, 'x, unit) rm" where
  "ui_qtr_dly_cnt_init M = bnd (get_half_mode M) (\<lambda>old_mode.
     thn (set_half_mode M 0)
    (thn (dmc_dll_init M DDR_DLL_CFG)
    (thn (dmc_sprd_delay M 10)
    (bnd (get_clk_mode M) (\<lambda>clk_mode.
     thn (steps (map (\<lambda>i. bnd (MEM4 M (0x30000304 + push_bit 8 (of_nat i))) (\<lambda>a.
         let tmp = a AND 0x7f; tmp = (if clk_mode = 1 then drop_bit 1 tmp else tmp)
         in modify (\<lambda>s. s\<lparr>ui_qrt_dly_data := (ui_qrt_dly_data s)(i := push_bit 2 tmp)\<rparr>))) [0..<3]))
      (set_half_mode M old_mode))))))"

section \<open>Power-up\<close>

definition dmc_mrw :: "('h, 'b) mmio_scheme \<Rightarrow> nat \<Rightarrow> u32 \<Rightarrow> u32 \<Rightarrow> ('h, 'x, unit) hm" where
  "dmc_mrw M cs mr_addr val =
     thn (insert_bits_mem M 0x30000108 0 8 val)
    (bnd (MEM4 M 0x30000104) (\<lambda>a.
     let a = (if cs = 0 then (a OR push_bit 31 1) AND NOT (push_bit 28 1)
              else if cs = 1 then (a AND NOT (push_bit 31 1)) OR push_bit 28 1
              else a OR push_bit 31 1)
     in set4 M 0x30000104 (insert_bits (a OR push_bit 24 1) 0 16 mr_addr)))"

text \<open>Two refreshes are asked for, each with a wait.\<close>

definition dmc_refresh :: "('h, 'b) mmio_scheme \<Rightarrow> ('h, 'x, unit) hm" where
  "dmc_refresh M = thn (set4 M 0x30000104 0x80200000)
     (spin (hw_spins M) (bnd (MEM4 M 0x30000104) (\<lambda>a. ret (drop_bit 20 a AND 0x7f = 0))))"

definition lpddr_powerup_init :: "('h, 'b) mmio_scheme \<Rightarrow> u32 \<Rightarrow> ('h, 'x, int) hm" where
  "lpddr_powerup_init M freq =
     (let tmp = (if freq = 533 then 6 else if freq = 384 then 4 else 2)
      in thn (steps [set4 M 0x3000000c 0, or4 M 0x30000100 (push_bit 14 1), dmc_sprd_delay M 500,
           dmc_mrw M 3 63 0, dmc_sprd_delay M 10, dmc_mrw M 0 10 0xff, dmc_mrw M 1 10 0xff, dmc_sprd_delay M 500,
           or4 M 0x30000490 (push_bit 24 3), dmc_mrw M 0 2 tmp, set4 M 0x30000108 (push_bit 5 tmp OR 3),
           set4 M 0x30000104 0x81000001, set4 M 0x3000000c 0x7fff, dmc_refresh M, dmc_refresh M])
        (ret 0))"

definition dmc_init_post_setting :: "('h, 'b) mmio_scheme \<Rightarrow> ('h, 'x, unit) hm" where
  "dmc_init_post_setting M = steps
     [insert_bits_mem M 0x30000234 0 16 1024, insert_bits_mem M 0x30000274 0 16 1536, insert_bits_mem M 0x300002b4 0 16 2132,
      put_fields_mem M 0x30000124 [(16, 4, 15), (0, 3, 5), (4, 4, 15), (8, 4, 15)],
      put_fields_mem M 0x30000114 [(0, 24, 0x1ff0), (24, 1, 0)],
      put_fields_mem M 0x30000118 [(26, 2, 2), (24, 1, 0)],
      put_fields_mem M 0x3000010c [(12, 1, 1), (15, 1, 0)],
      put_fields_mem M 0x3000012c [(0, 4, 15), (17, 1, 1), (20, 12, 0)],
      insert_bits_mem M 0x3000000C 0 15 0x7fff, insert_bits_mem M 0x30000100 16 1 1, dmc_sprd_delay M 1,
      insert_bits_mem M 0x30000100 16 1 0, insert_bits_mem M 0x30000000 4 6 3, dmc_mrw M 2 1 35,
      insert_bits_mem M 0x30000000 8 1 1, insert_bits_mem M 0x30000100 12 1 1,
      insert_bits_mem M 0x402b00d0 6 1 1, insert_bits_mem M 0x402b00d0 2 1 0]"

definition dmc_port_qos_cfg0 :: "('h, 'b) mmio_scheme \<Rightarrow> u32 \<Rightarrow> u32 \<Rightarrow> u32 \<Rightarrow> u32 \<Rightarrow> ('h, 'x, unit) hm" where
  "dmc_port_qos_cfg0 M addr a b c = put_fields_mem M addr [(0, 4, a), (16, 8, b), (24, 8, c)]"

definition dmc_port_qos_cfg1 :: "('h, 'b) mmio_scheme \<Rightarrow> u32 \<Rightarrow> u32 \<Rightarrow> u32 \<Rightarrow> u32 \<Rightarrow> ('h, 'x, unit) hm" where
  "dmc_port_qos_cfg1 M addr a b c = put_fields_mem M addr [(0, 4, a), (16, 10, b), (31, 1, c)]"

definition port_para :: "(u32 \<times> u32 \<times> u32) list" where
  "port_para = [(7, 0, 0), (7, 0, 0), (0xe, 0x44, 0x44), (0xe, 0, 0), (0xd, 0x44, 0x44), (0xd, 0, 0), (9, 0, 0), (9, 0, 0)]"

definition port_qos :: "('h, 'b) mmio_scheme \<Rightarrow> nat \<Rightarrow> ('h, 'x, unit) hm" where
  "port_qos M i = (case port_para ! i of (a, b, c) \<Rightarrow>
     (if even i then dmc_port_qos_cfg0 else dmc_port_qos_cfg1) M (0x30000020 + of_nat i * 4) a b c)"

definition dmc_pub_qos_init :: "('h, 'b) mmio_scheme \<Rightarrow> ('h, 'x, unit) hm" where
  "dmc_pub_qos_init M = steps (map (port_qos M) [0, 2, 4, 6] @ map (port_qos M) [1, 3, 5, 7] @
     [put_fields_mem M 0x30000000 [(16, 11, 400), (27, 1, 0), (9, 2, 3)],
      set4 M 0x30000128 0xc0003000, set4 M 0x300e32ec 0xccadcc55, set4 M 0x20e000a4 0x55005566,
      set4 M 0x20e000b8 0x55550055, set4 M 0x20e000bc 0xff550000,
      insert_bits_mem M 0x20e03058 0 24 0x555555, insert_bits_mem M 0x60830074 12 4 9,
      put_fields_mem M 0x60830078 [(20, 4, 12), (12, 4, 9), (0, 4, 9)], insert_bits_mem M 0x6083007c 12 4 9,
      put_fields_mem M 0x60830080 [(20, 4, 12), (12, 4, 9), (0, 4, 9)]])"

section \<open>The self-test\<close>

definition trans_addr_to_jedec_addr :: "u32 \<Rightarrow> u32" where
  "trans_addr_to_jedec_addr off =
     (let dw = 16; cols = push_bit 10 1; banks = 8; cs = 0; off = off div (dw div 8);
          col = off mod cols; off = off div cols; bank = off mod banks; row = off div banks
      in push_bit 16 row OR push_bit 15 cs OR push_bit 12 bank OR col)"

definition bist_pattern :: "u32 list" where
  "bist_pattern = [0xeeef7bde, 0x4210db6e, 0x92488888, 0xc7878787, 0x33331c71, 0x55, 0, 0]"

definition sipi_bist_set_pattern :: "('h, 'b) mmio_scheme \<Rightarrow> u32 list \<Rightarrow> ('h, 'x, unit) hm" where
  "sipi_bist_set_pattern M src = steps (map (\<lambda>i. set4 M (0x3000019c + of_nat i * 4) (src ! i)) [0..<8])"

text \<open>\<open>while (n > 0 && !(MEM4(0x30000180) & 4)) n--;\<close>\<close>

fun bist_wait :: "('h, 'b) mmio_scheme \<Rightarrow> nat \<Rightarrow> ('h, 'x, nat) hm" where
  "bist_wait M 0 = ret 0"
| "bist_wait M (Suc n) = bnd (MEM4 M 0x30000180) (\<lambda>a. if a AND 4 \<noteq> 0 then ret (Suc n) else bist_wait M n)"

text \<open>The start address that the code computes is overwritten with 0 before it is used.\<close>

definition sipi_bist_types_test :: "('h, 'b) mmio_scheme \<Rightarrow> u32 \<Rightarrow> ('h, 'x, int) hm" where
  "sipi_bist_types_test M type =
     (let r = 0x30000180; chip_size = push_bit 20 64; len = (if 0x40000 > chip_size then chip_size else 0x40000)
      in bnd (MEM4 M 0x30000000) (\<lambda>a.
      let tmp = drop_bit 4 a AND 7; burst = push_bit (unat tmp) 1
      in if tmp > 4 then ret (- 3)
      else thn (steps [set4 M 0x30000198 0, set4 M 0x30000184 (drop_bit 2 len), set4 M 0x30000188 0, set4 M 0x3000018c 0])
        (bnd (MEM4 M r) (\<lambda>a.
         let t1 = insert_bits (a OR push_bit 13 1 OR 1) 16 10 burst; t2 = insert_bits (t1 AND NOT (push_bit 13 1)) 8 2 type
         in thn (steps [set4 M r t1, set4 M r t2, put_fields_mem M r [(12, 2, 0), (4, 2, 0), (0, 2, 3)]])
           (bnd (MEM4 M 0x30000184) (\<lambda>a. bnd (bist_wait M (unat ((a - 1) * 2))) (\<lambda>n.
            thn (and4 M r (NOT 1))
             (if n < 1 then ret (- 2) else bnd (MEM4 M r) (\<lambda>a. ret (if a AND 8 \<noteq> 0 then 0 else - 1))))))))))"

definition sipi_bist_simple_test :: "('h, 'b) mmio_scheme \<Rightarrow> ('h, 'x, int) hm" where
  "sipi_bist_simple_test M = sipi_bist_types_test M 1"

section \<open>Training\<close>

definition reset_dmc_fifo :: "('h, 'b) mmio_scheme \<Rightarrow> ('h, 'x, unit) hm" where
  "reset_dmc_fifo M = thn (or4 M 0x30000100 0x10000) (and4 M 0x30000100 (NOT 0x10000))"

definition dqin_bit_offset_adjust :: "('h, 'b) mmio_scheme \<Rightarrow> u32 \<Rightarrow> ('h, 'x, unit) hm" where
  "dqin_bit_offset_adjust M x =
     (let x = x AND 0x1f; x = x OR push_bit 8 x; x = x OR push_bit 16 x
      in steps (map (\<lambda>a. set4 M a x)
        [0x30000420, 0x30000520, 0x30000620, 0x30000720, 0x30000424, 0x30000524, 0x30000624, 0x30000724]))"

definition dqs_right_shift :: "('h, 'b) mmio_scheme \<Rightarrow> u32 \<Rightarrow> ('h, 'x, unit) hm" where
  "dqs_right_shift M x =
     (let x = (if x > 31 then 31 else x)
      in steps (map (\<lambda>a. insert_bits_mem M a 0 5 x) [0x30000428, 0x30000528, 0x30000628, 0x30000728]))"

text \<open>The value of the delay register: the distance from the default, with its sign.\<close>

definition dll_offset :: "bool \<Rightarrow> u32 \<Rightarrow> int \<Rightarrow> u32" where
  "dll_offset half def delay =
     (let cnt = 4 * (drop_bit 8 def AND 0x7f); cnt = uint (if half then cnt else drop_bit 1 cnt);
          (off, sign) = (if cnt > delay then (cnt - delay, 3) else (delay - cnt, 2))
      in put_fields [(30, 2, sign), (16, 7, word_of_int (off div 4)), (28, 2, word_of_int off)] def)"

definition set_dqs_dll_with_offset :: "('h, 'b) mmio_scheme \<Rightarrow> u32 list \<Rightarrow> u32 list \<Rightarrow> int list \<Rightarrow> int \<Rightarrow> ('h, 'x, unit) hm" where
  "set_dqs_dll_with_offset M dst def mid init = bnd (get_half_mode M) (\<lambda>half_mode.
     steps (map (\<lambda>i. let b = 0x30000400 + of_nat i * 0x100 in steps
       [set4 M (dst ! i) (dll_offset (half_mode \<noteq> 0) (def ! i) (mid ! i - init)),
        or4 M b 0x800, dmc_sprd_delay M 10, and4 M b (NOT 0x800), reset_dmc_fifo M,
        thn (MEM4 M (dst ! i)) (ret ())]) [0..<2]))"

definition bist_mask :: "u32 list list" where
  "bist_mask = [[0xff00ff00, 0x00ff00ff], [0xffffff00, 0xffff00ff], [0xff00ffff, 0x00ffffff]]"

text \<open>
  The search of both trainings: the delays from \<open>j\<close> on are tested, \<open>n\<close> are left; \<open>first\<close> is the
  start of the range that passes, or -1. A failure ends the search when the range before it
  is long enough. The results are \<open>first\<close> and \<open>last\<close>.
\<close>

fun train_scan :: "(int \<Rightarrow> ('s, int) cm) \<Rightarrow> nat \<Rightarrow> int \<Rightarrow> int \<Rightarrow> ('s, int \<times> int) cm" where
  "train_scan test 0 j first = ret (first, j - 1)"
| "train_scan test (Suc n) j first = bnd (test j) (\<lambda>r.
     if r \<noteq> 0 then
       if first \<ge> 0 \<and> (j - 1) - first > 16 then ret (first, j - 1) else train_scan test n (j + 1) (- 1)
     else train_scan test n (j + 1) (if first < 0 then j else first))"

definition wde_point :: "('h, 'b) mmio_scheme \<Rightarrow> u32 \<Rightarrow> int \<Rightarrow> int \<Rightarrow> ('h, 'x, int) hm" where
  "wde_point M r n j =
     thn (if j \<ge> n - 8 then dqs_right_shift M 0 else ret ())
    (thn (set4 M r (word_of_int (if j \<ge> n - 8 then j - 8 else j)))
    (thn (reset_dmc_fifo M) (sipi_bist_types_test M 2)))"

text \<open>One of the two byte lanes: the middle of the range, \<open>None\<close> if there is none.\<close>

definition wde_lane :: "('h, 'b) mmio_scheme \<Rightarrow> nat \<Rightarrow> u32 \<Rightarrow> u32 \<Rightarrow> ('h, 'x, int option) rm" where
  "wde_lane M i r old =
     thn (set4 M 0x30000194 (bist_mask ! 0 ! i))
    (thn (dqs_right_shift M 31)
    (bnd (gets (\<lambda>s. unat (drop_bit 2 (ui_qrt_dly_data s (1 + i))) + 8)) (\<lambda>n.
     bnd (train_scan (wde_point M r (int n)) n 0 (- 1)) (\<lambda>(first, last).
     thn (set4 M r old)
     (if first < 0 then ret None
      else thn (reset_dmc_fifo M) (ret (Some ((first + last) * 4 div 2 - 32))))))))"

definition dmc_lpddr3_wde_training :: "('h, 'b) mmio_scheme \<Rightarrow> ('h, 'x, int) rm" where
  "dmc_lpddr3_wde_training M =
     bnd (MEM4 M 0x30000194) (\<lambda>old. bnd (MEM4 M 0x30000408) (\<lambda>v0. bnd (MEM4 M 0x30000508) (\<lambda>v1.
     bnd (wde_lane M 0 0x30000408 v0) (\<lambda>m0.
     bnd (if m0 = None then ret None else wde_lane M 1 0x30000508 v1) (\<lambda>m1.
     thn (set4 M 0x30000194 old)
    (thn (if m0 \<noteq> None \<and> m1 \<noteq> None
          then set_dqs_dll_with_offset M [0x30000408, 0x30000508] [v0, v1] [the m0, the m1] 0 else ret ())
    (thn (dqs_right_shift M 0)
    (thn (reset_dmc_fifo M) (ret 0)))))))))"

definition rde_point :: "('h, 'b) mmio_scheme \<Rightarrow> u32 \<Rightarrow> int \<Rightarrow> ('h, 'x, int) hm" where
  "rde_point M r j = thn (set4 M r (word_of_int j)) (thn (reset_dmc_fifo M) (sipi_bist_types_test M 2))"

definition rde_lane :: "('h, 'b) mmio_scheme \<Rightarrow> nat \<Rightarrow> nat \<Rightarrow> u32 \<Rightarrow> u32 \<Rightarrow> ('h, 'x, int option) hm" where
  "rde_lane M neg i r old =
     thn (set4 M 0x30000194 (bist_mask ! (1 + neg) ! i))
    (bnd (train_scan (rde_point M r) 128 0 (- 1)) (\<lambda>(first, last).
     thn (set4 M r old)
     (if first < 0 \<or> last - first < 16 then ret None
      else thn (reset_dmc_fifo M) (ret (Some ((first + last) * 4 div 2))))))"

definition dmc_lpddr3_rde_training :: "('h, 'b) mmio_scheme \<Rightarrow> nat \<Rightarrow> ('h, 'x, int) hm" where
  "dmc_lpddr3_rde_training M neg =
     (let r0 = 0x3000040c + of_nat neg * 4; r1 = 0x3000050c + of_nat neg * 4
      in bnd (MEM4 M 0x30000194) (\<lambda>old. bnd (MEM4 M r0) (\<lambda>v0. bnd (MEM4 M r1) (\<lambda>v1.
      thn (dqin_bit_offset_adjust M 28)
     (bnd (rde_lane M neg 0 r0 v0) (\<lambda>m0.
      bnd (if m0 = None then ret None else rde_lane M neg 1 r1 v1) (\<lambda>m1.
      thn (set4 M 0x30000194 old)
     (thn (dqin_bit_offset_adjust M 0)
     (thn (if m0 \<noteq> None \<and> m1 \<noteq> None
           then set_dqs_dll_with_offset M [r0, r1] [v0, v1] [the m0, the m1] 28 else ret ())
     (thn (reset_dmc_fifo M) (ret 0)))))))))))"

section \<open>The whole set-up\<close>

definition failed :: "('h, 'b) mmio_scheme \<Rightarrow> string \<Rightarrow> ('h, 'x, int) hm" where
  "failed M what = thn (print_line M (what @ '' failed'')) (ret (- 1))"

definition ddr_scan_online :: "('h, 'b) mmio_scheme \<Rightarrow> u32 \<Rightarrow> ('h, 'x, int) rm" where
  "ddr_scan_online M freq =
     bnd (sipi_bist_simple_test M) (\<lambda>r.
     thn (if r \<noteq> 0 then print_line M ''sipi_bist_simple_test first failed'' else ret ())
     (if freq \<noteq> ddr_clk_array ! 2 then ret 0
      else thn (steps (map (\<lambda>i. set4 M (0x30000180 + of_nat i * 4) 0xffff) [7..<14]))
     (bnd (dmc_lpddr3_wde_training M) (\<lambda>r. if r \<noteq> 0 then failed M ''dmc_lpddr3_wde_training'' else
      bnd (dmc_lpddr3_rde_training M 0) (\<lambda>r. if r \<noteq> 0 then failed M ''dmc_lpddr3_rde_training_pos'' else
      bnd (dmc_lpddr3_rde_training M 1) (\<lambda>r. if r \<noteq> 0 then failed M ''dmc_lpddr3_rde_training_neg'' else
      thn (sipi_bist_set_pattern M bist_pattern)
     (bnd (sipi_bist_simple_test M) (\<lambda>r. if r \<noteq> 0 then failed M ''sipi_bist_simple_test last'' else ret 0))))))))"

text \<open>\<open>tmp = adi_read(0x40608e30)\<close>: is the training wanted?\<close>

definition wants_scan :: "('h, 'b) mmio_scheme \<Rightarrow> ('h, 'x, bool) hm" where
  "wants_scan M = bnd (adi_read M 0x40608e30) (\<lambda>tmp.
     if tmp AND 0x1000 = 0 \<or> tmp AND 0x80 \<noteq> 0 then bnd (adi_read M 0x40608050) (\<lambda>a. ret (a AND 8 = 0)) else ret False)"

definition sdram_init :: "('h, 'b) mmio_scheme \<Rightarrow> ('h, 'x, int) rm" where
  "sdram_init M =
     (let ddr_clk = ddr_clk_array ! 2
      in thn (steps [set4 M 0x402b0130 0, print_line M ''DDR init start'', print_line M ''sdram_clk_init begin'',
           sdram_clk_init M ddr_clk, dmc_zq_cal M DDR_DRV_CFG])
      (bnd (dram_ddr_init_pre_setting M ddr_clk) (\<lambda>r. if r \<noteq> 0 then ret (- 3) else
       thn (if ddr_clk = ddr_clk_array ! 2 then ui_qtr_dly_cnt_init M else ret ())
      (bnd (dmc_dll_init M DDR_DLL_CFG) (\<lambda>r. if r \<noteq> 0 then ret (- 4) else
       thn (print_line M ''dmc_dll_init end'')
      (bnd (lpddr_powerup_init M ddr_clk) (\<lambda>r. if r \<noteq> 0 then ret (- 5) else
       thn (steps [print_line M ''lpddr_powerup_init end'', dmc_init_post_setting M, print_line M ''dmc_init_post_setting end'',
         dmc_pub_qos_init M, print_line M ''qos init end''])
      (bnd (wants_scan M) (\<lambda>scan. bnd (if scan then ddr_scan_online M ddr_clk else ret 0) (\<lambda>r. if r \<noteq> 0 then ret (- 6) else
       thn (steps [or4 M 0x30000100 0x1000, set4 M 0x402b2230 0x400, set4 M 0x402b0130 1, or4 M 0x402b0250 1,
         print_line M ''DDR init OK''])
       (ret 0)))))))))))"

section \<open>The start of the loader\<close>

text \<open>
  \<open>init_chip\<close> of entry.c: the result is the address of the stack; \<open>fdl2\<close> and \<open>mode\<close> are the
  build options FDL2 and SDRAM_INIT, \<open>None\<close> stands for the endless loop after a failure.
\<close>

definition init_chip :: "('h, 'b) mmio_scheme \<Rightarrow> bool \<Rightarrow> nat \<Rightarrow> ('h, 'x, u32 option) rm" where
  "init_chip M fdl2 mode = bnd (MEM4 M 0x402e00fc) (\<lambda>a.
     thn (modify (\<lambda>s. s\<lparr>t117_chip_id := a\<rparr>))
     (if fdl2 then ret (Some 0x80100000)
      else thn (steps [init_freq M, init_uart M, init_timer M, init_pmu2 M, init_adi M, init_adi_por M, init_adi_wdg M])
        (bnd (if mode = 1 then sdram_init M else ret 0) (\<lambda>r.
          ret (if r \<noteq> 0 then None else Some 0x12000)))))"

end
