(* ===== verification/T117Usb.thy ===== *)
theory T117Usb
  imports T117Ram
begin

text \<open>
  The USB channel of the UMS9117 loader (t117_fdl/usbio.c, channel.c): bulk transfers by DMA.
  The controller finds a descriptor (\<open>usb_trans_t\<close>) in memory, and the data it points to;
  \<open>clean_dcache_range\<close> (assembly) is the parameter \<open>dma_put\<close>, which lets the device see bytes,
  and \<open>invalidate_dcache_range\<close> lets the processor see what the device has stored, \<open>dma_get\<close>.
  The handler starts the next transfer into the same buffer at once; the model keeps the bytes
  as they were when the cache was invalidated.
\<close>

unbundle bit_operations_syntax

definition DMA_BUFSIZE :: u32 where "DMA_BUFSIZE = 12800"

record 'h usb117 = "'h mmio" +
  dma_put :: "u32 \<Rightarrow> byte list \<Rightarrow> 'h \<Rightarrow> 'h"
  dma_get :: "u32 \<Rightarrow> nat \<Rightarrow> 'h \<Rightarrow> byte list"
  recv_buf_at :: u32
  recv_trans_at :: u32
  send_trans_at :: u32
  usb_junk :: "nat \<Rightarrow> byte"
  fdl2 :: bool

record 'h usbt = "'h rams" +
  usb_size64 :: bool
  usb_recv_idx :: u32
  usb_recv_len :: u32
  usb_recv_buf :: mem
  usb_send_trans :: "byte list"
  usb_recv_trans :: "byte list"
  config_desc :: "byte list"
  usb_open :: bool

type_synonym ('h, 'x, 'a) ut = "(('h, 'x) usbt_scheme, 'a) cm"

text \<open>\<open>usb_trans_t\<close> in memory.\<close>

definition trans_bytes :: "u32 \<Rightarrow> u32 \<Rightarrow> u32 \<Rightarrow> u32 \<Rightarrow> byte list" where
  "trans_bytes ptr len1 len2 flg = WRITE32_LE ptr @ WRITE16_LE len1 @ WRITE16_LE len2 @ WRITE32_LE flg"

definition clean_dcache_range :: "('h, 'b) usb117_scheme \<Rightarrow> u32 \<Rightarrow> byte list \<Rightarrow> ('h, 'x, unit) ut" where
  "clean_dcache_range M a bs = modify (\<lambda>s. s\<lparr>hdev := dma_put M a bs (hdev s)\<rparr>)"

definition invalidate_recv_buf :: "('h, 'b) usb117_scheme \<Rightarrow> u32 \<Rightarrow> ('h, 'x, unit) ut" where
  "invalidate_recv_buf M n = modify (\<lambda>s.
     s\<lparr>usb_recv_buf := blit (usb_recv_buf s) 0 (dma_get M (recv_buf_at M) (unat n) (hdev s))\<rparr>)"

section \<open>Set-up\<close>

definition RECV_CH :: u32 where "RECV_CH = 0x20201be0 + (15 + 6) * 32"

definition usr_start_recv :: "('h, 'b) usb117_scheme \<Rightarrow> ('h, 'x, unit) ut" where
  "usr_start_recv M = steps
     [or4 M (RECV_CH + 8) 0x14, set4 M (RECV_CH + 0x14) (recv_trans_at M), or4 M (RECV_CH + 4) 1]"

definition dev_desc :: "byte list" where
  "dev_desc = [0x12, 0x01, 0x00, 0x02, 0x00, 0x00, 0x00, 0x40, 0x82, 0x17, 0x00, 0x4d, 0xff, 0xff, 0x00, 0x00, 0x00, 0x01]"

definition config_desc_init :: "byte list" where
  "config_desc_init =
     [0x09, 0x02, 0x20, 0x00, 0x01, 0x01, 0x00, 0xc0, 0x32,
      0x09, 0x04, 0x00, 0x00, 0x02, 0xff, 0x00, 0x00, 0x00,
      0x07, 0x05, 0x85, 0x02, 0x00, 0x02, 0x00,
      0x07, 0x05, 0x06, 0x02, 0x00, 0x02, 0x00]"

definition usb_ep_config :: "('h, 'b) usb117_scheme \<Rightarrow> ('h, 'x, unit) ut" where
  "usb_ep_config M = bnd (gets (\<lambda>s. if usb_size64 s then 64 else 0x200)) (\<lambda>n.
     let b = 0x20200000 in steps
     [set1 M (b + 0xe) 5, set2 M (b + 0x6) 0x21, set2 M (b + 0x8) 0x40, set1 M (b + 0x62) 0x17, set2 M (b + 0x64) 0x108,
      set2 M (b + 0x150) n, set1 M (b + 0x152) 0x48, set1 M (b + 0x153) 0x20, or1 M (b + 0x153) 0x94,
      set1 M (b + 0xe) 6, set1 M (b + 0x63) 0x17, set2 M (b + 0x66) 8, set2 M (b + 0x164) n, set1 M (b + 0x166) 0x90,
      or1 M (b + 0x167) 0xa8])"

section \<open>Requests on endpoint 0\<close>

definition EP0_FIFO :: u32 where "EP0_FIFO = 0x20200020"
definition EP0_CSR :: u32 where "EP0_CSR = 0x20200012"

definition put_fifo :: "('h, 'b) usb117_scheme \<Rightarrow> byte list \<Rightarrow> ('h, 'x, unit) ut" where
  "put_fifo M bs = steps (map (set1 M EP0_FIFO) bs)"

definition desc64 :: "byte list \<Rightarrow> byte list" where
  "desc64 d = d[9 + 9 + 4 := 64, 9 + 9 + 5 := 0, 9 + 9 + 7 + 4 := 64, 9 + 9 + 7 + 5 := 0]"

definition usb_send_desc :: "('h, 'b) usb117_scheme \<Rightarrow> (nat \<Rightarrow> byte) \<Rightarrow> ('h, 'x, unit) ut" where
  "usb_send_desc M buf =
     (let n = unat (buf 6)
      in thn (or1 M EP0_CSR 0x40)
        (if buf 3 = 1 then thn (put_fifo M (take n dev_desc)) (or1 M EP0_CSR 0x0a)
         else if buf 3 = 2 then
           thn (modify (\<lambda>s. if usb_size64 s then s\<lparr>config_desc := desc64 (config_desc s)\<rparr> else s))
          (bnd (gets config_desc) (\<lambda>d. thn (put_fifo M (take n d)) (or1 M EP0_CSR 0x0a)))
         else ret ()))"

text \<open>\<open>MEM1(0x20200012) |= 0x48; while (!(MEM2(0x20200002) & 1));\<close>\<close>

definition ep0_ack :: "('h, 'b) usb117_scheme \<Rightarrow> ('h, 'x, unit) ut" where
  "ep0_ack M = thn (or1 M EP0_CSR 0x48) (spin (hw_spins M) (bnd (MEM2 M 0x20200002) (\<lambda>a. ret (a AND 1 \<noteq> 0))))"

text \<open>
  \<open>buf[i++] = ...\<close> in a loop that counts \<open>i\<close> as well: only every second byte of the request is
  read; the others are what the stack holds, \<open>usb_junk\<close>.
\<close>

definition read_setup :: "('h, 'b) usb117_scheme \<Rightarrow> ('h, 'x, nat \<Rightarrow> byte) ut" where
  "read_setup M =
     bnd (MEM1 M EP0_FIFO) (\<lambda>b0. bnd (MEM1 M EP0_FIFO) (\<lambda>b2. bnd (MEM1 M EP0_FIFO) (\<lambda>b4. bnd (MEM1 M EP0_FIFO) (\<lambda>b6.
       ret ((usb_junk M)(0 := b0, 2 := b2, 4 := b4, 6 := b6))))))"

definition usb_sys_events :: "('h, 'b) usb117_scheme \<Rightarrow> ('h, 'x, unit) ut" where
  "usb_sys_events M = bnd (MEM1 M EP0_CSR) (\<lambda>a.
     if a AND 1 = 0 then ret ()
     else bnd (read_setup M) (\<lambda>buf.
       if buf 0 AND 0x60 \<noteq> 0 then
         thn (ep0_ack M) (if buf 0 AND 0x7f = 0x21 \<and> buf 2 \<noteq> 0 then thn (usb_ep_config M) (usr_start_recv M) else ret ())
       else if buf 1 \<noteq> 0 then
         if buf 1 = 5 then thn (ep0_ack M) (set1 M 0x20200000 (buf 2))
         else if buf 1 = 6 then usb_send_desc M buf
         else if buf 1 = 9 then ep0_ack M
         else ret ()
       else let n = unat (buf 6) OR push_bit 8 (unat (buf 7))
         in thn (or1 M EP0_CSR 0x40) (thn (put_fifo M (replicate n 0)) (or1 M EP0_CSR 0x0a))))"

section \<open>Receiving\<close>

definition usb_handler :: "('h, 'b) usb117_scheme \<Rightarrow> ('h, 'x, bool) ut" where
  "usb_handler M =
     bnd (MEM1 M 0x2020000a) (\<lambda>a.
     thn (if a AND 4 \<noteq> 0
          then bnd (MEM1 M 0x20200001) (\<lambda>v. modify (\<lambda>s. s\<lparr>usb_size64 := (v AND 0x10 = 0)\<rparr>)) else ret ())
    (bnd (MEM4 M 0x20201e88) (\<lambda>sts.
     bnd (MEM2 M 0x20200002) (\<lambda>a.
     thn (if a AND 1 \<noteq> 0 then thn (set1 M 0x2020000e 0) (usb_sys_events M) else ret ())
     (if sts AND 0x40000 = 0 then ret False
      else thn (or4 M (RECV_CH + 8) 0x14000000)
        (bnd (MEM4 M 0x20201e90) (\<lambda>v.
         let n = DMA_BUFSIZE - drop_bit 16 v
         in thn (modify (\<lambda>s. s\<lparr>usb_recv_len := n, usb_recv_idx := 0\<rparr>))
           (thn (invalidate_recv_buf M n)
           (thn (usr_start_recv M) (ret True))))))))))"

definition usb_read1 :: "('h, 'b) usb117_scheme \<Rightarrow> ('h, 'x, byte) ut" where
  "usb_read1 M =
     bnd (gets (\<lambda>s. usb_recv_idx s = usb_recv_len s)) (\<lambda>none.
     thn (if none then spin (hw_spins M) (usb_handler M) else ret ())
    (bnd (gets (\<lambda>s. usb_recv_buf s (unat (usb_recv_idx s)))) (\<lambda>c.
     thn (modify (\<lambda>s. s\<lparr>usb_recv_idx := usb_recv_idx s + 1\<rparr>)) (ret c))))"

section \<open>Sending\<close>

definition SEND_CH :: u32 where "SEND_CH = 0x20201be0 + 5 * 32"

fun send_poll :: "('h, 'b) usb117_scheme \<Rightarrow> nat \<Rightarrow> ('h, 'x, u32) ut" where
  "send_poll M 0 = no_fuel"
| "send_poll M (Suc n) = bnd (MEM4 M (SEND_CH + 8)) (\<lambda>a. if bit a 18 then ret a else send_poll M n)"

text \<open>The length is stored in 16 bits; \<open>src\<close> is the address of the bytes.\<close>

definition usb_send117 :: "('h, 'b) usb117_scheme \<Rightarrow> u32 \<Rightarrow> byte list \<Rightarrow> ('h, 'x, unit) ut" where
  "usb_send117 M src bs =
     (let tr = trans_bytes src 0x20 (of_nat (length bs)) 5
      in thn (modify (\<lambda>s. s\<lparr>usb_send_trans := tr\<rparr>))
        (thn (clean_dcache_range M src bs)
        (thn (clean_dcache_range M (send_trans_at M) tr)
        (thn (or4 M (SEND_CH + 8) 4)
        (thn (set4 M (SEND_CH + 0x14) (send_trans_at M))
        (thn (or4 M (SEND_CH + 4) 1)
        (bnd (send_poll M (hw_spins M)) (\<lambda>a. set4 M (SEND_CH + 8) (a OR push_bit 26 1)))))))))"

section \<open>The channel\<close>

definition usb_init117 :: "('h, 'b) usb117_scheme \<Rightarrow> ('h, 'x, unit) ut" where
  "usb_init117 M =
     (let tr = trans_bytes (recv_buf_at M) 0x20 DMA_BUFSIZE 5
      in thn (modify (\<lambda>s. s\<lparr>usb_recv_trans := tr\<rparr>))
        (thn (clean_dcache_range M (recv_trans_at M) tr)
        (thn (modify (\<lambda>s. s\<lparr>usb_size64 := False, usb_recv_idx := 0, usb_recv_len := 0\<rparr>))
        (thn (if fdl2 M then ret () else or4 M (RECV_CH + 8) 0x14000000)
          (usr_start_recv M)))))"

definition channel_open117 :: "('h, 'b) usb117_scheme \<Rightarrow> ('h, 'x, int) ut" where
  "channel_open117 M = bnd (gets usb_open) (\<lambda>o'.
     thn (if \<not> o' then thn (usb_init117 M) (modify (\<lambda>s. s\<lparr>usb_open := True\<rparr>)) else ret ()) (ret 0))"

definition channel_getchar117 :: "('h, 'b) usb117_scheme \<Rightarrow> bool \<Rightarrow> ('h, 'x, int) ut" where
  "channel_getchar117 M wait = bnd (usb_read1 M) (\<lambda>c. ret (uint c))"

definition channel_write117 :: "('h, 'b) usb117_scheme \<Rightarrow> u32 \<Rightarrow> byte list \<Rightarrow> ('h, 'x, nat) ut" where
  "channel_write117 M src bs = thn (usb_send117 M src bs) (ret (length bs))"

text \<open>\<open>dl_getbootmode\<close>; every mode gets the USB channel.\<close>

definition dl_getbootmode :: "('h, 'b) usb117_scheme \<Rightarrow> ('h, 'x, u32) ut" where
  "dl_getbootmode M = bnd (MEM4 M 0x6008) (\<lambda>a. ret (drop_bit 8 a AND 0xff))"

end
