(* ===== verification/T117Main.thy ===== *)
theory T117Main
  imports T117Usb
begin

text \<open>
  The command loop of the UMS9117 loader (t117_fdl/main.c) on the packet layer it shares with
  the custom loader (\<open>FdlPacket\<close>, \<open>FdlState\<close>). It has no flash; a download that begins in DRAM
  sets the DRAM up first. The build options are \<open>fdl2\<close>, \<open>sdram_mode\<close> (SDRAM_INIT) and
  \<open>efuse117\<close> (WITH_EFUSE); \<open>call_entry117\<close> is the code that EXEC_DATA calls.
\<close>

unbundle bit_operations_syntax

section \<open>State\<close>

record 'h t117 = "'h usbt" +
  sdram_done :: bool

record 'h fdl117 = "'h usb117" +
  sdram_mode :: nat
  efuse117 :: bool
  call_entry117 :: "u32 \<Rightarrow> 'h t117 \<Rightarrow> 'h t117 option"
  stack117 :: mem

type_synonym ('h, 'a) tm = "('h t117, 'a) cm"

section \<open>Downloading\<close>

text \<open>When the set-up fails the host is told so, and the loader stays in an endless loop.\<close>

definition init_on_demand :: "'h fdl117 \<Rightarrow> ('h, unit) tm" where
  "init_on_demand M = bnd (gets sdram_done) (\<lambda>done.
     bnd (if done then ret 0 else sdram_init M) (\<lambda>r.
       if r \<noteq> 0 then thn (modify (dl_send_ack False (stack117 M) BSL_REP_OPERATION_FAILED)) no_fuel
       else modify (\<lambda>s. s\<lparr>sdram_done := True\<rparr>)))"

definition in_dram :: "'h fdl117 \<Rightarrow> u32 \<Rightarrow> bool" where
  "in_dram M addr = (\<not> fdl2 M \<and> sdram_mode M = 2 \<and> addr - 0x80000000 < push_bit 20 64)"

definition data_start_t :: "'h fdl117 \<Rightarrow> ('h, u32) tm" where
  "data_start_t M = (\<lambda>s.
     let len = pkt16 s 2; addr = pkt32 s 4; sz = pkt32 s 8
     in if len \<noteq> 8 then Ret BSL_REP_INVALID_CMD s
        else thn (if in_dram M addr then init_on_demand M else ret ()) (ret BSL_REP_ACK)
          (s\<lparr>dl_start := addr, dl_size := sz, dl_recv := 0\<rparr>))"

definition data_midst_t :: "('h, u32) tm" where
  "data_midst_t = (\<lambda>s.
     let len = pkt16 s 2; remain = dl_size s - dl_recv s; src = pkt_data s
     in if len > remain then Ret BSL_REP_DOWN_SIZE_ERROR s
        else let addr = dl_start s + dl_recv s
          in Ret BSL_REP_ACK (st_bytes addr src (s\<lparr>dl_recv := dl_recv s + len\<rparr>)))"

text \<open>The code is called behind the 0x200 bytes of the DHTB header.\<close>

definition data_exec_t :: "'h fdl117 \<Rightarrow> ('h, u32) tm" where
  "data_exec_t M = (\<lambda>s.
     let start = dl_start s
     in if start = NOT 0 then Ret BSL_REP_INVALID_CMD s
        else case call_entry117 M (start + 0x200) s of
               Some s \<Rightarrow> Ret BSL_REP_ACK s
             | None \<Rightarrow> err_exit ''exec'' [PI (uint (start + 0x200))] s)"

section \<open>Reading\<close>

text \<open>The third word of a request is read, but not used.\<close>

definition read_flash_t :: "('h, u32) tm" where
  "read_flash_t = (\<lambda>s.
     let len = pkt16 s 2; addr = pkt32 s 4; sz = pkt32 s 8
     in if (len \<noteq> 8 \<and> len \<noteq> 12) \<or> sz \<ge> of_nat MAX_PKT_PAYLOAD then Ret BSL_REP_INVALID_CMD s
        else thn (send_reply False BSL_REP_READ_FLASH (mbytes (ram s) addr (unat sz))) (ret 0) s)"

fun efuse_words :: "'h fdl117 \<Rightarrow> u32 list \<Rightarrow> ('h, byte list) tm" where
  "efuse_words M [] = ret []"
| "efuse_words M (i # is) = bnd (efuse_read M i 0) (\<lambda>w. bnd (efuse_words M is) (\<lambda>ws. ret (WRITE32_LE w @ ws)))"

definition read_efuse_t :: "'h fdl117 \<Rightarrow> ('h, u32) tm" where
  "read_efuse_t M = bnd (gets (\<lambda>s. pkt16 s 2)) (\<lambda>len.
     if len \<noteq> 0 then ret BSL_REP_INVALID_CMD
     else thn (efuse_init M) (bnd (efuse_words M (map of_nat [0..<64])) (\<lambda>bs.
       thn (efuse_off M) (thn (send_reply False BSL_REP_READ_FLASH bs) (ret 0)))))"

section \<open>The command loop\<close>

definition version117 :: "bool \<Rightarrow> u32 \<Rightarrow> string" where
  "version117 f cid = (let v = version_string cid in if f then v[10 := CHR ''2''] else v)"

definition dispatch_t :: "'h fdl117 \<Rightarrow> ('h, u32) tm" where
  "dispatch_t M = bnd (gets (\<lambda>s. pkt16 s 0)) (\<lambda>type.
     if type = BSL_CMD_CONNECT then ret BSL_REP_ACK
     else if type = BSL_CMD_START_DATA then data_start_t M
     else if type = BSL_CMD_MIDST_DATA then data_midst_t
     else if type = BSL_CMD_END_DATA then data_end
     else if type = BSL_CMD_EXEC_DATA then data_exec_t M
     else if type = BSL_CMD_CHANGE_BAUD then set_baudrate
     else if type = BSL_CMD_READ_FLASH then read_flash_t
     else if type = BSL_CMD_KEEP_CHARGE then ret BSL_REP_ACK
     else if efuse117 M \<and> type = 0x6566 then read_efuse_t M
     else ret BSL_REP_UNKNOWN_CMD)"

definition handle_t :: "'h fdl117 \<Rightarrow> ('h, unit) tm" where
  "handle_t M = bnd (dispatch_t M) (\<lambda>r. cwhen (0 < sint r) (modify (dl_send_ack False (stack117 M) r)))"

definition loop_t :: "'h fdl117 \<Rightarrow> byte list \<Rightarrow> ('h, unit) tm" where
  "loop_t M = cmd_loop False (stack117 M) (handle_t M)"

text \<open>
  The first loader waits for the header byte of a message before it says who it is, the
  second one, which was called by the first, reports at once and acknowledges.
\<close>

definition main_t :: "'h fdl117 \<Rightarrow> byte list \<Rightarrow> ('h, bool) tm" where
  "main_t M input =
     thn (modify dl_packet_init)
    (thn (modify (\<lambda>s. s\<lparr>dl_start := NOT 0\<rparr>))
    (bnd (gets (\<lambda>s. bytes_of (version117 (fdl2 M) (t117_chip_id s)) @ [0])) (\<lambda>version.
     if fdl2 M then
       thn (send_reply False BSL_REP_LOG version)
      (thn (modify (dl_send_ack False (stack117 M) BSL_REP_ACK))
      (thn (loop_t M input) (ret True)))
     else case dropWhile (\<lambda>ch. ch \<noteq> HDLC_HEADER) input of
            [] \<Rightarrow> ret False
          | _ # input \<Rightarrow>
              thn (send_reply False BSL_REP_VER version)
             (thn (loop_t M input) (ret True)))))"

end
