(* ===== verification/T117Link.thy ===== *)
theory T117Link
  imports Wire T117Main
begin

text \<open>
  The UMS9117 loader refines the same abstract device as the custom loader, without a flash,
  as soon as the DRAM is set up; so it is an instance of \<open>wired\<close>, and the commands of the
  dumper are correct against it. The first download to DRAM sets it up, once.
\<close>

unbundle bit_operations_syntax

section \<open>Refinement\<close>

definition abs_t :: "'h t117 \<Rightarrow> astate" where
  "abs_t s = (dl_start s, dl_size s, dl_recv s, ram s)"

lemma abs_t_upd [simp]:
  "abs_t (s\<lparr>packet_temp := m\<rparr>) = abs_t s" "abs_t (s\<lparr>tx := out\<rparr>) = abs_t s" "abs_t (s\<lparr>rx := r\<rparr>) = abs_t s"
  "abs_t (s\<lparr>opens := op\<rparr>) = abs_t s"
  by (simp_all add: abs_t_def)

text \<open>The DRAM is set up, or this loader does not do it on demand.\<close>

definition dram_ready :: "'h fdl117 \<Rightarrow> 'h t117 \<Rightarrow> bool" where
  "dram_ready M s = (sdram_done s \<or> fdl2 M \<or> sdram_mode M \<noteq> 2)"

definition others_t :: "'h fdl117 \<Rightarrow> u32 \<Rightarrow> bool" where
  "others_t M t = (efuse117 M \<and> t = 0x6566)"

definition seen :: "'h fdl117 \<Rightarrow> 'h t117 \<Rightarrow> astate \<times> bool" where
  "seen M s = (abs_t s, dram_ready M s)"

lemma seen_ack:
  assumes "dispatch_t M s = Ret c u" "0 < sint c" "abs_t u = c'" "dram_ready M u" "rx u = rx s" "tx u = tx s"
  shows "refines_by False (handle_t M) (seen M) s ((c', True), c, [])"
  unfolding handle_t_def
  by (rule refines_by_ack [where u = u]) (use assms in \<open>simp_all add: seen_def dram_ready_def\<close>)

lemma seen_reply:
  assumes "dispatch_t M s = thn (send_reply False rt rd) (ret 0) s" "length rd \<le> MAX_PKT_PAYLOAD" "dram_ready M s"
  shows "refines_by False (handle_t M) (seen M) s ((abs_t s, True), rt, rd)"
  unfolding handle_t_def
  by (rule refines_by_reply) (use assms in \<open>simp_all add: seen_def dram_ready_def\<close>)

lemma dispatch_t_run:
  "pkt16 s 0 = t \<Longrightarrow> dispatch_t M s =
    (if t = BSL_CMD_CONNECT then ret BSL_REP_ACK
     else if t = BSL_CMD_START_DATA then data_start_t M
     else if t = BSL_CMD_MIDST_DATA then data_midst_t
     else if t = BSL_CMD_END_DATA then data_end
     else if t = BSL_CMD_EXEC_DATA then data_exec_t M
     else if t = BSL_CMD_CHANGE_BAUD then set_baudrate
     else if t = BSL_CMD_READ_FLASH then read_flash_t
     else if t = BSL_CMD_KEEP_CHARGE then ret BSL_REP_ACK
     else if efuse117 M \<and> t = 0x6566 then read_efuse_t M
     else ret BSL_REP_UNKNOWN_CMD) s"
  unfolding dispatch_t_def bnd_def gets_def by simp

definition t117_spec :: "astate \<Rightarrow> u32 \<Rightarrow> byte list \<Rightarrow> astate \<times> u32 \<times> byte list" where
  "t117_spec = mem_spec (\<lambda>_. False) (\<lambda>a _. a)"

definition seen_spec :: "astate \<times> u32 \<times> byte list \<Rightarrow> (astate \<times> bool) \<times> u32 \<times> byte list" where
  "seen_spec z = (case z of (c, rt, rd) \<Rightarrow> ((c, True), rt, rd))"

lemmas t117_simps = t117_spec_def mem_spec_def seen_spec_def abs_t_def cmd_defs

lemma ram_upd_all: "ram_upd (\<lambda>_. False) m a bs = mupd m a bs"
  by (simp add: ram_upd_def fun_eq_iff)

lemma data_start_ready:
  "dram_ready M s \<Longrightarrow> dl_start s = a \<Longrightarrow>
     \<exists>u. thn (if in_dram M a then init_on_demand M else ret ()) (ret BSL_REP_ACK) s = Ret BSL_REP_ACK u \<and>
       abs_t u = abs_t s \<and> dram_ready M u \<and> rx u = rx s \<and> tx u = tx s"
  by (auto simp: in_dram_def dram_ready_def init_on_demand_def thn_def bnd_def gets_def modify_def ret_def abs_t_def)

lemma start_t_refines:
  assumes "has_msg s t d" "length d \<le> 0xffff" "t = BSL_CMD_START_DATA" "dram_ready M s"
  shows "refines_by False (handle_t M) (seen M) s (seen_spec (t117_spec (abs_t s) t d))"
proof -
  note len = has_msg_len [OF assms(1,2)] and eq = of_nat_eq_small [OF assms(2), of 8]
  have ty: "pkt16 s 0 = t" by (rule has_msg_type [OF assms(1)]) (simp add: assms(3) cmd_defs)
  have disp: "dispatch_t M s = data_start_t M s" by (simp add: dispatch_t_run [OF ty] assms(3) cmd_defs)
  show ?thesis
  proof (cases "length d = 8")
    case True
    then have w: "pkt32 s 4 = be32 d 0" "pkt32 s 8 = be32 d 4"
      using has_msg_word [OF assms(1), of 0] has_msg_word [OF assms(1), of 4] by auto
    let ?s = "s\<lparr>dl_start := be32 d 0, dl_size := be32 d 4, dl_recv := 0\<rparr>"
    obtain u where u: "thn (if in_dram M (be32 d 0) then init_on_demand M else ret ()) (ret BSL_REP_ACK) ?s = Ret BSL_REP_ACK u"
        "abs_t u = abs_t ?s" "dram_ready M u" "rx u = rx s" "tx u = tx s"
      using data_start_ready [of M ?s "be32 d 0"] assms(4) by (auto simp: dram_ready_def)
    have "dispatch_t M s = Ret BSL_REP_ACK u"
      unfolding disp data_start_t_def Let_def len w using True eq u(1) by simp
    then have "refines_by False (handle_t M) (seen M) s ((abs_t ?s, True), BSL_REP_ACK, [])"
      by (rule seen_ack) (use u in \<open>simp_all add: sint_ack\<close>)
    then show ?thesis using True by (simp add: assms(3) t117_simps)
  next
    case False
    then have "dispatch_t M s = Ret BSL_REP_INVALID_CMD s"
      unfolding disp data_start_t_def Let_def len using eq by simp
    then have "refines_by False (handle_t M) (seen M) s ((abs_t s, True), BSL_REP_INVALID_CMD, [])"
      by (rule seen_ack) (use assms(4) in \<open>simp_all add: sint_ack\<close>)
    then show ?thesis using False by (simp add: assms(3) t117_simps)
  qed
qed

lemma midst_t_refines:
  assumes "has_msg s t d" "length d \<le> 0xffff" "t = BSL_CMD_MIDST_DATA" "dram_ready M s"
  shows "refines_by False (handle_t M) (seen M) s (seen_spec (t117_spec (abs_t s) t d))"
proof -
  note len = has_msg_len [OF assms(1,2)]
  have u: "unat (of_nat (length d) :: u32) = length d" using assms(2) by (simp add: unat_of_nat)
  have ty: "pkt16 s 0 = t" by (rule has_msg_type [OF assms(1)]) (simp add: assms(3) cmd_defs)
  have disp: "dispatch_t M s = data_midst_t s" by (simp add: dispatch_t_run [OF ty] assms(3) cmd_defs)
  have cmp: "(of_nat (length d) > dl_size s - dl_recv s) = (length d > unat (dl_size s - dl_recv s))"
    by (simp add: word_less_nat_alt u)
  let ?u = "st_bytes (dl_start s + dl_recv s) d (s\<lparr>dl_recv := dl_recv s + of_nat (length d)\<rparr>)"
  show ?thesis
  proof (cases "length d > unat (dl_size s - dl_recv s)")
    case True
    then have "dispatch_t M s = Ret BSL_REP_DOWN_SIZE_ERROR s"
      unfolding disp data_midst_t_def Let_def len cmp by simp
    then have "refines_by False (handle_t M) (seen M) s ((abs_t s, True), BSL_REP_DOWN_SIZE_ERROR, [])"
      by (rule seen_ack) (use assms(4) in \<open>simp_all add: sint_ack\<close>)
    then show ?thesis using True by (simp add: assms(3) t117_simps)
  next
    case False
    then have "dispatch_t M s = Ret BSL_REP_ACK ?u"
      unfolding disp data_midst_t_def Let_def len cmp by simp
    then have "refines_by False (handle_t M) (seen M) s ((abs_t ?u, True), BSL_REP_ACK, [])"
      by (rule seen_ack) (use assms(4) in \<open>simp_all add: sint_ack st_bytes_def dram_ready_def\<close>)
    then show ?thesis using False by (simp add: assms(3) t117_simps st_bytes_def ram_upd_all)
  qed
qed

lemma read_t_refines:
  assumes "has_msg s t d" "length d \<le> 0xffff" "t = BSL_CMD_READ_FLASH" "dram_ready M s"
  shows "refines_by False (handle_t M) (seen M) s (seen_spec (t117_spec (abs_t s) t d))"
proof -
  note len = has_msg_len [OF assms(1,2)] and eq = of_nat_eq_small [OF assms(2)]
  have ty: "pkt16 s 0 = t" by (rule has_msg_type [OF assms(1)]) (simp add: assms(3) cmd_defs)
  have disp: "dispatch_t M s = read_flash_t s" by (simp add: dispatch_t_run [OF ty] assms(3) cmd_defs)
  have pay: "(of_nat MAX_PKT_PAYLOAD \<le> x) = (\<not> unat x < MAX_PKT_PAYLOAD)" for x :: u32
    by (simp add: word_le_nat_alt MAX_PKT_PAYLOAD_def MAX_PKT_SIZE_def not_less)
  have c: "(of_nat (length d) \<noteq> (8 :: u32) \<and> of_nat (length d) \<noteq> (12 :: u32)) = (\<not> (length d = 8 \<or> length d = 12))"
    using eq [of 8] eq [of 12] by simp
  show ?thesis
  proof (cases "(length d = 8 \<or> length d = 12) \<and> unat (be32 d 4) < MAX_PKT_PAYLOAD")
    case True
    then have w: "pkt32 s 4 = be32 d 0" "pkt32 s 8 = be32 d 4"
      using has_msg_word [OF assms(1), of 0] has_msg_word [OF assms(1), of 4] by auto
    have "dispatch_t M s = thn (send_reply False BSL_REP_READ_FLASH (mbytes (ram s) (be32 d 0) (unat (be32 d 4)))) (ret 0) s"
      unfolding disp read_flash_t_def Let_def len w c pay using True by simp
    then have "refines_by False (handle_t M) (seen M) s ((abs_t s, True), BSL_REP_READ_FLASH, mbytes (ram s) (be32 d 0) (unat (be32 d 4)))"
      by (rule seen_reply) (use True assms(4) in simp_all)
    then show ?thesis using True by (simp add: assms(3) t117_simps)
  next
    case False
    then have "dispatch_t M s = Ret BSL_REP_INVALID_CMD s"
      unfolding disp read_flash_t_def Let_def len c pay using has_msg_word [OF assms(1), of 4] by auto
    then have "refines_by False (handle_t M) (seen M) s ((abs_t s, True), BSL_REP_INVALID_CMD, [])"
      by (rule seen_ack) (use assms(4) in \<open>simp_all add: sint_ack\<close>)
    then show ?thesis using False by (auto simp: assms(3) t117_simps)
  qed
qed

lemma handle_t_refines:
  assumes "has_msg s t d" "dram_ready M s" "mem_handles (others_t M) (\<lambda>_. False) (abs_t s) t d"
  shows "refines_by False (handle_t M) (seen M) s (seen_spec (t117_spec (abs_t s) t d))"
proof -
  have sh: "length d \<le> 0xffff" "unat t < 65536" "t \<noteq> BSL_CMD_EXEC_DATA" "\<not> (efuse117 M \<and> t = 0x6566)"
    using assms(3) by (simp_all add: mem_handles_def abs_t_def others_t_def MAX_PKT_SIZE_def)
  note run = dispatch_t_run [OF has_msg_type [OF assms(1) sh(2)]]
  note len = has_msg_len [OF assms(1) sh(1)] and eq = of_nat_eq_small [OF sh(1), of 4]
  note ack = seen_ack [OF _ _ refl]
  consider "t = BSL_CMD_READ_FLASH" | "t = BSL_CMD_START_DATA" | "t = BSL_CMD_MIDST_DATA"
    | "t = BSL_CMD_END_DATA" | "t = BSL_CMD_CHANGE_BAUD" | "t = BSL_CMD_CONNECT \<or> t = BSL_CMD_KEEP_CHARGE"
    | "t \<noteq> BSL_CMD_READ_FLASH" "t \<noteq> BSL_CMD_START_DATA" "t \<noteq> BSL_CMD_MIDST_DATA" "t \<noteq> BSL_CMD_END_DATA"
      "t \<noteq> BSL_CMD_CHANGE_BAUD" "t \<noteq> BSL_CMD_CONNECT" "t \<noteq> BSL_CMD_KEEP_CHARGE" by blast
  then show ?thesis
  proof cases
    case 4
    then have "dispatch_t M s = data_end s" by (simp add: run cmd_defs)
    then have "refines_by False (handle_t M) (seen M) s
        ((abs_t s, True), (if dl_size s \<noteq> dl_recv s then BSL_REP_DOWN_EARLY_END else BSL_REP_ACK), [])"
      by (intro ack [where u = s]) (use assms(2) in \<open>simp_all add: data_end_def sint_ack\<close>)
    then show ?thesis using 4 by (simp add: t117_simps)
  next
    case 5
    then have "dispatch_t M s = set_baudrate s" by (simp add: run cmd_defs)
    then have "refines_by False (handle_t M) (seen M) s
        ((abs_t (if length d = 4 then s\<lparr>opens := opens s @ [pkt32 s 4]\<rparr> else s), True),
         (if length d \<noteq> 4 then BSL_REP_INVALID_CMD else BSL_REP_ACK), [])"
      by (intro ack) (use assms(2) eq in \<open>simp_all add: set_baudrate_def len sint_ack dram_ready_def\<close>)
    then show ?thesis using 5 by (auto simp: t117_simps)
  next
    case 6
    then have "dispatch_t M s = Ret BSL_REP_ACK s" by (auto simp: run cmd_defs ret_def)
    then have "refines_by False (handle_t M) (seen M) s ((abs_t s, True), BSL_REP_ACK, [])"
      by (rule ack) (use assms(2) in \<open>simp_all add: sint_ack\<close>)
    then show ?thesis using 6 by (auto simp: t117_spec_def mem_spec_def seen_spec_def abs_t_def)
  next
    case 7
    then have "dispatch_t M s = Ret BSL_REP_UNKNOWN_CMD s" using sh(3,4) by (auto simp: run ret_def)
    then have "refines_by False (handle_t M) (seen M) s ((abs_t s, True), BSL_REP_UNKNOWN_CMD, [])"
      by (rule ack) (use assms(2) in \<open>simp_all add: sint_ack\<close>)
    then show ?thesis using 7 by (simp add: t117_spec_def mem_spec_def seen_spec_def abs_t_def)
  qed (use read_t_refines start_t_refines midst_t_refines assms(1,2) sh(1) in blast)+
qed

section \<open>The dumper against this loader\<close>

interpretation t117: wired False "stack117 M" "handle_t M" abs_t "dram_ready M" "others_t M" "\<lambda>_. False" "\<lambda>a _. a"
  for M :: "'h fdl117"
proof (unfold_locales, goal_cases)
  case (1 s t d c rt rd)
  have "refines_by False (handle_t M) (seen M) s (seen_spec (c, rt, rd))"
    using handle_t_refines [OF 1(1-3)] 1(4) by (simp add: t117_spec_def)
  then show ?case by (simp add: seen_spec_def seen_def [abs_def])
qed (simp_all add: dram_ready_def others_t_def cmd_defs)

definition t117_usb :: "'h fdl117 \<Rightarrow> 'h t117 link usb" where "t117_usb M = wire_usb (loop_t M)"

text \<open>The host is between two commands, the loader waits for a packet with the DRAM set up.\<close>

definition linked_t :: "'h fdl117 \<Rightarrow> 'h t117 link host \<Rightarrow> bool" where
  "linked_t M s = (flags s = FLAGS_TRANSCODE \<and> recv_len s \<le> recv_pos s \<and>
     link_pending (dev s) = [] \<and> rx (fdl (dev s)) = rx_init \<and> dram_ready M (fdl (dev s)))"

lemma t117_between: "t117.between M s = linked_t M s"
  unfolding t117.between_def linked_t_def t117.avail_def t117.ready_def by (auto simp: wire_flags_def)

lemma t117_memory: "st_memory (t117.core d) = ram (fdl d)"
  by (simp add: st_memory_def t117.core_def abs_t_def)

lemma t117_usb: "t117_usb M = wire_usb (cmd_loop False (stack117 M) (handle_t M))"
  by (simp add: t117_usb_def loop_t_def [abs_def])

lemma mbytes_mupd:
  assumes "unat a + length bs \<le> 2 ^ 32"
  shows "mbytes (mupd m a bs) a (length bs) = bs"
proof (rule nth_equalityI)
  fix i assume "i < length (mbytes (mupd m a bs) a (length bs))"
  then have i: "i < length bs" by (simp add: mbytes_def)
  have "unat (of_nat i :: u32) = i" using i assms by (simp add: unat_of_nat)
  then show "mbytes (mupd m a bs) a (length bs) ! i = bs ! i"
    using i by (simp add: mbytes_def mupd_def)
qed (simp add: mbytes_def)

text \<open>
  C4: A round trip through both programs for the UMS9117: with its DRAM set up, \<open>send_buf\<close> puts
  the data into the memory of the phone, at the address asked for and nowhere else, and a dump
  of that range afterwards is a file with the same bytes, whatever the transfer schedule.
\<close>

theorem t117_upload_dump:
  assumes "linked_t M s" and "step \<noteq> 0" and "unat step < MAX_PKT_PAYLOAD" and "unat sz \<le> length data"
    and "unat a + unat sz < 2 ^ 32" and "can_write s fn" and "unat sz \<le> disk s"
  shows "\<exists>s1 s2. send_buf (t117_usb M) a fin step data sz s = Ret () s1 \<and>
    ram (fdl (dev s1)) = mupd (ram (fdl (dev s))) a (take (unat sz) data) \<and>
    dump_mem (t117_usb M) a sz fn step s1 = Ret (a + sz) s2 \<and>
    fs s2 fn = Some (take (unat sz) data) \<and> ram (fdl (dev s2)) = ram (fdl (dev s1)) \<and> linked_t M s2"
proof -
  have "unat step \<le> MAX_PKT_SIZE - 6" using assms(3) by (simp add: MAX_PKT_PAYLOAD_def)
  then obtain s1 where s1: "send_buf (t117_usb M) a fin step data sz s = Ret () s1" "linked_t M s1" "host_env s1 = host_env s"
      "ram (fdl (dev s1)) = mupd (ram (fdl (dev s))) a (take (unat sz) data)"
    using t117.send_buf_ok [where M = M and fin = fin and a = a and s = s, OF assms(2) _ assms(4)] assms(1)
    by (auto simp: t117_between t117_memory t117_usb)
  have env: "can_write s1 fn" "unat sz \<le> disk s1" using s1(3) assms(6,7) by (simp_all add: host_env_def)
  have "\<exists>s2. dump_mem (t117_usb M) a sz fn step s1 = Ret (a + sz) s2 \<and> linked_t M s2 \<and>
      t117.core (dev s2) = t117.core (dev s1) \<and> fs s2 = (fs s1)(fn \<mapsto> mbytes (ram (fdl (dev s1))) a (unat sz))"
    using t117.dump_mem_ok [where M = M, OF assms(2,3) _ assms(5) _ env] s1(2)
    by (auto simp: t117_between t117_memory t117_usb)
  then obtain s2 where s2: "dump_mem (t117_usb M) a sz fn step s1 = Ret (a + sz) s2" "linked_t M s2"
      "t117.core (dev s2) = t117.core (dev s1)" "fs s2 = (fs s1)(fn \<mapsto> mbytes (ram (fdl (dev s1))) a (unat sz))" by blast
  have "mbytes (ram (fdl (dev s1))) a (unat sz) = take (unat sz) data"
    using mbytes_mupd [of a "take (unat sz) data" "ram (fdl (dev s))"] assms(4,5) s1(4) by simp
  moreover have "ram (fdl (dev s2)) = ram (fdl (dev s1))"
    using arg_cong [OF s2(3), of st_memory] by (simp add: t117_memory)
  ultimately show ?thesis using s1 s2 by auto
qed

text \<open>A loader without hardware, idle, with the DRAM set up.\<close>

definition sample_117 :: "unit fdl117" where
  "sample_117 = \<lparr>rd1 = (\<lambda>_ h. (0, h)), rd2 = (\<lambda>_ h. (0, h)), rd4 = (\<lambda>_ h. (0, h)), wr1 = (\<lambda>_ _ h. h),
     wr2 = (\<lambda>_ _ h. h), wr4 = (\<lambda>_ _ h. h), hw_spins = 3, dma_put = (\<lambda>_ _ h. h), dma_get = (\<lambda>_ _ _. []),
     recv_buf_at = 0x10000, recv_trans_at = 0x11000, send_trans_at = 0x12000, usb_junk = (\<lambda>_. 0), fdl2 = False,
     sdram_mode = 2, efuse117 = True, call_entry117 = (\<lambda>_ _. None), stack117 = (\<lambda>_. 0)\<rparr>"

definition sample_t117 :: "bool \<Rightarrow> byte list \<Rightarrow> unit t117" where
  "sample_t117 done pkt = \<lparr>packet_temp = blit (\<lambda>_. 0) 0 pkt, rx = rx_init, tx = [], opens = [], ram = (\<lambda>_. 0),
     dl_start = -1, dl_size = 0, dl_recv = 0, hdev = (), ui_qrt_dly_data = (\<lambda>_. 0), t117_chip_id = 0x96310000,
     usb_size64 = False, usb_recv_idx = 0, usb_recv_len = 0, usb_recv_buf = (\<lambda>_. 0), usb_send_trans = [],
     usb_recv_trans = [], config_desc = config_desc_init, usb_open = True, sdram_done = done\<rparr>"

definition sample_host117 :: "unit t117 link host" where
  "sample_host117 = \<lparr>dev = \<lparr>fdl = sample_t117 True [], toward = [], sched = [3, 1, 5]\<rparr>, endp_in = 0x85, endp_out = 6,
     endp_in_blk = 512, endp_out_blk = 512, flags = FLAGS_TRANSCODE, verbose = 0, timeout = 1000,
     raw_buf = (\<lambda>_. 0), raw_len = 0, enc_buf = [], recv_buf = (\<lambda>_. 0), recv_len = 0, recv_pos = 0,
     errlog = [], stdout = [], stdin = [], fs = (\<lambda>_. None), can_write = (\<lambda>_. True), disk = 100\<rparr>"

theorem t117_upload_dump_witness:
  "\<exists>s1 s2. send_buf (t117_usb sample_117) 0x80000000 True 2 [0x7e, 0x7d, 3] 3 sample_host117 = Ret () s1 \<and>
    ram (fdl (dev s1)) = mupd (ram (fdl (dev sample_host117))) 0x80000000 (take (unat (3 :: u32)) [0x7e, 0x7d, 3]) \<and>
    dump_mem (t117_usb sample_117) 0x80000000 3 ''dump'' 2 s1 = Ret (0x80000000 + 3) s2 \<and>
    fs s2 ''dump'' = Some (take (unat (3 :: u32)) [0x7e, 0x7d, 3]) \<and> ram (fdl (dev s2)) = ram (fdl (dev s1)) \<and>
    linked_t sample_117 s2"
  by (rule t117_upload_dump)
    (simp_all add: linked_t_def sample_host117_def sample_t117_def dram_ready_def link_pending_def
      MAX_PKT_PAYLOAD_def MAX_PKT_SIZE_def)

text \<open>
  C5: For every message that only touches memory, of any type and with any data, the UMS9117
  loader with its DRAM set up does what the abstract device without a flash does: same
  download state, same memory, one reply of the type and with the data the device gives.
\<close>

theorem handle_t_refines_spec:
  assumes "has_msg s t d" and "dram_ready M s" and "mem_handles (others_t M) (\<lambda>_. False) (abs_t s) t d"
  shows "\<exists>s'. handle_t M s = Ret () s' \<and> abs_t s' = fst (t117_spec (abs_t s) t d) \<and> dram_ready M s' \<and> rx s' = rx s \<and>
    tx s' = tx s @ [dl_frame False (host_msg (fst (snd (t117_spec (abs_t s) t d))) (snd (snd (t117_spec (abs_t s) t d))))]"
  using handle_t_refines [OF assms] by (auto simp: refines_by_def seen_spec_def seen_def split: prod.splits)

lemma sample_t117_msg: "has_msg (sample_t117 b (host_msg t d)) t d"
  using mslice_blit_same [of "\<lambda>_. 0" 0 "host_msg t d"] by (simp add: has_msg_def sample_t117_def)

theorem handle_t_refines_spec_witness:
  "let s = sample_t117 True (host_msg BSL_CMD_START_DATA [0x80, 0, 0, 0, 0, 0, 0, 5]);
       r = t117_spec (abs_t s) BSL_CMD_START_DATA [0x80, 0, 0, 0, 0, 0, 0, 5]
   in \<exists>s'. handle_t sample_117 s = Ret () s' \<and> abs_t s' = fst r \<and> dram_ready sample_117 s' \<and> rx s' = rx s \<and>
     tx s' = tx s @ [dl_frame False (host_msg (fst (snd r)) (snd (snd r)))]"
  unfolding Let_def
  by (rule handle_t_refines_spec [OF sample_t117_msg])
    (simp_all add: dram_ready_def mem_handles_def abs_t_def others_t_def sample_117_def sample_t117_def MAX_PKT_SIZE_def cmd_defs)

section \<open>Setting up the DRAM on demand\<close>

definition after_set_up :: "'h fdl117 \<Rightarrow> (int, 'h t117) outcome \<Rightarrow> (unit, 'h t117) outcome" where
  "after_set_up M z = (case z of
     Ret r v \<Rightarrow> if r = 0 then Ret () (dl_send_ack False (stack117 M) BSL_REP_ACK (v\<lparr>sdram_done := True\<rparr>))
       else OutOfFuel (dl_send_ack False (stack117 M) BSL_REP_OPERATION_FAILED v)
   | Exit e v \<Rightarrow> Exit e v
   | OutOfFuel v \<Rightarrow> OutOfFuel v)"

text \<open>
  C6: The first download to DRAM sets it up: if that works the request is acknowledged and
  further downloads do not set it up again; if it fails the host gets one message that says so,
  no acknowledgement, and the loader answers nothing any more.
\<close>

theorem dram_set_up_once:
  assumes "has_msg s BSL_CMD_START_DATA (WRITE32_BE a @ WRITE32_BE n)" "in_dram M a"
    and "u = s\<lparr>dl_start := a, dl_size := n, dl_recv := 0\<rparr>"
  shows "handle_t M s = after_set_up M (if sdram_done s then Ret 0 u else sdram_init M u)"
proof -
  let ?d = "WRITE32_BE a @ WRITE32_BE n"
  have ty: "pkt16 s 0 = BSL_CMD_START_DATA" by (rule has_msg_type [OF assms(1)]) (simp add: cmd_defs)
  have w: "pkt32 s 4 = a" "pkt32 s 8 = n"
    using has_msg_word [OF assms(1), of 0] has_msg_word [OF assms(1), of 4] by (simp_all add: be32_words)
  have len: "pkt16 s 2 = 8" using has_msg_len(1) [OF assms(1)] by simp
  have h: "handle_t M s = bnd (thn (init_on_demand M) (ret BSL_REP_ACK))
      (\<lambda>r. cwhen (0 < sint r) (modify (dl_send_ack False (stack117 M) r))) u"
    using assms(2) by (simp add: handle_t_def bnd_def dispatch_t_run [OF ty] cmd_defs data_start_t_def w len assms(3))
  show ?thesis
    unfolding h after_set_up_def
    by (simp add: init_on_demand_def thn_def bnd_def gets_def ret_def modify_def cwhen_def no_fuel_def sint_ack assms(3)
        split: outcome.split)
qed

theorem dram_set_up_once_witness:
  "let s = sample_t117 False (host_msg BSL_CMD_START_DATA (WRITE32_BE 0x80000000 @ WRITE32_BE 5));
       u = s\<lparr>dl_start := 0x80000000, dl_size := 5, dl_recv := 0\<rparr>
   in handle_t sample_117 s = after_set_up sample_117 (sdram_init sample_117 u)"
  unfolding Let_def
  by (subst dram_set_up_once [OF sample_t117_msg _ refl]) (simp_all add: in_dram_def sample_117_def sample_t117_def)

end
