(* ===== verification/T117UsbRt.thy ===== *)
theory T117UsbRt
  imports T117Usb
begin

text \<open>
  What the USB channel of the UMS9117 loader hands out: the bytes of a transfer in order, each
  once, and what happens after a transfer without data.
\<close>

unbundle bit_operations_syntax

section \<open>Statements on the hardware alone\<close>

definition only_dev :: "('h, 'x, 'a) hm \<Rightarrow> bool" where
  "only_dev m = (\<forall>s. wlp m (\<lambda>_ t. \<exists>h. t = s\<lparr>hdev := h\<rparr>) s)"

named_theorems only_dev \<open>statements that change nothing but the hardware\<close>

lemma only_dev_ret [only_dev]: "only_dev (ret a)"
  unfolding only_dev_def wlp_ret
proof
  fix s :: "('a, 'b) hws_scheme"
  have "s = s\<lparr>hdev := hdev s\<rparr>" by simp
  then show "\<exists>h. s = s\<lparr>hdev := h\<rparr>" ..
qed

lemma only_dev_mem [only_dev]:
  "only_dev (MEM1 M a)" "only_dev (MEM2 M a)" "only_dev (MEM4 M a)"
  "only_dev (set1 M a v1)" "only_dev (set2 M a v2)" "only_dev (set4 M a v4)"
  by (auto simp: only_dev_def wlp_def MEM1_def MEM2_def MEM4_def set1_def set2_def set4_def volatile_def modify_def
      split: prod.split)

lemma only_dev_bnd [only_dev]:
  assumes "only_dev m" "\<And>a. only_dev (f a)"
  shows "only_dev (bnd m f)"
  unfolding only_dev_def wlp_bnd
proof
  fix s
  have "wlp m (\<lambda>_ t. \<exists>h. t = s\<lparr>hdev := h\<rparr>) s" using assms(1) by (simp add: only_dev_def)
  then show "wlp m (\<lambda>a. wlp (f a) (\<lambda>_ t. \<exists>h. t = s\<lparr>hdev := h\<rparr>)) s"
  proof (rule wlp_mono)
    fix a t assume "\<exists>h. t = s\<lparr>hdev := h\<rparr>"
    then obtain h where t: "t = s\<lparr>hdev := h\<rparr>" ..
    have "wlp (f a) (\<lambda>_ u. \<exists>h. u = t\<lparr>hdev := h\<rparr>) t" using assms(2) by (simp add: only_dev_def)
    then show "wlp (f a) (\<lambda>_ u. \<exists>h. u = s\<lparr>hdev := h\<rparr>) t" by (rule wlp_mono) (auto simp: t)
  qed
qed

lemma only_dev_thn [only_dev]: "only_dev m \<Longrightarrow> only_dev n \<Longrightarrow> only_dev (thn m n)"
  unfolding thn_def by (rule only_dev_bnd)

lemma only_dev_steps [only_dev]: "list_all only_dev ms \<Longrightarrow> only_dev (steps ms)"
  by (induction ms) (simp_all add: steps_def only_dev)

lemma only_dev_or [only_dev]: "only_dev (or1 M a v)" "only_dev (or4 M a v4)" "only_dev (and4 M a v4)"
  unfolding or1_def or4_def and4_def by (intro only_dev)+

lemma only_dev_start_recv: "only_dev (usr_start_recv M)"
  unfolding usr_start_recv_def by (rule only_dev_steps) (simp add: only_dev)

section \<open>A transfer\<close>

lemma wlp_any: "(\<And>a t. Q a t) \<Longrightarrow> wlp m Q s"
  by (simp add: wlp_def split: outcome.split)

text \<open>After a transfer the buffer starts with what the device has stored.\<close>

definition holds_transfer :: "('h, 'b) usb117_scheme \<Rightarrow> ('h, 'x) usbt_scheme \<Rightarrow> bool" where
  "holds_transfer M t = (usb_recv_idx t = 0 \<and>
     (\<exists>b h. usb_recv_buf t = blit b 0 (dma_get M (recv_buf_at M) (unat (usb_recv_len t)) h)))"

lemma handler_transfer: "wlp (usb_handler M) (\<lambda>r t. r \<longrightarrow> holds_transfer M t) s"
proof -
  have fin: "wlp (usr_start_recv M) (\<lambda>_ u. holds_transfer M u) t" if "holds_transfer M t" for t
  proof (rule wlp_mono)
    show "wlp (usr_start_recv M) (\<lambda>_ u. \<exists>h. u = t\<lparr>hdev := h\<rparr>) t"
      by (rule only_dev_start_recv [unfolded only_dev_def, rule_format])
  qed (use that in \<open>(auto simp: holds_transfer_def; blast)\<close>)
  show ?thesis
    unfolding usb_handler_def wlp_bnd wlp_thn Let_def
    by (rule wlp_any, rule wlp_any, rule wlp_any, rule wlp_any, rule wlp_any,
        simp add: wlp_simps invalidate_recv_buf_def, rule impI, rule wlp_any, subst wlp_bnd, rule wlp_any, simp add: wlp_simps,
        rule wlp_mono, rule fin, force simp: holds_transfer_def)
      (simp add: wlp_ret)
qed

lemma spin_transfer: "wlp (spin n (usb_handler M)) (\<lambda>_ t. holds_transfer M t) s"
proof (induction n arbitrary: s)
  case (Suc n)
  show ?case
    unfolding spin.simps wlp_bnd
    by (rule wlp_mono [OF handler_transfer]) (auto simp: wlp_ret intro: Suc)
qed (simp add: wlp_no_fuel)

section \<open>Reading\<close>

fun reads117 :: "('h, 'b) usb117_scheme \<Rightarrow> nat \<Rightarrow> ('h, 'x, byte list) ut" where
  "reads117 M 0 = ret []"
| "reads117 M (Suc n) = bnd (usb_read1 M) (\<lambda>c. bnd (reads117 M n) (\<lambda>cs. ret (c # cs)))"

lemma read1_buffered:
  "usb_recv_idx s \<noteq> usb_recv_len s \<Longrightarrow>
     usb_read1 M s = Ret (usb_recv_buf s (unat (usb_recv_idx s))) (s\<lparr>usb_recv_idx := usb_recv_idx s + 1\<rparr>)"
  by (simp add: usb_read1_def bnd_def thn_def gets_def ret_def modify_def)

lemma read1_waits:
  "usb_recv_idx s = usb_recv_len s \<Longrightarrow> spin (hw_spins M) (usb_handler M) s = Ret () t \<Longrightarrow>
     usb_read1 M s = Ret (usb_recv_buf t (unat (usb_recv_idx t))) (t\<lparr>usb_recv_idx := usb_recv_idx t + 1\<rparr>)"
  by (simp add: usb_read1_def bnd_def thn_def gets_def ret_def modify_def)

text \<open>As long as the index does not meet the length, reading does not look at the hardware.\<close>

lemma reads_buffered:
  assumes "\<forall>k < n. usb_recv_idx s + of_nat k \<noteq> usb_recv_len s"
  shows "reads117 M n s = Ret (map (\<lambda>k. usb_recv_buf s (unat (usb_recv_idx s + of_nat k))) [0..<n])
    (s\<lparr>usb_recv_idx := usb_recv_idx s + of_nat n\<rparr>)"
  using assms
proof (induction n arbitrary: s)
  case (Suc n)
  let ?s = "s\<lparr>usb_recv_idx := usb_recv_idx s + 1\<rparr>"
  have ne: "usb_recv_idx s \<noteq> usb_recv_len s" using Suc.prems [rule_format, of 0] by simp
  have "\<forall>k < n. usb_recv_idx ?s + of_nat k \<noteq> usb_recv_len ?s"
    using Suc.prems by (auto simp: add.assoc dest: spec [where x = "Suc k" for k])
  then have "reads117 M n ?s = Ret (map (\<lambda>k. usb_recv_buf s (unat (usb_recv_idx s + 1 + of_nat k))) [0..<n])
      (s\<lparr>usb_recv_idx := usb_recv_idx s + 1 + of_nat n\<rparr>)"
    using Suc.IH [of ?s] by simp
  moreover have "[0..<Suc n] = 0 # map Suc [0..<n]" by (simp add: map_Suc_upt upt_conv_Cons del: upt_Suc)
  ultimately show ?case
    by (simp add: bnd_def read1_buffered [OF ne] ret_def o_def add.assoc del: upt_Suc)
qed (simp add: ret_def)

text \<open>A transfer is waited for, then read from its first byte on.\<close>

lemma reads_after_wait:
  assumes "usb_recv_idx s = usb_recv_len s" "spin (hw_spins M) (usb_handler M) s = Ret () t"
    and "\<forall>k < n. of_nat (Suc k) \<noteq> usb_recv_len t"
  shows "reads117 M (Suc n) s = Ret (map (\<lambda>k. usb_recv_buf t (unat (of_nat k :: u32))) [0..<Suc n])
    (t\<lparr>usb_recv_idx := of_nat (Suc n)\<rparr>)"
proof -
  have i: "usb_recv_idx t = 0" using wlp_Ret [OF spin_transfer assms(2)] by (simp add: holds_transfer_def)
  let ?t = "t\<lparr>usb_recv_idx := 1\<rparr>"
  have "reads117 M n ?t = Ret (map (\<lambda>k. usb_recv_buf t (unat (1 + of_nat k :: u32))) [0..<n]) (t\<lparr>usb_recv_idx := 1 + of_nat n\<rparr>)"
    using reads_buffered [of n ?t M] assms(3) by simp
  moreover have "[0..<Suc n] = 0 # map Suc [0..<n]" by (simp add: map_Suc_upt upt_conv_Cons del: upt_Suc)
  ultimately show ?thesis
    by (simp add: bnd_def read1_waits [OF assms(1,2)] i ret_def o_def del: upt_Suc)
qed

text \<open>A device whose transfers are over at once and leave \<open>r\<close> as the rest of the buffer.\<close>

definition sample_dma :: "u32 \<Rightarrow> unit usb117" where
  "sample_dma r = \<lparr>rd1 = (\<lambda>_ h. (0, h)), rd2 = (\<lambda>_ h. (0, h)),
     rd4 = (\<lambda>a h. (if a = 0x20201e88 then 0x40000 else if a = 0x20201e90 then r else 0, h)),
     wr1 = (\<lambda>_ _ h. h), wr2 = (\<lambda>_ _ h. h), wr4 = (\<lambda>_ _ h. h), hw_spins = 1, dma_put = (\<lambda>_ _ h. h),
     dma_get = (\<lambda>_ n _. replicate n 0x7e), recv_buf_at = 0x10000, recv_trans_at = 0x11000, send_trans_at = 0x12000,
     usb_junk = (\<lambda>_. 0), fdl2 = False\<rparr>"

definition sample_usbt :: "unit usbt" where
  "sample_usbt = \<lparr>packet_temp = (\<lambda>_. 0), rx = rx_init, tx = [], opens = [], ram = (\<lambda>_. 0), dl_start = -1, dl_size = 0,
     dl_recv = 0, hdev = (), ui_qrt_dly_data = (\<lambda>_. 0), t117_chip_id = 0, usb_size64 = False, usb_recv_idx = 0,
     usb_recv_len = 0, usb_recv_buf = (\<lambda>_. 0), usb_send_trans = [], usb_recv_trans = [], config_desc = config_desc_init,
     usb_open = True\<rparr>"

lemma sample_transfer:
  "\<exists>t. spin (hw_spins (sample_dma r)) (usb_handler (sample_dma r)) sample_usbt = Ret () t \<and>
     usb_recv_len t = DMA_BUFSIZE - drop_bit 16 r"
  by (simp add: sample_dma_def usb_handler_def bnd_def thn_def ret_def modify_def MEM1_def MEM2_def MEM4_def volatile_def
      or4_def set4_def usr_start_recv_def steps_def invalidate_recv_buf_def RECV_CH_def Let_def)

lemma sample_dma_get: "dma_get (sample_dma r) a n h = replicate n 0x7e"
  by (simp add: sample_dma_def)

lemma sample_drop: "drop_bit 16 (0x31fd0000 :: u32) = 0x31fd" "drop_bit 16 (0x32000000 :: u32) = 0x3200"
  by (simp_all add: drop_bit_eq_div)

text \<open>
  C32: When the buffer is used up and the wait for the next transfer ends, with \<open>n > 0\<close> bytes, the
  next \<open>n\<close> calls of \<open>usb_read1\<close> hand out exactly the \<open>n\<close> bytes the device has stored, in order,
  and the buffer is used up again.
\<close>

theorem usb_transfer_read:
  assumes "usb_recv_idx s = usb_recv_len s" "spin (hw_spins M) (usb_handler M) s = Ret () t" "usb_recv_len t \<noteq> 0"
    and "\<And>a n h. length (dma_get M a n h) = n"
  shows "\<exists>h. reads117 M (unat (usb_recv_len t)) s =
    Ret (dma_get M (recv_buf_at M) (unat (usb_recv_len t)) h) (t\<lparr>usb_recv_idx := usb_recv_len t\<rparr>)"
proof -
  obtain n where n: "unat (usb_recv_len t) = Suc n" using assms(3) by (metis not0_implies_Suc unat_eq_0)
  obtain b h where b: "usb_recv_buf t = blit b 0 (dma_get M (recv_buf_at M) (Suc n) h)"
    using wlp_Ret [OF spin_transfer assms(2)] n by (auto simp: holds_transfer_def)
  have small: "unat (of_nat k :: u32) = k" if "k \<le> Suc n" for k
    using that n unsigned_less [of "usb_recv_len t", where 'a = nat] by (simp add: unat_of_nat)
  have "\<forall>k < n. of_nat (Suc k) \<noteq> usb_recv_len t"
  proof (intro allI impI notI)
    fix k assume "k < n" "of_nat (Suc k) = usb_recv_len t"
    then show False using n small [of "Suc k"] by simp
  qed
  from reads_after_wait [OF assms(1,2) this]
  have "reads117 M (Suc n) s = Ret (map (\<lambda>k. usb_recv_buf t (unat (of_nat k :: u32))) [0..<Suc n]) (t\<lparr>usb_recv_idx := of_nat (Suc n)\<rparr>)" .
  moreover have "map (\<lambda>k. usb_recv_buf t (unat (of_nat k :: u32))) [0..<Suc n] = dma_get M (recv_buf_at M) (Suc n) h"
    by (rule nth_equalityI) (simp_all add: assms(4) b small blit_def del: upt_Suc)
  moreover have "of_nat (Suc n) = usb_recv_len t" by (simp flip: n)
  ultimately show ?thesis by (auto simp: n)
qed

theorem usb_transfer_read_witness:
  "\<exists>t. reads117 (sample_dma 0x31fd0000) 3 sample_usbt = Ret [0x7e, 0x7e, 0x7e] t \<and> usb_recv_idx t = 3"
proof -
  obtain t where t: "spin (hw_spins (sample_dma 0x31fd0000)) (usb_handler (sample_dma 0x31fd0000)) sample_usbt = Ret () t"
    "usb_recv_len t = 3" using sample_transfer [of "0x31fd0000"] by (auto simp: sample_drop DMA_BUFSIZE_def)
  have "\<exists>h. reads117 (sample_dma 0x31fd0000) (unat (usb_recv_len t)) sample_usbt =
      Ret (dma_get (sample_dma 0x31fd0000) (recv_buf_at (sample_dma 0x31fd0000)) (unat (usb_recv_len t)) h)
        (t\<lparr>usb_recv_idx := usb_recv_len t\<rparr>)"
    by (rule usb_transfer_read [OF _ t(1)]) (use t(2) in \<open>simp_all add: sample_usbt_def sample_dma_get\<close>)
  moreover have "unat (usb_recv_len t) = 3" "replicate 3 (0x7e :: byte) = [0x7e, 0x7e, 0x7e]"
    by (simp add: t(2)) (simp add: numeral_3_eq_3)
  ultimately show ?thesis using t(2) by (auto simp: sample_dma_get simp del: reads117.simps)
qed

text \<open>
  C31: A transfer without data derails the channel: \<open>usb_read1\<close> hands out the first byte of the
  buffer although nothing was received, and from then on the index has passed the length, so
  that the next calls hand out whatever follows, beyond the 12800 bytes of the buffer as well,
  without looking at the hardware any more.
\<close>

theorem usb_empty_transfer_runs_on:
  assumes "usb_recv_idx s = usb_recv_len s" "spin (hw_spins M) (usb_handler M) s = Ret () t" "usb_recv_len t = 0"
    and "n < 2 ^ 32 - 1"
  shows "reads117 M (Suc n) s = Ret (map (usb_recv_buf t) [0..<Suc n]) (t\<lparr>usb_recv_idx := of_nat (Suc n)\<rparr>)"
proof -
  have small: "unat (of_nat k :: u32) = k" if "k \<le> Suc n" for k using that assms(4) by (simp add: unat_of_nat)
  have "\<forall>k < n. of_nat (Suc k) \<noteq> usb_recv_len t"
  proof (intro allI impI notI)
    fix k assume "k < n" "of_nat (Suc k) = usb_recv_len t"
    then show False using small [of "Suc k"] by (simp add: assms(3))
  qed
  from reads_after_wait [OF assms(1,2) this] show ?thesis
    by (auto simp: small intro!: map_cong simp del: upt_Suc)
qed

theorem usb_empty_transfer_runs_on_witness:
  "\<exists>t. reads117 (sample_dma 0x32000000) (Suc 12801) sample_usbt =
      Ret (map (usb_recv_buf t) [0..<Suc 12801]) (t\<lparr>usb_recv_idx := of_nat (Suc 12801)\<rparr>) \<and>
    usb_recv_len t = 0"
proof -
  obtain t where t: "spin (hw_spins (sample_dma 0x32000000)) (usb_handler (sample_dma 0x32000000)) sample_usbt = Ret () t"
    "usb_recv_len t = 0" using sample_transfer [of "0x32000000"] by (auto simp: sample_drop DMA_BUFSIZE_def)
  show ?thesis
    by (rule exI [of _ t], rule conjI [OF usb_empty_transfer_runs_on [OF _ t] t(2)]) (simp_all add: sample_usbt_def)
qed

end
