(* ===== verification/T117RamRt.thy ===== *)
theory T117RamRt
  imports T117Ram
begin

text \<open>
  The set-up of the DRAM: what writing a field does, that self-test and training end whatever
  the hardware answers, what the self-test returns on a test block with a given verdict, and
  which range of delays the training chooses.
\<close>

unbundle bit_operations_syntax

section \<open>Fields\<close>

lemma bit_insert_bits:
  "k < 32 \<Longrightarrow> bit (insert_bits a sh n v) k = (if sh \<le> k \<and> k < sh + n then bit v (k - sh) else bit a k)"
  by (auto simp: insert_bits_def Let_def bit_simps mask_eq_exp_minus_1 [symmetric] push_bit_of_1)

definition field :: "nat \<Rightarrow> nat \<Rightarrow> u32 \<Rightarrow> u32" where "field sh n a = take_bit n (drop_bit sh a)"

lemma field_insert: "sh + n \<le> 32 \<Longrightarrow> field sh n (insert_bits a sh n v) = take_bit n v"
  by (rule bit_word_eqI) (auto simp: field_def bit_simps bit_insert_bits)

lemma field_insert_other:
  "sh + n \<le> 32 \<Longrightarrow> sh' + n' \<le> 32 \<Longrightarrow> sh + n \<le> sh' \<or> sh' + n' \<le> sh \<Longrightarrow> field sh n (insert_bits a sh' n' v) = field sh n a"
  by (rule bit_word_eqI) (auto simp: field_def bit_simps bit_insert_bits)

text \<open>
  Writing a field of a register sets the field to the low bits of the value, whatever the
  value is, and leaves every other field as it is.
\<close>

theorem insert_bits_field:
  assumes "sh + n \<le> 32"
  shows "field sh n (insert_bits a sh n v) = take_bit n v \<and>
    (\<forall>sh' n'. sh' + n' \<le> sh \<or> (sh + n \<le> sh' \<and> sh' + n' \<le> 32) \<longrightarrow>
       field sh' n' (insert_bits a sh n v) = field sh' n' a)"
  using assms by (auto simp: field_insert intro!: field_insert_other)

theorem insert_bits_field_witness:
  "field 16 7 (insert_bits 0xffffffff 16 7 0x105) = 5 \<and> field 23 9 (insert_bits 0xffffffff 16 7 0x105) = 0x1ff"
proof -
  have "take_bit 7 (0x105 :: u32) = 5" "field 23 9 0xffffffff = 0x1ff"
    by (simp_all add: take_bit_eq_mod field_def drop_bit_eq_div)
  then show ?thesis using insert_bits_field [of 16 7 "0xffffffff" "0x105"] by auto
qed

section \<open>The self-test and the training end\<close>

lemma returns_ops [returns]:
  "returns (insert_bits_mem M a sh n v) (\<lambda>_. True)" "returns (put_fields_mem M a fs) (\<lambda>_. True)"
  unfolding insert_bits_mem_def put_fields_mem_def by (intro returns TrueI)+

lemma returns_delay [returns]: "returns (dmc_sprd_delay M n) (\<lambda>_. True)"
  unfolding dmc_sprd_delay_def by (rule returns_steps) (auto simp: list_all_iff intro!: returns)

lemma returns_get_half [returns]: "returns (get_half_mode M) (\<lambda>_. True)"
  unfolding get_half_mode_def freq_reg_def by (intro returns TrueI)

lemma returns_fifo [returns]: "returns (reset_dmc_fifo M) (\<lambda>_. True)"
  unfolding reset_dmc_fifo_def by (intro returns TrueI)

lemma returns_shifts [returns]:
  "returns (dqin_bit_offset_adjust M x) (\<lambda>_. True)" "returns (dqs_right_shift M x) (\<lambda>_. True)"
  unfolding dqin_bit_offset_adjust_def dqs_right_shift_def Let_def
  by (rule returns_steps; simp add: returns)+

lemma returns_bist_wait [returns]: "returns (bist_wait M n) (\<lambda>_. True)"
  by (induction n) (simp_all only: bist_wait.simps, (intro returns TrueI | assumption)+)

lemma returns_bist: "returns (sipi_bist_types_test M ty) (\<lambda>r. r \<in> {0, -1, -2, -3})"
  unfolding sipi_bist_types_test_def Let_def
  by (intro returns returns_steps TrueI) (simp_all add: returns)

lemma returns_bist_any [returns]: "returns (sipi_bist_types_test M ty) (\<lambda>_. True)"
  using returns_bist by (rule returns_mono) simp

lemma returns_train_scan [returns]:
  assumes "\<And>j. returns (test j) (\<lambda>_. True)"
  shows "returns (train_scan test n j first) (\<lambda>_. True)"
  by (induction n arbitrary: j first) (simp_all only: train_scan.simps, (intro returns assms TrueI | assumption)+)

lemma returns_points [returns]: "returns (wde_point M r n j) (\<lambda>_. True)" "returns (rde_point M r j) (\<lambda>_. True)"
  unfolding wde_point_def rde_point_def by (intro returns TrueI)+

lemma returns_prod [returns]: "(\<And>x y. returns (g x y) Q) \<Longrightarrow> returns (case u of (x, y) \<Rightarrow> g x y) Q"
  by (simp split: prod.split)

lemma returns_lanes [returns]: "returns (wde_lane M i r old) (\<lambda>_. True)" "returns (rde_lane M neg i r old) (\<lambda>_. True)"
  unfolding wde_lane_def rde_lane_def by (intro returns TrueI)+

lemma returns_set_dqs [returns]: "returns (set_dqs_dll_with_offset M dst def mid init) (\<lambda>_. True)"
  unfolding set_dqs_dll_with_offset_def Let_def
  by (intro returns returns_steps TrueI) (simp add: list_all_iff, intro ballI returns_steps, simp add: returns)

lemma returns_training:
  "returns (dmc_lpddr3_wde_training M) (\<lambda>r. r = 0)" "returns (dmc_lpddr3_rde_training M neg) (\<lambda>r. r = 0)"
  unfolding dmc_lpddr3_wde_training_def dmc_lpddr3_rde_training_def Let_def
  by (intro returns TrueI refl)+

text \<open>
  However the memory controller behaves, the self-test and the three trainings end, and the
  trainings report success even when they have found no delay that works.
\<close>

lemma training_ends:
  "(\<exists>r t. sipi_bist_types_test M ty s = Ret r t \<and> r \<in> {0, -1, -2, -3}) \<and>
   (\<exists>t. dmc_lpddr3_wde_training M s' = Ret 0 t) \<and> (\<exists>t. dmc_lpddr3_rde_training M neg s = Ret 0 t)"
  using returns_Ret [OF returns_bist] returns_Ret [OF returns_training(1)] returns_Ret [OF returns_training(2)]
  by metis

section \<open>The verdict of the self-test\<close>

text \<open>
  The self-test block as the code relies on it: the registers hold what is stored; storing 3 in
  the two lowest bits of the control register starts the test, \<open>V\<close> is its verdict on the
  registers as they are then, and it has finished at the read of the control register that
  comes after \<open>n\<close> others. Bit 2 says that it has finished, bit 3 that it has passed.
\<close>

record bist =
  breg :: "u32 \<Rightarrow> u32"
  bleft :: nat
  bok :: bool

definition bist_hw :: "nat \<Rightarrow> ((u32 \<Rightarrow> u32) \<Rightarrow> bool) \<Rightarrow> bist mmio" where
  "bist_hw n V = \<lparr>rd1 = \<lambda>_ h. (0, h), rd2 = \<lambda>_ h. (0, h),
     rd4 = \<lambda>a h. if a = 0x30000180
       then ((breg h a AND NOT 0xc) OR (if bleft h = 0 then if bok h then 0xc else 4 else 0), h\<lparr>bleft := bleft h - 1\<rparr>)
       else (breg h a, h),
     wr1 = \<lambda>_ _ h. h, wr2 = \<lambda>_ _ h. h,
     wr4 = \<lambda>a v h. let g = (breg h)(a := v)
       in if a = 0x30000180 \<and> v AND 3 = 3 then \<lparr>breg = g, bleft = n, bok = V g\<rparr> else h\<lparr>breg := g\<rparr>,
     hw_spins = 0\<rparr>"

lemma status_bits:
  "(((x :: u32) AND NOT 0xc) OR (if p then if q then 0xc else 4 else 0)) AND 4 \<noteq> 0 \<longleftrightarrow> p"
  "((x AND NOT 0xc) OR (if p then if q then 0xc else 4 else 0)) AND 8 \<noteq> 0 \<longleftrightarrow> p \<and> q"
  by (simp_all add: word_ao_dist and.assoc)

lemma bist_read:
  "a \<noteq> 0x30000180 \<Longrightarrow> MEM4 (bist_hw n V) a s = Ret (breg (hdev s) a) s"
  "MEM4 (bist_hw n V) 0x30000180 s = Ret ((breg (hdev s) 0x30000180 AND NOT 0xc) OR
     (if bleft (hdev s) = 0 then if bok (hdev s) then 0xc else 4 else 0)) (s\<lparr>hdev := (hdev s)\<lparr>bleft := bleft (hdev s) - 1\<rparr>\<rparr>)"
  by (cases s; simp add: MEM4_def volatile_def bist_hw_def)+

lemma bist_polls:
  "bist_wait (bist_hw n V) k s = Ret (k - bleft (hdev s)) (s\<lparr>hdev := (hdev s)\<lparr>bleft := bleft (hdev s) - k\<rparr>\<rparr>)"
proof (induction k arbitrary: s)
  case 0
  show ?case by (cases s) (simp add: ret_def)
next
  case (Suc k)
  show ?case
    unfolding bist_wait.simps bnd_def bist_read outcome.case status_bits
    using Suc by (cases "bleft (hdev s)") (simp_all add: ret_def)
qed

text \<open>The control register after the third store, which starts the test.\<close>

definition bist_ctl :: "u32 \<Rightarrow> u32 \<Rightarrow> u32 \<Rightarrow> bool" where
  "bist_ctl burst ty c = (field 0 2 c = 3 \<and> field 4 2 c = 0 \<and> field 8 2 c = take_bit 2 ty \<and> field 12 2 c = 0 \<and>
     field 16 10 c = take_bit 10 burst)"

lemma low_field: "v AND 3 = field 0 2 v"
proof -
  have "(3 :: u32) = mask 2" by (simp add: mask_eq_exp_minus_1)
  then show ?thesis by (simp add: field_def take_bit_eq_mask)
qed

lemma wp_bist_store:
  assumes "\<And>h. breg h = (breg (hdev s))(a := v) \<Longrightarrow> Q () (s\<lparr>hdev := h\<rparr>)"
  shows "wp (set4 (bist_hw n V) a v) Q E s"
  unfolding set4_def wp_modify by (rule assms) (simp add: bist_hw_def Let_def)

lemma wp_bist_go:
  assumes "field 0 2 v = 3"
    and "Q () (s\<lparr>hdev := \<lparr>breg = (breg (hdev s))(0x30000180 := v), bleft = n, bok = V ((breg (hdev s))(0x30000180 := v))\<rparr>\<rparr>)"
  shows "wp (set4 (bist_hw n V) 0x30000180 v) Q E s"
  unfolding set4_def wp_modify using assms by (simp add: bist_hw_def Let_def low_field)

lemma wp_bist_load:
  assumes "\<And>h p q. breg h = breg (hdev s) \<Longrightarrow>
    Q ((breg (hdev s) 0x30000180 AND NOT 0xc) OR (if p then if q then 0xc else 4 else 0)) (s\<lparr>hdev := h\<rparr>)"
  shows "wp (MEM4 (bist_hw n V) 0x30000180) Q E s"
  unfolding wp_def bist_read outcome.case by (rule assms) simp

lemma low_bits: "c AND mask 4 = c \<Longrightarrow> bit c k \<Longrightarrow> k < 4" for c :: u32
  by (metis bit_and_iff bit_mask_iff)

lemma field_status:
  assumes "4 \<le> sh" "c AND mask 4 = c"
  shows "field sh n ((x AND NOT 0xc) OR c) = field sh n x"
proof -
  have "(0xc :: u32) AND mask 4 = 0xc" by (simp add: mask_eq_exp_minus_1)
  then have "\<not> bit (0xc :: u32) (sh + k)" "\<not> bit c (sh + k)" for k
    using low_bits [of "0xc" "sh + k"] low_bits [OF assms(2), of "sh + k"] assms(1) by auto
  then show ?thesis by (intro bit_word_eqI) (auto simp: field_def bit_simps dest: bit_imp_le_length)
qed

lemma field_and_not:
  assumes "\<And>k. \<not> bit m (sh + k)"
  shows "field sh n (x AND NOT m) = field sh n x"
  by (rule bit_word_eqI) (auto simp: field_def bit_simps assms dest: bit_imp_le_length)

lemma field_off13: "field 16 10 (x AND - 8193) = field 16 10 x"
proof -
  have "\<not> bit (push_bit 13 1 :: u32) (16 + k)" for k by (simp only: bit_push_bit_iff bit_1_iff) simp
  from field_and_not [OF this] show ?thesis by simp
qed

text \<open>Everything up to the start of the test.\<close>

lemma wp_bist_start:
  assumes "burst = take_bit 10 burst"
    and "\<And>g. \<lbrakk>bist_ctl burst ty (g 0x30000180); g 0x30000184 = 0x10000; g 0x30000188 = 0; g 0x3000018c = 0; g 0x30000198 = 0;
      \<forall>a. a \<notin> {0x30000180, 0x30000184, 0x30000188, 0x3000018c, 0x30000198} \<longrightarrow> g a = breg (hdev s) a\<rbrakk> \<Longrightarrow>
      wp c Q E (s\<lparr>hdev := \<lparr>breg = g, bleft = n, bok = V g\<rparr>\<rparr>)"
  shows "wp (thn (steps [set4 (bist_hw n V) 0x30000198 0, set4 (bist_hw n V) 0x30000184 0x10000, set4 (bist_hw n V) 0x30000188 0,
      set4 (bist_hw n V) 0x3000018c 0])
    (bnd (MEM4 (bist_hw n V) 0x30000180) (\<lambda>a.
      thn (steps [set4 (bist_hw n V) 0x30000180 (insert_bits (a OR push_bit 13 1 OR 1) 16 10 burst),
        set4 (bist_hw n V) 0x30000180 (insert_bits (insert_bits (a OR push_bit 13 1 OR 1) 16 10 burst AND NOT (push_bit 13 1)) 8 2 ty),
        put_fields_mem (bist_hw n V) 0x30000180 [(12, 2, 0), (4, 2, 0), (0, 2, 3)]]) c))) Q E s"
proof -
  have ctl: "bist_ctl burst ty (insert_bits (insert_bits (insert_bits v 12 2 0) 4 2 0) 0 2 3)"
    if v: "v = (insert_bits (insert_bits x 16 10 burst AND NOT (push_bit 13 1)) 8 2 ty AND NOT 0xc) OR (if p then if q then 0xc else 4 else 0)"
    for v x p q
  proof -
    have "take_bit 2 (3 :: u32) = 3" by (simp add: take_bit_eq_mod)
    moreover have "(if p then if q then 0xc else 4 else 0) AND mask 4 = (if p then if q then 0xc else 4 else (0 :: u32))"
      by (simp add: mask_eq_exp_minus_1)
    then have "field 8 2 v = take_bit 2 ty" "field 16 10 v = take_bit 10 burst"
      unfolding v by (simp_all only: field_status) (simp_all add: field_insert field_insert_other field_off13)
    ultimately show ?thesis by (simp add: bist_ctl_def field_insert field_insert_other)
  qed
  show ?thesis
    unfolding steps_def foldr.simps put_fields_mem_def comp_apply wp_thn wp_bnd wp_ret id_apply
  proof ((rule wp_bist_store)+, rule wp_bist_load, (rule wp_bist_store)+, rule wp_bist_load, rule wp_bist_go, goal_cases)
    case 1
    show ?case by (simp add: put_fields_def field_insert take_bit_eq_mod)
  next
    case (2 h ha hb hc hd p q he hf hg pa qa)
    let ?v = "breg hf 0x30000180 AND NOT 0xc OR (if pa then if qa then 0xc else 4 else 0)"
    let ?g = "(breg hf)(0x30000180 := put_fields [(12, 2, 0), (4, 2, 0), (0, 2, 3)] ?v)"
    have f: "breg hf = (breg (hdev s))(0x30000198 := 0, 0x30000184 := 0x10000, 0x30000188 := 0, 0x3000018c := 0,
        0x30000180 := breg hf 0x30000180)"
      using 2 by (simp add: fun_eq_iff)
    have "wp c Q E (s\<lparr>hdev := \<lparr>breg = ?g, bleft = n, bok = V ?g\<rparr>\<rparr>)"
    proof (rule assms(2))
      have "put_fields [(12, 2, 0), (4, 2, 0), (0, 2, 3)] ?v =
          insert_bits (insert_bits (insert_bits ?v 12 2 0) 4 2 0) 0 2 3" by (simp add: put_fields_def)
      moreover have "bist_ctl burst ty (insert_bits (insert_bits (insert_bits ?v 12 2 0) 4 2 0) 0 2 3)"
        by (rule ctl) (use 2 in simp)
      ultimately show "bist_ctl burst ty (?g 0x30000180)" by simp
    qed (subst f, simp)+
    then show ?case using 2 by simp
  qed
qed

text \<open>Waiting for the test and reading its verdict.\<close>

lemma stop_bit: "((w :: u32) AND NOT 1) AND 3 \<noteq> 3"
proof
  assume a: "(w AND NOT 1) AND 3 = 3"
  have "((w AND NOT 1) AND 3) AND 1 = 0" by (rule bit_word_eqI) (auto simp: bit_simps)
  then show False unfolding a by simp
qed

lemma bist_verdict:
  assumes "hdev s = \<lparr>breg = g, bleft = n, bok = V g\<rparr>" "g 0x30000184 = 0x10000"
  shows "wp (bnd (MEM4 (bist_hw n V) 0x30000184) (\<lambda>a. bnd (bist_wait (bist_hw n V) (unat ((a - 1) * 2))) (\<lambda>k.
      thn (and4 (bist_hw n V) 0x30000180 (NOT 1))
        (if k < 1 then ret (- 2) else bnd (MEM4 (bist_hw n V) 0x30000180) (\<lambda>a. ret (if a AND 8 \<noteq> 0 then 0 else - 1))))))
    (\<lambda>r t. r = (if 131070 \<le> n then - 2 else if V g then 0 else - 1)) E s"
proof -
  have wait: "wp (bist_wait (bist_hw n V) k) Q E u = Q (k - bleft (hdev u)) (u\<lparr>hdev := (hdev u)\<lparr>bleft := bleft (hdev u) - k\<rparr>\<rparr>)"
    for k Q E u by (simp add: wp_def bist_polls)
  have load: "wp (MEM4 (bist_hw n V) 0x30000180) Q E u = Q ((breg (hdev u) 0x30000180 AND NOT 0xc) OR
     (if bleft (hdev u) = 0 then if bok (hdev u) then 0xc else 4 else 0)) (u\<lparr>hdev := (hdev u)\<lparr>bleft := bleft (hdev u) - 1\<rparr>\<rparr>)"
    for Q E u by (simp add: wp_def bist_read)
  have stop: "wp (and4 (bist_hw n V) 0x30000180 (NOT 1)) Q E u =
      Q () (u\<lparr>hdev := (hdev u)\<lparr>bleft := bleft (hdev u) - 1, breg := (breg (hdev u))(0x30000180 :=
        ((breg (hdev u) 0x30000180 AND NOT 0xc) OR (if bleft (hdev u) = 0 then if bok (hdev u) then 0xc else 4 else 0)) AND NOT 1)\<rparr>\<rparr>)"
    for Q E u
    unfolding and4_def wp_bnd load set4_def wp_modify using stop_bit by (simp add: bist_hw_def Let_def)
  have first: "wp (MEM4 (bist_hw n V) 0x30000184) Q E s = Q 0x10000 s" for Q
    using assms by (simp add: wp_def bist_read)
  have n: "unat ((0x10000 - 1) * 2 :: u32) = 131070" by simp
  show ?thesis
    unfolding wp_bnd wp_thn first wait stop n
    by (cases "131070 \<le> n") (simp_all add: wp_ret wp_bnd load assms(1) word_ao_dist and.assoc)
qed

text \<open>The burst length that the controller is set to, as a power of two.\<close>

definition burst_code :: "(u32 \<Rightarrow> u32) \<Rightarrow> u32" where
  "burst_code g = field 4 3 (g 0x30000000)"

text \<open>
  C17: The self-test of the DRAM returns the verdict of the test block. A burst length above 16
  in the controller's setting gives -3 and no test; a test that is not finished by the 131070th
  look at it gives -2; otherwise the answer is 0 if the block found no error and -1 if it found
  one. The test that the verdict is about is the one that was wanted: of the given type, in
  bursts of the set length, over 0x10000 words from address 0 with seed 0, in mode 0, and no
  other register of the controller has been touched.
\<close>

theorem self_test_verdict:
  "\<exists>g t. sipi_bist_types_test (bist_hw n V) ty s = Ret
      (if burst_code (breg (hdev s)) > 4 then - 3 else if 131070 \<le> n then - 2 else if V g then 0 else - 1) t \<and>
    (burst_code (breg (hdev s)) > 4 \<longrightarrow> t = s) \<and>
    (burst_code (breg (hdev s)) \<le> 4 \<longrightarrow> bist_ctl (push_bit (unat (burst_code g)) 1) ty (g 0x30000180) \<and>
       g 0x30000184 = 0x10000 \<and> g 0x30000188 = 0 \<and> g 0x3000018c = 0 \<and> g 0x30000198 = 0 \<and>
       (\<forall>a. a \<notin> {0x30000180, 0x30000184, 0x30000188, 0x3000018c, 0x30000198} \<longrightarrow> g a = breg (hdev s) a))"
proof -
  let ?H = "bist_hw n V" and ?k = "burst_code (breg (hdev s))"
  let ?ok = "\<lambda>g. bist_ctl (push_bit (unat (burst_code g)) 1) ty (g 0x30000180) \<and>
       g 0x30000184 = 0x10000 \<and> g 0x30000188 = 0 \<and> g 0x3000018c = 0 \<and> g 0x30000198 = 0 \<and>
       (\<forall>a. a \<notin> {0x30000180, 0x30000184, 0x30000188, 0x3000018c, 0x30000198} \<longrightarrow> g a = breg (hdev s) a)"
  have k: "drop_bit 4 (breg (hdev s) 0x30000000) AND 7 = ?k"
  proof -
    have "(7 :: u32) = mask 3" by (simp add: mask_eq_exp_minus_1)
    then show ?thesis by (simp add: burst_code_def field_def take_bit_eq_mask)
  qed
  have first: "wp (MEM4 ?H 0x30000000) Q E s = Q (breg (hdev s) 0x30000000) s" for Q E
    by (simp add: wp_def bist_read)
  have len: "drop_bit 2 (if (0x40000 :: u32) > push_bit 20 64 then push_bit 20 64 else 0x40000) = (0x10000 :: u32)" by (simp add: drop_bit_eq_div)
  have "wp (sipi_bist_types_test ?H ty) (\<lambda>r t. \<exists>g. r =
      (if ?k > 4 then - 3 else if 131070 \<le> n then - 2 else if V g then 0 else - 1) \<and> (?k > 4 \<longrightarrow> t = s) \<and> (?k \<le> 4 \<longrightarrow> ?ok g)) (\<lambda>_ _. False) s"
  proof (cases "?k > 4")
    case True
    then have "\<not> ?k \<le> 4" by simp
    with True show ?thesis
      unfolding sipi_bist_types_test_def Let_def wp_bnd first k if_P [OF True] by (simp add: wp_ret)
  next
    case False
    then have "unat ?k \<le> 4" by (simp add: word_le_nat_alt not_less)
    then have "unat ?k = 0 \<or> unat ?k = 1 \<or> unat ?k = 2 \<or> unat ?k = 3 \<or> unat ?k = 4" by linarith
    then have b: "push_bit (unat ?k) 1 = take_bit 10 (push_bit (unat ?k) 1 :: u32)"
      by (elim disjE) (simp_all only:, simp_all add: take_bit_eq_mod)
    show ?thesis
      unfolding sipi_bist_types_test_def Let_def len wp_bnd [of "MEM4 ?H 0x30000000"] first k if_not_P [OF False]
    proof (rule wp_bist_start [OF b])
      fix g
      assume g: "bist_ctl (push_bit (unat ?k) 1) ty (g 0x30000180)" "g 0x30000184 = 0x10000" "g 0x30000188 = 0"
        "g 0x3000018c = 0" "g 0x30000198 = 0"
        "\<forall>a. a \<notin> {0x30000180, 0x30000184, 0x30000188, 0x3000018c, 0x30000198} \<longrightarrow> g a = breg (hdev s) a"
      then have "burst_code g = ?k" by (simp add: burst_code_def)
      with g have g: "?ok g" by simp
      show "wp (bnd (MEM4 ?H 0x30000184) (\<lambda>a. bnd (bist_wait ?H (unat ((a - 1) * 2))) (\<lambda>k.
          thn (and4 ?H 0x30000180 (NOT 1)) (if k < 1 then ret (- 2) else bnd (MEM4 ?H 0x30000180) (\<lambda>a. ret (if a AND 8 \<noteq> 0 then 0 else - 1))))))
        (\<lambda>r t. \<exists>g. r = (if 131070 \<le> n then - 2 else if V g then 0 else - 1) \<and> (?k > 4 \<longrightarrow> t = s) \<and> (?k \<le> 4 \<longrightarrow> ?ok g))
        (\<lambda>_ _. False) (s\<lparr>hdev := \<lparr>breg = g, bleft = n, bok = V g\<rparr>\<rparr>)"
      proof (rule wp_mono [OF bist_verdict [where E = "\<lambda>_ _. False"]])
        fix r t
        assume r: "r = (if 131070 \<le> n then - 2 else if V g then 0 else - 1)"
        show "\<exists>g. r = (if 131070 \<le> n then - 2 else if V g then 0 else - 1) \<and> (?k > 4 \<longrightarrow> t = s) \<and> (?k \<le> 4 \<longrightarrow> ?ok g)"
          using r g False by (intro exI [of _ g] conjI impI) simp_all
      qed (use g in simp_all)
    qed
  qed
  from wp_Ret [OF this] show ?thesis by blast
qed

definition bist_state :: "bist hws" where
  "bist_state = \<lparr>packet_temp = (\<lambda>_. 0), rx = rx_init, tx = [], opens = [], ram = (\<lambda>_. 0), dl_start = -1, dl_size = 0,
     dl_recv = 0, hdev = \<lparr>breg = (\<lambda>_. 0x30), bleft = 0, bok = False\<rparr>\<rparr>"

theorem self_test_verdict_witness:
  "\<exists>t. sipi_bist_types_test (bist_hw 1000 (\<lambda>g. field 8 2 (g 0x30000180) = 2)) 2 bist_state = Ret 0 t"
proof -
  have k: "burst_code (breg (hdev bist_state)) = 3"
    by (simp add: bist_state_def burst_code_def field_def take_bit_eq_mod drop_bit_eq_div)
  show ?thesis
    using self_test_verdict [of 1000 "\<lambda>g. field 8 2 (g 0x30000180) = 2" 2 bist_state] unfolding k
    by (auto simp: bist_ctl_def take_bit_eq_mod)
qed

section \<open>The range that the training chooses\<close>

text \<open>\<open>passing P a b\<close>: all delays from \<open>a\<close> to \<open>b\<close> pass.\<close>

definition passing :: "(int \<Rightarrow> bool) \<Rightarrow> int \<Rightarrow> int \<Rightarrow> bool" where
  "passing P a b = (\<forall>j. a \<le> j \<and> j \<le> b \<longrightarrow> P j)"

text \<open>What is known before \<open>j\<close> is tested; the search began at \<open>lo\<close>.\<close>

definition scanned :: "(int \<Rightarrow> bool) \<Rightarrow> int \<Rightarrow> int \<Rightarrow> int \<Rightarrow> bool" where
  "scanned P lo j first =
     (0 \<le> lo \<and> lo \<le> j \<and>
      (if first < 0 then (j = lo \<or> \<not> P (j - 1)) \<and> (\<forall>a b. lo \<le> a \<and> a \<le> b \<and> b < j \<and> passing P a b \<longrightarrow> b - a \<le> 16)
       else lo \<le> first \<and> first < j \<and> passing P first (j - 1) \<and> (first = lo \<or> \<not> P (first - 1)) \<and>
         (\<forall>a b. lo \<le> a \<and> a \<le> b \<and> b < first \<and> passing P a b \<longrightarrow> b - a \<le> 16)))"

definition eye :: "(int \<Rightarrow> bool) \<Rightarrow> int \<Rightarrow> int \<Rightarrow> int \<Rightarrow> int \<Rightarrow> bool" where
  "eye P lo fin first stop =
     (stop \<le> fin \<and> scanned P lo (stop + 1) first \<and>
      (stop = fin \<or> (0 \<le> first \<and> \<not> P (stop + 1) \<and> stop - first > 16)))"

lemma scanned_pass:
  assumes "scanned P lo j first" "P j"
  shows "scanned P lo (j + 1) (if first < 0 then j else first)"
proof (cases "first < 0")
  case False
  have "P i" if "first \<le> i" "i \<le> j" for i
    using assms that False by (cases "i = j") (auto simp: scanned_def passing_def)
  then show ?thesis using assms False by (auto simp: scanned_def passing_def)
qed (use assms in \<open>auto simp: scanned_def passing_def\<close>)

lemma scanned_fail:
  assumes "scanned P lo j first" "\<not> P j" "\<not> (0 \<le> first \<and> (j - 1) - first > 16)"
  shows "scanned P lo (j + 1) (- 1)"
proof -
  have "b - a \<le> 16" if r: "lo \<le> a" "a \<le> b" "b < j + 1" "passing P a b" for a b
  proof -
    have b: "b < j" using r assms(2) by (cases "b = j") (auto simp: passing_def)
    show ?thesis
    proof (cases "first < 0 \<or> b < first")
      case True
      then show ?thesis using assms(1) r b by (auto simp: scanned_def split: if_splits)
    next
      case False
      have "first \<le> a"
      proof (rule ccontr)
        assume "\<not> first \<le> a"
        then have "P (first - 1)" "first \<noteq> lo" using r False by (auto simp: passing_def)
        then show False using assms(1) False by (auto simp: scanned_def)
      qed
      then show ?thesis using assms(3) False b by auto
    qed
  qed
  then show ?thesis using assms(1,2) by (auto simp: scanned_def)
qed

lemma train_scan_eye:
  assumes "\<And>j. returns (test j) (\<lambda>r. (r = 0) = P j)" "scanned P lo j first" "- 1 \<le> first"
  shows "returns (train_scan test n j first) (\<lambda>(f, l). eye P lo (j + int n - 1) f l)"
  using assms(2,3)
proof (induction n arbitrary: j first)
  case 0
  then show ?case by (simp add: returns_ret eye_def)
next
  case (Suc n)
  have fin: "j + int (Suc n) - 1 = (j + 1) + int n - 1" by simp
  show ?case
    unfolding train_scan.simps fin
  proof (rule returns_bnd [OF assms(1)], intro returns_if)
    fix r assume r: "(r = 0) = P j" and "r \<noteq> 0"
    then have nP: "\<not> P j" by simp
    show "returns (train_scan test n (j + 1) (- 1)) (\<lambda>(f, l). eye P lo (j + 1 + int n - 1) f l)"
      if "\<not> (0 \<le> first \<and> 16 < j - 1 - first)"
      by (rule Suc.IH) (use scanned_fail [OF Suc.prems(1) nP] that in auto)
    show "returns (ret (first, j - 1)) (\<lambda>(f, l). eye P lo (j + 1 + int n - 1) f l)"
      if "0 \<le> first \<and> 16 < j - 1 - first"
      using that Suc.prems(1) nP by (simp add: returns_ret eye_def)
  next
    fix r assume "(r = 0) = P j" "\<not> r \<noteq> 0"
    then have "P j" by simp
    then show "returns (train_scan test n (j + 1) (if first < 0 then j else first)) (\<lambda>(f, l). eye P lo (j + 1 + int n - 1) f l)"
      using scanned_pass [OF Suc.prems(1)] Suc.prems by (intro Suc.IH) (auto simp: scanned_def)
  qed
qed

text \<open>
  C18: If whether a delay works does not change while it is searched for, the training search
  over \<open>n\<close> delays ends with the first range of delays that work which is wider than 16 steps
  or reaches the last delay: all of the range works, it cannot be extended at its ends, and no
  range before it is that wide. If it reports none, no range is that wide and the last delay
  does not work.
\<close>

theorem train_scan_finds_eye:
  assumes "\<And>j. returns (test j) (\<lambda>r. (r = 0) = P j)"
  shows "\<exists>first stop t. train_scan test n 0 (- 1) s = Ret (first, stop) t \<and>
    (if 0 \<le> first
     then first \<le> stop \<and> stop < int n \<and> passing P first stop \<and> (first = 0 \<or> \<not> P (first - 1)) \<and>
       (stop = int n - 1 \<or> (\<not> P (stop + 1) \<and> stop - first > 16)) \<and>
       (\<forall>a b. 0 \<le> a \<and> a \<le> b \<and> b < first \<and> passing P a b \<longrightarrow> b - a \<le> 16)
     else (n = 0 \<or> \<not> P (int n - 1)) \<and> (\<forall>a b. 0 \<le> a \<and> a \<le> b \<and> b < int n \<and> passing P a b \<longrightarrow> b - a \<le> 16))"
proof -
  have "scanned P 0 0 (- 1)" by (simp add: scanned_def)
  from returns_Ret [OF train_scan_eye [OF assms this], of n s] obtain first stop t where
    "train_scan test n 0 (- 1) s = Ret (first, stop) t" "eye P 0 (int n - 1) first stop" by auto
  then show ?thesis by (auto simp: eye_def scanned_def split: if_splits)
qed

theorem train_scan_finds_eye_witness:
  "\<exists>first stop t. train_scan (\<lambda>j. ret (if 3 \<le> j \<and> j \<le> 30 then 0 else - 1)) 40 0 (- 1) () = Ret (first, stop) t \<and>
     (0 \<le> first \<longrightarrow> first \<le> stop \<and> stop < int 40)"
  using train_scan_finds_eye [of "\<lambda>j. ret (if 3 \<le> j \<and> j \<le> 30 then 0 else - 1)" "\<lambda>j. 3 \<le> j \<and> j \<le> 30" 40 "()"]
  by (auto simp: returns_ret split: if_splits)

end
