(* ===== verification/T117ZqRt.thy ===== *)
theory T117ZqRt
  imports T117RamRt
begin

text \<open>
  The calibration of the drivers (\<open>dmc_zq_cal\<close>) on a controller whose comparator flips at a
  strength of its own for the N and the P side.
\<close>

unbundle bit_operations_syntax

section \<open>The controller\<close>

text \<open>
  The registers are a memory; bit 17 of the calibration register is the comparator, of the N
  strength (bits 0 to 4) below \<open>tn\<close> while bit 15 is clear, of the P strength (bits 5 to 9)
  from \<open>tp\<close> on while it is set.
\<close>

definition zq_flag :: "nat \<Rightarrow> nat \<Rightarrow> u32 \<Rightarrow> bool" where
  "zq_flag tn tp v = (if bit v 15 then tp \<le> unat (field 5 5 v) else unat (field 0 5 v) < tn)"

definition zq_chip :: "nat \<Rightarrow> nat \<Rightarrow> (u32 \<Rightarrow> u32) mmio" where
  "zq_chip tn tp = \<lparr>rd1 = (\<lambda>_ h. (0, h)), rd2 = (\<lambda>_ h. (0, h)),
     rd4 = (\<lambda>a h. (if a = 0x30000008 then insert_bits (h a) 17 1 (of_bool (zq_flag tn tp (h a))) else h a, h)),
     wr1 = (\<lambda>_ _ h. h), wr2 = (\<lambda>_ _ h. h), wr4 = (\<lambda>a v h. h(a := v)), hw_spins = 40\<rparr>"

definition ZQ :: u32 where "ZQ = 0x30000008"

definition zq_read :: "nat \<Rightarrow> nat \<Rightarrow> u32 \<Rightarrow> u32" where
  "zq_read tn tp v = insert_bits v 17 1 (of_bool (zq_flag tn tp v))"

abbreviation with_zq :: "((u32 \<Rightarrow> u32), 'x) hws_scheme \<Rightarrow> u32 \<Rightarrow> ((u32 \<Rightarrow> u32), 'x) hws_scheme" where
  "with_zq s v \<equiv> s\<lparr>hdev := (hdev s)(ZQ := v)\<rparr>"

lemma zq_ops:
  "MEM4 (zq_chip tn tp) ZQ s = Ret (zq_read tn tp (hdev s ZQ)) s"
  "a \<noteq> ZQ \<Longrightarrow> MEM4 (zq_chip tn tp) a s = Ret (hdev s a) s"
  "set4 (zq_chip tn tp) a v s = Ret () (s\<lparr>hdev := (hdev s)(a := v)\<rparr>)"
  by (simp_all add: MEM4_def set4_def volatile_def modify_def zq_chip_def zq_read_def ZQ_def)

lemma zq_delay: "dmc_sprd_delay (zq_chip tn tp) n s = Ret () s"
proof -
  have "steps (replicate k (thn (MEM4 (zq_chip tn tp) 0x402b00c4) (ret ()))) s = Ret () s" for k
    by (induction k) (simp_all add: steps_def thn_def bnd_def ret_def zq_ops ZQ_def)
  then show ?thesis by (simp add: dmc_sprd_delay_def)
qed

lemma zq_read_bits:
  "bit (zq_read tn tp v) 17 = zq_flag tn tp v" "bit (zq_read tn tp v) 15 = bit v 15"
  "sh + n \<le> 17 \<Longrightarrow> field sh n (zq_read tn tp v) = field sh n v"
  by (simp_all add: zq_read_def bit_insert_bits field_insert_other)

section \<open>One search\<close>

text \<open>
  Which strengths a search passes over: \<open>side\<close> is the value of bit 15, \<open>c\<close> the strength.
\<close>

definition zq_go :: "nat \<Rightarrow> nat \<Rightarrow> bool \<Rightarrow> bool \<Rightarrow> u32 \<Rightarrow> bool" where
  "zq_go tn tp side want c = ((if side then tp \<le> unat (take_bit 5 c) else unat (take_bit 5 c) < tn) = want)"

lemma zq_flag_insert:
  "bit v 15 = side \<Longrightarrow> sh = (if side then 5 else 0) \<Longrightarrow>
     zq_flag tn tp (insert_bits v sh 5 c) = (if side then tp \<le> unat (take_bit 5 c) else unat (take_bit 5 c) < tn)"
  by (auto simp: zq_flag_def bit_insert_bits field_insert)

lemma zq_search_stops:
  assumes "bit v 15 = side" "sh = (if side then 5 else 0)"
    and "\<forall>i < N. zq_go tn tp side want (c + of_nat i * d)" "\<not> zq_go tn tp side want (c + of_nat N * d)" "N < k"
  shows "\<exists>w. zq_search (zq_chip tn tp) k sh want d (insert_bits v sh 5 c) c (with_zq s (insert_bits v sh 5 c)) =
    Ret (c + of_nat N * d) (with_zq s w)"
  using assms
proof (induction N arbitrary: k v c s)
  case 0
  then obtain k' where k: "k = Suc k'" by (cases k) auto
  have "zq_flag tn tp (insert_bits v sh 5 c) \<noteq> want"
    using 0 unfolding zq_flag_insert [OF 0(1,2)] by (simp add: zq_go_def)
  then show ?case
    unfolding k zq_search.simps ZQ_def [symmetric]
    by (auto simp: bnd_def zq_ops zq_read_bits ret_def)
next
  case (Suc N)
  obtain k' where k: "k = Suc k'" using Suc.prems by (cases k) auto
  let ?w = "insert_bits v sh 5 c" and ?w' = "insert_bits (insert_bits v sh 5 c) sh 5 (c + d)"
  have "zq_flag tn tp ?w = want"
    using Suc.prems(3) [rule_format, of 0] unfolding zq_flag_insert [OF Suc.prems(1,2)] by (simp add: zq_go_def)
  then have step: "zq_search (zq_chip tn tp) k sh want d ?w c (with_zq s ?w) =
      zq_search (zq_chip tn tp) k' sh want d ?w' (c + d) (with_zq s ?w')"
    unfolding k zq_search.simps ZQ_def [symmetric]
    by (simp add: bnd_def thn_def zq_ops zq_read_bits zq_delay Let_def)
  have "\<exists>w. zq_search (zq_chip tn tp) k' sh want d ?w' (c + d) (with_zq s ?w') = Ret (c + d + of_nat N * d) (with_zq s w)"
  proof (rule Suc.IH)
    show "bit ?w 15 = side" using Suc.prems(1,2) by (auto simp: bit_insert_bits)
    show "\<forall>i < N. zq_go tn tp side want (c + d + of_nat i * d)"
      using Suc.prems(3) by (auto simp: algebra_simps dest: spec [where x = "Suc i" for i])
    show "\<not> zq_go tn tp side want (c + d + of_nat N * d)" using Suc.prems(4) by (simp add: algebra_simps)
  qed (use Suc.prems k in auto)
  moreover have "c + d + of_nat N * d = c + of_nat (Suc N) * d" by (simp add: algebra_simps)
  ultimately show ?case unfolding step by (simp only:)
qed

lemma zq_from_stops:
  assumes "bit v 15 = side" "sh = (if side then 5 else 0)"
    and "\<forall>i < N. zq_go tn tp side want (c + of_nat i * d)" "\<not> zq_go tn tp side want (c + of_nat N * d)" "N < 40"
  shows "\<exists>w. zq_from (zq_chip tn tp) sh want d v c s = Ret (c + of_nat N * d) (with_zq s w)"
proof -
  have "hw_spins (zq_chip tn tp) = 40" by (simp add: zq_chip_def)
  then show ?thesis
    using zq_search_stops [OF assms(1-4), of 40 s] assms(5)
    unfolding zq_from_def ZQ_def [symmetric] by (simp add: thn_def bnd_def zq_ops Let_def)
qed

section \<open>The whole calibration\<close>

lemma zq_small: "n < 32 \<Longrightarrow> unat (take_bit 5 (of_nat n :: u32)) = n"
  by (simp add: unsigned_take_bit_eq unat_of_nat take_bit_nat)

lemma zq_go_nat:
  "n < 32 \<Longrightarrow> zq_go tn tp side want (of_nat n) = ((if side then tp \<le> n else n < tn) = want)"
  by (simp add: zq_go_def zq_small)

lemma zq_up: "0 + of_nat i * 1 = (of_nat i :: u32)"
  by simp

lemma zq_down: "i \<le> 31 \<Longrightarrow> (31 :: u32) + of_nat i * - 1 = of_nat (31 - i)"
  by (simp add: of_nat_diff)

text \<open>From 31 down, the search stops below the strength \<open>m\<close>.\<close>

lemma zq_from_down:
  assumes "bit v 15 = side" "sh = (if side then 5 else 0)" "1 \<le> m" "m \<le> 31"
    and "\<forall>n < 32. ((if side then tp \<le> n else n < tn) = want) = (m \<le> n)"
  shows "\<exists>w. zq_from (zq_chip tn tp) sh want (- 1) v 31 s = Ret (of_nat (m - 1)) (with_zq s w)"
proof -
  have m: "31 - (32 - m) = m - 1" "32 - m \<le> 31" using assms(3,4) by auto
  have "\<exists>w. zq_from (zq_chip tn tp) sh want (- 1) v 31 s = Ret (31 + of_nat (32 - m) * - 1) (with_zq s w)"
  proof (rule zq_from_stops [OF assms(1,2)])
    show "\<forall>i < 32 - m. zq_go tn tp side want (31 + of_nat i * - 1)"
    proof (intro allI impI)
      fix i assume "i < 32 - m"
      then have i: "i \<le> 31" "m \<le> 31 - i" using assms(3) by auto
      show "zq_go tn tp side want (31 + of_nat i * - 1)"
        unfolding zq_down [OF i(1)] by (subst zq_go_nat) (use i assms(5) in auto)
    qed
    show "\<not> zq_go tn tp side want (31 + of_nat (32 - m) * - 1)"
      unfolding zq_down [OF m(2)] m(1) by (subst zq_go_nat) (use assms(3-5) in auto)
  qed simp
  then show ?thesis unfolding zq_down [OF m(2)] m(1) .
qed

text \<open>From 0 up, it stops at \<open>m\<close>.\<close>

lemma zq_from_up:
  assumes "bit v 15 = side" "sh = (if side then 5 else 0)" "m \<le> 31"
    and "\<forall>n < 32. ((if side then tp \<le> n else n < tn) = want) = (n < m)"
  shows "\<exists>w. zq_from (zq_chip tn tp) sh want 1 v 0 s = Ret (of_nat m) (with_zq s w)"
proof -
  have "\<exists>w. zq_from (zq_chip tn tp) sh want 1 v 0 s = Ret (0 + of_nat m * 1) (with_zq s w)"
  proof (rule zq_from_stops [OF assms(1,2)])
    show "\<forall>i < m. zq_go tn tp side want (0 + of_nat i * 1)"
      unfolding zq_up using assms(3,4) by (auto simp: zq_go_nat)
    show "\<not> zq_go tn tp side want (0 + of_nat m * 1)"
      unfolding zq_up using assms(3,4) by (auto simp: zq_go_nat)
  qed (use assms(3) in simp)
  then show ?thesis by simp
qed

lemma zq_side: "bit (v AND NOT (push_bit 15 1)) 15 = False" "bit (v OR push_bit 15 1) 15 = True" for v :: u32
  by (simp_all add: bit_simps)

lemma zq_mean:
  assumes "1 \<le> m" "m \<le> 31"
  shows "drop_bit 1 (of_nat m + of_nat (m - 1) :: u32) = of_nat (m - 1)"
proof -
  obtain k where k: "m = Suc k" "k \<le> 30" using assms by (cases m) auto
  have "unat (of_nat m + of_nat (m - 1) :: u32) = Suc (2 * k)"
    unfolding of_nat_add [symmetric] by (simp only: unat_of_nat) (use k in simp)
  then have "unat (drop_bit 1 (of_nat m + of_nat (m - 1) :: u32)) = Suc (2 * k) div 2 ^ 1" by (simp only: unat_drop_bit)
  moreover have "unat (of_nat (m - 1) :: u32) = k" using k by (simp add: unat_of_nat)
  ultimately show ?thesis unfolding word_unat_eq_iff by simp
qed

text \<open>
  C19: On a controller whose comparator flips at the N strength \<open>tn\<close> and the P strength \<open>tp\<close>,
  the calibration ends, and the strengths it gives to both byte lanes are the last ones before
  the flip, whatever the registers held before.
\<close>

theorem zq_cal_finds_strength:
  assumes "1 \<le> tn" "tn \<le> 31" "1 \<le> tp" "tp \<le> 31"
  shows "\<exists>t. dmc_zq_cal (zq_chip tn tp) target s = Ret () t \<and>
    (\<forall>r \<in> {0x30000390, 0x30000490}. field 0 5 (hdev t r) = of_nat (tp - 1) \<and> field 8 5 (hdev t r) = of_nat (tn - 1))"
proof -
  let ?M = "zq_chip tn tp" and ?off = "NOT (push_bit 15 1) :: u32" and ?on = "push_bit 15 1 :: u32"
  have n_up: "\<exists>w. zq_from ?M 0 True 1 (v AND ?off) 0 s = Ret (of_nat tn) (with_zq s w)" for v s
    by (rule zq_from_up [OF zq_side(1)]) (use assms in auto)
  have n_down: "\<exists>w. zq_from ?M 0 False (- 1) (v AND ?off) 31 s = Ret (of_nat (tn - 1)) (with_zq s w)" for v s
    by (rule zq_from_down [OF zq_side(1)]) (use assms in auto)
  have p_up: "\<exists>w. zq_from ?M 5 False 1 (v OR ?on) 0 s = Ret (of_nat tp) (with_zq s w)" for v s
    by (rule zq_from_up [OF zq_side(2)]) (use assms in auto)
  have p_down: "\<exists>w. zq_from ?M 5 True (- 1) (v OR ?on) 31 s = Ret (of_nat (tp - 1)) (with_zq s w)" for v s
    by (rule zq_from_down [OF zq_side(2)]) (use assms in auto)
  have store: "zq_store ?M a p n s = Ret () (s\<lparr>hdev := (hdev s)(a := insert_bits (insert_bits (hdev s a OR push_bit 21 1) 0 5 p) 8 5 n)\<rparr>)"
    if "a \<noteq> ZQ" for a p n s
    using that by (simp add: zq_store_def bnd_def zq_ops)
  let ?Q = "\<lambda>_ t. \<forall>r \<in> {0x30000390, 0x30000490}. field 0 5 (hdev t r) = of_nat (tp - 1) \<and> field 8 5 (hdev t r) = of_nat (tn - 1)"
  have call: "wp m Q E s" if "\<exists>w. m s = Ret a (with_zq s w)" "\<And>w. Q a (with_zq s w)" for m Q E a s
    using that by (auto simp: wp_def)
  have ops: "wp (MEM4 ?M ZQ) Q E s = Q (zq_read tn tp (hdev s ZQ)) s" "wp (set4 ?M a v) Q' E s = Q' () (s\<lparr>hdev := (hdev s)(a := v)\<rparr>)"
      "wp (dmc_sprd_delay ?M k) Q' E s = Q' () s" for Q Q' E s a v k
    by (simp_all add: wp_def zq_ops zq_delay)
  have small: "take_bit 5 (of_nat (n - 1) :: u32) = of_nat (n - 1)" if "n \<le> 31" for n
    using that zq_small [of "n - 1"] by (simp add: word_unat_eq_iff unat_of_nat)
  have fin: "wp (thn (zq_store ?M 0x30000390 (of_nat (tp - 1)) (of_nat (tn - 1)))
      (zq_store ?M 0x30000490 (of_nat (tp - 1)) (of_nat (tn - 1)))) ?Q (\<lambda>_ _. False) s" for s
    using assms by (simp add: wp_def thn_def bnd_def store ZQ_def field_insert field_insert_other small [unfolded One_nat_def] del: of_nat_diff)
  have "wp (dmc_zq_cal ?M target) ?Q (\<lambda>_ _. False) s"
    unfolding dmc_zq_cal_def Let_def ZQ_def [symmetric] or4_def
    by (simp only: wp_bnd wp_thn ops, rule call [OF n_up], simp only: wp_bnd wp_thn ops, rule call [OF n_down],
        simp only: wp_bnd wp_thn ops, rule call [OF p_up], simp only: wp_bnd wp_thn ops, rule call [OF p_down],
        simp only: wp_bnd wp_thn ops zq_mean [OF assms(1,2)] zq_mean [OF assms(3,4)] fin [unfolded wp_thn])
  from wp_Ret [OF this] show ?thesis by auto
qed

definition zq_state :: "(u32 \<Rightarrow> u32) hws" where
  "zq_state = \<lparr>packet_temp = (\<lambda>_. 0), rx = rx_init, tx = [], opens = [], ram = (\<lambda>_. 0), dl_start = -1, dl_size = 0,
     dl_recv = 0, hdev = (\<lambda>_. 0x12345678)\<rparr>"

theorem zq_cal_finds_strength_witness:
  "\<exists>t. dmc_zq_cal (zq_chip 12 20) DDR_DRV_CFG zq_state = Ret () t \<and>
    (\<forall>r \<in> {0x30000390, 0x30000490}. field 0 5 (hdev t r) = of_nat (20 - 1) \<and> field 8 5 (hdev t r) = of_nat (12 - 1))"
  by (rule zq_cal_finds_strength) simp_all

section \<open>The delay registers\<close>

text \<open>The default delay that the register holds, in quarter steps.\<close>

definition dll_default :: "bool \<Rightarrow> u32 \<Rightarrow> int" where
  "dll_default half def = uint (if half then 4 * field 8 7 def else drop_bit 1 (4 * field 8 7 def))"

text \<open>
  The value for a delay register says exactly the delay that the training wants: the offset
  in its fields, taken off the default or added to it as its sign field says, gives the delay,
  as long as it is less than 512 quarter steps away; the other fields keep their values.
\<close>

theorem dll_offset_exact:
  assumes "\<bar>dll_default half def - delay\<bar> < 512"
  shows "let r = dll_offset half def delay; off = 4 * uint (field 16 7 r) + uint (field 28 2 r)
    in (field 30 2 r = 3 \<and> dll_default half def - off = delay \<or> field 30 2 r = 2 \<and> dll_default half def + off = delay) \<and>
      field 0 16 r = field 0 16 def \<and> field 23 5 r = field 23 5 def"
proof -
  define c where "c = dll_default half def"
  define off where "off = (if c > delay then c - delay else delay - c)"
  define sign :: u32 where "sign = (if c > delay then 3 else 2)"
  have off: "0 \<le> off" "off < 512" using assms by (auto simp: off_def c_def)
  have low: "uint (take_bit k (word_of_int x :: u32)) = x mod 2 ^ k" if "k \<le> 32" for k x
    by (simp only: unsigned_take_bit_eq uint_word_of_int_eq take_bit_take_bit)
      (use that in \<open>simp add: take_bit_eq_mod min_absorb1\<close>)
  have m: "(0x7f :: u32) = mask 7" by (simp add: mask_numeral)
  have "dll_offset half def delay = insert_bits (insert_bits (insert_bits def 30 2 sign) 16 7 (word_of_int (off div 4))) 28 2 (word_of_int off)"
    unfolding dll_offset_def Let_def m by (simp add: put_fields_def off_def sign_def c_def dll_default_def field_def take_bit_eq_mask)
  moreover have "uint (take_bit 7 (word_of_int (off div 4) :: u32)) = off div 4" "uint (take_bit 2 (word_of_int off :: u32)) = off mod 4"
    using off low [of 7 "off div 4"] low [of 2 off] by simp_all
  moreover have "take_bit 2 sign = sign" by (simp add: sign_def take_bit_eq_mod)
  moreover have "4 * (off div 4) + off mod 4 = off" by simp
  ultimately show ?thesis
    unfolding Let_def c_def [symmetric]
    by (simp add: field_insert field_insert_other) (simp add: sign_def off_def)
qed

theorem dll_offset_exact_witness:
  "let r = dll_offset False 0x2000 60; off = 4 * uint (field 16 7 r) + uint (field 28 2 r)
   in (field 30 2 r = 3 \<and> dll_default False 0x2000 - off = 60 \<or> field 30 2 r = 2 \<and> dll_default False 0x2000 + off = 60) \<and>
      field 0 16 r = field 0 16 0x2000 \<and> field 23 5 r = field 23 5 0x2000"
proof (rule dll_offset_exact)
  show "\<bar>dll_default False 0x2000 - 60\<bar> < 512"
    by (simp add: dll_default_def field_def take_bit_eq_mod drop_bit_eq_div)
qed

end
