(* ===== verification/FdlHw.thy ===== *)
theory FdlHw
  imports Regs FdlMain
begin

text \<open>
  The hardware of the custom loader: system timer and waiting (custom_fdl/syscode.h), the fuses
  (efuse.h), the recognition of the chip (entry.c) and the set-up of clock, memory controller
  and bus for the SC6531E, SC6531DA and SC6530 (init_sc6531e.h, init_sc6531da.h, init_sc6530.h),
  on the registers of \<open>Regs\<close>. \<open>CHIP\<close> is the build option: 0 for a loader that recognises the
  chip, else the chip it is built for. \<open>chip_now\<close> is what the macro \<open>_chip\<close> stands for.
\<close>

unbundle bit_operations_syntax

section \<open>State\<close>

record 'h entst = "'h hws" +
  chip_var :: nat
  chip_id_var :: u32

type_synonym ('h, 'a) em = "('h entst, 'a) cm"

definition chip_now :: "nat \<Rightarrow> 'h entst \<Rightarrow> nat" where
  "chip_now CHIP s = (if CHIP = 0 then chip_var s else CHIP)"

section \<open>Time\<close>

text \<open>The argument of \<open>sys_wait_clk\<close>, and how often its loop (\<open>subs r0, #4; bhi\<close>) is run.\<close>

definition wait_clocks :: "nat \<Rightarrow> u32 \<Rightarrow> u32" where
  "wait_clocks ch delay =
     (let delay = push_bit 4 (delay + delay * 4 + delay * 8)
      in if ch = 2 then delay + drop_bit 1 delay else delay)"

function clk_rounds :: "u32 \<Rightarrow> nat" where
  "clk_rounds r0 = (if r0 > 4 then Suc (clk_rounds (r0 - 4)) else 1)"
  by pat_completeness auto

termination
proof (relation "measure unat")
  fix r0 :: u32
  assume "r0 > 4"
  then have "(4 :: u32) \<le> r0" and "unat r0 > 4" by (simp_all add: word_less_nat_alt word_le_nat_alt)
  then have "unat (r0 - 4) = unat r0 - 4" by (simp add: unat_sub)
  then show "(r0 - 4, r0) \<in> measure unat" using \<open>unat r0 > 4\<close> by simp
qed simp

declare clk_rounds.simps [simp del]

text \<open>\<open>do a = b, b = MEM4(0x8100300c); while (a != b)\<close>\<close>

fun timer_poll :: "('h, 'b) mmio_scheme \<Rightarrow> nat \<Rightarrow> u32 \<Rightarrow> ('h, 'x, u32) hm" where
  "timer_poll M 0 a = no_fuel"
| "timer_poll M (Suc n) a = bnd (MEM4 M 0x8100300c) (\<lambda>b. if a \<noteq> b then timer_poll M n b else ret a)"

definition sc_timer_ms :: "('h, 'b) mmio_scheme \<Rightarrow> ('h, 'x, u32) hm" where
  "sc_timer_ms M = bnd (MEM4 M 0x8100300c) (timer_poll M (hw_spins M))"

definition sc_wait_ms :: "('h, 'b) mmio_scheme \<Rightarrow> u32 \<Rightarrow> ('h, 'x, unit) hm" where
  "sc_wait_ms M delay = bnd (sc_timer_ms M) (\<lambda>start.
     spin (hw_spins M) (bnd (sc_timer_ms M) (\<lambda>t. ret (\<not> t - start < delay))))"

section \<open>The fuses\<close>

definition EFUSE_CR :: "u32 \<Rightarrow> u32" where "EFUSE_CR x = 0x82002000 + x"

definition sc_efuse_init :: "nat \<Rightarrow> ('h, 'b) mmio_scheme \<Rightarrow> ('h, 'x, unit) hm" where
  "sc_efuse_init ch M =
     (let addr = (if ch \<noteq> 1 then 0x8b0000a0 else 0x8b0010a8); rst = (if ch \<noteq> 1 then 0x8b000060 else 0x8b001068);
          add = (if ch \<noteq> 1 then 4 else 0x1000)
      in steps [set4 M addr 0x8000000, set4 M rst 0x400000, set4 M (rst + add) 0x400000,
           or4 M (EFUSE_CR 0x10) (push_bit 28 2), or4 M (EFUSE_CR 0x10) (push_bit 28 1),
           or4 M (EFUSE_CR 0x10) (push_bit 28 8), sc_wait_ms M 2])"

definition sc_efuse_off :: "nat \<Rightarrow> ('h, 'b) mmio_scheme \<Rightarrow> ('h, 'x, unit) hm" where
  "sc_efuse_off ch M = steps
     [and4 M (EFUSE_CR 0x10) (NOT (push_bit 28 1)), and4 M (EFUSE_CR 0x10) (NOT (push_bit 28 8)),
      and4 M (EFUSE_CR 0x10) (NOT (push_bit 28 2)),
      set4 M (if ch \<noteq> 1 then 0x8b0000a4 else 0x8b0020a8) 0x8000000]"

fun efuse_poll :: "('h, 'b) mmio_scheme \<Rightarrow> nat \<Rightarrow> u32 \<Rightarrow> ('h, 'x, bool) hm" where
  "efuse_poll M 0 t0 = no_fuel"
| "efuse_poll M (Suc n) t0 = bnd (MEM4 M (EFUSE_CR 0x14)) (\<lambda>a.
     if a AND 2 = 0 then ret True
     else bnd (sc_timer_ms M) (\<lambda>t. if t - t0 > 2 then ret False else efuse_poll M n t0))"

definition sc_efuse_read :: "('h, 'b) mmio_scheme \<Rightarrow> u32 \<Rightarrow> ('h, 'x, u32 option) hm" where
  "sc_efuse_read M i =
     thn (set4 M (EFUSE_CR 8) (i OR push_bit 16 i))
    (thn (or4 M (EFUSE_CR 0xc) 2)
    (bnd (sc_timer_ms M) (\<lambda>t0.
     bnd (efuse_poll M (hw_spins M) t0) (\<lambda>ok.
       if ok then bnd (MEM4 M (EFUSE_CR 0)) (\<lambda>v. ret (Some v)) else ret None))))"

text \<open>
  What \<open>read_efuse\<close> of main.c does with the fuses: it stops at the first one that does not
  answer, and leaves the block on then.
\<close>

fun efuse_from :: "('h, 'b) mmio_scheme \<Rightarrow> nat \<Rightarrow> nat \<Rightarrow> ('h, 'x, u32 list option) hm" where
  "efuse_from M i 0 = ret (Some [])"
| "efuse_from M i (Suc n) = bnd (sc_efuse_read M (of_nat i)) (\<lambda>v. case v of
     None \<Rightarrow> ret None
   | Some v \<Rightarrow> bnd (efuse_from M (Suc i) n) (\<lambda>vs. ret (map_option (Cons v) vs)))"

definition efuse_all :: "nat \<Rightarrow> ('h, 'b) mmio_scheme \<Rightarrow> ('h, 'x, u32 list option) hm" where
  "efuse_all ch M =
     thn (sc_efuse_init ch M)
    (bnd (efuse_from M 0 (if ch = 1 then 16 else 8)) (\<lambda>vs.
     thn (cwhen (vs \<noteq> None) (sc_efuse_off ch M)) (ret vs)))"

section \<open>Which chip it is\<close>

text \<open>The identification that is put together from the three registers of an SC6531E.\<close>

definition sc6531e_id :: "u32 \<Rightarrow> u32 \<Rightarrow> u32 \<Rightarrow> u32" where
  "sc6531e_id t1 t0 t2 =
     (push_bit 28 (drop_bit 8 t0) OR drop_bit 4 (push_bit 28 t0)) OR
     (drop_bit 4 (t1 AND 0xf000000) OR (t1 AND 0xf0000)) OR t2"

definition init_chip_id :: "nat \<Rightarrow> ('h, 'b) mmio_scheme \<Rightarrow> ('h, unit) em" where
  "init_chip_id CHIP M =
     bnd (if CHIP = 0 \<or> CHIP = 2 \<or> CHIP = 3 then
            bnd (MEM4 M 0x205003fc) (\<lambda>t0.
              let t1 = drop_bit 16 (t0 XOR 0x65300000)
              in thn (cwhen (CHIP = 0 \<and> t1 = 0) (modify (\<lambda>s. s\<lparr>chip_var := 3\<rparr>)))
                (thn (cwhen (CHIP = 0 \<and> t1 = 1) (modify (\<lambda>s. s\<lparr>chip_var := 2\<rparr>))) (ret t0)))
          else ret 0) (\<lambda>t0.
     bnd (if (CHIP = 0 \<or> CHIP = 1) \<and> t0 = 0 then
            bnd (MEM4 M 0x8b00035c) (\<lambda>t1.
            bnd (MEM4 M 0x8b000360) (\<lambda>t0.
            bnd (MEM4 M 0x8b000364) (\<lambda>t2.
              let t0 = sc6531e_id t1 t0 t2
              in thn (cwhen (CHIP = 0 \<and> drop_bit 16 (t0 XOR 0x65620000) = 0) (modify (\<lambda>s. s\<lparr>chip_var := 1\<rparr>)))
                (ret t0))))
          else ret t0) (\<lambda>t0.
     modify (\<lambda>s. s\<lparr>chip_id_var := t0\<rparr>)))"

section \<open>SC6531E\<close>

text \<open>\<open>MEM4(a) = f(MEM4(a))\<close>\<close>

definition upd4 :: "('h, 'b) mmio_scheme \<Rightarrow> u32 \<Rightarrow> (u32 \<Rightarrow> u32) \<Rightarrow> ('h, 'x, unit) hm" where
  "upd4 M a f = bnd (MEM4 M a) (\<lambda>x. set4 M a (f x))"

definition sc6531e_get_psram :: "('h, 'b) mmio_scheme \<Rightarrow> ('h, 'x, u32) hm" where
  "sc6531e_get_psram M = bnd (MEM4 M 0x205000e0) (\<lambda>v. ret (push_bit 28 (v AND 1) OR 0x04000000))"

definition sc6531e_smc_get_id :: "('h, 'b) mmio_scheme \<Rightarrow> u32 \<Rightarrow> u32 \<Rightarrow> ('h, 'x, u32) hm" where
  "sc6531e_smc_get_id M b ps =
     thn (steps [set4 M (b + 0x88) 3, and4 M (b + 0x8c) (NOT 1), or4 M (b + 0x8c) 1, and4 M (b + 0x84) (NOT 1)])
    (bnd (MEM1 M (ps + 1)) (\<lambda>v.
     thn (or4 M (b + 0x84) 1) (ret (ucast v AND 0x1f))))"

definition sc6531e_smc_save_id :: "('h, 'b) mmio_scheme \<Rightarrow> u32 \<Rightarrow> u32 \<Rightarrow> u32 \<Rightarrow> ('h, 'x, unit) hm" where
  "sc6531e_smc_save_id M b ps i =
     thn (set4 M 0x20500168 0) (thn (and4 M (b + 0x84) (NOT 1))
    (bnd (MEM1 M (ps + 1)) (\<lambda>x. bnd (MEM1 M (ps + 2)) (\<lambda>y.
     let a = ucast x AND 0x20; c = ucast y AND 7
     in thn (or4 M (b + 0x84) 1)
          (set4 M 0x20500168 (push_bit 8 i OR drop_bit 2 a OR c))))))"

record smc_config =
  x04_18 :: u32
  x20_24 :: u32
  x45_48 :: u32
  x58_68 :: u32
  x28 :: byte
  x2c :: byte
  x30 :: byte
  x34 :: byte
  x38 :: byte
  x3c :: byte
  x40 :: byte
  x1c :: byte
  x44 :: byte
  x4c :: byte
  x50_54 :: byte
  x6c :: byte

text \<open>
  The macro \<open>SMC_CONFIG\<close>, its arguments by rows: 0x04 to 0x1c (0x00 is not used), 0x20 to 0x3c,
  0x40 to 0x4c, 0x50 to 0x6c.
\<close>

definition SMC_CONFIG ::
  "u32 \<times> u32 \<times> u32 \<times> u32 \<times> u32 \<times> u32 \<times> byte \<Rightarrow> u32 \<times> u32 \<times> byte \<times> byte \<times> byte \<times> byte \<times> byte \<times> byte \<Rightarrow>
   byte \<times> byte \<times> u32 \<times> u32 \<times> u32 \<times> u32 \<times> byte \<Rightarrow> byte \<times> byte \<times> u32 \<times> u32 \<times> u32 \<times> u32 \<times> u32 \<times> byte \<Rightarrow> smc_config" where
  "SMC_CONFIG = (\<lambda>(a04, a08, a0c, a10, a14, a18, a1c) (a20, a24, a28, a2c, a30, a34, a38, a3c)
      (a40, a44, a45, a46, a47, a48, a4c) (a50, a54, a58, a5c, a60, a64, a68, a6c).
    \<lparr>x04_18 = push_bit 28 a04 OR push_bit 24 a08 OR push_bit 20 a0c OR push_bit 16 a10 OR push_bit 11 a14 OR push_bit 6 a18,
     x20_24 = push_bit 12 a20 OR a24,
     x45_48 = push_bit 20 a45 OR push_bit 11 a47 OR push_bit 7 a47 OR push_bit 8 a46 OR push_bit 4 a46 OR push_bit 2 a48 OR a48,
     x58_68 = push_bit 16 a58 OR push_bit 14 a5c OR push_bit 8 a60 OR push_bit 6 a64 OR a68,
     x28 = a28, x2c = a2c, x30 = a30, x34 = a34, x38 = a38, x3c = a3c, x40 = a40,
     x1c = a1c, x44 = a44, x4c = a4c, x50_54 = push_bit 2 a50 OR a54, x6c = a6c\<rparr>)"

definition conf_06 :: smc_config where
  "conf_06 = SMC_CONFIG (5, 5, 5, 5, 5, 2, 1) (0, 0, 0, 0, 0x50, 0x50, 0x50, 0)
     (0, 2, 4, 7, 1, 3, 0) (5, 2, 6, 1, 3, 1, 0x10, 0x34)"

definition conf_0d :: smc_config where
  "conf_0d = SMC_CONFIG (3, 3, 3, 5, 4, 3, 1) (0, 0, 0, 0, 0x50, 0x50, 0x50, 0)
     (0, 2, 4, 7, 1, 3, 0) (7, 1, 5, 1, 3, 1, 0xA, 0x12)"

text \<open>The registers 0x20 to 0x38 and the fields that go into them.\<close>

definition chip_sel_regs :: "u32 list" where
  "chip_sel_regs = [0x20, 0x24, 0x28, 0x2c, 0x30, 0x34, 0x38]"

definition write_config :: "('h, 'b) mmio_scheme \<Rightarrow> u32 \<Rightarrow> smc_config \<Rightarrow> ('h, 'x, unit) hm" where
  "write_config M b cf = steps
     ([upd4 M b (\<lambda>a. (a AND NOT 0x333378c0) OR x04_18 cf)] @
      map (\<lambda>r. and4 M (b + r) (NOT 0x7f)) chip_sel_regs @
      map (\<lambda>(r, v). or4 M (b + r) (ucast v))
        (zip chip_sel_regs [x28 cf, x2c cf, x30 cf, x34 cf, x38 cf, x3c cf, x40 cf]) @
      (if x1c cf \<noteq> 0 then
         [upd4 M (b + 0x08) (\<lambda>a. (a AND NOT 0xf4ff) OR x20_24 cf), or4 M (b + 0x28) 0x100,
          or4 M (b + 0x2c) 0x100, or4 M (b + 0x30) 0x100, or4 M (b + 0x08) 0x480]
       else []) @
      (if x44 cf = 2 then [or4 M (b + 0x50) 0x2800000] else []) @
      [upd4 M (b + 0x50) (\<lambda>a. (a AND NOT 0x700fff) OR x45_48 cf), or4 M (b + 0x50) 0x80c0000,
       upd4 M (b + 0x54) (\<lambda>a. (a AND NOT 0x3000000) OR push_bit 24 (ucast (x4c cf))),
       upd4 M (b + 0x5c) (\<lambda>a. (a AND NOT 0x1f000000) OR push_bit 24 (ucast (x50_54 cf))),
       upd4 M (b + 0x94) (\<lambda>a. (a AND NOT 0x1fffff) OR x58_68 cf),
       and4 M (b + 0x84) (NOT 1), bnd (sc6531e_get_psram M) (\<lambda>a. set1 M a (x6c cf)), or4 M (b + 0x84) 1])"

text \<open>With a memory that is neither of the two known ones, the loader stays in an endless loop.\<close>

definition sc6531e_init_smc :: "('h, 'b) mmio_scheme \<Rightarrow> ('h, 'x, unit) hm" where
  "sc6531e_init_smc M = (let b = 0x20000000 in
     thn (steps
       [set4 M b 0x3333a0c0, set4 M (b + 0x04) 7, set4 M (b + 0x20) 15, set4 M (b + 0x24) 15,
        set4 M (b + 0x28) 15, set4 M (b + 0x2c) 10, set4 M (b + 0x30) 10, set4 M (b + 0x34) 10,
        set4 M (b + 0x38) 10, set4 M (b + 0x50) 0x0acc177f, set4 M (b + 0x5c) 0x1d000000,
        set4 M (b + 0x94) 0x5434a, or4 M b 0x100, and4 M b (NOT 0x100)])
    (bnd (sc6531e_get_psram M) (\<lambda>ps.
     bnd (sc6531e_smc_get_id M b ps) (\<lambda>i.
     bnd (if i = 6 then thn (set4 M (b + 0xa0) 0x5a5a) (thn (or4 M (b + 0x80) 1) (ret conf_06))
          else if i = 13 then thn (set4 M (b + 0xa0) 0x5a5a) (thn (and4 M (b + 0x80) (NOT 1)) (ret conf_0d))
          else no_fuel) (\<lambda>cf.
     thn (sc6531e_smc_save_id M b ps i) (write_config M b cf))))))"

definition sc6531e_init_freq :: "('h, 'b) mmio_scheme \<Rightarrow> ('h, 'x, unit) hm" where
  "sc6531e_init_freq M = steps
     [bnd (MEM4 M 0x8b00004c) (\<lambda>a. let a = a AND NOT 4 in
        thn (set4 M 0x8b00004c a) (set4 M 0x8b00004c (a OR 3))),
      upd4 M 0x8d20002c (\<lambda>a. (a AND NOT 7) OR 2),
      upd4 M 0x8d200030 (\<lambda>a. (a AND NOT (push_bit 8 3)) OR push_bit 8 1)]"

definition sc6531e_init_adi :: "('h, 'b) mmio_scheme \<Rightarrow> ('h, 'x, unit) hm" where
  "sc6531e_init_adi M = steps
     [set4 M 0x8b0010a8 0x1000000, set4 M 0x8b001068 0x80000, set4 M 0x8b002068 0x80000,
      and4 M 0x82000010 (NOT 0x40000000), set4 M 0x82000000 0]"

definition init_sc6531e :: "('h, 'b) mmio_scheme \<Rightarrow> ('h, 'x, unit) hm" where
  "init_sc6531e M = steps [sc6531e_init_freq M, sc6531e_init_smc M, sc6531e_init_adi M]"

section \<open>SC6530\<close>

definition sc6530_init_smc :: "('h, 'b) mmio_scheme \<Rightarrow> ('h, 'x, unit) hm" where
  "sc6530_init_smc M = (let b = 0x20000000; ps = 0x34000000 in steps
     [set4 M b 0x22220000, set4 M (b + 0x04) 0, set4 M (b + 0x20) 0, set4 M (b + 0x24) 0x00924ff0,
      set4 M (b + 0x28) 0x0151ffff, set4 M (b + 0x2c) 0x00a0744f, set4 M b 0x222211e0,
      set4 M (b + 0x04) 0x8080, or4 M (b + 0x24) 0x20000, set2 M (ps + 0x10323e) 0, set2 M (ps + 0x20) 0,
      and4 M (b + 0x24) (NOT 0x20000), set4 M (b + 0x24) 0x00ac1fff, set4 M (b + 0x28) 0x015115ff,
      set4 M (b + 0x2c) 0x00501015, set4 M b 0x222210e0, set4 M (b + 0x04) 0x8080])"

definition sc6530_init_freq :: "('h, 'b) mmio_scheme \<Rightarrow> ('h, 'x, unit) hm" where
  "sc6530_init_freq M = bnd (MEM4 M 0x8b000040) (\<lambda>a. let a = a OR 4 in
     thn (set4 M 0x8b000040 a) (set4 M 0x8b000040 ((a AND NOT 3) OR 1)))"

definition sc6530_init_adi :: "('h, 'b) mmio_scheme \<Rightarrow> ('h, 'x, unit) hm" where
  "sc6530_init_adi M = steps
     [set4 M 0x8b0000a0 0x1000000, set4 M 0x8b000060 0x80000, set4 M 0x8b000064 0x80000,
      and4 M 0x82000000 (NOT 0x10), set4 M 0x82000004 0x55000]"

definition init_sc6530 :: "('h, 'b) mmio_scheme \<Rightarrow> ('h, 'x, unit) hm" where
  "init_sc6530 M = steps [sc6530_init_freq M, sc6530_init_smc M, sc6530_init_adi M]"

section \<open>SC6531DA\<close>

text \<open>
  \<open>sc6531da_init_smc\<close> works out the register values first, from the clock and the settings
  \<open>conf0\<close> to \<open>conf6\<close>, in local variables that start at 0. \<open>x &= ~m; x |= v\<close> is \<open>put m v x\<close>.
\<close>

record smc_vals =
  smc00 :: u32
  smc04 :: u32
  smc08 :: u32
  smc20 :: u32
  smc24 :: u32
  smc50 :: u32
  smc54 :: u32
  smc58 :: u32
  smc5c :: u32
  ps_off1 :: u32

definition put :: "u32 \<Rightarrow> u32 \<Rightarrow> u32 \<Rightarrow> u32" where "put m v x = (x AND NOT m) OR v"

definition smc54_tail :: "u32 \<Rightarrow> u32 \<Rightarrow> u32" where
  "smc54_tail k x = put 0xf0 (push_bit 4 k) (put 0xf000 (push_bit 12 k) (put 0x3000000 (push_bit 24 k) x))"

definition smc_async :: "smc_vals \<Rightarrow> smc_vals" where
  "smc_async r = r\<lparr>
     smc54 := put 0xf0 0x10 (put 0xf000 0x1000 (put 0x3000000 0x1000000
       (((smc54 r OR 0xf00) AND push_bit 16 0xf) OR push_bit 16 1))),
     smc58 := 0xa0744f, smc20 := smc20 r AND NOT 0x80, smc24 := smc24 r AND NOT 0x80,
     ps_off1 := ps_off1 r OR 0x400, smc50 := (smc50 r AND NOT 0x1000) OR 0x4000\<rparr>"

definition smc_mode :: "u32 \<Rightarrow> u32 \<Rightarrow> smc_vals \<Rightarrow> smc_vals" where
  "smc_mode conf6 freq2 r =
    (if conf6 = 1 then
       r\<lparr>smc54 := smc54_tail 2 (put 0xf00 (push_bit 9 (freq2 + 2)) (smc54 r)),
         smc58 := 0xa0202a, smc00 := smc00 r OR 0x10\<rparr>
     else let r = r\<lparr>smc54 := smc54_tail 1 (put 0xf00 (push_bit 8 (freq2 + 2)) (smc54 r)), smc58 := 0x501015\<rparr>
       in if conf6 = 2 then
            r\<lparr>smc00 := smc00 r AND NOT 0x20, smc54 := smc54 r AND NOT 0x500000, smc04 := put 0xf 7 (smc04 r),
              smc20 := smc20 r AND NOT 0x80, smc24 := smc24 r AND NOT 0x80\<rparr>
          else r)"

definition smc_sync :: "u32 \<Rightarrow> u32 \<Rightarrow> smc_vals \<Rightarrow> smc_vals" where
  "smc_sync conf6 freq2 r =
    (let r = smc_mode conf6 freq2 (r\<lparr>smc00 := smc00 r OR 0x11e0, smc20 := smc20 r OR 0x80, smc24 := smc24 r OR 0x80\<rparr>)
     in r\<lparr>smc54 := put 0xf0000 0x20000 (smc54 r), smc50 := smc50 r OR 0x1000\<rparr>)"

definition smc_ddr :: "u32 \<Rightarrow> smc_vals \<Rightarrow> smc_vals" where
  "smc_ddr freq2 r = r\<lparr>
     smc50 := smc50 r OR 0x8000000, smc08 := put 0xf000 0x3580 (smc08 r OR 0x200),
     smc00 := smc00 r OR 0x8000, smc54 := put 0xf00 (push_bit 8 (freq2 + 1)) (put 0x3000000 0x2000000 (smc54 r)),
     smc5c := 0xed000000\<rparr>"

definition smc_final :: "u32 \<Rightarrow> u32 \<Rightarrow> u32 \<Rightarrow> u32 \<Rightarrow> u32 \<Rightarrow> u32 \<Rightarrow> smc_vals \<Rightarrow> smc_vals" where
  "smc_final conf0 conf1 conf2 conf3 conf4 conf5 r = r\<lparr>
     smc54 := smc54 r OR 0xf, smc00 := smc00 r OR 0x22220000,
     ps_off1 := ps_off1 r OR 0x80000 OR push_bit 15 (if conf1 = 0 then 1 else 0) OR push_bit 14 conf2 OR
       push_bit 9 conf0 OR push_bit 3 conf3 OR conf4 OR 0x110,
     smc50 := (smc50 r AND NOT 0x00700fff) OR push_bit 20 conf5 OR
       (push_bit 11 conf3 OR push_bit 8 conf4) OR (push_bit 7 conf3 OR push_bit 4 conf4) OR
       (push_bit 2 conf1 OR conf1) OR 0x8c0000,
     smc04 := smc04 r OR 0x10\<rparr>"

definition get_freq_2 :: u32 where "get_freq_2 = drop_bit 1 312000000"

text \<open>\<open>conf\<close> lists \<open>conf0\<close> to \<open>conf6\<close>; the second result is \<open>freq_div\<close>.\<close>

fun sc6531da_smc :: "u32 \<Rightarrow> u32 \<times> u32 \<times> u32 \<times> u32 \<times> u32 \<times> u32 \<times> u32 \<Rightarrow> smc_vals \<times> u32" where
  "sc6531da_smc freq (conf0, conf1, conf2, conf3, conf4, conf5, conf6) =
    (let freq2 = (if freq < 133000000 then 3 else if freq < 156000000 then 4 else 5);
         r = \<lparr>smc00 = 0, smc04 = 0, smc08 = 0, smc20 = 0, smc24 = 0, smc50 = 0, smc54 = 0, smc58 = 0,
           smc5c = 0, ps_off1 = push_bit 11 freq2\<rparr>;
         r = r\<lparr>smc54 := (smc54 r AND push_bit 20 0xf) OR push_bit 20 5, smc00 := smc00 r AND 0xffff800c\<rparr>;
         r = (if conf1 = 0 then smc_async r else smc_sync conf6 freq2 r);
         r = (if conf0 = 1 then smc_ddr freq2 r else r);
         sdiv = (if conf0 = 1 then 1 else 0)
     in (smc_final conf0 conf1 conf2 conf3 conf4 conf5 r, if sdiv \<noteq> 0 then freq div (7812500 div sdiv) else 0))"

definition sc6531da_get_psram :: "('h, 'b) mmio_scheme \<Rightarrow> ('h, 'x, u32) hm" where
  "sc6531da_get_psram M = bnd (MEM4 M 0x205000e0) (\<lambda>v. let v = v AND 1 in
     ret (push_bit 29 v OR push_bit 28 v OR 0x04000000))"

definition sc6531da_init_smc_1 :: "('h, 'b) mmio_scheme \<Rightarrow> u32 \<Rightarrow> ('h, 'x, unit) hm" where
  "sc6531da_init_smc_1 M b = steps
     [set4 M b 0x11110000, set4 M (b + 0x20) 0, set4 M (b + 0x24) 0, set4 M (b + 0x04) 0x10,
      set4 M (b + 0x50) 0x00904ff0, set4 M (b + 0x54) 0x0151ffff, set4 M (b + 0x58) 0x00a0744f,
      set4 M (b + 0x5c) 0]"

definition sc6531da_init_smc :: "('h, 'b) mmio_scheme \<Rightarrow> ('h, 'x, unit) hm" where
  "sc6531da_init_smc M =
    (let b = 0x20000000; conf0 = 0;
         (r, freq_div) = sc6531da_smc get_freq_2 (conf0, 3, 0, 1, 7, 2, 2); ps_off2 = 0x10;
         a = freq_div OR push_bit 8 conf0
     in thn (sc6531da_init_smc_1 M b)
       (bnd (sc6531da_get_psram M) (\<lambda>ps. steps
         ([or4 M (b + 0x50) 0x20000, set2 M (ps + push_bit 1 (ps_off1 r)) 0, set2 M (ps + push_bit 1 ps_off2) 0,
           and4 M (b + 0x50) (NOT 0x20000)] @
          map (\<lambda>x. or4 M (b + x) a) [0x24, 0x28, 0x2c, 0x30, 0x34, 0x38] @
          [set4 M (b + 0x08) (smc08 r), and4 M (b + 0x08) (NOT 0x100), set4 M b (smc00 r),
           or4 M (b + 0x20) (smc20 r), or4 M (b + 0x24) (smc24 r), set4 M (b + 0x04) (smc04 r),
           set4 M (b + 0x50) (smc50 r), set4 M (b + 0x54) (smc54 r), set4 M (b + 0x58) (smc58 r),
           set4 M (b + 0x5c) (smc5c r), and4 M b (NOT 0x100)]))))"

definition sc6531da_init_freq :: "('h, 'b) mmio_scheme \<Rightarrow> ('h, 'x, unit) hm" where
  "sc6531da_init_freq M = thn
     (bnd (MEM4 M 0x8b00004c) (\<lambda>a. bnd (MEM4 M 0x205003fc) (\<lambda>v.
        let a = a OR 4; a = (if v = 0x65310001 then a AND NOT 4 else a)
        in thn (set4 M 0x8b00004c a) (set4 M 0x8b00004c (a OR 3)))))
     (upd4 M 0x8b000044 (\<lambda>a. (a AND NOT (push_bit 19 3)) OR push_bit 19 1))"

definition sc6531da_init_adi :: "('h, 'b) mmio_scheme \<Rightarrow> ('h, 'x, unit) hm" where
  "sc6531da_init_adi M = steps
     [set4 M 0x8b0000a0 0x1000000, set4 M 0x8b000060 0x80000, set4 M 0x8b000064 0x80000,
      and4 M 0x82000000 (NOT 0x10), set4 M 0x82000004 0x55000]"

definition init_sc6531da :: "('h, 'b) mmio_scheme \<Rightarrow> ('h, 'x, unit) hm" where
  "init_sc6531da M = steps [sc6531da_init_freq M, sc6531da_init_smc M, sc6531da_init_adi M]"

section \<open>The entry\<close>

definition chip_init :: "nat \<Rightarrow> ('h, 'b) mmio_scheme \<Rightarrow> nat \<Rightarrow> ('h, 'x, unit) hm" where
  "chip_init CHIP M ch =
     thn (cwhen ((CHIP = 0 \<or> CHIP = 1) \<and> ch = 1) (init_sc6531e M))
    (thn (cwhen ((CHIP = 0 \<or> CHIP = 2) \<and> ch = 2) (init_sc6531da M))
    (thn (cwhen ((CHIP = 0 \<or> CHIP = 3) \<and> ch = 3) (init_sc6530 M))
         (cwhen (ch \<noteq> 1) (set4 M 0x20a00200 16))))"

text \<open>Everything before \<open>dl_main\<close>. A loader that does not know the chip stays in an endless loop.\<close>

definition entry_main :: "nat \<Rightarrow> ('h, 'b) mmio_scheme \<Rightarrow> ('h, unit) em" where
  "entry_main CHIP M =
     thn (init_chip_id CHIP M)
    (bnd (gets chip_var) (\<lambda>v.
     if CHIP = 0 \<and> v = 0 then no_fuel
     else bnd (gets (chip_now CHIP)) (chip_init CHIP M)))"

text \<open>
  The command loop on the board as \<open>entry_main\<close> and the fuse driver find it: chip, its
  identification, and the words that the fuses give.
\<close>

definition boards :: "nat \<Rightarrow> 'h entst \<Rightarrow> 'f board \<Rightarrow> 'f board" where
  "boards CHIP s B = B\<lparr>chip_no := chip_now CHIP s, chip_id := chip_id_var s\<rparr>"

definition boot :: "nat \<Rightarrow> ('h, 'b) mmio_scheme \<Rightarrow> 'h entst \<Rightarrow> 'f board \<Rightarrow> byte list \<Rightarrow> ('f, bool) fm" where
  "boot CHIP M s B input = (case entry_main CHIP M s of
     Ret _ s' \<Rightarrow> dl_main (boards CHIP s' B) input
   | _ \<Rightarrow> no_fuel)"

end
