(* ===== verification/FdlHwRt.thy ===== *)
theory FdlHwRt
  imports FdlHw FdlFlash
begin

text \<open>
  What the hardware set-up of the custom loader comes to: the chip that \<open>entry_main\<close> finds and
  the identification it keeps, how long \<open>sys_wait_us\<close> waits, and that the fuse driver on the
  fuse block gives what the command loop takes as a parameter.
\<close>

unbundle bit_operations_syntax

section \<open>The set-up of the three chips\<close>

lemma hw_only_upd4 [hw_only]: "hw_only (upd4 M a f)"
  unfolding upd4_def by (intro hw_only)

lemma returns_upd4 [returns]: "returns (upd4 M a f) (\<lambda>_. True)"
  unfolding upd4_def by (intro returns TrueI)

lemma psram_hw_only [hw_only]: "hw_only (sc6531e_get_psram M)" "hw_only (sc6531da_get_psram M)"
  unfolding sc6531e_get_psram_def sc6531da_get_psram_def Let_def by (intro hw_only)+

lemma psram_returns [returns]: "returns (sc6531da_get_psram M) (\<lambda>_. True)"
  unfolding sc6531da_get_psram_def Let_def by (intro returns TrueI)

lemma returns_sc6530 [returns]: "returns (init_sc6530 M) (\<lambda>_. True)"
  unfolding init_sc6530_def sc6530_init_freq_def sc6530_init_smc_def sc6530_init_adi_def Let_def
  by (intro returns returns_each)

lemma returns_sc6531da [returns]: "returns (init_sc6531da M) (\<lambda>_. True)"
  unfolding init_sc6531da_def sc6531da_init_freq_def sc6531da_init_smc_def sc6531da_init_smc_1_def
    sc6531da_init_adi_def Let_def case_prod_beta
  by (intro returns returns_each)

lemma hw_only_sc6530 [hw_only]: "hw_only (init_sc6530 M)"
  unfolding init_sc6530_def sc6530_init_freq_def sc6530_init_smc_def sc6530_init_adi_def Let_def
  by (intro hw_only hw_only_each)

lemma hw_only_sc6531da [hw_only]: "hw_only (init_sc6531da M)"
  unfolding init_sc6531da_def sc6531da_init_freq_def sc6531da_init_smc_def sc6531da_init_smc_1_def
    sc6531da_init_adi_def Let_def case_prod_beta
  by (intro hw_only hw_only_each)

lemma hw_only_config [hw_only]: "hw_only (write_config M b cf)"
  unfolding write_config_def case_prod_beta by (intro hw_only hw_only_each) (simp_all add: each_of hw_only)

lemma hw_only_smc_id [hw_only]: "hw_only (sc6531e_smc_get_id M b ps)" "hw_only (sc6531e_smc_save_id M b ps i)"
  unfolding sc6531e_smc_get_id_def sc6531e_smc_save_id_def Let_def by (intro hw_only hw_only_each)+

lemma hw_only_sc6531e [hw_only]: "hw_only (init_sc6531e M)"
  unfolding init_sc6531e_def sc6531e_init_freq_def sc6531e_init_smc_def sc6531e_init_adi_def Let_def
  by (intro hw_only hw_only_each)

section \<open>The chip that is found\<close>

lemma wlp_MEM4: "wlp (MEM4 M a) Q s = (case rd4 M a (hdev s) of (v, d) \<Rightarrow> Q v (s\<lparr>hdev := d\<rparr>))"
  by (simp add: wlp_def MEM4_def volatile_def split: prod.split)

lemma wp_MEM4: "wp (MEM4 M a) Q E s = (case rd4 M a (hdev s) of (v, d) \<Rightarrow> Q v (s\<lparr>hdev := d\<rparr>))"
  by (simp add: wp_def MEM4_def volatile_def split: prod.split)

lemma xor_zero: "(a XOR b = 0) = (a = b)" for a b :: u32
  by (metis xor.assoc xor_self_eq xor.left_neutral xor.right_neutral)

lemma chip_word:
  "drop_bit 16 (t XOR 0x65300000) = 0 \<longleftrightarrow> drop_bit 16 t = 0x6530"
  "drop_bit 16 (t XOR 0x65300000) = 1 \<longleftrightarrow> drop_bit 16 t = 0x6531"
  "drop_bit 16 (t XOR 0x65620000) = 0 \<longleftrightarrow> drop_bit 16 t = 0x6562" for t :: u32
proof -
  have d: "drop_bit 16 (0x65300000 :: u32) = 0x6530" "drop_bit 16 (0x65620000 :: u32) = 0x6562"
    by (simp_all add: drop_bit_eq_div)
  have "a XOR 0x6530 = 1 \<longleftrightarrow> a = 0x6531" for a :: u32
  proof -
    have "a XOR 0x6530 = 1 \<longleftrightarrow> (a XOR 0x6530) XOR 1 = 0" by (simp only: xor_zero)
    also have "\<dots> \<longleftrightarrow> a XOR 0x6531 = 0" by (simp add: xor.assoc)
    finally show ?thesis by (simp only: xor_zero)
  qed
  then show "drop_bit 16 (t XOR 0x65300000) = 0 \<longleftrightarrow> drop_bit 16 t = 0x6530"
    "drop_bit 16 (t XOR 0x65300000) = 1 \<longleftrightarrow> drop_bit 16 t = 0x6531"
    "drop_bit 16 (t XOR 0x65620000) = 0 \<longleftrightarrow> drop_bit 16 t = 0x6562"
    by (simp_all only: drop_bit_xor d xor_zero)
qed

text \<open>The chip with a given identification.\<close>

definition chip_of :: "u32 \<Rightarrow> nat" where
  "chip_of i = (if drop_bit 16 i = 0x6562 then 1 else if drop_bit 16 i = 0x6531 then 2
     else if drop_bit 16 i = 0x6530 then 3 else 0)"

lemma chip_id_wlp:
  "chip_var s = 0 \<Longrightarrow> wlp (init_chip_id 0 M) (\<lambda>_ t. chip_var t = 0 \<or> chip_var t = chip_of (chip_id_var t)) s"
  unfolding init_chip_id_def Let_def
  by (simp add: wlp_simps wlp_MEM4 chip_word chip_of_def del: drop_bit_xor split: prod.split)

lemma hw_only_wlp:
  assumes "hw_only m" "\<And>d. Q (s\<lparr>hdev := d\<rparr>)"
  shows "wlp m (\<lambda>_. Q) s"
  using assms(1) unfolding hw_only_def by (rule allE) (erule wlp_mono, auto simp: assms(2))

lemma hw_only_chip_init: "hw_only (chip_init CHIP M ch)"
  unfolding chip_init_def cwhen_def by (intro hw_only)

lemma returns_chip_init: "ch \<noteq> 1 \<Longrightarrow> returns (chip_init CHIP M ch) (\<lambda>_. True)"
  unfolding chip_init_def cwhen_def by (intro returns TrueI) simp

lemma entry_chip_wlp:
  assumes "chip_var s = 0"
  shows "wlp (entry_main 0 M) (\<lambda>_ t. chip_var t = chip_of (chip_id_var t) \<and> chip_var t \<noteq> 0) s"
  unfolding entry_main_def wlp_thn
proof (rule wlp_mono [OF chip_id_wlp [OF assms]])
  fix t :: "'a entst"
  let ?P = "\<lambda>t :: 'a entst. chip_var t = chip_of (chip_id_var t) \<and> chip_var t \<noteq> 0"
  assume "chip_var t = 0 \<or> chip_var t = chip_of (chip_id_var t)"
  then have "?P t \<Longrightarrow> wlp (chip_init 0 M ch) (\<lambda>_. ?P) t" for ch
    by (intro hw_only_wlp [OF hw_only_chip_init]) simp
  then show "wlp (bnd (gets chip_var) (\<lambda>v. if (0 :: nat) = 0 \<and> v = 0 then no_fuel
      else bnd (gets (chip_now 0)) (chip_init 0 M))) (\<lambda>_. ?P) t"
    using \<open>chip_var t = 0 \<or> _\<close> by (auto simp: wlp_simps)
qed

lemma entry_chip_read:
  fixes s :: "'h entst" and M :: "('h, 'b) mmio_scheme"
  defines "ch \<equiv> \<lambda>i :: u32. if drop_bit 16 i = 0x6531 then 2 else if drop_bit 16 i = 0x6530 then 3 else 0 :: nat"
  assumes "rd4 M 0x205003fc (hdev s) = (i, d)" "i \<noteq> 0" "chip_var s = 0"
  shows "entry_main 0 M s = (if ch i = 0 then OutOfFuel else (\<lambda>s. chip_init 0 M (ch i) s))
    (s\<lparr>hdev := d, chip_var := ch i, chip_id_var := i\<rparr>)"
proof -
  have "init_chip_id 0 M s = Ret () (s\<lparr>hdev := d, chip_var := ch i, chip_id_var := i\<rparr>)"
    using assms(2-4) by (cases s) (simp add: init_chip_id_def bnd_def thn_def MEM4_def volatile_def cwhen_def ret_def
      modify_def chip_word ch_def Let_def del: drop_bit_xor)
  then show ?thesis unfolding entry_main_def by (simp add: run_simps chip_now_def)
qed

text \<open>
  C33: When a loader that recognises the chip gets past \<open>entry_main\<close>, the chip it goes on with is
  one of the three and is the chip that the upper half of the identification names, so the
  flash is looked for at the address of that chip. If the first register names an SC6530 or
  SC6531DA it gets there, with that register as the identification; if it holds something
  else that is not 0, it stays in an endless loop.
\<close>

theorem entry_main_chip:
  assumes "chip_var s = 0" and "rd4 M 0x205003fc (hdev s) = (i, d)"
  shows "(\<forall>t. entry_main 0 M s = Ret () t \<longrightarrow>
      chip_now 0 t \<in> {1, 2, 3} \<and> chip_now 0 t = chip_of (chip_id_var t) \<and>
      FW_ADDR (boards 0 t B) = (if drop_bit 16 (chip_id_var t) = 0x6562 then 0x10000000 else 0x30000000)) \<and>
    (drop_bit 16 i = 0x6530 \<or> drop_bit 16 i = 0x6531 \<longrightarrow> (\<exists>t. entry_main 0 M s = Ret () t \<and> chip_id_var t = i)) \<and>
    (i \<noteq> 0 \<and> drop_bit 16 i \<noteq> 0x6530 \<and> drop_bit 16 i \<noteq> 0x6531 \<longrightarrow> (\<exists>t. entry_main 0 M s = OutOfFuel t))"
proof (intro conjI allI impI)
  fix t
  assume "entry_main 0 M s = Ret () t"
  from wlp_Ret [OF entry_chip_wlp [OF assms(1)] this] have t: "chip_var t = chip_of (chip_id_var t)" "chip_var t \<noteq> 0" by auto
  then show "chip_now 0 t \<in> {1, 2, 3}" "chip_now 0 t = chip_of (chip_id_var t)"
    "FW_ADDR (boards 0 t B) = (if drop_bit 16 (chip_id_var t) = 0x6562 then 0x10000000 else 0x30000000)"
    by (auto simp: chip_now_def chip_of_def FW_ADDR_def boards_def split: if_splits)
next
  assume i: "drop_bit 16 i = 0x6530 \<or> drop_bit 16 i = 0x6531"
  then have "i \<noteq> 0" by auto
  from i obtain u ch where u: "entry_main 0 M s = chip_init 0 M ch u" "ch \<noteq> 1" "chip_id_var u = i"
    using entry_chip_read [OF assms(2) \<open>i \<noteq> 0\<close> assms(1)] by (auto split: if_splits)
  from returns_Ret [OF returns_chip_init [OF u(2)]] obtain t where t: "chip_init 0 M ch u = Ret () t" by fastforce
  have "wlp (chip_init 0 M ch) (\<lambda>_ t. chip_id_var t = i) u" by (rule hw_only_wlp [OF hw_only_chip_init]) (simp add: u)
  from wlp_Ret [OF this t] t u(1) show "\<exists>t. entry_main 0 M s = Ret () t \<and> chip_id_var t = i" by simp
next
  assume "i \<noteq> 0 \<and> drop_bit 16 i \<noteq> 0x6530 \<and> drop_bit 16 i \<noteq> 0x6531"
  then show "\<exists>t. entry_main 0 M s = OutOfFuel t" using entry_chip_read [OF assms(2) _ assms(1)] by simp
qed

text \<open>An SC6531E is not named by one register: its identification is put together from three.\<close>

lemma sc6531e_id_value: "sc6531e_id 0x36320000 0x53433635 1 = 0x65620001"
  by (simp add: sc6531e_id_def push_bit_eq_mult drop_bit_eq_div)

definition quiet_mmio :: "u32 \<Rightarrow> unit mmio" where
  "quiet_mmio i = \<lparr>rd1 = \<lambda>_ h. (0, h), rd2 = \<lambda>_ h. (0, h), rd4 = \<lambda>a h. (if a = 0x205003fc then i else 0, h),
     wr1 = \<lambda>_ _ h. h, wr2 = \<lambda>_ _ h. h, wr4 = \<lambda>_ _ h. h, hw_spins = 1\<rparr>"

definition blank_entst :: "'h \<Rightarrow> 'h entst" where
  "blank_entst h = \<lparr>packet_temp = (\<lambda>_. 0), rx = rx_init, tx = [], opens = [], ram = (\<lambda>_. 0), dl_start = 0, dl_size = 0, dl_recv = 0,
     hdev = h, chip_var = 0, chip_id_var = 0\<rparr>"

theorem entry_main_chip_witness:
  "\<exists>t. entry_main 0 (quiet_mmio 0x65310001) (blank_entst ()) = Ret () t \<and> chip_id_var t = 0x65310001 \<and> chip_now 0 t = 2"
proof -
  let ?M = "quiet_mmio 0x65310001"
  have d: "drop_bit 16 (0x65310001 :: u32) = 0x6531" by (simp add: drop_bit_eq_div)
  have "chip_var (blank_entst ()) = 0" "rd4 ?M 0x205003fc (hdev (blank_entst ())) = (0x65310001, ())"
    by (simp_all add: blank_entst_def quiet_mmio_def)
  from entry_main_chip [OF this] d show ?thesis by (fastforce simp: chip_of_def)
qed

section \<open>Waiting\<close>

lemma clk_rounds_eq: "clk_rounds r = max 1 ((unat r + 3) div 4)"
proof (induction r rule: clk_rounds.induct)
  case (1 r)
  show ?case
  proof (cases "r > 4")
    case True
    then have "(4 :: u32) \<le> r" "unat r > 4" by (simp_all add: word_less_nat_alt word_le_nat_alt)
    then have "unat (r - 4) = unat r - 4" by (simp add: unat_sub)
    moreover have "max 1 (k div 4) = Suc (max 1 ((k - 4) div 4))" if "k > 7" for k :: nat
      using div_add_self2 [of 4 "k - 4"] that by simp
    ultimately show ?thesis using 1 [OF True] True \<open>unat r > 4\<close>
      by (subst clk_rounds.simps) (simp del: max_def)
  next
    case False
    then have "unat r \<le> 4" by (simp add: word_le_nat_alt word_less_nat_alt not_less)
    then have "(unat r + 3) div 4 \<le> 1" by linarith
    then show ?thesis using False by (subst clk_rounds.simps) (simp add: max_def)
  qed
qed

lemma wait_clocks_eq:
  assumes "unat d * 312 < 2 ^ 32"
  shows "unat (wait_clocks ch d) = unat d * (if ch = 2 then 312 else 208)"
proof -
  define n where "n = unat d"
  have d: "d = of_nat n" and n: "n * 312 < 2 ^ 32" using assms by (simp_all add: n_def)
  have "push_bit 4 (d + d * 4 + d * 8) = of_nat (n * 208)"
    unfolding d by (simp add: push_bit_eq_mult algebra_simps)
  moreover have "drop_bit 1 (of_nat (n * 208) :: u32) = of_nat (n * 104)"
    by (rule word_unat_eq_iff [THEN iffD2]) (use n in \<open>simp add: drop_bit_eq_div unat_div unat_of_nat del: of_nat_mult\<close>)
  ultimately have "wait_clocks ch d = of_nat (n * (if ch = 2 then 312 else 208))"
    unfolding wait_clocks_def Let_def by (simp add: algebra_simps)
  then show ?thesis using n by (simp add: unat_of_nat n_def [symmetric] del: of_nat_mult)
qed

text \<open>
  A wait of \<open>d\<close> microseconds (up to 13.7 seconds) takes 52 rounds of four clocks for each of
  them at 208 MHz and 78 at the 312 MHz of an SC6531DA, and one round for no time at all.
\<close>

theorem wait_us_rounds:
  assumes "unat d * 312 < 2 ^ 32"
  shows "clk_rounds (wait_clocks ch d) = max 1 (unat d * (if ch = 2 then 78 else 52))"
  unfolding clk_rounds_eq wait_clocks_eq [OF assms] by auto

theorem wait_us_rounds_witness: "clk_rounds (wait_clocks 2 1000) = 78000"
  using wait_us_rounds [of 1000 2] by simp

section \<open>The fuse driver\<close>

text \<open>
  The fuse block as the driver relies on it, with a timer that ticks once in \<open>k\<close> reads: a
  store to register 8 chooses a fuse, bit 1 of register 0x14 stays set for a fuse that does not
  answer, and register 0 holds the word of the chosen one. \<open>g\<close> is what other registers hold.
\<close>

definition fuse_hw :: "nat \<Rightarrow> nat \<Rightarrow> (u32 \<Rightarrow> u32) \<Rightarrow> (nat \<Rightarrow> u32 option) \<Rightarrow> (nat \<times> nat) mmio" where
  "fuse_hw k n g ef = \<lparr>rd1 = \<lambda>_ h. (0, h), rd2 = \<lambda>_ h. (0, h),
     rd4 = \<lambda>a (T, i). if a = 0x8100300c then (of_nat (T div k), (Suc T, i))
       else (if a = EFUSE_CR 0x14 then if ef i = None then 2 else 0
         else if a = EFUSE_CR 0 then case ef i of Some v \<Rightarrow> v | None \<Rightarrow> g a else g a, (T, i)),
     wr1 = \<lambda>_ _ h. h, wr2 = \<lambda>_ _ h. h,
     wr4 = \<lambda>a v (T, i). if a = EFUSE_CR 8 then (T, unat (v AND 0xffff)) else (T, i), hw_spins = n\<rparr>"

lemma fuse_MEM4:
  "hdev s = (T, i) \<Longrightarrow> MEM4 (fuse_hw k n g ef) 0x8100300c s = Ret (of_nat (T div k)) (s\<lparr>hdev := (Suc T, i)\<rparr>)"
  "hdev s = (T, i) \<Longrightarrow> MEM4 (fuse_hw k n g ef) (EFUSE_CR 0x14) s = Ret (if ef i = None then 2 else 0) s"
  "hdev s = (T, i) \<Longrightarrow> ef i = Some v \<Longrightarrow> MEM4 (fuse_hw k n g ef) (EFUSE_CR 0) s = Ret v s"
  by (cases s; simp add: MEM4_def volatile_def fuse_hw_def EFUSE_CR_def)+

lemma of_nat_Suc_noteq: "(of_nat (Suc x) :: u32) \<noteq> of_nat x"
  by simp

lemma fuse_timer:
  assumes "hdev s = (T, i)" "2 \<le> k" "2 \<le> n"
  shows "\<exists>T'. sc_timer_ms (fuse_hw k n g ef) s = Ret (of_nat ((T + 1) div k)) (s\<lparr>hdev := (T', i)\<rparr>) \<and>
    T + 2 \<le> T' \<and> T' \<le> T + 3"
proof -
  obtain m where n: "n = Suc (Suc m)" using assms(3) by (metis add_2_eq_Suc le_Suc_ex)
  have h: "hw_spins (fuse_hw k n g ef) = Suc (Suc m)" by (simp add: fuse_hw_def n)
  note eqs = bnd_def fuse_MEM4 ret_def h assms(1) sc_timer_ms_def
  show ?thesis
  proof (cases "Suc T mod k = 0")
    case False
    then have "Suc T div k = T div k" by (simp add: div_Suc)
    then show ?thesis by (intro exI [of _ "T + 2"]) (simp add: eqs)
  next
    case True
    then have e: "Suc T div k = Suc (T div k)" by (simp add: div_Suc)
    have "Suc (Suc T) mod k \<noteq> 0" using True assms(2) by (simp add: mod_Suc)
    then have "Suc (Suc T) div k = Suc T div k" by (simp add: div_Suc)
    then show ?thesis using e by (intro exI [of _ "T + 3"]) (simp add: eqs del: of_nat_Suc, simp)
  qed
qed

lemma ticks_since:
  assumes "a \<le> v" "v < a + 5"
  shows "((of_nat v :: u32) - of_nat a < 2) = (v < a + 2)" "((of_nat v :: u32) - of_nat a > 2) = (a + 2 < v)"
proof -
  have d: "(of_nat v :: u32) - of_nat a = of_nat (v - a)" using assms(1) by (simp add: of_nat_diff)
  have u: "unat (of_nat (v - a) :: u32) = v - a" using assms(2) by (simp add: unat_of_nat)
  show "((of_nat v :: u32) - of_nat a < 2) = (v < a + 2)" unfolding d word_less_nat_alt u using assms(1) by auto
  show "((of_nat v :: u32) - of_nat a > 2) = (a + 2 < v)" unfolding d word_less_nat_alt u using assms(1) by auto
qed

lemma div_between:
  fixes a k c T :: nat
  assumes "a * k \<le> T" "T < (a + c) * k"
  shows "a \<le> T div k" "T div k < a + c"
  using assms less_mult_imp_div_less [of T "a + c" k] div_le_mono [OF assms(1), of k] by (cases "k = 0"; simp)+

lemma fuse_spin:
  fixes k n g ef a
  defines "c \<equiv> bnd (sc_timer_ms (fuse_hw k n g ef)) (\<lambda>t. ret (\<not> t - of_nat a < 2))"
  assumes "hdev s = (T, i)" "2 \<le> k" "2 \<le> n" "a * k \<le> T + 1" "T + 1 < (a + 4) * k" "(a + 2) * k \<le> T + 1 + 2 * m"
  shows "\<exists>T'. spin (Suc m) c s = Ret () (s\<lparr>hdev := (T', i)\<rparr>)"
  using assms(2-)
proof (induction m arbitrary: s T)
  case (0 s T)
  let ?v = "(T + 1) div k"
  from fuse_timer [OF "0.prems"(1-3)] obtain T' where
    T: "sc_timer_ms (fuse_hw k n g ef) s = Ret (of_nat ?v) (s\<lparr>hdev := (T', i)\<rparr>)" by blast
  have v: "a \<le> ?v" "?v < a + 5" "a + 2 \<le> ?v"
    using div_between [OF "0.prems"(4,5)] div_le_mono [OF "0.prems"(6), of k] "0.prems"(2) by simp_all
  have "c s = Ret True (s\<lparr>hdev := (T', i)\<rparr>)" unfolding c_def bnd_def T outcome.case ret_def ticks_since(1) [OF v(1,2)] using v by simp
  then show ?case by (intro exI [of _ T'] spin_step)
next
  case (Suc m s T)
  let ?v = "(T + 1) div k"
  from fuse_timer [OF Suc.prems(1-3)] obtain T' where
    T: "sc_timer_ms (fuse_hw k n g ef) s = Ret (of_nat ?v) (s\<lparr>hdev := (T', i)\<rparr>)" "T + 2 \<le> T'" "T' \<le> T + 3" by blast
  have v: "a \<le> ?v" "?v < a + 5" using div_between [OF Suc.prems(4,5)] by simp_all
  have c: "c s = Ret (\<not> ?v < a + 2) (s\<lparr>hdev := (T', i)\<rparr>)"
    unfolding c_def bnd_def T outcome.case ret_def ticks_since(1) [OF v] ..
  show ?case
  proof (cases "?v < a + 2")
    case False
    then have "c s = Ret True (s\<lparr>hdev := (T', i)\<rparr>)" using c by simp
    then show ?thesis by (intro exI [of _ T'] spin_step)
  next
    case True
    then have "T + 1 < (a + 2) * k" using Suc.prems(2) by (metis div_less_iff_less_mult less_le_trans zero_less_numeral)
    then have b: "T' + 1 < (a + 4) * k" using T(3) Suc.prems(2) unfolding add_mult_distrib by linarith
    have "\<exists>T''. spin (Suc m) c (s\<lparr>hdev := (T', i)\<rparr>) = Ret () (s\<lparr>hdev := (T', i), hdev := (T'', i)\<rparr>)"
      by (rule Suc.IH [OF _ Suc.prems(2,3) _ b]) (use T(2,3) Suc.prems in auto)
    moreover have "c s = Ret False (s\<lparr>hdev := (T', i)\<rparr>)" using c True by simp
    ultimately show ?thesis using spin_step(2) [of c s "s\<lparr>hdev := (T', i)\<rparr>" "Suc m"] by simp
  qed
qed

lemma fuse_wait:
  assumes "hdev s = (T, i)" "2 \<le> k" "2 * k \<le> n"
  shows "\<exists>T'. sc_wait_ms (fuse_hw k n g ef) 2 s = Ret () (s\<lparr>hdev := (T', i)\<rparr>)"
proof -
  have n: "2 \<le> n" using assms(2,3) by simp
  define a where "a = (T + 1) div k"
  from fuse_timer [OF assms(1,2) n] obtain T' where
    T: "sc_timer_ms (fuse_hw k n g ef) s = Ret (of_nat a) (s\<lparr>hdev := (T', i)\<rparr>)" "T + 2 \<le> T'" "T' \<le> T + 3"
    unfolding a_def by blast
  obtain m where m: "n = Suc m" using n by (cases n) auto
  have "a * k \<le> T + 1" "T + 1 < a * k + k"
    unfolding a_def using assms(2) div_mult_mod_eq [of "T + 1" k] mod_less_divisor [of k "T + 1"] by linarith+
  then have a: "a * k \<le> T' + 1" "T' + 1 < (a + 4) * k" "(a + 2) * k \<le> T' + 1 + 2 * m"
    unfolding add_mult_distrib using T(2,3) assms(2,3) m by linarith+
  have "\<exists>T''. spin (Suc m) (bnd (sc_timer_ms (fuse_hw k n g ef)) (\<lambda>t. ret (\<not> t - of_nat a < 2))) (s\<lparr>hdev := (T', i)\<rparr>) =
    Ret () (s\<lparr>hdev := (T', i), hdev := (T'', i)\<rparr>)"
    by (rule fuse_spin [OF _ assms(2) n a]) simp
  moreover have "hw_spins (fuse_hw k n g ef) = Suc m" by (simp add: fuse_hw_def m)
  ultimately show ?thesis unfolding sc_wait_ms_def bnd_def T outcome.case by simp
qed

lemma fuse_answers:
  assumes "hdev s = (T, i)" "ef i \<noteq> None"
  shows "efuse_poll (fuse_hw k n g ef) (Suc m) t0 s = Ret True s"
proof -
  from assms(2) obtain v where "ef i = Some v" by blast
  then show ?thesis using fuse_MEM4(2) [OF assms(1), of k n g ef] by (simp add: bnd_def ret_def)
qed

lemma fuse_poll:
  fixes k n g ef
  defines "M \<equiv> fuse_hw k n g ef"
  assumes "hdev s = (T, i)" "2 \<le> k" "2 \<le> n" "a * k \<le> T + 1" "T + 1 < (a + 5) * k" "(a + 3) * k \<le> T + 1 + 2 * m"
  shows "\<exists>T'. efuse_poll M (Suc m) (of_nat a) s = Ret (ef i \<noteq> None) (s\<lparr>hdev := (T', i)\<rparr>)"
  using assms(2-)
proof (induction m arbitrary: s T)
  case (0 s T)
  let ?v = "(T + 1) div k"
  show ?case
  proof (cases "ef i = None")
    case True
    from fuse_timer [OF "0.prems"(1-3)] obtain T' where
      T: "sc_timer_ms M s = Ret (of_nat ?v) (s\<lparr>hdev := (T', i)\<rparr>)" unfolding M_def by blast
    have v: "a \<le> ?v" "?v < a + 5" "a + 2 < ?v"
      using div_between [OF "0.prems"(4,5)] div_le_mono [OF "0.prems"(6), of k] "0.prems"(2) by simp_all
    show ?thesis using v ticks_since(2) [OF v(1,2)] True fuse_MEM4(2) [OF "0.prems"(1), of k n g ef]
      by (intro exI [of _ T']) (simp add: bnd_def T ret_def M_def [symmetric])
  next
    case False
    then show ?thesis using fuse_answers [OF "0.prems"(1)] "0.prems"(1)
      by (intro exI [of _ T]) (simp add: M_def del: efuse_poll.simps)
  qed
next
  case (Suc m s T)
  let ?v = "(T + 1) div k"
  show ?case
  proof (cases "ef i = None")
    case True
    from fuse_timer [OF Suc.prems(1-3)] obtain T' where
      T: "sc_timer_ms M s = Ret (of_nat ?v) (s\<lparr>hdev := (T', i)\<rparr>)" "T + 2 \<le> T'" "T' \<le> T + 3" unfolding M_def by blast
    have v: "a \<le> ?v" "?v < a + 5" using div_between [OF Suc.prems(4,5)] by simp_all
    have e: "efuse_poll M (Suc (Suc m)) (of_nat a) s =
        (if a + 2 < ?v then Ret False else efuse_poll M (Suc m) (of_nat a)) (s\<lparr>hdev := (T', i)\<rparr>)"
      using fuse_MEM4(2) [OF Suc.prems(1), of k n g ef] True ticks_since(2) [OF v]
      by (subst efuse_poll.simps) (simp add: bnd_def T(1) ret_def M_def [symmetric] del: efuse_poll.simps)
    show ?thesis
    proof (cases "a + 2 < ?v")
      case True
      then show ?thesis unfolding e using \<open>ef i = None\<close> by auto
    next
      case False
      then have "?v < a + 3" by simp
      then have "T + 1 < (a + 3) * k" using Suc.prems(2) by (metis div_less_iff_less_mult less_le_trans zero_less_numeral)
      then have b: "T' + 1 < (a + 5) * k" using T(3) Suc.prems(2) unfolding add_mult_distrib by linarith
      have "\<exists>T''. efuse_poll M (Suc m) (of_nat a) (s\<lparr>hdev := (T', i)\<rparr>) =
        Ret (ef i \<noteq> None) (s\<lparr>hdev := (T', i), hdev := (T'', i)\<rparr>)"
        by (rule Suc.IH [OF _ Suc.prems(2,3) _ b]) (use T(2,3) Suc.prems in auto)
      then show ?thesis unfolding e using False by auto
    qed
  next
    case False
    then show ?thesis using fuse_answers [OF Suc.prems(1)] Suc.prems(1)
      by (intro exI [of _ T]) (simp add: M_def del: efuse_poll.simps)
  qed
qed

lemma fuse_quiet:
  assumes "a \<noteq> 0x8100300c" "a \<noteq> EFUSE_CR 8"
  shows "set4 (fuse_hw k n g ef) a v s = Ret () s" "or4 (fuse_hw k n g ef) a v s = Ret () s"
    "and4 (fuse_hw k n g ef) a v s = Ret () s"
  using assms by (cases s; cases "hdev s";
    simp add: or4_def and4_def set4_def MEM4_def volatile_def modify_def bnd_def fuse_hw_def split: prod.split)+

lemma fuse_choose:
  assumes "hdev s = (T, j)" "i < 2 ^ 16"
  shows "set4 (fuse_hw k n g ef) (EFUSE_CR 8) (of_nat i OR push_bit 16 (of_nat i)) s = Ret () (s\<lparr>hdev := (T, i)\<rparr>)"
proof -
  have m: "(0xffff :: u32) = mask 16" by (simp add: mask_eq_exp_minus_1)
  have "((of_nat i OR push_bit 16 (of_nat i)) AND 0xffff :: u32) = take_bit 16 (of_nat i)"
    unfolding m take_bit_eq_mask [symmetric] take_bit_or by (simp add: take_bit_push_bit)
  then have "unat ((of_nat i OR push_bit 16 (of_nat i)) AND 0xffff :: u32) = i"
    using assms(2) by (simp only: unsigned_take_bit_eq unsigned_of_nat take_bit_take_bit) (simp add: take_bit_eq_mod)
  then show ?thesis using assms(1) by (simp add: set4_def modify_def fuse_hw_def)
qed

lemma fuse_read:
  assumes "hdev s = (T, j)" "2 \<le> k" "2 * k \<le> n" "i < 2 ^ 16"
  shows "\<exists>T'. sc_efuse_read (fuse_hw k n g ef) (of_nat i) s = Ret (ef i) (s\<lparr>hdev := (T', i)\<rparr>)"
proof -
  let ?M = "fuse_hw k n g ef"
  have n: "2 \<le> n" using assms(2,3) by simp
  obtain m where m: "n = Suc m" using n by (cases n) auto
  have h: "hw_spins ?M = Suc m" by (simp add: fuse_hw_def m)
  define u where "u = s\<lparr>hdev := (T, i)\<rparr>"
  have u: "hdev u = (T, i)" by (simp add: u_def)
  define a where "a = (T + 1) div k"
  from fuse_timer [OF u assms(2) n] obtain T' where
    T: "sc_timer_ms ?M u = Ret (of_nat a) (u\<lparr>hdev := (T', i)\<rparr>)" "T + 2 \<le> T'" "T' \<le> T + 3" unfolding a_def by blast
  have "a * k \<le> T + 1" "T + 1 < a * k + k"
    unfolding a_def using assms(2) div_mult_mod_eq [of "T + 1" k] mod_less_divisor [of k "T + 1"] by linarith+
  then have a: "a * k \<le> T' + 1" "T' + 1 < (a + 5) * k" "(a + 3) * k \<le> T' + 1 + 2 * m"
    unfolding add_mult_distrib using T(2,3) assms(2,3) m by linarith+
  have "\<exists>T''. efuse_poll ?M (Suc m) (of_nat a) (u\<lparr>hdev := (T', i)\<rparr>) = Ret (ef i \<noteq> None) (u\<lparr>hdev := (T', i), hdev := (T'', i)\<rparr>)"
    by (rule fuse_poll [OF _ assms(2) n a]) simp
  then obtain T'' where p: "efuse_poll ?M (Suc m) (of_nat a) (u\<lparr>hdev := (T', i)\<rparr>) = Ret (ef i \<noteq> None) (u\<lparr>hdev := (T'', i)\<rparr>)"
    by auto
  have q: "or4 ?M (EFUSE_CR 0xc) 2 u = Ret () u" by (rule fuse_quiet) (simp_all add: EFUSE_CR_def)
  have e: "sc_efuse_read ?M (of_nat i) s = (if ef i \<noteq> None then bnd (MEM4 ?M (EFUSE_CR 0)) (\<lambda>v. ret (Some v)) else ret None)
      (u\<lparr>hdev := (T'', i)\<rparr>)"
    unfolding sc_efuse_read_def thn_def bnd_def h fuse_choose [OF assms(1,4)] outcome.case u_def [symmetric] q T(1) p ..
  show ?thesis
  proof (cases "ef i")
    case (Some v)
    have "MEM4 ?M (EFUSE_CR 0) (u\<lparr>hdev := (T'', i)\<rparr>) = Ret v (u\<lparr>hdev := (T'', i)\<rparr>)" by (rule fuse_MEM4(3) [where T = T'' and i = i]) (simp_all add: Some)
    then show ?thesis unfolding e using Some by (intro exI [of _ T'']) (simp add: bnd_def ret_def u_def)
  next
    case None
    then show ?thesis unfolding e by (intro exI [of _ T'']) (simp add: ret_def u_def)
  qed
qed

text \<open>The words of the fuses from \<open>i\<close> on, or nothing when one of them does not answer.\<close>

definition fuse_words :: "(nat \<Rightarrow> u32 option) \<Rightarrow> nat \<Rightarrow> nat \<Rightarrow> u32 list option" where
  "fuse_words ef i n = (if list_all (\<lambda>i. ef i \<noteq> None) [i..<i + n] then Some (map (\<lambda>i. the (ef i)) [i..<i + n]) else None)"

lemma fuse_words_Suc:
  "fuse_words ef i (Suc n) = (case ef i of None \<Rightarrow> None | Some v \<Rightarrow> map_option (Cons v) (fuse_words ef (Suc i) n))"
proof -
  have "[i..<i + Suc n] = i # [Suc i..<Suc i + n]" using upt_conv_Cons [of i "i + Suc n"] by simp
  then show ?thesis by (simp only: fuse_words_def) (auto split: option.split)
qed

lemma fuse_from:
  assumes "hdev s = (T, j)" "2 \<le> k" "2 * k \<le> n" "i + c \<le> 2 ^ 16"
  shows "\<exists>d. efuse_from (fuse_hw k n g ef) i c s = Ret (fuse_words ef i c) (s\<lparr>hdev := d\<rparr>)"
  using assms(1,4)
proof (induction c arbitrary: i j s T)
  case 0
  then show ?case by (intro exI [of _ "(T, j)"]) (cases s, simp add: ret_def fuse_words_def)
next
  case (Suc c)
  from fuse_read [OF Suc.prems(1) assms(2,3), of i] Suc.prems(2) obtain T' where
    r: "sc_efuse_read (fuse_hw k n g ef) (of_nat i) s = Ret (ef i) (s\<lparr>hdev := (T', i)\<rparr>)" by fastforce
  have "\<exists>d. efuse_from (fuse_hw k n g ef) (Suc i) c (s\<lparr>hdev := (T', i)\<rparr>) =
      Ret (fuse_words ef (Suc i) c) (s\<lparr>hdev := (T', i), hdev := d\<rparr>)"
    by (rule Suc.IH) (use Suc.prems in simp_all)
  then obtain d where d: "efuse_from (fuse_hw k n g ef) (Suc i) c (s\<lparr>hdev := (T', i)\<rparr>) =
      Ret (fuse_words ef (Suc i) c) (s\<lparr>hdev := d\<rparr>)" by auto
  show ?case
  proof (cases "ef i")
    case None
    then show ?thesis by (intro exI [of _ "(T', i)"]) (simp add: bnd_def r fuse_words_Suc ret_def)
  next
    case (Some v)
    then show ?thesis by (intro exI [of _ d]) (simp add: bnd_def r d fuse_words_Suc ret_def)
  qed
qed

lemma fuse_init:
  assumes "hdev s = (T, j)" "2 \<le> k" "2 * k \<le> n"
  shows "\<exists>T'. sc_efuse_init ch (fuse_hw k n g ef) s = Ret () (s\<lparr>hdev := (T', j)\<rparr>)"
proof -
  from fuse_wait [OF assms] obtain T' where "sc_wait_ms (fuse_hw k n g ef) 2 s = Ret () (s\<lparr>hdev := (T', j)\<rparr>)" by blast
  then show ?thesis
    by (intro exI [of _ T'])
      (simp add: sc_efuse_init_def Let_def steps_def thn_def bnd_def ret_def fuse_quiet EFUSE_CR_def)
qed

lemma fuse_off: "sc_efuse_off ch (fuse_hw k n g ef) s = Ret () s"
  by (simp add: sc_efuse_off_def steps_def thn_def bnd_def ret_def fuse_quiet EFUSE_CR_def)

lemma takeWhile_all: "length (takeWhile P xs) = length xs \<longleftrightarrow> list_all P xs"
  by (induction xs) auto

lemma fuse_words_got:
  "fuse_words (efuse B) 0 (EFUSE_MAX B) = (if length (efuse_got B) = EFUSE_MAX B then Some (efuse_got B) else None)"
proof -
  let ?vs = "map (efuse B) [0..<EFUSE_MAX B]"
  have l: "length (efuse_got B) = EFUSE_MAX B \<longleftrightarrow> list_all (\<lambda>i. efuse B i \<noteq> None) [0..<EFUSE_MAX B]"
    using takeWhile_all [of "\<lambda>v. v \<noteq> None" ?vs] by (simp add: efuse_got_def list.pred_map comp_def)
  have "efuse_got B = map (\<lambda>i. the (efuse B i)) [0..<EFUSE_MAX B]" if "list_all (\<lambda>i. efuse B i \<noteq> None) [0..<EFUSE_MAX B]"
  proof -
    have "takeWhile (\<lambda>v. v \<noteq> None) ?vs = ?vs" using that by (simp add: takeWhile_eq_all_conv list_all_iff)
    then show ?thesis unfolding efuse_got_def by (simp only: map_map comp_def)
  qed
  then show ?thesis using l by (simp add: fuse_words_def)
qed

text \<open>
  C34: The fuse driver gives what the command loop takes as the parameter \<open>efuse\<close>: on a fuse
  block with the words \<open>efuse B\<close>, and with enough polls for the timer to move on, \<open>efuse_init\<close>,
  \<open>efuse_read\<close> for each fuse of the chip and \<open>efuse_off\<close> always come to an end, those that do
  not answer included, and \<open>read_efuse\<close> sends the words they give, or reports an error when
  one of them does not answer; then the words of the fuses before it stay in the send buffer.
\<close>

theorem fuse_driver_refines:
  assumes "hdev s = (T, j)" "2 \<le> k" "2 * k \<le> n"
  shows "\<exists>vs d. efuse_all (chip_no B) (fuse_hw k n g (efuse B)) s = Ret vs (s\<lparr>hdev := d\<rparr>) \<and>
    (vs = None \<longleftrightarrow> (\<exists>i < EFUSE_MAX B. efuse B i = None)) \<and>
    read_efuse B u =
      (if pkt16 u 2 \<noteq> 0 then Ret BSL_REP_INVALID_CMD u
       else case vs of
         None \<Rightarrow> Ret BSL_REP_OPERATION_FAILED (u\<lparr>packet_temp :=
           blit (blit (packet_temp u) dl_send_buf (WRITE16_BE BSL_REP_READ_FLASH)) (dl_send_buf + 4)
             (concat (map WRITE32_LE (map the (takeWhile (\<lambda>v. v \<noteq> None) (map (efuse B) [0..<EFUSE_MAX B])))))\<rparr>)
       | Some ws \<Rightarrow> thn (send_reply (rom B) BSL_REP_READ_FLASH (concat (map WRITE32_LE ws))) (ret 0) u)"
proof -
  let ?M = "fuse_hw k n g (efuse B)" and ?c = "EFUSE_MAX B"
  have c: "(if chip_no B = 1 then 16 else 8) = ?c" "?c \<le> 16" by (simp_all add: EFUSE_MAX_def)
  from fuse_init [OF assms] obtain T' where i: "sc_efuse_init (chip_no B) ?M s = Ret () (s\<lparr>hdev := (T', j)\<rparr>)" by blast
  have "\<exists>d. efuse_from ?M 0 ?c (s\<lparr>hdev := (T', j)\<rparr>) = Ret (fuse_words (efuse B) 0 ?c) (s\<lparr>hdev := (T', j), hdev := d\<rparr>)"
    by (rule fuse_from [OF _ assms(2,3)]) (use c(2) in simp_all)
  then obtain d where f: "efuse_from ?M 0 ?c (s\<lparr>hdev := (T', j)\<rparr>) = Ret (fuse_words (efuse B) 0 ?c) (s\<lparr>hdev := d\<rparr>)" by auto
  have "efuse_all (chip_no B) ?M s = Ret (fuse_words (efuse B) 0 ?c) (s\<lparr>hdev := d\<rparr>)"
    unfolding efuse_all_def c(1) by (simp add: thn_def bnd_def i f cwhen_def fuse_off ret_def)
  moreover have "fuse_words (efuse B) 0 ?c = None \<longleftrightarrow> (\<exists>i < ?c. efuse B i = None)"
    by (auto simp: fuse_words_def list_all_iff)
  moreover have "read_efuse B u =
      (if pkt16 u 2 \<noteq> 0 then Ret BSL_REP_INVALID_CMD u
       else case fuse_words (efuse B) 0 ?c of
         None \<Rightarrow> Ret BSL_REP_OPERATION_FAILED (u\<lparr>packet_temp :=
           blit (blit (packet_temp u) dl_send_buf (WRITE16_BE BSL_REP_READ_FLASH)) (dl_send_buf + 4)
             (concat (map WRITE32_LE (efuse_got B)))\<rparr>)
       | Some ws \<Rightarrow> thn (send_reply (rom B) BSL_REP_READ_FLASH (concat (map WRITE32_LE ws))) (ret 0) u)"
    unfolding fuse_words_got by (simp add: read_efuse_def)
  ultimately show ?thesis unfolding efuse_got_def by (intro exI conjI)
qed

theorem fuse_driver_refines_witness:
  "\<exists>vs d. efuse_all 1 (fuse_hw 3 6 (\<lambda>_. 0) (\<lambda>i. if i < 15 then Some 7 else None)) (blank_entst (0, 0)) =
    Ret vs ((blank_entst (0, 0))\<lparr>hdev := d\<rparr>) \<and> vs = None"
proof -
  let ?B = "sim_board\<lparr>efuse := \<lambda>i. if i < 15 then Some 7 else None\<rparr>"
  have h: "hdev (blank_entst (0, 0)) = (0, 0)" by (simp add: blank_entst_def)
  have B: "chip_no ?B = 1" "efuse ?B = (\<lambda>i. if i < 15 then Some 7 else None)" "EFUSE_MAX ?B = 16"
    by (simp_all add: sim_board_def sim_nor_def nor.defs EFUSE_MAX_def)
  have e: "\<exists>i < EFUSE_MAX ?B. efuse ?B i = None" unfolding B by (intro exI [of _ 15]) simp
  show ?thesis
    using fuse_driver_refines [of "blank_entst (0, 0)" 0 0 3 6 ?B "\<lambda>_. 0" sample_midst, OF h] e
    unfolding B(1,2) by auto
qed

end
