(* ===== verification/Spec2Isabelle.thy ===== *)
theory Spec2Isabelle
  imports Link SpdMain Unpac Bignum FwSign UsbRing FdlFlash LzmaSafe FwLzRt FwSmsRt FwDataEnd FwHelper FwScanEnd T117SignRt T117NvRt T117LcdRt T117Helper T117Link T117UsbRt T117ZqRt FdlHwRt
begin

text \<open>
  A verification library for spreadtrum_flash, a set of C programs that read and write the
  memory of phones with Spreadtrum chips: spd_dump (src/spd_dump.c, on the PC), custom_fdl (a
  loader that spd_dump sends into the phone and then talks to), unpac (src/unpac/unpac.c,
  unpacks firmware archives) and fphelper (src/fphelper, works on firmware images).

  How the parts interact. spd_dump and the loader exchange messages (type, length, data) over
  a USB bulk link. A message is followed by a checksum, put between two header bytes and
  escaped (HDLC framing). The boot ROM takes the CRC-16 variant of the checksum, the loader a
  ones' complement sum. spd_dump uploads with START_DATA, MIDST_DATA, END_DATA, reads with
  READ_FLASH, erases with ERASE_FLASH. The loader keeps the download state, copies data to
  RAM or, in the flash window, programs the serial flash through the controller driver.

  Theories, in the order they build on each other.

  \<^item> \<open>Prelude\<close>: machine words, byte memories, the READ/WRITE macros. \<open>CMonad\<close>: C statements as
    state transformers with process exit and loops that may run out of rounds; weakest
    preconditions (total, \<open>wp\<close>) and liberal ones (\<open>wlp\<close>). \<open>CStd\<close>: the C library functions used.
  \<^item> \<open>Checksum\<close> (spd_crc16, spd_checksum; dl_crc16, dl_fastchk16): both ends agree, corrupting
    nothing they accept. \<open>Hdlc\<close>: escaping, and the locale \<open>hdlc_receiver\<close>, whose theorem
    says that a receiver gets a packet back from its frame; it is interpreted for the
    loader's dl_get_packet in \<open>FdlPacket\<close> and the host's recv_msg1 in \<open>SpdIo\<close>. \<open>BslCmd\<close>:
    the command numbers.
  \<^item> Host: \<open>SpdIo\<close> (encode_msg, send_msg, recv_msg), \<open>SpdXchg\<close> (the locale of an exchange of
    messages and what the transfers need of it), \<open>SpdCmd\<close> (send_buf, read_flash, dump_mem,
    dump_flash), \<open>SpdPart\<close> (partitions), \<open>SpdMain\<close> (the command line and chip detection).
    The state \<open>host\<close> is \<open>spdio_t\<close> with the files and the terminal; libusb is the parameter \<open>usb\<close>.
  \<^item> Loader: \<open>FdlPacket\<close> (packet.c), \<open>FdlState\<close> (what both command loops share), \<open>FdlUsb\<close> (usbio.c: controller, ring buffer), \<open>FdlSfc\<close>
    (sfc.c), \<open>FdlMain\<close> (main.c). \<open>FdlSpec\<close> is the abstract device (download state and memory)
    and the refinement lemma. \<open>UsbRing\<close>: the ring buffer is a queue (locale \<open>byte_queue\<close>), no
    byte is lost under any behaviour of the controller, how writes are cut into packets.
    \<open>FlashChip\<close>: the bytes that the flash controller sends; the locale \<open>nor_flash\<close> says what a
    chip of a given size and maker does with them: its protection bits may lock sectors, of
    which nothing is supposed until they are cleared, and nothing is said of addresses above
    the size. A simulated Winbond chip of 4 MB satisfies it. \<open>FdlFlash\<close>: sfc_unlock frees the
    chips of the three makers it knows, and programming and erasing through the loader's
    commands work on them. \<open>Regs\<close>: memory-mapped registers, a parameter \<open>mmio\<close> that may answer as
    it likes. \<open>FdlHw\<close> (entry.c, syscode.h, efuse.h and the init_ headers): timer, fuses, which
    chip it is and its set-up; \<open>FdlHwRt\<close>: the chip that is found is the one its identification
    names, the fuse driver gives what \<open>FdlMain\<close> takes as a parameter, how long a wait is.
  \<^item> \<open>Wire\<close>: the cable, and the locale \<open>wired\<close> of a loader whose handling of a message refines
    the abstract device; \<open>Link\<close> is the custom loader on it. A memory upload, a memory dump and a
    firmware read arrive intact whatever the sizes of the USB transfers are.
  \<^item> The loader for the UMS9117 (t117_fdl), on the same packet layer. \<open>T117Hw\<close> (entry.c, efuse.h):
    timer, power and clocks.
    \<open>T117Ram\<close> (sdram_init.c): the set-up of the DRAM; \<open>T117RamRt\<close>: self-test and training end on
    any hardware, the self-test returns the verdict of the test block on the wanted test, the
    training picks the right range of delays; \<open>T117ZqRt\<close>: the calibration of
    the drivers finds the strength at which the comparator flips, the delay registers get
    exactly the delay that is wanted. \<open>T117Usb\<close> (usbio.c): DMA transfers; \<open>T117UsbRt\<close>: the bytes
    of a transfer are handed out in order, and what an empty transfer does. \<open>T117Main\<close> (main.c),
    \<open>T117Link\<close>: the loader refines the abstract device and is the second interpretation of
    \<open>wired\<close>; the first download to DRAM sets it up.
  \<^item> \<open>Unpac\<close>: unpac.c. \<open>Bignum\<close>, \<open>FwCrypto\<close>, \<open>FwKey\<close>, \<open>FwSign\<close>: fphelper/fwcrypto.c, with
    OpenSSL as the record \<open>crypto\<close> of parameters.
  \<^item> \<open>LzmaDec\<close>: fphelper/lzmadec.h, the decoder of the compressed parts of an image;
    \<open>LzmaSafe\<close>: it ends and stays in bounds on every input, its arithmetic is exact.
  \<^item> fphelper/main.c, on the image as a byte list and the state \<open>fph\<close> (files, output, the
    clues of a scan; \<open>FwBase\<close>). \<open>FwLz\<close>: the copy, zero and LZ decoders and run_decoder;
    \<open>FwLzRt\<close>: they stay in bounds and invert the encoders of their formats. \<open>FwSms\<close>: the texts,
    numbers and messages in the stored data; \<open>FwSmsRt\<close>: they come back from their encodings.
    \<open>FwData\<close>: scan_data, the storage blocks and the FAT image; \<open>FwDataEnd\<close>: when it ends and
    on which images it does not. \<open>FwDial\<close>: scan_user; \<open>FwLcd\<close>: lcd_init_dec, the decompiler
    of LCD start-up code, and its bounds. \<open>FwKeys\<close> (keymap, LCD, flash and pin tables), \<open>FwInit\<close>
    (the init table), \<open>FwDrps\<close> (drps_decode) and \<open>FwScan\<close> (scan_fw) are the firmware scan;
    \<open>FwHelper\<close> has sdboot_helper and the command line. \<open>FwScanEnd\<close>: both firmware scans
    return, when reading behind the image gives 0.
  \<^item> fphelper_t117, the same tools for the UMS9117, on the state \<open>tph\<close>; what is the same code as
    in fphelper is the same definition. \<open>T117Sign\<close> (fwcrypto.c, with OpenSSL as the record
    \<open>crypto117\<close>) and \<open>T117SignRt\<close>: a signature that the tool makes is accepted by it, images with
    data are refused. \<open>T117Nv\<close> (scan_nv) and \<open>T117NvRt\<close>: a dump of the stored items is listed
    completely. \<open>T117Init\<close>, \<open>T117Scan\<close>: scan_fw. \<open>T117Lcd\<close> (lcd_init_dec, find_calls) and
    \<open>T117LcdRt\<close>: no BL is missed. \<open>T117Helper\<close>: scan_user and the command line.

  Fuel. Loops that the outside world keeps busy take the number of rounds as an argument or
  from the environment: \<open>usb_spins\<close> and \<open>spins\<close> are how often a hardware register is read
  before giving up (\<open>hw_spins\<close> for registers), and the theorems on writes ask only that the
  hardware answers within them: the flash controller is ready again after \<open>polls\<close> reads of its
  status; the transfer loops of the host get as many rounds as there are bytes, which is
  enough as every round moves at least one (\<open>SpdXchg\<close>); \<open>dl_loop\<close> and
  \<open>dl_get_packet\<close> recurse on the input and need none; \<open>lz_loop\<close> gets one round more than
  the output has room for, and each round fills at least one byte; the LZ decoders get one
  more than the input has bytes, the firmware scan one more than the image; \<open>scan_data\<close> takes
  the number as an argument, as the code may go round for ever. Running out of rounds is the outcome
  \<open>OutOfFuel\<close>, which satisfies no \<open>wp\<close>.

  Not modelled: the serial-port build of spd_dump, the LZMA SDK (third party) and the assembly
  start code, whose meaning lies in the processor alone. Fuses are read by the command loop
  from a parameter, to which the driver is linked by a theorem. Memory-mapped flash reads see the chip
  in every mode of the controller; a download on top of a loader's own variables, and reads of
  peripheral registers through READ_FLASH, are excluded; a word behind the end of a firmware
  image reads as 0, where the C programs read whatever lies there, so the crash that a wrapped
  size leads to (find_tfboot of fphelper_t117) is not seen; the two bytes in front of an image
  and the byte behind a literal, which the code also reads, are parameters (\<open>fpenv\<close>); delay
  loops that only pass the time (DELAY) are left out; the DMA of the UMS9117 is taken to
  fill a buffer only before it is handed out; arithmetic on host pointers is not bounded by an
  address space.
\<close>

end
